(* ===== verification/Prelude.thy ===== *)
theory Prelude
  imports Main "HOL-Library.Word"
begin

unbundle bit_operations_syntax

text \<open>
  Shared vocabulary of the development: the machine types of the C++ sources, the
  value \<open>EOF\<close> that the stub's functions return on failure, the ASCII codes of the
  remote protocol, reads of a C buffer that make an access outside it visible, and the
  generic lemmas and theorem collections the component theories use.

  \<^item> \<open>char\<close>, \<open>unsigned char\<close> are \<open>byte\<close> (8 bits); where the sign of a
    \<open>char\<close> matters the definitions read it with \<open>sint\<close> (the hosts the Makefile
    names are x86-64, where \<open>char\<close> is signed).
  \<^item> \<open>unsigned int\<close>, \<open>uint32_t\<close> and the bits of an \<open>int\<close> are \<open>u32\<close>,
    \<open>uint64_t\<close> is \<open>u64\<close>; their arithmetic wraps. An \<open>int\<close> that only carries a
    status (a length, 0, or \<open>EOF\<close>) is an \<open>int\<close>.
\<close>

type_synonym byte = "8 word"
type_synonym u16 = "16 word"
type_synonym u32 = "32 word"
type_synonym u64 = "64 word"

abbreviation EOF :: int where
  "EOF \<equiv> -1"

abbreviation ch_hash :: byte where
  "ch_hash \<equiv> 0x23"

abbreviation ch_dollar :: byte where
  "ch_dollar \<equiv> 0x24"

abbreviation ch_star :: byte where
  "ch_star \<equiv> 0x2a"

abbreviation ch_plus :: byte where
  "ch_plus \<equiv> 0x2b"

abbreviation ch_comma :: byte where
  "ch_comma \<equiv> 0x2c"

abbreviation ch_minus :: byte where
  "ch_minus \<equiv> 0x2d"

abbreviation ch_colon :: byte where
  "ch_colon \<equiv> 0x3a"

abbreviation ch_rbrace :: byte where
  "ch_rbrace \<equiv> 0x7d"

named_theorems codec_simps "evaluation rules of the hexadecimal and binary codecs"
named_theorems conn_simps "how the communication functions change a connection"
named_theorems sys_simps "how the system functions change the state of the server"
named_theorems trace_simps "evaluation rules of the trace components"

section \<open>Reading and writing a C buffer\<close>

text \<open>
  A buffer of known size is a list. A read outside it is \<open>None\<close>: the C code has
  undefined behaviour there, and no theorem may hide it. So is a \<open>store\<close> of one element
  outside it. \<open>poke\<close> overwrites the bytes from an offset on and keeps the size; it
  is used where the code has compared the sizes before.
\<close>

definition peek :: "'a list \<Rightarrow> nat \<Rightarrow> 'a option" where
  "peek buf i = (if i < length buf then Some (buf ! i) else None)"

definition poke :: "'a list \<Rightarrow> nat \<Rightarrow> 'a list \<Rightarrow> 'a list" where
  "poke buf off xs = take (length buf) (take off buf @ xs @ drop (off + length xs) buf)"

definition store :: "'a list \<Rightarrow> nat \<Rightarrow> 'a \<Rightarrow> 'a list option" where
  "store buf i x = (if i < length buf then Some (buf[i := x]) else None)"

lemma store_Some_iff: "store buf i x = Some buf' \<longleftrightarrow> i < length buf \<and> buf' = buf[i := x]"
  by (auto simp: store_def)

lemma peek_in [simp]: "i < length buf \<Longrightarrow> peek buf i = Some (buf ! i)"
  by (simp add: peek_def)

lemma peek_out [simp]: "length buf \<le> i \<Longrightarrow> peek buf i = None"
  by (simp add: peek_def)

lemma peek_Some_iff: "peek buf i = Some x \<longleftrightarrow> i < length buf \<and> buf ! i = x"
  by (auto simp: peek_def)

lemma length_poke [simp]: "off + length xs \<le> length buf \<Longrightarrow> length (poke buf off xs) = length buf"
  by (simp add: poke_def)

lemma length_poke_le: "off \<le> length buf \<Longrightarrow> length (poke buf off xs) = length buf"
  by (simp add: poke_def)

lemma poke_fits:
  "off + length xs \<le> length buf \<Longrightarrow> poke buf off xs = take off buf @ xs @ drop (off + length xs) buf"
  by (simp add: poke_def)

lemma poke_at_0: "length xs \<le> length buf \<Longrightarrow> poke buf 0 xs = xs @ drop (length xs) buf"
  by (simp add: poke_def)

lemma take_poke_end:
  "off + length xs \<le> length buf \<Longrightarrow> take (off + length xs) (poke buf off xs) = take off buf @ xs"
  by (simp add: poke_fits)

lemma poke_snoc:
  assumes "off < length buf"
  shows "take (Suc off) (poke buf off [x]) = take off buf @ [x]"
  using take_poke_end [of off "[x]" buf] assms by simp

section \<open>Words\<close>

lemma unat_byte_lt [simp]: "unat (b :: byte) < 256"
  using unsigned_less [of b, where ?'a = nat] by simp

lemma uint_byte_lt [simp]: "uint (b :: byte) < 256"
  using unsigned_less [of b, where ?'a = int] by simp

text \<open>A property of bytes that holds for the 256 values.\<close>

lemma all_bytes:
  assumes "\<forall>n \<in> set [0..<256]. P (word_of_nat n :: byte)"
  shows "P b"
proof -
  have "unat b \<in> set [0..<256]"
    by simp
  with assms have "P (word_of_nat (unat b))"
    by blast
  then show ?thesis
    by simp
qed

text \<open>The four bytes of a 32-bit word in memory order on a little-endian host.\<close>

definition le_bytes32 :: "u32 \<Rightarrow> byte list" where
  "le_bytes32 w = [ucast w, ucast (drop_bit 8 w), ucast (drop_bit 16 w), ucast (drop_bit 24 w)]"

definition of_le_bytes32 :: "byte list \<Rightarrow> u32" where
  "of_le_bytes32 bs = foldr (\<lambda>b w. ucast b OR push_bit 8 w) bs 0"

lemma length_le_bytes32 [simp]: "length (le_bytes32 w) = 4"
  by (simp add: le_bytes32_def)

lemma of_le_bytes32_le_bytes32 [simp]: "of_le_bytes32 (le_bytes32 w) = w"
proof (rule bit_word_eqI)
  fix n
  assume "n < LENGTH(32)"
  then show "bit (of_le_bytes32 (le_bytes32 w)) n \<longleftrightarrow> bit w n"
    by (cases "n < 8"; cases "n < 16"; cases "n < 24")
      (auto simp: of_le_bytes32_def le_bytes32_def bit_simps)
qed

end
