(* ===== verification/Fst_Context.thy ===== *)
theory Fst_Context
  imports Prelude
begin

text \<open>
  The parts of the FST reader's context (\<open>src/fst/fstapi.c\<close>, \<open>struct fstReaderContext\<close>) that
  gdbwave drives itself: the flat name of the current scope with its stack of lengths,
  and the bit mask that selects the signals whose value changes are reported.

  A C string is the list of its characters before the terminating NUL; storing a NUL at
  position \<open>n\<close> is \<open>take n\<close>. A handle is the 32-bit number of a signal, from 1 on.
\<close>

section \<open>Scopes\<close>

text \<open>\<open>curr_hier\<close> is the linked list of \<open>fstCurrHier\<close> records, innermost first; only \<open>len\<close> is used.\<close>

record fst_scope =
  curr_flat_hier_nam :: "string option"
  curr_hier :: "nat list"

definition fst_scope_init :: fst_scope where
  "fst_scope_init = \<lparr>curr_flat_hier_nam = None, curr_hier = []\<rparr>"

definition flat_nam :: "fst_scope \<Rightarrow> string" where
  "flat_nam xc = (case curr_flat_hier_nam xc of None \<Rightarrow> [] | Some s \<Rightarrow> s)"

lemma flat_nam_update [simp]:
  "flat_nam (xc\<lparr>curr_flat_hier_nam := Some s\<rparr>) = s"
  "flat_nam (xc\<lparr>curr_hier := ls\<rparr>) = flat_nam xc"
  by (simp_all add: flat_nam_def)

definition fstReaderGetCurrentFlatScope :: "fst_scope \<Rightarrow> string" where
  "fstReaderGetCurrentFlatScope xc = (case curr_flat_hier_nam xc of None \<Rightarrow> [] | Some s \<Rightarrow> s)"

definition fstReaderGetCurrentScopeLen :: "fst_scope \<Rightarrow> nat" where
  "fstReaderGetCurrentScopeLen xc = (case curr_hier xc of [] \<Rightarrow> 0 | len # _ \<Rightarrow> len)"

text \<open>\<open>None\<close> is the result \<open>NULL\<close>, when there is no scope to leave.\<close>

definition fstReaderPopScope :: "fst_scope \<Rightarrow> string option \<times> fst_scope" where
  "fstReaderPopScope xc =
     (case curr_hier xc of
        [] \<Rightarrow> (None, xc)
      | _ # prev \<Rightarrow>
          (let nam = (case prev of len # _ \<Rightarrow> take len (flat_nam xc) | [] \<Rightarrow> [])
           in (Some nam, xc\<lparr>curr_flat_hier_nam := Some nam, curr_hier := prev\<rparr>)))"

definition fstReaderPushScope :: "fst_scope \<Rightarrow> string \<Rightarrow> string \<times> fst_scope" where
  "fstReaderPushScope xc nam =
     (let chl = (case curr_hier xc of [] \<Rightarrow> 0 | len # _ \<Rightarrow> len);
          len = chl + 1 + length nam
      in if chl \<noteq> 0 then
           (let s = take chl (flat_nam xc) @ ''.'' @ nam
            in (s, xc\<lparr>curr_flat_hier_nam := Some s, curr_hier := len # curr_hier xc\<rparr>))
         else (nam, xc\<lparr>curr_flat_hier_nam := Some nam, curr_hier := (len - 1) # curr_hier xc\<rparr>))"

text \<open>The loop of \<open>fstReaderResetScope\<close> pops until there is no scope.\<close>

function fstReaderResetScope :: "fst_scope \<Rightarrow> fst_scope" where
  "fstReaderResetScope xc =
     (case fstReaderPopScope xc of (None, xc1) \<Rightarrow> xc1 | (Some _, xc1) \<Rightarrow> fstReaderResetScope xc1)"
  by pat_completeness auto
termination
  by (relation "measure (\<lambda>xc. length (curr_hier xc))")
    (auto simp: fstReaderPopScope_def Let_def split: list.splits)

declare fstReaderResetScope.simps [simp del]

text \<open>
  What the context promises: it represents the path of the names of the open scopes,
  outermost first; the flat name joins them with dots.
\<close>

fun join_path :: "string list \<Rightarrow> string" where
  "join_path [] = []"
| "join_path [n] = n"
| "join_path (n # ns) = n @ ''.'' @ join_path ns"

definition scope_lens :: "string list \<Rightarrow> nat list" where
  "scope_lens path = map (\<lambda>i. length (join_path (take (length path - i) path))) [0..<length path]"

definition at_path :: "fst_scope \<Rightarrow> string list \<Rightarrow> bool" where
  "at_path xc path \<longleftrightarrow> flat_nam xc = join_path path \<and> curr_hier xc = scope_lens path"

definition named_path :: "string list \<Rightarrow> bool" where
  "named_path path \<longleftrightarrow> [] \<notin> set path"

lemma join_path_snoc: "path \<noteq> [] \<Longrightarrow> join_path (path @ [n]) = join_path path @ ''.'' @ n"
  by (induction path rule: join_path.induct) simp_all

lemma scope_lens_snoc: "scope_lens (path @ [n]) = length (join_path (path @ [n])) # scope_lens path"
proof -
  have "[0..<length (path @ [n])] = 0 # map Suc [0..<length path]"
    by (simp add: upt_conv_Cons map_Suc_upt del: upt_Suc)
  then show ?thesis
    by (simp add: scope_lens_def comp_def)
qed

lemma scope_lens_Nil [simp]: "scope_lens [] = []"
  by (simp add: scope_lens_def)

lemma join_path_nonempty: "named_path path \<Longrightarrow> path \<noteq> [] \<Longrightarrow> join_path path \<noteq> []"
  by (induction path rule: join_path.induct) (auto simp: named_path_def)

lemma init_at_path: "at_path fst_scope_init []"
  by (simp add: at_path_def fst_scope_init_def) (simp add: flat_nam_def)

lemma push_at_path:
  assumes "at_path xc path" and "named_path path"
  shows "\<exists>xc'. fstReaderPushScope xc n = (join_path (path @ [n]), xc') \<and> at_path xc' (path @ [n])"
proof (cases path rule: rev_cases)
  case Nil
  then show ?thesis
    using assms scope_lens_snoc [of "[]" n]
    by (simp add: at_path_def fstReaderPushScope_def)
next
  case (snoc path' m)
  then have "length (join_path path) \<noteq> 0"
    using join_path_nonempty [OF assms(2)] by simp
  moreover have "curr_hier xc = length (join_path path) # scope_lens path'"
    using assms snoc by (simp add: at_path_def scope_lens_snoc)
  moreover have "flat_nam xc = join_path path"
    using assms by (simp add: at_path_def)
  moreover have "join_path (path @ [n]) = join_path path @ ''.'' @ n"
    using snoc by (intro join_path_snoc) simp
  ultimately show ?thesis
    using snoc assms scope_lens_snoc [of path n] scope_lens_snoc [of path' m]
    by (simp add: fstReaderPushScope_def at_path_def Let_def)
qed

lemma pop_at_path:
  assumes "at_path xc (path @ [n])"
  shows "\<exists>xc'. fstReaderPopScope xc = (Some (join_path path), xc') \<and> at_path xc' path"
proof (cases path rule: rev_cases)
  case Nil
  then show ?thesis
    using assms scope_lens_snoc [of "[]" n] by (simp add: at_path_def fstReaderPopScope_def Let_def)
next
  case (snoc path' m)
  then have "join_path (path @ [n]) = join_path path @ ''.'' @ n"
    by (intro join_path_snoc) simp
  then show ?thesis
    using assms snoc scope_lens_snoc [of path n] scope_lens_snoc [of path' m]
    by (simp add: at_path_def fstReaderPopScope_def Let_def)
qed

lemma pop_at_root: "at_path xc [] \<Longrightarrow> fstReaderPopScope xc = (None, xc)"
  by (simp add: at_path_def fstReaderPopScope_def)

lemma reset_at_path: "at_path xc path \<Longrightarrow> at_path (fstReaderResetScope xc) []"
proof (induction path arbitrary: xc rule: rev_induct)
  case Nil
  then show ?case
    by (subst fstReaderResetScope.simps) (simp add: pop_at_root)
next
  case (snoc n path)
  then show ?case
    using pop_at_path [OF snoc.prems] by (subst fstReaderResetScope.simps) auto
qed

section \<open>The process mask\<close>

record fst_mask =
  maxhandle :: u32
  process_mask :: "byte list"

definition fst_mask_init :: "u32 \<Rightarrow> fst_mask" where
  "fst_mask_init n = \<lparr>maxhandle = n, process_mask = replicate ((unat n + 7) div 8) 0\<rparr>"

definition fstReaderGetFacProcessMask :: "fst_mask \<Rightarrow> u32 \<Rightarrow> bool" where
  "fstReaderGetFacProcessMask xc facidx =
     (let f = facidx - 1 in
      if f < maxhandle xc
      then process_mask xc ! (unat f div 8) AND push_bit (unat (f AND 7)) 1 \<noteq> 0
      else False)"

definition fstReaderSetFacProcessMask :: "fst_mask \<Rightarrow> u32 \<Rightarrow> fst_mask" where
  "fstReaderSetFacProcessMask xc facidx =
     (let f = facidx - 1; idx = unat f div 8 in
      if f < maxhandle xc
      then xc\<lparr>process_mask := (process_mask xc)[idx := process_mask xc ! idx OR push_bit (unat (f AND 7)) 1]\<rparr>
      else xc)"

definition fstReaderClrFacProcessMask :: "fst_mask \<Rightarrow> u32 \<Rightarrow> fst_mask" where
  "fstReaderClrFacProcessMask xc facidx =
     (let f = facidx - 1; idx = unat f div 8 in
      if f < maxhandle xc
      then xc\<lparr>process_mask := (process_mask xc)[idx := process_mask xc ! idx AND NOT (push_bit (unat (f AND 7)) 1)]\<rparr>
      else xc)"

definition memset :: "byte list \<Rightarrow> byte \<Rightarrow> nat \<Rightarrow> byte list" where
  "memset buf x n = replicate n x @ drop n buf"

definition fstReaderSetFacProcessMaskAll :: "fst_mask \<Rightarrow> fst_mask" where
  "fstReaderSetFacProcessMaskAll xc =
     xc\<lparr>process_mask := memset (process_mask xc) 0xff (unat (maxhandle xc + 7) div 8)\<rparr>"

definition fstReaderClrFacProcessMaskAll :: "fst_mask \<Rightarrow> fst_mask" where
  "fstReaderClrFacProcessMaskAll xc =
     xc\<lparr>process_mask := memset (process_mask xc) 0 (unat (maxhandle xc + 7) div 8)\<rparr>"

text \<open>
  The mask has room for every handle; \<open>maxhandle + 7\<close> does not wrap (the reader could not
  have allocated such a mask).
\<close>

definition mask_wf :: "fst_mask \<Rightarrow> bool" where
  "mask_wf xc \<longleftrightarrow> length (process_mask xc) = (unat (maxhandle xc) + 7) div 8 \<and> unat (maxhandle xc) + 7 < 2 ^ 32"

definition is_handle :: "fst_mask \<Rightarrow> u32 \<Rightarrow> bool" where
  "is_handle xc h \<longleftrightarrow> h \<noteq> 0 \<and> h \<le> maxhandle xc"

text \<open>A handle selects one bit of the mask, and different handles different bits.\<close>

definition mask_bit :: "byte list \<Rightarrow> nat \<Rightarrow> bool" where
  "mask_bit m i = bit (m ! (i div 8)) (i mod 8)"

lemma byte_test_bit: "k < 8 \<Longrightarrow> (b :: byte) AND push_bit k 1 \<noteq> 0 \<longleftrightarrow> bit b k"
  by (simp add: bit_iff_and_push_bit_not_eq_0)

lemma low_three_bits: "unat ((f :: u32) AND 7) = unat f mod 8"
proof -
  have "(7 :: u32) = mask 3"
    by (simp add: mask_numeral)
  then have "f AND 7 = take_bit 3 f"
    by (simp add: take_bit_eq_mask)
  then show ?thesis
    by (simp add: unsigned_take_bit_eq take_bit_eq_mod unat_mod_distrib)
qed

lemma handle_index:
  assumes "mask_wf xc" "is_handle xc h"
  shows "h - 1 < maxhandle xc" "unat (h - 1) < unat (maxhandle xc)" "unat (h - 1) div 8 < length (process_mask xc)"
proof -
  have "unat (h - 1) = unat h - 1" "1 \<le> unat h" "unat h \<le> unat (maxhandle xc)"
    using assms(2) unat_gt_0 [of h] by (auto simp: is_handle_def unat_minus_one word_le_nat_alt)
  then show "h - 1 < maxhandle xc" "unat (h - 1) < unat (maxhandle xc)" "unat (h - 1) div 8 < length (process_mask xc)"
    using assms(1) by (auto simp: word_less_nat_alt mask_wf_def)
qed

lemma not_handle: "\<not> is_handle xc h \<Longrightarrow> \<not> h - 1 < maxhandle xc"
proof (cases "h = 0")
  case True
  then show ?thesis
    using word_n1_ge [of "maxhandle xc"] by (simp add: not_less)
next
  case False
  moreover assume "\<not> is_handle xc h"
  ultimately show ?thesis
    by (auto simp: is_handle_def word_less_nat_alt word_le_nat_alt unat_minus_one)
qed

lemma get_mask_bit:
  "mask_wf xc \<Longrightarrow> is_handle xc h \<Longrightarrow> fstReaderGetFacProcessMask xc h = mask_bit (process_mask xc) (unat (h - 1))"
  using handle_index [of xc h]
  by (simp add: fstReaderGetFacProcessMask_def mask_bit_def low_three_bits byte_test_bit Let_def del: push_bit_of_1)

lemma get_mask_not_handle: "mask_wf xc \<Longrightarrow> \<not> is_handle xc h \<Longrightarrow> \<not> fstReaderGetFacProcessMask xc h"
  using not_handle by (simp add: fstReaderGetFacProcessMask_def)

lemma mask_bit_set:
  "i div 8 < length m \<Longrightarrow>
     mask_bit (m[i div 8 := m ! (i div 8) OR push_bit (i mod 8) 1]) j \<longleftrightarrow> j = i \<or> mask_bit m j"
  "i div 8 < length m \<Longrightarrow>
     mask_bit (m[i div 8 := m ! (i div 8) AND NOT (push_bit (i mod 8) 1)]) j \<longleftrightarrow> j \<noteq> i \<and> mask_bit m j"
proof -
  have eq: "j = i \<longleftrightarrow> j div 8 = i div 8 \<and> j mod 8 = i mod 8"
    by (metis div_mult_mod_eq)
  have lt: "j mod 8 < 8"
    by simp
  assume "i div 8 < length m"
  then show "mask_bit (m[i div 8 := m ! (i div 8) OR push_bit (i mod 8) 1]) j \<longleftrightarrow> j = i \<or> mask_bit m j"
    "mask_bit (m[i div 8 := m ! (i div 8) AND NOT (push_bit (i mod 8) 1)]) j \<longleftrightarrow> j \<noteq> i \<and> mask_bit m j"
    using lt by (auto simp: mask_bit_def eq bit_simps nth_list_update)
qed

lemma set_mask_wf [simp]:
  "mask_wf (fstReaderSetFacProcessMask xc h) \<longleftrightarrow> mask_wf xc"
  "mask_wf (fstReaderClrFacProcessMask xc h) \<longleftrightarrow> mask_wf xc"
  "is_handle (fstReaderSetFacProcessMask xc h) = is_handle xc"
  "is_handle (fstReaderClrFacProcessMask xc h) = is_handle xc"
  by (auto simp: fstReaderSetFacProcessMask_def fstReaderClrFacProcessMask_def mask_wf_def is_handle_def Let_def
      intro!: ext)

lemma get_set_mask:
  assumes "mask_wf xc"
  shows "fstReaderGetFacProcessMask (fstReaderSetFacProcessMask xc h) g \<longleftrightarrow>
    g = h \<and> is_handle xc h \<or> fstReaderGetFacProcessMask xc g"
proof (cases "is_handle xc g \<and> is_handle xc h")
  case True
  have "unat (g - 1) = unat (h - 1) \<longleftrightarrow> g = h"
    by (auto simp flip: word_eq_iff_unsigned)
  then show ?thesis
    using True assms handle_index [of xc h]
    by (simp add: get_mask_bit)
      (simp add: fstReaderSetFacProcessMask_def low_three_bits mask_bit_set Let_def del: push_bit_of_1)
next
  case False
  show ?thesis
  proof (cases "is_handle xc h")
    case True
    then show ?thesis
      using False assms get_mask_not_handle [of "fstReaderSetFacProcessMask xc h" g] get_mask_not_handle [of xc g]
      by auto
  next
    case h: False
    then have "fstReaderSetFacProcessMask xc h = xc"
      using not_handle [of xc h] by (simp add: fstReaderSetFacProcessMask_def Let_def)
    then show ?thesis
      using h assms get_mask_not_handle [of xc h] by auto
  qed
qed

lemma get_clr_mask:
  assumes "mask_wf xc"
  shows "fstReaderGetFacProcessMask (fstReaderClrFacProcessMask xc h) g \<longleftrightarrow>
    g \<noteq> h \<and> fstReaderGetFacProcessMask xc g"
proof (cases "is_handle xc g \<and> is_handle xc h")
  case True
  have "unat (g - 1) = unat (h - 1) \<longleftrightarrow> g = h"
    by (auto simp flip: word_eq_iff_unsigned)
  then show ?thesis
    using True assms handle_index [of xc h]
    by (simp add: get_mask_bit)
      (simp add: fstReaderClrFacProcessMask_def low_three_bits mask_bit_set Let_def del: push_bit_of_1)
next
  case False
  show ?thesis
  proof (cases "is_handle xc h")
    case True
    then show ?thesis
      using False assms get_mask_not_handle [of "fstReaderClrFacProcessMask xc h" g] get_mask_not_handle [of xc g]
      by auto
  next
    case h: False
    then have "fstReaderClrFacProcessMask xc h = xc"
      using not_handle [of xc h] by (simp add: fstReaderClrFacProcessMask_def Let_def)
    then show ?thesis
      using h assms get_mask_not_handle [of xc h] by auto
  qed
qed

lemma mask_bytes:
  assumes "mask_wf xc"
  shows "unat (maxhandle xc + 7) div 8 = length (process_mask xc)"
  using assms by (simp add: mask_wf_def unat_word_ariths)

lemma all_mask_wf [simp]:
  "mask_wf xc \<Longrightarrow> mask_wf (fstReaderSetFacProcessMaskAll xc)"
  "mask_wf xc \<Longrightarrow> mask_wf (fstReaderClrFacProcessMaskAll xc)"
  "is_handle (fstReaderSetFacProcessMaskAll xc) = is_handle xc"
  "is_handle (fstReaderClrFacProcessMaskAll xc) = is_handle xc"
  using mask_bytes [of xc]
  by (auto simp: fstReaderSetFacProcessMaskAll_def fstReaderClrFacProcessMaskAll_def mask_wf_def is_handle_def
      memset_def intro!: ext)

lemma get_all_mask:
  assumes "mask_wf xc"
  shows "fstReaderGetFacProcessMask (fstReaderSetFacProcessMaskAll xc) g \<longleftrightarrow> is_handle xc g"
    and "\<not> fstReaderGetFacProcessMask (fstReaderClrFacProcessMaskAll xc) g"
proof -
  have ff: "bit (0xff :: byte) (k mod 8)" for k
  proof -
    have eq: "(0xff :: byte) = mask 8"
      by (simp add: mask_numeral)
    show ?thesis
      unfolding eq by (simp add: bit_mask_iff)
  qed
  show "fstReaderGetFacProcessMask (fstReaderSetFacProcessMaskAll xc) g \<longleftrightarrow> is_handle xc g"
  proof (cases "is_handle xc g")
    case True
    then show ?thesis
      using assms handle_index [OF assms True] ff mask_bytes [OF assms]
      by (simp add: get_mask_bit) (simp add: mask_bit_def fstReaderSetFacProcessMaskAll_def memset_def)
  next
    case False
    then show ?thesis
      using assms get_mask_not_handle by simp
  qed
  show "\<not> fstReaderGetFacProcessMask (fstReaderClrFacProcessMaskAll xc) g"
  proof (cases "is_handle xc g")
    case True
    then show ?thesis
      using assms handle_index [OF assms True] mask_bytes [OF assms]
      by (simp add: get_mask_bit) (simp add: mask_bit_def fstReaderClrFacProcessMaskAll_def memset_def)
  next
    case False
    then show ?thesis
      using assms get_mask_not_handle by simp
  qed
qed

lemma mask_init_wf: "unat n + 7 < 2 ^ 32 \<Longrightarrow> mask_wf (fst_mask_init n)"
  by (simp add: mask_wf_def fst_mask_init_def)

lemma get_mask_init: "unat n + 7 < 2 ^ 32 \<Longrightarrow> \<not> fstReaderGetFacProcessMask (fst_mask_init n) h"
proof (cases "is_handle (fst_mask_init n) h")
  case True
  moreover assume "unat n + 7 < 2 ^ 32"
  ultimately show ?thesis
    using handle_index(3) [OF mask_init_wf True]
    by (simp add: get_mask_bit mask_init_wf mask_bit_def) (simp add: fst_mask_init_def mask_bit_def)
next
  case False
  moreover assume "unat n + 7 < 2 ^ 32"
  ultimately show ?thesis
    using get_mask_not_handle mask_init_wf by blast
qed

section \<open>Properties of the reader context\<close>

text \<open>
  The current scope follows the hierarchy. From a context that is at a path of non-empty
  names, entering a scope returns the dotted name of the extended path, leaving it
  returns the name of the path before, and the context is back at that path.
\<close>
theorem push_pop_scope:
  assumes "at_path xc path" and "named_path path"
  shows "\<exists>xc1 xc2. fstReaderPushScope xc n = (join_path (path @ [n]), xc1) \<and> at_path xc1 (path @ [n]) \<and>
    fstReaderGetCurrentFlatScope xc1 = join_path (path @ [n]) \<and>
    fstReaderGetCurrentScopeLen xc1 = length (join_path (path @ [n])) \<and>
    fstReaderPopScope xc1 = (Some (join_path path), xc2) \<and> at_path xc2 path"
proof -
  obtain xc1 where "fstReaderPushScope xc n = (join_path (path @ [n]), xc1)" "at_path xc1 (path @ [n])"
    using push_at_path [OF assms] by blast
  moreover have "fstReaderGetCurrentFlatScope xc1 = flat_nam xc1"
    by (simp add: fstReaderGetCurrentFlatScope_def flat_nam_def)
  ultimately show ?thesis
    using pop_at_path [of xc1 path n]
    by (auto simp: at_path_def fstReaderGetCurrentScopeLen_def scope_lens_snoc)
qed

theorem push_pop_scope_witness:
  "\<exists>xc1 xc2. fstReaderPushScope fst_scope_init ''TOP'' = (''TOP'', xc1) \<and> fstReaderPopScope xc1 = (Some [], xc2) \<and> at_path xc2 []"
  using push_pop_scope [OF init_at_path, of "''TOP''"] by (auto simp: named_path_def)

text \<open>
  The mask operations act on one signal only. After any operation the mask answers for
  every 32-bit number exactly as a set of handles would: setting adds the handle if there
  is such a signal, clearing removes it, and the two operations on all signals give the
  full and the empty set.
\<close>
theorem process_mask_is_a_set:
  assumes "mask_wf xc"
  shows "fstReaderGetFacProcessMask (fstReaderSetFacProcessMask xc h) g = (g = h \<and> is_handle xc h \<or> fstReaderGetFacProcessMask xc g) \<and>
    fstReaderGetFacProcessMask (fstReaderClrFacProcessMask xc h) g = (g \<noteq> h \<and> fstReaderGetFacProcessMask xc g) \<and>
    fstReaderGetFacProcessMask (fstReaderSetFacProcessMaskAll xc) g = is_handle xc g \<and>
    fstReaderGetFacProcessMask (fstReaderClrFacProcessMaskAll xc) g = False"
  using get_set_mask [OF assms] get_clr_mask [OF assms] get_all_mask [OF assms] by simp_all

theorem process_mask_is_a_set_witness:
  "\<not> fstReaderGetFacProcessMask (fstReaderSetFacProcessMask (fst_mask_init 20) 9) 10 \<and>
   fstReaderGetFacProcessMask (fstReaderSetFacProcessMask (fst_mask_init 20) 9) 9"
proof -
  have wf: "mask_wf (fst_mask_init 20)"
    by (rule mask_init_wf) simp
  have "\<not> fstReaderGetFacProcessMask (fst_mask_init 20) 10"
    by (rule get_mask_init) simp
  then show ?thesis
    using process_mask_is_a_set [OF wf, of 9 10] process_mask_is_a_set [OF wf, of 9 9]
    by (simp add: is_handle_def) (simp add: fst_mask_init_def)
qed

end
