(* ===== verification/Fst_Process.thy ===== *)
theory Fst_Process
  imports Fst_Context
begin

text \<open>
  \<open>FstSignal\<close> and \<open>FstProcess\<close> (\<open>src/FstProcess.h\<close>, \<open>src/FstProcess.cc\<close>): signal names,
  the search for the handles of a set of signals in the hierarchy, and the delivery of
  the value changes of selected signals to a callback; and the number parser
  \<open>std::stol\<close> with base 2 that every callback applies to a value.

  The hierarchy records and the value changes that the FST reader produces for a file
  are arguments: a list of records in file order, and a list of changes
  \<open>(time, handle, value)\<close> in the order of the reader's iteration, where a value is the
  string of its bits.
\<close>

section \<open>Exceptions and numbers of the C++ library\<close>

text \<open>
  \<open>DerefEnd\<close> is the use of an iterator at the end of its container and \<open>NullString\<close> a
  \<open>std::string\<close> made of a null pointer, \<open>Uninitialised\<close> the use of a variable that was never
  set; they have no defined behaviour and are kept
  apart from every result. \<open>ExitProcess\<close> is a call of \<open>exit\<close>; the others are exceptions.
\<close>

datatype cxx_error = InvalidArgument | OutOfRange | RuntimeError | DerefEnd | NullString | Uninitialised | ExitProcess int

definition isspace :: "char \<Rightarrow> bool" where
  "isspace c \<longleftrightarrow> of_char c \<in> {0x20, 0x09, 0x0a, 0x0b, 0x0c, 0x0d :: nat}"

definition bin_digit :: "char \<Rightarrow> bool" where
  "bin_digit c \<longleftrightarrow> c = CHR ''0'' \<or> c = CHR ''1''"

definition bits_value :: "string \<Rightarrow> int" where
  "bits_value ds = foldl (\<lambda>v c. 2 * v + (if c = CHR ''1'' then 1 else 0)) 0 ds"

text \<open>\<open>std::stol (s, nullptr, 2)\<close> for a 64-bit \<open>long\<close>.\<close>

definition stol2 :: "string \<Rightarrow> cxx_error + int" where
  "stol2 s =
     (let s1 = dropWhile isspace s;
          (neg, s2) = (case s1 of c # cs \<Rightarrow> (if c = CHR ''-'' then (True, cs) else if c = CHR ''+'' then (False, cs) else (False, s1))
                       | [] \<Rightarrow> (False, s1));
          ds = takeWhile bin_digit s2;
          v = (if neg then - bits_value ds else bits_value ds)
      in if ds = [] then Inl InvalidArgument
         else if v < - (2 ^ 63) \<or> 2 ^ 63 \<le> v then Inl OutOfRange
         else Inr v)"

text \<open>The test the callbacks make before they parse a value, and the conversion to \<open>uint64_t\<close>.\<close>

definition has_unknown :: "string \<Rightarrow> bool" where
  "has_unknown s \<longleftrightarrow> CHR ''x'' \<in> set s \<or> CHR ''z'' \<in> set s"

definition value_int :: "string \<Rightarrow> cxx_error + u64" where
  "value_int s = (case stol2 s of Inl e \<Rightarrow> Inl e | Inr v \<Rightarrow> Inr (word_of_int v))"

section \<open>Signals\<close>

type_synonym handle = u32

record FstSignal =
  scopeName :: string
  name :: string
  hasHandle :: bool
  handle :: handle

text \<open>\<open>find_last_of ('.')\<close> stored in an \<open>int\<close>: \<open>npos\<close> becomes -1.\<close>

definition find_last_dot :: "string \<Rightarrow> int" where
  "find_last_dot s =
     (let k = length (takeWhile (\<lambda>c. c \<noteq> CHR ''.'') (rev s))
      in if k = length s then - 1 else int (length s - 1 - k))"

definition substr :: "string \<Rightarrow> int \<Rightarrow> int \<Rightarrow> string" where
  "substr s pos count = take (unat (word_of_int count :: u64)) (drop (unat (word_of_int pos :: u64)) s)"

definition getScope :: "string \<Rightarrow> string" where
  "getScope full_path = (let last_dot = find_last_dot full_path in substr full_path 0 last_dot)"

definition getLocalName :: "string \<Rightarrow> string" where
  "getLocalName full_path = (let last_dot = find_last_dot full_path in substr full_path (last_dot + 1) (- 1))"

text \<open>The constructor leaves \<open>handle\<close> uninitialised; \<open>h\<close> is what happens to be there.\<close>

definition FstSignal_of_path :: "handle \<Rightarrow> string \<Rightarrow> FstSignal" where
  "FstSignal_of_path h fullName =
     \<lparr>scopeName = getScope fullName, name = getLocalName fullName, hasHandle = False, handle = h\<rparr>"

section \<open>Finding the handles\<close>

datatype fstHier = HT_SCOPE string | HT_UPSCOPE | HT_VAR string handle | HT_OTHER

text \<open>
  The loop over the signals for one variable: whether some signal had no handle yet, and
  the signals after the assignment.
\<close>

definition assign_var :: "string \<Rightarrow> string \<Rightarrow> handle \<Rightarrow> FstSignal list \<Rightarrow> bool \<times> FstSignal list" where
  "assign_var curScopeName curName h signals =
     (list_ex (\<lambda>sig. \<not> hasHandle sig) signals,
      map (\<lambda>sig. if \<not> hasHandle sig \<and> scopeName sig = curScopeName \<and> name sig = curName
                 then sig\<lparr>hasHandle := True, handle := h\<rparr> else sig) signals)"

text \<open>
  The loop over the hierarchy. \<open>sigNotFound\<close> starts uninitialised (\<open>None\<close>); the string
  \<open>curScopeName\<close> starts empty, also when the context is inside a scope.
\<close>

fun assign_loop ::
  "fstHier list \<Rightarrow> fst_scope \<Rightarrow> string \<Rightarrow> bool option \<Rightarrow> FstSignal list \<Rightarrow>
     cxx_error + (bool option \<times> FstSignal list \<times> fst_scope)" where
  "assign_loop [] xc curScopeName sigNotFound signals = Inr (sigNotFound, signals, xc)"
| "assign_loop (hier # hs) xc curScopeName sigNotFound signals =
     (case hier of
        HT_SCOPE nam \<Rightarrow>
          (let (s, xc1) = fstReaderPushScope xc nam in assign_loop hs xc1 s sigNotFound signals)
      | HT_UPSCOPE \<Rightarrow>
          (case fstReaderPopScope xc of
             (None, _) \<Rightarrow> Inl NullString
           | (Some s, xc1) \<Rightarrow> assign_loop hs xc1 s sigNotFound signals)
      | HT_VAR nam h \<Rightarrow>
          (let (nf, signals1) = assign_var curScopeName nam h signals
           in assign_loop hs xc curScopeName (Some nf) signals1)
      | HT_OTHER \<Rightarrow> assign_loop hs xc curScopeName sigNotFound signals)"

definition assignHandles ::
  "fstHier list \<Rightarrow> fst_scope \<Rightarrow> FstSignal list \<Rightarrow> cxx_error + (bool option \<times> FstSignal list \<times> fst_scope)" where
  "assignHandles hier xc signals =
     (case assign_loop hier xc [] None signals of
        Inl e \<Rightarrow> Inl e
      | Inr (sigNotFound, signals1, xc1) \<Rightarrow> Inr (map_option Not sigNotFound, signals1, xc1))"

section \<open>Value changes\<close>

type_synonym change = "u64 \<times> handle \<times> string"

definition handle2Signal :: "FstSignal list \<Rightarrow> handle \<Rightarrow> FstSignal option" where
  "handle2Signal signals =
     foldl (\<lambda>m sig. if m (handle sig) \<noteq> None then m else m(handle sig \<mapsto> sig)) Map.empty signals"

definition select_signals :: "FstSignal list \<Rightarrow> fst_mask \<Rightarrow> fst_mask" where
  "select_signals signals xc =
     foldl (\<lambda>m sig. fstReaderSetFacProcessMask m (handle sig)) (fstReaderClrFacProcessMaskAll xc) signals"

text \<open>The reader calls back for the changes of the selected signals, in order.\<close>

fun fst_callbacks ::
  "(u64 \<Rightarrow> FstSignal \<Rightarrow> string \<Rightarrow> 's \<Rightarrow> cxx_error + 's) \<Rightarrow> (handle \<Rightarrow> FstSignal option) \<Rightarrow> change list \<Rightarrow> 's \<Rightarrow> cxx_error + 's" where
  "fst_callbacks cb m [] s = Inr s"
| "fst_callbacks cb m ((time, h, v) # es) s =
     (case m h of
        None \<Rightarrow> Inl DerefEnd
      | Some sig \<Rightarrow> (case cb time sig v s of Inl e \<Rightarrow> Inl e | Inr s1 \<Rightarrow> fst_callbacks cb m es s1))"

definition getValueChanges ::
  "fst_mask \<Rightarrow> change list \<Rightarrow> FstSignal list \<Rightarrow> (u64 \<Rightarrow> FstSignal \<Rightarrow> string \<Rightarrow> 's \<Rightarrow> cxx_error + 's) \<Rightarrow> 's \<Rightarrow> cxx_error + 's" where
  "getValueChanges xc changes signals cb s =
     (let xc1 = select_signals signals xc
      in fst_callbacks cb (handle2Signal signals) (filter (\<lambda>(_, h, _). fstReaderGetFacProcessMask xc1 h) changes) s)"

section \<open>Splitting a signal path\<close>

lemma find_last_dot_props:
  "(CHR ''.'' \<notin> set s \<longrightarrow> find_last_dot s = - 1) \<and>
   (CHR ''.'' \<in> set s \<longrightarrow> (\<exists>a b. s = a @ ''.'' @ b \<and> CHR ''.'' \<notin> set b \<and> find_last_dot s = int (length a)))"
proof (intro conjI impI)
  assume "CHR ''.'' \<notin> set s"
  then have all: "takeWhile (\<lambda>c. c \<noteq> CHR ''.'') (rev s) = rev s"
    by (auto simp: takeWhile_eq_all_conv)
  show "find_last_dot s = - 1"
    unfolding find_last_dot_def all by simp
next
  assume "CHR ''.'' \<in> set s"
  then obtain a b where s: "s = a @ CHR ''.'' # b" "CHR ''.'' \<notin> set b"
    using split_list_last by fastforce
  then have "takeWhile (\<lambda>c. c \<noteq> CHR ''.'') (rev s) = rev b"
    by (auto simp: takeWhile_append takeWhile_eq_all_conv)
  with s show "\<exists>a b. s = a @ ''.'' @ b \<and> CHR ''.'' \<notin> set b \<and> find_last_dot s = int (length a)"
    by (intro exI [of _ a] exI [of _ b]) (simp add: find_last_dot_def)
qed

lemma unat_word_of_nat_small: "n < 2 ^ 64 \<Longrightarrow> unat (word_of_int (int n) :: u64) = n"
  by (simp add: unsigned_of_nat take_bit_nat_eq_self)

lemma unat_minus_one_u64 [simp]: "unat (- 1 :: u64) = 2 ^ 64 - 1"
  by (simp add: unsigned_minus_1_eq_mask mask_eq_exp_minus_1)

lemma getScope_getLocalName:
  assumes "length s < 2 ^ 31"
  shows "CHR ''.'' \<in> set s \<Longrightarrow> s = getScope s @ ''.'' @ getLocalName s \<and> CHR ''.'' \<notin> set (getLocalName s)"
    and "CHR ''.'' \<notin> set s \<Longrightarrow> getScope s = s \<and> getLocalName s = s"
proof -
  assume "CHR ''.'' \<in> set s"
  then obtain a b where s: "s = a @ ''.'' @ b" "CHR ''.'' \<notin> set b" "find_last_dot s = int (length a)"
    using find_last_dot_props by blast
  have "length a < 2 ^ 64" "length a + 1 < 2 ^ 64" "length b \<le> 2 ^ 64 - 1"
    using assms s(1) by simp_all
  then have idx: "unat (word_of_int (int (length a)) :: u64) = length a"
      "unat (word_of_int (int (length a) + 1) :: u64) = length a + 1"
    using unat_word_of_nat_small [of "length a"] unat_word_of_nat_small [of "length a + 1"]
    by (simp_all add: add.commute)
  have "getScope s = a"
    unfolding getScope_def substr_def Let_def s(3) idx by (simp add: s(1))
  moreover have "getLocalName s = b"
    unfolding getLocalName_def substr_def Let_def s(3) idx
    using \<open>length b \<le> 2 ^ 64 - 1\<close> by (simp add: s(1) unat_minus_one_u64)
  moreover note s
  ultimately show "s = getScope s @ ''.'' @ getLocalName s \<and> CHR ''.'' \<notin> set (getLocalName s)"
    by simp
next
  assume "CHR ''.'' \<notin> set s"
  then have "find_last_dot s = - 1"
    using find_last_dot_props by blast
  with assms show "getScope s = s \<and> getLocalName s = s"
    by (simp add: getScope_def getLocalName_def substr_def unat_minus_one_u64)
qed

section \<open>The handles found\<close>

text \<open>The variables of a hierarchy with their scopes; \<open>None\<close> when more scopes are left than were entered.\<close>

fun var_table :: "fstHier list \<Rightarrow> string list \<Rightarrow> ((string \<times> string) \<times> handle) list option" where
  "var_table [] path = Some []"
| "var_table (HT_SCOPE n # hs) path = var_table hs (path @ [n])"
| "var_table (HT_UPSCOPE # hs) path = (if path = [] then None else var_table hs (butlast path))"
| "var_table (HT_VAR n h # hs) path = map_option ((#) ((join_path path, n), h)) (var_table hs path)"
| "var_table (HT_OTHER # hs) path = var_table hs path"

definition named_hier :: "fstHier list \<Rightarrow> bool" where
  "named_hier hier \<longleftrightarrow> HT_SCOPE [] \<notin> set hier"

definition with_handle :: "((string \<times> string) \<times> handle) list \<Rightarrow> FstSignal \<Rightarrow> FstSignal" where
  "with_handle tbl sig =
     (if hasHandle sig then sig
      else case map_of tbl (scopeName sig, name sig) of
             None \<Rightarrow> sig
           | Some h \<Rightarrow> sig\<lparr>hasHandle := True, handle := h\<rparr>)"

definition all_found :: "FstSignal list \<Rightarrow> bool" where
  "all_found signals \<longleftrightarrow> list_all hasHandle signals"

lemma with_handle_Nil [simp]: "with_handle [] sig = sig"
  by (simp add: with_handle_def)

lemma map_with_handle_Nil [simp]: "map (with_handle []) signals = signals"
  by (simp add: map_idI)

lemma with_handle_Cons:
  "with_handle ((k, h) # tbl) sig =
     with_handle tbl (if \<not> hasHandle sig \<and> scopeName sig = fst k \<and> name sig = snd k
                      then sig\<lparr>hasHandle := True, handle := h\<rparr> else sig)"
  by (cases k) (auto simp: with_handle_def)

lemma assign_var_eq:
  "assign_var (fst k) (snd k) h signals = (\<not> all_found signals, map (with_handle [(k, h)]) signals)"
  by (auto simp: assign_var_def all_found_def list_ex_iff list_all_iff with_handle_Cons)

lemma assign_loop_table:
  assumes "at_path xc path" "named_path path" "named_hier hier" "var_table hier path = Some tbl"
    and "cur = join_path path"
  shows "\<exists>xc'. assign_loop hier xc cur nf signals =
    Inr (if tbl = [] then nf else Some (\<not> all_found (map (with_handle (butlast tbl)) signals)),
         map (with_handle tbl) signals, xc')"
  using assms
proof (induction hier arbitrary: xc path tbl cur nf signals)
  case Nil
  then show ?case
    by simp
next
  case (Cons e hier)
  have named: "named_hier hier"
    using Cons.prems(3) by (simp add: named_hier_def)
  show ?case
  proof (cases e)
    case (HT_SCOPE n)
    then have "named_path (path @ [n])"
      using Cons.prems(2,3) by (auto simp: named_hier_def named_path_def)
    moreover obtain xc' where "fstReaderPushScope xc n = (join_path (path @ [n]), xc')" "at_path xc' (path @ [n])"
      using push_at_path [OF Cons.prems(1,2)] by blast
    ultimately show ?thesis
      using Cons.IH [OF _ _ named] Cons.prems(4) HT_SCOPE by simp
  next
    case HT_UPSCOPE
    then obtain path' n where path: "path = path' @ [n]"
      using Cons.prems(4) by (cases path rule: rev_cases) auto
    then have "named_path path'"
      using Cons.prems(2) by (simp add: named_path_def)
    moreover obtain xc' where "fstReaderPopScope xc = (Some (join_path path'), xc')" "at_path xc' path'"
      using pop_at_path Cons.prems(1) path by blast
    ultimately show ?thesis
      using Cons.IH [OF _ _ named] Cons.prems(4) HT_UPSCOPE path by simp
  next
    case (HT_VAR n h)
    then obtain tbl1 where tbl: "var_table hier path = Some tbl1" "tbl = ((join_path path, n), h) # tbl1"
      using Cons.prems(4) by auto
    have "with_handle tbl1 \<circ> with_handle [((join_path path, n), h)] = with_handle tbl"
      "with_handle (butlast tbl1) \<circ> with_handle [((join_path path, n), h)] =
       with_handle (((join_path path, n), h) # butlast tbl1)"
      unfolding tbl(2) by (auto simp: with_handle_Cons [of _ _ tbl1] with_handle_Cons [of _ _ "butlast tbl1"]
        with_handle_Cons [of _ _ "[]"])
    then show ?thesis
      using Cons.IH [OF Cons.prems(1,2) named tbl(1) Cons.prems(5), of "Some (\<not> all_found signals)"
          "map (with_handle [((join_path path, n), h)]) signals"] tbl(2) HT_VAR Cons.prems(5)
        assign_var_eq [of "(join_path path, n)" h signals]
      by (cases "tbl1 = []") auto
  next
    case HT_OTHER
    then show ?thesis
      using Cons.IH [OF Cons.prems(1,2) named] Cons.prems(4,5) by simp
  qed
qed

section \<open>The changes delivered\<close>

text \<open>The reference: a callback for each change of a signal of the list, with the first such signal.\<close>

fun run_changes ::
  "(u64 \<Rightarrow> FstSignal \<Rightarrow> string \<Rightarrow> 's \<Rightarrow> cxx_error + 's) \<Rightarrow> (u64 \<times> FstSignal \<times> string) list \<Rightarrow> 's \<Rightarrow> cxx_error + 's" where
  "run_changes cb [] s = Inr s"
| "run_changes cb ((time, sig, v) # es) s =
     (case cb time sig v s of Inl e \<Rightarrow> Inl e | Inr s1 \<Rightarrow> run_changes cb es s1)"

definition selected_changes :: "FstSignal list \<Rightarrow> change list \<Rightarrow> (u64 \<times> FstSignal \<times> string) list" where
  "selected_changes signals changes =
     List.map_filter (\<lambda>(time, h, v). map_option (\<lambda>sig. (time, sig, v)) (find (\<lambda>sig. handle sig = h) signals)) changes"

lemma handle2Signal_find: "handle2Signal signals h = find (\<lambda>sig. handle sig = h) signals"
proof -
  have "foldl (\<lambda>m sig. if m (handle sig) \<noteq> None then m else m(handle sig \<mapsto> sig)) m signals h =
      (case m h of None \<Rightarrow> find (\<lambda>sig. handle sig = h) signals | Some sig \<Rightarrow> Some sig)" for m
    by (induction signals arbitrary: m) (auto split: option.splits)
  from this [of Map.empty] show ?thesis
    by (simp add: handle2Signal_def)
qed

lemma select_signals_mask:
  assumes "mask_wf xc" and "list_all (\<lambda>sig. is_handle xc (handle sig)) signals"
  shows "fstReaderGetFacProcessMask (select_signals signals xc) h \<longleftrightarrow> (\<exists>sig \<in> set signals. handle sig = h)"
proof -
  have "fstReaderGetFacProcessMask (foldl (\<lambda>m sig. fstReaderSetFacProcessMask m (handle sig)) m signals) h \<longleftrightarrow>
      (\<exists>sig \<in> set signals. handle sig = h) \<or> fstReaderGetFacProcessMask m h"
    if "mask_wf m" "is_handle m = is_handle xc" for m
    using that assms(2) by (induction signals arbitrary: m) (auto simp: get_set_mask)
  then show ?thesis
    using assms(1) get_all_mask(2) by (simp add: select_signals_def)
qed

lemma fst_callbacks_run:
  "list_all (\<lambda>(t, h, v). find (\<lambda>sig. handle sig = h) signals \<noteq> None) es \<Longrightarrow>
     fst_callbacks cb (handle2Signal signals) es s = run_changes cb (selected_changes signals es) s"
  by (induction es arbitrary: s)
    (auto simp: handle2Signal_find selected_changes_def List.map_filter_simps split: sum.splits)

lemma bex_find: "(\<exists>x \<in> set xs. P x) \<longleftrightarrow> find P xs \<noteq> None"
  by (auto simp: find_None_iff)

lemma selected_changes_filter:
  "selected_changes signals (filter (\<lambda>(_, h, _). \<exists>sig \<in> set signals. handle sig = h) es) = selected_changes signals es"
proof (induction es)
  case (Cons e es)
  obtain t h v where "e = (t, h, v)"
    by (metis prod_cases3)
  then show ?case
    using Cons by (auto simp: selected_changes_def List.map_filter_simps bex_find simp del: not_None_eq split: option.splits)
qed (simp add: selected_changes_def)

lemma getValueChanges_run:
  assumes "mask_wf xc" and "list_all (\<lambda>sig. is_handle xc (handle sig)) signals"
  shows "getValueChanges xc changes signals cb s = run_changes cb (selected_changes signals changes) s"
proof -
  let ?es = "filter (\<lambda>(_, h, _). \<exists>sig \<in> set signals. handle sig = h) changes"
  have "list_all (\<lambda>(t, h, v). find (\<lambda>sig. handle sig = h) signals \<noteq> None) ?es"
    by (auto simp: list_all_iff find_None_iff)
  then show ?thesis
    using select_signals_mask [OF assms] fst_callbacks_run [of signals ?es cb s] selected_changes_filter [of signals changes]
    by (simp add: getValueChanges_def)
qed

section \<open>Properties of the signal search and of the callbacks\<close>

text \<open>
  A configured signal path is split at its last dot. The scope and the local name that
  \<open>FstSignal\<close> computes, joined by that dot, are the path, and the local name has no dot;
  a path without a dot is taken as both scope and name.
\<close>
theorem signal_path_split:
  assumes "length s < 2 ^ 31"
  shows "scopeName (FstSignal_of_path h s) = (if CHR ''.'' \<in> set s then getScope s else s) \<and>
    name (FstSignal_of_path h s) = (if CHR ''.'' \<in> set s then getLocalName s else s) \<and>
    (CHR ''.'' \<in> set s \<longrightarrow> s = getScope s @ ''.'' @ getLocalName s \<and> CHR ''.'' \<notin> set (getLocalName s))"
  using getScope_getLocalName [OF assms] by (auto simp: FstSignal_of_path_def)

theorem signal_path_split_witness:
  "scopeName (FstSignal_of_path 0 ''TOP.cpu.clk'') = ''TOP.cpu'' \<and> name (FstSignal_of_path 0 ''TOP.cpu.clk'') = ''clk''"
  using signal_path_split [of "''TOP.cpu.clk''" 0]
  by (simp add: FstSignal_of_path_def getScope_def getLocalName_def substr_def find_last_dot_def Let_def)

text \<open>
  The outcome of \<open>assignHandles\<close>. For a hierarchy that never leaves more scopes than it
  entered, each signal gets the handle of the first variable with its scope and name,
  signals without one are unchanged, and the returned value is exactly whether every
  signal is matched by a variable before the last one of the hierarchy (the value is
  uninitialised when the hierarchy has no variable).
\<close>
theorem assignHandles_outcome:
  assumes "at_path xc []" "named_hier hier" "var_table hier [] = Some tbl"
    and "list_all (\<lambda>sig. \<not> hasHandle sig) signals"
  shows "\<exists>xc'. assignHandles hier xc signals =
    Inr (if tbl = [] then None
         else Some (list_all (\<lambda>sig. map_of (butlast tbl) (scopeName sig, name sig) \<noteq> None) signals),
         map (\<lambda>sig. case map_of tbl (scopeName sig, name sig) of
                None \<Rightarrow> sig | Some h \<Rightarrow> sig\<lparr>hasHandle := True, handle := h\<rparr>) signals, xc')"
proof -
  obtain xc' where loop: "assign_loop hier xc [] None signals =
    Inr (if tbl = [] then None else Some (\<not> all_found (map (with_handle (butlast tbl)) signals)),
         map (with_handle tbl) signals, xc')"
    using assign_loop_table [OF assms(1) _ assms(2,3), of "[]" None signals] by (auto simp: named_path_def)
  have "map (with_handle tbl) signals = map (\<lambda>sig. case map_of tbl (scopeName sig, name sig) of
      None \<Rightarrow> sig | Some h \<Rightarrow> sig\<lparr>hasHandle := True, handle := h\<rparr>) signals"
    using assms(4) by (auto simp: with_handle_def list_all_iff)
  moreover have "all_found (map (with_handle (butlast tbl)) signals) \<longleftrightarrow>
      list_all (\<lambda>sig. map_of (butlast tbl) (scopeName sig, name sig) \<noteq> None) signals"
    using assms(4) by (auto simp: all_found_def with_handle_def list_all_iff split: option.splits)
  ultimately show ?thesis
    using loop by (simp add: assignHandles_def)
qed

theorem assignHandles_outcome_witness:
  "\<exists>xc'. assignHandles [HT_SCOPE ''TOP'', HT_VAR ''clk'' 1, HT_VAR ''pc'' 2, HT_UPSCOPE] fst_scope_init [FstSignal_of_path 0 ''TOP.clk''] =
     Inr (Some True, [(FstSignal_of_path 0 ''TOP.clk'')\<lparr>hasHandle := True, handle := 1\<rparr>], xc')"
  using assignHandles_outcome [OF init_at_path, of "[HT_SCOPE ''TOP'', HT_VAR ''clk'' 1, HT_VAR ''pc'' 2, HT_UPSCOPE]"
      "[((''TOP'', ''clk''), 1), ((''TOP'', ''pc''), 2)]" "[FstSignal_of_path 0 ''TOP.clk'']"]
  by (simp add: named_hier_def FstSignal_of_path_def getScope_def getLocalName_def substr_def find_last_dot_def Let_def)

text \<open>
  A result \<open>true\<close> can be trusted: every signal then has a handle, and it is the handle
  of a variable of the hierarchy with the signal's scope and name.
\<close>
theorem assignHandles_true_sound:
  assumes "at_path xc []" "named_hier hier" "var_table hier [] = Some tbl"
    and "list_all (\<lambda>sig. \<not> hasHandle sig) signals"
    and "assignHandles hier xc signals = Inr (Some True, signals', xc')"
  shows "list_all (\<lambda>sig. hasHandle sig \<and> ((scopeName sig, name sig), handle sig) \<in> set tbl) signals'"
proof -
  have ret: "tbl \<noteq> []" "list_all (\<lambda>sig. map_of (butlast tbl) (scopeName sig, name sig) \<noteq> None) signals"
    and sigs: "signals' = map (\<lambda>sig. case map_of tbl (scopeName sig, name sig) of
                None \<Rightarrow> sig | Some h \<Rightarrow> sig\<lparr>hasHandle := True, handle := h\<rparr>) signals"
    using assms(5) assign_loop_table [OF assms(1) _ assms(2,3), of "[]" None signals] assms(4)
    by (auto simp: assignHandles_def named_path_def all_found_def with_handle_def list_all_iff
        split: if_splits option.splits)
  have "map_of tbl k \<noteq> None" if "map_of (butlast tbl) k \<noteq> None" for k
    using that unfolding map_of_eq_None_iff by (auto dest: in_set_butlastD)
  then show ?thesis
    using ret(2) unfolding sigs by (fastforce simp: list_all_iff dest: map_of_SomeD)
qed

theorem assignHandles_true_sound_witness:
  "\<exists>signals' xc'. assignHandles [HT_SCOPE ''TOP'', HT_VAR ''clk'' 1, HT_VAR ''pc'' 2] fst_scope_init [FstSignal_of_path 0 ''TOP.clk''] =
     Inr (Some True, signals', xc') \<and> list_all hasHandle signals'"
proof -
  define xc' where "xc' = snd (fstReaderPushScope fst_scope_init ''TOP'')"
  define signals' where "signals' = [(FstSignal_of_path 0 ''TOP.clk'')\<lparr>hasHandle := True, handle := 1\<rparr>]"
  have run: "assignHandles [HT_SCOPE ''TOP'', HT_VAR ''clk'' 1, HT_VAR ''pc'' 2] fst_scope_init [FstSignal_of_path 0 ''TOP.clk''] =
      Inr (Some True, signals', xc')"
    by (simp add: assignHandles_def assign_var_def fstReaderPushScope_def fst_scope_init_def xc'_def signals'_def
        FstSignal_of_path_def getScope_def getLocalName_def substr_def find_last_dot_def Let_def)
  have "list_all (\<lambda>sig. hasHandle sig \<and> ((scopeName sig, name sig), handle sig) \<in> set [((''TOP'', ''clk''), 1), ((''TOP'', ''pc''), 2)]) signals'"
    by (rule assignHandles_true_sound [OF init_at_path _ _ _ run])
      (simp_all add: named_hier_def FstSignal_of_path_def)
  with run show ?thesis
    by (auto simp: list_all_iff)
qed

text \<open>
  C32: the completeness of the search fails for the last variable of a file. In any hierarchy
  that never leaves more scopes than it entered, when every signal searched for has a
  variable with its scope and name and one of them is found as the last variable alone,
  every signal gets the handle of its variable and yet \<open>assignHandles\<close> returns \<open>false\<close>,
  which makes the callers exit.
\<close>
theorem assignHandles_misses_last:
  assumes "at_path xc []" "named_hier hier" "var_table hier [] = Some (vars @ [((scope, nam), h)])"
    and "list_all (\<lambda>sig. \<not> hasHandle sig \<and> (scopeName sig, name sig) \<in> fst ` set (vars @ [((scope, nam), h)])) signals"
    and "sig \<in> set signals" "(scopeName sig, name sig) = (scope, nam)" "(scope, nam) \<notin> fst ` set vars"
  shows "\<exists>signals' xc'. assignHandles hier xc signals = Inr (Some False, signals', xc') \<and>
    list_all2 (\<lambda>sig sig'. hasHandle sig' \<and> scopeName sig' = scopeName sig \<and> name sig' = name sig \<and>
      map_of (vars @ [((scope, nam), h)]) (scopeName sig, name sig) = Some (handle sig')) signals signals'"
proof -
  let ?tbl = "vars @ [((scope, nam), h)]"
  obtain xc' where run: "assignHandles hier xc signals =
      Inr (Some (list_all (\<lambda>sig. map_of vars (scopeName sig, name sig) \<noteq> None) signals),
        map (\<lambda>sig. case map_of ?tbl (scopeName sig, name sig) of
               None \<Rightarrow> sig | Some h \<Rightarrow> sig\<lparr>hasHandle := True, handle := h\<rparr>) signals, xc')"
    using assignHandles_outcome [OF assms(1-3), of signals] assms(4) by (auto simp: list_all_iff)
  have "map_of vars (scopeName sig, name sig) = None"
    unfolding assms(6) map_of_eq_None_iff using assms(7) by simp
  then have missed: "\<not> list_all (\<lambda>sig. map_of vars (scopeName sig, name sig) \<noteq> None) signals"
    using assms(5) by (auto simp: list_all_iff)
  have found: "map_of ?tbl (scopeName sig, name sig) \<noteq> None" if "sig \<in> set signals" for sig
    using assms(4) that unfolding map_of_eq_None_iff by (simp add: list_all_iff)
  have list: "list_all2 (\<lambda>sig sig'. hasHandle sig' \<and> scopeName sig' = scopeName sig \<and> name sig' = name sig \<and>
      map_of ?tbl (scopeName sig, name sig) = Some (handle sig')) signals
      (map (\<lambda>sig. case map_of ?tbl (scopeName sig, name sig) of
               None \<Rightarrow> sig | Some h \<Rightarrow> sig\<lparr>hasHandle := True, handle := h\<rparr>) signals)"
    unfolding list_all2_map2 by (rule list.rel_refl_strong) (use found in \<open>force split: option.split\<close>)
  have "list_all (\<lambda>sig. map_of vars (scopeName sig, name sig) \<noteq> None) signals = False"
    using missed by (rule iffD2 [OF eq_False])
  note run = run [unfolded this]
  show ?thesis
    by (intro exI conjI, rule run, rule list)
qed

theorem assignHandles_misses_last_witness:
  "\<exists>signals' xc'. assignHandles [HT_SCOPE ''TOP'', HT_VAR ''clk'' 1, HT_VAR ''pc'' 2, HT_UPSCOPE] fst_scope_init
       [FstSignal_of_path 0 ''TOP.clk'', FstSignal_of_path 0 ''TOP.pc''] = Inr (Some False, signals', xc') \<and>
     map hasHandle signals' = [True, True] \<and> map handle signals' = [1, 2]"
  using assignHandles_misses_last [OF init_at_path, of "[HT_SCOPE ''TOP'', HT_VAR ''clk'' 1, HT_VAR ''pc'' 2, HT_UPSCOPE]"
      "[((''TOP'', ''clk''), 1)]" "''TOP''" "''pc''" 2 "[FstSignal_of_path 0 ''TOP.clk'', FstSignal_of_path 0 ''TOP.pc'']"
      "FstSignal_of_path 0 ''TOP.pc''"]
  by (auto simp: named_hier_def FstSignal_of_path_def getScope_def getLocalName_def substr_def find_last_dot_def Let_def
      list_all2_Cons1)

text \<open>
  C33: the delivery of value changes. When the signals have handles of the file, a callback is
  made for exactly the changes of these signals, in file order, with the signal it is
  for; the lookup of the signal in the callback never fails.
\<close>
theorem getValueChanges_delivers:
  assumes "mask_wf xc" and "list_all (\<lambda>sig. is_handle xc (handle sig)) signals"
  shows "getValueChanges xc changes signals cb s = run_changes cb (selected_changes signals changes) s"
  using getValueChanges_run [OF assms] .

theorem getValueChanges_delivers_witness:
  "getValueChanges (fst_mask_init 20) [(5, 3, ''1''), (6, 2, ''0''), (7, 3, ''0'')]
     [FstSignal_of_path 3 ''TOP.clk''] (\<lambda>t sig v s. Inr (s @ [(t, v)])) [] = Inr [(5, ''1''), (7, ''0'')]"
proof -
  have "list_all (\<lambda>sig. is_handle (fst_mask_init 20) (handle sig)) [FstSignal_of_path 3 ''TOP.clk'']"
    by (simp add: FstSignal_of_path_def is_handle_def fst_mask_init_def)
  moreover have "mask_wf (fst_mask_init 20)"
    by (rule mask_init_wf) simp
  ultimately show ?thesis
    using getValueChanges_delivers [of "fst_mask_init 20" "[FstSignal_of_path 3 ''TOP.clk'']"
        "[(5, 3, ''1''), (6, 2, ''0''), (7, 3, ''0'')]" "\<lambda>t sig v s. Inr (s @ [(t, v)])" "[]"]
    by (simp add: selected_changes_def List.map_filter_simps FstSignal_of_path_def)
qed

end
