(* ===== verification/Sampling.thy ===== *)
theory Sampling
  imports Fst_Process
begin

text \<open>
  What the three trace extractors (\<open>CpuTrace\<close>, \<open>RegFileTrace\<close>, \<open>MemTrace\<close>) have in
  common, as two contracts. A \<^emph>\<open>sampler\<close> is a callback that follows the values of some
  signals and emits records when the clock falls; an \<^emph>\<open>access log\<close> is a list of
  timed writes that is queried for the value of an address at a time.
\<close>

section \<open>Sampling at the falling clock edge\<close>

text \<open>
  The specification: an environment holds the last known value of every signal (values
  with \<open>x\<close> or \<open>z\<close> are ignored), and at each change of the clock to 0 the records
  \<open>out time env\<close> are emitted.
\<close>

type_synonym env = "handle \<Rightarrow> u64"

fun sample :: "handle \<Rightarrow> (u64 \<Rightarrow> env \<Rightarrow> 'a list) \<Rightarrow> env \<Rightarrow> (u64 \<times> FstSignal \<times> string) list \<Rightarrow> 'a list" where
  "sample clk out env [] = []"
| "sample clk out env ((time, sig, v) # es) =
     (if has_unknown v then sample clk out env es
      else case value_int v of
             Inl _ \<Rightarrow> []
           | Inr n \<Rightarrow> (if handle sig = clk \<and> n = 0 then out time env else []) @
               sample clk out (env(handle sig := n)) es)"

locale sampler =
  fixes cb :: "u64 \<Rightarrow> FstSignal \<Rightarrow> string \<Rightarrow> 's \<Rightarrow> cxx_error + 's"
    and trace :: "'s \<Rightarrow> 'a list"
    and rel :: "'s \<Rightarrow> env \<Rightarrow> bool"
    and clk :: handle
    and out :: "u64 \<Rightarrow> env \<Rightarrow> 'a list"
  assumes cb_unknown: "has_unknown v \<Longrightarrow> cb t sig v s = Inr s"
    and cb_error: "\<not> has_unknown v \<Longrightarrow> value_int v = Inl e \<Longrightarrow> cb t sig v s = Inl e"
    and cb_value: "\<not> has_unknown v \<Longrightarrow> value_int v = Inr n \<Longrightarrow> rel s env \<Longrightarrow>
      \<exists>s'. cb t sig v s = Inr s' \<and> rel s' (env(handle sig := n)) \<and>
        trace s' = trace s @ (if handle sig = clk \<and> n = 0 then out t env else [])"
begin

lemma run_samples:
  "rel s env \<Longrightarrow> run_changes cb es s = Inr s' \<Longrightarrow> trace s' = trace s @ sample clk out env es"
proof (induction es arbitrary: s env)
  case (Cons e es)
  obtain t sig v where e: "e = (t, sig, v)"
    by (metis prod_cases3)
  show ?case
  proof (cases "has_unknown v")
    case True
    then show ?thesis
      using Cons cb_unknown [OF True] by (simp add: e)
  next
    case False
    then obtain n where n: "value_int v = Inr n"
      using Cons.prems(2) cb_error [OF False] by (cases "value_int v") (auto simp: e)
    obtain s1 where s1: "cb t sig v s = Inr s1" "rel s1 (env(handle sig := n))"
      "trace s1 = trace s @ (if handle sig = clk \<and> n = 0 then out t env else [])"
      using cb_value [OF False n Cons.prems(1)] by blast
    have "run_changes cb es s1 = Inr s'"
      using Cons.prems(2) s1(1) by (simp add: e)
    from Cons.IH [OF s1(2) this] show ?thesis
      using False n s1(3) by (simp add: e del: fun_upd_apply)
  qed
qed simp

text \<open>The extraction ends normally unless a value is no number.\<close>

lemma run_ends:
  "rel s env \<Longrightarrow> list_all (\<lambda>(t, sig, v). has_unknown v \<or> (\<exists>n. value_int v = Inr n)) es \<Longrightarrow>
     \<exists>s'. run_changes cb es s = Inr s'"
proof (induction es arbitrary: s env)
  case (Cons e es)
  obtain t sig v where e: "e = (t, sig, v)"
    by (metis prod_cases3)
  have "\<exists>s1 env1. cb t sig v s = Inr s1 \<and> rel s1 env1"
    using Cons.prems cb_unknown cb_value by (cases "has_unknown v") (fastforce simp: e)+
  then show ?case
    using Cons.IH Cons.prems(2) by (auto simp: e)
qed simp

end

text \<open>
  Records that carry the time of their edge come out in the order of the changes.
\<close>

lemma sample_times:
  assumes "\<And>t env x. x \<in> set (out t env) \<Longrightarrow> time_of x = t"
    and "x \<in> set (sample clk out env es)"
  shows "time_of x \<in> fst ` set es"
  using assms(2)
proof (induction es arbitrary: env)
  case (Cons e es)
  obtain t sig v where e: "e = (t, sig, v)"
    by (metis prod_cases3)
  with Cons.prems consider "x \<in> set (out t env)" | env' where "x \<in> set (sample clk out env' es)"
    by (auto split: if_splits sum.splits)
  then show ?case
    using Cons.IH assms(1) by cases (auto simp: e)
qed simp

lemma sample_all:
  assumes "\<And>t env x. x \<in> set (out t env) \<Longrightarrow> P x"
  shows "list_all P (sample clk out env es)"
proof (induction es arbitrary: env)
  case (Cons e es)
  obtain t sig v where "e = (t, sig, v)"
    by (metis prod_cases3)
  then show ?case
    using Cons.IH assms by (auto simp: list_all_iff split: sum.splits)
qed simp

lemma sample_sorted:
  assumes out: "\<And>t env x. x \<in> set (out t env) \<Longrightarrow> time_of x = t"
  shows "sorted (map fst es) \<Longrightarrow> sorted (map time_of (sample clk out env es))"
proof (induction es arbitrary: env)
  case (Cons e es)
  obtain t sig v where e: "e = (t, sig, v)"
    by (metis prod_cases3)
  have later: "t \<le> time_of x" if x: "x \<in> set (sample clk out env' es)" for x env'
  proof -
    have "time_of x \<in> fst ` set es"
      by (rule sample_times [of out time_of, OF out x])
    then show ?thesis
      using Cons.prems by (auto simp: e)
  qed
  have now: "map time_of (out t env) = replicate (length (out t env)) t"
    using out [of _ t env] by (simp add: map_replicate_const [symmetric] cong: map_cong)
  have rest: "sorted (map time_of (sample clk out env' es))" for env'
    using Cons.IH Cons.prems by (simp add: e)
  show ?case
    using rest later out by (fastforce simp: e now sorted_append split: sum.splits)
qed simp

lemma selected_changes_Nil [simp]: "selected_changes signals [] = []"
  by (simp add: selected_changes_def)

lemma selected_changes_Cons [simp]:
  "selected_changes signals ((t, h, v) # changes) =
     (case find (\<lambda>sig. handle sig = h) signals of
        None \<Rightarrow> selected_changes signals changes
      | Some sig \<Rightarrow> (t, sig, v) # selected_changes signals changes)"
  by (simp add: selected_changes_def List.map_filter_simps split: option.splits)

lemma selected_changes_times:
  "set (map fst (selected_changes signals changes)) \<subseteq> set (map fst changes)"
proof (induction changes)
  case (Cons e changes)
  then show ?case
    by (cases e) (auto split: option.splits)
qed simp

lemma selected_changes_sorted:
  "sorted (map fst changes) \<Longrightarrow> sorted (map fst (selected_changes signals changes))"
proof (induction changes)
  case (Cons e changes)
  obtain t h v where e: "e = (t, h, v)"
    by (metis prod_cases3)
  have "\<forall>y \<in> set (map fst (selected_changes signals changes)). t \<le> y"
  proof
    fix y
    assume "y \<in> set (map fst (selected_changes signals changes))"
    then have "y \<in> fst ` set changes"
      using selected_changes_times [of signals changes] by fastforce
    then show "t \<le> y"
      using Cons.prems by (auto simp: e)
  qed
  then show ?case
    using Cons by (auto simp: e split: option.splits)
qed simp

section \<open>Querying a log of timed writes\<close>

locale access_log =
  fixes time_of :: "'a \<Rightarrow> u64"
    and wr_of :: "'a \<Rightarrow> bool"
    and addr_of :: "'a \<Rightarrow> u64"
    and value_of :: "'a \<Rightarrow> u64"
    and scan :: "'a list \<Rightarrow> u64 \<Rightarrow> u64 \<Rightarrow> bool \<times> u64 \<Rightarrow> bool \<times> u64"
  assumes scan_Nil: "scan [] t a r = r"
    and scan_Cons: "scan (m # ms) t a r =
      (if time_of m > t then r
       else scan ms t a (if wr_of m \<and> addr_of m = a then (True, value_of m) else r))"
begin

text \<open>The contents after all the writes of a list, from given contents.\<close>

definition replay :: "(u64 \<Rightarrow> u64 option) \<Rightarrow> 'a list \<Rightarrow> u64 \<Rightarrow> u64 option" where
  "replay mem ms = foldl (\<lambda>mem m. if wr_of m then mem(addr_of m \<mapsto> value_of m) else mem) mem ms"

definition as_result :: "u64 option \<Rightarrow> bool \<times> u64 \<Rightarrow> bool \<times> u64" where
  "as_result x r = (case x of None \<Rightarrow> r | Some v \<Rightarrow> (True, v))"

lemma replay_Nil [simp]: "replay mem [] = mem"
  by (simp add: replay_def)

lemma replay_Cons [simp]:
  "replay mem (m # ms) = replay (if wr_of m then mem(addr_of m \<mapsto> value_of m) else mem) ms"
  by (simp add: replay_def)

lemma replay_append: "replay mem (xs @ ys) = replay (replay mem xs) ys"
  by (simp add: replay_def)

lemma replay_eq:
  "replay mem ms a = (case replay Map.empty ms a of None \<Rightarrow> mem a | Some v \<Rightarrow> Some v)"
proof (induction ms rule: rev_induct)
  case (snoc m ms)
  then show ?case
    by (auto simp: replay_append split: option.splits)
qed simp

lemma scan_replay_prefix:
  "scan ms t a r = as_result (replay Map.empty (takeWhile (\<lambda>m. time_of m \<le> t) ms) a) r"
proof (induction ms arbitrary: r)
  case Nil
  then show ?case
    by (simp add: scan_Nil as_result_def)
next
  case (Cons m ms)
  define upto where "upto = takeWhile (\<lambda>m. time_of m \<le> t) ms"
  have "replay (if wr_of m then [addr_of m \<mapsto> value_of m] else Map.empty) upto a =
      (case replay Map.empty upto a of None \<Rightarrow> (if wr_of m \<and> addr_of m = a then Some (value_of m) else None) | Some v \<Rightarrow> Some v)"
    by (subst replay_eq) (auto split: option.splits)
  then show ?case
    using Cons by (auto simp: scan_Cons as_result_def upto_def not_less split: option.splits)
qed

lemma takeWhile_sorted:
  "sorted (map time_of ms) \<Longrightarrow> takeWhile (\<lambda>m. time_of m \<le> t) ms = filter (\<lambda>m. time_of m \<le> t) ms"
proof (induction ms)
  case (Cons m ms)
  have "filter (\<lambda>m. time_of m \<le> t) ms = []" if "\<not> time_of m \<le> t"
    using Cons.prems that by (auto simp: filter_empty_conv)
  then show ?case
    using Cons by auto
qed simp

text \<open>In a log sorted by time the query is the replay of the writes up to the time.\<close>

lemma scan_replay:
  "sorted (map time_of ms) \<Longrightarrow>
     scan ms t a r = as_result (replay Map.empty (filter (\<lambda>m. time_of m \<le> t) ms) a) r"
  by (simp add: scan_replay_prefix takeWhile_sorted)

lemma replay_last:
  "wr_of m \<Longrightarrow> addr_of m = a \<Longrightarrow> list_all (\<lambda>m'. \<not> (wr_of m' \<and> addr_of m' = a)) later \<Longrightarrow>
     replay mem (earlier @ m # later) a = Some (value_of m)"
proof -
  assume m: "wr_of m" "addr_of m = a" and later: "list_all (\<lambda>m'. \<not> (wr_of m' \<and> addr_of m' = a)) later"
  have "replay mem' later a = mem' a" for mem'
    using later by (induction later arbitrary: mem') auto
  with m show ?thesis
    by (simp add: replay_append)
qed

lemma replay_none:
  "list_all (\<lambda>m. \<not> (wr_of m \<and> addr_of m = a)) ms \<Longrightarrow> replay mem ms a = mem a"
  by (induction ms arbitrary: mem) auto

end

end
