(* ===== verification/Cpu_Trace.thy ===== *)
theory Cpu_Trace
  imports Sampling
begin

text \<open>
  \<open>CpuTrace\<close> (\<open>src/CpuTrace.h\<close>, \<open>src/CpuTrace.cc\<close>): the extraction of the retired
  instructions from the waveform. The iterator \<open>pcTraceIt\<close> is an index into \<open>pcTrace\<close>;
  the index \<open>length pcTrace\<close> is \<open>end ()\<close>.
\<close>

record PcValue =
  pv_time :: u64
  pv_pc :: u64

record CpuTrace =
  cpu_clk :: FstSignal
  pcValid :: FstSignal
  pc :: FstSignal
  curPcValidVal :: u64
  curPcVal :: u64
  pcTrace :: "PcValue list"
  pcTraceIt :: nat

definition pcChangedCB :: "u64 \<Rightarrow> FstSignal \<Rightarrow> string \<Rightarrow> CpuTrace \<Rightarrow> cxx_error + CpuTrace" where
  "pcChangedCB time signal val cpuTrace =
     (if has_unknown val then Inr cpuTrace
      else case value_int val of
        Inl e \<Rightarrow> Inl e
      | Inr valueInt \<Rightarrow>
          if handle signal = handle (pcValid cpuTrace) then Inr (cpuTrace\<lparr>curPcValidVal := valueInt\<rparr>)
          else if handle signal = handle (pc cpuTrace) then Inr (cpuTrace\<lparr>curPcVal := valueInt\<rparr>)
          else if handle signal = handle (cpu_clk cpuTrace) \<and> valueInt = 0 then
            (if curPcValidVal cpuTrace \<noteq> 0
             then Inr (cpuTrace\<lparr>pcTrace := pcTrace cpuTrace @ [\<lparr>pv_time = time, pv_pc = curPcVal cpuTrace\<rparr>]\<rparr>)
             else Inr cpuTrace)
          else Inr cpuTrace)"

text \<open>
  The constructor takes the three signals and extracts the trace; a signal that is not
  found ends the process.
\<close>

definition CpuTrace_init ::
  "fstHier list \<Rightarrow> fst_scope \<Rightarrow> fst_mask \<Rightarrow> change list \<Rightarrow> CpuTrace \<Rightarrow> cxx_error + (CpuTrace \<times> fst_scope)" where
  "CpuTrace_init hier xc fm changes cpuTrace =
     (case assignHandles hier xc [cpu_clk cpuTrace, pcValid cpuTrace, pc cpuTrace] of
        Inl e \<Rightarrow> Inl e
      | Inr (allSigsFound, sigs, xc1) \<Rightarrow>
          (case allSigsFound of
             None \<Rightarrow> Inl Uninitialised
           | Some False \<Rightarrow> Inl (ExitProcess (- 1))
           | Some True \<Rightarrow>
               (let cpuTrace1 = cpuTrace\<lparr>cpu_clk := sigs ! 0, pcValid := sigs ! 1, pc := sigs ! 2,
                                  curPcValidVal := 0, curPcVal := 0\<rparr>
                in case getValueChanges fm changes sigs pcChangedCB cpuTrace1 of
                     Inl e \<Rightarrow> Inl e
                   | Inr cpuTrace2 \<Rightarrow> Inr (cpuTrace2, xc1))))"

definition CpuTrace_new ::
  "fstHier list \<Rightarrow> fst_scope \<Rightarrow> fst_mask \<Rightarrow> change list \<Rightarrow> FstSignal \<Rightarrow> FstSignal \<Rightarrow> FstSignal \<Rightarrow>
     cxx_error + (CpuTrace \<times> fst_scope)" where
  "CpuTrace_new hier xc fm changes clkSig pcValidSig pcSig =
     CpuTrace_init hier xc fm changes
       \<lparr>cpu_clk = clkSig, pcValid = pcValidSig, pc = pcSig, curPcValidVal = 0, curPcVal = 0, pcTrace = [], pcTraceIt = 0\<rparr>"

section \<open>The trace samples the program counter\<close>

text \<open>What the trace promises: at every falling clock edge at which the valid signal is not 0, the program counter.\<close>

definition pc_samples :: "handle \<Rightarrow> handle \<Rightarrow> u64 \<Rightarrow> env \<Rightarrow> PcValue list" where
  "pc_samples hv hp time env = (if env hv \<noteq> 0 then [\<lparr>pv_time = time, pv_pc = env hp\<rparr>] else [])"

definition cpu_rel :: "handle \<Rightarrow> handle \<Rightarrow> handle \<Rightarrow> CpuTrace \<Rightarrow> env \<Rightarrow> bool" where
  "cpu_rel hc hv hp s env \<longleftrightarrow> distinct [hc, hv, hp] \<and> handle (cpu_clk s) = hc \<and> handle (pcValid s) = hv \<and> handle (pc s) = hp \<and>
     curPcValidVal s = env hv \<and> curPcVal s = env hp"

interpretation cpu: sampler pcChangedCB pcTrace "cpu_rel hc hv hp" hc "pc_samples hv hp" for hc hv hp
  by unfold_locales
    (auto simp: pcChangedCB_def cpu_rel_def pc_samples_def split: if_splits)

text \<open>The three signals after the search, and what is left unchanged by the extraction.\<close>

lemma CpuTrace_new_cases:
  assumes "CpuTrace_new hier xc fm changes clkSig vSig pSig = Inr (s, xc')"
  obtains sigs s0 where "assignHandles hier xc [clkSig, vSig, pSig] = Inr (Some True, sigs, xc')"
    "getValueChanges fm changes sigs pcChangedCB s0 = Inr s"
    "s0 = \<lparr>cpu_clk = sigs ! 0, pcValid = sigs ! 1, pc = sigs ! 2, curPcValidVal = 0, curPcVal = 0, pcTrace = [], pcTraceIt = 0\<rparr>"
  using assms
  by (auto simp: CpuTrace_new_def CpuTrace_init_def Let_def split: sum.splits prod.splits option.splits bool.splits)

lemma CpuTrace_sampled:
  assumes "CpuTrace_new hier xc fm changes clkSig vSig pSig = Inr (s, xc')"
    and "assignHandles hier xc [clkSig, vSig, pSig] = Inr (Some True, [c, v, p], xc')"
    and "mask_wf fm" "list_all (\<lambda>sig. is_handle fm (handle sig)) [c, v, p]"
    and "distinct [handle c, handle v, handle p]"
  shows "pcTrace s = sample (handle c) (pc_samples (handle v) (handle p)) (\<lambda>_. 0) (selected_changes [c, v, p] changes)"
proof -
  define s0 where "s0 = \<lparr>cpu_clk = c, pcValid = v, pc = p, curPcValidVal = 0, curPcVal = 0, pcTrace = [], pcTraceIt = 0\<rparr>"
  have "getValueChanges fm changes [c, v, p] pcChangedCB s0 = Inr s"
    using assms(1) by (rule CpuTrace_new_cases) (use assms(2) in \<open>auto simp: s0_def\<close>)
  then have run: "run_changes pcChangedCB (selected_changes [c, v, p] changes) s0 = Inr s"
    by (simp only: getValueChanges_run [OF assms(3,4)])
  have "cpu_rel (handle c) (handle v) (handle p) s0 (\<lambda>_. 0)"
    using assms(5) by (simp add: cpu_rel_def s0_def)
  from cpu.run_samples [OF this run] show ?thesis
    by (simp add: s0_def)
qed

text \<open>
  C16: the instruction trace of a waveform. When construction succeeds with handles of the
  file that are pairwise different, the trace is exactly the sequence, in file order, of
  the known program counter values at the falling edges of the clock at which the valid
  signal is not 0 (both 0 before their first known value).
\<close>
theorem CpuTrace_samples:
  assumes "CpuTrace_new hier xc fm changes clkSig vSig pSig = Inr (s, xc')"
    and "assignHandles hier xc [clkSig, vSig, pSig] = Inr (Some True, [c, v, p], xc')"
    and "mask_wf fm" "list_all (\<lambda>sig. is_handle fm (handle sig)) [c, v, p]"
    and "distinct [handle c, handle v, handle p]"
  shows "pcTrace s = sample (handle c) (pc_samples (handle v) (handle p)) (\<lambda>_. 0) (selected_changes [c, v, p] changes)"
  using CpuTrace_sampled [OF assms] .

text \<open>A small waveform: one instruction at 0x80000000, retired at time 10; the next edge has no valid instruction.\<close>

definition example_hier :: "fstHier list" where
  "example_hier = [HT_SCOPE ''TOP'', HT_VAR ''clk'' 1, HT_VAR ''valid'' 2, HT_VAR ''pc'' 3, HT_VAR ''other'' 4, HT_UPSCOPE]"

definition example_changes :: "change list" where
  "example_changes =
     [(0, 1, ''0''), (0, 3, ''x''), (5, 1, ''1''), (5, 2, ''1''), (5, 3, ''10000000000000000000000000000000''),
      (10, 1, ''0''), (15, 1, ''1''), (15, 2, ''0''), (15, 4, ''1''), (20, 1, ''0'')]"

definition example_signal :: "string \<Rightarrow> FstSignal" where
  "example_signal n = \<lparr>scopeName = ''TOP'', name = n, hasHandle = False, handle = 0\<rparr>"

lemmas example_defs = example_hier_def example_changes_def example_signal_def

lemmas waveform_eval = assignHandles_def assign_var_def fstReaderPushScope_def fstReaderPopScope_def fst_scope_init_def
  value_int_def stol2_def bits_value_def bin_digit_def isspace_def has_unknown_def find_last_dot_def

lemma example_assign:
  "assignHandles example_hier fst_scope_init [example_signal ''clk'', example_signal ''valid'', example_signal ''pc''] =
     Inr (Some True,
       [(example_signal ''clk'')\<lparr>hasHandle := True, handle := 1\<rparr>, (example_signal ''valid'')\<lparr>hasHandle := True, handle := 2\<rparr>,
        (example_signal ''pc'')\<lparr>hasHandle := True, handle := 3\<rparr>],
       \<lparr>curr_flat_hier_nam = Some [], curr_hier = []\<rparr>)"
  by (simp add: waveform_eval example_defs)

lemma example_mask:
  "mask_wf (fst_mask_init 4)" "is_handle (fst_mask_init 4) 1" "is_handle (fst_mask_init 4) 2" "is_handle (fst_mask_init 4) 3"
  by (rule mask_init_wf) (simp_all add: is_handle_def fst_mask_init_def)

lemma example_trace:
  "\<exists>s. CpuTrace_new example_hier fst_scope_init (fst_mask_init 4) example_changes
         (example_signal ''clk'') (example_signal ''valid'') (example_signal ''pc'') =
       Inr (s, \<lparr>curr_flat_hier_nam = Some [], curr_hier = []\<rparr>)"
proof -
  define sigs where "sigs = [(example_signal ''clk'')\<lparr>hasHandle := True, handle := 1\<rparr>,
    (example_signal ''valid'')\<lparr>hasHandle := True, handle := 2\<rparr>, (example_signal ''pc'')\<lparr>hasHandle := True, handle := 3\<rparr>]"
  define s0 where "s0 = \<lparr>cpu_clk = sigs ! 0, pcValid = sigs ! 1, pc = sigs ! 2, curPcValidVal = 0, curPcVal = 0,
    pcTrace = [], pcTraceIt = 0\<rparr>"
  have "list_all (\<lambda>sig. is_handle (fst_mask_init 4) (handle sig)) sigs"
    by (simp add: sigs_def example_mask)
  note run = getValueChanges_run [OF example_mask(1) this, of example_changes pcChangedCB s0]
  have "cpu_rel 1 2 3 s0 (\<lambda>_. 0)"
    by (simp add: cpu_rel_def s0_def sigs_def)
  moreover have "list_all (\<lambda>(t, sig, v). has_unknown v \<or> (\<exists>n. value_int v = Inr n)) (selected_changes sigs example_changes)"
    by (simp add: sigs_def example_changes_def waveform_eval)
  ultimately obtain s where "run_changes pcChangedCB (selected_changes sigs example_changes) s0 = Inr s"
    using cpu.run_ends by blast
  with run show ?thesis
    by (simp add: CpuTrace_new_def CpuTrace_init_def example_assign sigs_def [symmetric])
      (simp add: s0_def sigs_def)
qed

theorem CpuTrace_samples_witness:
  "\<exists>s xc'. CpuTrace_new example_hier fst_scope_init (fst_mask_init 4) example_changes
         (example_signal ''clk'') (example_signal ''valid'') (example_signal ''pc'') = Inr (s, xc') \<and>
     pcTrace s = [\<lparr>pv_time = 10, pv_pc = 0x80000000\<rparr>]"
proof -
  obtain s where s: "CpuTrace_new example_hier fst_scope_init (fst_mask_init 4) example_changes
      (example_signal ''clk'') (example_signal ''valid'') (example_signal ''pc'') =
      Inr (s, \<lparr>curr_flat_hier_nam = Some [], curr_hier = []\<rparr>)"
    using example_trace by blast
  have "pcTrace s = [\<lparr>pv_time = 10, pv_pc = 0x80000000\<rparr>]"
    by (subst CpuTrace_samples [OF s example_assign example_mask(1)])
      (simp_all add: example_mask example_changes_def pc_samples_def waveform_eval)
  with s show ?thesis
    by blast
qed

text \<open>
  The instruction trace is ordered by time when the reader delivers the changes in the
  order of time, which the queries of the register and memory traces rely on.
\<close>
theorem CpuTrace_time_ordered:
  assumes "CpuTrace_new hier xc fm changes clkSig vSig pSig = Inr (s, xc')"
    and "sorted (map fst changes)"
    and "assignHandles hier xc [clkSig, vSig, pSig] = Inr (Some True, [c, v, p], xc')"
    and "mask_wf fm" "list_all (\<lambda>sig. is_handle fm (handle sig)) [c, v, p]"
    and "distinct [handle c, handle v, handle p]"
  shows "sorted (map pv_time (pcTrace s))"
proof -
  have "pv_time x = t" if "x \<in> set (pc_samples (handle v) (handle p) t env)" for x t env
    using that by (auto simp: pc_samples_def split: if_splits)
  then show ?thesis
    using sample_sorted selected_changes_sorted [OF assms(2)] CpuTrace_sampled [OF assms(1,3-6)] by metis
qed

theorem CpuTrace_time_ordered_witness:
  "\<exists>s xc'. CpuTrace_new example_hier fst_scope_init (fst_mask_init 4) example_changes
         (example_signal ''clk'') (example_signal ''valid'') (example_signal ''pc'') = Inr (s, xc') \<and>
     sorted (map pv_time (pcTrace s))"
proof -
  obtain s where s: "CpuTrace_new example_hier fst_scope_init (fst_mask_init 4) example_changes
      (example_signal ''clk'') (example_signal ''valid'') (example_signal ''pc'') =
      Inr (s, \<lparr>curr_flat_hier_nam = Some [], curr_hier = []\<rparr>)"
    using example_trace by blast
  have "sorted (map pv_time (pcTrace s))"
    by (rule CpuTrace_time_ordered [OF s _ example_assign example_mask(1)])
      (simp_all add: example_mask example_changes_def)
  with s show ?thesis
    by blast
qed

end
