(* ===== verification/Mem_Trace.thy ===== *)
theory Mem_Trace
  imports Cpu_Trace
begin

text \<open>
  \<open>MemTrace\<close> (\<open>src/MemTrace.h\<close>, \<open>src/MemTrace.cc\<close>): the writes on the CPU's data bus, split
  into bytes by the size and the address of the command, the initial contents of the
  memory, and the query for a byte at a time.
\<close>

record MemAccess =
  ma_time :: u64
  ma_wr :: bool
  ma_addr :: u64
  ma_value :: u64

record MemTrace =
  memInitStartAddr :: u32
  memInitContents :: "byte list"
  mem_clk :: FstSignal
  memCmdValid :: FstSignal
  memCmdReady :: FstSignal
  memCmdAddr :: FstSignal
  memCmdSize :: FstSignal
  memCmdWr :: FstSignal
  memCmdWrData :: FstSignal
  memRspValid :: FstSignal
  memRspData :: FstSignal
  curMemCmdValid :: bool
  curMemCmdReady :: bool
  curMemCmdAddr :: u64
  curMemCmdSize :: u64
  curMemCmdWr :: bool
  curMemCmdWrData :: u64
  curMemRspValid :: bool
  curMemRspData :: u64
  memTrace :: "MemAccess list"

section \<open>Bus writes\<close>

definition byte_enables :: "u64 \<Rightarrow> u64 \<Rightarrow> u32" where
  "byte_enables sz addr =
     (if sz = 0 then push_bit (unat (addr AND 3)) 1
      else if sz = 1 then push_bit (unat (addr AND 3)) 3
      else 15)"

definition byte_access :: "u64 \<Rightarrow> bool \<Rightarrow> u64 \<Rightarrow> u64 \<Rightarrow> nat \<Rightarrow> MemAccess" where
  "byte_access time wr cmdAddr wrData byteNr =
     \<lparr>ma_time = time, ma_wr = wr, ma_addr = (cmdAddr AND NOT 3) OR word_of_nat byteNr,
      ma_value = drop_bit (byteNr * 8) wrData AND 255\<rparr>"

definition write_accesses :: "u64 \<Rightarrow> bool \<Rightarrow> u64 \<Rightarrow> u64 \<Rightarrow> u64 \<Rightarrow> MemAccess list" where
  "write_accesses time wr sz cmdAddr wrData =
     map (byte_access time wr cmdAddr wrData)
       (filter (\<lambda>byteNr. byte_enables sz cmdAddr AND push_bit byteNr 1 \<noteq> 0) [0..<4])"

definition processSignalChanged :: "u64 \<Rightarrow> FstSignal \<Rightarrow> string \<Rightarrow> MemTrace \<Rightarrow> cxx_error + MemTrace" where
  "processSignalChanged time signal val s =
     (if has_unknown val then Inr s
      else case value_int val of
        Inl e \<Rightarrow> Inl e
      | Inr valueInt \<Rightarrow>
          if handle signal = handle (memCmdValid s) then Inr (s\<lparr>curMemCmdValid := (valueInt \<noteq> 0)\<rparr>)
          else if handle signal = handle (memCmdReady s) then Inr (s\<lparr>curMemCmdReady := (valueInt \<noteq> 0)\<rparr>)
          else if handle signal = handle (memCmdAddr s) then Inr (s\<lparr>curMemCmdAddr := valueInt\<rparr>)
          else if handle signal = handle (memCmdSize s) then Inr (s\<lparr>curMemCmdSize := valueInt\<rparr>)
          else if handle signal = handle (memCmdWr s) then Inr (s\<lparr>curMemCmdWr := (valueInt \<noteq> 0)\<rparr>)
          else if handle signal = handle (memCmdWrData s) then Inr (s\<lparr>curMemCmdWrData := valueInt\<rparr>)
          else if handle signal = handle (memRspValid s) then Inr (s\<lparr>curMemRspValid := (valueInt \<noteq> 0)\<rparr>)
          else if handle signal = handle (memRspData s) then Inr (s\<lparr>curMemRspData := valueInt\<rparr>)
          else if handle signal = handle (mem_clk s) \<and> valueInt = 0 then
            (if curMemCmdValid s \<and> curMemCmdReady s then
               (if curMemCmdWr s
                then Inr (s\<lparr>memTrace := memTrace s @
                       write_accesses time (curMemCmdWr s) (curMemCmdSize s) (curMemCmdAddr s) (curMemCmdWrData s)\<rparr>)
                else Inr s)
             else Inr s)
          else Inr s)"

definition mem_signals :: "MemTrace \<Rightarrow> FstSignal list" where
  "mem_signals s = [mem_clk s, memCmdValid s, memCmdReady s, memCmdAddr s, memCmdSize s, memCmdWr s, memCmdWrData s,
     memRspValid s, memRspData s]"

text \<open>
  \<open>init\<close>. The initial contents are those of the file named in the configuration (empty when no
  file is named): \<open>initFile\<close> is \<open>None\<close> for no name, \<open>Some None\<close> for a file that cannot be
  opened and \<open>Some (Some bytes)\<close> otherwise.
\<close>

definition MemTrace_load :: "byte list option option \<Rightarrow> MemTrace \<Rightarrow> cxx_error + MemTrace" where
  "MemTrace_load initFile s =
     (case initFile of
        None \<Rightarrow> Inr s
      | Some None \<Rightarrow> Inl (ExitProcess 1)
      | Some (Some bytes) \<Rightarrow> Inr (s\<lparr>memInitContents := bytes\<rparr>))"

definition MemTrace_init ::
  "byte list option option \<Rightarrow> fstHier list \<Rightarrow> fst_scope \<Rightarrow> fst_mask \<Rightarrow> change list \<Rightarrow> MemTrace \<Rightarrow>
     cxx_error + (MemTrace \<times> fst_scope)" where
  "MemTrace_init initFile hier xc fm changes s =
     (case MemTrace_load initFile s of
        Inl e \<Rightarrow> Inl e
      | Inr s0 \<Rightarrow>
        (case assignHandles hier xc (mem_signals s0) of
           Inl e \<Rightarrow> Inl e
         | Inr (allSigsFound, sigs, xc1) \<Rightarrow>
             (case allSigsFound of
                None \<Rightarrow> Inl Uninitialised
              | Some False \<Rightarrow> Inl (ExitProcess (- 1))
              | Some True \<Rightarrow>
                  (let s1 = s0\<lparr>mem_clk := sigs ! 0, memCmdValid := sigs ! 1, memCmdReady := sigs ! 2, memCmdAddr := sigs ! 3,
                              memCmdSize := sigs ! 4, memCmdWr := sigs ! 5, memCmdWrData := sigs ! 6,
                              memRspValid := sigs ! 7, memRspData := sigs ! 8,
                              curMemCmdValid := False, curMemCmdReady := False, curMemCmdAddr := 0, curMemCmdSize := 0,
                              curMemCmdWr := False, curMemCmdWrData := 0, curMemRspValid := False, curMemRspData := 0\<rparr>
                   in case getValueChanges fm changes sigs processSignalChanged s1 of
                        Inl e \<Rightarrow> Inl e
                      | Inr s2 \<Rightarrow> Inr (s2, xc1)))))"

section \<open>The query\<close>

fun mem_scan :: "MemAccess list \<Rightarrow> u64 \<Rightarrow> u64 \<Rightarrow> bool \<times> u64 \<Rightarrow> bool \<times> u64" where
  "mem_scan [] time addr r = r"
| "mem_scan (m # ms) time addr r =
     (if ma_time m > time then r
      else mem_scan ms time addr (if ma_wr m \<and> ma_addr m = addr then (True, ma_value m) else r))"

definition MemTrace_getValue :: "MemTrace \<Rightarrow> u64 \<Rightarrow> u64 \<Rightarrow> bool \<times> byte" where
  "MemTrace_getValue s time addr =
     (let start = ucast (memInitStartAddr s);
          initial = (if start \<le> addr \<and> addr < start + word_of_nat (length (memInitContents s))
                     then (True, scast (memInitContents s ! unat (addr - start)))
                     else (False, 0));
          (valueValid, val) = mem_scan (memTrace s) time addr initial
      in (valueValid, ucast val))"

section \<open>What a bus write does to memory\<close>

interpretation memlog: access_log ma_time ma_wr ma_addr ma_value mem_scan
  by unfold_locales simp_all

lemma three_is_mask: "(3 :: u64) = mask 2"
  by (simp add: mask_numeral)

lemma lane_of: "unat ((a :: u64) AND 3) < 4"
proof -
  have "a AND 3 = take_bit 2 a"
    by (simp add: three_is_mask take_bit_eq_mask)
  then show ?thesis
    by (simp add: unsigned_take_bit_eq take_bit_nat_less_exp [of 2, simplified])
qed

text \<open>Byte lane \<open>n\<close> of the word an address lies in.\<close>

lemma lane_word:
  assumes "n < 4"
  shows "word_of_nat n AND (3 :: u64) = word_of_nat n" "word_of_nat n AND NOT (3 :: u64) = 0"
    "unat (word_of_nat n :: u64) = n"
proof -
  from assms consider "n = 0" | "n = 1" | "n = 2" | "n = 3"
    by linarith
  then show "word_of_nat n AND (3 :: u64) = word_of_nat n" "word_of_nat n AND NOT (3 :: u64) = 0"
    "unat (word_of_nat n :: u64) = n"
    by (cases; simp)+
qed

lemma lane_eq:
  assumes "n < 4"
  shows "(addr AND NOT 3) OR word_of_nat n = (a :: u64) \<longleftrightarrow> a AND NOT 3 = addr AND NOT 3 \<and> unat (a AND 3) = n"
proof
  assume a: "(addr AND NOT 3) OR word_of_nat n = a"
  have "a AND NOT 3 = addr AND NOT 3" "a AND 3 = word_of_nat n"
    unfolding a [symmetric] using lane_word [OF assms]
    by (simp_all add: word_ao_dist and.assoc)
  then show "a AND NOT 3 = addr AND NOT 3 \<and> unat (a AND 3) = n"
    using lane_word [OF assms] by simp
next
  assume a: "a AND NOT 3 = addr AND NOT 3 \<and> unat (a AND 3) = n"
  then have "word_of_nat n = a AND 3"
    by auto
  moreover have "(a AND NOT 3) OR (a AND 3) = a"
    by (rule bit_word_eqI) (auto simp: bit_simps)
  ultimately show "(addr AND NOT 3) OR word_of_nat n = a"
    using a by simp
qed

text \<open>
  The bytes a command covers, the value it gives them, and the memory after it. A half word
  at offset 3 of its word is cut at the end of the word.
\<close>

definition covered :: "u64 \<Rightarrow> u64 \<Rightarrow> u64 \<Rightarrow> bool" where
  "covered sz addr a \<longleftrightarrow> a AND NOT 3 = addr AND NOT 3 \<and>
     (if sz = 0 then a = addr
      else if sz = 1 then unat (a AND 3) = unat (addr AND 3) \<or> unat (a AND 3) = unat (addr AND 3) + 1
      else True)"

definition lane_byte :: "u64 \<Rightarrow> u64 \<Rightarrow> u64" where
  "lane_byte wrData a = drop_bit (unat (a AND 3) * 8) wrData AND 255"

lemma byte_enables_bit:
  assumes "k < 4"
  shows "byte_enables sz addr AND push_bit k 1 \<noteq> 0 \<longleftrightarrow>
    (if sz = 0 then k = unat (addr AND 3)
     else if sz = 1 then k = unat (addr AND 3) \<or> k = unat (addr AND 3) + 1
     else True)"
proof -
  have three: "(3 :: u32) = mask 2" and fifteen: "(15 :: u32) = mask 4"
    by (simp_all add: mask_numeral)
  have "byte_enables sz addr AND push_bit k 1 \<noteq> 0 \<longleftrightarrow> bit (byte_enables sz addr) k"
    by (simp add: bit_iff_and_push_bit_not_eq_0)
  also have "\<dots> \<longleftrightarrow> (if sz = 0 then k = unat (addr AND 3)
     else if sz = 1 then k = unat (addr AND 3) \<or> k = unat (addr AND 3) + 1
     else True)"
    unfolding byte_enables_def three fifteen
    using assms lane_of [of addr] by (auto simp: bit_simps)
  finally show ?thesis .
qed

lemma replay_byte_accesses:
  assumes "\<forall>n \<in> set ns. n < 4" "distinct ns"
  shows "memlog.replay mem (map (byte_access t True addr wrData) ns) a =
    (if a AND NOT 3 = addr AND NOT 3 \<and> unat (a AND 3) \<in> set ns then Some (lane_byte wrData a) else mem a)"
  using assms
proof (induction ns arbitrary: mem)
  case (Cons n ns)
  then have "n < 4"
    by simp
  from lane_eq [OF this, of addr a] Cons show ?case
    by (auto simp: byte_access_def lane_byte_def)
qed simp

lemma same_address: "a = addr \<longleftrightarrow> a AND NOT 3 = addr AND NOT (3 :: u64) \<and> unat (a AND 3) = unat (addr AND 3)"
proof
  assume same: "a AND NOT 3 = addr AND NOT 3 \<and> unat (a AND 3) = unat (addr AND 3)"
  have "x = (x AND NOT 3) OR (x AND 3)" for x :: u64
    by (rule bit_word_eqI) (auto simp: bit_simps)
  then show "a = addr"
    using same by (metis word_unat_eq_iff)
qed blast

lemma replay_write:
  "memlog.replay mem (write_accesses t True sz addr wrData) a =
     (if covered sz addr a then Some (lane_byte wrData a) else mem a)"
proof -
  let ?ns = "filter (\<lambda>n. byte_enables sz addr AND push_bit n 1 \<noteq> 0) [0..<4]"
  have "unat (a AND 3) \<in> set ?ns \<longleftrightarrow> byte_enables sz addr AND push_bit (unat (a AND 3)) 1 \<noteq> 0"
    using lane_of [of a] by simp
  moreover have "a = addr \<longleftrightarrow> a AND NOT 3 = addr AND NOT 3 \<and> unat (a AND 3) = unat (addr AND 3)"
    by (rule same_address)
  ultimately show ?thesis
    using replay_byte_accesses [of ?ns mem t addr wrData a] byte_enables_bit [OF lane_of, of sz addr a]
    by (auto simp: write_accesses_def covered_def simp del: push_bit_of_1)
qed

section \<open>The trace as samples of the bus\<close>

definition MemTrace_new ::
  "byte list option option \<Rightarrow> u32 \<Rightarrow> MemTrace \<Rightarrow> fstHier list \<Rightarrow> fst_scope \<Rightarrow> fst_mask \<Rightarrow> change list \<Rightarrow>
     FstSignal \<Rightarrow> FstSignal \<Rightarrow> FstSignal \<Rightarrow> FstSignal \<Rightarrow> FstSignal \<Rightarrow> FstSignal \<Rightarrow> FstSignal \<Rightarrow> FstSignal \<Rightarrow> FstSignal \<Rightarrow>
     cxx_error + (MemTrace \<times> fst_scope)" where
  "MemTrace_new initFile startAddr uninit hier xc fm changes clkSig cmdValid cmdReady cmdAddr cmdSize cmdWr cmdWrData rspValid rspData =
     MemTrace_init initFile hier xc fm changes
       (uninit\<lparr>memInitStartAddr := startAddr, mem_clk := clkSig, memCmdValid := cmdValid,
          memCmdReady := cmdReady, memCmdAddr := cmdAddr, memCmdSize := cmdSize, memCmdWr := cmdWr,
          memCmdWrData := cmdWrData, memRspValid := rspValid, memRspData := rspData, memTrace := [], memInitContents := []\<rparr>)"

definition mem_samples :: "handle list \<Rightarrow> u64 \<Rightarrow> env \<Rightarrow> MemAccess list" where
  "mem_samples hs time env =
     (if env (hs ! 0) \<noteq> 0 \<and> env (hs ! 1) \<noteq> 0 \<and> env (hs ! 4) \<noteq> 0
      then write_accesses time True (env (hs ! 3)) (env (hs ! 2)) (env (hs ! 5)) else [])"

definition mem_rel :: "handle \<Rightarrow> handle list \<Rightarrow> MemTrace \<Rightarrow> env \<Rightarrow> bool" where
  "mem_rel hc hs s env \<longleftrightarrow> length hs = 8 \<and> distinct (hc # hs) \<and> handle (mem_clk s) = hc \<and>
     map handle (tl (mem_signals s)) = hs \<and>
     curMemCmdValid s = (env (hs ! 0) \<noteq> 0) \<and> curMemCmdReady s = (env (hs ! 1) \<noteq> 0) \<and> curMemCmdAddr s = env (hs ! 2) \<and>
     curMemCmdSize s = env (hs ! 3) \<and> curMemCmdWr s = (env (hs ! 4) \<noteq> 0) \<and> curMemCmdWrData s = env (hs ! 5)"

lemma mem_rel_step:
  assumes "\<not> has_unknown v" "value_int v = Inr n" "mem_rel hc hs s env"
  shows "\<exists>s'. processSignalChanged t sig v s = Inr s' \<and> mem_rel hc hs s' (env(handle sig := n)) \<and>
    memTrace s' = memTrace s @ (if handle sig = hc \<and> n = 0 then mem_samples hs t env else [])"
proof -
  have hs: "hs = map handle (tl (mem_signals s))" and hc: "handle (mem_clk s) = hc"
    and d: "distinct (hc # map handle (tl (mem_signals s)))" and len: "length hs = 8"
    using assms(3) by (auto simp: mem_rel_def)
  note neqs = d [simplified mem_signals_def, simplified]
  note step_defs = processSignalChanged_def mem_rel_def mem_signals_def
  consider i where "i < 8" "handle sig = hs ! i" | "handle sig = hc" | "handle sig \<notin> set (hc # hs)"
    using len by (metis in_set_conv_nth set_ConsD)
  then show ?thesis
  proof cases
    case 1
    then have "i = 0 \<or> i = 1 \<or> i = 2 \<or> i = 3 \<or> i = 4 \<or> i = 5 \<or> i = 6 \<or> i = 7"
      by linarith
    with 1 assms hc neqs show ?thesis
      unfolding hs by - (elim disjE conjE; simp add: step_defs)
  next
    case 2
    with assms hc neqs show ?thesis
      unfolding hs by - (elim conjE; simp add: step_defs mem_samples_def)
  next
    case 3
    then have "handle sig \<noteq> hc" "list_all (\<lambda>h. handle sig \<noteq> h \<and> h \<noteq> handle sig) hs"
      by (auto simp: list_all_iff)
    with assms hc neqs show ?thesis
      unfolding hs by - (simp only: step_defs list.sel list.map list.pred_inject; elim conjE; simp)
  qed
qed

interpretation mem: sampler processSignalChanged memTrace "mem_rel hc hs" hc "mem_samples hs" for hc hs
proof unfold_locales
  show "has_unknown v \<Longrightarrow> processSignalChanged t sig v s = Inr s" for v t sig s
    by (simp add: processSignalChanged_def)
  show "\<not> has_unknown v \<Longrightarrow> value_int v = Inl e \<Longrightarrow> processSignalChanged t sig v s = Inl e" for v t sig s e
    by (simp add: processSignalChanged_def)
qed (rule mem_rel_step)

definition bus_writes :: "handle list \<Rightarrow> u64 \<Rightarrow> env \<Rightarrow> (u64 \<times> u64 \<times> u64 \<times> u64) list" where
  "bus_writes hs time env =
     (if env (hs ! 0) \<noteq> 0 \<and> env (hs ! 1) \<noteq> 0 \<and> env (hs ! 4) \<noteq> 0
      then [(time, env (hs ! 3), env (hs ! 2), env (hs ! 5))] else [])"

lemma sample_concat:
  assumes "\<And>t env. out' t env = concat (map f (out t env))"
  shows "sample clk out' env es = concat (map f (sample clk out env es))"
proof (induction es arbitrary: env)
  case (Cons e es)
  obtain t sig v where "e = (t, sig, v)"
    by (metis prod_cases3)
  then show ?case
    using Cons.IH by (cases "handle sig = clk") (simp_all add: assms del: fun_upd_apply split: sum.split)
qed simp

lemma MemTrace_new_cases:
  assumes "MemTrace_new initFile startAddr uninit hier xc fm changes g0 g1 g2 g3 g4 g5 g6 g7 g8 = Inr (s, xc')"
    and "assignHandles hier xc [g0, g1, g2, g3, g4, g5, g6, g7, g8] = Inr (Some True, sigs, xc1)"
    and "length sigs = 9"
  obtains s0 where "getValueChanges fm changes sigs processSignalChanged s0 = Inr s"
    "mem_signals s0 = sigs" "memTrace s0 = []"
    "\<not> curMemCmdValid s0" "\<not> curMemCmdReady s0" "curMemCmdAddr s0 = 0" "curMemCmdSize s0 = 0" "\<not> curMemCmdWr s0"
    "curMemCmdWrData s0 = 0" "xc' = xc1"
    "memInitStartAddr s0 = startAddr"
    "memInitContents s0 = (case initFile of Some (Some bytes) \<Rightarrow> bytes | _ \<Rightarrow> [])"
proof -
  have sigs: "[sigs ! 0, sigs ! 1, sigs ! 2, sigs ! 3, sigs ! 4, sigs ! 5, sigs ! 6, sigs ! 7, sigs ! 8] = sigs"
    by (rule nth_equalityI) (auto simp: assms(3) less_Suc_eq nth_Cons' numeral_nat)
  define bytes where "bytes = (case initFile of Some (Some bytes) \<Rightarrow> bytes | _ \<Rightarrow> [])"
  define s0 where "s0 = uninit\<lparr>memInitStartAddr := startAddr, memTrace := [], memInitContents := bytes,
    mem_clk := sigs ! 0, memCmdValid := sigs ! 1, memCmdReady := sigs ! 2, memCmdAddr := sigs ! 3,
    memCmdSize := sigs ! 4, memCmdWr := sigs ! 5, memCmdWrData := sigs ! 6,
    memRspValid := sigs ! 7, memRspData := sigs ! 8,
    curMemCmdValid := False, curMemCmdReady := False, curMemCmdAddr := 0, curMemCmdSize := 0,
    curMemCmdWr := False, curMemCmdWrData := 0, curMemRspValid := False, curMemRspData := 0\<rparr>"
  have "getValueChanges fm changes sigs processSignalChanged s0 = Inr s \<and> xc' = xc1"
  proof (cases initFile)
    case None
    then show ?thesis
      using assms(1,2)
      by (auto simp: MemTrace_new_def MemTrace_init_def MemTrace_load_def mem_signals_def s0_def bytes_def Let_def split: sum.splits)
  next
    case (Some f)
    then show ?thesis
      using assms(1,2)
      by (cases f) (auto simp: MemTrace_new_def MemTrace_init_def MemTrace_load_def mem_signals_def s0_def bytes_def Let_def
          split: sum.splits)
  qed
  then show thesis
    by (intro that [of s0]) (auto simp: s0_def mem_signals_def sigs [simplified] bytes_def)
qed

lemma processSignalChanged_same:
  "processSignalChanged t sig v s = Inr s' \<Longrightarrow>
     mem_signals s' = mem_signals s \<and> memInitStartAddr s' = memInitStartAddr s \<and> memInitContents s' = memInitContents s"
  by (auto simp: processSignalChanged_def mem_signals_def split: if_splits sum.splits)

lemma run_processSignalChanged_same:
  "run_changes processSignalChanged es s = Inr s' \<Longrightarrow>
     mem_signals s' = mem_signals s \<and> memInitStartAddr s' = memInitStartAddr s \<and> memInitContents s' = memInitContents s"
proof (induction es arbitrary: s)
  case (Cons e es)
  obtain t sig v where "e = (t, sig, v)"
    by (metis prod_cases3)
  with Cons.prems obtain s1 where "processSignalChanged t sig v s = Inr s1" "run_changes processSignalChanged es s1 = Inr s'"
    by (auto split: sum.splits)
  then show ?case
    using Cons.IH processSignalChanged_same by metis
qed simp

lemma MemTrace_sampled:
  assumes "MemTrace_new initFile startAddr uninit hier xc fm changes g0 g1 g2 g3 g4 g5 g6 g7 g8 = Inr (s, xc')"
    and "assignHandles hier xc [g0, g1, g2, g3, g4, g5, g6, g7, g8] = Inr (Some True, sigs, xc1)"
    and "length sigs = 9" "mask_wf fm" "list_all (\<lambda>sig. is_handle fm (handle sig)) sigs" "distinct (map handle sigs)"
  shows "memTrace s = concat (map (\<lambda>(t, sz, addr, d). write_accesses t True sz addr d)
      (sample (handle (sigs ! 0)) (bus_writes (map handle (tl sigs))) (\<lambda>_. 0) (selected_changes sigs changes)))"
    (is "_ = concat (map ?f (sample ?hc (bus_writes ?hs) _ ?es))")
    and "memInitStartAddr s = startAddr"
    and "memInitContents s = (case initFile of Some (Some bytes) \<Rightarrow> bytes | _ \<Rightarrow> [])"
proof -
  obtain s0 where s0: "getValueChanges fm changes sigs processSignalChanged s0 = Inr s"
    "mem_signals s0 = sigs" "memTrace s0 = []"
    "\<not> curMemCmdValid s0" "\<not> curMemCmdReady s0" "curMemCmdAddr s0 = 0" "curMemCmdSize s0 = 0" "\<not> curMemCmdWr s0"
    "curMemCmdWrData s0 = 0" "memInitStartAddr s0 = startAddr"
    "memInitContents s0 = (case initFile of Some (Some bytes) \<Rightarrow> bytes | _ \<Rightarrow> [])"
    using MemTrace_new_cases [OF assms(1-3)] by metis
  from s0(1) have run: "run_changes processSignalChanged ?es s0 = Inr s"
    by (simp only: getValueChanges_run [OF assms(4,5)])
  have "mem_clk s0 = sigs ! 0"
    using s0(2) by (auto simp: mem_signals_def)
  moreover have "distinct (?hc # ?hs)"
    using assms(3,6) by (cases sigs) auto
  ultimately have "mem_rel ?hc ?hs s0 (\<lambda>_. 0)"
    using assms(3) s0 by (simp add: mem_rel_def)
  from mem.run_samples [OF this run] have "memTrace s = sample ?hc (mem_samples ?hs) (\<lambda>_. 0) ?es"
    by (simp add: s0(3))
  also have "\<dots> = concat (map ?f (sample ?hc (bus_writes ?hs) (\<lambda>_. 0) ?es))"
    by (rule sample_concat) (simp add: mem_samples_def bus_writes_def)
  finally show "memTrace s = concat (map ?f (sample ?hc (bus_writes ?hs) (\<lambda>_. 0) ?es))" .
  from run_processSignalChanged_same [OF run] s0
  show "memInitStartAddr s = startAddr" "memInitContents s = (case initFile of Some (Some bytes) \<Rightarrow> bytes | _ \<Rightarrow> [])"
    by simp_all
qed

lemma write_accesses_times: "x \<in> set (write_accesses t w sz addr d) \<Longrightarrow> ma_time x = t"
  by (auto simp: write_accesses_def byte_access_def)

lemma takeWhile_accesses:
  "sorted (map fst ws) \<Longrightarrow>
     takeWhile (\<lambda>m. ma_time m \<le> t) (concat (map (\<lambda>(t, sz, addr, d). write_accesses t True sz addr d) ws)) =
     concat (map (\<lambda>(t, sz, addr, d). write_accesses t True sz addr d) (filter (\<lambda>w. fst w \<le> t) ws))"
proof (induction ws)
  case (Cons w ws)
  obtain t' sz addr d where w: "w = (t', sz, addr, d)"
    by (metis prod_cases4)
  let ?ms = "write_accesses t' True sz addr d"
  show ?case
  proof (cases "t' \<le> t")
    case True
    then have "\<forall>x \<in> set ?ms. ma_time x \<le> t"
      using write_accesses_times by metis
    then show ?thesis
      using Cons True by (simp add: w)
  next
    case False
    have "\<forall>w' \<in> set (w # ws). \<not> fst w' \<le> t"
      using Cons.prems False by (fastforce simp: w)
    then have "filter (\<lambda>w. fst w \<le> t) (w # ws) = []"
      and "\<forall>x \<in> set (concat (map (\<lambda>(t, sz, addr, d). write_accesses t True sz addr d) (w # ws))). \<not> ma_time x \<le> t"
      by (fastforce simp: filter_empty_conv dest: write_accesses_times)+
    then show ?thesis
      by (metis (no_types, lifting) concat.simps(1) list.simps(8) takeWhile_eq_Nil_iff hd_in_set)
  qed
qed simp

lemma replay_accesses:
  "memlog.replay mem (concat (map (\<lambda>(t, sz, addr, d). write_accesses t True sz addr d) (filter (\<lambda>w. fst w \<le> t) ws))) a =
     (case find (\<lambda>(t', sz, addr, d). t' \<le> t \<and> covered sz addr a) (rev ws) of
        Some (t', sz, addr, d) \<Rightarrow> Some (lane_byte d a) | None \<Rightarrow> mem a)"
proof (induction ws rule: rev_induct)
  case (snoc w ws)
  obtain t' sz addr d where "w = (t', sz, addr, d)"
    by (metis prod_cases4)
  then show ?case
    using snoc by (simp add: memlog.replay_append replay_write)
qed simp

text \<open>
  A control signal of the bus whose handle the callback has compared before it comes to the
  signal: the ready and the write flag keep their values, and the clock edge is never seen.
\<close>

definition shadowed :: "MemTrace \<Rightarrow> bool" where
  "shadowed s \<longleftrightarrow>
     handle (memCmdReady s) = handle (memCmdValid s) \<and> \<not> curMemCmdReady s \<or>
     handle (memCmdWr s) \<in> handle ` {memCmdValid s, memCmdReady s, memCmdAddr s, memCmdSize s} \<and> \<not> curMemCmdWr s \<or>
     handle (mem_clk s) \<in> handle ` set (tl (mem_signals s))"

text \<open>What a callback needs to see to change the trace or one of the flags.\<close>

lemma trace_grows:
  "processSignalChanged t sig v s = Inr s1 \<Longrightarrow> memTrace s1 \<noteq> memTrace s \<Longrightarrow>
     handle sig = handle (mem_clk s) \<and> handle sig \<notin> handle ` set (tl (mem_signals s)) \<and> curMemCmdReady s \<and> curMemCmdWr s"
  by (auto simp: processSignalChanged_def mem_signals_def split: if_splits sum.splits)

lemma ready_changes:
  "processSignalChanged t sig v s = Inr s1 \<Longrightarrow> curMemCmdReady s1 \<noteq> curMemCmdReady s \<Longrightarrow>
     handle sig = handle (memCmdReady s) \<and> handle sig \<noteq> handle (memCmdValid s)"
  by (auto simp: processSignalChanged_def split: if_splits sum.splits)

lemma write_changes:
  "processSignalChanged t sig v s = Inr s1 \<Longrightarrow> curMemCmdWr s1 \<noteq> curMemCmdWr s \<Longrightarrow>
     handle sig = handle (memCmdWr s) \<and> handle sig \<notin> handle ` {memCmdValid s, memCmdReady s, memCmdAddr s, memCmdSize s}"
  by (auto simp: processSignalChanged_def split: if_splits sum.splits)

lemma shadowed_step:
  assumes "processSignalChanged t sig v s = Inr s1" "shadowed s" "memTrace s = []"
  shows "shadowed s1 \<and> memTrace s1 = []"
proof
  have "mem_signals s1 = mem_signals s"
    using processSignalChanged_same [OF assms(1)] by simp
  then have "mem_clk s1 = mem_clk s" "memCmdValid s1 = memCmdValid s" "memCmdReady s1 = memCmdReady s"
    "memCmdAddr s1 = memCmdAddr s" "memCmdSize s1 = memCmdSize s" "memCmdWr s1 = memCmdWr s"
    "mem_signals s1 = mem_signals s"
    by (simp_all add: mem_signals_def)
  then show "shadowed s1"
    using assms(2) ready_changes [OF assms(1)] write_changes [OF assms(1)] unfolding shadowed_def by metis
  show "memTrace s1 = []"
    using assms(2,3) trace_grows [OF assms(1)] unfolding shadowed_def by metis
qed

lemma shadowed_loses:
  "run_changes processSignalChanged es s = Inr s' \<Longrightarrow> shadowed s \<Longrightarrow> memTrace s = [] \<Longrightarrow> memTrace s' = []"
proof (induction es arbitrary: s)
  case (Cons e es)
  obtain t sig v where e: "e = (t, sig, v)"
    by (metis prod_cases3)
  with Cons.prems obtain s1 where s1: "processSignalChanged t sig v s = Inr s1" "run_changes processSignalChanged es s1 = Inr s'"
    by (auto split: sum.splits)
  then show ?case
    using Cons.IH [OF s1(2)] shadowed_step [OF s1(1) Cons.prems(2,3)] by blast
qed simp

section \<open>Properties\<close>

text \<open>The contents of memory before any write: the image of the configuration, signed bytes widened.\<close>

definition initial_memory :: "u32 \<Rightarrow> byte list \<Rightarrow> u64 \<Rightarrow> u64 option" where
  "initial_memory startAddr bytes a =
     (if ucast startAddr \<le> a \<and> a < ucast startAddr + word_of_nat (length bytes)
      then Some (scast (bytes ! unat (a - ucast startAddr))) else None)"

lemma MemTrace_getValue_scan:
  "MemTrace_getValue s t a =
     (case memlog.replay (initial_memory (memInitStartAddr s) (memInitContents s))
             (takeWhile (\<lambda>m. ma_time m \<le> t) (memTrace s)) a of
        None \<Rightarrow> (False, 0) | Some v \<Rightarrow> (True, ucast v))"
  by (subst memlog.replay_eq)
    (auto simp: MemTrace_getValue_def memlog.scan_replay_prefix memlog.as_result_def initial_memory_def Let_def split: option.splits)

text \<open>
  The memory query against a memory. For a trace in the order of time \<open>getValue\<close> returns
  what a memory that starts with the contents of the image file holds at the address after
  all the byte writes with a time up to the given one; the address is reported as unknown
  exactly when the image does not cover it and no such write touched it.
\<close>
theorem MemTrace_getValue_replay:
  assumes "sorted (map ma_time (memTrace s))"
  shows "MemTrace_getValue s t a =
    (case foldl (\<lambda>mem m. if ma_wr m then mem(ma_addr m \<mapsto> ma_value m) else mem)
            (initial_memory (memInitStartAddr s) (memInitContents s)) (filter (\<lambda>m. ma_time m \<le> t) (memTrace s)) a of
       None \<Rightarrow> (False, 0) | Some v \<Rightarrow> (True, ucast v))"
  unfolding MemTrace_getValue_scan memlog.takeWhile_sorted [OF assms] memlog.replay_def ..

text \<open>
  The effect of a falling clock edge on memory. With a command valid and ready, the
  query afterwards sees the bytes of the write data in every byte the command covers (one
  byte, two bytes, or the whole word, by its size; a half word at offset 3 loses its second
  byte) and the earlier contents everywhere else; a read, or an edge without a command,
  changes nothing.
\<close>
theorem processSignalChanged_edge:
  assumes "handle sig = handle (mem_clk s)" "handle (mem_clk s) \<notin> handle ` set (tl (mem_signals s))"
    and "\<not> has_unknown v" "value_int v = Inr 0"
    and "list_all (\<lambda>m. ma_time m \<le> t) (memTrace s)"
  shows "\<exists>s'. processSignalChanged t sig v s = Inr s' \<and> list_all (\<lambda>m. ma_time m \<le> t) (memTrace s') \<and>
    MemTrace_getValue s' t a =
      (if curMemCmdValid s \<and> curMemCmdReady s \<and> curMemCmdWr s \<and> covered (curMemCmdSize s) (curMemCmdAddr s) a
       then (True, ucast (lane_byte (curMemCmdWrData s) a))
       else MemTrace_getValue s t a)"
proof -
  define fire where "fire \<longleftrightarrow> curMemCmdValid s \<and> curMemCmdReady s \<and> curMemCmdWr s"
  define new where "new = (if fire then write_accesses t True (curMemCmdSize s) (curMemCmdAddr s) (curMemCmdWrData s) else [])"
  have step: "processSignalChanged t sig v s = Inr (s\<lparr>memTrace := memTrace s @ new\<rparr>)"
    using assms(1-4) by (simp add: processSignalChanged_def mem_signals_def new_def fire_def)
  have times: "list_all (\<lambda>m. ma_time m \<le> t) (memTrace s @ new)"
    using assms(5) by (auto simp: new_def write_accesses_def byte_access_def list_all_iff)
  then have keep: "takeWhile (\<lambda>m. ma_time m \<le> t) (memTrace s @ new) = memTrace s @ new"
    "takeWhile (\<lambda>m. ma_time m \<le> t) (memTrace s) = memTrace s"
    by (auto simp: takeWhile_eq_all_conv list_all_iff)
  have "MemTrace_getValue (s\<lparr>memTrace := memTrace s @ new\<rparr>) t a =
      (if fire \<and> covered (curMemCmdSize s) (curMemCmdAddr s) a
       then (True, ucast (lane_byte (curMemCmdWrData s) a)) else MemTrace_getValue s t a)"
    unfolding MemTrace_getValue_scan by (simp add: keep memlog.replay_append) (simp add: new_def replay_write)
  then show ?thesis
    using step times by (simp add: fire_def)
qed

text \<open>
  C14: the memory contents of a waveform. When construction succeeds with different handles of
  the file and the changes come in the order of time, the byte at an address at a time is the
  one of the last bus write up to that time that covers the address (valid, ready and write
  all set at a falling clock edge), the byte of the image file when there is none, and unknown
  when the image does not cover the address either.
\<close>
theorem MemTrace_value_at:
  assumes "MemTrace_new initFile startAddr uninit hier xc fm changes g0 g1 g2 g3 g4 g5 g6 g7 g8 = Inr (s, xc')"
    and "assignHandles hier xc [g0, g1, g2, g3, g4, g5, g6, g7, g8] = Inr (Some True, sigs, xc1)"
    and "length sigs = 9" "mask_wf fm" "list_all (\<lambda>sig. is_handle fm (handle sig)) sigs" "distinct (map handle sigs)"
    and "sorted (map fst changes)"
  shows "MemTrace_getValue s t a =
    (case find (\<lambda>(t', sz, addr, d). t' \<le> t \<and> covered sz addr a)
       (rev (sample (handle (sigs ! 0)) (bus_writes (map handle (tl sigs))) (\<lambda>_. 0) (selected_changes sigs changes))) of
       Some (t', sz, addr, d) \<Rightarrow> (True, ucast (lane_byte d a))
     | None \<Rightarrow> (case initial_memory startAddr (case initFile of Some (Some bytes) \<Rightarrow> bytes | _ \<Rightarrow> []) a of
                  None \<Rightarrow> (False, 0) | Some v \<Rightarrow> (True, ucast v)))"
proof -
  define ws where "ws = sample (handle (sigs ! 0)) (bus_writes (map handle (tl sigs))) (\<lambda>_. 0) (selected_changes sigs changes)"
  define accs where "accs = (\<lambda>(t, sz, addr, d). write_accesses t True sz addr d)"
  define mem0 where "mem0 = initial_memory startAddr (case initFile of Some (Some bytes) \<Rightarrow> bytes | _ \<Rightarrow> [])"
  note tr = MemTrace_sampled [OF assms(1-6), folded ws_def accs_def]
  have "sorted (map fst ws)"
    unfolding ws_def by (rule sample_sorted [of _ fst]) (auto simp: bus_writes_def selected_changes_sorted assms(7) split: if_splits)
  then have "takeWhile (\<lambda>m. ma_time m \<le> t) (concat (map accs ws)) = concat (map accs (filter (\<lambda>w. fst w \<le> t) ws))"
    by (rule takeWhile_accesses [folded accs_def])
  moreover have "memlog.replay mem0 (concat (map accs (filter (\<lambda>w. fst w \<le> t) ws))) a =
      (case find (\<lambda>(t', sz, addr, d). t' \<le> t \<and> covered sz addr a) (rev ws) of
         Some (t', sz, addr, d) \<Rightarrow> Some (lane_byte d a) | None \<Rightarrow> mem0 a)"
    by (rule replay_accesses [folded accs_def])
  ultimately show ?thesis
    unfolding MemTrace_getValue_scan tr mem0_def [symmetric] ws_def [symmetric]
    by (simp split: option.splits)
qed

text \<open>
  C30: a control signal of the bus that shares its handle of the waveform file with a signal the
  callback compares before it loses every write. The signals are numbered as in the
  configuration (0 clock, 1 valid, 2 ready, 3 address, 4 size, 5 write, 6 data, 7 and 8 the response);
  the callback compares 1 to 8 and then the clock. When the ready or the write signal has the
  handle of one numbered below it (a bus that is always ready, say, whose ready net is the same
  as its valid net), or the clock that of any other, the memory trace of every waveform is empty.
\<close>
theorem MemTrace_alias_loses_writes:
  assumes "MemTrace_new initFile startAddr uninit hier xc fm changes g0 g1 g2 g3 g4 g5 g6 g7 g8 = Inr (s, xc')"
    and "assignHandles hier xc [g0, g1, g2, g3, g4, g5, g6, g7, g8] = Inr (Some True, sigs, xc1)"
    and "length sigs = 9" "mask_wf fm" "list_all (\<lambda>sig. is_handle fm (handle sig)) sigs"
    and "j = 2 \<and> i = 1 \<or> j = 5 \<and> 1 \<le> i \<and> i < 5 \<or> j = 0 \<and> 1 \<le> i \<and> i < 9"
    and "handle (sigs ! i) = handle (sigs ! j)"
  shows "memTrace s = []"
proof -
  obtain s0 where s0: "getValueChanges fm changes sigs processSignalChanged s0 = Inr s"
    "mem_signals s0 = sigs" "memTrace s0 = []" "\<not> curMemCmdReady s0" "\<not> curMemCmdWr s0"
    using MemTrace_new_cases [OF assms(1-3)] by metis
  from s0(1) have run: "run_changes processSignalChanged (selected_changes sigs changes) s0 = Inr s"
    by (simp only: getValueChanges_run [OF assms(4,5)])
  have at: "sigs ! 0 = mem_clk s0" "sigs ! 1 = memCmdValid s0" "sigs ! 2 = memCmdReady s0" "sigs ! 3 = memCmdAddr s0"
    "sigs ! 4 = memCmdSize s0" "sigs ! 5 = memCmdWr s0"
    by (simp_all add: s0(2) [symmetric] mem_signals_def)
  have "sigs ! i \<in> set (tl (mem_signals s0))" if "1 \<le> i" "i < 9"
    using that nth_mem [of "i - 1" "tl sigs"] assms(3) by (simp add: s0(2) nth_tl)
  moreover have "i = 1 \<or> i = 2 \<or> i = 3 \<or> i = 4" if "1 \<le> i" "i < 5"
    using that by auto
  ultimately have "j = 2 \<and> handle (memCmdReady s0) = handle (memCmdValid s0) \<or>
      j = 5 \<and> handle (memCmdWr s0) \<in> handle ` {memCmdValid s0, memCmdReady s0, memCmdAddr s0, memCmdSize s0} \<or>
      j = 0 \<and> handle (mem_clk s0) \<in> handle ` set (tl (mem_signals s0))"
    using assms(6,7) at by (elim disjE conjE) (force simp: image_iff)+
  then have "shadowed s0"
    using s0(4,5) unfolding shadowed_def by blast
  then show ?thesis
    by (rule shadowed_loses [OF run _ s0(3)])
qed

section \<open>Witnesses\<close>

text \<open>
  A waveform with one half word write of \<open>0xBEEF\<close> to \<open>0x102\<close> at time 10 over an image of four
  bytes at \<open>0x100\<close>, and the same bus with one handle for valid and ready.
\<close>

definition mem_names :: "string list" where
  "mem_names = [''c'', ''v'', ''r'', ''a'', ''s'', ''w'', ''d'', ''V'', ''D'']"

definition example_mem_hier :: "handle \<Rightarrow> fstHier list" where
  "example_mem_hier ready =
     [HT_SCOPE ''TOP'', HT_VAR ''c'' 1, HT_VAR ''v'' 2, HT_VAR ''r'' ready, HT_VAR ''a'' 4, HT_VAR ''s'' 5,
      HT_VAR ''w'' 6, HT_VAR ''d'' 7, HT_VAR ''V'' 8, HT_VAR ''D'' 9, HT_VAR ''o'' 10, HT_UPSCOPE]"

definition example_mem_changes :: "change list" where
  "example_mem_changes =
     [(5, 2, ''1''), (5, 3, ''1''), (5, 4, ''100000010''), (5, 5, ''01''), (5, 6, ''1''), (5, 7, ''10111110111011110000000000000000''),
      (10, 1, ''0''), (15, 2, ''0''), (20, 1, ''0'')]"

definition example_mem :: MemTrace where
  "example_mem =
     \<lparr>memInitStartAddr = 0x100, memInitContents = [0x11, 0x22, 0x33, 0x44],
      mem_clk = FstSignal_of_path 1 [], memCmdValid = FstSignal_of_path 2 [], memCmdReady = FstSignal_of_path 3 [],
      memCmdAddr = FstSignal_of_path 4 [], memCmdSize = FstSignal_of_path 5 [], memCmdWr = FstSignal_of_path 6 [],
      memCmdWrData = FstSignal_of_path 7 [], memRspValid = FstSignal_of_path 8 [], memRspData = FstSignal_of_path 9 [],
      curMemCmdValid = True, curMemCmdReady = True, curMemCmdAddr = 0x102, curMemCmdSize = 1, curMemCmdWr = True,
      curMemCmdWrData = 0xBEEF0000, curMemRspValid = False, curMemRspData = 0,
      memTrace = [\<lparr>ma_time = 5, ma_wr = True, ma_addr = 0x103, ma_value = 7\<rparr>]\<rparr>"

definition example_mem_sigs :: "handle \<Rightarrow> FstSignal list" where
  "example_mem_sigs ready = map2 (\<lambda>n h. (example_signal n)\<lparr>hasHandle := True, handle := h\<rparr>) mem_names [1, 2, ready, 4, 5, 6, 7, 8, 9]"

definition example_mem_new :: "handle \<Rightarrow> cxx_error + (MemTrace \<times> fst_scope)" where
  "example_mem_new ready = MemTrace_new (Some (Some [0x11, 0x22, 0x33, 0x44])) 0x100 example_mem (example_mem_hier ready)
     fst_scope_init (fst_mask_init 10) example_mem_changes (example_signal ''c'') (example_signal ''v'')
     (example_signal ''r'') (example_signal ''a'') (example_signal ''s'') (example_signal ''w'') (example_signal ''d'')
     (example_signal ''V'') (example_signal ''D'')"

lemma example_mem_assign2:
  "assignHandles (example_mem_hier 2) fst_scope_init
     [example_signal ''c'', example_signal ''v'', example_signal ''r'', example_signal ''a'', example_signal ''s'',
      example_signal ''w'', example_signal ''d'', example_signal ''V'', example_signal ''D''] =
     Inr (Some True, example_mem_sigs 2, \<lparr>curr_flat_hier_nam = Some [], curr_hier = []\<rparr>)"
  by code_simp

lemma example_mem_assign3:
  "assignHandles (example_mem_hier 3) fst_scope_init
     [example_signal ''c'', example_signal ''v'', example_signal ''r'', example_signal ''a'', example_signal ''s'',
      example_signal ''w'', example_signal ''d'', example_signal ''V'', example_signal ''D''] =
     Inr (Some True, example_mem_sigs 3, \<lparr>curr_flat_hier_nam = Some [], curr_hier = []\<rparr>)"
  by code_simp

lemma example_mem_mask: "mask_wf (fst_mask_init 10)" "ready \<in> {2, 3} \<Longrightarrow> list_all (\<lambda>sig. is_handle (fst_mask_init 10) (handle sig)) (example_mem_sigs ready)"
  by (rule mask_init_wf) (auto simp: example_mem_sigs_def mem_names_def is_handle_def fst_mask_init_def)

lemma processSignalChanged_ends:
  "list_all (\<lambda>(t, sig, v). has_unknown v \<or> (\<exists>n. value_int v = Inr n)) es \<Longrightarrow>
     \<exists>s'. run_changes processSignalChanged es s = Inr s'"
proof (induction es arbitrary: s)
  case (Cons e es)
  obtain t sig v where e: "e = (t, sig, v)"
    by (metis prod_cases3)
  have "\<exists>s1. processSignalChanged t sig v s = Inr s1"
    using Cons.prems by (auto simp: e processSignalChanged_def)
  then show ?case
    using Cons by (auto simp: e)
qed simp

lemma example_mem_ok:
  assumes "ready \<in> {2, 3}"
  shows "\<exists>s. example_mem_new ready = Inr (s, \<lparr>curr_flat_hier_nam = Some [], curr_hier = []\<rparr>)"
proof -
  have numbers: "list_all (\<lambda>(t, sig, v). has_unknown v \<or> (\<exists>n. value_int v = Inr n)) (selected_changes (example_mem_sigs ready) example_mem_changes)"
    using assms by (auto simp: example_mem_sigs_def mem_names_def example_mem_changes_def waveform_eval)
  note ends = processSignalChanged_ends [OF numbers]
  have "\<exists>s. getValueChanges (fst_mask_init 10) example_mem_changes (example_mem_sigs ready) processSignalChanged s0 = Inr s" for s0
    using ends [of s0] by (simp only: getValueChanges_run [OF example_mem_mask(1) example_mem_mask(2) [OF assms]])
  moreover obtain s0 where "example_mem_new ready = (case getValueChanges (fst_mask_init 10) example_mem_changes
      (example_mem_sigs ready) processSignalChanged s0 of Inl e \<Rightarrow> Inl e | Inr s \<Rightarrow> Inr (s, \<lparr>curr_flat_hier_nam = Some [], curr_hier = []\<rparr>))"
    using assms example_mem_assign2 example_mem_assign3
    by (auto simp: example_mem_new_def MemTrace_new_def MemTrace_init_def MemTrace_load_def mem_signals_def Let_def)
  ultimately show ?thesis
    by (metis (no_types, lifting) sum.simps(6))
qed

lemma example_mem_selected:
  "selected_changes (example_mem_sigs 3) example_mem_changes =
     map (\<lambda>(t, h, v). (t, example_mem_sigs 3 ! (unat h - 1), v)) example_mem_changes"
  by (simp add: example_mem_sigs_def mem_names_def example_mem_changes_def)

lemma example_mem_bus:
  "sample 1 (bus_writes [2, 3, 4, 5, 6, 7, 8, 9]) (\<lambda>_. 0) (selected_changes (example_mem_sigs 3) example_mem_changes) =
     [(10, 1, 0x102, 0xBEEF0000)]"
  by (simp add: example_mem_selected)
    (simp add: example_mem_sigs_def mem_names_def example_mem_changes_def bus_writes_def waveform_eval)

lemma example_mem_sorted: "sorted (map fst example_mem_changes)"
  by (simp add: example_mem_changes_def)

theorem MemTrace_getValue_replay_witness:
  "MemTrace_getValue example_mem 4 0x103 = (True, 0x44) \<and> MemTrace_getValue example_mem 6 0x103 = (True, 7) \<and>
   MemTrace_getValue example_mem 6 0x104 = (False, 0)"
  using MemTrace_getValue_replay [of example_mem 4 "0x103"] MemTrace_getValue_replay [of example_mem 6 "0x103"]
    MemTrace_getValue_replay [of example_mem 6 "0x104"]
  by (simp add: example_mem_def initial_memory_def)

theorem processSignalChanged_edge_witness:
  "\<exists>s'. processSignalChanged 10 (FstSignal_of_path 1 []) ''0'' example_mem = Inr s' \<and> MemTrace_getValue s' 10 0x103 = (True, 0xBE) \<and>
     MemTrace_getValue example_mem 10 0x103 = (True, 7)"
proof -
  have "MemTrace_getValue example_mem 10 0x103 = (True, 7)"
    by (simp add: MemTrace_getValue_def example_mem_def)
  moreover have "covered 1 0x102 0x103" "lane_byte 0xBEEF0000 0x103 = 0xBE"
    by (simp_all add: covered_def lane_byte_def drop_bit_eq_div)
  ultimately show ?thesis
    using processSignalChanged_edge [of "FstSignal_of_path 1 []" example_mem "''0''" 10 "0x103"]
    by (auto simp: example_mem_def mem_signals_def FstSignal_of_path_def waveform_eval)
qed

theorem MemTrace_value_at_witness:
  "\<exists>s. example_mem_new 3 = Inr (s, \<lparr>curr_flat_hier_nam = Some [], curr_hier = []\<rparr>) \<and>
     MemTrace_getValue s 10 0x103 = (True, 0xBE) \<and> MemTrace_getValue s 9 0x103 = (True, 0x44)"
proof -
  obtain s where s: "example_mem_new 3 = Inr (s, \<lparr>curr_flat_hier_nam = Some [], curr_hier = []\<rparr>)"
    using example_mem_ok [of 3] by auto
  have sigs: "length (example_mem_sigs 3) = 9" "map handle (example_mem_sigs 3) = [1, 2, 3, 4, 5, 6, 7, 8, 9]"
    "handle (example_mem_sigs 3 ! 0) = 1" "map handle (tl (example_mem_sigs 3)) = [2, 3, 4, 5, 6, 7, 8, 9]"
    by (simp_all add: example_mem_sigs_def mem_names_def)
  have at: "MemTrace_getValue s t 0x103 = (if 10 \<le> t then (True, 0xBE) else (True, 0x44))" for t
    by (subst MemTrace_value_at [OF s [unfolded example_mem_new_def] example_mem_assign3 sigs(1) example_mem_mask(1) example_mem_mask(2)])
      (simp_all add: sigs example_mem_bus example_mem_sorted covered_def lane_byte_def initial_memory_def)
  from s at [of 10] at [of 9] show ?thesis
    by (intro exI [of _ s]) simp
qed

theorem MemTrace_alias_loses_writes_witness:
  "\<exists>s. example_mem_new 2 = Inr (s, \<lparr>curr_flat_hier_nam = Some [], curr_hier = []\<rparr>) \<and> memTrace s = []"
proof -
  obtain s where s: "example_mem_new 2 = Inr (s, \<lparr>curr_flat_hier_nam = Some [], curr_hier = []\<rparr>)"
    using example_mem_ok [of 2] by auto
  have "memTrace s = []"
    by (rule MemTrace_alias_loses_writes [OF s [unfolded example_mem_new_def] example_mem_assign2 _ example_mem_mask(1) example_mem_mask(2), where j = 2 and i = 1])
      (simp_all add: example_mem_sigs_def mem_names_def)
  with s show ?thesis
    by blast
qed

end
