(* ===== verification/Reg_File_Trace.thy ===== *)
theory Reg_File_Trace
  imports Cpu_Trace
begin

text \<open>
  \<open>RegFileTrace\<close> (\<open>src/RegFileTrace.h\<close>, \<open>src/RegFileTrace.cc\<close>): the writes to the CPU's
  register file, and the query for the value of a register at a time.
\<close>

record RegFileAccess =
  ra_time :: u64
  ra_wr :: bool
  ra_addr :: u64
  ra_value :: u64

record RegFileTrace =
  reg_clk :: FstSignal
  regMemWr :: FstSignal
  regMemAddr :: FstSignal
  regMemWrData :: FstSignal
  curMemWr :: bool
  curMemAddr :: u64
  curMemWrData :: u64
  regFileTrace :: "RegFileAccess list"

definition regFileChangedCB :: "u64 \<Rightarrow> FstSignal \<Rightarrow> string \<Rightarrow> RegFileTrace \<Rightarrow> cxx_error + RegFileTrace" where
  "regFileChangedCB time signal val s =
     (if has_unknown val then Inr s
      else case value_int val of
        Inl e \<Rightarrow> Inl e
      | Inr valueInt \<Rightarrow>
          if handle signal = handle (regMemWr s) then Inr (s\<lparr>curMemWr := (valueInt \<noteq> 0)\<rparr>)
          else if handle signal = handle (regMemAddr s) then Inr (s\<lparr>curMemAddr := valueInt\<rparr>)
          else if handle signal = handle (regMemWrData s) then Inr (s\<lparr>curMemWrData := valueInt\<rparr>)
          else if handle signal = handle (reg_clk s) \<and> valueInt = 0 then
            (if curMemWr s
             then Inr (s\<lparr>regFileTrace := regFileTrace s @
                    [\<lparr>ra_time = time, ra_wr = curMemWr s, ra_addr = curMemAddr s, ra_value = curMemWrData s\<rparr>]\<rparr>)
             else Inr s)
          else Inr s)"

definition RegFileTrace_init ::
  "fstHier list \<Rightarrow> fst_scope \<Rightarrow> fst_mask \<Rightarrow> change list \<Rightarrow> RegFileTrace \<Rightarrow> cxx_error + (RegFileTrace \<times> fst_scope)" where
  "RegFileTrace_init hier xc fm changes s =
     (case assignHandles hier xc [reg_clk s, regMemWr s, regMemAddr s, regMemWrData s] of
        Inl e \<Rightarrow> Inl e
      | Inr (allSigsFound, sigs, xc1) \<Rightarrow>
          (case allSigsFound of
             None \<Rightarrow> Inl Uninitialised
           | Some False \<Rightarrow> Inl (ExitProcess (- 1))
           | Some True \<Rightarrow>
               (let s1 = s\<lparr>reg_clk := sigs ! 0, regMemWr := sigs ! 1, regMemAddr := sigs ! 2, regMemWrData := sigs ! 3,
                           curMemWr := False, curMemAddr := 0, curMemWrData := 0\<rparr>
                in case getValueChanges fm changes sigs regFileChangedCB s1 of
                     Inl e \<Rightarrow> Inl e
                   | Inr s2 \<Rightarrow> Inr (s2, xc1))))"

definition RegFileTrace_new ::
  "fstHier list \<Rightarrow> fst_scope \<Rightarrow> fst_mask \<Rightarrow> change list \<Rightarrow> FstSignal \<Rightarrow> FstSignal \<Rightarrow> FstSignal \<Rightarrow> FstSignal \<Rightarrow>
     cxx_error + (RegFileTrace \<times> fst_scope)" where
  "RegFileTrace_new hier xc fm changes clkSig wrSig addrSig dataSig =
     RegFileTrace_init hier xc fm changes
       \<lparr>reg_clk = clkSig, regMemWr = wrSig, regMemAddr = addrSig, regMemWrData = dataSig,
        curMemWr = False, curMemAddr = 0, curMemWrData = 0, regFileTrace = []\<rparr>"

text \<open>
  The loop of \<open>getValue\<close> over the trace carries \<open>valueValid\<close> and \<open>val\<close>; \<open>val\<close> starts
  uninitialised (\<open>junk\<close>). The result is \<open>None\<close> where the C++ function returns \<open>false\<close>
  and leaves \<open>*value\<close> alone.
\<close>

fun reg_scan :: "RegFileAccess list \<Rightarrow> u64 \<Rightarrow> u64 \<Rightarrow> bool \<times> u64 \<Rightarrow> bool \<times> u64" where
  "reg_scan [] time addr r = r"
| "reg_scan (m # ms) time addr r =
     (if ra_time m > time then r
      else reg_scan ms time addr (if ra_wr m \<and> ra_addr m = addr then (True, ra_value m) else r))"

definition RegFileTrace_getValue :: "RegFileTrace \<Rightarrow> u64 \<Rightarrow> u64 \<Rightarrow> u64 \<Rightarrow> u64 option" where
  "RegFileTrace_getValue s junk time addr =
     (let (valueValid, val) = reg_scan (regFileTrace s) time addr (False, junk)
      in if valueValid then Some val else None)"

section \<open>The extracted writes and their query\<close>

definition reg_samples :: "handle \<Rightarrow> handle \<Rightarrow> handle \<Rightarrow> u64 \<Rightarrow> env \<Rightarrow> RegFileAccess list" where
  "reg_samples hw ha hv time env =
     (if env hw \<noteq> 0 then [\<lparr>ra_time = time, ra_wr = True, ra_addr = env ha, ra_value = env hv\<rparr>] else [])"

definition reg_rel :: "handle \<Rightarrow> handle \<Rightarrow> handle \<Rightarrow> handle \<Rightarrow> RegFileTrace \<Rightarrow> env \<Rightarrow> bool" where
  "reg_rel hc hw ha hv s env \<longleftrightarrow> distinct [hc, hw, ha, hv] \<and> handle (reg_clk s) = hc \<and> handle (regMemWr s) = hw \<and>
     handle (regMemAddr s) = ha \<and> handle (regMemWrData s) = hv \<and>
     curMemWr s = (env hw \<noteq> 0) \<and> curMemAddr s = env ha \<and> curMemWrData s = env hv"

interpretation reg: sampler regFileChangedCB regFileTrace "reg_rel hc hw ha hv" hc "reg_samples hw ha hv" for hc hw ha hv
  by unfold_locales
    (auto simp: regFileChangedCB_def reg_rel_def reg_samples_def split: if_splits)

interpretation reglog: access_log ra_time ra_wr ra_addr ra_value reg_scan
  by unfold_locales simp_all

lemma RegFileTrace_new_cases:
  assumes "RegFileTrace_new hier xc fm changes clkSig wSig aSig dSig = Inr (s, xc')"
  obtains sigs s0 where "assignHandles hier xc [clkSig, wSig, aSig, dSig] = Inr (Some True, sigs, xc')"
    "getValueChanges fm changes sigs regFileChangedCB s0 = Inr s"
    "s0 = \<lparr>reg_clk = sigs ! 0, regMemWr = sigs ! 1, regMemAddr = sigs ! 2, regMemWrData = sigs ! 3,
       curMemWr = False, curMemAddr = 0, curMemWrData = 0, regFileTrace = []\<rparr>"
  using assms
  by (auto simp: RegFileTrace_new_def RegFileTrace_init_def Let_def split: sum.splits prod.splits option.splits bool.splits)

lemma RegFileTrace_sampled:
  assumes "RegFileTrace_new hier xc fm changes clkSig wSig aSig dSig = Inr (s, xc')"
    and "assignHandles hier xc [clkSig, wSig, aSig, dSig] = Inr (Some True, [c, w, a, d], xc')"
    and "mask_wf fm" "list_all (\<lambda>sig. is_handle fm (handle sig)) [c, w, a, d]"
    and "distinct [handle c, handle w, handle a, handle d]"
  shows "regFileTrace s =
    sample (handle c) (reg_samples (handle w) (handle a) (handle d)) (\<lambda>_. 0) (selected_changes [c, w, a, d] changes)"
proof -
  define s0 where "s0 = \<lparr>reg_clk = c, regMemWr = w, regMemAddr = a, regMemWrData = d,
    curMemWr = False, curMemAddr = 0, curMemWrData = 0, regFileTrace = []\<rparr>"
  have "getValueChanges fm changes [c, w, a, d] regFileChangedCB s0 = Inr s"
    using assms(1) by (rule RegFileTrace_new_cases) (use assms(2) in \<open>auto simp: s0_def\<close>)
  then have run: "run_changes regFileChangedCB (selected_changes [c, w, a, d] changes) s0 = Inr s"
    by (simp only: getValueChanges_run [OF assms(3,4)])
  have "reg_rel (handle c) (handle w) (handle a) (handle d) s0 (\<lambda>_. 0)"
    using assms(5) by (simp add: reg_rel_def s0_def)
  from reg.run_samples [OF this run] show ?thesis
    by (simp add: s0_def)
qed

lemma getValue_replay:
  "sorted (map ra_time (regFileTrace s)) \<Longrightarrow>
     RegFileTrace_getValue s junk t a = reglog.replay Map.empty (filter (\<lambda>m. ra_time m \<le> t) (regFileTrace s)) a"
  by (simp add: RegFileTrace_getValue_def reglog.scan_replay reglog.as_result_def split: option.splits)

text \<open>
  The register query against a register file. For a trace in the order of time,
  \<open>getValue\<close> returns what a register file holds in the register after all writes with a
  time up to the given one, and nothing exactly when there was no such write.
\<close>
theorem RegFileTrace_getValue_replay:
  assumes "sorted (map ra_time (regFileTrace s))"
  shows "RegFileTrace_getValue s junk t a =
    foldl (\<lambda>regs m. if ra_wr m then regs(ra_addr m \<mapsto> ra_value m) else regs) Map.empty
      (filter (\<lambda>m. ra_time m \<le> t) (regFileTrace s)) a"
  using getValue_replay [OF assms] by (simp add: reglog.replay_def)

definition example_regs :: RegFileTrace where
  "example_regs = \<lparr>reg_clk = FstSignal_of_path 1 [], regMemWr = FstSignal_of_path 2 [],
     regMemAddr = FstSignal_of_path 3 [], regMemWrData = FstSignal_of_path 4 [],
     curMemWr = False, curMemAddr = 0, curMemWrData = 0,
     regFileTrace = [\<lparr>ra_time = 10, ra_wr = True, ra_addr = 2, ra_value = 7\<rparr>,
       \<lparr>ra_time = 20, ra_wr = True, ra_addr = 3, ra_value = 8\<rparr>, \<lparr>ra_time = 30, ra_wr = True, ra_addr = 2, ra_value = 9\<rparr>]\<rparr>"

theorem RegFileTrace_getValue_replay_witness:
  "RegFileTrace_getValue example_regs 0 25 2 = Some 7 \<and> RegFileTrace_getValue example_regs 0 5 2 = None"
  using RegFileTrace_getValue_replay [of example_regs 0 25 2] RegFileTrace_getValue_replay [of example_regs 0 5 2]
  by (simp add: example_regs_def)

text \<open>
  C15: the register trace of a waveform. When construction succeeds with different handles of
  the file and the changes come in the order of time, then the value of a register at a
  time is the data value of the last falling clock edge up to that time at which the
  write signal was set and the address signal named the register.
\<close>
theorem RegFileTrace_value_at:
  assumes "RegFileTrace_new hier xc fm changes clkSig wSig aSig dSig = Inr (s, xc')"
    and "assignHandles hier xc [clkSig, wSig, aSig, dSig] = Inr (Some True, [c, w, a, d], xc')"
    and "mask_wf fm" "list_all (\<lambda>sig. is_handle fm (handle sig)) [c, w, a, d]"
    and "distinct [handle c, handle w, handle a, handle d]" and "sorted (map fst changes)"
  shows "RegFileTrace_getValue s junk t r =
    map_option ra_value (find (\<lambda>m. ra_time m \<le> t \<and> ra_addr m = r)
      (rev (sample (handle c) (reg_samples (handle w) (handle a) (handle d)) (\<lambda>_. 0) (selected_changes [c, w, a, d] changes))))"
proof -
  let ?out = "reg_samples (handle w) (handle a) (handle d)"
  have out: "ra_time x = t'" "ra_wr x" if "x \<in> set (?out t' env)" for x t' env
    using that by (auto simp: reg_samples_def split: if_splits)
  note tr = RegFileTrace_sampled [OF assms(1-5)]
  have sorted: "sorted (map ra_time (regFileTrace s))"
    unfolding tr by (rule sample_sorted [of ?out ra_time, OF out(1)]) (use selected_changes_sorted [OF assms(6)] in auto)
  have wr: "list_all ra_wr (regFileTrace s)"
    unfolding tr by (rule sample_all) (rule out(2))
  have "reglog.replay Map.empty (filter (\<lambda>m. ra_time m \<le> t) ms) r =
      map_option ra_value (find (\<lambda>m. ra_time m \<le> t \<and> ra_addr m = r) (rev ms))" if "list_all ra_wr ms" for ms
    using that by (induction ms rule: rev_induct) (auto simp: reglog.replay_append)
  from getValue_replay [OF sorted, of junk t r] this [OF wr] show ?thesis
    by (simp add: tr)
qed

text \<open>A waveform that writes 5 to register 2 at time 10 and 6 to register 2 at time 20.\<close>

definition example_reg_hier :: "fstHier list" where
  "example_reg_hier = [HT_SCOPE ''TOP'', HT_VAR ''clk'' 1, HT_VAR ''wr'' 2, HT_VAR ''addr'' 3, HT_VAR ''data'' 4, HT_VAR ''other'' 5, HT_UPSCOPE]"

definition example_reg_changes :: "change list" where
  "example_reg_changes =
     [(5, 2, ''1''), (5, 3, ''00010''), (5, 4, ''101''), (10, 1, ''0''), (15, 4, ''110''), (20, 1, ''0'')]"

lemma example_reg_assign:
  "assignHandles example_reg_hier fst_scope_init (map example_signal [''clk'', ''wr'', ''addr'', ''data'']) =
     Inr (Some True,
       [(example_signal ''clk'')\<lparr>hasHandle := True, handle := 1\<rparr>, (example_signal ''wr'')\<lparr>hasHandle := True, handle := 2\<rparr>,
        (example_signal ''addr'')\<lparr>hasHandle := True, handle := 3\<rparr>, (example_signal ''data'')\<lparr>hasHandle := True, handle := 4\<rparr>],
       \<lparr>curr_flat_hier_nam = Some [], curr_hier = []\<rparr>)"
  by (simp add: waveform_eval example_reg_hier_def example_signal_def)

lemma example_reg_trace:
  "\<exists>s. RegFileTrace_new example_reg_hier fst_scope_init (fst_mask_init 5) example_reg_changes
         (example_signal ''clk'') (example_signal ''wr'') (example_signal ''addr'') (example_signal ''data'') =
       Inr (s, \<lparr>curr_flat_hier_nam = Some [], curr_hier = []\<rparr>)"
proof -
  define sigs where "sigs = [(example_signal ''clk'')\<lparr>hasHandle := True, handle := 1\<rparr>, (example_signal ''wr'')\<lparr>hasHandle := True, handle := 2\<rparr>,
        (example_signal ''addr'')\<lparr>hasHandle := True, handle := 3\<rparr>, (example_signal ''data'')\<lparr>hasHandle := True, handle := 4\<rparr>]"
  define s0 where "s0 = \<lparr>reg_clk = sigs ! 0, regMemWr = sigs ! 1, regMemAddr = sigs ! 2, regMemWrData = sigs ! 3,
    curMemWr = False, curMemAddr = 0, curMemWrData = 0, regFileTrace = []\<rparr>"
  have wf: "mask_wf (fst_mask_init 5)"
    by (rule mask_init_wf) simp
  have "list_all (\<lambda>sig. is_handle (fst_mask_init 5) (handle sig)) sigs"
    by (simp add: sigs_def is_handle_def fst_mask_init_def)
  note run = getValueChanges_run [OF wf this, of example_reg_changes regFileChangedCB s0]
  have "reg_rel 1 2 3 4 s0 (\<lambda>_. 0)"
    by (simp add: reg_rel_def s0_def sigs_def)
  moreover have "list_all (\<lambda>(t, sig, v). has_unknown v \<or> (\<exists>n. value_int v = Inr n)) (selected_changes sigs example_reg_changes)"
    by (simp add: sigs_def example_reg_changes_def waveform_eval)
  ultimately obtain s where "run_changes regFileChangedCB (selected_changes sigs example_reg_changes) s0 = Inr s"
    using reg.run_ends by blast
  with run show ?thesis
    using example_reg_assign
    by (simp add: RegFileTrace_new_def RegFileTrace_init_def sigs_def [symmetric])
      (simp add: s0_def sigs_def)
qed

theorem RegFileTrace_value_at_witness:
  "\<exists>s xc'. RegFileTrace_new example_reg_hier fst_scope_init (fst_mask_init 5) example_reg_changes
         (example_signal ''clk'') (example_signal ''wr'') (example_signal ''addr'') (example_signal ''data'') = Inr (s, xc') \<and>
     RegFileTrace_getValue s 0 19 2 = Some 5"
proof -
  obtain s where s: "RegFileTrace_new example_reg_hier fst_scope_init (fst_mask_init 5) example_reg_changes
         (example_signal ''clk'') (example_signal ''wr'') (example_signal ''addr'') (example_signal ''data'') =
       Inr (s, \<lparr>curr_flat_hier_nam = Some [], curr_hier = []\<rparr>)"
    using example_reg_trace by blast
  have "mask_wf (fst_mask_init 5)"
    by (rule mask_init_wf) simp
  then have "RegFileTrace_getValue s 0 19 2 = Some 5"
    by (subst RegFileTrace_value_at [OF s example_reg_assign [simplified]])
      (simp_all add: is_handle_def fst_mask_init_def example_reg_changes_def reg_samples_def waveform_eval)
  with s show ?thesis
    by blast
qed

end
