(* ===== verification/Rsp_Codec.thy ===== *)
theory Rsp_Codec
  imports Prelude
begin

text \<open>
  The string helpers and the data encodings of \<open>src/gdbstub.cc\<close>: digits, the
  integer parser \<open>dbg_strtol\<close>, the packet checksum, and the hexadecimal and
  binary (escaped) encodings with their decoders. An encoder or decoder returns the
  bytes it writes, or \<open>None\<close> where the C function returns \<open>EOF\<close>; a read outside
  the buffer that \<open>dbg_strtol\<close> is given is \<open>None\<close>, too.
\<close>

section \<open>String processing helpers\<close>

text \<open>\<open>dbg_strlen\<close> runs to the terminating NUL; \<open>None\<close>: there is none in the buffer.\<close>

fun dbg_strlen :: "byte list \<Rightarrow> nat option" where
  "dbg_strlen [] = None"
| "dbg_strlen (c # cs) = (if c = 0 then Some 0 else map_option Suc (dbg_strlen cs))"

definition digits :: "byte list" where
  "digits = map of_char ''0123456789abcdef''"

definition dbg_get_digit :: "int \<Rightarrow> byte" where
  "dbg_get_digit val = (if 0 \<le> val \<and> val \<le> 0xf then digits ! nat val else word_of_int EOF)"

definition dbg_get_val :: "byte \<Rightarrow> int \<Rightarrow> int" where
  "dbg_get_val digit base =
     (let c = sint digit in
      if 0x30 \<le> c \<and> c \<le> 0x39 then (let value = c - 0x30 in if value < base then value else EOF)
      else if 0x61 \<le> c \<and> c \<le> 0x66 then (let value = c - 0x61 + 0xa in if value < base then value else EOF)
      else if 0x41 \<le> c \<and> c \<le> 0x46 then (let value = c - 0x41 + 0xa in if value < base then value else EOF)
      else EOF)"

definition dbg_is_printable_char :: "byte \<Rightarrow> bool" where
  "dbg_is_printable_char ch = (0x20 \<le> sint ch \<and> sint ch \<le> 0x7e)"

section \<open>dbg_strtol\<close>

text \<open>
  The string is the part of the buffer \<open>buf\<close> from offset \<open>p\<close> on; \<open>len\<close> is the
  \<open>size_t\<close> the caller passes, which need not agree with the end of the buffer. The
  digit loop returns the position it stops at, the value and whether a digit was seen.
  The arithmetic of \<open>value\<close> is that of a 32-bit register.
\<close>

function strtol_loop :: "byte list \<Rightarrow> nat \<Rightarrow> nat \<Rightarrow> int \<Rightarrow> nat \<Rightarrow> u32 \<Rightarrow> bool \<Rightarrow> (nat \<times> u32 \<times> bool) option" where
  "strtol_loop buf p len base pos value valid =
     (if pos < len then
        (case peek buf (p + pos) of
           None \<Rightarrow> None
         | Some c \<Rightarrow>
             if c = 0 then Some (pos, value, valid)
             else (let tmp = dbg_get_val c base in
                   if tmp = EOF then Some (pos, value, valid)
                   else strtol_loop buf p len base (Suc pos) (value * word_of_int base + word_of_int tmp) True))
      else Some (pos, value, valid))"
  by pat_completeness auto
termination
  by (relation "measure (\<lambda>(buf, p, len, base, pos, value, valid). len - pos)") auto

declare strtol_loop.simps [simp del]

text \<open>
  \<open>dbg_strtol buf p len base\<close> is the value and the pointer stored through \<open>endptr\<close>
  (\<open>None\<close> is \<open>NULL\<close>); the outer \<open>None\<close> is a read outside the buffer.
\<close>

definition strtol_sign :: "byte \<Rightarrow> u32 \<times> nat" where
  "strtol_sign c = (if c = ch_minus then (- 1, 1) else if c = ch_plus then (1, 1) else (1, 0))"

definition strtol_prefix :: "byte list \<Rightarrow> nat \<Rightarrow> nat \<Rightarrow> nat \<Rightarrow> bool option" where
  "strtol_prefix buf p len pos =
     (if pos + 2 < len then
        (case peek buf (p + pos) of
           None \<Rightarrow> None
         | Some c0 \<Rightarrow>
             if c0 = 0x30 then
               (case peek buf (p + pos + 1) of
                  None \<Rightarrow> None
                | Some c1 \<Rightarrow> Some (c1 = 0x78 \<or> c1 = 0x58))
             else Some False)
      else Some False)"

definition dbg_strtol :: "byte list \<Rightarrow> nat \<Rightarrow> nat \<Rightarrow> int \<Rightarrow> (u32 \<times> nat option) option" where
  "dbg_strtol buf p len base =
     (if len < 1 then Some (0, None)
      else
        case peek buf p of
          None \<Rightarrow> None
        | Some c \<Rightarrow>
            (let (sgn, pos) = strtol_sign c in
             case strtol_prefix buf p len pos of
               None \<Rightarrow> None
             | Some is_hex \<Rightarrow>
                 (let base1 = (if is_hex then 16 else base);
                      pos1 = (if is_hex then pos + 2 else pos);
                      base2 = (if base1 = 0 then 10 else base1)
                  in case strtol_loop buf p len base2 pos1 0 False of
                       None \<Rightarrow> None
                     | Some (pos2, value, valid) \<Rightarrow>
                         if valid then Some (value * sgn, Some (p + pos2)) else Some (0, None))))"

section \<open>Checksum and data encodings\<close>

definition dbg_checksum :: "byte list \<Rightarrow> byte" where
  "dbg_checksum buf = foldl (\<lambda>csum c. csum + c) 0 buf"

definition hex_of_byte :: "byte \<Rightarrow> byte list" where
  "hex_of_byte d = [dbg_get_digit (uint (signed_drop_bit 4 d AND 0xf)), dbg_get_digit (uint (d AND 0xf))]"

definition dbg_enc_hex :: "nat \<Rightarrow> byte list \<Rightarrow> byte list option" where
  "dbg_enc_hex buf_len data =
     (if buf_len < length data * 2 then None else Some (concat (map hex_of_byte data)))"

fun dec_hex_loop :: "byte list \<Rightarrow> nat \<Rightarrow> byte list option" where
  "dec_hex_loop buf 0 = Some []"
| "dec_hex_loop (h # l # buf) (Suc n) =
     (if dbg_get_val h 16 = EOF then None
      else if dbg_get_val l 16 = EOF then None
      else map_option ((#) (push_bit 4 (word_of_int (dbg_get_val h 16)) OR word_of_int (dbg_get_val l 16)))
             (dec_hex_loop buf n))"
| "dec_hex_loop _ _ = None"

definition dbg_dec_hex :: "byte list \<Rightarrow> nat \<Rightarrow> byte list option" where
  "dbg_dec_hex buf data_len = (if length buf \<noteq> data_len * 2 then None else dec_hex_loop buf data_len)"

definition is_special :: "byte \<Rightarrow> bool" where
  "is_special c \<longleftrightarrow> c = ch_dollar \<or> c = ch_hash \<or> c = ch_rbrace \<or> c = ch_star"

fun enc_bin_loop :: "nat \<Rightarrow> byte list \<Rightarrow> nat \<Rightarrow> byte list option" where
  "enc_bin_loop buf_len [] buf_pos = Some []"
| "enc_bin_loop buf_len (d # data) buf_pos =
     (if is_special d then
        (if buf_pos + 1 \<ge> buf_len then None
         else map_option (\<lambda>out. ch_rbrace # (d XOR 0x20) # out) (enc_bin_loop buf_len data (buf_pos + 2)))
      else
        (if buf_pos \<ge> buf_len then None
         else map_option ((#) d) (enc_bin_loop buf_len data (buf_pos + 1))))"

definition dbg_enc_bin :: "nat \<Rightarrow> byte list \<Rightarrow> byte list option" where
  "dbg_enc_bin buf_len data = enc_bin_loop buf_len data 0"

text \<open>The escape is tested against the end of the input after the output check, as in the source.\<close>

fun dec_bin_loop :: "byte list \<Rightarrow> nat \<Rightarrow> nat \<Rightarrow> byte list option" where
  "dec_bin_loop [] data_len data_pos = Some []"
| "dec_bin_loop (b # buf) data_len data_pos =
     (if data_pos \<ge> data_len then None
      else if b = ch_rbrace then
        (case buf of
           [] \<Rightarrow> None
         | e # buf' \<Rightarrow> map_option ((#) (e XOR 0x20)) (dec_bin_loop buf' data_len (data_pos + 1)))
      else map_option ((#) b) (dec_bin_loop buf data_len (data_pos + 1)))"

definition dbg_dec_bin :: "byte list \<Rightarrow> nat \<Rightarrow> byte list option" where
  "dbg_dec_bin buf data_len = dec_bin_loop buf data_len 0"

section \<open>Digits\<close>

text \<open>Characters that are the code of a hexadecimal digit, of either case.\<close>

definition is_hex_char :: "byte \<Rightarrow> bool" where
  "is_hex_char c \<longleftrightarrow> dbg_get_val c 16 \<noteq> EOF"

lemma get_val_bounds: "dbg_get_val c base = EOF \<or> 0 \<le> dbg_get_val c base \<and> dbg_get_val c base < min 16 base"
  by (simp add: dbg_get_val_def Let_def)

lemma get_val_0 [simp]: "dbg_get_val 0 base = EOF"
  by (simp add: dbg_get_val_def)

lemma nibble_cases:
  assumes "0 \<le> (v :: int)" and "v < 16"
  shows "v \<in> {0, 1, 2, 3, 4, 5, 6, 7, 8, 9, 10, 11, 12, 13, 14, 15}"
  using assms by simp presburger

lemma get_val_get_digit [simp]:
  assumes "0 \<le> v" and "v < 16"
  shows "dbg_get_val (dbg_get_digit v) 16 = v"
  using nibble_cases [OF assms]
  by (elim insertE emptyE) (simp_all add: dbg_get_val_def dbg_get_digit_def digits_def)

lemma get_digit_cases:
  assumes "0 \<le> v" and "v < 16"
  shows "dbg_get_digit v \<in> set digits"
proof -
  have "nat v < length digits"
    using assms by (simp add: digits_def)
  then show ?thesis
    using assms nth_mem by (simp add: dbg_get_digit_def)
qed

lemma digits_not_special:
  "c \<in> set digits \<Longrightarrow> \<not> is_special c \<and> c \<noteq> ch_comma \<and> c \<noteq> ch_colon \<and> c \<noteq> ch_minus \<and> c \<noteq> ch_plus \<and> c \<noteq> - 1 \<and> c \<noteq> 0"
  by (auto simp: digits_def is_special_def)

section \<open>The hexadecimal encoding\<close>

lemma high_nibble: "signed_drop_bit 4 (d :: byte) AND 0xf = drop_bit 4 d"
proof -
  have "(0xf :: byte) = mask 4"
    by (simp add: mask_numeral)
  moreover have "signed_drop_bit 4 d AND mask 4 = drop_bit 4 d"
    by (rule bit_word_eqI) (auto simp: bit_simps dest: bit_imp_le_length)
  ultimately show ?thesis
    by simp
qed

lemma low_nibble: "(d :: byte) AND 0xf = take_bit 4 d"
  by (simp add: take_bit_eq_mask mask_numeral)

lemma hex_of_byte_eq:
  "hex_of_byte d = [dbg_get_digit (uint d div 16), dbg_get_digit (uint d mod 16)]"
  unfolding hex_of_byte_def high_nibble unfolding low_nibble
  by (simp add: drop_bit_eq_div take_bit_eq_mod uint_div_distrib uint_mod_distrib)

lemma nibble_bounds:
  "0 \<le> uint (d :: byte) div 16" "uint (d :: byte) div 16 < 16"
  "0 \<le> uint (d :: byte) mod 16" "uint (d :: byte) mod 16 < 16"
  using uint_byte_lt [of d] unsigned_greater_eq [of d, where ?'a = int] by (simp_all del: uint_byte_lt unsigned_greater_eq, linarith+)

lemma nibbles_join:
  "push_bit 4 (word_of_int (uint d div 16)) OR word_of_int (uint d mod 16) = (d :: byte)"
proof -
  have "word_of_int (uint d div 16) = drop_bit 4 d" "word_of_int (uint d mod 16) = take_bit 4 d"
    by (simp_all add: drop_bit_eq_div take_bit_eq_mod word_of_int_eq_iff flip: uint_div_distrib uint_mod_distrib)
      (simp_all add: word_div_def word_mod_def)
  moreover have "push_bit 4 (drop_bit 4 d) OR take_bit 4 d = d"
    by (auto intro!: bit_word_eqI simp: bit_simps)
  ultimately show ?thesis
    by simp
qed

lemma length_concat_hex [simp]: "length (concat (map hex_of_byte data)) = 2 * length data"
  by (induction data) (simp_all add: hex_of_byte_def)

lemma set_hex_of_byte: "set (hex_of_byte d) \<subseteq> set digits"
  by (simp add: hex_of_byte_eq get_digit_cases nibble_bounds)

lemma set_concat_hex: "set (concat (map hex_of_byte data)) \<subseteq> set digits"
  using set_hex_of_byte by (induction data) auto

lemma dec_hex_byte [simp]:
  "dec_hex_loop (hex_of_byte d @ buf) (Suc n) = map_option ((#) d) (dec_hex_loop buf n)"
proof -
  have "uint d div 16 \<noteq> EOF" "uint d mod 16 \<noteq> EOF"
    using nibble_bounds [of d] by linarith+
  then show ?thesis
    by (simp add: hex_of_byte_eq nibbles_join nibble_bounds del: push_bit_of_int)
qed

lemma dec_hex_loop_concat [simp]:
  "dec_hex_loop (concat (map hex_of_byte data)) (length data) = Some data"
  by (induction data) simp_all

lemma dbg_enc_hex_Some_iff:
  "dbg_enc_hex n data = Some out \<longleftrightarrow> 2 * length data \<le> n \<and> out = concat (map hex_of_byte data)"
  by (auto simp: dbg_enc_hex_def)

lemma dbg_enc_hex_fits [codec_simps]:
  "2 * length data \<le> n \<Longrightarrow> dbg_enc_hex n data = Some (concat (map hex_of_byte data))"
  by (simp add: dbg_enc_hex_Some_iff)

lemma dbg_dec_hex_concat [codec_simps]:
  "dbg_dec_hex (concat (map hex_of_byte data)) (length data) = Some data"
  by (simp add: dbg_dec_hex_def)

lemma dec_hex_loop_Some_iff:
  "length buf = 2 * n \<Longrightarrow> (\<exists>data. dec_hex_loop buf n = Some data) \<longleftrightarrow> list_all is_hex_char buf"
proof (induction buf n rule: dec_hex_loop.induct)
  case (2 h l buf n)
  then show ?case
    by (cases "is_hex_char h"; cases "is_hex_char l") (auto simp: is_hex_char_def)
qed auto

lemma dec_hex_loop_length: "dec_hex_loop buf n = Some data \<Longrightarrow> length data = n"
  by (induction buf n arbitrary: data rule: dec_hex_loop.induct) (auto split: if_splits)

text \<open>Exactly the strings of hexadecimal digits of the expected length are decoded.\<close>

lemma dbg_dec_hex_Some_iff:
  "(\<exists>data. dbg_dec_hex buf n = Some data) \<longleftrightarrow> length buf = 2 * n \<and> list_all is_hex_char buf"
  using dec_hex_loop_Some_iff [of buf n] by (auto simp: dbg_dec_hex_def)

section \<open>The binary encoding\<close>

definition esc_byte :: "byte \<Rightarrow> byte list" where
  "esc_byte d = (if is_special d then [ch_rbrace, d XOR 0x20] else [d])"

lemma enc_bin_loop_eq:
  "enc_bin_loop n data pos =
     (if data = [] \<or> pos + length (concat (map esc_byte data)) \<le> n then Some (concat (map esc_byte data)) else None)"
  proof (induction data arbitrary: pos)
  case (Cons d data)
  then show ?case
    by (cases "data = []"; cases "is_special d") (simp_all add: esc_byte_def Cons.IH)
qed simp

lemma dbg_enc_bin_eq:
  "dbg_enc_bin n data =
     (if length (concat (map esc_byte data)) \<le> n then Some (concat (map esc_byte data)) else None)"
  by (auto simp: dbg_enc_bin_def enc_bin_loop_eq)

lemma dec_bin_loop_esc:
  assumes "pos < n"
  shows "dec_bin_loop (esc_byte d @ buf) n pos = map_option ((#) d) (dec_bin_loop buf n (Suc pos))"
proof (cases "is_special d")
  case True
  then show ?thesis
    using assms by (simp add: esc_byte_def xor.assoc)
next
  case False
  then have "d \<noteq> ch_rbrace"
    by (auto simp: is_special_def)
  with False show ?thesis
    using assms by (simp add: esc_byte_def)
qed

lemma dec_bin_loop_concat:
  "pos + length data \<le> n \<Longrightarrow> dec_bin_loop (concat (map esc_byte data)) n pos = Some data"
  by (induction data arbitrary: pos) (simp_all add: dec_bin_loop_esc)

lemma dec_bin_loop_bound: "dec_bin_loop buf n pos = Some data \<Longrightarrow> pos \<le> n \<Longrightarrow> pos + length data \<le> n"
proof (induction buf n pos arbitrary: data rule: dec_bin_loop.induct)
  case (2 b buf n pos)
  then show ?case
    by (cases buf; cases "b = ch_rbrace") (fastforce split: if_splits)+
qed simp

lemma xor_special_safe:
  "is_special d \<Longrightarrow> d XOR 0x20 \<noteq> ch_hash \<and> d XOR 0x20 \<noteq> ch_dollar \<and> d XOR 0x20 \<noteq> ch_star"
  by (auto simp: is_special_def)

lemma set_esc_byte: "c \<in> set (esc_byte d) \<Longrightarrow> c \<noteq> ch_hash \<and> c \<noteq> ch_dollar \<and> c \<noteq> ch_star"
  using xor_special_safe [of d] by (auto simp: esc_byte_def is_special_def split: if_splits)

lemma set_concat_esc:
  "c \<in> set (concat (map esc_byte data)) \<Longrightarrow> c \<noteq> ch_hash \<and> c \<noteq> ch_dollar \<and> c \<noteq> ch_star"
  by (auto dest: set_esc_byte)

section \<open>The contract of an encoding\<close>

text \<open>
  \<open>dbg_mem_read\<close> and \<open>dbg_mem_write\<close> take the encoding as a function pointer
  (\<open>dbg_enc_func\<close>, \<open>dbg_dec_func\<close>). What they may rely on: the encoder stays
  within the buffer, never emits the two framing characters of a packet, and the decoder
  inverts it.
\<close>

locale payload_codec =
  fixes enc :: "nat \<Rightarrow> byte list \<Rightarrow> byte list option"
    and dec :: "byte list \<Rightarrow> nat \<Rightarrow> byte list option"
  assumes enc_fits: "enc n data = Some out \<Longrightarrow> length out \<le> n"
    and enc_framing: "enc n data = Some out \<Longrightarrow> c \<in> set out \<Longrightarrow> c \<noteq> ch_hash \<and> c \<noteq> ch_dollar"
    and dec_enc: "enc n data = Some out \<Longrightarrow> dec out (length data) = Some data"
begin

lemma enc_inj: "enc n data = Some out \<Longrightarrow> enc m data' = Some out \<Longrightarrow> length data = length data' \<Longrightarrow> data = data'"
  by (metis dec_enc option.inject)

lemma enc_into_buffer:
  "enc (length buf) data = Some out \<Longrightarrow>
     length (poke buf 0 out) = length buf \<and> dec (take (length out) (poke buf 0 out)) (length data) = Some data"
  by (simp add: enc_fits dec_enc poke_at_0)

end

interpretation hex: payload_codec dbg_enc_hex dbg_dec_hex
proof unfold_locales
  fix n data out c
  assume enc: "dbg_enc_hex n data = Some out"
  show "length out \<le> n"
    using enc by (auto simp: dbg_enc_hex_Some_iff)
  show "dbg_dec_hex out (length data) = Some data"
    using enc by (simp add: dbg_enc_hex_Some_iff dbg_dec_hex_concat)
  assume "c \<in> set out"
  then have "c \<in> set digits"
    using enc set_concat_hex by (auto simp: dbg_enc_hex_Some_iff)
  then show "c \<noteq> ch_hash \<and> c \<noteq> ch_dollar"
    using digits_not_special by (auto simp: is_special_def)
qed

interpretation bin: payload_codec dbg_enc_bin dbg_dec_bin
proof unfold_locales
  fix n data out c
  assume enc: "dbg_enc_bin n data = Some out"
  show "length out \<le> n"
    using enc by (auto simp: dbg_enc_bin_eq split: if_splits)
  show "dbg_dec_bin out (length data) = Some data"
    using enc by (auto simp: dbg_enc_bin_eq dbg_dec_bin_def dec_bin_loop_concat split: if_splits)
  assume "c \<in> set out"
  then show "c \<noteq> ch_hash \<and> c \<noteq> ch_dollar"
    using enc set_concat_esc [of c data] by (auto simp: dbg_enc_bin_eq simp del: set_concat split: if_splits)
qed

section \<open>dbg_strtol against a reference parser\<close>

text \<open>
  The reference works on the string itself, a list, and on unbounded integers: an
  optional sign, an optional \<open>0x\<close>, the longest run of digits of the base; the result
  is the signed value and the number of characters consumed.
\<close>

definition digits_value :: "int \<Rightarrow> byte list \<Rightarrow> int" where
  "digits_value base ds = foldl (\<lambda>v c. v * base + dbg_get_val c base) 0 ds"

definition spec_sign :: "byte list \<Rightarrow> int \<times> nat" where
  "spec_sign xs = (case xs of c # _ \<Rightarrow> (if c = ch_minus then (-1, 1) else if c = ch_plus then (1, 1) else (1, 0))
                   | [] \<Rightarrow> (1, 0))"

definition spec_hex_prefix :: "byte list \<Rightarrow> bool" where
  "spec_hex_prefix xs = (case xs of z # x # _ # _ \<Rightarrow> z = 0x30 \<and> (x = 0x78 \<or> x = 0x58) | _ \<Rightarrow> False)"

definition strtol_spec :: "byte list \<Rightarrow> int \<Rightarrow> (int \<times> nat) option" where
  "strtol_spec xs base =
     (let (sgn, n1) = spec_sign xs;
          is_hex = spec_hex_prefix (drop n1 xs);
          b = (if is_hex then 16 else if base = 0 then 10 else base);
          n2 = (if is_hex then n1 + 2 else n1);
          ds = takeWhile (\<lambda>c. dbg_get_val c b \<noteq> EOF) (drop n2 xs)
      in if ds = [] then None else Some (sgn * digits_value b ds, n2 + length ds))"

lemma foldl_digits_word:
  "foldl (\<lambda>v c. v * word_of_int base + word_of_int (dbg_get_val c base)) (word_of_int v) ds =
     (word_of_int (foldl (\<lambda>v c. v * base + dbg_get_val c base) v ds) :: u32)"
proof (induction ds arbitrary: v)
  case (Cons c ds)
  have "word_of_int v * word_of_int base + word_of_int (dbg_get_val c base) =
      (word_of_int (v * base + dbg_get_val c base) :: u32)"
    by simp
  with Cons show ?case
    by (simp del: of_int_add of_int_mult)
qed simp

text \<open>The digit loop reads the longest run of digits of the string.\<close>

lemma strtol_loop_takeWhile:
  assumes "p + len \<le> length buf" and "pos \<le> len"
  shows "strtol_loop buf p len base pos val valid =
    (let ds = takeWhile (\<lambda>c. dbg_get_val c base \<noteq> EOF) (take (len - pos) (drop (p + pos) buf))
     in Some (pos + length ds,
              foldl (\<lambda>v c. v * word_of_int base + word_of_int (dbg_get_val c base)) val ds,
              valid \<or> ds \<noteq> []))"
  using assms
proof (induction buf p len base pos val valid rule: strtol_loop.induct)
  case (1 buf p len base pos val valid)
  show ?case
  proof (cases "pos < len")
    case False
    then show ?thesis
      by (simp add: strtol_loop.simps [of buf p len base pos] Let_def)
  next
    case True
    define c where "c = buf ! (p + pos)"
    have in_buf: "p + pos < length buf" and peek: "peek buf (p + pos) = Some c"
      using True "1.prems" by (simp_all add: c_def)
    have head: "take (len - pos) (drop (p + pos) buf) = c # take (len - Suc pos) (drop (p + Suc pos) buf)"
      using True in_buf by (simp add: c_def Cons_nth_drop_Suc [symmetric] take_Cons')
    show ?thesis
    proof (cases "dbg_get_val c base = EOF")
      case eof: True
      then show ?thesis
        using True peek head by (simp add: strtol_loop.simps [of buf p len base pos] Let_def)
    next
      case False
      then have "c \<noteq> 0"
        by auto
      with False show ?thesis
        using True peek head "1.IH" [OF True peek, of "dbg_get_val c base"] "1.prems"
        by (simp add: strtol_loop.simps [of buf p len base pos] Let_def)
    qed
  qed
qed

lemma spec_hex_prefix_nth:
  "spec_hex_prefix ys \<longleftrightarrow> 2 < length ys \<and> ys ! 0 = 0x30 \<and> (ys ! 1 = 0x78 \<or> ys ! 1 = 0x58)"
  by (auto simp: spec_hex_prefix_def split: list.splits)

lemma strtol_prefix_spec:
  assumes "p + len \<le> length buf" and "pos \<le> len"
  shows "strtol_prefix buf p len pos = Some (spec_hex_prefix (take (len - pos) (drop (p + pos) buf)))"
proof -
  define ys where "ys = take (len - pos) (drop (p + pos) buf)"
  have "length ys = len - pos"
    using assms by (simp add: ys_def)
  moreover have "ys ! i = buf ! (p + pos + i)" if "i < len - pos" for i
    using assms that by (simp add: ys_def)
  moreover have "peek buf (p + pos + i) = Some (buf ! (p + pos + i))" if "i < len - pos" for i
    using assms that by simp
  from this [of 0] this [of 1]
  have "pos + 2 < len \<Longrightarrow> peek buf (p + pos) = Some (buf ! (p + pos))"
    "pos + 2 < len \<Longrightarrow> peek buf (p + pos + 1) = Some (buf ! (p + pos + 1))"
    by simp_all
  ultimately show ?thesis
    unfolding ys_def [symmetric] strtol_prefix_def spec_hex_prefix_nth
    by (cases "pos + 2 < len") (auto simp del: peek_in)
qed

lemma dbg_strtol_spec:
  assumes in_buf: "p + len \<le> length buf"
  shows "dbg_strtol buf p len base =
    Some (case strtol_spec (take len (drop p buf)) base of
            None \<Rightarrow> (0, None)
          | Some (v, n) \<Rightarrow> (word_of_int v, Some (p + n)))"
proof (cases len)
  case 0
  then show ?thesis
    by (simp add: dbg_strtol_def strtol_spec_def spec_sign_def spec_hex_prefix_def)
next
  case (Suc m)
  define xs where "xs = take len (drop p buf)"
  have xs: "xs = buf ! p # take m (drop (Suc p) buf)"
    using in_buf Suc by (simp add: xs_def Cons_nth_drop_Suc [symmetric])
  obtain sgn n1 where sign: "spec_sign xs = (sgn, n1)"
    by fastforce
  have csign: "strtol_sign (buf ! p) = (word_of_int sgn, n1)" and n1: "n1 \<le> len"
    using sign Suc by (auto simp: xs spec_sign_def strtol_sign_def split: if_splits)
  have pre: "strtol_prefix buf p len n1 = Some (spec_hex_prefix (drop n1 xs))"
    using strtol_prefix_spec [OF in_buf n1] by (simp add: xs_def drop_take add.commute)
  define is_hex where "is_hex = spec_hex_prefix (drop n1 xs)"
  define n2 where "n2 = (if is_hex then n1 + 2 else n1)"
  define b where "b = (if is_hex then 16 else if base = 0 then 10 else base)"
  have "is_hex \<Longrightarrow> 2 < length (drop n1 xs)"
    by (simp add: is_hex_def spec_hex_prefix_nth)
  then have n2: "n2 \<le> len"
    using n1 in_buf by (auto simp: n2_def xs_def)
  define ds where "ds = takeWhile (\<lambda>c. dbg_get_val c b \<noteq> EOF) (drop n2 xs)"
  have "strtol_loop buf p len b n2 0 False = Some (n2 + length ds, word_of_int (digits_value b ds), ds \<noteq> [])"
    using strtol_loop_takeWhile [OF in_buf n2, of b 0 False] foldl_digits_word [of b 0 ds]
    by (simp add: ds_def xs_def drop_take add.commute Let_def digits_value_def)
  moreover have "strtol_spec xs base = (if ds = [] then None else Some (sgn * digits_value b ds, n2 + length ds))"
    by (simp add: strtol_spec_def sign Let_def is_hex_def [symmetric] n2_def [symmetric] b_def [symmetric] ds_def)
  moreover have "peek buf p = Some (buf ! p)" "\<not> len < 1"
    using in_buf Suc by simp_all
  ultimately show ?thesis
    unfolding dbg_strtol_def xs_def [symmetric]
    by (auto simp: csign pre is_hex_def [symmetric] Let_def b_def n2_def mult.commute split: if_splits)
qed

lemma strtol_spec_consumed: "strtol_spec xs base = Some (v, n) \<Longrightarrow> 0 < n \<and> n \<le> length xs"
proof -
  assume some: "strtol_spec xs base = Some (v, n)"
  obtain n2 b ds where ds: "ds = takeWhile (\<lambda>c. dbg_get_val c b \<noteq> EOF) (drop n2 xs)" "ds \<noteq> []" "n = n2 + length ds"
    using some by (auto simp: strtol_spec_def Let_def split: prod.splits if_splits)
  have "length ds \<le> length (drop n2 xs)"
    unfolding ds(1) by (rule length_takeWhile_le)
  with ds(2,3) show "0 < n \<and> n \<le> length xs"
    by (cases "n2 \<le> length xs") auto
qed

section \<open>Numbers as GDB prints them\<close>

text \<open>The digits of a number, most significant first, without leading zeros.\<close>

fun hex_of_nat :: "nat \<Rightarrow> byte list" where
  "hex_of_nat n = (if n < 16 then [dbg_get_digit (int n)]
                   else hex_of_nat (n div 16) @ [dbg_get_digit (int (n mod 16))])"

declare hex_of_nat.simps [simp del]

lemma hex_of_nat_nonempty [simp]: "hex_of_nat n \<noteq> []"
  by (subst hex_of_nat.simps) simp

lemma set_hex_of_nat: "set (hex_of_nat n) \<subseteq> set digits"
proof (induction n rule: hex_of_nat.induct)
  case (1 n)
  then show ?case
    by (subst hex_of_nat.simps) (auto intro!: get_digit_cases)
qed

lemma digits_are_hex: "c \<in> set digits \<Longrightarrow> dbg_get_val c 16 \<noteq> EOF"
  by (auto simp: digits_def dbg_get_val_def)

lemma digits_value_hex_of_nat: "digits_value 16 (hex_of_nat n) = int n"
proof (induction n rule: hex_of_nat.induct)
  case (1 n)
  show ?case
  proof (cases "n < 16")
    case True
    then show ?thesis
      by (subst hex_of_nat.simps) (simp add: digits_value_def)
  next
    case False
    then have "digits_value 16 (hex_of_nat n) = int (n div 16) * 16 + int (n mod 16)"
      using 1 by (subst hex_of_nat.simps) (simp add: digits_value_def)
    then show ?thesis
      by (simp flip: of_nat_mult of_nat_add add: of_nat_div of_nat_mod)
  qed
qed

text \<open>Where a printed number is followed by a character that is no digit, it is read back.\<close>

definition stops_number :: "byte list \<Rightarrow> bool" where
  "stops_number rest \<longleftrightarrow>
     (case rest of [] \<Rightarrow> True | c # _ \<Rightarrow> dbg_get_val c 16 = EOF \<and> c \<noteq> 0x78 \<and> c \<noteq> 0x58)"

lemma strtol_spec_hex_of_nat:
  assumes "stops_number rest"
  shows "strtol_spec (hex_of_nat n @ rest) 16 = Some (int n, length (hex_of_nat n))"
proof -
  obtain d ds where hd: "hex_of_nat n = d # ds"
    by (cases "hex_of_nat n") auto
  have all: "\<forall>c \<in> set (hex_of_nat n). dbg_get_val c 16 \<noteq> EOF"
    using set_hex_of_nat digits_are_hex by blast
  have "d \<in> set digits" "\<forall>c \<in> set ds. c \<in> set digits"
    using set_hex_of_nat [of n] by (auto simp: hd)
  then have sign: "spec_sign (hex_of_nat n @ rest) = (1, 0)" and "\<forall>c \<in> set ds. c \<noteq> 0x78 \<and> c \<noteq> 0x58"
    using digits_not_special [of d] by (auto simp: hd spec_sign_def digits_def)
  then have pre: "\<not> spec_hex_prefix (hex_of_nat n @ rest)"
    using assms by (cases ds) (auto simp: hd spec_hex_prefix_def stops_number_def split: list.splits)
  have "takeWhile (\<lambda>c. dbg_get_val c 16 \<noteq> EOF) (hex_of_nat n @ rest) = hex_of_nat n"
    using all assms by (auto simp: takeWhile_append stops_number_def split: list.splits)
  then show ?thesis
    by (simp add: strtol_spec_def sign pre digits_value_hex_of_nat)
qed

section \<open>The checksum\<close>

lemma dbg_checksum_sum_list: "dbg_checksum buf = sum_list buf"
proof -
  have "foldl (+) x xs = x + sum_list xs" for x :: byte and xs
    by (induction xs arbitrary: x) (simp_all add: add.assoc)
  then show ?thesis
    by (simp add: dbg_checksum_def)
qed

lemma dbg_checksum_append: "dbg_checksum (xs @ ys) = dbg_checksum xs + dbg_checksum ys"
  by (simp add: dbg_checksum_sum_list)

lemma unat_dbg_checksum: "unat (dbg_checksum buf) = sum_list (map unat buf) mod 256"
  unfolding dbg_checksum_sum_list
  by (induction buf) (simp_all add: unat_word_ariths mod_simps)

text \<open>A single changed byte always changes the checksum.\<close>

lemma dbg_checksum_single:
  "dbg_checksum (xs @ a # ys) = dbg_checksum (xs @ b # ys) \<longleftrightarrow> a = b"
  by (simp add: dbg_checksum_sum_list)

end
