(* ===== verification/Rsp_Conn.thy ===== *)
theory Rsp_Conn
  imports Rsp_Codec
begin

text \<open>
  The connection to the GDB client and the packet layer on top of it: \<open>TcpServer::recv\<close>
  and \<open>TcpServer::xmit\<close> (\<open>src/TcpServer.cc\<close>), the character functions
  \<open>dbg_sys_getc\<close> and \<open>dbg_sys_putchar\<close> with their static receive buffer
  (\<open>src/gdbstub_sys.cc\<close>), and the communication and packet functions of
  \<open>src/gdbstub.cc\<close>.

  The operating system is data of the state: \<open>rx_reads\<close> lists what the coming calls of
  \<open>read\<close> deliver (an empty list is a result that is not positive: end of file or an
  error; when the list is exhausted every further call is one), \<open>tx_results\<close> lists the
  return values of the coming calls of \<open>send\<close> (1 when exhausted). \<open>tx_out\<close> is what
  has been delivered to the peer.
\<close>

section \<open>The TCP server and the character functions\<close>

record conn =
  rx_reads :: "byte list list"
  tx_results :: "int list"
  tx_out :: "byte list"
  rxbuf :: "byte list"
  rxbuf_cur_idx :: nat
  rxbuf_len :: nat

definition RXBUF_SIZE :: nat where
  "RXBUF_SIZE = 256"

text \<open>The static buffer and its indices as the program starts them.\<close>

definition conn_open :: "byte list list \<Rightarrow> int list \<Rightarrow> conn" where
  "conn_open reads results =
     \<lparr>rx_reads = reads, tx_results = results, tx_out = [], rxbuf = replicate RXBUF_SIZE 0,
      rxbuf_cur_idx = 0, rxbuf_len = 0\<rparr>"

text \<open>A read delivers at most \<open>buf_size\<close> bytes; the rest of the data stays in the socket.\<close>

definition TcpServer_recv :: "nat \<Rightarrow> conn \<Rightarrow> int \<times> byte list \<times> conn" where
  "TcpServer_recv buf_size c =
     (case rx_reads c of
        [] \<Rightarrow> (0, [], c)
      | chunk # rest \<Rightarrow>
          if length chunk \<le> buf_size then (int (length chunk), chunk, c\<lparr>rx_reads := rest\<rparr>)
          else (int buf_size, take buf_size chunk, c\<lparr>rx_reads := drop buf_size chunk # rest\<rparr>))"

definition TcpServer_xmit :: "byte list \<Rightarrow> conn \<Rightarrow> int \<times> conn" where
  "TcpServer_xmit buf c =
     (case tx_results c of
        [] \<Rightarrow> (int (length buf), c\<lparr>tx_out := tx_out c @ buf\<rparr>)
      | ret # rest \<Rightarrow>
          (ret, if ret > 0 then c\<lparr>tx_results := rest, tx_out := tx_out c @ take (nat ret) buf\<rparr>
                else c\<lparr>tx_results := rest\<rparr>))"

text \<open>
  An index outside the receive buffer, which no call reaches, reads as \<open>EOF\<close>
  (\<open>getc_in_buffer\<close> below). The new contents replace the front of the static buffer.
\<close>

definition dbg_sys_getc :: "conn \<Rightarrow> int \<times> conn" where
  "dbg_sys_getc c =
     (if rxbuf_cur_idx c \<noteq> rxbuf_len c then
        (case peek (rxbuf c) (rxbuf_cur_idx c) of
           None \<Rightarrow> (EOF, c)
         | Some b \<Rightarrow> (uint b, c\<lparr>rxbuf_cur_idx := Suc (rxbuf_cur_idx c)\<rparr>))
      else
        (let (ret, chunk, c1) = TcpServer_recv RXBUF_SIZE c in
         if ret > 0 then
           (let c2 = c1\<lparr>rxbuf := poke (rxbuf c1) 0 chunk, rxbuf_cur_idx := 0, rxbuf_len := nat ret\<rparr> in
            case peek (rxbuf c2) 0 of
              None \<Rightarrow> (EOF, c2)
            | Some b \<Rightarrow> (uint b, c2\<lparr>rxbuf_cur_idx := Suc 0\<rparr>))
         else (EOF, c1)))"

text \<open>
  \<open>xmit\<close> returns a \<open>ssize_t\<close> that is stored in a \<open>size_t\<close>, so that \<open>ret > 0\<close> is
  a test for \<open>ret \<noteq> 0\<close>. The argument is a \<open>char\<close> promoted to \<open>int\<close>, and is the result.
\<close>

definition dbg_sys_putchar :: "byte \<Rightarrow> conn \<Rightarrow> int \<times> conn" where
  "dbg_sys_putchar ch c =
     (let (r, c1) = TcpServer_xmit [ch] c;
          ret = (word_of_int r :: u64)
      in if ret > 0 then (sint ch, c1) else (EOF, c1))"

section \<open>Sequences of bytes, acknowledgements\<close>

fun dbg_write :: "byte list \<Rightarrow> conn \<Rightarrow> int \<times> conn" where
  "dbg_write [] c = (0, c)"
| "dbg_write (b # buf) c =
     (let (r, c1) = dbg_sys_putchar b c in if r = EOF then (EOF, c1) else dbg_write buf c1)"

text \<open>The character read is stored in a \<open>char\<close> before it is compared with \<open>EOF\<close>.\<close>

fun dbg_read_loop :: "nat \<Rightarrow> conn \<Rightarrow> byte list option \<times> conn" where
  "dbg_read_loop 0 c = (Some [], c)"
| "dbg_read_loop (Suc len) c =
     (let (r, c1) = dbg_sys_getc c; ch = (word_of_int r :: byte) in
      if sint ch = EOF then (None, c1)
      else (let (bs, c2) = dbg_read_loop len c1 in (map_option ((#) ch) bs, c2)))"

definition dbg_read :: "nat \<Rightarrow> nat \<Rightarrow> conn \<Rightarrow> byte list option \<times> conn" where
  "dbg_read buf_len len c = (if buf_len < len then (None, c) else dbg_read_loop len c)"

definition dbg_recv_ack :: "conn \<Rightarrow> int \<times> conn" where
  "dbg_recv_ack c =
     (let (response, c1) = dbg_sys_getc c in
      if response = uint ch_plus then (0, c1)
      else if response = uint ch_minus then (1, c1)
      else (EOF, c1))"

section \<open>Packets\<close>

definition dbg_send_packet :: "byte list \<Rightarrow> conn \<Rightarrow> int \<times> conn" where
  "dbg_send_packet pkt_data c =
     (let (r1, c1) = dbg_sys_putchar ch_dollar c in
      if r1 = EOF then (EOF, c1)
      else let (r2, c2) = dbg_write pkt_data c1 in
      if r2 = EOF then (EOF, c2)
      else case dbg_enc_hex 2 [dbg_checksum pkt_data] of
             None \<Rightarrow> (EOF, c2)
           | Some csum_hex \<Rightarrow>
               (let (r3, c3) = dbg_write (ch_hash # csum_hex) c2 in
                if r3 = EOF then (EOF, c3) else dbg_recv_ack c3))"

text \<open>
  The size of what a connection can still deliver. It shrinks with every character
  received, whatever the state of the buffer, and makes the receive loops terminate.
\<close>

definition conn_size :: "conn \<Rightarrow> nat" where
  "conn_size c = Suc (length (rxbuf c)) * sum_list (map (\<lambda>ch. Suc (length ch)) (rx_reads c))
     + (length (rxbuf c) - rxbuf_cur_idx c)"

lemma conn_size_refill:
  assumes "(l :: nat) \<le> n" "m' < m"
  shows "Suc n * m' + l < Suc n * m + k"
proof -
  have "Suc n * m' + l < Suc n * m' + Suc n"
    using assms by simp
  also have "\<dots> = Suc n * Suc m'"
    by simp
  also have "\<dots> \<le> Suc n * m"
    using assms(2) by (intro mult_le_mono) auto
  finally show ?thesis
    by simp
qed

lemma TcpServer_recv_size:
  assumes "TcpServer_recv n c = (ret, chunk, c1)"
  shows "rxbuf c1 = rxbuf c \<and> rxbuf_cur_idx c1 = rxbuf_cur_idx c \<and> length chunk = nat ret \<and> length chunk \<le> n \<and>
    sum_list (map (\<lambda>ch. Suc (length ch)) (rx_reads c1)) \<le> sum_list (map (\<lambda>ch. Suc (length ch)) (rx_reads c)) \<and>
    (ret > 0 \<longrightarrow> sum_list (map (\<lambda>ch. Suc (length ch)) (rx_reads c1)) < sum_list (map (\<lambda>ch. Suc (length ch)) (rx_reads c)))"
  using assms by (cases "rx_reads c") (auto simp: TcpServer_recv_def split: if_splits)

lemma getc_size:
  assumes "dbg_sys_getc c = (r, c')"
  shows "conn_size c' \<le> conn_size c" and "r \<noteq> EOF \<Longrightarrow> conn_size c' < conn_size c"
proof -
  obtain ret chunk c1 where recv: "TcpServer_recv RXBUF_SIZE c = (ret, chunk, c1)"
    by (metis prod_cases3)
  note size = TcpServer_recv_size [OF recv]
  have "conn_size c' \<le> conn_size c \<and> (r \<noteq> EOF \<longrightarrow> conn_size c' < conn_size c)"
  proof (cases "rxbuf_cur_idx c \<noteq> rxbuf_len c")
    case True
    then show ?thesis
      using assms by (auto simp: dbg_sys_getc_def conn_size_def peek_def split: if_splits)
  next
    case False
    show ?thesis
    proof (cases "ret > 0")
      case True
      define c2 where "c2 = c1\<lparr>rxbuf := poke (rxbuf c1) 0 chunk, rxbuf_cur_idx := 0, rxbuf_len := nat ret\<rparr>"
      have c': "c' = c2 \<or> c' = c2\<lparr>rxbuf_cur_idx := Suc 0\<rparr>"
        using assms recv False True by (auto simp: dbg_sys_getc_def Let_def c2_def split: option.splits)
      have "conn_size c2 < conn_size c"
        using size True
          conn_size_refill [of "length (rxbuf c)" "length (rxbuf c)"
            "sum_list (map (\<lambda>ch. Suc (length ch)) (rx_reads c1))"
            "sum_list (map (\<lambda>ch. Suc (length ch)) (rx_reads c))" "length (rxbuf c) - rxbuf_cur_idx c"]
        by (simp add: conn_size_def c2_def length_poke_le)
      moreover have "conn_size (c2\<lparr>rxbuf_cur_idx := Suc 0\<rparr>) \<le> conn_size c2"
        by (simp add: conn_size_def c2_def)
      ultimately show ?thesis
        using c' by auto
    next
      case ret: False
      then show ?thesis
        using assms recv False size
        by (auto simp: dbg_sys_getc_def conn_size_def intro!: add_mono mult_le_mono)
    qed
  qed
  then show "conn_size c' \<le> conn_size c" and "r \<noteq> EOF \<Longrightarrow> conn_size c' < conn_size c"
    by auto
qed

text \<open>Sending never touches the receive side.\<close>

definition same_rx :: "conn \<Rightarrow> conn \<Rightarrow> bool" where
  "same_rx c c' \<longleftrightarrow> rx_reads c' = rx_reads c \<and> rxbuf c' = rxbuf c \<and>
     rxbuf_cur_idx c' = rxbuf_cur_idx c \<and> rxbuf_len c' = rxbuf_len c"

lemma same_rx_refl [simp]: "same_rx c c"
  by (simp add: same_rx_def)

lemma same_rx_trans [trans]: "same_rx c c' \<Longrightarrow> same_rx c' c'' \<Longrightarrow> same_rx c c''"
  by (simp add: same_rx_def)

lemma putchar_same_rx: "dbg_sys_putchar b c = (r, c') \<Longrightarrow> same_rx c c'"
  by (auto simp: dbg_sys_putchar_def TcpServer_xmit_def same_rx_def Let_def split: list.splits if_splits)

lemma write_same_rx: "dbg_write bs c = (r, c') \<Longrightarrow> same_rx c c'"
proof (induction bs arbitrary: c)
  case (Cons b bs)
  obtain r1 c1 where put: "dbg_sys_putchar b c = (r1, c1)"
    by fastforce
  with Cons show ?case
    by (auto split: if_splits dest: putchar_same_rx intro: same_rx_trans)
qed simp

lemma same_rx_size: "same_rx c c' \<Longrightarrow> conn_size c' = conn_size c"
  by (simp add: same_rx_def conn_size_def)

lemma recv_ack_size: "dbg_recv_ack c = (r, c') \<Longrightarrow> conn_size c' \<le> conn_size c"
  using getc_size(1) [of c] by (auto simp: dbg_recv_ack_def Let_def split: prod.splits if_splits)

lemma send_packet_size: "dbg_send_packet d c = (r, c') \<Longrightarrow> conn_size c' \<le> conn_size c"
proof -
  assume send: "dbg_send_packet d c = (r, c')"
  obtain r1 c1 r2 c2 where 1: "dbg_sys_putchar ch_dollar c = (r1, c1)" and 2: "dbg_write d c1 = (r2, c2)"
    by fastforce
  obtain r3 c3 where 3: "dbg_write (ch_hash # concat (map hex_of_byte [dbg_checksum d])) c2 = (r3, c3)"
    by fastforce
  have "conn_size c3 = conn_size c" "conn_size c2 = conn_size c" "conn_size c1 = conn_size c"
    using 1 2 3 by (metis putchar_same_rx write_same_rx same_rx_size)+
  then show ?thesis
    using send 1 2 3 recv_ack_size [of c3]
    by (auto simp: dbg_send_packet_def dbg_enc_hex_fits split: if_splits)
qed

section \<open>Receiving a packet\<close>

text \<open>
  The first loop waits for the start of a packet; \<open>False\<close> is a return of \<open>EOF\<close>. The
  second stores the characters up to \<open>#\<close> in the buffer and returns the length, or
  \<open>None\<close> for \<open>EOF\<close>. The outer \<open>None\<close>, also of \<open>dbg_recv_packet\<close>, is a write
  outside the buffer.
\<close>

function recv_start :: "conn \<Rightarrow> bool \<times> conn" where
  "recv_start c =
     (let (data, c1) = dbg_sys_getc c in
      if data = EOF then (False, c1)
      else if data = uint ch_dollar then (True, c1)
      else recv_start c1)"
  by pat_completeness auto
termination
  by (relation "measure conn_size") (auto intro: getc_size(2) [OF sym])

function recv_body :: "byte list \<Rightarrow> nat \<Rightarrow> nat \<Rightarrow> conn \<Rightarrow> (nat option \<times> byte list \<times> conn) option" where
  "recv_body pkt_buf pkt_buf_len pkt_len c =
     (let (data, c1) = dbg_sys_getc c in
      if data = EOF then Some (None, pkt_buf, c1)
      else if data = uint ch_hash then Some (Some pkt_len, pkt_buf, c1)
      else if pkt_len \<ge> pkt_buf_len then Some (None, pkt_buf, c1)
      else case store pkt_buf pkt_len (word_of_int data) of
             None \<Rightarrow> None
           | Some pkt_buf \<Rightarrow> recv_body pkt_buf pkt_buf_len (Suc pkt_len) c1)"
  by pat_completeness auto
termination
  by (relation "measure (\<lambda>(b, l, n, c). conn_size c)") (auto intro: getc_size(2) [OF sym])

declare recv_start.simps [simp del] recv_body.simps [simp del]

definition dbg_recv_packet :: "byte list \<Rightarrow> nat \<Rightarrow> conn \<Rightarrow> (nat option \<times> byte list \<times> conn) option" where
  "dbg_recv_packet pkt_buf pkt_buf_len c =
     (let (started, c1) = recv_start c in
      if \<not> started then Some (None, pkt_buf, c1)
      else case recv_body pkt_buf pkt_buf_len 0 c1 of
        None \<Rightarrow> None
      | Some (None, pkt_buf1, c2) \<Rightarrow> Some (None, pkt_buf1, c2)
      | Some (Some pkt_len, pkt_buf1, c2) \<Rightarrow>
          (case dbg_read 2 2 c2 of
             (None, c3) \<Rightarrow> Some (None, pkt_buf1, c3)
           | (Some buf, c3) \<Rightarrow>
               (case dbg_dec_hex buf 1 of
                  None \<Rightarrow> Some (None, pkt_buf1, c3)
                | Some csum \<Rightarrow>
                    (let actual_csum = dbg_checksum (take pkt_len pkt_buf1) in
                     if csum \<noteq> [actual_csum]
                     then Some (None, pkt_buf1, snd (dbg_sys_putchar ch_minus c3))
                     else Some (Some pkt_len, pkt_buf1, snd (dbg_sys_putchar ch_plus c3))))))"

end
