(* ===== verification/Rsp_Stream.thy ===== *)
theory Rsp_Stream
  imports Rsp_Conn
begin

text \<open>
  What the packet layer promises, stated on streams. The receive buffer and the chunks the
  socket will deliver are one stream of bytes, in which \<open>None\<close> marks a read without
  data; \<open>dbg_sys_getc\<close> pops its head and \<open>dbg_sys_putchar\<close> appends to \<open>tx_out\<close>.
  The two contracts are locales; the functional correctness of sending and receiving
  packets rests on their interpretations.
\<close>

section \<open>Contracts of a character device\<close>

locale byte_source =
  fixes getc :: "'c \<Rightarrow> int \<times> 'c"
    and stream :: "'c \<Rightarrow> byte option list"
    and ok :: "'c \<Rightarrow> bool"
  assumes getc_data: "ok c \<Longrightarrow> stream c = Some b # s \<Longrightarrow> \<exists>c'. getc c = (uint b, c') \<and> stream c' = s \<and> ok c'"
    and getc_no_data: "ok c \<Longrightarrow> stream c = None # s \<Longrightarrow> \<exists>c'. getc c = (EOF, c') \<and> stream c' = s \<and> ok c'"
    and getc_empty: "ok c \<Longrightarrow> stream c = [] \<Longrightarrow> \<exists>c'. getc c = (EOF, c') \<and> stream c' = [] \<and> ok c'"
begin

lemma getc_tl: "ok c \<Longrightarrow> getc c = (r, c') \<Longrightarrow> stream c' = tl (stream c) \<and> ok c'"
  using getc_data getc_no_data getc_empty
  by (cases "stream c"; cases "hd (stream c)") fastforce+

lemma getc_EOF_iff: "ok c \<Longrightarrow> fst (getc c) = EOF \<longleftrightarrow> (\<forall>b s. stream c \<noteq> Some b # s)"
proof -
  assume ok: "ok c"
  have "uint b \<noteq> EOF" for b :: byte
    using unsigned_greater_eq [of b, where ?'a = int] by linarith
  then show ?thesis
    using getc_data [OF ok] getc_no_data [OF ok] getc_empty [OF ok]
    by (cases "stream c"; cases "hd (stream c)") fastforce+
qed

lemma getc_range: "ok c \<Longrightarrow> fst (getc c) = EOF \<or> 0 \<le> fst (getc c) \<and> fst (getc c) < 256"
  using getc_data getc_no_data getc_empty
  by (cases "stream c"; cases "hd (stream c)") fastforce+

lemma getc_shrinks: "ok c \<Longrightarrow> getc c = (r, c') \<Longrightarrow> r \<noteq> EOF \<Longrightarrow> length (stream c') < length (stream c)"
  using getc_EOF_iff [of c] getc_tl [of c r c'] by (cases "stream c") auto

end

locale byte_sink =
  fixes putc :: "byte \<Rightarrow> 'c \<Rightarrow> int \<times> 'c"
    and sent :: "'c \<Rightarrow> byte list"
    and up :: "'c \<Rightarrow> bool"
  assumes putc_sent: "up c \<Longrightarrow> \<exists>c'. putc b c = (sint b, c') \<and> sent c' = sent c @ [b] \<and> up c'"
begin

lemma putc_ok: "up c \<Longrightarrow> putc b c = (r, c') \<Longrightarrow> b \<noteq> - 1 \<Longrightarrow> r \<noteq> EOF \<and> sent c' = sent c @ [b] \<and> up c'"
proof -
  assume up: "up c" and put: "putc b c = (r, c')" and b: "b \<noteq> - 1"
  have "sint b \<noteq> sint (- 1 :: byte)"
    using b signed_word_eqI [of b "- 1"] by blast
  then show ?thesis
    using putc_sent [OF up, of b] put by auto
qed

end

section \<open>The connection implements them\<close>

definition conn_wf :: "conn \<Rightarrow> bool" where
  "conn_wf c \<longleftrightarrow> length (rxbuf c) = RXBUF_SIZE \<and> rxbuf_cur_idx c \<le> rxbuf_len c \<and> rxbuf_len c \<le> RXBUF_SIZE"

definition chunk_events :: "byte list \<Rightarrow> byte option list" where
  "chunk_events ch = (if ch = [] then [None] else map Some ch)"

definition in_stream :: "conn \<Rightarrow> byte option list" where
  "in_stream c = map Some (drop (rxbuf_cur_idx c) (take (rxbuf_len c) (rxbuf c)))
     @ concat (map chunk_events (rx_reads c))"

definition link_up :: "conn \<Rightarrow> bool" where
  "link_up c \<longleftrightarrow> list_all (\<lambda>r. r = 1) (tx_results c)"

text \<open>In a well-formed state the buffer is only read inside its valid part.\<close>

lemma getc_in_buffer:
  assumes "conn_wf c" and "rxbuf_cur_idx c \<noteq> rxbuf_len c"
  shows "dbg_sys_getc c = (uint (rxbuf c ! rxbuf_cur_idx c), c\<lparr>rxbuf_cur_idx := Suc (rxbuf_cur_idx c)\<rparr>)"
  using assms by (simp add: dbg_sys_getc_def conn_wf_def)

lemma in_stream_buffered:
  assumes "conn_wf c" and "rxbuf_cur_idx c \<noteq> rxbuf_len c"
  shows "in_stream c = Some (rxbuf c ! rxbuf_cur_idx c) # in_stream (c\<lparr>rxbuf_cur_idx := Suc (rxbuf_cur_idx c)\<rparr>)"
  using assms by (simp add: in_stream_def conn_wf_def Cons_nth_drop_Suc [symmetric])

lemma getc_refill:
  assumes "conn_wf c" and "rxbuf_cur_idx c = rxbuf_len c" and "rx_reads c = chunk # rest" and "chunk \<noteq> []"
  shows "\<exists>c'. dbg_sys_getc c = (uint (hd chunk), c') \<and> conn_wf c' \<and>
    in_stream c' = map Some (tl chunk) @ concat (map chunk_events rest)"
proof -
  define now where "now = take RXBUF_SIZE chunk"
  define later where "later = drop RXBUF_SIZE chunk"
  define rest' where "rest' = (if later = [] then rest else later # rest)"
  obtain x xs where now: "now = x # xs" and x: "hd chunk = x"
    using assms(4) by (cases chunk) (auto simp: now_def RXBUF_SIZE_def take_Cons')
  have chunk: "chunk = now @ later" and len: "length now \<le> RXBUF_SIZE"
    by (simp_all add: now_def later_def)
  have recv: "TcpServer_recv RXBUF_SIZE c = (int (length now), now, c\<lparr>rx_reads := rest'\<rparr>)"
    using assms(3) by (auto simp: TcpServer_recv_def now_def later_def rest'_def)
  have buf: "poke (rxbuf c) 0 now = now @ drop (length now) (rxbuf c)"
    using assms(1) len by (simp add: poke_at_0 conn_wf_def)
  define c' where "c' = c\<lparr>rx_reads := rest', rxbuf := now @ drop (length now) (rxbuf c),
    rxbuf_cur_idx := Suc 0, rxbuf_len := length now\<rparr>"
  have "dbg_sys_getc c = (uint x, c')"
    using assms(2) recv buf by (simp add: dbg_sys_getc_def c'_def now)
  moreover have "conn_wf c'"
    using assms(1) len by (simp add: conn_wf_def c'_def now)
  moreover have "in_stream c' = map Some (tl chunk) @ concat (map chunk_events rest)"
    using chunk by (simp add: in_stream_def c'_def now rest'_def chunk_events_def)
  ultimately show ?thesis
    using x by blast
qed

interpretation tcp: byte_source dbg_sys_getc in_stream conn_wf
proof unfold_locales
  fix c b s
  assume wf: "conn_wf c" and st: "in_stream c = Some b # s"
  show "\<exists>c'. dbg_sys_getc c = (uint b, c') \<and> in_stream c' = s \<and> conn_wf c'"
  proof (cases "rxbuf_cur_idx c = rxbuf_len c")
    case False
    then show ?thesis
      using st getc_in_buffer [OF wf False] in_stream_buffered [OF wf False] wf
      by (auto simp: conn_wf_def)
  next
    case True
    with st obtain chunk rest where "rx_reads c = chunk # rest" "chunk \<noteq> []"
      by (cases "rx_reads c") (auto simp: in_stream_def chunk_events_def split: if_splits)
    then show ?thesis
      using getc_refill [OF wf True, of chunk rest] st True
      by (cases chunk) (auto simp: in_stream_def chunk_events_def)
  qed
next
  fix c s
  assume wf: "conn_wf c" and st: "in_stream c = None # s"
  have idx: "rxbuf_cur_idx c = rxbuf_len c"
    using st in_stream_buffered [OF wf] by fastforce
  with st obtain rest where "rx_reads c = [] # rest"
    by (cases "rx_reads c"; cases "hd (rx_reads c)") (auto simp: in_stream_def chunk_events_def)
  then show "\<exists>c'. dbg_sys_getc c = (EOF, c') \<and> in_stream c' = s \<and> conn_wf c'"
    using wf idx st by (simp add: dbg_sys_getc_def TcpServer_recv_def in_stream_def chunk_events_def conn_wf_def)
next
  fix c
  assume wf: "conn_wf c" and st: "in_stream c = []"
  have idx: "rxbuf_cur_idx c = rxbuf_len c"
    using st in_stream_buffered [OF wf] by fastforce
  with st have "rx_reads c = []"
    by (cases "rx_reads c") (auto simp: in_stream_def chunk_events_def split: if_splits)
  then show "\<exists>c'. dbg_sys_getc c = (EOF, c') \<and> in_stream c' = [] \<and> conn_wf c'"
    using wf idx st by (simp add: dbg_sys_getc_def TcpServer_recv_def)
qed

interpretation tcp_out: byte_sink dbg_sys_putchar tx_out link_up
proof unfold_locales
  fix c b
  assume "link_up c"
  then show "\<exists>c'. dbg_sys_putchar b c = (sint b, c') \<and> tx_out c' = tx_out c @ [b] \<and> link_up c'"
    by (cases "tx_results c") (auto simp: dbg_sys_putchar_def TcpServer_xmit_def link_up_def)
qed

text \<open>The two directions do not disturb each other.\<close>

lemma getc_tx: "dbg_sys_getc c = (r, c') \<Longrightarrow> tx_out c' = tx_out c \<and> tx_results c' = tx_results c"
  by (auto simp: dbg_sys_getc_def TcpServer_recv_def Let_def split: list.splits option.splits if_splits)

lemma same_rx_stream: "same_rx c c' \<Longrightarrow> in_stream c' = in_stream c \<and> (conn_wf c' \<longleftrightarrow> conn_wf c)"
  by (simp add: same_rx_def in_stream_def conn_wf_def)

section \<open>Sending\<close>

definition same_tx :: "conn \<Rightarrow> conn \<Rightarrow> bool" where
  "same_tx c c' \<longleftrightarrow> tx_out c' = tx_out c \<and> tx_results c' = tx_results c"

lemma same_tx_refl [simp]: "same_tx c c"
  by (simp add: same_tx_def)

lemma same_tx_trans [trans]: "same_tx c c' \<Longrightarrow> same_tx c' c'' \<Longrightarrow> same_tx c c''"
  by (simp add: same_tx_def)

lemma same_tx_link_up: "same_tx c c' \<Longrightarrow> link_up c' \<longleftrightarrow> link_up c"
  by (simp add: same_tx_def link_up_def)

text \<open>The bytes of a packet on the wire, and the meaning of the next character as its acknowledgement.\<close>

definition frame :: "byte list \<Rightarrow> byte list" where
  "frame d = ch_dollar # d @ ch_hash # hex_of_byte (dbg_checksum d)"

definition ack_status :: "byte option list \<Rightarrow> int" where
  "ack_status s = (case s of Some b # _ \<Rightarrow> (if b = ch_plus then 0 else if b = ch_minus then 1 else EOF) | _ \<Rightarrow> EOF)"

lemma write_ok:
  assumes "link_up c" and "\<forall>b \<in> set bs. b \<noteq> - 1"
  shows "\<exists>c'. dbg_write bs c = (0, c') \<and> tx_out c' = tx_out c @ bs \<and> link_up c' \<and> same_rx c c'"
  using assms
proof (induction bs arbitrary: c)
  case (Cons b bs)
  obtain r1 c1 where put: "dbg_sys_putchar b c = (r1, c1)"
    by fastforce
  have ok: "r1 \<noteq> EOF" "tx_out c1 = tx_out c @ [b]" "link_up c1" "same_rx c c1"
    using tcp_out.putc_ok [OF _ put] putchar_same_rx [OF put] Cons.prems by auto
  obtain c' where "dbg_write bs c1 = (0, c')" "tx_out c' = tx_out c1 @ bs" "link_up c'" "same_rx c1 c'"
    using Cons.IH [OF ok(3)] Cons.prems(2) by auto
  then show ?case
    using put ok by (auto intro: same_rx_trans)
qed simp

lemma recv_ack_status:
  assumes "conn_wf c"
  shows "\<exists>c'. dbg_recv_ack c = (ack_status (in_stream c), c') \<and> in_stream c' = tl (in_stream c) \<and> conn_wf c' \<and> same_tx c c'"
proof -
  obtain r c' where get: "dbg_sys_getc c = (r, c')"
    by fastforce
  have rest: "in_stream c' = tl (in_stream c)" "conn_wf c'" "same_tx c c'"
    using tcp.getc_tl [OF assms get] getc_tx [OF get] by (auto simp: same_tx_def)
  show ?thesis
  proof (cases "\<exists>b s. in_stream c = Some b # s")
    case True
    then obtain b s where "in_stream c = Some b # s"
      by blast
    moreover from this have "r = uint b"
      using tcp.getc_data [OF assms] get by fastforce
    ultimately show ?thesis
      using get rest by (auto simp: dbg_recv_ack_def ack_status_def word_uint_eq_iff)
  next
    case False
    then have "r = EOF" "ack_status (in_stream c) = EOF"
      using tcp.getc_EOF_iff [OF assms] get by (auto simp: ack_status_def split: list.splits option.splits)
    then show ?thesis
      using get rest by (simp add: dbg_recv_ack_def)
  qed
qed

lemma send_packet_frame:
  assumes up: "link_up c" and wf: "conn_wf c" and d: "\<forall>b \<in> set d. b \<noteq> - 1"
  shows "\<exists>c'. dbg_send_packet d c = (ack_status (in_stream c), c') \<and> tx_out c' = tx_out c @ frame d \<and>
    in_stream c' = tl (in_stream c) \<and> link_up c' \<and> conn_wf c'"
proof -
  obtain r1 c1 where put: "dbg_sys_putchar ch_dollar c = (r1, c1)"
    by fastforce
  have 1: "r1 \<noteq> EOF" "tx_out c1 = tx_out c @ [ch_dollar]" "link_up c1" "same_rx c c1"
    using tcp_out.putc_ok [OF up put] putchar_same_rx [OF put] by auto
  obtain c2 where 2: "dbg_write d c1 = (0, c2)" "tx_out c2 = tx_out c1 @ d" "link_up c2" "same_rx c1 c2"
    using write_ok [OF 1(3) d] by blast
  have "\<forall>b \<in> set (ch_hash # hex_of_byte (dbg_checksum d)). b \<noteq> - 1"
    using set_hex_of_byte digits_not_special by fastforce
  then obtain c3 where 3: "dbg_write (ch_hash # hex_of_byte (dbg_checksum d)) c2 = (0, c3)"
    "tx_out c3 = tx_out c2 @ ch_hash # hex_of_byte (dbg_checksum d)" "link_up c3" "same_rx c2 c3"
    using write_ok [OF 2(3)] by blast
  have rx: "in_stream c3 = in_stream c" "conn_wf c3"
    using 1(4) 2(4) 3(4) wf same_rx_stream by metis+
  obtain c' where "dbg_recv_ack c3 = (ack_status (in_stream c), c')" "in_stream c' = tl (in_stream c)"
    "conn_wf c'" "same_tx c3 c'"
    using recv_ack_status [OF rx(2)] rx(1) by auto
  then show ?thesis
    using put 1(1) 2(1) 3(1) 1(2) 2(2) 3(2) 3(3)
    by (auto simp: dbg_send_packet_def dbg_enc_hex_fits frame_def same_tx_def link_up_def)
qed

section \<open>Receiving\<close>

text \<open>One step of the receive loops, on a stream with data and on one without.\<close>

lemma getc_step:
  assumes "conn_wf c" and "in_stream c = Some b # s"
  obtains c' where "dbg_sys_getc c = (uint b, c')" "in_stream c' = s" "conn_wf c'" "same_tx c c'"
  using tcp.getc_data [OF assms] getc_tx by (auto simp: same_tx_def)

lemma getc_stop:
  assumes "conn_wf c" and "s = [] \<or> hd s = None" and "in_stream c = s"
  obtains c' where "dbg_sys_getc c = (EOF, c')" "in_stream c' = tl s" "conn_wf c'" "same_tx c c'"
  using assms tcp.getc_no_data [of c "tl s"] tcp.getc_empty [of c] getc_tx
  by (cases s) (auto simp: same_tx_def)

lemma uint_byte_not_EOF [simp]: "uint (b :: byte) \<noteq> EOF"
  using unsigned_greater_eq [of b, where ?'a = int] by linarith

lemma uint_eq_ch: "uint (b :: byte) = uint c \<longleftrightarrow> b = c"
  by (simp add: word_uint_eq_iff)

lemma recv_start_found:
  "conn_wf c \<Longrightarrow> in_stream c = map Some junk @ Some ch_dollar # s \<Longrightarrow> ch_dollar \<notin> set junk \<Longrightarrow>
    \<exists>c'. recv_start c = (True, c') \<and> in_stream c' = s \<and> conn_wf c' \<and> same_tx c c'"
proof (induction junk arbitrary: c)
  case Nil
  then show ?case
    by (auto simp: recv_start.simps [of c] elim!: getc_step [of c])
next
  case (Cons b junk)
  from Cons.prems obtain c1 where c1: "dbg_sys_getc c = (uint b, c1)" "conn_wf c1" "same_tx c c1"
    "in_stream c1 = map Some junk @ Some ch_dollar # s"
    by (auto elim: getc_step [of c])
  obtain c' where "recv_start c1 = (True, c')" "in_stream c' = s" "conn_wf c'" "same_tx c1 c'"
    using Cons.IH [OF c1(2) c1(4)] Cons.prems(3) by auto
  moreover have "uint b \<noteq> uint ch_dollar"
    using Cons.prems(3) unfolding uint_eq_ch by auto
  ultimately show ?case
    using c1 by (auto simp: recv_start.simps [of c] intro: same_tx_trans)
qed

lemma recv_start_none:
  "conn_wf c \<Longrightarrow> in_stream c = map Some junk @ s \<Longrightarrow> s = [] \<or> hd s = None \<Longrightarrow> ch_dollar \<notin> set junk \<Longrightarrow>
    \<exists>c'. recv_start c = (False, c') \<and> in_stream c' = tl s \<and> conn_wf c' \<and> same_tx c c'"
proof (induction junk arbitrary: c)
  case Nil
  obtain c' where "dbg_sys_getc c = (EOF, c')" "in_stream c' = tl s" "conn_wf c'" "same_tx c c'"
    using getc_stop [of c s] Nil by auto
  then show ?case
    by (simp add: recv_start.simps [of c])
next
  case (Cons b junk)
  from Cons.prems obtain c1 where c1: "dbg_sys_getc c = (uint b, c1)" "conn_wf c1" "same_tx c c1"
    "in_stream c1 = map Some junk @ s"
    by (auto elim: getc_step [of c])
  obtain c' where "recv_start c1 = (False, c')" "in_stream c' = tl s" "conn_wf c'" "same_tx c1 c'"
    using Cons.IH [OF c1(2) c1(4)] Cons.prems(3,4) by auto
  moreover have "uint b \<noteq> uint ch_dollar"
    using Cons.prems(4) unfolding uint_eq_ch by auto
  ultimately show ?case
    using c1 by (auto simp: recv_start.simps [of c] intro: same_tx_trans)
qed

lemma recv_body_data:
  "conn_wf c \<Longrightarrow> in_stream c = map Some d @ s \<Longrightarrow> ch_hash \<notin> set d \<Longrightarrow> n + length d \<le> lim \<Longrightarrow>
    lim \<le> length buf \<Longrightarrow>
    \<exists>c'. recv_body buf lim n c = recv_body (take n buf @ d @ drop (n + length d) buf) lim (n + length d) c' \<and>
      in_stream c' = s \<and> conn_wf c' \<and> same_tx c c'"
proof (induction d arbitrary: c n buf)
  case Nil
  then show ?case
    by (auto intro!: exI [of _ c])
next
  case (Cons b d)
  from Cons.prems obtain c1 where c1: "dbg_sys_getc c = (uint b, c1)" "conn_wf c1" "same_tx c c1"
    "in_stream c1 = map Some d @ s"
    by (auto elim: getc_step [of c])
  define buf1 where "buf1 = buf[n := b]"
  have buf1: "buf1 = take n buf @ b # drop (Suc n) buf" "length buf1 = length buf"
    using Cons.prems by (simp_all add: buf1_def upd_conv_take_nth_drop)
  obtain c' where c': "recv_body buf1 lim (Suc n) c1 =
      recv_body (take (Suc n) buf1 @ d @ drop (Suc n + length d) buf1) lim (Suc n + length d) c'"
    "in_stream c' = s" "conn_wf c'" "same_tx c1 c'"
    using Cons.IH [OF c1(2) c1(4), of "Suc n" buf1] Cons.prems buf1 by auto
  have "take (Suc n) buf1 @ d @ drop (Suc n + length d) buf1 = take n buf @ (b # d) @ drop (n + length (b # d)) buf"
    using Cons.prems by (simp add: buf1 min_absorb2 take_Suc_conv_app_nth nth_append add.commute)
  moreover have "uint b \<noteq> uint ch_hash"
    using Cons.prems(3) unfolding uint_eq_ch by auto
  moreover have "recv_body buf lim n c = recv_body buf1 lim (Suc n) c1"
    using c1 \<open>uint b \<noteq> uint ch_hash\<close> Cons.prems(4)
    by (subst recv_body.simps) (use Cons.prems(5) in \<open>simp add: buf1_def store_def\<close>)
  ultimately show ?case
    using c' c1(3) by (auto intro: same_tx_trans)
qed

lemma dbg_read_2:
  assumes "conn_wf c" and "in_stream c = Some a # Some b # s" and "a \<noteq> - 1" and "b \<noteq> - 1"
  shows "\<exists>c'. dbg_read 2 2 c = (Some [a, b], c') \<and> in_stream c' = s \<and> conn_wf c' \<and> same_tx c c'"
proof -
  obtain c1 where c1: "dbg_sys_getc c = (uint a, c1)" "in_stream c1 = Some b # s" "conn_wf c1" "same_tx c c1"
    using getc_step [OF assms(1,2)] by blast
  obtain c2 where c2: "dbg_sys_getc c1 = (uint b, c2)" "in_stream c2 = s" "conn_wf c2" "same_tx c1 c2"
    using getc_step [OF c1(3,2)] by blast
  have "sint a \<noteq> EOF" "sint b \<noteq> EOF"
    using assms(3,4) signed_word_eqI [of a "- 1"] signed_word_eqI [of b "- 1"] by auto
  then show ?thesis
    using c1 c2 by (auto simp: dbg_read_def numeral_2_eq_2 intro: same_tx_trans)
qed

text \<open>A packet up to its checksum digits, after which the outcome is decided.\<close>

lemma recv_packet_checksum:
  assumes wf: "conn_wf c"
    and st: "in_stream c = map Some (junk @ ch_dollar # d @ [ch_hash, h, l]) @ s"
    and junk: "ch_dollar \<notin> set junk" and d: "ch_hash \<notin> set d"
    and fits: "length d \<le> lim" "lim \<le> length buf" and hl: "is_hex_char h" "is_hex_char l"
  obtains c' x where "dbg_dec_hex [h, l] 1 = Some [x]" "in_stream c' = s" "conn_wf c'" "same_tx c c'"
    "dbg_recv_packet buf lim c =
      (if x \<noteq> dbg_checksum d
       then Some (None, d @ drop (length d) buf, snd (dbg_sys_putchar ch_minus c'))
       else Some (Some (length d), d @ drop (length d) buf, snd (dbg_sys_putchar ch_plus c')))"
proof -
  obtain c1 where c1: "recv_start c = (True, c1)" "conn_wf c1" "same_tx c c1"
    "in_stream c1 = map Some d @ Some ch_hash # Some h # Some l # s"
    using recv_start_found [OF wf, of junk] st junk by auto
  obtain c2 where c2: "recv_body buf lim 0 c1 = recv_body (d @ drop (length d) buf) lim (length d) c2"
    "in_stream c2 = Some ch_hash # Some h # Some l # s" "conn_wf c2" "same_tx c1 c2"
    using recv_body_data [OF c1(2) c1(4) d, of 0 lim buf] fits by auto
  obtain c3 where c3: "dbg_sys_getc c2 = (uint ch_hash, c3)" "in_stream c3 = Some h # Some l # s"
    "conn_wf c3" "same_tx c2 c3"
    using getc_step [OF c2(3,2)] by blast
  have "h \<noteq> - 1" "l \<noteq> - 1"
    using hl by (auto simp: is_hex_char_def dbg_get_val_def)
  then obtain c4 where c4: "dbg_read 2 2 c3 = (Some [h, l], c4)" "in_stream c4 = s" "conn_wf c4" "same_tx c3 c4"
    using dbg_read_2 [OF c3(3,2)] by blast
  obtain x where x: "dbg_dec_hex [h, l] 1 = Some [x]"
    using hl by (simp add: dbg_dec_hex_def is_hex_char_def numeral_eq_Suc)
  have body: "recv_body buf lim 0 c1 = Some (Some (length d), d @ drop (length d) buf, c3)"
    using c2(1) c3(1) by (subst (asm) (2) recv_body.simps) simp
  have "same_tx c c4"
    using c1(3) c2(4) c3(4) c4(4) by (blast intro: same_tx_trans)
  then show thesis
    using c4 x body c1(1)
    by (intro that [of x c4]) (simp_all add: dbg_recv_packet_def)
qed

text \<open>Whatever arrives, the packet buffer is only written inside its bounds.\<close>

lemma recv_body_bounds:
  "lim \<le> length buf \<Longrightarrow> \<exists>r buf' c'. recv_body buf lim n c = Some (r, buf', c') \<and> length buf' = length buf \<and>
     drop lim buf' = drop lim buf \<and> (\<forall>m. r = Some m \<longrightarrow> m \<le> max n lim)"
proof (induction buf lim n c rule: recv_body.induct)
  case (1 buf lim n c)
  obtain data c1 where get: "dbg_sys_getc c = (data, c1)"
    by fastforce
  consider "data = EOF" | "data \<noteq> EOF" "data = uint ch_hash" | "data \<noteq> EOF" "data \<noteq> uint ch_hash" "lim \<le> n"
    | "data \<noteq> EOF" "data \<noteq> uint ch_hash" "n < lim"
    by linarith
  then show ?case
  proof cases
    case 4
    let ?buf = "buf[n := word_of_int data]"
    have store: "store buf n (word_of_int data) = Some ?buf"
      using 4 "1.prems" by (simp add: store_def)
    have "recv_body buf lim n c = recv_body ?buf lim (Suc n) c1"
      using 4 get store by (subst recv_body.simps) simp
    with "1.IH" [OF get [symmetric] refl 4(1,2) _ store] show ?thesis
      using 4 "1.prems" by auto
  qed (use "1.prems" get in \<open>auto simp: recv_body.simps [of buf lim n c]\<close>)
qed

lemma recv_packet_bounds:
  assumes "lim \<le> length buf"
  shows "\<exists>r buf' c'. dbg_recv_packet buf lim c = Some (r, buf', c') \<and> length buf' = length buf \<and>
    drop lim buf' = drop lim buf \<and> (\<forall>m. r = Some m \<longrightarrow> m \<le> lim)"
proof -
  obtain ok c1 where 1: "recv_start c = (ok, c1)"
    by fastforce
  obtain r2 buf2 c2 where 2: "recv_body buf lim 0 c1 = Some (r2, buf2, c2)" "length buf2 = length buf"
    "drop lim buf2 = drop lim buf" "\<forall>m. r2 = Some m \<longrightarrow> m \<le> lim"
    using recv_body_bounds [OF assms, of 0 c1] by auto
  then show ?thesis
    using 1 by (auto simp: dbg_recv_packet_def Let_def split: option.split prod.split)
qed

section \<open>Properties of the packet layer\<close>

lemma conn_open_wf [simp]: "conn_wf (conn_open reads results)"
  by (simp add: conn_open_def conn_wf_def)

lemma conn_open_stream [simp]: "in_stream (conn_open reads results) = concat (map chunk_events reads)"
  by (simp add: conn_open_def in_stream_def)

lemma conn_open_tx [simp]: "tx_out (conn_open reads results) = []"
  by (simp add: conn_open_def)

lemma conn_open_link [simp]: "link_up (conn_open reads [])"
  by (simp add: conn_open_def link_up_def)

lemma hex_of_byte_chars: "hex_of_byte x = [h, l] \<Longrightarrow> is_hex_char h \<and> is_hex_char l"
  using set_hex_of_byte [of x] digits_are_hex by (auto simp: is_hex_char_def)

lemma hex_of_byte_pair: obtains h l where "hex_of_byte x = [h, l]" "is_hex_char h" "is_hex_char l"
    "dbg_dec_hex [h, l] 1 = Some [x]"
proof -
  obtain h l where hl: "hex_of_byte x = [h, l]"
    by (simp add: hex_of_byte_def)
  then show thesis
    using that [OF hl] hex_of_byte_chars [OF hl] dbg_dec_hex_concat [of "[x]"] by simp
qed

text \<open>
  C18: what is sent is received. The bytes that \<open>dbg_send_packet\<close> puts on the wire, cut into
  socket reads in any way and preceded by any characters but \<open>$\<close>, make
  \<open>dbg_recv_packet\<close> return exactly the packet data and its length, acknowledge it with
  \<open>+\<close> and leave what follows in the stream.
\<close>
theorem packet_roundtrip:
  assumes "link_up a" "conn_wf a" "\<forall>b \<in> set d. b \<noteq> - 1" "ch_hash \<notin> set d"
    and "dbg_send_packet d a = (r, a')" "tx_out a' = tx_out a @ w"
    and "link_up b" "conn_wf b" "in_stream b = map Some (junk @ w) @ s" "ch_dollar \<notin> set junk"
    and "length d \<le> lim" "lim \<le> length buf"
  shows "\<exists>b'. dbg_recv_packet buf lim b = Some (Some (length d), d @ drop (length d) buf, b') \<and>
    tx_out b' = tx_out b @ [ch_plus] \<and> in_stream b' = s \<and> conn_wf b' \<and> link_up b'"
proof -
  have w: "w = frame d"
    using send_packet_frame [OF assms(1-3)] assms(5,6) by auto
  obtain h l where hl: "hex_of_byte (dbg_checksum d) = [h, l]" "is_hex_char h" "is_hex_char l"
    and dec: "dbg_dec_hex [h, l] 1 = Some [dbg_checksum d]"
    by (rule hex_of_byte_pair)
  have st: "in_stream b = map Some (junk @ ch_dollar # d @ [ch_hash, h, l]) @ s"
    using assms(9) by (simp add: w frame_def hl)
  obtain c' where c': "in_stream c' = s" "conn_wf c'" "same_tx b c'"
    "dbg_recv_packet buf lim b = Some (Some (length d), d @ drop (length d) buf, snd (dbg_sys_putchar ch_plus c'))"
    using recv_packet_checksum [OF assms(8) st assms(10) assms(4) assms(11,12) hl(2,3)] dec by auto
  obtain r'' b'' where put: "dbg_sys_putchar ch_plus c' = (r'', b'')"
    by fastforce
  have "link_up c'"
    using c'(3) assms(7) by (simp add: same_tx_link_up)
  then have "tx_out b'' = tx_out c' @ [ch_plus]" "link_up b''"
    using tcp_out.putc_ok [OF _ put] by auto
  then show ?thesis
    using c' put same_rx_stream [OF putchar_same_rx [OF put]] by (auto simp: same_tx_def)
qed

theorem packet_roundtrip_witness:
  "\<exists>b'. dbg_recv_packet (replicate 4 0) 4 (conn_open [[0x2b, 0x24], [0x4f, 0x4b, 0x23, 0x39, 0x61, 0x24]] []) =
      Some (Some 2, [0x4f, 0x4b] @ replicate 2 0, b') \<and> tx_out b' = [ch_plus] \<and> in_stream b' = [Some ch_dollar]"
proof -
  obtain r a' where send: "dbg_send_packet [0x4f, 0x4b] (conn_open [] []) = (r, a')"
    by fastforce
  have w: "tx_out a' = tx_out (conn_open [] []) @ [0x24, 0x4f, 0x4b, 0x23, 0x39, 0x61]"
    using send_packet_frame [of "conn_open [] []" "[0x4f, 0x4b]"] send
    by (auto simp: frame_def dbg_checksum_def hex_of_byte_eq dbg_get_digit_def digits_def)
  show ?thesis
    using packet_roundtrip [OF _ _ _ _ send w, of "conn_open [[0x2b, 0x24], [0x4f, 0x4b, 0x23, 0x39, 0x61, 0x24]] []"
        "[0x2b]" "[Some ch_dollar]" 4 "replicate 4 0"]
    by (auto simp: chunk_events_def)
qed

text \<open>
  Corruption of a packet is detected. A packet in which one character was changed (and is
  not \<open>#\<close>) is refused: \<open>dbg_recv_packet\<close> returns \<open>EOF\<close> and sends \<open>-\<close>.
\<close>
theorem corrupted_packet_refused:
  assumes "link_up c" "conn_wf c" "y \<noteq> x" "ch_hash \<notin> set (d1 @ y # d2)" "ch_dollar \<notin> set junk"
    and "in_stream c = map Some (junk @ ch_dollar # (d1 @ y # d2) @ ch_hash # hex_of_byte (dbg_checksum (d1 @ x # d2))) @ s"
    and "length (d1 @ y # d2) \<le> lim" "lim \<le> length buf"
  shows "\<exists>buf' c'. dbg_recv_packet buf lim c = Some (None, buf', c') \<and> tx_out c' = tx_out c @ [ch_minus] \<and> in_stream c' = s"
proof -
  obtain h l where hl: "hex_of_byte (dbg_checksum (d1 @ x # d2)) = [h, l]" "is_hex_char h" "is_hex_char l"
    and dec: "dbg_dec_hex [h, l] 1 = Some [dbg_checksum (d1 @ x # d2)]"
    by (rule hex_of_byte_pair)
  have ne: "dbg_checksum (d1 @ x # d2) \<noteq> dbg_checksum (d1 @ y # d2)"
    using assms(3) by (simp add: dbg_checksum_single)
  have st: "in_stream c = map Some (junk @ ch_dollar # (d1 @ y # d2) @ [ch_hash, h, l]) @ s"
    using assms(6) by (simp add: hl)
  obtain c' where c': "in_stream c' = s" "conn_wf c'" "same_tx c c'"
    "\<exists>buf'. dbg_recv_packet buf lim c = Some (None, buf', snd (dbg_sys_putchar ch_minus c'))"
    using recv_packet_checksum [OF assms(2) st assms(5,4,7,8) hl(2,3)] dec ne
    by (metis (no_types) list.inject option.inject)
  obtain r'' b'' where put: "dbg_sys_putchar ch_minus c' = (r'', b'')"
    by fastforce
  have "tx_out b'' = tx_out c' @ [ch_minus]"
    using tcp_out.putc_ok [OF _ put] c'(3) assms(1) by (simp add: same_tx_link_up)
  then show ?thesis
    using c' put same_rx_stream [OF putchar_same_rx [OF put]] by (auto simp: same_tx_def)
qed

theorem corrupted_packet_refused_witness:
  "\<exists>buf' c'. dbg_recv_packet (replicate 4 0) 4 (conn_open [[0x24, 0x4f, 0x4c, 0x23, 0x39, 0x61]] []) = Some (None, buf', c') \<and>
     tx_out c' = [ch_minus]"
proof -
  have "\<exists>buf' c'. dbg_recv_packet (replicate 4 0) 4 (conn_open [[0x24, 0x4f, 0x4c, 0x23, 0x39, 0x61]] []) = Some (None, buf', c') \<and>
     tx_out c' = tx_out (conn_open [[0x24, 0x4f, 0x4c, 0x23, 0x39, 0x61]] []) @ [ch_minus] \<and> in_stream c' = []"
    by (rule corrupted_packet_refused [where junk = "[]" and ?d1.0 = "[0x4f]" and x = "0x4b" and y = "0x4c" and ?d2.0 = "[]"])
      (simp_all add: chunk_events_def dbg_checksum_def hex_of_byte_eq dbg_get_digit_def digits_def)
  then show ?thesis
    by auto
qed

text \<open>
  The reply to a command is one packet. With the link up \<open>dbg_send_packet\<close> sends exactly
  \<open>$data#checksum\<close>, consumes one character of the input, and returns 0 for \<open>+\<close>, 1 for
  \<open>-\<close> and \<open>EOF\<close> for anything else.
\<close>
theorem send_packet_result:
  assumes "link_up c" and "conn_wf c" and "\<forall>b \<in> set d. b \<noteq> - 1"
  shows "\<exists>c'. dbg_send_packet d c = (ack_status (in_stream c), c') \<and>
    tx_out c' = tx_out c @ ch_dollar # d @ ch_hash # hex_of_byte (dbg_checksum d) \<and>
    in_stream c' = tl (in_stream c) \<and> link_up c' \<and> conn_wf c'"
  using send_packet_frame [OF assms] by (simp add: frame_def)

theorem send_packet_result_witness:
  "\<exists>c'. dbg_send_packet [0x4f, 0x4b] (conn_open [[0x2d]] []) = (1, c') \<and>
    tx_out c' = [0x24, 0x4f, 0x4b, 0x23, 0x39, 0x61] \<and> in_stream c' = []"
  using send_packet_result [of "conn_open [[0x2d]] []" "[0x4f, 0x4b]"]
  by (auto simp: chunk_events_def ack_status_def dbg_checksum_def hex_of_byte_eq dbg_get_digit_def digits_def)

text \<open>
  C31: the packet buffer is never overrun, whatever the peer sends and however the socket
  behaves: no character is stored outside the buffer, the bytes behind the first \<open>lim\<close> are left
  alone, and a length is only returned that fits.
\<close>
theorem recv_packet_in_bounds:
  assumes "lim \<le> length buf"
  shows "\<exists>r buf' c'. dbg_recv_packet buf lim c = Some (r, buf', c') \<and> length buf' = length buf \<and>
    drop lim buf' = drop lim buf \<and> (case r of None \<Rightarrow> True | Some n \<Rightarrow> n \<le> lim)"
  using recv_packet_bounds [OF assms, of c] by (auto split: option.split)

theorem recv_packet_in_bounds_witness:
  "\<exists>r buf' c'. dbg_recv_packet (replicate 3 7) 2 (conn_open [[0x24, 1, 2, 3, 4]] []) = Some (r, buf', c') \<and>
     length buf' = 3 \<and> drop 2 buf' = [7]"
  using recv_packet_in_bounds [of 2 "replicate 3 7" "conn_open [[0x24, 1, 2, 3, 4]] []"] by (auto simp: numeral_eq_Suc)

end
