(* ===== verification/Gdb_Sys.thy ===== *)
theory Gdb_Sys
  imports Mem_Trace Reg_File_Trace Rsp_Stream
begin

text \<open>
  The target side of the stub (\<open>src/gdbstub_sys.cc\<close>, \<open>src/gdbstub_sys.h\<close>): the debugged
  "machine" is the position of an iterator in the instruction trace. Continue and step move
  the iterator, the registers and the memory are queries of the traces at the time of the
  instruction the iterator points to.

  The statics of the file are one record. Reading through the iterator at \<open>end ()\<close> and
  moving it before \<open>begin ()\<close> are undefined in C++; both are the error \<open>DerefEnd\<close> here.
\<close>

section \<open>State\<close>

record dbg_state =
  signum :: "32 word"
  registers :: "u32 list"

record dbg_sys =
  tcpServer :: conn
  cpuTrace :: CpuTrace
  sys_regs :: RegFileTrace
  sys_mem :: MemTrace
  dbg_state :: dbg_state
  breakpoints :: "u32 \<rightharpoonup> bool"

abbreviation DBG_CPU_RISCV_PC :: nat where "DBG_CPU_RISCV_PC \<equiv> 32"
abbreviation DBG_CPU_RISCV_NUM_REGISTERS :: nat where "DBG_CPU_RISCV_NUM_REGISTERS \<equiv> 33"

definition pc_it :: "dbg_sys \<Rightarrow> nat" where
  "pc_it s = pcTraceIt (cpuTrace s)"

definition pcs :: "dbg_sys \<Rightarrow> PcValue list" where
  "pcs s = pcTrace (cpuTrace s)"

definition set_it :: "nat \<Rightarrow> dbg_sys \<Rightarrow> dbg_sys" where
  "set_it k s = s\<lparr>cpuTrace := (cpuTrace s)\<lparr>pcTraceIt := k\<rparr>\<rparr>"

definition deref_it :: "dbg_sys \<Rightarrow> cxx_error + PcValue" where
  "deref_it s = (if pc_it s < length (pcs s) then Inr (pcs s ! pc_it s) else Inl DerefEnd)"

definition before_end :: "dbg_sys \<Rightarrow> cxx_error + nat" where
  "before_end s = (if pcs s = [] then Inl DerefEnd else Inr (length (pcs s) - 1))"

section \<open>Operations\<close>

text \<open>\<open>dbg_sys_update_state\<close>: a register the trace has not written by now keeps the value it had.\<close>

definition update_registers :: "RegFileTrace \<Rightarrow> u64 \<Rightarrow> u32 list \<Rightarrow> u32 list" where
  "update_registers rt time regs =
     foldl (\<lambda>regs i. case RegFileTrace_getValue rt 0 time (word_of_nat i) of
                       None \<Rightarrow> regs | Some v \<Rightarrow> regs[i := ucast v]) regs [0..<32]"

definition dbg_sys_update_state :: "dbg_sys \<Rightarrow> cxx_error + dbg_sys" where
  "dbg_sys_update_state s =
     (case deref_it s of
        Inl e \<Rightarrow> Inl e
      | Inr p \<Rightarrow>
          Inr (s\<lparr>dbg_state := (dbg_state s)\<lparr>registers :=
                (update_registers (sys_regs s) (pv_time p) (registers (dbg_state s)))[DBG_CPU_RISCV_PC := ucast (pv_pc p)]\<rparr>\<rparr>))"

text \<open>\<open>dbg_sys_init\<close> up to the loop over \<open>dbg_main\<close>.\<close>

definition dbg_sys_init_state :: "dbg_sys \<Rightarrow> cxx_error + dbg_sys" where
  "dbg_sys_init_state s =
     dbg_sys_update_state
       ((set_it 0 s)\<lparr>dbg_state := (dbg_state s)\<lparr>registers := replicate 32 0xdeadbeef @ drop 32 (registers (dbg_state s))\<rparr>\<rparr>)"

definition dbg_sys_mem_readb :: "dbg_sys \<Rightarrow> u32 \<Rightarrow> cxx_error + (int \<times> byte)" where
  "dbg_sys_mem_readb s addr =
     (case deref_it s of Inl e \<Rightarrow> Inl e | Inr p \<Rightarrow> Inr (0, snd (MemTrace_getValue (sys_mem s) (pv_time p) (ucast addr))))"

definition dbg_sys_mem_writeb :: "dbg_sys \<Rightarrow> u32 \<Rightarrow> byte \<Rightarrow> cxx_error + (int \<times> dbg_sys)" where
  "dbg_sys_mem_writeb s addr v = Inr (0, s)"

definition print_pc :: "dbg_sys \<Rightarrow> cxx_error + unit" where
  "print_pc s = (case deref_it s of Inl e \<Rightarrow> Inl e | Inr _ \<Rightarrow> Inr ())"

text \<open>The loop of \<open>dbg_sys_continue\<close>: the address compared is the program counter cut to 32 bits.\<close>

function continue_loop :: "(u32 \<rightharpoonup> bool) \<Rightarrow> PcValue list \<Rightarrow> nat \<Rightarrow> nat" where
  "continue_loop bps trace it =
     (if it < length trace then
        (if bps (ucast (pv_pc (trace ! it))) \<noteq> None then it else continue_loop bps trace (it + 1))
      else it)"
  by pat_completeness auto
termination
  by (relation "measure (\<lambda>(bps, trace, it). length trace - it)") auto

declare continue_loop.simps [simp del]

definition dbg_sys_continue :: "dbg_sys \<Rightarrow> cxx_error + (int \<times> dbg_sys)" where
  "dbg_sys_continue s =
     (let it = continue_loop (breakpoints s) (pcs s) (pc_it s)
      in case (if it = length (pcs s) then before_end s else Inr it) of
           Inl e \<Rightarrow> Inl e
         | Inr it1 \<Rightarrow>
             (let s1 = set_it it1 s
              in case print_pc s1 of
                   Inl e \<Rightarrow> Inl e
                 | Inr _ \<Rightarrow>
                     (case dbg_sys_update_state (s1\<lparr>dbg_state := (dbg_state s1)\<lparr>signum := 5\<rparr>\<rparr>) of
                        Inl e \<Rightarrow> Inl e | Inr s2 \<Rightarrow> Inr (0, s2))))"

definition dbg_sys_step :: "dbg_sys \<Rightarrow> cxx_error + (int \<times> dbg_sys)" where
  "dbg_sys_step s =
     (let s1 = (if pc_it s \<noteq> length (pcs s) then set_it (pc_it s + 1) s else s)
      in if pc_it s1 = length (pcs s1) then
           (case before_end s1 of Inl e \<Rightarrow> Inl e | Inr it \<Rightarrow> Inr (- 1, set_it it s1))
         else
           (let s2 = s1\<lparr>dbg_state := (dbg_state s1)\<lparr>signum := 5\<rparr>\<rparr>
            in case print_pc s2 of
                 Inl e \<Rightarrow> Inl e
               | Inr _ \<Rightarrow> (case dbg_sys_update_state s2 of Inl e \<Rightarrow> Inl e | Inr s3 \<Rightarrow> Inr (0, s3))))"

definition dbg_sys_restart :: "dbg_sys \<Rightarrow> cxx_error + (int \<times> dbg_sys)" where
  "dbg_sys_restart s = Inr (0, set_it 0 s)"

definition dbg_sys_add_breakpoint :: "u32 \<Rightarrow> dbg_sys \<Rightarrow> cxx_error + (int \<times> dbg_sys)" where
  "dbg_sys_add_breakpoint addr s =
     (if breakpoints s addr = None then Inr (0, s\<lparr>breakpoints := (breakpoints s)(addr \<mapsto> True)\<rparr>) else Inr (0, s))"

definition dbg_sys_delete_breakpoint :: "u32 \<Rightarrow> dbg_sys \<Rightarrow> cxx_error + (int \<times> dbg_sys)" where
  "dbg_sys_delete_breakpoint addr s =
     (if breakpoints s addr \<noteq> None then Inr (0, s\<lparr>breakpoints := (breakpoints s)(addr := None)\<rparr>) else Inr (0, s))"

section \<open>Registers\<close>

lemma getValue_junk: "RegFileTrace_getValue rt junk t a = RegFileTrace_getValue rt 0 t a"
  by (simp add: RegFileTrace_getValue_def reglog.scan_replay_prefix reglog.as_result_def split: option.splits)

lemma update_registers_nth:
  assumes "length regs = 33"
  shows "length (update_registers rt t regs) = 33"
    and "i < 33 \<Longrightarrow> update_registers rt t regs ! i =
      (if i < 32 then (case RegFileTrace_getValue rt 0 t (word_of_nat i) of None \<Rightarrow> regs ! i | Some v \<Rightarrow> ucast v) else regs ! i)"
proof -
  define f where "f = (\<lambda>regs i. case RegFileTrace_getValue rt 0 t (word_of_nat i) of None \<Rightarrow> regs | Some v \<Rightarrow> regs[i := ucast v :: u32])"
  have "length (foldl f regs [0..<n]) = 33 \<and>
    (\<forall>i < 33. foldl f regs [0..<n] ! i =
      (if i < n then (case RegFileTrace_getValue rt 0 t (word_of_nat i) of None \<Rightarrow> regs ! i | Some v \<Rightarrow> ucast v) else regs ! i))"
    if "n \<le> 32" for n
    using that
  proof (induction n)
    case (Suc n)
    then show ?case
      by (auto simp: f_def nth_list_update less_Suc_eq split: option.splits)
  qed (use assms in simp)
  from this [of 32] show "length (update_registers rt t regs) = 33"
    and "i < 33 \<Longrightarrow> update_registers rt t regs ! i =
      (if i < 32 then (case RegFileTrace_getValue rt 0 t (word_of_nat i) of None \<Rightarrow> regs ! i | Some v \<Rightarrow> ucast v) else regs ! i)"
    by (simp_all add: update_registers_def f_def)
qed

section \<open>The invariant\<close>

text \<open>
  Between two operations the iterator points into the trace and the register file has its 33
  registers.
\<close>

definition sys_wf :: "dbg_sys \<Rightarrow> bool" where
  "sys_wf s \<longleftrightarrow> pc_it s < length (pcs s) \<and> length (registers (dbg_state s)) = DBG_CPU_RISCV_NUM_REGISTERS"

text \<open>The traces, and whatever else an operation must leave alone.\<close>

definition same_target :: "dbg_sys \<Rightarrow> dbg_sys \<Rightarrow> bool" where
  "same_target s s' \<longleftrightarrow> pcs s' = pcs s \<and> sys_regs s' = sys_regs s \<and> sys_mem s' = sys_mem s \<and> tcpServer s' = tcpServer s"

named_theorems sys_defs

lemmas [sys_defs] = pc_it_def pcs_def set_it_def deref_it_def before_end_def print_pc_def

lemma set_it_simps [simp]:
  "pc_it (set_it k s) = k" "pcs (set_it k s) = pcs s" "sys_regs (set_it k s) = sys_regs s"
  "sys_mem (set_it k s) = sys_mem s" "dbg_state (set_it k s) = dbg_state s" "breakpoints (set_it k s) = breakpoints s"
  "tcpServer (set_it k s) = tcpServer s" "set_it j (set_it k s) = set_it j s" "set_it (pc_it s) s = s"
  by (simp_all add: sys_defs)

lemma state_upd_simps [simp]:
  "pc_it (s\<lparr>dbg_state := d\<rparr>) = pc_it s" "pcs (s\<lparr>dbg_state := d\<rparr>) = pcs s"
  "pc_it (s\<lparr>breakpoints := b\<rparr>) = pc_it s" "pcs (s\<lparr>breakpoints := b\<rparr>) = pcs s"
  "pc_it (s\<lparr>tcpServer := c\<rparr>) = pc_it s" "pcs (s\<lparr>tcpServer := c\<rparr>) = pcs s"
  by (simp_all add: sys_defs)

lemma continue_loop_spec:
  "it \<le> length trace \<Longrightarrow>
     it \<le> continue_loop bps trace it \<and> continue_loop bps trace it \<le> length trace \<and>
     (\<forall>k. it \<le> k \<and> k < continue_loop bps trace it \<longrightarrow> bps (ucast (pv_pc (trace ! k))) = None) \<and>
     (continue_loop bps trace it < length trace \<longrightarrow> bps (ucast (pv_pc (trace ! continue_loop bps trace it))) \<noteq> None)"
proof (induction bps trace it rule: continue_loop.induct)
  case (1 bps trace it)
  show ?case
  proof (cases "it < length trace \<and> bps (ucast (pv_pc (trace ! it))) = None")
    case True
    then have "continue_loop bps trace it = continue_loop bps trace (it + 1)"
      by (subst continue_loop.simps) simp
    moreover have "it + 1 \<le> length trace"
      using True by simp
    note 1(1) [OF conjunct1 [OF True] _ this]
    moreover have "it \<le> k \<longleftrightarrow> k = it \<or> it + 1 \<le> k" for k
      by auto
    ultimately show ?thesis
      using True by (metis le_add1 le_trans)
  next
    case False
    then have "continue_loop bps trace it = it"
      by (subst continue_loop.simps) auto
    with 1 False show ?thesis
      by auto
  qed
qed

text \<open>The update succeeds in a well-formed state and sets the registers of the instruction.\<close>

definition refreshed :: "dbg_sys \<Rightarrow> dbg_sys" where
  "refreshed s = s\<lparr>dbg_state := (dbg_state s)\<lparr>registers :=
     (update_registers (sys_regs s) (pv_time (pcs s ! pc_it s)) (registers (dbg_state s)))
       [DBG_CPU_RISCV_PC := ucast (pv_pc (pcs s ! pc_it s))]\<rparr>\<rparr>"

lemma update_state_wf: "sys_wf s \<Longrightarrow> dbg_sys_update_state s = Inr (refreshed s)"
  by (simp add: dbg_sys_update_state_def refreshed_def sys_wf_def deref_it_def)

lemma refreshed_wf: "sys_wf s \<Longrightarrow> sys_wf (refreshed s)"
  by (simp add: refreshed_def sys_wf_def update_registers_nth)

lemma refreshed_simps [simp]:
  "pc_it (refreshed s) = pc_it s" "pcs (refreshed s) = pcs s" "breakpoints (refreshed s) = breakpoints s"
  "sys_regs (refreshed s) = sys_regs s" "sys_mem (refreshed s) = sys_mem s" "tcpServer (refreshed s) = tcpServer s"
  "signum (dbg_state (refreshed s)) = signum (dbg_state s)"
  by (simp_all add: refreshed_def)

text \<open>Where continue stops: the first breakpoint at or after the position, or the last instruction.\<close>

definition stop_at :: "dbg_sys \<Rightarrow> nat" where
  "stop_at s = (let it = continue_loop (breakpoints s) (pcs s) (pc_it s) in if it = length (pcs s) then it - 1 else it)"

lemma stop_at_bounds: "sys_wf s \<Longrightarrow> pc_it s \<le> stop_at s \<and> stop_at s < length (pcs s)"
  using continue_loop_spec [of "pc_it s" "pcs s" "breakpoints s"] by (auto simp: stop_at_def Let_def sys_wf_def)

lemma continue_wf:
  assumes "sys_wf s"
  shows "dbg_sys_continue s =
    Inr (0, refreshed ((set_it (stop_at s) s)\<lparr>dbg_state := (dbg_state s)\<lparr>signum := 5\<rparr>\<rparr>))"
proof -
  let ?it = "continue_loop (breakpoints s) (pcs s) (pc_it s)"
  have "(if ?it = length (pcs s) then before_end s else Inr ?it) = Inr (stop_at s)"
    using assms by (auto simp: stop_at_def before_end_def sys_wf_def Let_def)
  moreover have "sys_wf ((set_it (stop_at s) s)\<lparr>dbg_state := (dbg_state s)\<lparr>signum := 5\<rparr>\<rparr>)"
    using assms stop_at_bounds [OF assms] by (simp add: sys_wf_def)
  ultimately show ?thesis
    using stop_at_bounds [OF assms] update_state_wf
    by (simp add: dbg_sys_continue_def Let_def print_pc_def deref_it_def)
qed

lemma step_wf:
  assumes "sys_wf s"
  shows "dbg_sys_step s =
    (if pc_it s + 1 = length (pcs s) then Inr (- 1, s)
     else Inr (0, refreshed ((set_it (pc_it s + 1) s)\<lparr>dbg_state := (dbg_state s)\<lparr>signum := 5\<rparr>\<rparr>)))"
proof (cases "pc_it s + 1 = length (pcs s)")
  case True
  then have "length (pcs s) - 1 = pc_it s"
    by simp
  with True assms show ?thesis
    by (auto simp: dbg_sys_step_def before_end_def sys_wf_def Let_def)
next
  case False
  then have "sys_wf ((set_it (pc_it s + 1) s)\<lparr>dbg_state := (dbg_state s)\<lparr>signum := 5\<rparr>\<rparr>)"
    using assms by (auto simp: sys_wf_def)
  with False assms update_state_wf show ?thesis
    by (auto simp: dbg_sys_step_def Let_def print_pc_def deref_it_def sys_wf_def)
qed

section \<open>A target that replays a run\<close>

text \<open>
  The contract the stub's commands rely on, over positions in a run: \<open>step\<close> moves to the next
  position and stays at the last one, \<open>cont\<close> moves to the first hit at or after the position,
  or to the last position.
\<close>

fun iterate :: "nat \<Rightarrow> ('s \<Rightarrow> cxx_error + 's) \<Rightarrow> 's \<Rightarrow> cxx_error + 's" where
  "iterate 0 f s = Inr s"
| "iterate (Suc n) f s = (case f s of Inl e \<Rightarrow> Inl e | Inr s1 \<Rightarrow> iterate n f s1)"

definition step_then :: "('s \<Rightarrow> cxx_error + (int \<times> 's)) \<Rightarrow> ('s \<Rightarrow> cxx_error + (int \<times> 's)) \<Rightarrow> 's \<Rightarrow> cxx_error + 's" where
  "step_then step cont s =
     (case step s of Inl e \<Rightarrow> Inl e
      | Inr (_, s1) \<Rightarrow> (case cont s1 of Inl e \<Rightarrow> Inl e | Inr (_, s2) \<Rightarrow> Inr s2))"

locale replay_target =
  fixes wf :: "'s \<Rightarrow> bool" and pos :: "'s \<Rightarrow> nat" and last_pos :: "'s \<Rightarrow> nat" and hit :: "'s \<Rightarrow> nat \<Rightarrow> bool"
    and step :: "'s \<Rightarrow> cxx_error + (int \<times> 's)" and cont :: "'s \<Rightarrow> cxx_error + (int \<times> 's)"
  assumes pos_last: "wf s \<Longrightarrow> pos s \<le> last_pos s"
    and step_ok: "wf s \<Longrightarrow> \<exists>s'. step s = Inr (if pos s = last_pos s then - 1 else 0, s') \<and> wf s' \<and>
      pos s' = min (pos s + 1) (last_pos s) \<and> last_pos s' = last_pos s \<and> hit s' = hit s"
    and cont_ok: "wf s \<Longrightarrow> \<exists>s'. cont s = Inr (0, s') \<and> wf s' \<and> last_pos s' = last_pos s \<and> hit s' = hit s \<and> pos s \<le> pos s' \<and>
      (\<forall>k. pos s \<le> k \<and> k < pos s' \<longrightarrow> \<not> hit s k) \<and> (hit s (pos s') \<or> pos s' = last_pos s)"
begin

text \<open>Continue does not move away from a breakpoint, nor from the end.\<close>

lemma cont_again:
  assumes "wf s" "cont s = Inr (0, s')"
  shows "\<exists>s''. cont s' = Inr (0, s'') \<and> pos s'' = pos s'"
proof -
  obtain s1 where s1: "cont s = Inr (0, s1)" "wf s1" "hit s1 = hit s" "last_pos s1 = last_pos s" "hit s (pos s1) \<or> pos s1 = last_pos s"
    using cont_ok [OF assms(1)] by blast
  with assms(2) have s': "s' = s1"
    by simp
  obtain s2 where s2: "cont s1 = Inr (0, s2)" "wf s2" "last_pos s2 = last_pos s1" "pos s1 \<le> pos s2"
    "\<forall>k. pos s1 \<le> k \<and> k < pos s2 \<longrightarrow> \<not> hit s1 k"
    using cont_ok [OF s1(2)] by blast
  have "\<not> pos s1 < pos s2"
    using s1(3-5) s2(3-5) pos_last [OF s2(2)] by auto
  then have "pos s2 = pos s1"
    using s2(4) by simp
  with s2 s' show ?thesis
    by blast
qed

text \<open>Stepping off and continuing reaches every later hit.\<close>

lemma reaches:
  assumes "wf s" "pos s < k" "k \<le> last_pos s" "hit s k"
  shows "\<exists>n s'. iterate n (step_then step cont) s = Inr s' \<and> wf s' \<and> pos s' = k \<and> n \<le> k - pos s"
  using assms
proof (induction "k - pos s" arbitrary: s rule: less_induct)
  case less
  obtain s1 where s1: "step s = Inr (0, s1)" "wf s1" "pos s1 = pos s + 1" "last_pos s1 = last_pos s" "hit s1 = hit s"
    using step_ok [OF less.prems(1)] less.prems(2,3) by force
  obtain s2 where s2: "cont s1 = Inr (0, s2)" "wf s2" "last_pos s2 = last_pos s" "hit s2 = hit s" "pos s1 \<le> pos s2"
    "\<forall>j. pos s1 \<le> j \<and> j < pos s2 \<longrightarrow> \<not> hit s j"
    using cont_ok [OF s1(2)] s1(4,5) by metis
  have "pos s2 \<le> k"
    using s2(6) less.prems(2,4) s1(3) by (metis Suc_eq_plus1 Suc_leI not_le)
  show ?case
  proof (cases "pos s2 = k")
    case True
    with s1 s2 less.prems(2) show ?thesis
      by (intro exI [of _ "1 :: nat"] exI [of _ s2]) (simp add: step_then_def)
  next
    case False
    with \<open>pos s2 \<le> k\<close> have "pos s2 < k"
      by simp
    then obtain n s' where "iterate n (step_then step cont) s2 = Inr s'" "wf s'" "pos s' = k" "n \<le> k - pos s2"
      using less.hyps [of s2] s1 s2 less.prems by force
    with s1 s2 \<open>pos s2 < k\<close> show ?thesis
      by (intro exI [of _ "Suc n"] exI [of _ s']) (simp add: step_then_def)
  qed
qed

end

definition breakpoint_at :: "dbg_sys \<Rightarrow> nat \<Rightarrow> bool" where
  "breakpoint_at s k \<longleftrightarrow> ucast (pv_pc (pcs s ! k)) \<in> dom (breakpoints s)"

lemma stop_at_spec:
  assumes "sys_wf s"
  shows "\<forall>k. pc_it s \<le> k \<and> k < stop_at s \<longrightarrow> \<not> breakpoint_at s k"
    and "breakpoint_at s (stop_at s) \<or> stop_at s = length (pcs s) - 1"
  using continue_loop_spec [of "pc_it s" "pcs s" "breakpoints s"] assms
  by (auto simp: stop_at_def Let_def sys_wf_def breakpoint_at_def dom_def)

interpretation target: replay_target sys_wf pc_it "\<lambda>s. length (pcs s) - 1" breakpoint_at dbg_sys_step dbg_sys_continue
proof unfold_locales
  fix s
  assume wf: "sys_wf s"
  then show "pc_it s \<le> length (pcs s) - 1"
    by (auto simp: sys_wf_def)
  show "\<exists>s'. dbg_sys_step s = Inr (if pc_it s = length (pcs s) - 1 then - 1 else 0, s') \<and> sys_wf s' \<and>
      pc_it s' = min (pc_it s + 1) (length (pcs s) - 1) \<and> length (pcs s') - 1 = length (pcs s) - 1 \<and>
      breakpoint_at s' = breakpoint_at s"
  proof (cases "pc_it s + 1 = length (pcs s)")
    case True
    with wf show ?thesis
      by (simp add: step_wf [OF wf] sys_wf_def)
  next
    case False
    then have "sys_wf ((set_it (pc_it s + 1) s)\<lparr>dbg_state := (dbg_state s)\<lparr>signum := 5\<rparr>\<rparr>)"
      using wf by (auto simp: sys_wf_def)
    from refreshed_wf [OF this] False wf show ?thesis
      by (auto simp: step_wf [OF wf] breakpoint_at_def fun_eq_iff sys_wf_def)
  qed
  have "sys_wf ((set_it (stop_at s) s)\<lparr>dbg_state := (dbg_state s)\<lparr>signum := 5\<rparr>\<rparr>)"
    using wf stop_at_bounds [OF wf] by (simp add: sys_wf_def)
  from refreshed_wf [OF this] stop_at_spec [OF wf] stop_at_bounds [OF wf]
  show "\<exists>s'. dbg_sys_continue s = Inr (0, s') \<and> sys_wf s' \<and> length (pcs s') - 1 = length (pcs s) - 1 \<and>
      breakpoint_at s' = breakpoint_at s \<and> pc_it s \<le> pc_it s' \<and>
      (\<forall>k. pc_it s \<le> k \<and> k < pc_it s' \<longrightarrow> \<not> breakpoint_at s k) \<and>
      (breakpoint_at s (pc_it s') \<or> pc_it s' = length (pcs s) - 1)"
    by (simp add: continue_wf [OF wf] breakpoint_at_def fun_eq_iff)
qed

lemma first_hit:
  assumes "i \<le> j \<and> j < n" "\<forall>k. i \<le> k \<and> k < j \<longrightarrow> \<not> P k" "P j \<or> j = n - 1"
  shows "j = (case find P [i..<n] of Some k \<Rightarrow> k | None \<Rightarrow> n - (1 :: nat))"
proof -
  have "[i..<n] = [i..<j] @ j # [Suc j..<n]"
    using assms(1) by (metis upt_add_eq_append upt_conv_Cons le_add_diff_inverse less_imp_le_nat)
  moreover have "find P [i..<j] = None"
    using assms(2) by (auto simp: find_None_iff)
  moreover have "find P (xs @ ys) = (case find P xs of None \<Rightarrow> find P ys | Some x \<Rightarrow> Some x)" for xs ys :: "nat list"
    by (induction xs) auto
  ultimately have "find P [i..<n] = (if P j then Some j else find P [Suc j..<n])"
    by simp
  moreover have "j = n - 1 \<Longrightarrow> [Suc j..<n] = []"
    by simp
  ultimately show ?thesis
    using assms(3) by (metis (no_types, lifting) find.simps(1) option.simps(4,5))
qed

section \<open>A debug session\<close>

datatype sys_op = Continue | Step | Restart | AddBreakpoint u32 | DeleteBreakpoint u32

fun sys_exec :: "sys_op \<Rightarrow> dbg_sys \<Rightarrow> cxx_error + (int \<times> dbg_sys)" where
  "sys_exec Continue s = dbg_sys_continue s"
| "sys_exec Step s = dbg_sys_step s"
| "sys_exec Restart s = dbg_sys_restart s"
| "sys_exec (AddBreakpoint a) s = dbg_sys_add_breakpoint a s"
| "sys_exec (DeleteBreakpoint a) s = dbg_sys_delete_breakpoint a s"

inductive sys_reach :: "dbg_sys \<Rightarrow> dbg_sys \<Rightarrow> bool" for s0 where
  sys_start: "sys_reach s0 s0"
| sys_next: "sys_reach s0 s \<Longrightarrow> sys_exec c s = Inr (r, s') \<Longrightarrow> sys_reach s0 s'"

text \<open>What every operation of the target promises to the stub.\<close>

locale debugger_op =
  fixes op :: "dbg_sys \<Rightarrow> cxx_error + (int \<times> dbg_sys)"
  assumes returns: "sys_wf s \<Longrightarrow> \<exists>r s'. op s = Inr (r, s')"
    and keeps_wf: "sys_wf s \<Longrightarrow> op s = Inr (r, s') \<Longrightarrow> sys_wf s'"
    and keeps_target: "sys_wf s \<Longrightarrow> op s = Inr (r, s') \<Longrightarrow> same_target s s'"
begin

lemma op_cases:
  assumes "sys_wf s"
  obtains r s' where "op s = Inr (r, s')" "sys_wf s'" "same_target s s'"
  using returns keeps_wf keeps_target assms by metis

end

interpretation continue_op: debugger_op dbg_sys_continue
proof unfold_locales
  fix s r s'
  assume wf: "sys_wf s"
  have "sys_wf ((set_it (stop_at s) s)\<lparr>dbg_state := (dbg_state s)\<lparr>signum := 5\<rparr>\<rparr>)"
    using wf stop_at_bounds [OF wf] by (simp add: sys_wf_def)
  note new = refreshed_wf [OF this]
  show "\<exists>r s'. dbg_sys_continue s = Inr (r, s')"
    by (simp add: continue_wf [OF wf])
  assume "dbg_sys_continue s = Inr (r, s')"
  with new show "sys_wf s'" "same_target s s'"
    by (auto simp: continue_wf [OF wf] same_target_def)
qed

interpretation step_op: debugger_op dbg_sys_step
proof unfold_locales
  fix s r s'
  assume wf: "sys_wf s"
  have new: "sys_wf (refreshed ((set_it (pc_it s + 1) s)\<lparr>dbg_state := (dbg_state s)\<lparr>signum := 5\<rparr>\<rparr>))"
    if "pc_it s + 1 \<noteq> length (pcs s)"
    using wf that by (intro refreshed_wf) (auto simp: sys_wf_def)
  show "\<exists>r s'. dbg_sys_step s = Inr (r, s')"
    by (simp add: step_wf [OF wf])
  assume "dbg_sys_step s = Inr (r, s')"
  with new wf show "sys_wf s'" "same_target s s'"
    by (auto simp: step_wf [OF wf] same_target_def split: if_splits)
qed

interpretation restart_op: debugger_op dbg_sys_restart
  by unfold_locales (auto simp: dbg_sys_restart_def sys_wf_def same_target_def)

interpretation add_op: debugger_op "dbg_sys_add_breakpoint a" for a
  by unfold_locales (auto simp: dbg_sys_add_breakpoint_def sys_wf_def same_target_def split: if_splits)

interpretation delete_op: debugger_op "dbg_sys_delete_breakpoint a" for a
  by unfold_locales (auto simp: dbg_sys_delete_breakpoint_def sys_wf_def same_target_def split: if_splits)

interpretation exec_op: debugger_op "sys_exec c" for c
proof unfold_locales
  fix s r s'
  assume wf: "sys_wf s"
  note returns = continue_op.returns [OF wf] step_op.returns [OF wf] restart_op.returns [OF wf] add_op.returns [OF wf]
    delete_op.returns [OF wf]
  note keeps_wf = continue_op.keeps_wf [OF wf] step_op.keeps_wf [OF wf] restart_op.keeps_wf [OF wf] add_op.keeps_wf [OF wf]
    delete_op.keeps_wf [OF wf]
  note keeps_target = continue_op.keeps_target [OF wf] step_op.keeps_target [OF wf] restart_op.keeps_target [OF wf]
    add_op.keeps_target [OF wf] delete_op.keeps_target [OF wf]
  show "\<exists>r s'. sys_exec c s = Inr (r, s')"
    by (cases c) (use returns in simp_all)
  assume r: "sys_exec c s = Inr (r, s')"
  show "sys_wf s'"
    by (cases c) (use r keeps_wf in auto)
  show "same_target s s'"
    by (cases c) (use r keeps_target in auto)
qed

lemma same_target_trans: "same_target s s' \<Longrightarrow> same_target s' s'' \<Longrightarrow> same_target s s''"
  by (simp add: same_target_def)

lemma refreshed_registers:
  assumes "length (registers (dbg_state s)) = 33"
  shows "i < 32 \<Longrightarrow> registers (dbg_state (refreshed s)) ! i =
      (case RegFileTrace_getValue (sys_regs s) 0 (pv_time (pcs s ! pc_it s)) (word_of_nat i) of
         None \<Rightarrow> registers (dbg_state s) ! i | Some v \<Rightarrow> ucast v)"
    and "registers (dbg_state (refreshed s)) ! DBG_CPU_RISCV_PC = ucast (pv_pc (pcs s ! pc_it s))"
  using update_registers_nth [OF assms]
  by (simp_all add: refreshed_def nth_list_update)

text \<open>Two instructions; register 5 is written with 7 at the time of the second one; a breakpoint on the first.\<close>

definition example_sys :: dbg_sys where
  "example_sys =
     \<lparr>tcpServer = conn_open [] [], cpuTrace =
        \<lparr>cpu_clk = example_signal ''clk'', pcValid = example_signal ''valid'', pc = example_signal ''pc'',
         curPcValidVal = 0, curPcVal = 0,
         pcTrace = [\<lparr>pv_time = 10, pv_pc = 0x80000000\<rparr>, \<lparr>pv_time = 20, pv_pc = 0x80000004\<rparr>, \<lparr>pv_time = 30, pv_pc = 0x80000000\<rparr>],
         pcTraceIt = 0\<rparr>,
      sys_regs = example_regs\<lparr>regFileTrace := [\<lparr>ra_time = 20, ra_wr = True, ra_addr = 5, ra_value = 7\<rparr>]\<rparr>,
      sys_mem = example_mem, dbg_state = \<lparr>signum = 0, registers = replicate 33 0\<rparr>, breakpoints = [0x80000000 \<mapsto> True]\<rparr>"

lemma example_sys_wf: "sys_wf example_sys"
  by (simp add: sys_wf_def example_sys_def sys_defs)

lemma example_sys_pcs: "length (pcs example_sys) = 3" "pc_it example_sys = 0" "breakpoints example_sys = [0x80000000 \<mapsto> True]"
  "map pv_pc (pcs example_sys) = [0x80000000, 0x80000004, 0x80000000]"
  by (simp_all add: example_sys_def sys_defs)

section \<open>Properties\<close>

text \<open>
  C26: the session invariant. In every state reachable from a well-formed one by continue,
  step, restart and the breakpoint commands, in any order, the iterator points into the
  trace, the traces themselves are what they were, and the next command, whichever it is,
  returns normally.
\<close>
theorem sys_reach_wf:
  assumes "sys_wf s0" "sys_reach s0 s"
  shows "sys_wf s \<and> same_target s0 s \<and> (\<exists>r s'. sys_exec c s = Inr (r, s'))"
proof -
  from assms(2) have "sys_wf s \<and> same_target s0 s"
  proof induction
    case sys_start
    then show ?case
      by (simp add: assms(1) same_target_def)
  next
    case (sys_next s c r s')
    then show ?case
      using exec_op.keeps_wf exec_op.keeps_target same_target_trans by blast
  qed
  then show ?thesis
    using exec_op.returns by blast
qed

theorem sys_reach_wf_witness:
  "\<exists>s r s'. sys_reach example_sys s \<and> pc_it s = 1 \<and> sys_wf s \<and> sys_exec Continue s = Inr (r, s')"
proof -
  obtain s where s: "dbg_sys_step example_sys = Inr (0, s)" "pc_it s = 1"
    using step_wf [OF example_sys_wf] by (simp add: example_sys_pcs)
  have "sys_reach example_sys s"
    by (rule sys_next [OF sys_start, where c = Step]) (simp add: s(1))
  with sys_reach_wf [OF example_sys_wf this, of Continue] s(2) show ?thesis
    by blast
qed

text \<open>
  C11: continue. From a state with the iterator in the trace, continue returns 0 with signal 5
  and stops at the first instruction, the current one included, whose 32-bit address has a
  breakpoint, and at the last instruction of the trace when there is none.
\<close>
theorem continue_stops:
  assumes "sys_wf s"
  shows "\<exists>s'. dbg_sys_continue s = Inr (0, s') \<and> sys_wf s' \<and> signum (dbg_state s') = 5 \<and> breakpoints s' = breakpoints s \<and>
    pc_it s' = (case find (\<lambda>k. ucast (pv_pc (pcs s ! k)) \<in> dom (breakpoints s)) [pc_it s..<length (pcs s)] of
                  Some k \<Rightarrow> k | None \<Rightarrow> length (pcs s) - 1)"
proof -
  let ?hits = "find (\<lambda>k. breakpoint_at s k) [pc_it s..<length (pcs s)]"
  have "stop_at s = (case ?hits of Some k \<Rightarrow> k | None \<Rightarrow> length (pcs s) - 1)"
    by (rule first_hit [OF stop_at_bounds [OF assms] stop_at_spec [OF assms]])
  moreover have "sys_wf ((set_it (stop_at s) s)\<lparr>dbg_state := (dbg_state s)\<lparr>signum := 5\<rparr>\<rparr>)"
    using assms stop_at_bounds [OF assms] by (simp add: sys_wf_def)
  ultimately show ?thesis
    using refreshed_wf by (simp add: continue_wf [OF assms] breakpoint_at_def)
qed

theorem continue_stops_witness:
  "\<exists>s'. dbg_sys_continue example_sys = Inr (0, s') \<and> pc_it s' = 0"
  using continue_stops [OF example_sys_wf] by (auto simp: example_sys_def sys_defs upt_conv_Cons)

text \<open>
  C27: step. It moves to the next instruction with signal 5 and returns 0; at the last
  instruction it returns -1, which ends the session with an exit reply, and changes nothing.
\<close>
theorem step_moves:
  assumes "sys_wf s"
  shows "(pc_it s + 1 = length (pcs s) \<longrightarrow> dbg_sys_step s = Inr (- 1, s)) \<and>
    (pc_it s + 1 < length (pcs s) \<longrightarrow>
       (\<exists>s'. dbg_sys_step s = Inr (0, s') \<and> sys_wf s' \<and> pc_it s' = pc_it s + 1 \<and> signum (dbg_state s') = 5 \<and>
          breakpoints s' = breakpoints s))"
proof -
  have "sys_wf (refreshed ((set_it (pc_it s + 1) s)\<lparr>dbg_state := (dbg_state s)\<lparr>signum := 5\<rparr>\<rparr>))"
    if "pc_it s + 1 < length (pcs s)"
    using assms that by (intro refreshed_wf) (auto simp: sys_wf_def)
  then show ?thesis
    by (auto simp: step_wf [OF assms])
qed

theorem step_moves_witness:
  "\<exists>s'. dbg_sys_step example_sys = Inr (0, s') \<and> pc_it s' = 1"
  using step_moves [OF example_sys_wf] by (auto simp: example_sys_pcs)

text \<open>
  C12: no breakpoint is lost. From any position, repeating "step, then continue" stops at
  every later instruction that has a breakpoint, after at most as many rounds as there are
  instructions in between.
\<close>
theorem breakpoints_reached:
  assumes "sys_wf s" "pc_it s < k" "k < length (pcs s)" "ucast (pv_pc (pcs s ! k)) \<in> dom (breakpoints s)"
  shows "\<exists>n s'. n \<le> k - pc_it s \<and> iterate n (step_then dbg_sys_step dbg_sys_continue) s = Inr s' \<and> sys_wf s' \<and> pc_it s' = k"
proof -
  have "k \<le> length (pcs s) - 1" "breakpoint_at s k"
    using assms by (auto simp: breakpoint_at_def)
  from target.reaches [OF assms(1,2) this] show ?thesis
    by blast
qed

theorem breakpoints_reached_witness:
  "\<exists>n s'. n \<le> 2 \<and> iterate n (step_then dbg_sys_step dbg_sys_continue) example_sys = Inr s' \<and> pc_it s' = 2"
  using breakpoints_reached [OF example_sys_wf, of 2] by (auto simp: example_sys_def sys_defs)

text \<open>A continue or step that returned 0 has moved the iterator and refreshed the registers.\<close>

lemma resumed:
  assumes "sys_wf s" "c = Continue \<or> c = Step" "sys_exec c s = Inr (0, s')"
  obtains k where "k < length (pcs s)" "s' = refreshed ((set_it k s)\<lparr>dbg_state := (dbg_state s)\<lparr>signum := 5\<rparr>\<rparr>)"
proof (cases "c = Continue")
  case True
  then show ?thesis
    using assms(3) stop_at_bounds [OF assms(1)] by (intro that [of "stop_at s"]) (simp_all add: continue_wf [OF assms(1)])
next
  case False
  then have "pc_it s + 1 \<noteq> length (pcs s)" "s' = refreshed ((set_it (pc_it s + 1) s)\<lparr>dbg_state := (dbg_state s)\<lparr>signum := 5\<rparr>\<rparr>)"
    using assms(2,3) by (simp_all add: step_wf [OF assms(1)] split: if_splits)
  moreover have "pc_it s < length (pcs s)"
    using assms(1) by (simp add: sys_wf_def)
  ultimately show ?thesis
    by (intro that [of "pc_it s + 1"]) simp_all
qed

lemma resumed_registers:
  assumes "sys_wf s" "c = Continue \<or> c = Step" "sys_exec c s = Inr (0, s')"
  shows "i < 32 \<Longrightarrow> registers (dbg_state s') ! i =
      (case RegFileTrace_getValue (sys_regs s) 0 (pv_time (pcs s ! pc_it s')) (word_of_nat i) of
         None \<Rightarrow> registers (dbg_state s) ! i | Some v \<Rightarrow> ucast v)"
    and "registers (dbg_state s') ! DBG_CPU_RISCV_PC = ucast (pv_pc (pcs s ! pc_it s'))"
    and "sys_wf s'" "pcs s' = pcs s" "sys_regs s' = sys_regs s"
proof -
  obtain k where k: "k < length (pcs s)" "s' = refreshed ((set_it k s)\<lparr>dbg_state := (dbg_state s)\<lparr>signum := 5\<rparr>\<rparr>)"
    using resumed [OF assms] .
  let ?m = "(set_it k s)\<lparr>dbg_state := (dbg_state s)\<lparr>signum := 5\<rparr>\<rparr>"
  have wf: "sys_wf ?m"
    using assms(1) k(1) by (simp add: sys_wf_def)
  then have len: "length (registers (dbg_state ?m)) = 33"
    by (simp add: sys_wf_def)
  show "sys_wf s'" "pcs s' = pcs s" "sys_regs s' = sys_regs s"
    using refreshed_wf [OF wf] by (simp_all add: k(2))
  show "i < 32 \<Longrightarrow> registers (dbg_state s') ! i =
      (case RegFileTrace_getValue (sys_regs s) 0 (pv_time (pcs s ! pc_it s')) (word_of_nat i) of
         None \<Rightarrow> registers (dbg_state s) ! i | Some v \<Rightarrow> ucast v)"
    and "registers (dbg_state s') ! DBG_CPU_RISCV_PC = ucast (pv_pc (pcs s ! pc_it s'))"
    using refreshed_registers [OF len] by (simp_all add: k(2) split: option.split)
qed

text \<open>
  C13: the registers the client sees. After a continue or a step that returned 0, every
  general register that the trace has written by the time of the instruction the target
  stopped at has the value of the register file at that time, every other one keeps the
  value it had, and the program counter is the address of that instruction.
\<close>
theorem registers_current:
  assumes "sys_wf s" "c = Continue \<or> c = Step" "sys_exec c s = Inr (0, s')" "i < 32"
  shows "registers (dbg_state s') ! i =
      (case RegFileTrace_getValue (sys_regs s) 0 (pv_time (pcs s ! pc_it s')) (word_of_nat i) of
         None \<Rightarrow> registers (dbg_state s) ! i | Some v \<Rightarrow> ucast v) \<and>
    registers (dbg_state s') ! DBG_CPU_RISCV_PC = ucast (pv_pc (pcs s ! pc_it s'))"
  using resumed_registers [OF assms(1-3)] assms(4) by blast

theorem registers_current_witness:
  "\<exists>s'. dbg_sys_step example_sys = Inr (0, s') \<and> registers (dbg_state s') ! 5 = 7 \<and> registers (dbg_state s') ! 6 = 0"
proof -
  obtain s' where s': "dbg_sys_step example_sys = Inr (0, s')" "pc_it s' = 1"
    using step_wf [OF example_sys_wf] by (simp add: example_sys_pcs)
  have step: "sys_exec Step example_sys = Inr (0, s')"
    by (simp add: s')
  have "registers (dbg_state s') ! 5 = 7" "registers (dbg_state s') ! 6 = 0"
    using registers_current [OF example_sys_wf _ step, of 5] registers_current [OF example_sys_wf _ step, of 6]
    by (simp_all add: s'(2), simp_all add: example_sys_def sys_defs RegFileTrace_getValue_def example_regs_def)
  with s'(1) show ?thesis
    by blast
qed

text \<open>
  C28: the registers after a restart come from the future. Let a continue or a step have
  stopped at an instruction by whose time register i has been written. The restart that
  follows returns 0 and moves to the first instruction, and the client is still shown the
  program counter and the registers of the instruction before it. Every continue or step
  after it that stops at an instruction by whose time register i has not been written yet
  still shows the value of the later time; a continue does return.
\<close>
theorem restart_shows_future:
  assumes "sys_wf s" "b = Continue \<or> b = Step" "sys_exec b s = Inr (0, s1)" "i < 32"
    and "RegFileTrace_getValue (sys_regs s) 0 (pv_time (pcs s ! pc_it s1)) (word_of_nat i) = Some v"
  shows "\<exists>s2. dbg_sys_restart s1 = Inr (0, s2) \<and> pc_it s2 = 0 \<and> registers (dbg_state s2) = registers (dbg_state s1) \<and>
    registers (dbg_state s2) ! DBG_CPU_RISCV_PC = ucast (pv_pc (pcs s ! pc_it s1)) \<and>
    (\<exists>s3. sys_exec Continue s2 = Inr (0, s3)) \<and>
    (\<forall>c s3. (c = Continue \<or> c = Step) \<and> sys_exec c s2 = Inr (0, s3) \<and>
       RegFileTrace_getValue (sys_regs s) 0 (pv_time (pcs s ! pc_it s3)) (word_of_nat i) = None \<longrightarrow>
       registers (dbg_state s3) ! i = ucast v)"
proof -
  note r1 = resumed_registers [OF assms(1-3)]
  have wf2: "sys_wf (set_it 0 s1)"
    using r1(3) by (auto simp: sys_wf_def)
  have "registers (dbg_state s1) ! i = ucast v"
    using r1(1) assms(4,5) by simp
  then have "registers (dbg_state s3) ! i = ucast v"
    if "c = Continue \<or> c = Step" "sys_exec c (set_it 0 s1) = Inr (0, s3)"
      "RegFileTrace_getValue (sys_regs s) 0 (pv_time (pcs s ! pc_it s3)) (word_of_nat i) = None" for c s3
    using resumed_registers(1) [OF wf2 that(1,2) assms(4)] that(3) by (simp add: r1(4,5))
  moreover have "\<exists>s3. sys_exec Continue (set_it 0 s1) = Inr (0, s3)"
    by (simp add: continue_wf [OF wf2])
  ultimately show ?thesis
    using r1(2) by (intro exI [of _ "set_it 0 s1"]) (simp add: dbg_sys_restart_def, blast)
qed

text \<open>In the example run register 5 is written first by the second instruction.\<close>

theorem restart_shows_future_witness:
  "\<exists>s1 s2 s3. dbg_sys_step example_sys = Inr (0, s1) \<and> dbg_sys_restart s1 = Inr (0, s2) \<and> dbg_sys_continue s2 = Inr (0, s3) \<and>
     pc_it s3 = 0 \<and> RegFileTrace_getValue (sys_regs example_sys) 0 (pv_time (pcs example_sys ! 0)) 5 = None \<and>
     registers (dbg_state s3) ! 5 = 7 \<and> registers (dbg_state s2) ! DBG_CPU_RISCV_PC = 0x80000004"
proof -
  have none: "RegFileTrace_getValue (sys_regs example_sys) 0 (pv_time (pcs example_sys ! 0)) 5 = None"
    and some: "RegFileTrace_getValue (sys_regs example_sys) 0 (pv_time (pcs example_sys ! 1)) 5 = Some 7"
    and pc1: "ucast (pv_pc (pcs example_sys ! 1)) = (0x80000004 :: u32)"
    by (simp_all add: example_sys_def sys_defs RegFileTrace_getValue_def example_regs_def)
  define s1 where "s1 = refreshed ((set_it 1 example_sys)\<lparr>dbg_state := (dbg_state example_sys)\<lparr>signum := 5\<rparr>\<rparr>)"
  have step: "dbg_sys_step example_sys = Inr (0, s1)" and it: "pc_it s1 = 1"
    using step_wf [OF example_sys_wf] by (simp_all add: example_sys_pcs s1_def)
  have wf: "sys_wf (set_it 0 s1)" "pcs s1 = pcs example_sys" "breakpoints s1 = breakpoints example_sys"
    using step_op.keeps_wf [OF example_sys_wf step] by (auto simp: sys_wf_def s1_def)
  have "continue_loop (breakpoints example_sys) (pcs example_sys) 0 = 0"
    by (subst continue_loop.simps) (simp add: example_sys_def sys_defs)
  then have "stop_at (set_it 0 s1) = 0"
    by (simp add: stop_at_def wf example_sys_pcs)
  then obtain s3 where s3: "dbg_sys_continue (set_it 0 s1) = Inr (0, s3)" "pc_it s3 = 0"
    using continue_wf [OF wf(1)] by simp
  have exec: "sys_exec Step example_sys = Inr (0, s1)" "sys_exec Continue (set_it 0 s1) = Inr (0, s3)"
    by (simp_all add: step s3)
  have restart: "dbg_sys_restart s1 = Inr (0, set_it 0 s1)"
    by (simp add: dbg_sys_restart_def)
  have "registers (dbg_state s3) ! 5 = 7" "registers (dbg_state (set_it 0 s1)) ! DBG_CPU_RISCV_PC = 0x80000004"
    using restart_shows_future [OF example_sys_wf _ exec(1), of 5 7] restart none some pc1 it s3
    by (simp_all add: step, elim conjE allE [of _ Continue] allE [of _ s3]) simp
  with step restart s3 none show ?thesis
    by blast
qed

text \<open>
  The start of a session. On an empty instruction trace the initialisation reads through
  the end of the trace; otherwise it ends with the iterator on the first instruction, a
  register showing its value at that time or \<open>0xdeadbeef\<close> when there is none, and the
  program counter of the first instruction.
\<close>
theorem init_state:
  assumes "length (registers (dbg_state s)) = DBG_CPU_RISCV_NUM_REGISTERS"
  shows "(pcs s = [] \<longrightarrow> dbg_sys_init_state s = Inl DerefEnd) \<and>
    (pcs s \<noteq> [] \<longrightarrow> (\<exists>s'. dbg_sys_init_state s = Inr s' \<and> sys_wf s' \<and> pc_it s' = 0 \<and> same_target s s' \<and>
       (\<forall>i < 32. registers (dbg_state s') ! i =
          (case RegFileTrace_getValue (sys_regs s) 0 (pv_time (pcs s ! 0)) (word_of_nat i) of
             None \<Rightarrow> 0xdeadbeef | Some v \<Rightarrow> ucast v)) \<and>
       registers (dbg_state s') ! DBG_CPU_RISCV_PC = ucast (pv_pc (pcs s ! 0))))"
proof -
  define s1 where "s1 = (set_it 0 s)\<lparr>dbg_state := (dbg_state s)\<lparr>registers := replicate 32 0xdeadbeef @ drop 32 (registers (dbg_state s))\<rparr>\<rparr>"
  have init: "dbg_sys_init_state s = dbg_sys_update_state s1"
    by (simp add: dbg_sys_init_state_def s1_def)
  have len: "length (registers (dbg_state s1)) = 33"
    using assms by (simp add: s1_def)
  have empty: "pcs s = [] \<longrightarrow> dbg_sys_init_state s = Inl DerefEnd"
    by (simp add: init dbg_sys_update_state_def deref_it_def s1_def)
  have wf: "sys_wf s1" if "pcs s \<noteq> []"
    using that len by (simp add: sys_wf_def s1_def)
  have same: "same_target s (refreshed s1)" "pc_it (refreshed s1) = 0" "pcs s1 = pcs s" "sys_regs s1 = sys_regs s" "pc_it s1 = 0"
    by (simp_all add: same_target_def s1_def)
  have old: "registers (dbg_state s1) ! i = 0xdeadbeef" if "i < 32" for i
    using that by (simp add: s1_def nth_append)
  show ?thesis
    using empty wf update_state_wf [OF wf] refreshed_wf [OF wf] refreshed_registers [OF len] same old init
    by (auto split: option.splits)
qed

theorem init_state_witness:
  "\<exists>s'. dbg_sys_init_state example_sys = Inr s' \<and> registers (dbg_state s') ! 5 = 0xdeadbeef \<and>
     registers (dbg_state s') ! DBG_CPU_RISCV_PC = 0x80000000"
proof -
  have "length (registers (dbg_state example_sys)) = 33" "pcs example_sys \<noteq> []"
    using example_sys_pcs by (auto simp: example_sys_def)
  moreover have "RegFileTrace_getValue (sys_regs example_sys) 0 (pv_time (pcs example_sys ! 0)) (word_of_nat 5) = None"
    "ucast (pv_pc (pcs example_sys ! 0)) = (0x80000000 :: u32)"
    by (simp_all add: example_sys_def sys_defs RegFileTrace_getValue_def example_regs_def)
  ultimately show ?thesis
    using init_state [of example_sys] by (fastforce split: option.splits)
qed

text \<open>
  The breakpoints are a set of addresses: adding inserts the address, deleting removes
  it, neither moves the target or touches the rest of the state, and deleting a breakpoint
  that was just added gives the state back when the address had none.
\<close>
theorem breakpoints_are_a_set:
  "\<exists>s1 s2. dbg_sys_add_breakpoint a s = Inr (0, s1) \<and> dbg_sys_delete_breakpoint a s1 = Inr (0, s2) \<and>
     dom (breakpoints s1) = insert a (dom (breakpoints s)) \<and> dom (breakpoints s2) = dom (breakpoints s) - {a} \<and>
     s1 = s\<lparr>breakpoints := breakpoints s1\<rparr> \<and> s2 = s\<lparr>breakpoints := breakpoints s2\<rparr> \<and>
     (if a \<in> dom (breakpoints s) then s1 = s else s2 = s)"
  by (auto simp: dbg_sys_add_breakpoint_def dbg_sys_delete_breakpoint_def dom_def)

text \<open>
  C29: memory reads never fail. From a state with the iterator in the trace, a read returns 0
  and the byte a memory holds at the address, starting from the image and replaying all
  writes up to the time of the current instruction; an address that is in neither reads
  as 0, which the client cannot tell from a known 0.
\<close>
theorem mem_readb_replay:
  assumes "sys_wf s" "sorted (map ma_time (memTrace (sys_mem s)))"
  shows "dbg_sys_mem_readb s addr =
    Inr (0, case foldl (\<lambda>mem m. if ma_wr m then mem(ma_addr m \<mapsto> ma_value m) else mem)
              (initial_memory (memInitStartAddr (sys_mem s)) (memInitContents (sys_mem s)))
              (filter (\<lambda>m. ma_time m \<le> pv_time (pcs s ! pc_it s)) (memTrace (sys_mem s))) (ucast addr) of
            None \<Rightarrow> 0 | Some v \<Rightarrow> ucast v)"
  using assms(1)
  by (auto simp: dbg_sys_mem_readb_def sys_wf_def deref_it_def MemTrace_getValue_scan
      memlog.takeWhile_sorted [OF assms(2)] memlog.replay_def split: option.splits)

theorem mem_readb_replay_witness:
  "dbg_sys_mem_readb example_sys 0x103 = Inr (0, 7) \<and> dbg_sys_mem_readb example_sys 0x200 = Inr (0, 0)"
  using mem_readb_replay [OF example_sys_wf, of "0x103"] mem_readb_replay [OF example_sys_wf, of "0x200"]
  by (simp add: example_sys_def sys_defs example_mem_def initial_memory_def)

end
