(* ===== verification/Gdb_Stub.thy ===== *)
theory Gdb_Stub
  imports Gdb_Sys
begin

text \<open>
  The command interpreter of the stub (the command functions, the packet creation helpers
  and \<open>dbg_main\<close> of \<open>src/gdbstub.cc\<close>) and the loop of \<open>dbg_sys_init\<close> around it
  (\<open>src/gdbstub_sys.cc\<close>).

  The state of an activation of \<open>dbg_main\<close> is the system and the packet buffer of 512 bytes
  with the length of the packet in it. The buffer is on the stack and not initialised, so
  its first contents are a parameter. Positions in it are indices; a read outside it is the
  error \<open>BufferOverread\<close>, a write outside it \<open>BufferOverrun\<close>, an error of the target (\<open>DerefEnd\<close>) is passed on.
\<close>

section \<open>State and outcomes\<close>

datatype stub_error = BufferOverread | BufferOverrun | Target cxx_error

record stub =
  sys :: dbg_sys
  pkt_buf :: "byte list"
  pkt_len :: nat

text \<open>How a command ends: with \<open>break\<close> and the next iteration, with \<open>goto error\<close>, or with a return.\<close>

datatype flow = Next | GotoError | Return int

abbreviation PKT_BUF_SIZE :: nat where "PKT_BUF_SIZE \<equiv> 512"

definition conn_of :: "stub \<Rightarrow> conn" where
  "conn_of s = tcpServer (sys s)"

definition set_conn :: "conn \<Rightarrow> stub \<Rightarrow> stub" where
  "set_conn c s = s\<lparr>sys := (sys s)\<lparr>tcpServer := c\<rparr>\<rparr>"

section \<open>Command functions\<close>

text \<open>\<open>char data[64]\<close> in both; the address is a 32-bit number that wraps.\<close>

fun mem_read_loop :: "dbg_sys \<Rightarrow> u32 \<Rightarrow> nat \<Rightarrow> nat \<Rightarrow> cxx_error + byte list option" where
  "mem_read_loop s addr pos 0 = Inr (Some [])"
| "mem_read_loop s addr pos (Suc len) =
     (case dbg_sys_mem_readb s (addr + word_of_nat pos) of
        Inl e \<Rightarrow> Inl e
      | Inr (r, b) \<Rightarrow>
          if r \<noteq> 0 then Inr None
          else (case mem_read_loop s addr (Suc pos) len of
                  Inl e \<Rightarrow> Inl e | Inr bs \<Rightarrow> Inr (map_option ((#) b) bs)))"

definition dbg_mem_read ::
  "nat \<Rightarrow> u32 \<Rightarrow> nat \<Rightarrow> (nat \<Rightarrow> byte list \<Rightarrow> byte list option) \<Rightarrow> dbg_sys \<Rightarrow> cxx_error + byte list option" where
  "dbg_mem_read buf_len addr len enc s =
     (if len > 64 then Inr None
      else case mem_read_loop s addr 0 len of
             Inl e \<Rightarrow> Inl e
           | Inr None \<Rightarrow> Inr None
           | Inr (Some data) \<Rightarrow> Inr (enc buf_len data))"

fun mem_write_loop :: "u32 \<Rightarrow> nat \<Rightarrow> byte list \<Rightarrow> dbg_sys \<Rightarrow> cxx_error + (int \<times> dbg_sys)" where
  "mem_write_loop addr pos [] s = Inr (0, s)"
| "mem_write_loop addr pos (b # bs) s =
     (case dbg_sys_mem_writeb s (addr + word_of_nat pos) b of
        Inl e \<Rightarrow> Inl e
      | Inr (r, s1) \<Rightarrow> if r \<noteq> 0 then Inr (EOF, s1) else mem_write_loop addr (Suc pos) bs s1)"

definition dbg_mem_write ::
  "byte list \<Rightarrow> u32 \<Rightarrow> nat \<Rightarrow> (byte list \<Rightarrow> nat \<Rightarrow> byte list option) \<Rightarrow> dbg_sys \<Rightarrow> cxx_error + (int \<times> dbg_sys)" where
  "dbg_mem_write buf addr len dec s =
     (if len > 64 then Inr (EOF, s)
      else case dec buf len of None \<Rightarrow> Inr (EOF, s) | Some data \<Rightarrow> mem_write_loop addr 0 data s)"

definition dbg_continue :: "dbg_sys \<Rightarrow> cxx_error + (int \<times> dbg_sys)" where
  "dbg_continue s = dbg_sys_continue s"

definition dbg_step :: "dbg_sys \<Rightarrow> cxx_error + (int \<times> dbg_sys)" where
  "dbg_step s = dbg_sys_step s"

section \<open>Packet creation helpers\<close>

text \<open>
  Every helper builds its packet in the caller's buffer (the OK packet is a literal), which
  keeps the bytes behind it, and returns the status of \<open>dbg_send_packet\<close>.
\<close>

definition send :: "byte list \<Rightarrow> stub \<Rightarrow> int \<times> stub" where
  "send d s = (let (r, c) = dbg_send_packet d (conn_of s) in (r, set_conn c s))"

definition dbg_send_ok_packet :: "stub \<Rightarrow> int \<times> stub" where
  "dbg_send_ok_packet s = send [0x4f, 0x4b] s"

definition send_coded :: "byte \<Rightarrow> byte \<Rightarrow> stub \<Rightarrow> int \<times> stub" where
  "send_coded kind v s =
     (if length (pkt_buf s) < 4 then (EOF, s)
      else let s1 = s\<lparr>pkt_buf := poke (pkt_buf s) 0 [kind]\<rparr> in
        case dbg_enc_hex (length (pkt_buf s) - 1) [v] of
          None \<Rightarrow> (EOF, s1)
        | Some hex \<Rightarrow>
            (let s2 = s1\<lparr>pkt_buf := poke (pkt_buf s1) 1 hex\<rparr>
             in send (take (1 + length hex) (pkt_buf s2)) s2))"

definition dbg_send_signal_packet :: "byte \<Rightarrow> stub \<Rightarrow> int \<times> stub" where
  "dbg_send_signal_packet sig s = send_coded 0x53 sig s"

definition dbg_send_terminated_packet :: "byte \<Rightarrow> stub \<Rightarrow> int \<times> stub" where
  "dbg_send_terminated_packet sig s = send_coded 0x57 sig s"

definition dbg_send_error_packet :: "byte \<Rightarrow> stub \<Rightarrow> int \<times> stub" where
  "dbg_send_error_packet err s = send_coded 0x45 err s"

text \<open>\<open>dbg_send_conmsg_packet\<close>; \<open>None\<close> is a message without a terminating NUL.\<close>

definition dbg_send_conmsg_packet :: "byte list \<Rightarrow> stub \<Rightarrow> (int \<times> stub) option" where
  "dbg_send_conmsg_packet msg s =
     (if length (pkt_buf s) < 2 then Some (EOF, s)
      else let s1 = s\<lparr>pkt_buf := poke (pkt_buf s) 0 [0x4f]\<rparr> in
        case dbg_strlen msg of
          None \<Rightarrow> None
        | Some n \<Rightarrow>
            (case dbg_enc_hex (length (pkt_buf s) - 1) (take n msg) of
               None \<Rightarrow> Some (EOF, s1)
             | Some hex \<Rightarrow>
                 (let s2 = s1\<lparr>pkt_buf := poke (pkt_buf s1) 1 hex\<rparr>
                  in Some (send (take (1 + length hex) (pkt_buf s2)) s2))))"

section \<open>Parsing the arguments of a command\<close>

text \<open>
  The token macros. The result is \<open>Inr None\<close> for \<open>goto error\<close>. \<open>ptr_next\<close> is a
  position; \<open>token_remaining_buf\<close> is a difference of unsigned 64-bit numbers.
\<close>

definition and_then :: "stub_error + 'a option \<Rightarrow> ('a \<Rightarrow> stub_error + 'b option) \<Rightarrow> stub_error + 'b option" where
  "and_then x f = (case x of Inl e \<Rightarrow> Inl e | Inr None \<Rightarrow> Inr None | Inr (Some a) \<Rightarrow> f a)"

definition token_remaining_buf :: "nat \<Rightarrow> nat \<Rightarrow> nat" where
  "token_remaining_buf len ptr_next = unat (word_of_nat len - word_of_nat ptr_next :: u64)"

definition token_expect_seperator :: "byte list \<Rightarrow> byte \<Rightarrow> nat \<Rightarrow> stub_error + nat option" where
  "token_expect_seperator buf c ptr_next =
     (case peek buf ptr_next of
        None \<Rightarrow> Inl BufferOverread
      | Some b \<Rightarrow> Inr (if b \<noteq> c then None else Some (ptr_next + 1)))"

definition token_expect_integer_arg :: "byte list \<Rightarrow> nat \<Rightarrow> nat \<Rightarrow> stub_error + (u32 \<times> nat) option" where
  "token_expect_integer_arg buf len ptr_next =
     (case dbg_strtol buf ptr_next (token_remaining_buf len ptr_next) 16 of
        None \<Rightarrow> Inl BufferOverread
      | Some (_, None) \<Rightarrow> Inr None
      | Some (v, Some p) \<Rightarrow> Inr (Some (v, p)))"

definition parse_breakpoint :: "byte list \<Rightarrow> nat \<Rightarrow> stub_error + u32 option" where
  "parse_breakpoint buf len =
     and_then (token_expect_integer_arg buf len 1) (\<lambda>(is_hw, p1).
     and_then (token_expect_seperator buf ch_comma p1) (\<lambda>p2.
     and_then (token_expect_integer_arg buf len p2) (\<lambda>(addr, p3).
     and_then (token_expect_seperator buf ch_comma p3) (\<lambda>p4.
     and_then (token_expect_integer_arg buf len p4) (\<lambda>(kind, p5). Inr (Some addr))))))"

definition parse_register :: "byte list \<Rightarrow> nat \<Rightarrow> stub_error + u32 option" where
  "parse_register buf len = and_then (token_expect_integer_arg buf len 1) (\<lambda>(addr, p1). Inr (Some addr))"

definition parse_read :: "byte list \<Rightarrow> nat \<Rightarrow> stub_error + (u32 \<times> u32) option" where
  "parse_read buf len =
     and_then (token_expect_integer_arg buf len 1) (\<lambda>(addr, p1).
     and_then (token_expect_seperator buf ch_comma p1) (\<lambda>p2.
     and_then (token_expect_integer_arg buf len p2) (\<lambda>(n, p3). Inr (Some (addr, n)))))"

definition parse_write :: "byte list \<Rightarrow> nat \<Rightarrow> stub_error + (u32 \<times> u32) option" where
  "parse_write buf len =
     and_then (token_expect_integer_arg buf len 1) (\<lambda>(addr, p1).
     and_then (token_expect_seperator buf ch_comma p1) (\<lambda>p2.
     and_then (token_expect_integer_arg buf len p2) (\<lambda>(n, p3).
     and_then (token_expect_seperator buf ch_colon p3) (\<lambda>p4. Inr (Some (addr, n))))))"

section \<open>The commands\<close>

type_synonym handler = "stub \<Rightarrow> stub_error + (flow \<times> stub)"

text \<open>\<open>if (ret == EOF) return -1;\<close> after a reply, and \<open>break\<close> otherwise.\<close>

definition replied :: "int \<times> stub \<Rightarrow> stub_error + (flow \<times> stub)" where
  "replied rs = (case rs of (r, s) \<Rightarrow> Inr (if r = EOF then Return (- 1) else Next, s))"

text \<open>The result of a parser: overread, \<open>goto error\<close>, or the rest of the command.\<close>

definition parsed :: "stub_error + 'a option \<Rightarrow> stub \<Rightarrow> ('a \<Rightarrow> stub_error + (flow \<times> stub)) \<Rightarrow> stub_error + (flow \<times> stub)" where
  "parsed x s f = (case x of Inl e \<Rightarrow> Inl e | Inr None \<Rightarrow> Inr (GotoError, s) | Inr (Some a) \<Rightarrow> f a)"

text \<open>An operation of the target, with its status and the state after it.\<close>

definition target :: "cxx_error + (int \<times> dbg_sys) \<Rightarrow> stub \<Rightarrow> (int \<Rightarrow> stub \<Rightarrow> stub_error + (flow \<times> stub)) \<Rightarrow> stub_error + (flow \<times> stub)" where
  "target x s f = (case x of Inl e \<Rightarrow> Inl (Target e) | Inr (r, y) \<Rightarrow> f r (s\<lparr>sys := y\<rparr>))"

text \<open>Encoded data replaces the front of the buffer and is sent.\<close>

definition send_encoded :: "byte list option \<Rightarrow> handler" where
  "send_encoded enc s =
     (case enc of
        None \<Rightarrow> Inr (GotoError, s)
      | Some hex \<Rightarrow>
          (let s1 = s\<lparr>pkt_buf := poke (pkt_buf s) 0 hex\<rparr> in replied (send (take (length hex) (pkt_buf s1)) s1)))"

definition sig_char :: "stub \<Rightarrow> byte" where
  "sig_char s = ucast (signum (dbg_state (sys s)))"

definition cmd_restart :: handler where
  "cmd_restart s = target (dbg_sys_restart (sys s)) s (\<lambda>r s1. Inr (Next, s1))"

definition cmd_breakpoint :: handler where
  "cmd_breakpoint s =
     parsed (parse_breakpoint (pkt_buf s) (pkt_len s)) s (\<lambda>addr.
       target (if pkt_buf s ! 0 = 0x5a then dbg_sys_add_breakpoint addr (sys s) else dbg_sys_delete_breakpoint addr (sys s)) s
         (\<lambda>r s1. replied (dbg_send_ok_packet s1)))"

definition cmd_read_registers :: handler where
  "cmd_read_registers s =
     (case dbg_enc_hex PKT_BUF_SIZE (concat (map le_bytes32 (registers (dbg_state (sys s))))) of
        None \<Rightarrow> Inr (GotoError, s)
      | Some hex \<Rightarrow> send_encoded (Some hex) (s\<lparr>pkt_len := length hex\<rparr>))"

definition cmd_read_register :: handler where
  "cmd_read_register s =
     parsed (parse_register (pkt_buf s) (pkt_len s)) s (\<lambda>addr.
       if unat addr \<ge> DBG_CPU_RISCV_NUM_REGISTERS then Inr (GotoError, s)
       else send_encoded (dbg_enc_hex PKT_BUF_SIZE (le_bytes32 (registers (dbg_state (sys s)) ! unat addr))) s)"

text \<open>The length is an \<open>int\<close> stored in a \<open>size_t\<close>: a negative one becomes huge.\<close>

definition cmd_read_memory :: handler where
  "cmd_read_memory s =
     parsed (parse_read (pkt_buf s) (pkt_len s)) s (\<lambda>(addr, n).
       case dbg_mem_read PKT_BUF_SIZE addr (unat (scast n :: u64)) dbg_enc_hex (sys s) of
         Inl e \<Rightarrow> Inl (Target e)
       | Inr enc \<Rightarrow> send_encoded enc s)"

definition cmd_write_memory :: handler where
  "cmd_write_memory s =
     parsed (parse_write (pkt_buf s) (pkt_len s)) s (\<lambda>(addr, n). replied (dbg_send_error_packet 1 s))"

text \<open>Continue and step return from \<open>dbg_main\<close>, unless the target has reached its end.\<close>

definition cmd_resume :: "(dbg_sys \<Rightarrow> cxx_error + (int \<times> dbg_sys)) \<Rightarrow> handler" where
  "cmd_resume op s =
     target (op (sys s)) s (\<lambda>r s1.
       if r = - 1 then replied (dbg_send_terminated_packet (sig_char s1) s1) else Inr (Return 0, s1))"

definition cmd_query :: handler where
  "cmd_query s = replied (dbg_send_signal_packet (sig_char s) s)"

definition cmd_ok :: handler where
  "cmd_ok s = replied (dbg_send_ok_packet s)"

definition cmd_unsupported :: handler where
  "cmd_unsupported s = replied (send [] s)"

definition command :: handler where
  "command s =
     (let c = pkt_buf s ! 0 in
      if c = 0x52 then cmd_restart s
      else if c = 0x7a \<or> c = 0x5a then cmd_breakpoint s
      else if c = 0x67 then cmd_read_registers s
      else if c = 0x70 then cmd_read_register s
      else if c = 0x6d then cmd_read_memory s
      else if c = 0x4d then cmd_write_memory s
      else if c = 0x58 then cmd_write_memory s
      else if c = 0x63 then cmd_resume dbg_continue s
      else if c = 0x73 then cmd_resume dbg_step s
      else if c = 0x6b then Inr (Next, s)
      else if c = 0x3f then cmd_query s
      else if c = 0x21 then cmd_ok s
      else if c = 0x54 then cmd_ok s
      else if c = 0x48 then cmd_ok s
      else cmd_unsupported s)"

section \<open>The main loop\<close>

text \<open>One iteration of \<open>while (1)\<close>; the label \<open>error\<close> sends \<open>E00\<close>.\<close>

definition main_step :: handler where
  "main_step s =
     (case dbg_recv_packet (pkt_buf s) (length (pkt_buf s)) (conn_of s) of
        None \<Rightarrow> Inl BufferOverrun
      | Some (None, buf, c) \<Rightarrow> Inr (Return 0, set_conn c (s\<lparr>pkt_buf := buf\<rparr>))
      | Some (Some n, buf, c) \<Rightarrow>
          (let s1 = set_conn c (s\<lparr>pkt_buf := buf, pkt_len := n\<rparr>) in
           if n = 0 then Inr (Next, s1)
           else case command s1 of
                  Inl e \<Rightarrow> Inl e
                | Inr (GotoError, s2) \<Rightarrow> replied (dbg_send_error_packet 0 s2)
                | Inr r \<Rightarrow> Inr r))"

text \<open>Nothing a command does puts characters back into the connection.\<close>

lemma conn_set_conn [simp]: "conn_of (set_conn c s) = c"
  by (simp add: conn_of_def set_conn_def)

lemma conn_upd [simp]: "conn_of (s\<lparr>pkt_buf := b\<rparr>) = conn_of s" "conn_of (s\<lparr>pkt_len := n\<rparr>) = conn_of s"
  by (simp_all add: conn_of_def)

lemma send_size: "send d s = (r, s') \<Longrightarrow> conn_size (conn_of s') \<le> conn_size (conn_of s)"
  by (auto simp: send_def dest: send_packet_size split: prod.splits)

text \<open>A status other than \<open>EOF\<close> means that an acknowledgement was read.\<close>

lemma recv_ack_shrinks: "dbg_recv_ack c = (r, c') \<Longrightarrow> r \<noteq> EOF \<Longrightarrow> conn_size c' < conn_size c"
  using getc_size(2) [of c] by (auto simp: dbg_recv_ack_def Let_def split: prod.splits if_splits)

lemma send_packet_shrinks: "dbg_send_packet d c = (r, c') \<Longrightarrow> r \<noteq> EOF \<Longrightarrow> conn_size c' < conn_size c"
proof -
  assume send: "dbg_send_packet d c = (r, c')" and r: "r \<noteq> EOF"
  obtain r1 c1 r2 c2 where 1: "dbg_sys_putchar ch_dollar c = (r1, c1)" and 2: "dbg_write d c1 = (r2, c2)"
    by fastforce
  obtain r3 c3 where 3: "dbg_write (ch_hash # concat (map hex_of_byte [dbg_checksum d])) c2 = (r3, c3)"
    by fastforce
  have "conn_size c3 = conn_size c"
    using 1 2 3 by (metis putchar_same_rx write_same_rx same_rx_size)
  then show ?thesis
    using send r 1 2 3 recv_ack_shrinks [of c3]
    by (auto simp: dbg_send_packet_def dbg_enc_hex_fits split: if_splits)
qed

lemma recv_start_size: "recv_start c = (ok, c') \<Longrightarrow> conn_size c' \<le> conn_size c \<and> (ok \<longrightarrow> conn_size c' < conn_size c)"
proof (induction c rule: recv_start.induct)
  case (1 c)
  obtain data c1 where get: "dbg_sys_getc c = (data, c1)"
    by fastforce
  show ?case
  proof (cases "data = EOF \<or> data = uint ch_dollar")
    case True
    then show ?thesis
      using 1(2) get getc_size [OF get] by (subst (asm) recv_start.simps) auto
  next
    case False
    then have "recv_start c1 = (ok, c')"
      using 1(2) get by (subst (asm) recv_start.simps) auto
    from 1(1) [OF get [symmetric] refl _ _ this] False getc_size [OF get] show ?thesis
      by auto
  qed
qed

lemma recv_body_size: "recv_body buf lim n c = Some (r, buf', c') \<Longrightarrow> conn_size c' \<le> conn_size c"
proof (induction buf lim n c rule: recv_body.induct)
  case (1 buf lim n c)
  obtain data c1 where get: "dbg_sys_getc c = (data, c1)"
    by fastforce
  show ?case
  proof (cases "data = EOF \<or> data = uint ch_hash \<or> lim \<le> n")
    case True
    then show ?thesis
      using 1(2) get getc_size(1) [OF get] by (subst (asm) recv_body.simps) (auto split: if_splits)
  next
    case False
    then obtain buf1 where buf1: "store buf n (word_of_int data) = Some buf1" "recv_body buf1 lim (Suc n) c1 = Some (r, buf', c')"
      using 1(2) get by (subst (asm) recv_body.simps) (auto split: option.splits)
    from 1(1) [OF get [symmetric] refl _ _ _ buf1] False getc_size(1) [OF get] show ?thesis
      by auto
  qed
qed

lemma dbg_read_size: "dbg_read m n c = (r, c') \<Longrightarrow> conn_size c' \<le> conn_size c"
proof -
  have "dbg_read_loop n c = (r, c') \<Longrightarrow> conn_size c' \<le> conn_size c" for r c'
  proof (induction n arbitrary: c r c')
    case (Suc n)
    obtain data c1 where get: "dbg_sys_getc c = (data, c1)"
      by fastforce
    obtain bs c2 where loop: "dbg_read_loop n c1 = (bs, c2)"
      by fastforce
    from Suc.prems Suc.IH [OF loop] getc_size(1) [OF get] get loop show ?case
      by (auto simp: Let_def split: if_splits)
  qed simp
  then show "dbg_read m n c = (r, c') \<Longrightarrow> conn_size c' \<le> conn_size c"
    by (auto simp: dbg_read_def split: if_splits)
qed

lemma putchar_size: "conn_size (snd (dbg_sys_putchar b c)) = conn_size c"
  by (metis putchar_same_rx same_rx_size prod.collapse)

lemma recv_packet_size:
  assumes "dbg_recv_packet buf lim c = Some (r, buf', c')"
  shows "conn_size c' \<le> conn_size c \<and> (r \<noteq> None \<longrightarrow> conn_size c' < conn_size c)"
proof -
  obtain ok c1 where 1: "recv_start c = (ok, c1)"
    by fastforce
  show ?thesis
  proof (cases "recv_body buf lim 0 c1")
    case None
    then show ?thesis
      using assms 1 recv_start_size [OF 1] by (auto simp: dbg_recv_packet_def split: if_splits)
  next
    case (Some x)
    then obtain n buf1 c2 where 2: "recv_body buf lim 0 c1 = Some (n, buf1, c2)"
      by (metis prod_cases3)
    obtain hex c3 where 3: "dbg_read 2 2 c2 = (hex, c3)"
      by fastforce
    show ?thesis
      using assms 1 2 3 recv_start_size [OF 1] recv_body_size [OF 2] dbg_read_size [OF 3] putchar_size [of _ c3]
      by (auto simp: dbg_recv_packet_def Let_def split: option.splits if_splits)
  qed
qed

text \<open>The operations of the target do not touch the connection, in any state.\<close>

lemma update_state_conn: "dbg_sys_update_state s = Inr s' \<Longrightarrow> tcpServer s' = tcpServer s"
  by (auto simp: dbg_sys_update_state_def split: sum.splits)

lemma target_ops_conn:
  "dbg_sys_continue s = Inr (r, s') \<Longrightarrow> tcpServer s' = tcpServer s"
  "dbg_sys_step s = Inr (r, s') \<Longrightarrow> tcpServer s' = tcpServer s"
  "dbg_sys_restart s = Inr (r, s') \<Longrightarrow> tcpServer s' = tcpServer s"
  "dbg_sys_add_breakpoint a s = Inr (r, s') \<Longrightarrow> tcpServer s' = tcpServer s"
  "dbg_sys_delete_breakpoint a s = Inr (r, s') \<Longrightarrow> tcpServer s' = tcpServer s"
  by (auto simp: dbg_sys_continue_def dbg_sys_step_def dbg_sys_restart_def dbg_sys_add_breakpoint_def
      dbg_sys_delete_breakpoint_def Let_def dest!: update_state_conn split: sum.splits if_splits)

text \<open>What a handler does to the connection is at most to send packets.\<close>

definition shrinks :: "stub \<Rightarrow> stub_error + (flow \<times> stub) \<Rightarrow> bool" where
  "shrinks s x \<longleftrightarrow> (case x of Inl _ \<Rightarrow> True | Inr (_, s') \<Rightarrow> conn_size (conn_of s') \<le> conn_size (conn_of s))"

lemma shrinks_simps [simp]:
  "shrinks s (Inl e)" "shrinks s (Inr (f, s')) \<longleftrightarrow> conn_size (conn_of s') \<le> conn_size (conn_of s)"
  by (simp_all add: shrinks_def)

lemma shrinks_conn: "conn_of t = conn_of s \<Longrightarrow> shrinks t x = shrinks s x"
  by (simp add: shrinks_def split: sum.split prod.split)

lemma shrinks_send: "shrinks s (replied (send d s))"
  by (auto simp: replied_def dest: send_size split: prod.splits)

lemma shrinks_send_coded: "shrinks s (replied (send_coded k v s))"
  using shrinks_send [unfolded shrinks_def]
  by (auto simp: send_coded_def Let_def replied_def dest!: send_size split: option.splits prod.splits)

lemma shrinks_send_encoded: "shrinks s (send_encoded enc s)"
  by (auto simp: send_encoded_def Let_def replied_def dest!: send_size split: option.splits prod.splits)

lemma shrinks_parsed: "(\<And>a. shrinks s (f a)) \<Longrightarrow> shrinks s (parsed x s f)"
  by (simp add: parsed_def split: sum.split option.split)

lemma shrinks_target:
  assumes "\<And>r y. x = Inr (r, y) \<Longrightarrow> tcpServer y = tcpServer (sys s)"
    and "\<And>r s1. conn_of s1 = conn_of s \<Longrightarrow> shrinks s1 (f r s1)"
  shows "shrinks s (target x s f)"
proof (cases x)
  case (Inr ry)
  obtain r y where "ry = (r, y)"
    by fastforce
  with Inr assms(1) have "conn_of (s\<lparr>sys := y\<rparr>) = conn_of s"
    by (simp add: conn_of_def)
  from assms(2) [OF this, of r] show ?thesis
    using Inr \<open>ry = (r, y)\<close> by (simp add: target_def shrinks_conn [OF \<open>conn_of (s\<lparr>sys := y\<rparr>) = conn_of s\<close>])
qed (simp add: target_def)

lemma shrinks_command: "shrinks s (command s)"
proof -
  note sends = shrinks_send shrinks_send_coded shrinks_send_encoded
  have "shrinks s (cmd_restart s)"
    unfolding cmd_restart_def by (rule shrinks_target) (use target_ops_conn in auto)
  moreover have "shrinks s (cmd_breakpoint s)"
    unfolding cmd_breakpoint_def dbg_send_ok_packet_def
    by (intro shrinks_parsed shrinks_target sends) (use target_ops_conn in \<open>auto split: if_splits\<close>)
  moreover have "shrinks s (cmd_read_registers s)"
  proof -
    have "shrinks s (send_encoded enc (s\<lparr>pkt_len := n\<rparr>))" for enc n
      using shrinks_send_encoded [of "s\<lparr>pkt_len := n\<rparr>" enc] shrinks_conn [of "s\<lparr>pkt_len := n\<rparr>" s] by simp
    then show ?thesis
      by (simp add: cmd_read_registers_def split: option.split)
  qed
  moreover have "shrinks s (cmd_read_register s)"
    unfolding cmd_read_register_def by (intro shrinks_parsed) (simp add: sends)
  moreover have "shrinks s (cmd_read_memory s)"
    unfolding cmd_read_memory_def by (intro shrinks_parsed) (auto simp: sends split: sum.split)
  moreover have "shrinks s (cmd_write_memory s)"
    unfolding cmd_write_memory_def dbg_send_error_packet_def by (intro shrinks_parsed) (auto simp: sends)
  moreover have "shrinks s (cmd_resume op s)" if "op = dbg_continue \<or> op = dbg_step" for op
    unfolding cmd_resume_def dbg_send_terminated_packet_def
    by (rule shrinks_target) (use that target_ops_conn sends in \<open>auto simp: dbg_continue_def dbg_step_def\<close>)
  moreover have "shrinks s (cmd_query s)" "shrinks s (cmd_ok s)" "shrinks s (cmd_unsupported s)"
    by (simp_all add: cmd_query_def dbg_send_signal_packet_def cmd_ok_def dbg_send_ok_packet_def cmd_unsupported_def sends)
  ultimately show ?thesis
    by (simp add: command_def Let_def)
qed

lemma main_step_size:
  assumes "main_step s = Inr (f, s')"
  shows "conn_size (conn_of s') \<le> conn_size (conn_of s)" and "f = Next \<or> f = GotoError \<Longrightarrow> conn_size (conn_of s') < conn_size (conn_of s)"
proof -
  obtain r buf c where recv: "dbg_recv_packet (pkt_buf s) (length (pkt_buf s)) (conn_of s) = Some (r, buf, c)"
    using recv_packet_bounds [of "length (pkt_buf s)" "pkt_buf s" "conn_of s"] by blast
  note size = recv_packet_size [OF recv]
  have "conn_size (conn_of s') \<le> conn_size (conn_of s) \<and> (f = Next \<or> f = GotoError \<longrightarrow> conn_size (conn_of s') < conn_size (conn_of s))"
  proof (cases r)
    case None
    then show ?thesis
      using assms recv size by (auto simp: main_step_def)
  next
    case (Some n)
    define s1 where "s1 = set_conn c (s\<lparr>pkt_buf := buf, pkt_len := n\<rparr>)"
    have "conn_size (conn_of s') \<le> conn_size (conn_of s1)"
    proof (cases "n = 0")
      case True
      then show ?thesis
        using assms recv Some by (auto simp: main_step_def s1_def Let_def)
    next
      case False
      then obtain g s2 where cmd: "command s1 = Inr (g, s2)"
        using assms recv Some by (auto simp: main_step_def s1_def Let_def split: sum.splits)
      have "conn_size (conn_of s2) \<le> conn_size (conn_of s1)"
        using shrinks_command [of s1] cmd by simp
      moreover have "shrinks s2 (replied (dbg_send_error_packet 0 s2))"
        by (simp add: dbg_send_error_packet_def shrinks_send_coded)
      ultimately show ?thesis
        using assms recv Some cmd False
        by (cases g) (auto simp: main_step_def s1_def [symmetric] Let_def shrinks_def)
    qed
    then show ?thesis
      using size Some by (simp add: s1_def)
  qed
  then show "conn_size (conn_of s') \<le> conn_size (conn_of s)" "f = Next \<or> f = GotoError \<Longrightarrow> conn_size (conn_of s') < conn_size (conn_of s)"
    by blast+
qed

function main_loop :: "stub \<Rightarrow> stub_error + (int \<times> stub)" where
  "main_loop s =
     (case main_step s of
        Inl e \<Rightarrow> Inl e
      | Inr (Return r, s1) \<Rightarrow> Inr (r, s1)
      | Inr (_, s1) \<Rightarrow> main_loop s1)"
  by pat_completeness auto
termination
  by (relation "measure (\<lambda>s. conn_size (conn_of s))") (auto dest: main_step_size)

declare main_loop.simps [simp del]

text \<open>
  \<open>dbg_main\<close> reports the stop first. \<open>stack\<close> is what the activation finds in its
  uninitialised packet buffer.
\<close>

definition dbg_main :: "byte list \<Rightarrow> dbg_sys \<Rightarrow> stub_error + (int \<times> stub)" where
  "dbg_main stack y =
     (let s = \<lparr>sys = y, pkt_buf = stack, pkt_len = 0\<rparr>;
          (ret, s1) = dbg_send_signal_packet (sig_char s) s
      in if ret = EOF then Inr (- 1, s1) else main_loop s1)"

lemma main_loop_size: "main_loop s = Inr (r, s') \<Longrightarrow> conn_size (conn_of s') \<le> conn_size (conn_of s)"
proof (induction s rule: main_loop.induct)
  case (1 s)
  obtain f s1 where step: "main_step s = Inr (f, s1)"
    using 1(3) by (subst (asm) main_loop.simps) (auto split: sum.splits)
  note size = main_step_size [OF step]
  show ?case
  proof (cases f)
    case (Return x)
    then show ?thesis
      using 1(3) step size by (subst (asm) main_loop.simps) auto
  next
    case Next
    then have "main_loop s1 = Inr (r, s')"
      using 1(3) step by (subst (asm) main_loop.simps) auto
    from 1(1) [OF step refl Next this] size show ?thesis
      by simp
  next
    case GotoError
    then have "main_loop s1 = Inr (r, s')"
      using 1(3) step by (subst (asm) main_loop.simps) auto
    from 1(2) [OF step refl GotoError this] size show ?thesis
      by simp
  qed
qed

lemma send_coded_shrinks: "send_coded k v s = (r, s') \<Longrightarrow> r \<noteq> EOF \<Longrightarrow> conn_size (conn_of s') < conn_size (conn_of s)"
  by (auto simp: send_coded_def send_def Let_def dest: send_packet_shrinks split: if_splits option.splits prod.splits)

lemma dbg_main_shrinks:
  assumes "dbg_main stack y = Inr (0, s')"
  shows "conn_size (conn_of s') < conn_size (tcpServer y)"
proof -
  define s where "s = \<lparr>sys = y, pkt_buf = stack, pkt_len = 0\<rparr>"
  obtain ret s1 where start: "dbg_send_signal_packet (sig_char s) s = (ret, s1)"
    by fastforce
  have "ret \<noteq> EOF" "main_loop s1 = Inr (0, s')"
    using assms start by (auto simp: dbg_main_def s_def [symmetric] Let_def split: if_splits)
  with main_loop_size [OF this(2)] send_coded_shrinks [OF start [unfolded dbg_send_signal_packet_def]]
  show ?thesis
    by (simp add: s_def conn_of_def)
qed

text \<open>
  The loop of \<open>dbg_sys_init\<close>: \<open>dbg_main\<close> is entered again as long as it returns 0. The
  \<open>k\<close>-th activation finds \<open>stacks k\<close> in its buffer.
\<close>

function sys_loop :: "(nat \<Rightarrow> byte list) \<Rightarrow> nat \<Rightarrow> dbg_sys \<Rightarrow> stub_error + dbg_sys" where
  "sys_loop stacks k y =
     (case dbg_main (stacks k) y of
        Inl e \<Rightarrow> Inl e
      | Inr (ret, s) \<Rightarrow> if ret = 0 then sys_loop stacks (Suc k) (sys s) else Inr (sys s))"
  by pat_completeness auto
termination
  by (relation "measure (\<lambda>(stacks, k, y). conn_size (tcpServer y))") (auto dest: dbg_main_shrinks simp: conn_of_def)

declare sys_loop.simps [simp del]

definition dbg_sys_init :: "(nat \<Rightarrow> byte list) \<Rightarrow> dbg_sys \<Rightarrow> stub_error + dbg_sys" where
  "dbg_sys_init stacks y =
     (case dbg_sys_init_state y of Inl e \<Rightarrow> Inl (Target e) | Inr y1 \<Rightarrow> sys_loop stacks 0 y1)"

end
