(* ===== verification/Gdb_Session.thy ===== *)
theory Gdb_Session
  imports Gdb_Stub
begin

text \<open>
  What a GDB client gets from the stub: the functional behaviour of the loop body of
  \<open>dbg_main\<close> on the packets of a client, the safety of the loop against any input, and
  the places where the stub departs from the protocol.
\<close>

section \<open>Sending and receiving in the state of the stub\<close>

definition stub_ok :: "stub \<Rightarrow> bool" where
  "stub_ok s \<longleftrightarrow> conn_wf (conn_of s) \<and> link_up (conn_of s) \<and> length (pkt_buf s) = PKT_BUF_SIZE \<and> sys_wf (sys s)"

text \<open>The system apart from its connection.\<close>

definition same_sys :: "dbg_sys \<Rightarrow> dbg_sys \<Rightarrow> bool" where
  "same_sys y y' \<longleftrightarrow> y' = y\<lparr>tcpServer := tcpServer y'\<rparr>"

lemma same_sys_refl [simp]: "same_sys y y"
  by (simp add: same_sys_def)

lemma same_sys_trans: "same_sys x y \<Longrightarrow> same_sys y z \<Longrightarrow> same_sys x z"
  by (cases x; cases y; cases z) (simp add: same_sys_def)

lemma same_sys_set_conn [simp]: "same_sys (sys s) (sys (set_conn c s))"
  by (simp add: same_sys_def set_conn_def)

lemma same_sys_D:
  assumes "same_sys y y'"
  shows "pcs y' = pcs y" "pc_it y' = pc_it y" "sys_regs y' = sys_regs y" "sys_mem y' = sys_mem y"
    "dbg_state y' = dbg_state y" "breakpoints y' = breakpoints y" "cpuTrace y' = cpuTrace y" "sys_wf y' = sys_wf y"
proof -
  obtain c where "y' = y\<lparr>tcpServer := c\<rparr>"
    using assms unfolding same_sys_def by blast
  then show "pcs y' = pcs y" "pc_it y' = pc_it y" "sys_regs y' = sys_regs y" "sys_mem y' = sys_mem y"
    "dbg_state y' = dbg_state y" "breakpoints y' = breakpoints y" "cpuTrace y' = cpuTrace y" "sys_wf y' = sys_wf y"
    by (simp_all add: sys_wf_def)
qed

lemma set_conn_simps [simp]:
  "pkt_buf (set_conn c s) = pkt_buf s" "pkt_len (set_conn c s) = pkt_len s" "sys_wf (sys (set_conn c s)) = sys_wf (sys s)"
  by (simp_all add: set_conn_def sys_wf_def)

text \<open>
  The reply to a packet: one frame, the client's acknowledgement taken from the input, and
  the loop left with -1 when that is neither \<open>+\<close> nor \<open>-\<close>.
\<close>

definition after_ack :: "byte option list \<Rightarrow> flow" where
  "after_ack rest = (if ack_status rest = EOF then Return (- 1) else Next)"

definition replies :: "stub \<Rightarrow> byte list \<Rightarrow> stub_error + (flow \<times> stub) \<Rightarrow> bool" where
  "replies s d x \<longleftrightarrow> (\<exists>s'. x = Inr (after_ack (in_stream (conn_of s)), s') \<and> tx_out (conn_of s') = tx_out (conn_of s) @ frame d \<and>
     in_stream (conn_of s') = tl (in_stream (conn_of s)) \<and> stub_ok s' \<and> same_sys (sys s) (sys s'))"

lemma replied_send:
  assumes "stub_ok s" "\<forall>b \<in> set d. b \<noteq> - 1"
  shows "replies s d (replied (send d s))"
proof -
  obtain c where "dbg_send_packet d (conn_of s) = (ack_status (in_stream (conn_of s)), c)"
    "tx_out c = tx_out (conn_of s) @ frame d" "in_stream c = tl (in_stream (conn_of s))" "link_up c" "conn_wf c"
    using send_packet_frame [of "conn_of s" d] assms by (auto simp: stub_ok_def)
  moreover from this have "stub_ok (set_conn c s)"
    using assms(1) by (simp add: stub_ok_def)
  ultimately show ?thesis
    unfolding replies_def by (intro exI [of _ "set_conn c s"]) (simp add: replied_def send_def after_ack_def)
qed

lemma replies_buf:
  "conn_of t = conn_of s \<Longrightarrow> sys t = sys s \<Longrightarrow> replies t d x \<Longrightarrow> replies s d x"
  by (simp add: replies_def)

lemma hex_not_EOF: "b \<in> set (concat (map hex_of_byte data)) \<Longrightarrow> b \<noteq> - 1"
  using set_concat_hex [of data] digits_not_special by blast

lemma replied_coded:
  assumes "stub_ok s" "k \<noteq> - 1"
  shows "replies s (k # hex_of_byte v) (replied (send_coded k v s))"
proof -
  have len: "length (pkt_buf s) = 512"
    using assms(1) by (simp add: stub_ok_def)
  then obtain a b c rest where buf: "pkt_buf s = a # b # c # rest"
    by (cases "pkt_buf s"; cases "tl (pkt_buf s)"; cases "tl (tl (pkt_buf s))") auto
  define t where "t = s\<lparr>pkt_buf := k # hex_of_byte v @ rest\<rparr>"
  have "send_coded k v s = send (k # hex_of_byte v) t"
    using len by (simp add: send_coded_def Let_def dbg_enc_hex_fits buf poke_def hex_of_byte_def t_def)
  moreover have "stub_ok t"
    using assms(1) len by (simp add: stub_ok_def t_def buf hex_of_byte_def)
  moreover have "\<forall>x \<in> set (k # hex_of_byte v). x \<noteq> - 1"
    using assms(2) set_hex_of_byte [of v] digits_not_special by auto
  ultimately have "replies t (k # hex_of_byte v) (replied (send_coded k v s))"
    using replied_send by simp
  then show ?thesis
    by (rule replies_buf [rotated 2]) (simp_all add: t_def)
qed

lemma replied_encoded:
  assumes "stub_ok s" "length data * 2 \<le> 512"
  shows "replies s (concat (map hex_of_byte data)) (send_encoded (dbg_enc_hex 512 data) s)"
proof -
  let ?hex = "concat (map hex_of_byte data)"
  have len: "length (pkt_buf s) = 512"
    using assms(1) by (simp add: stub_ok_def)
  define t where "t = s\<lparr>pkt_buf := poke (pkt_buf s) 0 ?hex\<rparr>"
  have "send_encoded (dbg_enc_hex 512 data) s = replied (send ?hex t)"
    using assms(2) len by (simp add: send_encoded_def dbg_enc_hex_fits Let_def t_def poke_at_0)
  moreover have "stub_ok t"
    using assms len by (simp add: stub_ok_def t_def)
  ultimately have "replies t ?hex (send_encoded (dbg_enc_hex 512 data) s)"
    using replied_send hex_not_EOF by simp
  then show ?thesis
    by (rule replies_buf [rotated 2]) (simp_all add: t_def)
qed

text \<open>The packet is received, acknowledged and in the buffer, over the bytes of earlier packets.\<close>

lemma main_step_request:
  assumes "stub_ok s" "in_stream (conn_of s) = map Some (frame d) @ rest" "ch_hash \<notin> set d" "length d \<le> 512" "d \<noteq> []"
  obtains s1 where "stub_ok s1" "in_stream (conn_of s1) = rest" "tx_out (conn_of s1) = tx_out (conn_of s) @ [ch_plus]"
    "pkt_buf s1 = d @ drop (length d) (pkt_buf s)" "pkt_len s1 = length d" "same_sys (sys s) (sys s1)"
    "main_step s = (case command s1 of
        Inl e \<Rightarrow> Inl e | Inr (GotoError, s2) \<Rightarrow> replied (dbg_send_error_packet 0 s2) | Inr r \<Rightarrow> Inr r)"
proof -
  have ok: "conn_wf (conn_of s)" "link_up (conn_of s)" "length (pkt_buf s) = 512"
    using assms(1) by (simp_all add: stub_ok_def)
  obtain h l where hl: "hex_of_byte (dbg_checksum d) = [h, l]" "is_hex_char h" "is_hex_char l"
    and dec: "dbg_dec_hex [h, l] 1 = Some [dbg_checksum d]"
    by (rule hex_of_byte_pair)
  have st: "in_stream (conn_of s) = map Some ([] @ ch_dollar # d @ [ch_hash, h, l]) @ rest"
    using assms(2) by (simp add: frame_def hl)
  have junk: "ch_dollar \<notin> set []" and lim: "512 \<le> length (pkt_buf s)"
    using ok(3) by simp_all
  obtain c' x where x: "dbg_dec_hex [h, l] 1 = Some [x]" and c': "in_stream c' = rest" "conn_wf c'" "same_tx (conn_of s) c'"
    and recv: "dbg_recv_packet (pkt_buf s) (length (pkt_buf s)) (conn_of s) =
      (if x \<noteq> dbg_checksum d
       then Some (None, d @ drop (length d) (pkt_buf s), snd (dbg_sys_putchar ch_minus c'))
       else Some (Some (length d), d @ drop (length d) (pkt_buf s), snd (dbg_sys_putchar ch_plus c')))"
    using recv_packet_checksum [OF ok(1) st junk assms(3) assms(4) lim hl(2,3)] ok(3) by metis
  have "x = dbg_checksum d"
    using x dec by simp
  note c' = c' recv [unfolded this, simplified]
  obtain r c'' where put: "dbg_sys_putchar ch_plus c' = (r, c'')"
    by fastforce
  have c'': "tx_out c'' = tx_out (conn_of s) @ [ch_plus]" "link_up c''" "in_stream c'' = rest" "conn_wf c''"
  proof -
    have up: "link_up c'"
      using c'(3) ok(2) by (simp add: same_tx_link_up)
    show "tx_out c'' = tx_out (conn_of s) @ [ch_plus]" "link_up c''"
      using tcp_out.putc_ok [OF up put] c'(3) by (simp_all add: same_tx_def)
    show "in_stream c'' = rest" "conn_wf c''"
      using same_rx_stream [OF putchar_same_rx [OF put]] c'(1,2) by simp_all
  qed
  define s1 where "s1 = set_conn c'' (s\<lparr>pkt_buf := d @ drop (length d) (pkt_buf s), pkt_len := length d\<rparr>)"
  show thesis
  proof (rule that [of s1])
    show "stub_ok s1"
      using assms(1,4) c'' ok(3) by (simp add: stub_ok_def s1_def)
    show "same_sys (sys s) (sys s1)"
      by (simp add: s1_def set_conn_def same_sys_def)
    show "main_step s = (case command s1 of
        Inl e \<Rightarrow> Inl e | Inr (GotoError, s2) \<Rightarrow> replied (dbg_send_error_packet 0 s2) | Inr r \<Rightarrow> Inr r)"
      unfolding main_step_def c'(4) put s1_def using assms(5) by simp
  qed (use c'' in \<open>simp_all add: s1_def\<close>)
qed

text \<open>The reply to a whole request, the acknowledgement of the request included.\<close>

definition served :: "stub \<Rightarrow> byte option list \<Rightarrow> byte list \<Rightarrow> dbg_sys \<Rightarrow> bool" where
  "served s rest reply y \<longleftrightarrow> (\<exists>s'. main_step s = Inr (after_ack rest, s') \<and>
     tx_out (conn_of s') = tx_out (conn_of s) @ ch_plus # frame reply \<and> in_stream (conn_of s') = tl rest \<and>
     stub_ok s' \<and> same_sys y (sys s'))"

lemma served_command:
  assumes "stub_ok s" "in_stream (conn_of s) = map Some (frame d) @ rest" "ch_hash \<notin> set d" "length d \<le> 512" "d \<noteq> []"
    and "\<And>s1. stub_ok s1 \<Longrightarrow> pkt_buf s1 = d @ drop (length d) (pkt_buf s) \<Longrightarrow> pkt_len s1 = length d \<Longrightarrow>
      same_sys (sys s) (sys s1) \<Longrightarrow>
      (command s1 = Inr (GotoError, s1) \<and> reply = 0x45 # hex_of_byte 0 \<and> same_sys y (sys s1) \<or>
       (\<exists>t. conn_of t = conn_of s1 \<and> same_sys y (sys t) \<and> replies t reply (command s1)))"
  shows "served s rest reply y"
proof -
  obtain s1 where s1: "stub_ok s1" "in_stream (conn_of s1) = rest" "tx_out (conn_of s1) = tx_out (conn_of s) @ [ch_plus]"
    "pkt_buf s1 = d @ drop (length d) (pkt_buf s)" "pkt_len s1 = length d" "same_sys (sys s) (sys s1)"
    "main_step s = (case command s1 of
        Inl e \<Rightarrow> Inl e | Inr (GotoError, s2) \<Rightarrow> replied (dbg_send_error_packet 0 s2) | Inr r \<Rightarrow> Inr r)"
    using main_step_request [OF assms(1-5)] .
  have not_goto: "after_ack rest \<noteq> GotoError"
    by (simp add: after_ack_def)
  have "\<exists>t. conn_of t = conn_of s1 \<and> same_sys y (sys t) \<and> replies t reply (main_step s)"
    using assms(6) [OF s1(1,4,5,6)]
  proof
    assume err: "command s1 = Inr (GotoError, s1) \<and> reply = 0x45 # hex_of_byte 0 \<and> same_sys y (sys s1)"
    then have "main_step s = replied (send_coded 0x45 0 s1)"
      by (simp add: s1(7) dbg_send_error_packet_def)
    then show ?thesis
      using replied_coded [OF s1(1), of "0x45" 0] err by auto
  next
    assume "\<exists>t. conn_of t = conn_of s1 \<and> same_sys y (sys t) \<and> replies t reply (command s1)"
    then obtain t where t: "conn_of t = conn_of s1" "same_sys y (sys t)" "replies t reply (command s1)"
      by blast
    then obtain s' where "command s1 = Inr (after_ack rest, s')"
      by (auto simp: replies_def s1(2))
    then have "main_step s = command s1"
      using not_goto by (auto simp: s1(7) split: flow.splits)
    with t show ?thesis
      by metis
  qed
  then obtain t s' where "conn_of t = conn_of s1" "same_sys y (sys t)" "main_step s = Inr (after_ack rest, s')"
    "tx_out (conn_of s') = tx_out (conn_of s1) @ frame reply" "in_stream (conn_of s') = tl rest" "stub_ok s'" "same_sys (sys t) (sys s')"
    by (auto simp: replies_def s1(2))
  then show ?thesis
    unfolding served_def by (intro exI [of _ s']) (auto simp: s1(3) intro: same_sys_trans)
qed

section \<open>Parsing the commands a client prints\<close>

lemma remaining_in: "p \<le> n \<Longrightarrow> n \<le> 512 \<Longrightarrow> token_remaining_buf n p = n - p"
proof -
  assume p: "p \<le> n" "n \<le> 512"
  then have "word_of_nat n - word_of_nat p = (word_of_nat (n - p) :: u64)"
    by simp
  moreover have "n - p < 2 ^ 64"
    using p by simp
  ultimately show ?thesis
    unfolding token_remaining_buf_def by (simp only: unsigned_of_nat take_bit_nat_eq_self_iff [THEN iffD2]) (simp add: take_bit_nat_eq_self)
qed

lemma integer_arg_spec:
  assumes "p \<le> length d" "length d \<le> 512"
  shows "token_expect_integer_arg (d @ stale) (length d) p =
    Inr (case strtol_spec (drop p d) 16 of None \<Rightarrow> None | Some (v, n) \<Rightarrow> Some (word_of_int v, p + n))"
proof -
  have "p + (length d - p) \<le> length (d @ stale)"
    using assms by simp
  from dbg_strtol_spec [OF this, of 16] show ?thesis
    using assms by (simp add: token_expect_integer_arg_def remaining_in split: option.split)
qed

lemma integer_arg_number:
  assumes "length (xs @ hex_of_nat n @ ys) \<le> 512" "stops_number ys"
  shows "token_expect_integer_arg ((xs @ hex_of_nat n @ ys) @ stale) (length (xs @ hex_of_nat n @ ys)) (length xs) =
    Inr (Some (word_of_nat n, length (xs @ hex_of_nat n)))"
  using integer_arg_spec [of "length xs" "xs @ hex_of_nat n @ ys" stale] assms strtol_spec_hex_of_nat [OF assms(2)]
  by (simp add: add.commute)

lemma seperator_here: "token_expect_seperator (xs @ c # ys) c (length xs) = Inr (Some (length xs + 1))"
  by (simp add: token_expect_seperator_def)

lemma hex_of_nat_length: "n < 16 ^ Suc k \<Longrightarrow> length (hex_of_nat n) \<le> Suc k"
proof (induction k arbitrary: n)
  case (Suc k)
  then have "n div 16 < 16 ^ Suc k"
    by (simp add: less_mult_imp_div_less mult.commute)
  with Suc.IH show ?case
    by (subst hex_of_nat.simps) simp
qed (subst hex_of_nat.simps, simp)

lemma hex_of_nat_u32: "n < 2 ^ 32 \<Longrightarrow> length (hex_of_nat n) \<le> 8"
  using hex_of_nat_length [of n 7] by simp

lemma hex_of_nat_clean: "ch_hash \<notin> set (hex_of_nat n)"
  using set_hex_of_nat [of n] digits_not_special [of ch_hash] by (auto simp: is_special_def)

lemma stops_number_simps [simp]: "stops_number []" "stops_number (ch_comma # xs)" "stops_number (ch_colon # xs)"
  by (simp_all add: stops_number_def dbg_get_val_def)

lemmas parse_defs = parse_breakpoint_def parse_register_def parse_read_def parse_write_def and_then_def

text \<open>The packets of the client: \<open>m addr,length\<close>, \<open>p n\<close>, \<open>Z0,addr,kind\<close> and \<open>z0,addr,kind\<close>.\<close>

definition read_request :: "nat \<Rightarrow> nat \<Rightarrow> byte list" where
  "read_request addr n = 0x6d # hex_of_nat addr @ ch_comma # hex_of_nat n"

definition register_request :: "nat \<Rightarrow> byte list" where
  "register_request n = 0x70 # hex_of_nat n"

definition breakpoint_request :: "byte \<Rightarrow> nat \<Rightarrow> nat \<Rightarrow> nat \<Rightarrow> byte list" where
  "breakpoint_request c ty addr kind = c # hex_of_nat ty @ ch_comma # hex_of_nat addr @ ch_comma # hex_of_nat kind"

definition write_request :: "byte \<Rightarrow> nat \<Rightarrow> nat \<Rightarrow> byte list \<Rightarrow> byte list" where
  "write_request c addr n data = c # hex_of_nat addr @ ch_comma # hex_of_nat n @ ch_colon # data"

lemma parse_read_request:
  assumes "length (read_request a n) \<le> 512"
  shows "parse_read (read_request a n @ stale) (length (read_request a n)) = Inr (Some (word_of_nat a, word_of_nat n))"
proof -
  let ?d = "read_request a n" and ?x1 = "0x6d # hex_of_nat a"
  have d: "?d = [0x6d] @ hex_of_nat a @ ch_comma # hex_of_nat n" "?d = (?x1 @ [ch_comma]) @ hex_of_nat n @ []"
    by (simp_all add: read_request_def)
  have 1: "token_expect_integer_arg (?d @ stale) (length ?d) 1 = Inr (Some (word_of_nat a, length ?x1))"
    using integer_arg_number [of "[0x6d]" a "ch_comma # hex_of_nat n" stale] assms unfolding d(1) by simp
  have 2: "token_expect_seperator (?d @ stale) ch_comma (length ?x1) = Inr (Some (length (?x1 @ [ch_comma])))"
    using seperator_here [of ?x1 ch_comma "hex_of_nat n @ stale"] by (simp add: read_request_def)
  have 3: "token_expect_integer_arg (?d @ stale) (length ?d) (length (?x1 @ [ch_comma])) =
      Inr (Some (word_of_nat n, length ?d))"
    using integer_arg_number [of "?x1 @ [ch_comma]" n "[]" stale] assms unfolding d(2) by simp
  show ?thesis
    by (simp only: parse_read_def 1 and_then_def sum.case option.case prod.case 2 3)
qed

lemma parse_register_request:
  assumes "length (register_request n) \<le> 512"
  shows "parse_register (register_request n @ stale) (length (register_request n)) = Inr (Some (word_of_nat n))"
  using integer_arg_number [of "[0x70]" n "[]" stale] assms
  by (simp add: parse_register_def register_request_def and_then_def)

lemma parse_breakpoint_request:
  assumes "length (breakpoint_request c ty a kind) \<le> 512"
  shows "parse_breakpoint (breakpoint_request c ty a kind @ stale) (length (breakpoint_request c ty a kind)) =
    Inr (Some (word_of_nat a))"
proof -
  let ?d = "breakpoint_request c ty a kind" and ?x1 = "c # hex_of_nat ty"
  let ?x2 = "?x1 @ ch_comma # hex_of_nat a"
  have d: "?d = [c] @ hex_of_nat ty @ ch_comma # hex_of_nat a @ ch_comma # hex_of_nat kind"
    "?d = (?x1 @ [ch_comma]) @ hex_of_nat a @ ch_comma # hex_of_nat kind" "?d = (?x2 @ [ch_comma]) @ hex_of_nat kind @ []"
    by (simp_all add: breakpoint_request_def)
  have 1: "token_expect_integer_arg (?d @ stale) (length ?d) 1 = Inr (Some (word_of_nat ty, length ?x1))"
    using integer_arg_number [of "[c]" ty "ch_comma # hex_of_nat a @ ch_comma # hex_of_nat kind" stale] assms
    unfolding d(1) by simp
  have 2: "token_expect_seperator (?d @ stale) ch_comma (length ?x1) = Inr (Some (length (?x1 @ [ch_comma])))"
    using seperator_here [of ?x1 ch_comma "hex_of_nat a @ ch_comma # hex_of_nat kind @ stale"]
    by (simp add: breakpoint_request_def)
  have 3: "token_expect_integer_arg (?d @ stale) (length ?d) (length (?x1 @ [ch_comma])) =
      Inr (Some (word_of_nat a, length ?x2))"
    using integer_arg_number [of "?x1 @ [ch_comma]" a "ch_comma # hex_of_nat kind" stale] assms unfolding d(2) by simp
  have 4: "token_expect_seperator (?d @ stale) ch_comma (length ?x2) = Inr (Some (length (?x2 @ [ch_comma])))"
    using seperator_here [of ?x2 ch_comma "hex_of_nat kind @ stale"] by (simp add: breakpoint_request_def)
  have 5: "token_expect_integer_arg (?d @ stale) (length ?d) (length (?x2 @ [ch_comma])) =
      Inr (Some (word_of_nat kind, length ?d))"
    using integer_arg_number [of "?x2 @ [ch_comma]" kind "[]" stale] assms unfolding d(3) by simp
  show ?thesis
    by (simp only: parse_breakpoint_def 1 and_then_def sum.case option.case prod.case 2 3 4 5)
qed

lemma parse_write_request:
  assumes "length (write_request c a n data) \<le> 512"
  shows "parse_write (write_request c a n data @ stale) (length (write_request c a n data)) =
    Inr (Some (word_of_nat a, word_of_nat n))"
proof -
  let ?d = "write_request c a n data" and ?x1 = "c # hex_of_nat a"
  let ?x2 = "?x1 @ ch_comma # hex_of_nat n"
  have d: "?d = [c] @ hex_of_nat a @ ch_comma # hex_of_nat n @ ch_colon # data"
    "?d = (?x1 @ [ch_comma]) @ hex_of_nat n @ ch_colon # data"
    by (simp_all add: write_request_def)
  have 1: "token_expect_integer_arg (?d @ stale) (length ?d) 1 = Inr (Some (word_of_nat a, length ?x1))"
    using integer_arg_number [of "[c]" a "ch_comma # hex_of_nat n @ ch_colon # data" stale] assms unfolding d(1) by simp
  have 2: "token_expect_seperator (?d @ stale) ch_comma (length ?x1) = Inr (Some (length (?x1 @ [ch_comma])))"
    using seperator_here [of ?x1 ch_comma "hex_of_nat n @ ch_colon # data @ stale"] by (simp add: write_request_def)
  have 3: "token_expect_integer_arg (?d @ stale) (length ?d) (length (?x1 @ [ch_comma])) =
      Inr (Some (word_of_nat n, length ?x2))"
    using integer_arg_number [of "?x1 @ [ch_comma]" n "ch_colon # data" stale] assms unfolding d(2) by simp
  have 4: "token_expect_seperator (?d @ stale) ch_colon (length ?x2) = Inr (Some (length (?x2 @ [ch_colon])))"
    using seperator_here [of ?x2 ch_colon "data @ stale"] by (simp add: write_request_def)
  show ?thesis
    by (simp only: parse_write_def 1 and_then_def sum.case option.case prod.case 2 3 4)
qed

section \<open>The commands on well-formed requests\<close>

definition byte_at :: "dbg_sys \<Rightarrow> u32 \<Rightarrow> byte" where
  "byte_at y addr = snd (MemTrace_getValue (sys_mem y) (pv_time (pcs y ! pc_it y)) (ucast addr))"

lemma mem_read_loop_bytes:
  "sys_wf y \<Longrightarrow> mem_read_loop y addr pos n = Inr (Some (map (\<lambda>i. byte_at y (addr + word_of_nat i)) [pos..<pos + n]))"
proof (induction n arbitrary: pos)
  case (Suc n)
  then have "dbg_sys_mem_readb y (addr + word_of_nat pos) = Inr (0, byte_at y (addr + word_of_nat pos))"
    by (simp add: dbg_sys_mem_readb_def deref_it_def sys_wf_def byte_at_def)
  moreover have "[pos..<pos + Suc n] = pos # [Suc pos..<Suc pos + n]"
    by (simp add: upt_rec)
  ultimately show ?case
    using Suc by (simp del: upt_Suc)
qed simp

lemma length_size: "n \<le> 64 \<Longrightarrow> unat (scast (word_of_nat n :: u32) :: u64) = n"
proof -
  assume "n \<le> 64"
  then have "n \<in> set [0..<65]"
    by simp
  moreover have "\<forall>n \<in> set [0..<65]. unat (scast (word_of_nat n :: u32) :: u64) = n"
    by code_simp
  ultimately show ?thesis
    by blast
qed

lemma same_sys_byte_at: "same_sys y y' \<Longrightarrow> byte_at y' = byte_at y"
  using same_sys_D [of y y'] by (simp add: byte_at_def fun_eq_iff)

lemma read_memory_command:
  assumes "stub_ok s1" "pkt_buf s1 = read_request a n @ stale" "pkt_len s1 = length (read_request a n)"
    and "length (read_request a n) \<le> 512" "n \<le> 64"
  shows "replies s1 (concat (map hex_of_byte (map (\<lambda>i. byte_at (sys s1) (word_of_nat a + word_of_nat i)) [0..<n]))) (command s1)"
proof -
  let ?data = "map (\<lambda>i. byte_at (sys s1) (word_of_nat a + word_of_nat i)) [0..<n]"
  have "pkt_buf s1 ! 0 = 0x6d"
    by (simp add: assms(2) read_request_def)
  then have "command s1 = cmd_read_memory s1"
    by (simp add: command_def)
  also have "\<dots> = send_encoded (dbg_enc_hex 512 ?data) s1"
    using assms(1,5) mem_read_loop_bytes [of "sys s1" "word_of_nat a" 0 n]
    by (simp add: cmd_read_memory_def assms(2,3) parse_read_request [OF assms(4)] parsed_def dbg_mem_read_def length_size stub_ok_def)
  finally show ?thesis
    using replied_encoded [OF assms(1), of ?data] assms(5) by simp
qed

lemma read_request_clean: "ch_hash \<notin> set (read_request a n)" "read_request a n \<noteq> []"
  by (simp_all add: read_request_def hex_of_nat_clean)

lemma read_request_length:
  assumes "a < 2 ^ 32" "n < 2 ^ 32"
  shows "length (read_request a n) \<le> 512"
  using hex_of_nat_u32 [OF assms(1)] hex_of_nat_u32 [OF assms(2)] by (simp add: read_request_def)

lemma le_bytes32_slices:
  "map (\<lambda>i. of_le_bytes32 (take 4 (drop (4 * i) (concat (map le_bytes32 ws))))) [0..<length ws] = ws"
proof (rule nth_equalityI)
  fix i
  assume i: "i < length (map (\<lambda>i. of_le_bytes32 (take 4 (drop (4 * i) (concat (map le_bytes32 ws))))) [0..<length ws])"
  have "take 4 (drop (4 * i) (concat (map le_bytes32 ws))) = le_bytes32 (ws ! i)" if "i < length ws" for i
    using that
  proof (induction ws arbitrary: i)
    case (Cons w ws)
    then show ?case
      by (cases i) simp_all
  qed simp
  then show "map (\<lambda>i. of_le_bytes32 (take 4 (drop (4 * i) (concat (map le_bytes32 ws))))) [0..<length ws] ! i = ws ! i"
    using i by simp
qed simp

lemma same_sys_breakpoints: "same_sys y y' \<Longrightarrow> same_sys (y\<lparr>breakpoints := b\<rparr>) (y'\<lparr>breakpoints := b\<rparr>)"
  by (cases y; cases y') (simp add: same_sys_def)

text \<open>A session on the example run of the target: what the socket delivers is one read, all sends succeed.\<close>

definition example_stub :: "byte list \<Rightarrow> byte list \<Rightarrow> stub" where
  "example_stub wire buf = \<lparr>sys = example_sys\<lparr>tcpServer := conn_open [wire] []\<rparr>, pkt_buf = buf, pkt_len = 0\<rparr>"

lemma example_stub_conn: "conn_of (example_stub wire buf) = conn_open [wire] []"
  by (simp add: example_stub_def conn_of_def)

lemma example_stub_ok: "length buf = 512 \<Longrightarrow> stub_ok (example_stub wire buf)"
  using example_sys_wf by (simp add: stub_ok_def example_stub_conn) (simp add: example_stub_def sys_wf_def)

lemma example_stub_stream: "in_stream (conn_of (example_stub (frame d @ after) buf)) = map Some (frame d) @ map Some after"
  by (simp add: example_stub_conn chunk_events_def frame_def)

lemma example_stub_sys: "same_sys example_sys (sys (example_stub wire buf))"
  by (simp add: example_stub_def same_sys_def)

lemmas example_stub_facts = example_stub_ok [OF length_replicate] example_stub_stream same_sys_D [OF example_stub_sys]

lemma example_byte_at: "byte_at (sys (example_stub wire buf)) 0x102 = 0x33" "byte_at (sys (example_stub wire buf)) 0x103 = 7"
  unfolding same_sys_byte_at [OF example_stub_sys]
  by (simp_all add: byte_at_def MemTrace_getValue_def example_sys_def sys_defs example_mem_def)

text \<open>
  C9: reading memory. A request \<open>m addr,n\<close> for at most 64 bytes is acknowledged and answered
  with one packet: the hexadecimal text of the \<open>n\<close> bytes the traces hold from the address on
  (32-bit addresses that wrap) at the time of the current instruction. The system is
  unchanged, and the loop goes on unless the reply is neither acknowledged nor refused.
\<close>
theorem read_memory_served:
  assumes "stub_ok s" "in_stream (conn_of s) = map Some (frame (read_request a n)) @ rest" "a < 2 ^ 32" "n \<le> 64"
  shows "served s rest (concat (map hex_of_byte (map (\<lambda>i. byte_at (sys s) (word_of_nat a + word_of_nat i)) [0..<n]))) (sys s)"
proof -
  have len: "length (read_request a n) \<le> 512"
    using assms(3,4) by (intro read_request_length) auto
  show ?thesis
  proof (rule served_command [OF assms(1,2) read_request_clean(1) len read_request_clean(2)])
    fix s1
    assume s1: "stub_ok s1" "pkt_buf s1 = read_request a n @ drop (length (read_request a n)) (pkt_buf s)"
      "pkt_len s1 = length (read_request a n)" "same_sys (sys s) (sys s1)"
    from read_memory_command [OF s1(1-3) len assms(4)] s1(4) same_sys_byte_at [OF s1(4)]
    show "command s1 = Inr (GotoError, s1) \<and>
        concat (map hex_of_byte (map (\<lambda>i. byte_at (sys s) (word_of_nat a + word_of_nat i)) [0..<n])) = 0x45 # hex_of_byte 0 \<and>
        same_sys (sys s) (sys s1) \<or>
      (\<exists>t. conn_of t = conn_of s1 \<and> same_sys (sys s) (sys t) \<and>
        replies t (concat (map hex_of_byte (map (\<lambda>i. byte_at (sys s) (word_of_nat a + word_of_nat i)) [0..<n]))) (command s1))"
      by (intro disjI2 exI [of _ s1]) simp
  qed
qed

theorem read_memory_served_witness:
  "served (example_stub (frame (read_request 0x102 2) @ [ch_plus]) (replicate 512 0)) [Some ch_plus] [0x33, 0x33, 0x30, 0x37]
     (sys (example_stub (frame (read_request 0x102 2) @ [ch_plus]) (replicate 512 0)))"
  using read_memory_served [OF example_stub_facts(1,2), of "0x102" 2 "[ch_plus]" 0]
  by (simp add: upt_conv_Cons example_byte_at hex_of_byte_eq dbg_get_digit_def digits_def)

text \<open>
  Reading too much. A request for more than 64 bytes (up to the largest positive
  \<open>int\<close>) is answered with \<open>E00\<close>.
\<close>
theorem read_memory_refused:
  assumes "stub_ok s" "in_stream (conn_of s) = map Some (frame (read_request a n)) @ rest" "a < 2 ^ 32" "64 < n" "n < 2 ^ 31"
  shows "served s rest (0x45 # hex_of_byte 0) (sys s)"
proof -
  have len: "length (read_request a n) \<le> 512"
    using assms(3,5) by (intro read_request_length) auto
  have big: "64 < unat (scast (word_of_nat n :: u32) :: u64)"
  proof -
    have "sint (word_of_nat n :: u32) = int n"
      using assms(5) by (simp add: signed_of_nat signed_take_bit_int_eq_self)
    then have "(scast (word_of_nat n :: u32) :: u64) = word_of_nat n"
      by (metis of_int_of_nat_eq of_int_sint)
    moreover have "unat (word_of_nat n :: u64) = n"
      using assms(5) by (simp add: unsigned_of_nat take_bit_nat_eq_self)
    ultimately show ?thesis
      using assms(4) by simp
  qed
  show ?thesis
  proof (rule served_command [OF assms(1,2) read_request_clean(1) len read_request_clean(2)])
    fix s1
    assume s1: "stub_ok s1" "pkt_buf s1 = read_request a n @ drop (length (read_request a n)) (pkt_buf s)"
      "pkt_len s1 = length (read_request a n)" "same_sys (sys s) (sys s1)"
    have "pkt_buf s1 ! 0 = 0x6d"
      by (simp add: s1(2) read_request_def)
    then have "command s1 = cmd_read_memory s1"
      by (simp add: command_def)
    also have "\<dots> = Inr (GotoError, s1)"
      using big by (simp add: cmd_read_memory_def s1(2,3) parse_read_request [OF len] parsed_def dbg_mem_read_def send_encoded_def)
    finally show "command s1 = Inr (GotoError, s1) \<and> 0x45 # hex_of_byte 0 = 0x45 # hex_of_byte 0 \<and> same_sys (sys s) (sys s1) \<or>
      (\<exists>t. conn_of t = conn_of s1 \<and> same_sys (sys s) (sys t) \<and> replies t (0x45 # hex_of_byte 0) (command s1))"
      using s1(4) by blast
  qed
qed

theorem read_memory_refused_witness:
  "served (example_stub (frame (read_request 0x102 65) @ [ch_minus]) (replicate 512 0)) [Some ch_minus] (0x45 # hex_of_byte 0)
     (sys (example_stub (frame (read_request 0x102 65) @ [ch_minus]) (replicate 512 0)))"
  using read_memory_refused [OF example_stub_facts(1,2), of "0x102" 65 "[ch_minus]" 0] by simp

text \<open>
  C20: reading a register. A request \<open>p n\<close> is answered with the 8 hexadecimal digits of the
  register's four bytes, lowest first, for the 32 general registers and the program counter
  (n = 32), and with \<open>E00\<close> for every other number.
\<close>
theorem read_register_served:
  assumes "stub_ok s" "in_stream (conn_of s) = map Some (frame (register_request n)) @ rest" "n < 2 ^ 32"
  shows "served s rest
    (if n < 33 then concat (map hex_of_byte (le_bytes32 (registers (dbg_state (sys s)) ! n))) else 0x45 # hex_of_byte 0) (sys s)"
    (is "served s rest ?reply _")
proof -
  let ?d = "register_request n"
  have len: "length ?d \<le> 512"
    using hex_of_nat_u32 [OF assms(3)] by (simp add: register_request_def)
  have clean: "ch_hash \<notin> set ?d" "?d \<noteq> []"
    by (simp_all add: register_request_def hex_of_nat_clean)
  show ?thesis
  proof (rule served_command [OF assms(1,2) clean(1) len clean(2)])
    fix s1
    assume s1: "stub_ok s1" "pkt_buf s1 = ?d @ drop (length ?d) (pkt_buf s)" "pkt_len s1 = length ?d" "same_sys (sys s) (sys s1)"
    have regs: "registers (dbg_state (sys s1)) = registers (dbg_state (sys s))"
      using same_sys_D(5) [OF s1(4)] by simp
    have n: "unat (word_of_nat n :: u32) = n"
      using assms(3) by (simp add: unsigned_of_nat take_bit_nat_eq_self)
    have "pkt_buf s1 ! 0 = 0x70"
      by (simp add: s1(2) register_request_def)
    then have "command s1 = cmd_read_register s1"
      by (simp add: command_def)
    also have "\<dots> = (if n < 33 then send_encoded (dbg_enc_hex 512 (le_bytes32 (registers (dbg_state (sys s)) ! n))) s1
        else Inr (GotoError, s1))"
      by (simp add: cmd_read_register_def s1(2,3) parse_register_request [OF len] parsed_def n regs)
    finally have cmd: "command s1 = \<dots>" .
    show "command s1 = Inr (GotoError, s1) \<and> ?reply = 0x45 # hex_of_byte 0 \<and> same_sys (sys s) (sys s1) \<or>
      (\<exists>t. conn_of t = conn_of s1 \<and> same_sys (sys s) (sys t) \<and> replies t ?reply (command s1))"
    proof (cases "n < 33")
      case True
      then show ?thesis
        using s1(4) replied_encoded [OF s1(1), of "le_bytes32 (registers (dbg_state (sys s)) ! n)"]
        by (intro disjI2 exI [of _ s1]) (simp add: cmd)
    next
      case False
      then show ?thesis
        using s1(4) by (simp add: cmd)
    qed
  qed
qed

theorem read_register_served_witness:
  "served (example_stub (frame (register_request 33) @ [ch_plus]) (replicate 512 0)) [Some ch_plus] (0x45 # hex_of_byte 0)
     (sys (example_stub (frame (register_request 33) @ [ch_plus]) (replicate 512 0))) \<and>
   served (example_stub (frame (register_request 5) @ [ch_plus]) (replicate 512 0)) [Some ch_plus] [0x30, 0x30, 0x30, 0x30, 0x30, 0x30, 0x30, 0x30]
     (sys (example_stub (frame (register_request 5) @ [ch_plus]) (replicate 512 0)))"
proof -
  have "registers (dbg_state (sys (example_stub wire buf))) ! 5 = 0" for wire buf
    by (simp add: example_stub_def example_sys_def)
  then show ?thesis
    using read_register_served [OF example_stub_facts(1,2), of 33 "[ch_plus]" 0]
      read_register_served [OF example_stub_facts(1,2), of 5 "[ch_plus]" 0]
    by (simp add: le_bytes32_def hex_of_byte_eq dbg_get_digit_def digits_def)
qed

text \<open>
  C19: reading all registers. A request \<open>g\<close> is answered with 264 hexadecimal digits, from
  which the client's decoder gets back the 33 register values.
\<close>
theorem read_registers_served:
  assumes "stub_ok s" "in_stream (conn_of s) = map Some (frame [0x67]) @ rest"
  shows "\<exists>reply. served s rest reply (sys s) \<and> length reply = 264 \<and>
    map_option (\<lambda>bs. map (\<lambda>i. of_le_bytes32 (take 4 (drop (4 * i) bs))) [0..<33]) (dbg_dec_hex reply 132) =
      Some (registers (dbg_state (sys s)))"
proof -
  let ?regs = "registers (dbg_state (sys s))"
  let ?data = "concat (map le_bytes32 ?regs)"
  have regs: "length ?regs = 33"
    using assms(1) by (simp add: stub_ok_def sys_wf_def)
  have len: "length ?data = 132"
    using regs by (simp add: length_concat comp_def sum_list_triv)
  have "served s rest (concat (map hex_of_byte ?data)) (sys s)"
  proof (rule served_command [OF assms])
    fix s1
    assume s1: "stub_ok s1" "pkt_buf s1 = [0x67] @ drop (length [0x67 :: byte]) (pkt_buf s)" "pkt_len s1 = length [0x67 :: byte]"
      "same_sys (sys s) (sys s1)"
    let ?t = "s1\<lparr>pkt_len := 264\<rparr>"
    have "command s1 = cmd_read_registers s1"
      by (simp add: command_def s1(2))
    also have "\<dots> = send_encoded (dbg_enc_hex 512 ?data) ?t"
      using same_sys_D(5) [OF s1(4)] len by (simp add: cmd_read_registers_def dbg_enc_hex_fits)
    finally have "replies ?t (concat (map hex_of_byte ?data)) (command s1)"
      using replied_encoded [of ?t ?data] s1(1) len by (simp add: stub_ok_def)
    then show "command s1 = Inr (GotoError, s1) \<and> concat (map hex_of_byte ?data) = 0x45 # hex_of_byte 0 \<and> same_sys (sys s) (sys s1) \<or>
      (\<exists>t. conn_of t = conn_of s1 \<and> same_sys (sys s) (sys t) \<and> replies t (concat (map hex_of_byte ?data)) (command s1))"
      using s1(4) by (intro disjI2 exI [of _ ?t]) simp
  qed simp_all
  moreover have "dbg_dec_hex (concat (map hex_of_byte ?data)) 132 = Some ?data"
    using dbg_dec_hex_concat [of ?data] by (simp add: len)
  moreover have "map (\<lambda>i. of_le_bytes32 (take 4 (drop (4 * i) ?data))) [0..<33] = ?regs"
    using le_bytes32_slices [of ?regs] regs by simp
  ultimately show ?thesis
    using len by (intro exI [of _ "concat (map hex_of_byte ?data)"]) simp
qed

theorem read_registers_served_witness:
  "\<exists>reply. served (example_stub (frame [0x67] @ [ch_plus]) (replicate 512 0)) [Some ch_plus] reply
     (sys (example_stub (frame [0x67] @ [ch_plus]) (replicate 512 0))) \<and> length reply = 264"
  using read_registers_served [OF example_stub_facts(1,2), of "[ch_plus]" 0] by auto

text \<open>
  C21: breakpoint commands. \<open>Z\<close> and \<open>z\<close> with any type and kind add and delete the address in
  the set of breakpoints, change nothing else, and are answered with \<open>OK\<close>.
\<close>
theorem breakpoint_served:
  assumes "stub_ok s" "in_stream (conn_of s) = map Some (frame (breakpoint_request c ty a kind)) @ rest"
    and "c = 0x5a \<or> c = 0x7a" "ty < 2 ^ 32" "a < 2 ^ 32" "kind < 2 ^ 32"
  shows "\<exists>bps. served s rest [0x4f, 0x4b] ((sys s)\<lparr>breakpoints := bps\<rparr>) \<and>
    dom bps = (if c = 0x5a then insert (word_of_nat a) (dom (breakpoints (sys s)))
               else dom (breakpoints (sys s)) - {word_of_nat a})"
proof -
  let ?d = "breakpoint_request c ty a kind" and ?b = "breakpoints (sys s)"
  define bps where "bps = (if c = 0x5a then (if ?b (word_of_nat a) = None then ?b(word_of_nat a \<mapsto> True) else ?b)
    else if ?b (word_of_nat a) \<noteq> None then ?b(word_of_nat a := None) else ?b)"
  have len: "length ?d \<le> 512"
    using hex_of_nat_u32 [OF assms(4)] hex_of_nat_u32 [OF assms(5)] hex_of_nat_u32 [OF assms(6)]
    by (simp add: breakpoint_request_def)
  have clean: "ch_hash \<notin> set ?d" "?d \<noteq> []"
    using assms(3) by (auto simp: breakpoint_request_def hex_of_nat_clean)
  have "served s rest [0x4f, 0x4b] ((sys s)\<lparr>breakpoints := bps\<rparr>)"
  proof (rule served_command [OF assms(1,2) clean(1) len clean(2)])
    fix s1
    assume s1: "stub_ok s1" "pkt_buf s1 = ?d @ drop (length ?d) (pkt_buf s)" "pkt_len s1 = length ?d" "same_sys (sys s) (sys s1)"
    define t where "t = s1\<lparr>sys := (sys s1)\<lparr>breakpoints := bps\<rparr>\<rparr>"
    have b: "breakpoints (sys s1) = ?b"
      using same_sys_D(6) [OF s1(4)] .
    have c: "pkt_buf s1 ! 0 = c"
      by (simp add: s1(2) breakpoint_request_def)
    have idem: "s1\<lparr>sys := (sys s1)\<lparr>breakpoints := ?b\<rparr>\<rparr> = s1"
      by (simp add: b [symmetric])
    have parse: "parse_breakpoint (pkt_buf s1) (pkt_len s1) = Inr (Some (word_of_nat a))"
      by (simp add: s1(2,3) parse_breakpoint_request [OF len])
    from c have "command s1 = cmd_breakpoint s1"
      using assms(3) by (auto simp: command_def)
    also have "\<dots> = replied (dbg_send_ok_packet t)"
      using assms(3) by (auto simp: cmd_breakpoint_def c parse parsed_def target_def
          dbg_sys_add_breakpoint_def dbg_sys_delete_breakpoint_def b idem t_def bps_def)
    finally have cmd: "command s1 = replied (send [0x4f, 0x4b] t)"
      by (simp add: dbg_send_ok_packet_def)
    have "stub_ok t"
      using s1(1) by (simp add: stub_ok_def t_def conn_of_def sys_wf_def)
    from replied_send [OF this, of "[0x4f, 0x4b]"]
    show "command s1 = Inr (GotoError, s1) \<and> [0x4f, 0x4b] = 0x45 # hex_of_byte 0 \<and> same_sys ((sys s)\<lparr>breakpoints := bps\<rparr>) (sys s1) \<or>
      (\<exists>t. conn_of t = conn_of s1 \<and> same_sys ((sys s)\<lparr>breakpoints := bps\<rparr>) (sys t) \<and> replies t [0x4f, 0x4b] (command s1))"
      using s1(4) by (intro disjI2 exI [of _ t]) (simp add: cmd t_def conn_of_def same_sys_breakpoints)
  qed
  moreover have "dom bps = (if c = 0x5a then insert (word_of_nat a) (dom ?b) else dom ?b - {word_of_nat a})"
    by (auto simp: bps_def)
  ultimately show ?thesis
    by blast
qed

theorem breakpoint_served_witness:
  "\<exists>bps. served (example_stub (frame (breakpoint_request 0x7a 0 0x80000000 4) @ [ch_plus]) (replicate 512 0)) [Some ch_plus]
       [0x4f, 0x4b] ((sys (example_stub (frame (breakpoint_request 0x7a 0 0x80000000 4) @ [ch_plus]) (replicate 512 0)))\<lparr>breakpoints := bps\<rparr>) \<and>
     dom bps = {}"
proof -
  have "dom (breakpoints (sys (example_stub wire buf))) = {0x80000000}" for wire buf
    by (simp add: example_stub_facts(8) example_sys_pcs)
  then show ?thesis
    using breakpoint_served [OF example_stub_facts(1,2), of "0x7a" 0 "0x80000000" 4 "[ch_plus]" 0] by simp
qed

text \<open>
  C22: the target is read-only. A request to write memory, textual (\<open>M\<close>) or binary
  (\<open>X\<close>), whatever its data, is answered with \<open>E01\<close>, and nothing is written.
\<close>
theorem write_memory_refused:
  assumes "stub_ok s" "in_stream (conn_of s) = map Some (frame (write_request c a n data)) @ rest"
    and "c = 0x4d \<or> c = 0x58" "length (write_request c a n data) \<le> 512" "ch_hash \<notin> set data"
  shows "served s rest (0x45 # hex_of_byte 1) (sys s)"
proof -
  let ?d = "write_request c a n data"
  have clean: "ch_hash \<notin> set ?d" "?d \<noteq> []"
    using assms(3,5) by (auto simp: write_request_def hex_of_nat_clean)
  show ?thesis
  proof (rule served_command [OF assms(1,2) clean(1) assms(4) clean(2)])
    fix s1
    assume s1: "stub_ok s1" "pkt_buf s1 = ?d @ drop (length ?d) (pkt_buf s)" "pkt_len s1 = length ?d" "same_sys (sys s) (sys s1)"
    have "pkt_buf s1 ! 0 = c"
      by (simp add: s1(2) write_request_def)
    then have "command s1 = cmd_write_memory s1"
      using assms(3) by (auto simp: command_def)
    also have "\<dots> = replied (send_coded 0x45 1 s1)"
      by (simp add: cmd_write_memory_def s1(2,3) parse_write_request [OF assms(4)] parsed_def dbg_send_error_packet_def)
    finally show "command s1 = Inr (GotoError, s1) \<and> 0x45 # hex_of_byte 1 = 0x45 # hex_of_byte 0 \<and> same_sys (sys s) (sys s1) \<or>
      (\<exists>t. conn_of t = conn_of s1 \<and> same_sys (sys s) (sys t) \<and> replies t (0x45 # hex_of_byte 1) (command s1))"
      using s1(4) replied_coded [OF s1(1), of "0x45" 1] by (intro disjI2 exI [of _ s1]) simp
  qed
qed

theorem write_memory_refused_witness:
  "served (example_stub (frame (write_request 0x4d 0x100 1 [0x61, 0x62]) @ [ch_plus]) (replicate 512 0)) [Some ch_plus] (0x45 # hex_of_byte 1)
     (sys (example_stub (frame (write_request 0x4d 0x100 1 [0x61, 0x62]) @ [ch_plus]) (replicate 512 0)))"
proof -
  have "length (write_request 0x4d 0x100 1 [0x61, 0x62]) \<le> 512"
    using hex_of_nat_u32 [of "0x100"] hex_of_nat_u32 [of 1] by (simp add: write_request_def)
  then show ?thesis
    using write_memory_refused [OF example_stub_facts(1,2), of "0x4d" "0x100" 1 "[0x61, 0x62]" "[ch_plus]" 0] by simp
qed

section \<open>Continue and step\<close>

lemma resume_command:
  assumes "stub_ok s1" "pkt_buf s1 = [c] @ stale" "c = 0x63 \<and> op = dbg_sys_continue \<or> c = 0x73 \<and> op = dbg_sys_step"
  shows "command s1 = target (op (sys s1)) s1 (\<lambda>r s2.
    if r = - 1 then replied (dbg_send_terminated_packet (sig_char s2) s2) else Inr (Return 0, s2))"
  using assms by (auto simp: command_def cmd_resume_def dbg_continue_def dbg_step_def)

lemma op_same_sys:
  assumes "same_sys y y'" "op = dbg_sys_continue \<or> op = dbg_sys_step" "sys_wf y" "op y = Inr (r, z)"
  shows "\<exists>z'. op y' = Inr (r, z') \<and> same_sys z z' \<and> tcpServer z' = tcpServer y'"
proof -
  obtain c where y': "y' = y\<lparr>tcpServer := c\<rparr>"
    using assms(1) unfolding same_sys_def by blast
  have wf: "sys_wf y'"
    using assms(3) y' by (simp add: sys_wf_def)
  have fresh: "refreshed ((set_it k y')\<lparr>dbg_state := d\<rparr>) = (refreshed ((set_it k y)\<lparr>dbg_state := d\<rparr>))\<lparr>tcpServer := c\<rparr>" for k d
    by (cases y) (simp add: y' refreshed_def sys_defs)
  have stop: "stop_at y' = stop_at y"
    by (simp add: stop_at_def y')
  show ?thesis
    using assms(2)
  proof
    assume op: "op = dbg_sys_continue"
    then show ?thesis
      using assms(4) continue_wf [OF assms(3)] continue_wf [OF wf] by (auto simp: fresh [unfolded y'] stop [unfolded y'] same_sys_def y')
  next
    assume op: "op = dbg_sys_step"
    then show ?thesis
      using assms(4) step_wf [OF assms(3)] step_wf [OF wf] by (auto simp: fresh [unfolded y'] same_sys_def y' split: if_splits)
  qed
qed

text \<open>
  C10: continue and step. The command is acknowledged and the target moved. When the operation
  returns 0, the loop of \<open>dbg_main\<close> returns 0 without a reply, and the next activation of
  \<open>dbg_main\<close>, whatever its packet buffer holds, first sends the stop reply \<open>S\<close> with the
  signal of the operation and then waits for packets, or returns -1 if the reply is neither
  acknowledged nor refused; when a step fails at the end of the trace, the reply is the
  exit packet \<open>W\<close> and the loop goes on.
\<close>
theorem resume_served:
  assumes "stub_ok s" "in_stream (conn_of s) = map Some (frame [c]) @ rest"
    and "c = 0x63 \<and> op = dbg_sys_continue \<or> c = 0x73 \<and> op = dbg_sys_step" "op (sys s) = Inr (r, y)"
  shows "if r = - 1 then served s rest (0x57 # hex_of_byte (ucast (signum (dbg_state y)))) y
    else \<exists>s'. main_loop s = Inr (0, s') \<and> tx_out (conn_of s') = tx_out (conn_of s) @ [ch_plus] \<and>
      in_stream (conn_of s') = rest \<and> stub_ok s' \<and> same_sys y (sys s') \<and>
      (\<forall>stack. length stack = 512 \<longrightarrow> (\<exists>t.
        dbg_main stack (sys s') = (if ack_status rest = EOF then Inr (- 1, t) else main_loop t) \<and>
        tx_out (conn_of t) = tx_out (conn_of s') @ frame (0x53 # hex_of_byte (ucast (signum (dbg_state y)))) \<and>
        in_stream (conn_of t) = tl rest \<and> stub_ok t \<and> same_sys y (sys t)))"
proof -
  have wf: "sys_wf (sys s)"
    using assms(1) by (simp add: stub_ok_def)
  have op: "op = dbg_sys_continue \<or> op = dbg_sys_step"
    using assms(3) by auto
  have y_wf: "sys_wf y"
    using op assms(4) continue_op.keeps_wf [OF wf] step_op.keeps_wf [OF wf] by blast
  have clean: "ch_hash \<notin> set [c]" "length [c] \<le> 512" "[c] \<noteq> []"
    using assms(3) by auto
  have run: "\<exists>z'. op (sys s1) = Inr (r, z') \<and> same_sys y z' \<and> stub_ok (s1\<lparr>sys := z'\<rparr>) \<and> conn_of (s1\<lparr>sys := z'\<rparr>) = conn_of s1"
    if s1: "stub_ok s1" "same_sys (sys s) (sys s1)" for s1
  proof -
    obtain z' where z': "op (sys s1) = Inr (r, z')" "same_sys y z'" "tcpServer z' = tcpServer (sys s1)"
      using op_same_sys [OF s1(2) op wf assms(4)] by blast
    then show ?thesis
      using s1(1) same_sys_D(8) [OF z'(2)] y_wf by (auto simp: stub_ok_def conn_of_def)
  qed
  show ?thesis
  proof (cases "r = - 1")
    case True
    have "served s rest (0x57 # hex_of_byte (ucast (signum (dbg_state y)))) y"
    proof (rule served_command [OF assms(1,2) clean])
      fix s1
      assume s1: "stub_ok s1" "pkt_buf s1 = [c] @ drop (length [c]) (pkt_buf s)" "pkt_len s1 = length [c]" "same_sys (sys s) (sys s1)"
      obtain z' where z': "op (sys s1) = Inr (r, z')" "same_sys y z'" "stub_ok (s1\<lparr>sys := z'\<rparr>)" "conn_of (s1\<lparr>sys := z'\<rparr>) = conn_of s1"
        using run [OF s1(1,4)] by blast
      have "command s1 = replied (send_coded 0x57 (ucast (signum (dbg_state y))) (s1\<lparr>sys := z'\<rparr>))"
        using resume_command [OF s1(1,2) assms(3)] z'(1) True same_sys_D(5) [OF z'(2)]
        by (simp add: target_def dbg_send_terminated_packet_def sig_char_def)
      then show "command s1 = Inr (GotoError, s1) \<and> 0x57 # hex_of_byte (ucast (signum (dbg_state y))) = 0x45 # hex_of_byte 0 \<and> same_sys y (sys s1) \<or>
        (\<exists>t. conn_of t = conn_of s1 \<and> same_sys y (sys t) \<and> replies t (0x57 # hex_of_byte (ucast (signum (dbg_state y)))) (command s1))"
        using z' replied_coded [OF z'(3), of "0x57" "ucast (signum (dbg_state y))"]
        by (intro disjI2 exI [of _ "s1\<lparr>sys := z'\<rparr>"]) simp
    qed
    then show ?thesis
      using True by simp
  next
    case False
    obtain s1 where s1: "stub_ok s1" "in_stream (conn_of s1) = rest" "tx_out (conn_of s1) = tx_out (conn_of s) @ [ch_plus]"
      "pkt_buf s1 = [c] @ drop (length [c]) (pkt_buf s)" "pkt_len s1 = length [c]" "same_sys (sys s) (sys s1)"
      "main_step s = (case command s1 of
        Inl e \<Rightarrow> Inl e | Inr (GotoError, s2) \<Rightarrow> replied (dbg_send_error_packet 0 s2) | Inr r \<Rightarrow> Inr r)"
      using main_step_request [OF assms(1,2) clean] .
    obtain z' where z': "op (sys s1) = Inr (r, z')" "same_sys y z'" "stub_ok (s1\<lparr>sys := z'\<rparr>)" "conn_of (s1\<lparr>sys := z'\<rparr>) = conn_of s1"
      using run [OF s1(1,6)] by blast
    define s' where "s' = s1\<lparr>sys := z'\<rparr>"
    note s' = z'(2,3,4) [folded s'_def]
    have "main_step s = Inr (Return 0, s')"
      using resume_command [OF s1(1,4) assms(3)] z'(1) False by (simp add: s1(7) target_def s'_def)
    then have main: "main_loop s = Inr (0, s')"
      by (subst main_loop.simps) simp
    have y: "same_sys y (sys s')"
      using z'(2) by (simp add: s'_def)
    have stop: "\<exists>t. dbg_main stack (sys s') = (if ack_status rest = EOF then Inr (- 1, t) else main_loop t) \<and>
        tx_out (conn_of t) = tx_out (conn_of s') @ frame (0x53 # hex_of_byte (ucast (signum (dbg_state y)))) \<and>
        in_stream (conn_of t) = tl rest \<and> stub_ok t \<and> same_sys y (sys t)" if len: "length stack = 512" for stack
    proof -
      define t0 where "t0 = \<lparr>sys = sys s', pkt_buf = stack, pkt_len = 0\<rparr>"
      have t0: "stub_ok t0" "conn_of t0 = conn_of s'" "sys t0 = sys s'" "sig_char t0 = ucast (signum (dbg_state y))"
        using s'(2) len same_sys_D(5) [OF y] by (simp_all add: t0_def stub_ok_def conn_of_def sig_char_def)
      obtain r t where send: "dbg_send_signal_packet (sig_char t0) t0 = (r, t)"
        by fastforce
      have "replies t0 (0x53 # hex_of_byte (sig_char t0)) (replied (dbg_send_signal_packet (sig_char t0) t0))"
        unfolding dbg_send_signal_packet_def by (rule replied_coded [OF t0(1)]) simp
      then have t: "(r = EOF) = (ack_status rest = EOF)" "in_stream (conn_of t) = tl rest" "stub_ok t" "same_sys (sys s') (sys t)"
        "tx_out (conn_of t) = tx_out (conn_of s') @ frame (0x53 # hex_of_byte (ucast (signum (dbg_state y))))"
        unfolding send using t0 s'(3) s1(2) by (auto simp: replies_def replied_def after_ack_def split: if_splits)
      have "dbg_main stack (sys s') = (if ack_status rest = EOF then Inr (- 1, t) else main_loop t)"
        using send t(1) by (simp add: dbg_main_def t0_def [symmetric])
      then show ?thesis
        using t(2,3,5) same_sys_trans [OF y t(4)] by blast
    qed
    have "tx_out (conn_of s') = tx_out (conn_of s) @ [ch_plus]" "in_stream (conn_of s') = rest"
      using s1(2,3) s'(3) by simp_all
    with False main s'(2) y stop show ?thesis
      by auto
  qed
qed

theorem resume_served_witness:
  "\<exists>s' t. main_loop (example_stub (frame [0x73] @ [ch_plus]) (replicate 512 0)) = Inr (0, s') \<and> pc_it (sys s') = 1 \<and>
     dbg_main (replicate 512 0) (sys s') = main_loop t \<and> tx_out (conn_of t) = ch_plus # frame (0x53 # hex_of_byte 5)"
proof -
  let ?s = "example_stub (frame [0x73] @ [ch_plus]) (replicate 512 0)"
  have wf: "sys_wf (sys ?s)" "pc_it (sys ?s) = 0" "length (pcs (sys ?s)) = 3"
    using example_stub_facts(1) by (simp_all add: stub_ok_def example_stub_facts(3,4) example_sys_pcs)
  obtain y where y: "dbg_sys_step (sys ?s) = Inr (0, y)" "pc_it y = 1" "signum (dbg_state y) = 5"
    using step_wf [OF wf(1)] wf by simp
  have pre: "stub_ok ?s" "in_stream (conn_of ?s) = map Some (frame [0x73]) @ map Some [ch_plus]"
    by (rule example_stub_ok, simp) (rule example_stub_stream)
  have op: "(0x73 :: byte) = 0x63 \<and> dbg_sys_step = dbg_sys_continue \<or> (0x73 :: byte) = 0x73 \<and> dbg_sys_step = dbg_sys_step"
    by simp
  have minus_one: "(0 :: int) \<noteq> - 1"
    by simp
  note served = resume_served [OF pre op y(1)]
  have "\<exists>s'. main_loop ?s = Inr (0, s') \<and> tx_out (conn_of s') = tx_out (conn_of ?s) @ [ch_plus] \<and>
      in_stream (conn_of s') = map Some [ch_plus] \<and> stub_ok s' \<and> same_sys y (sys s') \<and>
      (\<forall>stack. length stack = 512 \<longrightarrow> (\<exists>t.
        dbg_main stack (sys s') = (if ack_status (map Some [ch_plus]) = EOF then Inr (- 1, t) else main_loop t) \<and>
        tx_out (conn_of t) = tx_out (conn_of s') @ frame (0x53 # hex_of_byte (ucast (signum (dbg_state y)))) \<and>
        in_stream (conn_of t) = tl (map Some [ch_plus]) \<and> stub_ok t \<and> same_sys y (sys t)))"
    using served unfolding if_not_P [OF minus_one] .
  then
  obtain s' where s': "main_loop ?s = Inr (0, s')" "same_sys y (sys s')" "tx_out (conn_of s') = tx_out (conn_of ?s) @ [ch_plus]"
    "\<forall>stack. length stack = 512 \<longrightarrow> (\<exists>t.
       dbg_main stack (sys s') = (if ack_status (map Some [ch_plus]) = EOF then Inr (- 1, t) else main_loop t) \<and>
       tx_out (conn_of t) = tx_out (conn_of s') @ frame (0x53 # hex_of_byte (ucast (signum (dbg_state y)))) \<and>
       in_stream (conn_of t) = tl (map Some [ch_plus]) \<and> stub_ok t \<and> same_sys y (sys t))"
    by (elim exE conjE) (rule that)
  have "ack_status [Some ch_plus] \<noteq> EOF"
    by (simp add: ack_status_def)
  then obtain t where "dbg_main (replicate 512 0) (sys s') = main_loop t" "tx_out (conn_of t) = ch_plus # frame (0x53 # hex_of_byte 5)"
    using s'(4) [rule_format, of "replicate 512 0"] y(3) by (auto simp: s'(3) example_stub_conn)
  then show ?thesis
    using s'(1) same_sys_D(2) [OF s'(2)] y(2) by auto
qed

end
