(* ===== verification/Gdb_Safety.thy ===== *)
theory Gdb_Safety
  imports Gdb_Session
begin

text \<open>
  Properties of the command loop on arbitrary input: it ends, it never leaves the trace, it
  answers every packet once; and the inputs on which the stub misbehaves, with what it does
  on them.
\<close>

section \<open>Safety of a session\<close>

text \<open>
  Whatever a command does, the system stays well-formed with the same traces, and the only
  error is a read outside the packet buffer.
\<close>

definition same_traces :: "dbg_sys \<Rightarrow> dbg_sys \<Rightarrow> bool" where
  "same_traces y y' \<longleftrightarrow> pcs y' = pcs y \<and> sys_regs y' = sys_regs y \<and> sys_mem y' = sys_mem y"

definition safe :: "dbg_sys \<Rightarrow> stub_error + ('f \<times> stub) \<Rightarrow> bool" where
  "safe y x \<longleftrightarrow> (case x of Inl e \<Rightarrow> e = BufferOverread | Inr (_, s') \<Rightarrow> sys_wf (sys s') \<and> same_traces y (sys s'))"

lemma safe_simps [simp]:
  "safe y (Inl e) \<longleftrightarrow> e = BufferOverread" "safe y (Inr (f, s')) \<longleftrightarrow> sys_wf (sys s') \<and> same_traces y (sys s')"
  by (simp_all add: safe_def)

lemma same_traces_simps [simp]:
  "same_traces y y" "same_traces y (sys (set_conn c s)) \<longleftrightarrow> same_traces y (sys s)"
  by (simp_all add: same_traces_def set_conn_def)

lemma safe_send:
  assumes "sys_wf (sys s)" "same_traces y (sys s)"
  shows "safe y (replied (send d s))" "safe y (replied (send_coded k v s))" "safe y (send_encoded enc s)"
  using assms by (simp_all add: replied_def send_def send_coded_def send_encoded_def Let_def split: prod.split option.split)

lemma safe_parsed:
  "\<forall>e. x = Inl e \<longrightarrow> e = BufferOverread \<Longrightarrow> sys_wf (sys s) \<Longrightarrow> same_traces y (sys s) \<Longrightarrow> (\<And>a. safe y (f a)) \<Longrightarrow>
     safe y (parsed x s f)"
  by (cases x) (simp_all add: parsed_def split: option.split)

lemma safe_target:
  assumes "debugger_op op" "sys_wf (sys s)" "same_traces y (sys s)"
    and "\<And>r s1. sys_wf (sys s1) \<Longrightarrow> same_traces y (sys s1) \<Longrightarrow> safe y (f r s1)"
  shows "safe y (target (op (sys s)) s f)"
proof -
  obtain r z where z: "op (sys s) = Inr (r, z)" "sys_wf z" "same_target (sys s) z"
    using debugger_op.op_cases [OF assms(1,2)] by blast
  then have "same_traces y z"
    using assms(3) by (simp add: same_target_def same_traces_def)
  with z assms(4) [of "s\<lparr>sys := z\<rparr>" r] show ?thesis
    by (simp add: target_def)
qed

lemma parse_errors:
  "parse_breakpoint buf n = Inl e \<Longrightarrow> e = BufferOverread" "parse_register buf n = Inl e \<Longrightarrow> e = BufferOverread"
  "parse_read buf n = Inl e \<Longrightarrow> e = BufferOverread" "parse_write buf n = Inl e \<Longrightarrow> e = BufferOverread"
proof -
  have arg: "token_expect_integer_arg buf n p = Inl e \<Longrightarrow> e = BufferOverread" for p
    by (auto simp: token_expect_integer_arg_def split: option.splits)
  have sep: "token_expect_seperator buf c p = Inl e \<Longrightarrow> e = BufferOverread" for c p
    by (auto simp: token_expect_seperator_def split: option.splits)
  have bind: "x = Inl e \<or> (\<exists>a. f a = Inl e)" if "and_then x f = Inl e"
    for x :: "stub_error + 'x option" and f :: "'x \<Rightarrow> stub_error + 'y option"
    using that by (auto simp: and_then_def split: sum.splits option.splits)
  show "parse_breakpoint buf n = Inl e \<Longrightarrow> e = BufferOverread" "parse_register buf n = Inl e \<Longrightarrow> e = BufferOverread"
    "parse_read buf n = Inl e \<Longrightarrow> e = BufferOverread" "parse_write buf n = Inl e \<Longrightarrow> e = BufferOverread"
    unfolding parse_defs(1-4) by (auto dest!: bind arg sep split: prod.splits)
qed

lemma safe_command:
  assumes "sys_wf (sys s)" "same_traces y (sys s)"
  shows "safe y (command s)"
proof -
  note sends = safe_send [of _ y] safe_parsed [OF _ assms] safe_target [OF _ assms]
  have "safe y (cmd_restart s)"
    unfolding cmd_restart_def by (rule safe_target [OF restart_op.debugger_op_axioms assms]) simp
  moreover have "safe y (cmd_breakpoint s)"
  proof -
    have "safe y (replied (dbg_send_ok_packet s1))" if "sys_wf (sys s1)" "same_traces y (sys s1)" for s1
      using safe_send that by (simp add: dbg_send_ok_packet_def)
    then have "safe y (target (dbg_sys_add_breakpoint a (sys s)) s (\<lambda>r s1. replied (dbg_send_ok_packet s1)))"
      "safe y (target (dbg_sys_delete_breakpoint a (sys s)) s (\<lambda>r s1. replied (dbg_send_ok_packet s1)))" for a
      by (intro safe_target [OF add_op.debugger_op_axioms assms] safe_target [OF delete_op.debugger_op_axioms assms]; blast)+
    then show ?thesis
      unfolding cmd_breakpoint_def by (intro safe_parsed [OF _ assms]) (auto dest: parse_errors)
  qed
  moreover have "safe y (cmd_read_registers s)"
    using safe_send(3) [of "s\<lparr>pkt_len := n\<rparr>" y for n] assms by (simp add: cmd_read_registers_def split: option.split)
  moreover have "safe y (cmd_read_register s)"
    unfolding cmd_read_register_def using assms by (intro safe_parsed [OF _ assms]) (auto simp: safe_send dest: parse_errors)
  moreover have "safe y (cmd_read_memory s)"
  proof -
    have "dbg_mem_read m a k dbg_enc_hex (sys s) \<noteq> Inl e" for m a k e
      using mem_read_loop_bytes [OF assms(1), of a 0 k] by (simp add: dbg_mem_read_def)
    then show ?thesis
      unfolding cmd_read_memory_def using assms
      by (intro safe_parsed [OF _ assms]) (auto simp: safe_send dest: parse_errors split: sum.split)
  qed
  moreover have "safe y (cmd_write_memory s)"
    unfolding cmd_write_memory_def dbg_send_error_packet_def using assms
    by (intro safe_parsed [OF _ assms]) (auto simp: safe_send dest: parse_errors)
  moreover have "safe y (cmd_resume op s)" if "op = dbg_continue \<or> op = dbg_step" for op
  proof -
    have "debugger_op op"
      using that continue_op.debugger_op_axioms step_op.debugger_op_axioms
      by (auto simp: dbg_continue_def [abs_def] dbg_step_def [abs_def])
    then show ?thesis
      unfolding cmd_resume_def dbg_send_terminated_packet_def using safe_send
      by (intro safe_target [OF _ assms]) auto
  qed
  moreover have "safe y (cmd_query s)" "safe y (cmd_ok s)" "safe y (cmd_unsupported s)"
    using assms by (simp_all add: cmd_query_def dbg_send_signal_packet_def cmd_ok_def dbg_send_ok_packet_def cmd_unsupported_def safe_send)
  ultimately show ?thesis
    using assms by (simp add: command_def Let_def)
qed

lemma safe_main_step:
  assumes "sys_wf (sys s)" "same_traces y (sys s)"
  shows "safe y (main_step s)"
proof -
  obtain r buf c where recv: "dbg_recv_packet (pkt_buf s) (length (pkt_buf s)) (conn_of s) = Some (r, buf, c)"
    using recv_packet_bounds [of "length (pkt_buf s)" "pkt_buf s" "conn_of s"] by blast
  show ?thesis
  proof (cases r)
    case None
    then show ?thesis
      using assms by (simp add: main_step_def recv)
  next
    case (Some n)
    define s1 where "s1 = set_conn c (s\<lparr>pkt_buf := buf, pkt_len := n\<rparr>)"
    have s1: "sys_wf (sys s1)" "same_traces y (sys s1)"
      using assms by (simp_all add: s1_def)
    have err: "safe y (replied (dbg_send_error_packet 0 s2))" if "sys_wf (sys s2)" "same_traces y (sys s2)" for s2
      using that by (simp add: dbg_send_error_packet_def safe_send)
    show ?thesis
    proof (cases "command s1")
      case (Inl e)
      then show ?thesis
        using safe_command [OF s1] s1 by (simp add: main_step_def recv Some s1_def [symmetric])
    next
      case (Inr fs)
      obtain f s2 where "fs = (f, s2)"
        by fastforce
      with Inr show ?thesis
        using safe_command [OF s1] s1 err
        by (cases f) (simp_all add: main_step_def recv Some s1_def [symmetric])
    qed
  qed
qed

lemma safe_main_loop: "sys_wf (sys s) \<Longrightarrow> same_traces y (sys s) \<Longrightarrow> safe y (main_loop s)"
proof (induction s rule: main_loop.induct)
  case (1 s)
  note step = safe_main_step [OF 1(3,4)]
  show ?case
  proof (cases "main_step s")
    case (Inl e)
    then show ?thesis
      using step by (subst main_loop.simps) simp
  next
    case (Inr fs)
    obtain f s1 where fs: "fs = (f, s1)"
      by fastforce
    show ?thesis
      using step Inr fs 1(1) [OF Inr fs [symmetric]] 1(2) [OF Inr fs [symmetric]] by (subst main_loop.simps, cases f) simp_all
  qed
qed

lemma safe_dbg_main:
  assumes "sys_wf y'" "same_traces y y'"
  shows "safe y (dbg_main stack y')"
proof -
  define s where "s = \<lparr>sys = y', pkt_buf = stack, pkt_len = 0\<rparr>"
  obtain r s1 where start: "dbg_send_signal_packet (sig_char s) s = (r, s1)"
    by fastforce
  have "safe y (replied (dbg_send_signal_packet (sig_char s) s))"
    using assms by (simp add: dbg_send_signal_packet_def safe_send s_def)
  then have s1: "sys_wf (sys s1)" "same_traces y (sys s1)"
    by (simp_all add: start replied_def)
  with safe_main_loop [OF s1] show ?thesis
    by (simp add: dbg_main_def s_def [symmetric] start)
qed

lemma safe_sys_loop:
  "sys_wf y' \<Longrightarrow> same_traces y y' \<Longrightarrow>
     sys_loop stacks k y' = Inl BufferOverread \<or> (\<exists>z. sys_loop stacks k y' = Inr z \<and> sys_wf z \<and> same_traces y z)"
proof (induction stacks k y' rule: sys_loop.induct)
  case (1 stacks k y')
  note main = safe_dbg_main [OF 1(2,3), of "stacks k"]
  show ?case
  proof (cases "dbg_main (stacks k) y'")
    case (Inl e)
    then show ?thesis
      using main by (subst (1 2) sys_loop.simps) simp
  next
    case (Inr fs)
    obtain f s1 where fs: "fs = (f, s1)"
      by fastforce
    show ?thesis
      using main Inr fs 1(1) [OF Inr fs [symmetric]] by (subst (1 2) sys_loop.simps) simp
  qed
qed

text \<open>
  C7: a session always ends, and nothing a client sends leads the target out of the trace. From
  a non-empty instruction trace, whatever the socket delivers and whatever the uninitialised
  stack buffers hold, \<open>dbg_sys_init\<close> returns once the input is used up, with the traces
  untouched and the iterator in the trace, unless a command reads outside the packet buffer;
  no command reads through the end of the instruction trace.
\<close>
theorem session_safe:
  assumes "pcs y \<noteq> []" "length (registers (dbg_state y)) = DBG_CPU_RISCV_NUM_REGISTERS"
  shows "dbg_sys_init stacks y = Inl BufferOverread \<or>
    (\<exists>z. dbg_sys_init stacks y = Inr z \<and> sys_wf z \<and> same_traces y z)"
proof -
  define s1 where "s1 = (set_it 0 y)\<lparr>dbg_state := (dbg_state y)\<lparr>registers := replicate 32 0xdeadbeef @ drop 32 (registers (dbg_state y))\<rparr>\<rparr>"
  have wf: "sys_wf s1"
    using assms by (simp add: sys_wf_def s1_def)
  have "same_traces y (refreshed s1)"
    by (simp add: same_traces_def s1_def)
  from safe_sys_loop [OF refreshed_wf [OF wf] this, of stacks 0] show ?thesis
    by (simp add: dbg_sys_init_def dbg_sys_init_state_def s1_def [symmetric] update_state_wf [OF wf])
qed

theorem session_safe_witness:
  "dbg_sys_init (\<lambda>_. replicate 512 0) example_sys = Inl BufferOverread \<or>
    (\<exists>z. dbg_sys_init (\<lambda>_. replicate 512 0) example_sys = Inr z \<and> sys_wf z \<and> same_traces example_sys z)"
proof -
  have "pcs example_sys \<noteq> []" "length (registers (dbg_state example_sys)) = 33"
    using example_sys_wf by (auto simp: sys_wf_def)
  then show ?thesis
    by (rule session_safe)
qed

section \<open>One reply for every packet\<close>

text \<open>
  A byte that ends the arguments of a command: no digit, sign or part of a prefix, and no
  separator. If the buffer ends with one, no parser runs over its end, whatever stale bytes
  are in front of it.
\<close>

definition stops_arguments :: "byte \<Rightarrow> bool" where
  "stops_arguments z \<longleftrightarrow> dbg_get_val z 16 = EOF \<and> z \<notin> {ch_minus, ch_plus, 0x78, 0x58, ch_comma, ch_colon}"

definition stopped :: "byte list \<Rightarrow> bool" where
  "stopped buf \<longleftrightarrow> buf \<noteq> [] \<and> stops_arguments (last buf)"

lemma stopped_before:
  assumes "stopped buf" "i < length buf" "\<not> stops_arguments (buf ! i)"
  shows "Suc i < length buf"
proof (rule ccontr)
  assume "\<not> Suc i < length buf"
  then have "i = length buf - 1" "buf \<noteq> []"
    using assms(2) by auto
  then show False
    using assms(1,3) by (simp add: stopped_def last_conv_nth)
qed

lemma strtol_loop_stopped:
  "stopped buf \<Longrightarrow> p + pos < length buf \<Longrightarrow>
     \<exists>q v ok. strtol_loop buf p len 16 pos val valid = Some (q, v, ok) \<and> p + q < length buf"
proof (induction buf p len "16 :: int" pos val valid rule: strtol_loop.induct)
  case (1 buf p len pos val valid)
  let ?c = "buf ! (p + pos)"
  show ?case
  proof (cases "pos < len \<and> ?c \<noteq> 0 \<and> dbg_get_val ?c 16 \<noteq> EOF")
    case True
    then have next_in: "p + Suc pos < length buf"
      using stopped_before [OF 1(2,3)] by (simp add: stops_arguments_def)
    have "strtol_loop buf p len 16 pos val valid =
        strtol_loop buf p len 16 (Suc pos) (val * word_of_int 16 + word_of_int (dbg_get_val ?c 16)) True"
      using True 1(3) by (subst strtol_loop.simps) (simp add: Let_def)
    with 1(1) [OF _ peek_in [OF 1(3)] _ refl _ 1(2) next_in] True show ?thesis
      by simp
  next
    case False
    then show ?thesis
      using 1(3) by (subst strtol_loop.simps) (auto simp: Let_def)
  qed
qed

lemma dbg_strtol_stopped:
  assumes "stopped buf" "p < length buf"
  shows "\<exists>v r. dbg_strtol buf p len 16 = Some (v, r) \<and> (\<forall>q. r = Some q \<longrightarrow> q < length buf)"
proof (cases "len < 1")
  case False
  obtain sgn pos where sgn: "strtol_sign (buf ! p) = (sgn, pos)"
    by fastforce
  have "pos = 0 \<or> pos = 1 \<and> \<not> stops_arguments (buf ! p)"
    using sgn by (auto simp: strtol_sign_def stops_arguments_def split: if_splits)
  then have pos: "p + pos < length buf"
    using stopped_before [OF assms] assms(2) by auto
  have "\<exists>is_hex. strtol_prefix buf p len pos = Some is_hex \<and> p + (if is_hex then pos + 2 else pos) < length buf"
  proof (cases "pos + 2 < len \<and> buf ! (p + pos) = 0x30")
    case True
    then have next_in: "p + pos + 1 < length buf"
      using stopped_before [OF assms(1) pos] by (simp add: stops_arguments_def dbg_get_val_def)
    then show ?thesis
      using True pos stopped_before [OF assms(1) next_in] by (auto simp: strtol_prefix_def stops_arguments_def)
  next
    case False
    then show ?thesis
      using pos by (auto simp: strtol_prefix_def)
  qed
  then obtain is_hex where hex: "strtol_prefix buf p len pos = Some is_hex" "p + (if is_hex then pos + 2 else pos) < length buf"
    by blast
  obtain q v ok where "strtol_loop buf p len 16 (if is_hex then pos + 2 else pos) 0 False = Some (q, v, ok)" "p + q < length buf"
    using strtol_loop_stopped [OF assms(1) hex(2)] by blast
  then show ?thesis
    using False sgn hex(1) assms(2) by (auto simp: dbg_strtol_def Let_def)
qed (simp add: dbg_strtol_def)

text \<open>So the parsers stay in the buffer.\<close>

definition in_buffer :: "byte list \<Rightarrow> ('a \<Rightarrow> nat) \<Rightarrow> stub_error + 'a option \<Rightarrow> bool" where
  "in_buffer buf pos x \<longleftrightarrow> (\<exists>r. x = Inr r \<and> (\<forall>a. r = Some a \<longrightarrow> pos a < length buf))"

lemma in_buffer_arg:
  assumes "stopped buf" "p < length buf"
  shows "in_buffer buf snd (token_expect_integer_arg buf n p)"
  using dbg_strtol_stopped [OF assms, of "token_remaining_buf n p"]
  by (auto simp: in_buffer_def token_expect_integer_arg_def split: option.splits)

lemma in_buffer_sep:
  assumes "stopped buf" "p < length buf" "c = ch_comma \<or> c = ch_colon"
  shows "in_buffer buf id (token_expect_seperator buf c p)"
  using assms(2,3) stopped_before [OF assms(1,2)] by (auto simp: in_buffer_def token_expect_seperator_def stops_arguments_def)

lemma in_buffer_then:
  "in_buffer buf pos x \<Longrightarrow> (\<And>a. pos a < length buf \<Longrightarrow> \<exists>r. f a = Inr r) \<Longrightarrow> \<exists>r. and_then x f = Inr r"
  by (auto simp: in_buffer_def and_then_def split: option.split)

lemma parse_stopped:
  assumes "stopped buf" "1 < length buf"
  shows "\<exists>r. parse_breakpoint buf n = Inr r" "\<exists>r. parse_register buf n = Inr r"
    "\<exists>r. parse_read buf n = Inr r" "\<exists>r. parse_write buf n = Inr r"
  unfolding parse_defs(1-4) using assms
  by (auto intro!: in_buffer_then in_buffer_arg in_buffer_sep)

text \<open>How a command on a packet can end, up to the reply to \<open>goto error\<close>.\<close>

definition answers :: "bool \<Rightarrow> stub \<Rightarrow> stub_error + (flow \<times> stub) \<Rightarrow> bool" where
  "answers quiet s x \<longleftrightarrow> x = Inr (GotoError, s) \<or>
     (\<exists>d t. conn_of t = conn_of s \<and> replies t d x) \<or>
     quiet \<and> (\<exists>f s'. x = Inr (f, s') \<and> f \<noteq> GotoError \<and> conn_of s' = conn_of s \<and> stub_ok s')"

lemma answers_intros:
  "answers quiet s (Inr (GotoError, s))"
  "replies t d x \<Longrightarrow> conn_of t = conn_of s \<Longrightarrow> answers quiet s x"
  "f \<noteq> GotoError \<Longrightarrow> conn_of s' = conn_of s \<Longrightarrow> stub_ok s' \<Longrightarrow> answers True s (Inr (f, s'))"
  by (auto simp: answers_def)

lemma answers_parsed:
  "\<forall>e. x \<noteq> Inl e \<Longrightarrow> (\<And>a. answers quiet s (f a)) \<Longrightarrow> answers quiet s (parsed x s f)"
  using answers_intros(1) by (cases x) (auto simp: parsed_def split: option.split)

lemma stub_ok_sys: "stub_ok s \<Longrightarrow> sys_wf z \<Longrightarrow> tcpServer z = tcpServer (sys s) \<Longrightarrow>
    stub_ok (s\<lparr>sys := z\<rparr>) \<and> conn_of (s\<lparr>sys := z\<rparr>) = conn_of s"
  by (simp add: stub_ok_def conn_of_def)

lemma answers_target:
  assumes "debugger_op op" "stub_ok s"
    and "\<And>r s1. op (sys s) = Inr (r, sys s1) \<Longrightarrow> stub_ok s1 \<Longrightarrow> conn_of s1 = conn_of s \<Longrightarrow> answers quiet s (f r s1)"
  shows "answers quiet s (target (op (sys s)) s f)"
proof -
  have "sys_wf (sys s)"
    using assms(2) by (simp add: stub_ok_def)
  then obtain r z where z: "op (sys s) = Inr (r, z)" "sys_wf z" "same_target (sys s) z"
    using debugger_op.op_cases [OF assms(1)] by blast
  then have "stub_ok (s\<lparr>sys := z\<rparr>)" "conn_of (s\<lparr>sys := z\<rparr>) = conn_of s"
    using stub_ok_sys [OF assms(2)] by (auto simp: same_target_def)
  with z assms(3) [of r "s\<lparr>sys := z\<rparr>"] show ?thesis
    by (simp add: target_def)
qed

lemma answers_ok: "stub_ok t \<Longrightarrow> conn_of t = conn_of s \<Longrightarrow> answers quiet s (replied (dbg_send_ok_packet t))"
  unfolding dbg_send_ok_packet_def by (rule answers_intros(2) [OF replied_send]) auto

lemma answers_coded: "stub_ok t \<Longrightarrow> conn_of t = conn_of s \<Longrightarrow> k \<noteq> - 1 \<Longrightarrow> answers quiet s (replied (send_coded k v t))"
  by (rule answers_intros(2) [OF replied_coded])

lemma answers_encoded:
  "stub_ok t \<Longrightarrow> conn_of t = conn_of s \<Longrightarrow> length data * 2 \<le> 512 \<Longrightarrow> answers quiet s (send_encoded (dbg_enc_hex 512 data) t)"
  by (rule answers_intros(2) [OF replied_encoded])

definition arg_commands :: "byte set" where
  "arg_commands = {0x7a, 0x5a, 0x70, 0x6d, 0x4d, 0x58}"

lemma answers_command:
  assumes ok: "stub_ok s" and stop: "pkt_buf s ! 0 \<in> arg_commands \<longrightarrow> stopped (pkt_buf s)"
  shows "answers (pkt_buf s ! 0 \<in> {0x52, 0x6b, 0x63, 0x73}) s (command s)"
proof -
  have wf: "sys_wf (sys s)"
    using ok by (simp add: stub_ok_def)
  have parse: "parse_breakpoint (pkt_buf s) (pkt_len s) \<noteq> Inl e" "parse_register (pkt_buf s) (pkt_len s) \<noteq> Inl e"
    "parse_read (pkt_buf s) (pkt_len s) \<noteq> Inl e" "parse_write (pkt_buf s) (pkt_len s) \<noteq> Inl e"
    if "pkt_buf s ! 0 \<in> arg_commands" for e
    using parse_stopped [of "pkt_buf s" "pkt_len s"] that stop ok by (auto simp: stub_ok_def)
  have "answers True s (cmd_restart s)"
    unfolding cmd_restart_def by (rule answers_target [OF restart_op.debugger_op_axioms ok]) (simp add: answers_intros)
  moreover have "answers q s (cmd_breakpoint s)" if arg: "pkt_buf s ! 0 \<in> arg_commands" for q
  proof -
    have "answers q s (target (dbg_sys_add_breakpoint a (sys s)) s (\<lambda>r s1. replied (dbg_send_ok_packet s1)))"
      "answers q s (target (dbg_sys_delete_breakpoint a (sys s)) s (\<lambda>r s1. replied (dbg_send_ok_packet s1)))" for a
      by (rule answers_target [OF add_op.debugger_op_axioms ok], simp add: answers_ok)
        (rule answers_target [OF delete_op.debugger_op_axioms ok], simp add: answers_ok)
    then show ?thesis
      unfolding cmd_breakpoint_def by (intro answers_parsed) (simp_all add: parse [OF arg])
  qed
  moreover have "answers q s (cmd_read_registers s)" for q
  proof -
    have "length (concat (map le_bytes32 (registers (dbg_state (sys s))))) = 132"
      using wf by (simp add: sys_wf_def length_concat comp_def sum_list_triv)
    moreover from this have "answers q s (send_encoded (dbg_enc_hex 512 (concat (map le_bytes32 (registers (dbg_state (sys s)))))) (s\<lparr>pkt_len := 264\<rparr>))"
      using ok by (intro answers_encoded) (simp_all add: stub_ok_def)
    ultimately show ?thesis
      by (simp add: cmd_read_registers_def dbg_enc_hex_fits)
  qed
  moreover have "answers q s (cmd_read_register s)" if arg: "pkt_buf s ! 0 \<in> arg_commands" for q
    unfolding cmd_read_register_def using ok
    by (intro answers_parsed) (simp_all add: parse [OF arg] answers_intros answers_encoded)
  moreover have "answers q s (cmd_read_memory s)" if arg: "pkt_buf s ! 0 \<in> arg_commands" for q
  proof -
    have "answers q s (case dbg_mem_read 512 a k dbg_enc_hex (sys s) of Inl e \<Rightarrow> Inl (Target e) | Inr enc \<Rightarrow> send_encoded enc s)" for a k
      using mem_read_loop_bytes [OF wf, of a 0 k] ok
      by (simp add: dbg_mem_read_def answers_encoded) (simp add: send_encoded_def answers_intros)
    then show ?thesis
      unfolding cmd_read_memory_def by (intro answers_parsed) (simp_all add: parse [OF arg] split: prod.split)
  qed
  moreover have "answers q s (cmd_write_memory s)" if arg: "pkt_buf s ! 0 \<in> arg_commands" for q
    unfolding cmd_write_memory_def dbg_send_error_packet_def using ok
    by (intro answers_parsed) (simp_all add: parse [OF arg] answers_coded split: prod.split)
  moreover have "answers True s (cmd_resume op s)" if "op = dbg_continue \<or> op = dbg_step" for op
  proof -
    have "debugger_op op"
      using that continue_op.debugger_op_axioms step_op.debugger_op_axioms
      by (auto simp: dbg_continue_def [abs_def] dbg_step_def [abs_def])
    then show ?thesis
      unfolding cmd_resume_def dbg_send_terminated_packet_def
      by (rule answers_target [OF _ ok]) (simp add: answers_coded answers_intros)
  qed
  moreover have "answers q s (cmd_query s)" "answers q s (cmd_ok s)" for q
    using ok by (simp_all add: cmd_query_def dbg_send_signal_packet_def cmd_ok_def answers_coded answers_ok)
  moreover have "answers q s (cmd_unsupported s)" for q
    unfolding cmd_unsupported_def by (rule answers_intros(2) [OF replied_send [OF ok]]) simp_all
  ultimately show ?thesis
    using ok by (simp add: command_def Let_def answers_intros arg_commands_def)
qed

text \<open>
  C8: one reply for every packet. On any non-empty packet that arrives whole, known command
  or not, the loop body sends the acknowledgement and then exactly one packet, or none, and
  none only for restart, kill, continue and step; it keeps the buffer at its size and the
  target well-formed. For the commands with arguments this needs that the last of the 512 bytes
  of the buffer is not a digit, sign, prefix letter or separator; no hypothesis is made on
  the other bytes behind the packet, which the parsers may read.
\<close>
theorem one_reply:
  assumes "stub_ok s" "in_stream (conn_of s) = map Some (frame d) @ rest" "ch_hash \<notin> set d" "length d \<le> 512" "d \<noteq> []"
    and "hd d \<in> arg_commands \<longrightarrow> stops_arguments (last (d @ drop (length d) (pkt_buf s)))"
  shows "\<exists>f s'. main_step s = Inr (f, s') \<and> f \<noteq> GotoError \<and> stub_ok s' \<and>
    ((\<exists>reply. tx_out (conn_of s') = tx_out (conn_of s) @ ch_plus # frame reply) \<or>
     tx_out (conn_of s') = tx_out (conn_of s) @ [ch_plus] \<and> hd d \<in> {0x52, 0x6b, 0x63, 0x73})"
proof -
  obtain s1 where s1: "stub_ok s1" "in_stream (conn_of s1) = rest" "tx_out (conn_of s1) = tx_out (conn_of s) @ [ch_plus]"
    "pkt_buf s1 = d @ drop (length d) (pkt_buf s)" "pkt_len s1 = length d" "same_sys (sys s) (sys s1)"
    "main_step s = (case command s1 of
        Inl e \<Rightarrow> Inl e | Inr (GotoError, s2) \<Rightarrow> replied (dbg_send_error_packet 0 s2) | Inr r \<Rightarrow> Inr r)"
    using main_step_request [OF assms(1-5)] .
  have first: "pkt_buf s1 ! 0 = hd d"
    using s1(4) assms(5) by (simp add: hd_conv_nth nth_append)
  have "pkt_buf s1 ! 0 \<in> arg_commands \<longrightarrow> stopped (pkt_buf s1)"
    unfolding first stopped_def using assms(5,6) by (simp add: s1(4))
  with answers_command [OF s1(1)] first consider "command s1 = Inr (GotoError, s1)"
    | r t where "conn_of t = conn_of s1" "replies t r (command s1)"
    | f s' where "command s1 = Inr (f, s')" "f \<noteq> GotoError" "conn_of s' = conn_of s1" "stub_ok s'" "hd d \<in> {0x52, 0x6b, 0x63, 0x73}"
    unfolding answers_def by metis
  then show ?thesis
  proof cases
    case 1
    then have "replies s1 (0x45 # hex_of_byte 0) (main_step s)"
      using replied_coded [OF s1(1), of "0x45" 0] by (simp add: s1(7) dbg_send_error_packet_def)
    then obtain s' where "main_step s = Inr (after_ack rest, s')" "stub_ok s'"
      "tx_out (conn_of s') = tx_out (conn_of s) @ ch_plus # frame (0x45 # hex_of_byte 0)"
      by (auto simp: replies_def s1(2,3))
    moreover have "after_ack rest \<noteq> GotoError"
      by (simp add: after_ack_def)
    ultimately show ?thesis
      by blast
  next
    case 2
    then obtain s' where "command s1 = Inr (after_ack rest, s')" "tx_out (conn_of s') = tx_out (conn_of s1) @ frame r" "stub_ok s'"
      by (auto simp: replies_def s1(2))
    moreover have "after_ack rest \<noteq> GotoError"
      by (simp add: after_ack_def)
    ultimately show ?thesis
      by (auto simp: s1(3,7) split: flow.splits)
  next
    case 3
    then have "main_step s = Inr (f, s')"
      by (cases f) (simp_all add: s1(7))
    with 3 show ?thesis
      by (simp add: s1(3))
  qed
qed

text \<open>A read of memory, over stale bytes that are all digits but the last.\<close>

theorem one_reply_witness:
  "\<exists>f s' reply. main_step (example_stub (frame [0x6d, 0x31] @ [ch_plus]) (replicate 511 0x31 @ [0])) = Inr (f, s') \<and> stub_ok s' \<and>
     tx_out (conn_of s') = ch_plus # frame reply"
proof -
  have "length (replicate 511 (0x31 :: byte) @ [0]) = 512"
    by simp
  then have ok: "stub_ok (example_stub (frame [0x6d, 0x31] @ [ch_plus]) (replicate 511 0x31 @ [0]))"
    by (rule example_stub_ok)
  have "stops_arguments (last ([0x6d, 0x31] @ drop (length [0x6d, 0x31 :: byte])
      (pkt_buf (example_stub (frame [0x6d, 0x31] @ [ch_plus]) (replicate 511 0x31 @ [0])))))"
    by (simp add: example_stub_def stops_arguments_def)
  then show ?thesis
    using one_reply [OF ok example_stub_stream [of "[0x6d, 0x31]" "[ch_plus]"]] by (auto simp: example_stub_conn)
qed

text \<open>
  C23: a full packet makes the stub read past its buffer. After the number that fills a packet
  of 512 characters, the test for the separator reads \<open>pkt_buf[512]\<close>: every \<open>m\<close>, \<open>M\<close>,
  \<open>X\<close>, \<open>z\<close> or \<open>Z\<close> packet with 511 hexadecimal digits does so.
\<close>
theorem full_packet_overreads:
  assumes "stub_ok s" "in_stream (conn_of s) = map Some (frame (c # ds)) @ rest"
    and "c \<in> {0x6d, 0x4d, 0x58, 0x7a, 0x5a}" "length ds = 511" "set ds \<subseteq> set digits"
  shows "main_step s = Inl BufferOverread"
proof -
  have "c \<noteq> ch_hash" "ch_hash \<notin> set ds"
    using assms(3,5) digits_not_special [of ch_hash] by (auto simp: is_special_def)
  then have clean: "ch_hash \<notin> set (c # ds)" "length (c # ds) \<le> 512" "c # ds \<noteq> []"
    using assms(4) by auto
  obtain s1 where s1: "stub_ok s1" "in_stream (conn_of s1) = rest" "tx_out (conn_of s1) = tx_out (conn_of s) @ [ch_plus]"
    "pkt_buf s1 = (c # ds) @ drop (length (c # ds)) (pkt_buf s)" "pkt_len s1 = length (c # ds)" "same_sys (sys s) (sys s1)"
    "main_step s = (case command s1 of
        Inl e \<Rightarrow> Inl e | Inr (GotoError, s2) \<Rightarrow> replied (dbg_send_error_packet 0 s2) | Inr r \<Rightarrow> Inr r)"
    using main_step_request [OF assms(1,2) clean] .
  have "length (pkt_buf s) = 512"
    using assms(1) by (simp add: stub_ok_def)
  then have buf: "pkt_buf s1 = c # ds"
    using s1(4) assms(4) by simp
  have dig: "dbg_get_val x 16 \<noteq> EOF" "x \<noteq> 0x78" "x \<noteq> 0x58" "x \<noteq> ch_minus" "x \<noteq> ch_plus" if "x \<in> set ds" for x
    using assms(5) that digits_are_hex by (auto simp: digits_def)
  obtain d0 d1 ds' where ds: "ds = d0 # d1 # ds'"
    using assms(4) by (cases ds; cases "tl ds") auto
  have "strtol_spec ds 16 = Some (digits_value 16 ds, 511)"
  proof -
    have "spec_sign ds = (1, 0)" "\<not> spec_hex_prefix ds"
      using dig [of d0] dig [of d1] by (auto simp: ds spec_sign_def spec_hex_prefix_def split: list.splits)
    moreover have "takeWhile (\<lambda>c. dbg_get_val c 16 \<noteq> EOF) ds = ds"
      using dig(1) by (simp add: takeWhile_eq_all_conv)
    ultimately show ?thesis
      using assms(4) by (simp add: strtol_spec_def ds)
  qed
  then have arg: "token_expect_integer_arg (pkt_buf s1) (pkt_len s1) 1 = Inr (Some (word_of_int (digits_value 16 ds), 512))"
    using integer_arg_spec [of 1 "c # ds" "[]"] assms(4) s1(5) by (simp add: buf)
  have sep: "token_expect_seperator (pkt_buf s1) x 512 = Inl BufferOverread" for x
    using assms(4) by (simp add: token_expect_seperator_def buf)
  have "parse_breakpoint (pkt_buf s1) (pkt_len s1) = Inl BufferOverread" "parse_read (pkt_buf s1) (pkt_len s1) = Inl BufferOverread"
    "parse_write (pkt_buf s1) (pkt_len s1) = Inl BufferOverread"
    by (simp_all only: parse_breakpoint_def parse_read_def parse_write_def arg and_then_def sum.case option.case prod.case sep)
  moreover have "pkt_buf s1 ! 0 = c"
    by (simp add: buf)
  ultimately have "command s1 = Inl BufferOverread"
    using assms(3) by (auto simp: command_def cmd_breakpoint_def cmd_read_memory_def cmd_write_memory_def parsed_def)
  then show ?thesis
    by (simp add: s1(7))
qed

theorem full_packet_overreads_witness:
  "main_step (example_stub (frame (0x6d # replicate 511 0x31) @ [ch_plus]) (replicate 512 0)) = Inl BufferOverread"
proof -
  have "set (replicate 511 (0x31 :: byte)) \<subseteq> set digits"
    by (auto simp: digits_def)
  then show ?thesis
    using full_packet_overreads [OF example_stub_facts(1,2), of "0x6d" "replicate 511 0x31" "[ch_plus]" 0] by simp
qed

text \<open>
  C25: a corrupted packet ends the session. A packet with a wrong checksum is refused with
  \<open>-\<close>, but \<open>dbg_main\<close> then returns 0 and its next activation sends an unsolicited stop
  reply; the packet that the client sends again is taken for its acknowledgement, and that
  activation returns -1, which ends \<open>dbg_sys_init\<close>.
\<close>
theorem corrupted_packet_ends_session:
  assumes "stub_ok s" "y \<noteq> x" "ch_hash \<notin> set (d1 @ y # d2)" "length (d1 @ y # d2) \<le> 512"
    and "in_stream (conn_of s) = map Some (ch_dollar # (d1 @ y # d2) @ ch_hash # hex_of_byte (dbg_checksum (d1 @ x # d2))) @
      map Some (frame again) @ rest"
  shows "\<exists>s'. main_loop s = Inr (0, s') \<and> tx_out (conn_of s') = tx_out (conn_of s) @ [ch_minus] \<and>
    (\<forall>stack. length stack = 512 \<longrightarrow> (\<exists>s''. dbg_main stack (sys s') = Inr (- 1, s'') \<and>
       tx_out (conn_of s'') = tx_out (conn_of s') @ frame (0x53 # hex_of_byte (sig_char s))))"
proof -
  let ?d = "d1 @ y # d2"
  have ok: "conn_wf (conn_of s)" "link_up (conn_of s)" "512 \<le> length (pkt_buf s)" "length (pkt_buf s) = 512"
    using assms(1) by (simp_all add: stub_ok_def)
  obtain h l where hl: "hex_of_byte (dbg_checksum (d1 @ x # d2)) = [h, l]" "is_hex_char h" "is_hex_char l"
    and dec: "dbg_dec_hex [h, l] 1 = Some [dbg_checksum (d1 @ x # d2)]"
    by (rule hex_of_byte_pair)
  have ne: "dbg_checksum (d1 @ x # d2) \<noteq> dbg_checksum ?d"
    using assms(2) by (simp add: dbg_checksum_single)
  have st: "in_stream (conn_of s) = map Some ([] @ ch_dollar # ?d @ [ch_hash, h, l]) @ map Some (frame again) @ rest"
    using assms(5) by (simp add: hl)
  have junk: "ch_dollar \<notin> set []"
    by simp
  obtain c' z where z: "dbg_dec_hex [h, l] 1 = Some [z]" and c': "in_stream c' = map Some (frame again) @ rest" "conn_wf c'"
    "same_tx (conn_of s) c'" and recv: "dbg_recv_packet (pkt_buf s) (length (pkt_buf s)) (conn_of s) =
      (if z \<noteq> dbg_checksum ?d
       then Some (None, ?d @ drop (length ?d) (pkt_buf s), snd (dbg_sys_putchar ch_minus c'))
       else Some (Some (length ?d), ?d @ drop (length ?d) (pkt_buf s), snd (dbg_sys_putchar ch_plus c')))"
    using recv_packet_checksum [OF ok(1) st junk assms(3) assms(4) ok(3) hl(2,3)] ok(4) by metis
  have bad: "z \<noteq> dbg_checksum ?d"
    using z dec ne by simp
  obtain r c2 where put: "dbg_sys_putchar ch_minus c' = (r, c2)"
    by fastforce
  have "link_up c'"
    using c'(3) ok(2) by (simp add: same_tx_link_up)
  then have c2: "tx_out c2 = tx_out (conn_of s) @ [ch_minus]" "link_up c2"
    using tcp_out.putc_ok [OF _ put] c'(3) by (simp_all add: same_tx_def)
  have rx: "in_stream c2 = map Some (frame again) @ rest" "conn_wf c2"
    using same_rx_stream [OF putchar_same_rx [OF put]] c'(1,2) by simp_all
  define s' where "s' = set_conn c2 (s\<lparr>pkt_buf := ?d @ drop (length ?d) (pkt_buf s)\<rparr>)"
  have "main_step s = Inr (Return 0, s')"
    using recv bad put by (simp add: main_step_def s'_def)
  then have loop: "main_loop s = Inr (0, s')"
    by (subst main_loop.simps) simp
  have conn': "conn_of s' = c2"
    by (simp add: s'_def)
  have "\<exists>s''. dbg_main stack (sys s') = Inr (- 1, s'') \<and>
      tx_out (conn_of s'') = tx_out (conn_of s') @ frame (0x53 # hex_of_byte (sig_char s))" if len: "length stack = 512" for stack
  proof -
    define t where "t = \<lparr>sys = sys s', pkt_buf = stack, pkt_len = 0\<rparr>"
    have conn: "conn_of t = c2"
      by (simp add: t_def s'_def conn_of_def set_conn_def)
    have "stub_ok t"
      using assms(1) len c2 rx by (simp add: stub_ok_def conn) (simp add: t_def s'_def)
    from replied_coded [OF this, of "0x53" "sig_char t"]
    obtain s'' where s'': "replied (dbg_send_signal_packet (sig_char t) t) = Inr (after_ack (in_stream c2), s'')"
      "tx_out (conn_of s'') = tx_out c2 @ frame (0x53 # hex_of_byte (sig_char t))"
      by (auto simp: replies_def dbg_send_signal_packet_def conn)
    have "after_ack (in_stream c2) = Return (- 1)"
      by (simp add: rx after_ack_def ack_status_def frame_def)
    then have "dbg_send_signal_packet (sig_char t) t = (- 1, s'')"
      using s''(1) by (auto simp: replied_def split: prod.splits if_splits)
    moreover have "sig_char t = sig_char s"
      by (simp add: sig_char_def t_def s'_def set_conn_def)
    ultimately show ?thesis
      using s''(2) by (simp add: dbg_main_def t_def [symmetric] conn')
  qed
  with loop show ?thesis
    by (intro exI [of _ s']) (simp add: s'_def c2)
qed

theorem corrupted_packet_ends_session_witness:
  "\<exists>s'. main_loop (example_stub (ch_dollar # [0x68] @ ch_hash # hex_of_byte (dbg_checksum [0x67]) @ frame [0x67]) (replicate 512 0)) = Inr (0, s') \<and>
     (\<exists>s''. dbg_main (replicate 512 0) (sys s') = Inr (- 1, s''))"
proof -
  let ?s = "example_stub (ch_dollar # [0x68] @ ch_hash # hex_of_byte (dbg_checksum [0x67]) @ frame [0x67]) (replicate 512 0)"
  have st: "in_stream (conn_of ?s) = map Some (ch_dollar # ([] @ 0x68 # []) @ ch_hash # hex_of_byte (dbg_checksum ([] @ 0x67 # []))) @
      map Some (frame [0x67]) @ []"
    by (simp add: example_stub_conn chunk_events_def)
  have ne: "(0x68 :: byte) \<noteq> 0x67" and nh: "ch_hash \<notin> set ([] @ 0x68 # [])" and le: "length ([] @ (0x68 :: byte) # []) \<le> 512"
    by simp_all
  obtain s' where s': "main_loop ?s = Inr (0, s')" and again: "\<forall>stack. length stack = 512 \<longrightarrow>
      (\<exists>s''. dbg_main stack (sys s') = Inr (- 1, s'') \<and>
         tx_out (conn_of s'') = tx_out (conn_of s') @ frame (0x53 # hex_of_byte (sig_char ?s)))"
    using corrupted_packet_ends_session [OF example_stub_facts(1) ne nh le st] by (elim exE conjE) (rule that)
  from again [rule_format, OF length_replicate, of 0] have "\<exists>s''. dbg_main (replicate 512 0) (sys s') = Inr (- 1, s'')"
    by (elim exE conjE) (rule exI)
  from conjI [OF s' this] show ?thesis
    by (rule exI)
qed

section \<open>Stale bytes behind a packet\<close>

lemma strtol_loop_len:
  "strtol_loop buf p len base pos v ok = Some (q, w, ok') \<Longrightarrow> q < len \<Longrightarrow> len \<le> len' \<Longrightarrow>
     strtol_loop buf p len' base pos v ok = Some (q, w, ok')"
proof (induction buf p len base pos v ok rule: strtol_loop.induct)
  case (1 buf p len base pos v ok)
  show ?case
  proof (cases "pos < len")
    case False
    then show ?thesis
      using 1(2,3) by (subst (asm) strtol_loop.simps) simp
  next
    case True
    then obtain c where c: "peek buf (p + pos) = Some c"
      using 1(2) by (subst (asm) strtol_loop.simps) (auto split: option.splits)
    show ?thesis
    proof (cases "c = 0 \<or> dbg_get_val c base = EOF")
      case stop: True
      then show ?thesis
        using 1(2,4) True c by (subst (asm) strtol_loop.simps, subst strtol_loop.simps) auto
    next
      case False
      then have "strtol_loop buf p len base (Suc pos) (v * word_of_int base + word_of_int (dbg_get_val c base)) True = Some (q, w, ok')"
        using 1(2) True c by (subst (asm) strtol_loop.simps) (simp add: Let_def)
      with 1(1) [OF True c _ refl _ this 1(3,4)] False 1(4) True c show ?thesis
        by (subst strtol_loop.simps) (simp add: Let_def)
    qed
  qed
qed

text \<open>A number that ends inside the buffer is read the same with any larger length.\<close>

lemma dbg_strtol_beyond:
  assumes "stops_number (z # behind)" "length (hex_of_nat n) + 1 + length behind \<le> len"
  shows "dbg_strtol (pre @ hex_of_nat n @ z # behind) (length pre) len 16 =
    Some (word_of_nat n, Some (length pre + length (hex_of_nat n)))"
proof -
  let ?h = "hex_of_nat n" and ?buf = "pre @ hex_of_nat n @ z # behind" and ?p = "length pre"
  let ?len0 = "length (?h @ z # behind)"
  obtain d ds where h: "?h = d # ds"
    by (cases ?h) auto
  have dig: "d \<in> set digits" "set ds \<subseteq> set digits"
    using set_hex_of_nat [of n] by (auto simp: h)
  have z: "dbg_get_val z 16 = EOF" "z \<noteq> 0x78" "z \<noteq> 0x58"
    using assms(1) by (auto simp: stops_number_def)
  have sgn: "strtol_sign d = (1, 0)"
    using dig(1) by (auto simp: strtol_sign_def digits_def)
  have second: "(ds @ z # behind) ! 0 \<noteq> 0x78 \<and> (ds @ z # behind) ! 0 \<noteq> 0x58"
    using dig(2) z by (cases ds) (auto simp: digits_def)
  have pre: "strtol_prefix ?buf ?p len 0 = Some False"
    using second by (simp add: strtol_prefix_def h nth_append)
  have "strtol_loop ?buf ?p ?len0 16 0 0 False =
      (let ds = takeWhile (\<lambda>c. dbg_get_val c 16 \<noteq> EOF) (take (?len0 - 0) (drop (?p + 0) ?buf))
       in Some (0 + length ds,
              foldl (\<lambda>v c. v * word_of_int 16 + word_of_int (dbg_get_val c 16)) 0 ds,
              False \<or> ds \<noteq> []))"
    by (rule strtol_loop_takeWhile) simp_all
  moreover have "takeWhile (\<lambda>c. dbg_get_val c 16 \<noteq> EOF) (take (?len0 - 0) (drop (?p + 0) ?buf)) = ?h"
    using set_hex_of_nat [of n] digits_are_hex z(1) by (auto simp: takeWhile_append)
  moreover have "foldl (\<lambda>v c. v * word_of_int 16 + word_of_int (dbg_get_val c 16)) 0 ?h = (word_of_nat n :: u32)"
    using foldl_digits_word [of 16 0 ?h] digits_value_hex_of_nat [of n] by (simp add: digits_value_def)
  ultimately have "strtol_loop ?buf ?p ?len0 16 0 0 False = Some (length ?h, word_of_nat n, True)"
    by (simp add: Let_def)
  from strtol_loop_len [OF this, of len] assms(2)
  have loop: "strtol_loop ?buf ?p len 16 0 0 False = Some (length ?h, word_of_nat n, True)"
    by simp
  have "peek ?buf ?p = Some d" "\<not> len < 1"
    using assms(2) by (simp_all add: h nth_append)
  then show ?thesis
    using sgn pre loop by (simp add: dbg_strtol_def)
qed

lemma remaining_wraps: "n < p \<Longrightarrow> p \<le> 512 \<Longrightarrow> 512 \<le> token_remaining_buf n p"
proof -
  assume p: "n < p" "p \<le> 512"
  have "uint (word_of_nat n - word_of_nat p :: u64) = (int n - int p) mod 2 ^ 64"
    using p by (simp add: uint_word_ariths unsigned_of_nat take_bit_nat_eq_self)
  also have "\<dots> = int n - int p + 2 ^ 64"
    using p by (subst mod_add_self2 [symmetric], intro mod_pos_pos_trivial) auto
  finally have "512 \<le> uint (word_of_nat n - word_of_nat p :: u64)"
    using p by simp
  from nat_mono [OF this] show ?thesis
    unfolding token_remaining_buf_def unat_eq_nat_uint by (simp only: nat_numeral)
qed

text \<open>
  C24: arguments that are not in the packet are taken from an earlier one. When the buffer
  still holds a breakpoint packet, the two-character packet \<open>Z0\<close>, which has no address, is
  not refused: it sets a breakpoint at the address of the earlier packet (here even of one
  that deleted it) and is answered with \<open>OK\<close>.
\<close>
theorem stale_arguments_used:
  assumes "stub_ok s" "pkt_buf s = breakpoint_request c 0 a kind @ z # behind" "stops_number (z # behind)"
    and "in_stream (conn_of s) = map Some (frame [0x5a, 0x30]) @ rest" "kind < 2 ^ 32"
  shows "\<exists>bps. served s rest [0x4f, 0x4b] ((sys s)\<lparr>breakpoints := bps\<rparr>) \<and> word_of_nat a \<in> dom bps"
proof -
  let ?b = "breakpoints (sys s)" and ?d = "[0x5a, 0x30 :: byte]"
  define bps where "bps = (if ?b (word_of_nat a) = None then ?b(word_of_nat a \<mapsto> True) else ?b)"
  have zero: "hex_of_nat 0 = [0x30]"
    by (subst hex_of_nat.simps) (simp add: dbg_get_digit_def digits_def)
  have len: "length (breakpoint_request c 0 a kind @ z # behind) = 512"
    using assms(1,2) by (simp add: stub_ok_def)
  have "served s rest [0x4f, 0x4b] ((sys s)\<lparr>breakpoints := bps\<rparr>)"
  proof (rule served_command [OF assms(1,4)])
    fix s1
    assume s1: "stub_ok s1" "pkt_buf s1 = ?d @ drop (length ?d) (pkt_buf s)" "pkt_len s1 = length ?d" "same_sys (sys s) (sys s1)"
    let ?x1 = "[0x5a, 0x30, ch_comma]" and ?x2 = "[0x5a, 0x30, ch_comma] @ hex_of_nat a @ [ch_comma]"
    have buf: "pkt_buf s1 = ?x1 @ hex_of_nat a @ ch_comma # hex_of_nat kind @ z # behind"
      "pkt_buf s1 = ?x2 @ hex_of_nat kind @ z # behind" "pkt_buf s1 = ?d @ ch_comma # hex_of_nat a @ ch_comma # hex_of_nat kind @ z # behind"
      using s1(2) assms(2) by (simp_all add: breakpoint_request_def zero)
    have total: "3 + length (hex_of_nat a) + 1 + length (hex_of_nat kind) + 1 + length behind = 512"
      using len by (simp add: breakpoint_request_def zero)
    have "strtol_spec [0x30] 16 = Some (0, 1)"
      using strtol_spec_hex_of_nat [of "[]" 0] by (simp add: zero)
    then have 1: "token_expect_integer_arg (pkt_buf s1) (pkt_len s1) 1 = Inr (Some (0, 2))"
      using integer_arg_spec [of 1 ?d "drop 2 (pkt_buf s1)"] s1(3) by (simp add: buf(3))
    have 2: "token_expect_seperator (pkt_buf s1) ch_comma 2 = Inr (Some 3)"
      by (simp add: buf(3) token_expect_seperator_def)
    have "512 \<le> token_remaining_buf (pkt_len s1) 3"
      by (rule remaining_wraps) (simp_all add: s1(3))
    then have 3: "token_expect_integer_arg (pkt_buf s1) (pkt_len s1) 3 = Inr (Some (word_of_nat a, 3 + length (hex_of_nat a)))"
      using dbg_strtol_beyond [of ch_comma "hex_of_nat kind @ z # behind" a "token_remaining_buf (pkt_len s1) 3" ?x1] total
      by (simp add: token_expect_integer_arg_def buf(1) numeral_3_eq_3)
    have 4: "token_expect_seperator (pkt_buf s1) ch_comma (3 + length (hex_of_nat a)) = Inr (Some (length ?x2))"
      using seperator_here [of "?x1 @ hex_of_nat a" ch_comma "hex_of_nat kind @ z # behind"]
      by (simp add: buf(1) numeral_3_eq_3)
    have "512 \<le> token_remaining_buf (pkt_len s1) (length ?x2)"
      using total by (intro remaining_wraps) (simp_all add: s1(3))
    then have 5: "token_expect_integer_arg (pkt_buf s1) (pkt_len s1) (length ?x2) = Inr (Some (word_of_nat kind, length ?x2 + length (hex_of_nat kind)))"
      using dbg_strtol_beyond [OF assms(3), of kind "token_remaining_buf (pkt_len s1) (length ?x2)" ?x2] total
      unfolding token_expect_integer_arg_def buf(2) by simp
    have parse: "parse_breakpoint (pkt_buf s1) (pkt_len s1) = Inr (Some (word_of_nat a))"
      by (simp only: parse_breakpoint_def 1 and_then_def sum.case option.case prod.case 2 3 4 5)
    define t where "t = s1\<lparr>sys := (sys s1)\<lparr>breakpoints := bps\<rparr>\<rparr>"
    have b: "breakpoints (sys s1) = ?b"
      using same_sys_D(6) [OF s1(4)] .
    have idem: "s1\<lparr>sys := (sys s1)\<lparr>breakpoints := ?b\<rparr>\<rparr> = s1"
      by (simp add: b [symmetric])
    have hd: "pkt_buf s1 ! 0 = 0x5a"
      by (simp add: s1(2))
    then have "command s1 = cmd_breakpoint s1"
      by (simp add: command_def)
    also have "\<dots> = replied (send [0x4f, 0x4b] t)"
      using hd by (auto simp: cmd_breakpoint_def parse parsed_def target_def dbg_sys_add_breakpoint_def b idem t_def bps_def
          dbg_send_ok_packet_def)
    finally have cmd: "command s1 = replied (send [0x4f, 0x4b] t)" .
    have "stub_ok t"
      using s1(1) by (simp add: stub_ok_def t_def conn_of_def sys_wf_def)
    from replied_send [OF this, of "[0x4f, 0x4b]"]
    show "command s1 = Inr (GotoError, s1) \<and> [0x4f, 0x4b] = 0x45 # hex_of_byte 0 \<and> same_sys ((sys s)\<lparr>breakpoints := bps\<rparr>) (sys s1) \<or>
      (\<exists>t. conn_of t = conn_of s1 \<and> same_sys ((sys s)\<lparr>breakpoints := bps\<rparr>) (sys t) \<and> replies t [0x4f, 0x4b] (command s1))"
      using s1(4) by (intro disjI2 exI [of _ t]) (simp add: cmd t_def conn_of_def same_sys_breakpoints)
  qed simp_all
  moreover have "word_of_nat a \<in> dom bps"
    by (auto simp: bps_def)
  ultimately show ?thesis
    by blast
qed

theorem stale_arguments_used_witness:
  "\<exists>bps. served (example_stub (frame [0x5a, 0x30] @ [ch_plus]) (breakpoint_request 0x7a 0 0x1234 4 @ 0 # replicate 502 0))
       [Some ch_plus] [0x4f, 0x4b]
       ((sys (example_stub (frame [0x5a, 0x30] @ [ch_plus]) (breakpoint_request 0x7a 0 0x1234 4 @ 0 # replicate 502 0)))\<lparr>breakpoints := bps\<rparr>) \<and>
     0x1234 \<in> dom bps"
proof -
  let ?buf = "breakpoint_request 0x7a 0 0x1234 4 @ 0 # replicate 502 0"
  have h: "hex_of_nat 0 = [0x30]" "hex_of_nat 4 = [0x34]" "hex_of_nat 0x1234 = [0x31, 0x32, 0x33, 0x34]"
    by (subst hex_of_nat.simps, simp add: dbg_get_digit_def digits_def)+
  then have "length ?buf = 512"
    by (simp add: breakpoint_request_def)
  then have "stub_ok (example_stub (frame [0x5a, 0x30] @ [ch_plus]) ?buf)"
    by (rule example_stub_ok)
  moreover have "pkt_buf (example_stub (frame [0x5a, 0x30] @ [ch_plus]) ?buf) = ?buf"
    by (simp add: example_stub_def)
  moreover have "stops_number (0 # replicate 502 0)"
    by (simp add: stops_number_def)
  moreover have "in_stream (conn_of (example_stub (frame [0x5a, 0x30] @ [ch_plus]) ?buf)) = map Some (frame [0x5a, 0x30]) @ [Some ch_plus]"
    using example_stub_facts(2) by simp
  ultimately have "\<exists>bps. served (example_stub (frame [0x5a, 0x30] @ [ch_plus]) ?buf) [Some ch_plus] [0x4f, 0x4b]
      ((sys (example_stub (frame [0x5a, 0x30] @ [ch_plus]) ?buf))\<lparr>breakpoints := bps\<rparr>) \<and> word_of_nat 0x1234 \<in> dom bps"
    by (rule stale_arguments_used) simp
  then show ?thesis
    by (simp only: of_nat_numeral)
qed

end
