(* ===== verification/Start_Up.thy ===== *)
theory Start_Up
  imports Fst_Process
begin

text \<open>
  Starting the program (\<open>src/main.cc\<close>): the options of the command line, the configuration file
  that names the signals, and opening the socket (\<open>src/TcpServer.cc\<close>). \<open>getopt\<close> and \<open>stoi\<close> are
  those of the C and C++ libraries (\<open>getopt\<close> of glibc, which skips arguments that are not
  options).

  A configuration file is its text, \<open>None\<close> if it cannot be opened; reading such a file gives
  no line.
\<close>

section \<open>The command line\<close>

datatype cmd_option = Opt_h | Opt_w string | Opt_c string | Opt_p string | Opt_v | Opt_unknown

text \<open>
  \<open>getopt (argc, argv, "hw:c:p:v")\<close>: \<open>cs\<close> are the letters that are left of the current
  argument. A letter with an argument takes the rest of the letters, or the next argument.
\<close>

definition arg_option :: "char \<Rightarrow> string \<Rightarrow> cmd_option" where
  "arg_option c optarg = (if c = CHR ''w'' then Opt_w optarg else if c = CHR ''c'' then Opt_c optarg else Opt_p optarg)"

function getopt :: "string \<Rightarrow> string list \<Rightarrow> cmd_option list" where
  "getopt [] [] = []"
| "getopt [] (a # as) =
     (if a = ''--'' then []
      else if length a > 1 \<and> hd a = CHR ''-'' then getopt (tl a) as
      else getopt [] as)"
| "getopt (c # cs) as =
     (if c = CHR ''h'' then Opt_h # getopt cs as
      else if c = CHR ''v'' then Opt_v # getopt cs as
      else if c \<in> {CHR ''w'', CHR ''c'', CHR ''p''} then
        (if cs \<noteq> [] then arg_option c cs # getopt [] as
         else case as of [] \<Rightarrow> [Opt_unknown] | a # as \<Rightarrow> arg_option c a # getopt [] as)
      else Opt_unknown # getopt cs as)"
  by pat_completeness auto
termination
  by (relation "measure (\<lambda>(cs, as). length cs + sum_list (map (\<lambda>a. length a + 1) as))") auto

text \<open>\<open>std::stoi\<close> and \<open>std::stoi (s)\<close> for a 32-bit \<open>int\<close>: text behind the number is ignored.\<close>

definition dec_value :: "string \<Rightarrow> int" where
  "dec_value ds = foldl (\<lambda>v c. 10 * v + int (of_char c - 48)) 0 ds"

definition dec_digit :: "char \<Rightarrow> bool" where
  "dec_digit c \<longleftrightarrow> 48 \<le> (of_char c :: nat) \<and> of_char c \<le> (57 :: nat)"

definition stoi :: "string \<Rightarrow> cxx_error + int" where
  "stoi s =
     (let s1 = dropWhile isspace s;
          neg = (s1 \<noteq> [] \<and> hd s1 = CHR ''-'');
          s2 = (if s1 \<noteq> [] \<and> hd s1 \<in> {CHR ''-'', CHR ''+''} then tl s1 else s1);
          ds = takeWhile dec_digit s2;
          v = (if neg then - dec_value ds else dec_value ds)
      in if ds = [] then Inl InvalidArgument
         else if v < - (2 ^ 31) \<or> 2 ^ 31 \<le> v then Inl OutOfRange
         else Inr v)"

record options =
  fstFileName :: string
  configParamsFileName :: string
  portNr :: int
  verbose :: bool

definition default_options :: options where
  "default_options = \<lparr>fstFileName = [], configParamsFileName = [], portNr = 3333, verbose = False\<rparr>"

text \<open>The loop over the options. \<open>exit (n)\<close> and \<open>return n\<close> are \<open>ExitProcess n\<close>.\<close>

fun option_loop :: "cmd_option list \<Rightarrow> options \<Rightarrow> cxx_error + options" where
  "option_loop [] ops = Inr ops"
| "option_loop (c # cs) ops =
     (case c of
        Opt_h \<Rightarrow> Inl (ExitProcess 0)
      | Opt_w optarg \<Rightarrow> option_loop cs (ops\<lparr>fstFileName := optarg\<rparr>)
      | Opt_c optarg \<Rightarrow> option_loop cs (ops\<lparr>configParamsFileName := optarg\<rparr>)
      | Opt_p optarg \<Rightarrow> (case stoi optarg of Inl e \<Rightarrow> Inl e | Inr n \<Rightarrow> option_loop cs (ops\<lparr>portNr := n\<rparr>))
      | Opt_v \<Rightarrow> option_loop cs (ops\<lparr>verbose := True\<rparr>)
      | Opt_unknown \<Rightarrow> Inl (ExitProcess 1))"

text \<open>\<open>DEVELOP\<close> is 1, so missing names have defaults.\<close>

definition with_defaults :: "options \<Rightarrow> options" where
  "with_defaults ops =
     (let ops = (if fstFileName ops = [] then ops\<lparr>fstFileName := ''../test_data/top.fst''\<rparr> else ops)
      in if configParamsFileName ops = [] then ops\<lparr>configParamsFileName := ''../test_data/configParams.txt''\<rparr> else ops)"

definition command_line :: "string list \<Rightarrow> cxx_error + options" where
  "command_line argv =
     (case option_loop (getopt [] (tl argv)) default_options of Inl e \<Rightarrow> Inl e | Inr ops \<Rightarrow> Inr (with_defaults ops))"

section \<open>The configuration file\<close>

text \<open>\<open>memInitStartAddr\<close> has no initial value; a use of it before it is set is undefined (\<open>None\<close>).\<close>

record ConfigParams =
  cfg_fstFileName :: string
  cpuClkSignal :: string
  retiredPcSignal :: string
  retiredPcValidSignal :: string
  regFileWriteValidSignal :: string
  regFileWriteAddrSignal :: string
  regFileWriteDataSignal :: string
  memCmdValidSignal :: string
  memCmdReadySignal :: string
  memCmdAddrSignal :: string
  memCmdSizeSignal :: string
  memCmdWrSignal :: string
  memCmdWrDataSignal :: string
  memRspValidSignal :: string
  memRspRdDataSignal :: string
  memInitFileName :: string
  cfg_memInitStartAddr :: "int option"

definition no_params :: ConfigParams where
  "no_params =
     \<lparr>cfg_fstFileName = [], cpuClkSignal = [], retiredPcSignal = [], retiredPcValidSignal = [], regFileWriteValidSignal = [],
      regFileWriteAddrSignal = [], regFileWriteDataSignal = [], memCmdValidSignal = [], memCmdReadySignal = [],
      memCmdAddrSignal = [], memCmdSizeSignal = [], memCmdWrSignal = [], memCmdWrDataSignal = [], memRspValidSignal = [],
      memRspRdDataSignal = [], memInitFileName = [], cfg_memInitStartAddr = None\<rparr>"

definition ltrim :: "string \<Rightarrow> string" where
  "ltrim s = dropWhile isspace s"

definition rtrim :: "string \<Rightarrow> string" where
  "rtrim s = rev (dropWhile isspace (rev s))"

definition trim :: "string \<Rightarrow> string" where
  "trim s = rtrim (ltrim s)"

text \<open>The lines that \<open>getline\<close> delivers: the last one need not end with a newline.\<close>

fun getlines :: "string \<Rightarrow> string \<Rightarrow> string list" where
  "getlines l [] = (if l = [] then [] else [l])"
| "getlines l (c # s) = (if c = CHR ''\<newline>'' then l # getlines [] s else getlines (l @ [c]) s)"

text \<open>The position of the first \<open>=\<close>; without one \<open>npos\<close>, and \<open>npos + 1\<close> is 0.\<close>

definition param_name :: "string \<Rightarrow> string" where
  "param_name line = trim (takeWhile (\<lambda>c. c \<noteq> CHR ''='') line)"

definition param_value :: "string \<Rightarrow> string" where
  "param_value line = trim (if CHR ''='' \<in> set line then tl (dropWhile (\<lambda>c. c \<noteq> CHR ''='') line) else line)"

definition set_param :: "string \<Rightarrow> string \<Rightarrow> ConfigParams \<Rightarrow> cxx_error + ConfigParams" where
  "set_param nam val c =
     (if nam = ''cpuClk'' then Inr (c\<lparr>cpuClkSignal := val\<rparr>)
      else if nam = ''retiredPc'' then Inr (c\<lparr>retiredPcSignal := val\<rparr>)
      else if nam = ''retiredPcValid'' then Inr (c\<lparr>retiredPcValidSignal := val\<rparr>)
      else if nam = ''regFileWriteValid'' then Inr (c\<lparr>regFileWriteValidSignal := val\<rparr>)
      else if nam = ''regFileWriteAddr'' then Inr (c\<lparr>regFileWriteAddrSignal := val\<rparr>)
      else if nam = ''regFileWriteData'' then Inr (c\<lparr>regFileWriteDataSignal := val\<rparr>)
      else if nam = ''memCmdValid'' then Inr (c\<lparr>memCmdValidSignal := val\<rparr>)
      else if nam = ''memCmdReady'' then Inr (c\<lparr>memCmdReadySignal := val\<rparr>)
      else if nam = ''memCmdAddr'' then Inr (c\<lparr>memCmdAddrSignal := val\<rparr>)
      else if nam = ''memCmdSize'' then Inr (c\<lparr>memCmdSizeSignal := val\<rparr>)
      else if nam = ''memCmdWr'' then Inr (c\<lparr>memCmdWrSignal := val\<rparr>)
      else if nam = ''memCmdWrData'' then Inr (c\<lparr>memCmdWrDataSignal := val\<rparr>)
      else if nam = ''memRspValid'' then Inr (c\<lparr>memRspValidSignal := val\<rparr>)
      else if nam = ''memRspRdData'' then Inr (c\<lparr>memRspRdDataSignal := val\<rparr>)
      else if nam = ''memInitFile'' then Inr (c\<lparr>memInitFileName := val\<rparr>)
      else if nam = ''memInitStartAddr'' then
        (case stoi val of Inl e \<Rightarrow> Inl e | Inr n \<Rightarrow> Inr (c\<lparr>cfg_memInitStartAddr := Some n\<rparr>))
      else Inl (ExitProcess 1))"

fun config_loop :: "string list \<Rightarrow> ConfigParams \<Rightarrow> cxx_error + ConfigParams" where
  "config_loop [] c = Inr c"
| "config_loop (line # ls) c =
     (let line = trim line in
      if line = [] \<or> hd line = CHR ''#'' then config_loop ls c
      else case set_param (param_name line) (param_value line) c of Inl e \<Rightarrow> Inl e | Inr c \<Rightarrow> config_loop ls c)"

definition parseConfig :: "string option \<Rightarrow> ConfigParams \<Rightarrow> cxx_error + ConfigParams" where
  "parseConfig configFile c = config_loop (case configFile of None \<Rightarrow> [] | Some s \<Rightarrow> getlines [] s) c"

text \<open>The three signals the program cannot do without.\<close>

definition check_params :: "ConfigParams \<Rightarrow> cxx_error + unit" where
  "check_params c =
     (if cpuClkSignal c = [] then Inl (ExitProcess 1)
      else if retiredPcSignal c = [] then Inl (ExitProcess 1)
      else if retiredPcValidSignal c = [] then Inl (ExitProcess 1)
      else Inr ())"

section \<open>The socket\<close>

text \<open>What the calls of the operating system return, in their order; \<open>False\<close> is an exception.\<close>

record socket_calls =
  rc_socket :: int
  rc_setsockopt :: int
  rc_bind :: int
  rc_listen :: int
  rc_accept :: int

definition TcpServer_open :: "socket_calls \<Rightarrow> bool" where
  "TcpServer_open rc =
     (if rc_socket rc = 0 then False
      else if rc_setsockopt rc \<noteq> 0 then False
      else if rc_bind rc < 0 then False
      else if rc_listen rc < 0 then False
      else \<not> rc_accept rc < 0)"


section \<open>What a configuration file assigns\<close>

text \<open>The assignments of a text: the lines that are not empty and not comments.\<close>

definition assignments :: "string \<Rightarrow> (string \<times> string) list" where
  "assignments s =
     map (\<lambda>l. (param_name l, param_value l)) (filter (\<lambda>l. l \<noteq> [] \<and> hd l \<noteq> CHR ''#'') (map trim (getlines [] s)))"

fun set_params :: "(string \<times> string) list \<Rightarrow> ConfigParams \<Rightarrow> cxx_error + ConfigParams" where
  "set_params [] c = Inr c"
| "set_params ((nam, val) # ps) c = (case set_param nam val c of Inl e \<Rightarrow> Inl e | Inr c \<Rightarrow> set_params ps c)"

lemma config_loop_assignments:
  "config_loop ls c =
     set_params (map (\<lambda>l. (param_name l, param_value l)) (filter (\<lambda>l. l \<noteq> [] \<and> hd l \<noteq> CHR ''#'') (map trim ls))) c"
  by (induction ls arbitrary: c) (auto simp: Let_def split: sum.splits)

lemma parseConfig_assignments: "parseConfig (Some s) c = set_params (assignments s) c"
  by (simp add: parseConfig_def assignments_def config_loop_assignments)

text \<open>The texts a configuration holds, by the names of the parameters.\<close>

definition param :: "ConfigParams \<Rightarrow> string \<rightharpoonup> string" where
  "param c =
     [''cpuClk'' \<mapsto> cpuClkSignal c, ''retiredPc'' \<mapsto> retiredPcSignal c, ''retiredPcValid'' \<mapsto> retiredPcValidSignal c,
      ''regFileWriteValid'' \<mapsto> regFileWriteValidSignal c, ''regFileWriteAddr'' \<mapsto> regFileWriteAddrSignal c,
      ''regFileWriteData'' \<mapsto> regFileWriteDataSignal c, ''memCmdValid'' \<mapsto> memCmdValidSignal c,
      ''memCmdReady'' \<mapsto> memCmdReadySignal c, ''memCmdAddr'' \<mapsto> memCmdAddrSignal c, ''memCmdSize'' \<mapsto> memCmdSizeSignal c,
      ''memCmdWr'' \<mapsto> memCmdWrSignal c, ''memCmdWrData'' \<mapsto> memCmdWrDataSignal c, ''memRspValid'' \<mapsto> memRspValidSignal c,
      ''memRspRdData'' \<mapsto> memRspRdDataSignal c, ''memInitFile'' \<mapsto> memInitFileName c]"

abbreviation start_name :: string where "start_name \<equiv> ''memInitStartAddr''"

text \<open>What is wrong with an assignment.\<close>

fun bad_param :: "string \<times> string \<Rightarrow> cxx_error option" where
  "bad_param (nam, val) =
     (if nam = start_name then (case stoi val of Inl e \<Rightarrow> Some e | Inr _ \<Rightarrow> None)
      else if nam \<in> dom (param no_params) then None else Some (ExitProcess 1))"

lemma dom_param: "dom (param c) =
    {''cpuClk'', ''retiredPc'', ''retiredPcValid'', ''regFileWriteValid'', ''regFileWriteAddr'', ''regFileWriteData'',
     ''memCmdValid'', ''memCmdReady'', ''memCmdAddr'', ''memCmdSize'', ''memCmdWr'', ''memCmdWrData'', ''memRspValid'',
     ''memRspRdData'', ''memInitFile''}"
  by (auto simp: param_def)

lemma start_not_param: "start_name \<notin> dom (param c)"
  by (simp add: dom_param)

text \<open>\<open>memInitStartAddr\<close> is a number, the other parameters are texts.\<close>

lemma set_param_start:
  "set_param start_name val c = (case stoi val of Inl e \<Rightarrow> Inl e | Inr n \<Rightarrow> Inr (c\<lparr>cfg_memInitStartAddr := Some n\<rparr>))"
  by (simp add: set_param_def)

lemma param_start: "param (c\<lparr>cfg_memInitStartAddr := n\<rparr>) = param c"
  by (simp add: param_def)

lemma set_param_text:
  assumes "nam \<in> dom (param c)"
  shows "\<exists>c'. set_param nam val c = Inr c' \<and> param c' = (param c)(nam \<mapsto> val) \<and>
    cfg_memInitStartAddr c' = cfg_memInitStartAddr c"
  using assms unfolding dom_param
  by (elim insertE) (simp_all add: set_param_def param_def fun_upd_twist)

lemma set_param_unknown: "nam \<notin> dom (param c) \<Longrightarrow> nam \<noteq> start_name \<Longrightarrow> set_param nam val c = Inl (ExitProcess 1)"
  unfolding dom_param by (simp add: set_param_def)

lemma dom_param_eq: "dom (param c) = dom (param c')"
  by (simp add: dom_param)

text \<open>Every parameter gets the value of its last assignment.\<close>

definition last_value :: "(string \<times> string) list \<Rightarrow> string \<Rightarrow> string option" where
  "last_value ps nam = map_of (rev ps) nam"

lemma last_value_Cons:
  "last_value ((n, v) # ps) nam = (case last_value ps nam of None \<Rightarrow> if nam = n then Some v else None | Some w \<Rightarrow> Some w)"
  by (simp add: last_value_def map_add_def split: option.split)

definition assigned :: "(string \<times> string) list \<Rightarrow> ConfigParams \<Rightarrow> ConfigParams \<Rightarrow> bool" where
  "assigned ps c c' \<longleftrightarrow>
     (\<forall>nam \<in> dom (param c). param c' nam = (case last_value ps nam of None \<Rightarrow> param c nam | Some v \<Rightarrow> Some v)) \<and>
     cfg_memInitStartAddr c' =
       (case last_value ps start_name of None \<Rightarrow> cfg_memInitStartAddr c
        | Some v \<Rightarrow> (case stoi v of Inl _ \<Rightarrow> None | Inr n \<Rightarrow> Some n))"

definition first_error :: "(string \<times> string) list \<Rightarrow> cxx_error option" where
  "first_error ps = (case filter (\<lambda>a. bad_param a \<noteq> None) ps of [] \<Rightarrow> None | a # _ \<Rightarrow> bad_param a)"

lemma set_params_assigned:
  "(case set_params ps c of Inl e \<Rightarrow> first_error ps = Some e | Inr c' \<Rightarrow> first_error ps = None \<and> assigned ps c c')"
proof (induction ps arbitrary: c)
  case Nil
  then show ?case
    by (simp add: first_error_def assigned_def last_value_def)
next
  case (Cons p ps)
  obtain nam val where p: "p = (nam, val)"
    by fastforce
  consider "nam = start_name" | "nam \<in> dom (param c)" | "nam \<notin> dom (param c)" "nam \<noteq> start_name"
    by blast
  then show ?case
  proof cases
    case 1
    show ?thesis
    proof (cases "stoi val")
      case (Inr n)
      then show ?thesis
        using Cons [of "c\<lparr>cfg_memInitStartAddr := Some n\<rparr>"] start_not_param [of c]
        by (auto simp: p 1 set_param_start first_error_def assigned_def param_start last_value_Cons
            split: sum.splits option.splits)
    qed (simp add: p 1 set_param_start first_error_def)
  next
    case 2
    then obtain c' where c': "set_param nam val c = Inr c'" "param c' = (param c)(nam \<mapsto> val)"
      "cfg_memInitStartAddr c' = cfg_memInitStartAddr c"
      using set_param_text by blast
    have "nam \<noteq> start_name" "nam \<in> dom (param no_params)"
      using 2 start_not_param [of c] dom_param_eq [of c no_params] by auto
    then have "first_error (p # ps) = first_error ps"
      by (simp add: first_error_def p)
    moreover have "assigned (p # ps) c d \<longleftrightarrow> assigned ps c' d" for d
      using \<open>nam \<noteq> start_name\<close> 2 dom_param_eq [of c' c]
      by (auto simp: assigned_def p c' last_value_Cons split: option.splits)
    ultimately show ?thesis
      using Cons [of c'] by (simp add: p c'(1) split: sum.splits)
  next
    case 3
    then show ?thesis
      using dom_param_eq [of c no_params] by (simp add: p set_param_unknown first_error_def)
  qed
qed

text \<open>
  C17: reading the configuration file. The lines that are neither empty nor comments assign a value
  to a name, both without the spaces around them. If all names are known and the start address
  is a number, every parameter has the value of its last assignment, and those without one keep
  what they had; otherwise the first wrong assignment decides: an unknown name ends the program
  with status 1, a number that is none throws an exception.
\<close>
theorem parseConfig_assigns:
  "case parseConfig (Some s) c of
     Inl e \<Rightarrow> first_error (assignments s) = Some e
   | Inr c' \<Rightarrow> first_error (assignments s) = None \<and> assigned (assignments s) c c'"
  using set_params_assigned by (simp add: parseConfig_assignments)

section \<open>Writing a configuration file\<close>

definition config_line :: "string \<times> string \<Rightarrow> string" where
  "config_line = (\<lambda>(nam, val). nam @ '' = '' @ val @ ''\<newline>'')"

text \<open>No spaces around it and on one line.\<close>

definition trimmed :: "string \<Rightarrow> bool" where
  "trimmed s \<longleftrightarrow> s = [] \<or> \<not> isspace (hd s) \<and> \<not> isspace (last s)"

definition good_param :: "string \<times> string \<Rightarrow> bool" where
  "good_param = (\<lambda>(nam, val). nam \<noteq> [] \<and> hd nam \<noteq> CHR ''#'' \<and> trimmed nam \<and> trimmed val \<and>
     CHR ''\<newline>'' \<notin> set nam \<and> CHR ''='' \<notin> set nam \<and> CHR ''\<newline>'' \<notin> set val)"

lemma getlines_line: "CHR ''\<newline>'' \<notin> set s \<Longrightarrow> getlines l (s @ CHR ''\<newline>'' # t) = (l @ s) # getlines [] t"
  by (induction s arbitrary: l) auto

lemma isspace_space [simp]: "isspace CHR '' ''"
  by (simp add: isspace_def)

lemma dropWhile_trimmed: "trimmed s \<Longrightarrow> dropWhile isspace s = s"
  by (cases s) (auto simp: trimmed_def)

lemma dropWhile_rev_trimmed: "trimmed s \<Longrightarrow> dropWhile isspace (rev s) = rev s"
  by (cases s rule: rev_cases) (auto simp: trimmed_def)

lemma trim_trimmed [simp]: "trimmed s \<Longrightarrow> trim s = s"
  by (simp add: trim_def ltrim_def rtrim_def dropWhile_trimmed dropWhile_rev_trimmed)

lemma trim_front [simp]: "trim (CHR '' '' # s) = trim s"
  by (simp add: trim_def ltrim_def)

lemma dropWhile_snoc_space: "(\<exists>c \<in> set s. \<not> isspace c) \<Longrightarrow> dropWhile isspace (s @ t) = dropWhile isspace s @ t"
  by (induction s) auto

lemma trim_back:
  assumes "trimmed s"
  shows "trim (s @ '' '') = s"
proof (cases "s = []")
  case False
  then have "hd s \<in> set s" "\<not> isspace (hd s)"
    using assms by (simp_all add: trimmed_def)
  then have "ltrim (s @ '' '') = s @ '' ''"
    using dropWhile_snoc_space [of s "'' ''"] dropWhile_trimmed [OF assms] by (auto simp: ltrim_def)
  then show ?thesis
    using dropWhile_rev_trimmed [OF assms] by (simp add: trim_def rtrim_def)
qed (simp add: trim_def ltrim_def rtrim_def)

lemma line_trimmed:
  assumes "trimmed nam" "nam \<noteq> []" "trimmed val"
  shows "trim (nam @ '' = '' @ val) = nam @ '' ='' @ (if val = [] then [] else CHR '' '' # val)"
proof -
  let ?t = "nam @ '' ='' @ (if val = [] then [] else CHR '' '' # val)"
  have t: "trimmed ?t"
    using assms by (auto simp: trimmed_def isspace_def)
  show ?thesis
  proof (cases "val = []")
    case True
    then show ?thesis
      using trim_back [OF t] by simp
  qed (use t in simp)
qed

lemma assignments_line:
  assumes "good_param p"
  shows "assignments (config_line p @ t) = p # assignments t"
proof -
  obtain nam val where p: "p = (nam, val)"
    by fastforce
  have ok: "nam \<noteq> []" "hd nam \<noteq> CHR ''#''" "trimmed nam" "trimmed val" "CHR ''='' \<notin> set nam"
    "CHR ''\<newline>'' \<notin> set nam" "CHR ''\<newline>'' \<notin> set val"
    using assms by (auto simp: p good_param_def)
  let ?l = "nam @ '' ='' @ (if val = [] then [] else CHR '' '' # val)"
  have l: "trim (nam @ '' = '' @ val) = ?l"
    using line_trimmed [OF ok(3,1,4)] .
  have "getlines [] (config_line p @ t) = (nam @ '' = '' @ val) # getlines [] t"
    using ok getlines_line [of "nam @ '' = '' @ val" "[]" t] by (simp add: p config_line_def)
  moreover have "takeWhile (\<lambda>c. c \<noteq> CHR ''='') ?l = nam @ '' ''"
    using ok(5) by (subst takeWhile_append2) auto
  then have "param_name ?l = nam"
    using trim_back [OF ok(3)] by (simp add: param_name_def)
  moreover have "dropWhile (\<lambda>c. c \<noteq> CHR ''='') ?l = CHR ''='' # (if val = [] then [] else CHR '' '' # val)"
    using ok(5) by (subst dropWhile_append2) auto
  then have "param_value ?l = val"
    using ok(4) by (auto simp: param_value_def)
  ultimately show ?thesis
    using ok(1,2) l by (simp add: assignments_def p)
qed

lemma assignments_text: "list_all good_param ps \<Longrightarrow> assignments (concat (map config_line ps)) = ps"
proof (induction ps)
  case Nil
  then show ?case
    by (simp add: assignments_def)
next
  case (Cons p ps)
  then show ?case
    by (simp add: assignments_line)
qed

text \<open>
  A configuration that is written as lines \<open>name = value\<close> is read back: the parameters get
  the values of the lines.
\<close>

lemma parseConfig_text:
  assumes "list_all good_param ps" "first_error ps = None"
  shows "\<exists>c'. parseConfig (Some (concat (map config_line ps))) c = Inr c' \<and> assigned ps c c'"
  using set_params_assigned [of ps c] assms by (auto simp: parseConfig_assignments assignments_text split: sum.splits)

end
