(* ===== verification/Fst_Varint.thy ===== *)
theory Fst_Varint
  imports Prelude
begin

text \<open>
  The integers of the FST container (\<open>src/fst/fstapi.c\<close>, "regular and variable-length
  integer access functions"): big-endian 64-bit words, unsigned numbers in groups of seven
  bits, the lowest first, with the top bit of a byte set when another follows, and signed
  numbers in the same groups with sign extension.

  Memory is the list of bytes from the pointer on, a file the bytes from its position on.
  \<open>None\<close> is an access outside: the bytes end before the number does, or the number has more
  bytes than the buffer of the function.
\<close>

section \<open>Fixed-size integers\<close>

text \<open>The 32-bit value in the byte order of the (little-endian) host.\<close>

definition fstGetUint32 :: "byte list \<Rightarrow> u32 option" where
  "fstGetUint32 mem = (if length mem < 4 then None else Some (of_le_bytes32 (take 4 mem)))"

fun be_bytes :: "nat \<Rightarrow> u64 \<Rightarrow> byte list" where
  "be_bytes 0 v = []"
| "be_bytes (Suc n) v = be_bytes n (drop_bit 8 v) @ [ucast (v AND 0xff)]"

definition fstWriterUint64 :: "byte list \<Rightarrow> u64 \<Rightarrow> nat \<times> byte list" where
  "fstWriterUint64 f v = (8, f @ be_bytes 8 v)"

text \<open>A short read leaves the rest of the buffer as it was on the stack (\<open>junk\<close>).\<close>

definition fstReaderUint64 :: "byte list \<Rightarrow> byte list \<Rightarrow> u64 \<times> byte list" where
  "fstReaderUint64 junk f =
     (foldl (\<lambda>v b. push_bit 8 v OR ucast b) 0 (take 8 (f @ drop (length f) junk)), drop 8 f)"

section \<open>Variable-length integers\<close>

text \<open>The scan for the last byte: the number of bytes.\<close>

fun varint_scan :: "byte list \<Rightarrow> nat option" where
  "varint_scan [] = None"
| "varint_scan (b # mem) = (if b AND 0x80 \<noteq> 0 then map_option Suc (varint_scan mem) else Some 1)"

text \<open>The loop back to the first byte.\<close>

definition varint_value :: "byte list \<Rightarrow> 'a :: len word" where
  "varint_value bs = foldr (\<lambda>b rc. push_bit 7 rc OR ucast (b AND 0x7f)) bs 0"

definition fstGetVarint32 :: "byte list \<Rightarrow> (u32 \<times> nat) option" where
  "fstGetVarint32 mem = (case varint_scan mem of None \<Rightarrow> None | Some n \<Rightarrow> Some (varint_value (take n mem), n))"

definition fstGetVarint32Length :: "byte list \<Rightarrow> nat option" where
  "fstGetVarint32Length mem = varint_scan mem"

definition fstGetVarint32NoSkip :: "byte list \<Rightarrow> u32 option" where
  "fstGetVarint32NoSkip mem = (case varint_scan mem of None \<Rightarrow> None | Some n \<Rightarrow> Some (varint_value (take n mem)))"

definition fstGetVarint64 :: "byte list \<Rightarrow> (u64 \<times> nat) option" where
  "fstGetVarint64 mem = (case varint_scan mem of None \<Rightarrow> None | Some n \<Rightarrow> Some (varint_value (take n mem), n))"

lemma unat_drop_7: "unat (drop_bit 7 (v :: 'a :: len word)) = unat v div 128"
proof -
  have "unat (drop_bit 7 v) = drop_bit 7 (take_bit LENGTH('a) (unat v))"
    by (simp only: unsigned_drop_bit_eq)
  also have "take_bit LENGTH('a) (unat v) = unat v"
    by (simp add: take_bit_nat_eq_self)
  finally show ?thesis
    by (simp only: drop_bit_eq_div) simp
qed

lemma drop_7_less: "drop_bit 7 (v :: 'a :: len word) \<noteq> 0 \<Longrightarrow> unat (drop_bit 7 v) < unat v"
proof -
  assume "drop_bit 7 v \<noteq> 0"
  then have "unat v > 0"
    by (cases "v = 0") (simp_all add: unat_gt_0)
  then show ?thesis
    by (simp add: unat_drop_7 del: drop_bit_word_beyond)
qed

function varint_bytes :: "'a :: len word \<Rightarrow> byte list" where
  "varint_bytes v =
     (let nxt = drop_bit 7 v
      in if nxt \<noteq> 0 then (ucast v OR 0x80) # varint_bytes nxt else [ucast v])"
  by pat_completeness auto
termination
  by (relation "measure unat") (use drop_7_less in auto)

declare varint_bytes.simps [simp del]

text \<open>
  \<open>fstCopyVarint64ToRight\<close> stores the bytes at \<open>pnt\<close> and returns the position behind
  them. \<open>fstCopyVarint32ToLeft\<close> counts the bytes first, steps back by that count and
  stores them there; the result is the new position and the memory.
\<close>

definition fstCopyVarint64ToRight :: "byte list \<Rightarrow> nat \<Rightarrow> u64 \<Rightarrow> nat \<times> byte list" where
  "fstCopyVarint64ToRight mem pnt v = (pnt + length (varint_bytes v), poke mem pnt (varint_bytes v))"

function varint_count :: "u32 \<Rightarrow> nat \<Rightarrow> nat" where
  "varint_count nxt cnt = (let n = drop_bit 7 nxt in if n \<noteq> 0 then varint_count n (cnt + 1) else cnt)"
  by pat_completeness auto
termination
  by (relation "measure (\<lambda>(nxt, cnt). unat nxt)") (use drop_7_less in auto)

declare varint_count.simps [simp del]

fun varint_emit :: "nat \<Rightarrow> u32 \<Rightarrow> byte list" where
  "varint_emit 0 v = [ucast v]"
| "varint_emit (Suc cnt) v = (ucast v OR 0x80) # varint_emit cnt (drop_bit 7 v)"

definition fstCopyVarint32ToLeft :: "byte list \<Rightarrow> nat \<Rightarrow> u32 \<Rightarrow> (nat \<times> byte list) option" where
  "fstCopyVarint32ToLeft mem pnt v =
     (let cnt = varint_count v 1 in
      if pnt < cnt then None else Some (pnt - cnt, poke mem (pnt - cnt) (varint_emit (cnt - 1) v)))"

definition fstWriterVarint :: "byte list \<Rightarrow> u64 \<Rightarrow> nat \<times> byte list" where
  "fstWriterVarint f v = (length (varint_bytes v), f @ varint_bytes v)"

text \<open>
  The readers from a file store the bytes in a buffer of \<open>siz\<close> bytes without a test of its
  end; at the end of the file \<open>fgetc\<close> delivers \<open>EOF\<close>, which has bit 7 set, so that the
  loop runs over the end of the buffer as well.
\<close>

definition reader_varint :: "nat \<Rightarrow> byte list \<Rightarrow> ('a :: len word \<times> nat \<times> byte list) option" where
  "reader_varint siz f =
     (case varint_scan f of
        None \<Rightarrow> None
      | Some n \<Rightarrow> if n > siz then None else Some (varint_value (take n f), n, drop n f))"

definition fstReaderVarint32 :: "byte list \<Rightarrow> (u32 \<times> byte list) option" where
  "fstReaderVarint32 f = (case reader_varint 5 f of None \<Rightarrow> None | Some (v, n, rest) \<Rightarrow> Some (v, rest))"

definition fstReaderVarint32WithSkip :: "byte list \<Rightarrow> (u32 \<times> nat \<times> byte list) option" where
  "fstReaderVarint32WithSkip f = reader_varint 5 f"

definition fstReaderVarint64 :: "byte list \<Rightarrow> (u64 \<times> byte list) option" where
  "fstReaderVarint64 f = (case reader_varint 16 f of None \<Rightarrow> None | Some (v, n, rest) \<Rightarrow> Some (v, rest))"

section \<open>Signed integers\<close>

text \<open>
  The loop keeps \<open>rc\<close> and \<open>shift\<close>; a shift by 64 or more is undefined and is \<open>None\<close>. The
  result is the value, the last byte, the shift and the number of bytes read.
\<close>

fun svarint_loop :: "byte list \<Rightarrow> u64 \<Rightarrow> nat \<Rightarrow> nat \<Rightarrow> (u64 \<times> byte \<times> nat \<times> nat) option" where
  "svarint_loop [] rc shift n = None"
| "svarint_loop (byt # mem) rc shift n =
     (if shift \<ge> 64 then None
      else let rc1 = rc OR push_bit shift (ucast (byt AND 0x7f)) in
        if byt AND 0x80 \<noteq> 0 then svarint_loop mem rc1 (shift + 7) (n + 1)
        else Some (rc1, byt, shift + 7, n + 1))"

definition fstGetSVarint64 :: "byte list \<Rightarrow> (u64 \<times> nat) option" where
  "fstGetSVarint64 mem =
     (case svarint_loop mem 0 0 0 of
        None \<Rightarrow> None
      | Some (rc, byt, shift, skiplen) \<Rightarrow>
          Some (if shift < 64 \<and> byt AND 0x40 \<noteq> 0 then rc OR - push_bit shift 1 else rc, skiplen))"

lemma sint_signed_drop_bit_7: "sint (signed_drop_bit 7 (v :: u64)) = sint v div 128"
  by (simp add: sint_signed_drop_bit_eq drop_bit_eq_div)

text \<open>\<open>v >>= 7\<close> on a signed number is \<open>signed_drop_bit\<close>.\<close>

function svarint_bytes :: "u64 \<Rightarrow> byte list" where
  "svarint_bytes v =
     (let byt = ucast v OR 0x80; v1 = signed_drop_bit 7 v in
      if v1 = 0 \<and> byt AND 0x40 = 0 \<or> v1 = - 1 \<and> byt AND 0x40 \<noteq> 0 then [byt AND 0x7f]
      else byt # svarint_bytes v1)"
  by pat_completeness auto

termination
proof (relation "measure (\<lambda>v. nat (if sint v < 0 then - sint v else sint v + 1))")
  fix v v1 :: u64 and byt :: byte
  assume byt: "byt = ucast v OR 0x80" and v1: "v1 = signed_drop_bit 7 v"
    and more: "\<not> (v1 = 0 \<and> byt AND 0x40 = 0 \<or> v1 = - 1 \<and> byt AND 0x40 \<noteq> 0)"
  have neg: "(ucast (- 1 :: u64) OR 0x80 :: byte) AND 0x40 \<noteq> 0" "signed_drop_bit 7 (- 1 :: u64) = - 1"
    by code_simp+
  have s: "sint v1 = sint v div 128"
    unfolding v1 by (rule sint_signed_drop_bit_7)
  have "sint v \<noteq> 0"
  proof
    assume "sint v = 0"
    then have "v = 0"
      by (simp only: signed_eq_0_iff)
    then show False
      using more by (simp add: byt v1)
  qed
  moreover have "sint v \<noteq> - 1"
  proof
    assume "sint v = - 1"
    then have "v = - 1"
      by (metis sint_n1 signed_word_eqI)
    then show False
      using more neg by (simp add: byt v1)
  qed
  ultimately show "(v1, v) \<in> measure (\<lambda>v. nat (if sint v < 0 then - sint v else sint v + 1))"
    using s by auto
qed simp

declare svarint_bytes.simps [simp del]

definition fstWriterSVarint :: "byte list \<Rightarrow> u64 \<Rightarrow> nat \<times> byte list" where
  "fstWriterSVarint f v = (length (svarint_bytes v), f @ svarint_bytes v)"

section \<open>What is written is read back\<close>

text \<open>The number of bytes: one for every seven bits, at least one.\<close>

lemma varint_bytes_nonempty [simp]: "varint_bytes v \<noteq> []"
  by (subst varint_bytes.simps) (simp add: Let_def)

lemma varint_length_le:
  "0 < k \<Longrightarrow> length (varint_bytes v) \<le> k \<longleftrightarrow> unat v < 128 ^ k"
proof (induction v arbitrary: k rule: varint_bytes.induct)
  case (1 v)
  obtain j where k: "k = Suc j"
    using 1(2) by (cases k) auto
  have unat_nxt: "unat (drop_bit 7 v) = unat v div 128"
    by (rule unat_drop_7)
  show ?case
  proof (cases "drop_bit 7 v = 0")
    case True
    then have "unat v div 128 = 0"
      using unat_nxt by simp
    then have "unat v < 128"
      by simp
    then have "unat v < 128 ^ k"
      by (rule less_le_trans) (simp add: k)
    then show ?thesis
      using True by (subst varint_bytes.simps) (simp add: Let_def k)
  next
    case False
    then have big: "unat v div 128 \<noteq> 0"
      using unat_nxt by (metis unat_eq_zero)
    show ?thesis
    proof (cases "j = 0")
      case True
      with False big show ?thesis
        by (subst varint_bytes.simps) (auto simp: Let_def k not_less)
    next
      case j: False
      have "length (varint_bytes (drop_bit 7 v)) \<le> j \<longleftrightarrow> unat v div 128 < 128 ^ j"
        using 1(1) [OF refl False, of j] j unat_nxt by simp
      also have "\<dots> \<longleftrightarrow> unat v < 128 ^ k"
        by (simp add: k div_less_iff_less_mult mult.commute)
      finally show ?thesis
        using False by (subst varint_bytes.simps) (simp add: Let_def k)
    qed
  qed
qed

lemma byte_bit_consts:
  "\<forall>n \<in> set [0..<8]. (bit (0x7f :: byte) n \<longleftrightarrow> n < 7) \<and> (bit (0x80 :: byte) n \<longleftrightarrow> n = 7)
     \<and> (bit (0x40 :: byte) n \<longleftrightarrow> n = 6)"
  by code_simp

lemma bit_byte_7f: "bit (0x7f :: byte) n \<longleftrightarrow> n < 7"
  and bit_byte_80: "bit (0x80 :: byte) n \<longleftrightarrow> n = 7"
  and bit_byte_40: "bit (0x40 :: byte) n \<longleftrightarrow> n = 6"
  using byte_bit_consts bit_imp_le_length [of "_ :: byte" n] by (cases "n < 8"; fastforce)+

lemmas varint_bits = bit_and_iff bit_or_iff bit_unsigned_iff bit_push_bit_iff bit_drop_bit_eq
   bit_byte_7f bit_byte_80 bit_byte_40

lemma byte_more [simp]: "((b :: byte) OR 0x80) AND 0x80 \<noteq> 0"
  by (rule all_bytes [of _ b]) code_simp

lemma varint_scan_varint_bytes:
  "varint_scan (varint_bytes v @ rest) = Some (length (varint_bytes v))"
proof (induction v rule: varint_bytes.induct)
  case (1 v)
  show ?case
  proof (cases "drop_bit 7 v = 0")
    case True
    have "bit (drop_bit 7 v) 0 = bit v 7"
      by (simp only: bit_drop_bit_eq o_def add_0_right)
    then have "\<not> bit v 7"
      using True by simp
    then have "(ucast v :: byte) AND 0x80 = 0"
      by (intro bit_word_eqI) (auto simp: varint_bits simp del: bit_numeral_word_iff)
    with True show ?thesis
      by (subst (1 2) varint_bytes.simps) (simp add: Let_def)
  next
    case False
    with 1 [OF refl False] show ?thesis
      by (subst (1 2) varint_bytes.simps) (simp add: Let_def)
  qed
qed

lemma varint_value_varint_bytes:
  "varint_value (varint_bytes (v :: 'a :: len word)) = (ucast v :: 'b :: len word)"
proof (induction v rule: varint_bytes.induct)
  case (1 v)
  have step: "push_bit 7 (ucast (drop_bit 7 v)) OR ucast ((ucast v OR 0x80 :: byte) AND 0x7f) = (ucast v :: 'b word)"
    by (rule bit_word_eqI) (auto simp: varint_bits simp del: bit_numeral_word_iff)
  show ?case
  proof (cases "drop_bit 7 v = 0")
    case True
    have "ucast ((ucast v :: byte) AND 0x7f) = (ucast v :: 'b word)"
      using step True by (simp add: word_ao_dist bit.conj_disj_distrib2)
    with True show ?thesis
      by (subst varint_bytes.simps) (simp add: Let_def varint_value_def)
  next
    case False
    with 1 [OF refl False] step show ?thesis
      by (subst varint_bytes.simps) (simp add: Let_def varint_value_def)
  qed
qed

lemma reader_varint_bytes:
  "reader_varint siz (varint_bytes (v :: 'a :: len word) @ rest) =
     (if length (varint_bytes v) \<le> siz then Some (ucast v :: 'b :: len word, length (varint_bytes v), rest)
      else None)"
  by (simp add: reader_varint_def varint_scan_varint_bytes varint_value_varint_bytes)

lemma varint_length_64: "length (varint_bytes (v :: u64)) \<le> 10"
proof -
  have "unat v < 2 ^ 64"
    using unsigned_less [of v, where ?'a = nat] by simp
  also have "(2 :: nat) ^ 64 \<le> 128 ^ 10"
    by simp
  finally show ?thesis
    using varint_length_le [of 10 v] by simp
qed

text \<open>
  The 32-bit reader from a file copies the encoding into a buffer of five bytes without a
  test. A number that a writer of 64-bit numbers has stored is read back modulo \<open>2 ^ 32\<close> as
  long as it is below \<open>2 ^ 35\<close>; from there on its bytes overrun the buffer.
\<close>

theorem varint32_reads_64:
  "fstReaderVarint32WithSkip (varint_bytes (v :: u64) @ rest) =
     (if unat v < 2 ^ 35 then Some (ucast v, length (varint_bytes v), rest) else None) \<and>
   fstReaderVarint32 (varint_bytes v @ rest) = (if unat v < 2 ^ 35 then Some (ucast v, rest) else None) \<and>
   fstGetVarint32 (varint_bytes v @ rest) = Some (ucast v, length (varint_bytes v)) \<and>
   fstGetVarint32NoSkip (varint_bytes v @ rest) = Some (ucast v) \<and>
   fstGetVarint32Length (varint_bytes v @ rest) = Some (length (varint_bytes v))"
proof -
  have "length (varint_bytes v) \<le> 5 \<longleftrightarrow> unat v < 2 ^ 35"
    using varint_length_le [of 5 v] by simp
  then show ?thesis
    by (simp add: fstReaderVarint32_def fstReaderVarint32WithSkip_def reader_varint_bytes
        fstGetVarint32_def fstGetVarint32NoSkip_def fstGetVarint32Length_def
        varint_scan_varint_bytes varint_value_varint_bytes)
qed

text \<open>
  C40: The encoding of a 64-bit number takes one byte for every seven bits, at most the ten of
  the buffer of \<open>fstWriterVarint\<close>, which appends it to a file; \<open>fstCopyVarint64ToRight\<close>, given room for
  it, stores the same bytes in memory, leaves the rest alone and returns the position behind
  them. Both 64-bit readers deliver the number and stop right behind it. The 32-bit readers from memory
  deliver it modulo \<open>2 ^ 32\<close>, and so do the ones from a file below \<open>2 ^ 35\<close>, with the same
  number of bytes; from there on those overrun their buffer of five bytes.
\<close>

theorem varint64_roundtrip:
  "\<exists>bytes. length bytes \<le> 10 \<and> (\<forall>k > 0. length bytes \<le> k \<longleftrightarrow> unat v < 128 ^ k) \<and>
     fstWriterVarint f v = (length bytes, f @ bytes) \<and>
     (pnt + length bytes \<le> length mem \<longrightarrow>
        fstCopyVarint64ToRight mem pnt v = (pnt + length bytes, take pnt mem @ bytes @ drop (pnt + length bytes) mem)) \<and>
     fstReaderVarint64 (bytes @ rest) = Some (v, rest) \<and>
     fstGetVarint64 (bytes @ rest) = Some (v, length bytes) \<and>
     fstGetVarint32 (bytes @ rest) = Some (ucast v, length bytes) \<and>
     fstGetVarint32NoSkip (bytes @ rest) = Some (ucast v) \<and>
     fstGetVarint32Length (bytes @ rest) = Some (length bytes) \<and>
     fstReaderVarint32WithSkip (bytes @ rest) = (if unat v < 2 ^ 35 then Some (ucast v, length bytes, rest) else None) \<and>
     fstReaderVarint32 (bytes @ rest) = (if unat v < 2 ^ 35 then Some (ucast v, rest) else None)"
proof (intro exI conjI allI impI)
  show "length (varint_bytes v) \<le> 10"
    by (rule varint_length_64)
  show "length (varint_bytes v) \<le> k \<longleftrightarrow> unat v < 128 ^ k" if "k > 0" for k
    using that by (rule varint_length_le)
  show "fstWriterVarint f v = (length (varint_bytes v), f @ varint_bytes v)"
    by (simp add: fstWriterVarint_def)
  show "fstCopyVarint64ToRight mem pnt v =
      (pnt + length (varint_bytes v), take pnt mem @ varint_bytes v @ drop (pnt + length (varint_bytes v)) mem)"
    if "pnt + length (varint_bytes v) \<le> length mem"
    using that by (simp add: fstCopyVarint64ToRight_def poke_def)
  show "fstReaderVarint64 (varint_bytes v @ rest) = Some (v, rest)"
    using varint_length_64 [of v] by (simp add: fstReaderVarint64_def reader_varint_bytes)
  show "fstGetVarint64 (varint_bytes v @ rest) = Some (v, length (varint_bytes v))"
    by (simp add: fstGetVarint64_def varint_scan_varint_bytes varint_value_varint_bytes)
qed (simp_all only: varint32_reads_64)

theorem varint64_roundtrip_witness:
  "fstReaderVarint64 (snd (fstWriterVarint [] 300)) = Some (300, []) \<and>
   fstCopyVarint64ToRight [1, 2, 3, 4] 1 300 = (3, [1, 0xac, 2, 4])"
proof -
  have bytes: "snd (fstWriterVarint [] 300) = [0xac, 2]"
    by code_simp
  show ?thesis
    using varint64_roundtrip [where f = "[]" and v = 300 and rest = "[]" and mem = "[1, 2, 3, 4]" and pnt = 1]
    by (elim exE conjE) (use bytes in simp)
qed

lemma varint_count_bytes: "varint_count v c = c + length (varint_bytes v) - 1"
proof (induction v arbitrary: c rule: varint_bytes.induct)
  case (1 v)
  show ?case
  proof (cases "drop_bit 7 v = 0")
    case True
    then show ?thesis
      by (subst varint_count.simps, subst varint_bytes.simps) (simp add: Let_def)
  next
    case False
    have "length (varint_bytes (drop_bit 7 v)) > 0"
      by simp
    with False 1 [OF refl False] show ?thesis
      by (subst varint_count.simps, subst varint_bytes.simps) (simp add: Let_def)
  qed
qed

lemma varint_emit_bytes: "varint_emit (length (varint_bytes v) - Suc 0) v = varint_bytes v"
proof (induction v rule: varint_bytes.induct)
  case (1 v)
  show ?case
  proof (cases "drop_bit 7 v = 0")
    case True
    then show ?thesis
      by (subst (1 2) varint_bytes.simps) (simp add: Let_def)
  next
    case False
    then have vb: "varint_bytes v = (ucast v OR 0x80) # varint_bytes (drop_bit 7 v)"
      by (subst varint_bytes.simps) (simp add: Let_def)
    obtain n where n: "length (varint_bytes (drop_bit 7 v)) = Suc n"
      by (cases "varint_bytes (drop_bit 7 v)") simp_all
    show ?thesis
      using 1 [OF refl False] by (simp add: vb n)
  qed
qed

lemma varint_bytes_ucast:
  assumes len: "LENGTH('a) \<le> LENGTH('b)"
  shows "varint_bytes (ucast (v :: 'a :: len word) :: 'b :: len word) = varint_bytes v"
proof (induction v rule: varint_bytes.induct)
  case (1 v)
  have nxt: "drop_bit 7 (ucast v :: 'b word) = ucast (drop_bit 7 v)"
    using len by (intro bit_word_eqI) (auto simp: bit_simps dest: bit_imp_le_length)
  have low: "(ucast (ucast v :: 'b word) :: byte) = ucast v"
    using len by (intro bit_word_eqI) (auto simp: bit_simps dest: bit_imp_le_length)
  have "(ucast (ucast (drop_bit 7 v) :: 'b word) :: 'a word) = drop_bit 7 v"
    using len by (intro bit_word_eqI) (auto simp: bit_simps dest: bit_imp_le_length)
  then have zero: "(ucast (drop_bit 7 v) :: 'b word) = 0 \<longleftrightarrow> drop_bit 7 v = 0"
    by (metis unsigned_0)
  show ?case
    using 1 by (subst (1 2) varint_bytes.simps) (simp add: Let_def nxt low zero)
qed

text \<open>
  Writing a number backwards (\<open>fstCopyVarint32ToLeft\<close>, which counts its bytes first) and
  writing it forwards (\<open>fstCopyVarint64ToRight\<close>) leave the same bytes in memory, at the
  position the one returns and the other got.
\<close>

theorem varint_left_right:
  assumes "length (varint_bytes v) \<le> pnt" "pnt \<le> length mem"
  shows "fstCopyVarint32ToLeft mem pnt v =
      Some (pnt - length (varint_bytes v),
        snd (fstCopyVarint64ToRight mem (pnt - length (varint_bytes v)) (ucast v))) \<and>
    fst (fstCopyVarint64ToRight mem (pnt - length (varint_bytes v)) (ucast v)) = pnt"
proof -
  have *: "varint_bytes (ucast v :: u64) = varint_bytes v"
    by (rule varint_bytes_ucast) simp
  have "length (varint_bytes v) > 0"
    by simp
  with assms show ?thesis
    by (simp add: fstCopyVarint32ToLeft_def fstCopyVarint64ToRight_def varint_count_bytes
        varint_emit_bytes Let_def *)
qed

theorem varint_left_right_witness:
  "fstCopyVarint32ToLeft [0, 0, 0, 0] 4 300 = Some (2, [0, 0, 0xac, 2])"
proof -
  have b: "varint_bytes (300 :: u32) = [0xac, 2]"
    by code_simp
  show ?thesis
    using varint_left_right [of 300 4 "[0, 0, 0, 0]"] unfolding b
    by (simp add: fstCopyVarint64ToRight_def poke_def) code_simp
qed

lemma be_bytes_step:
  "foldl (\<lambda>v b. push_bit 8 v OR ucast b) 0 (be_bytes n v) = take_bit (8 * n) (v :: u64)"
proof (induction n arbitrary: v)
  case (Suc n)
  have "(0xff :: u64) = mask 8"
    by (simp add: mask_eq_exp_minus_1)
  then have "v AND 0xff = take_bit 8 v"
    by (simp only: take_bit_eq_mask)
  moreover have "push_bit 8 (take_bit (8 * n) (drop_bit 8 v)) OR ucast (ucast (take_bit 8 v) :: byte) = take_bit (8 * Suc n) v"
    by (rule bit_word_eqI) (auto simp: bit_simps)
  ultimately have "push_bit 8 (take_bit (8 * n) (drop_bit 8 v)) OR ucast (ucast (v AND 0xff) :: byte) = take_bit (8 * Suc n) v"
    by simp
  with Suc show ?case
    by simp
qed simp

lemma length_be_bytes [simp]: "length (be_bytes n v) = n"
  by (induction n arbitrary: v) simp_all

text \<open>
  A 64-bit number of a section header that \<open>fstWriterUint64\<close> appended to the file is the
  number \<open>fstReaderUint64\<close> delivers at that position, whatever follows it.
\<close>

theorem uint64_roundtrip:
  "\<exists>bytes. fstWriterUint64 f v = (length bytes, f @ bytes) \<and> length bytes = 8 \<and>
     fstReaderUint64 junk (bytes @ rest) = (v, rest)"
proof (intro exI conjI)
  show "fstWriterUint64 f v = (length (be_bytes 8 v), f @ be_bytes 8 v)"
    by (simp add: fstWriterUint64_def del: be_bytes.simps)
  show "length (be_bytes 8 v) = 8"
    by (rule length_be_bytes)
  show "fstReaderUint64 junk (be_bytes 8 v @ rest) = (v, rest)"
    by (simp add: fstReaderUint64_def be_bytes_step take_bit_word_eq_self)
qed

section \<open>Signed numbers are read back\<close>

definition svarint_last :: "u64 \<Rightarrow> bool" where
  "svarint_last v =
     (let byt = ucast v OR (0x80 :: byte); v1 = signed_drop_bit 7 v in
      v1 = 0 \<and> byt AND 0x40 = 0 \<or> v1 = - 1 \<and> byt AND 0x40 \<noteq> 0)"

lemma svarint_bytes_unfold:
  "svarint_bytes v =
     (if svarint_last v then [(ucast v OR 0x80) AND 0x7f]
      else (ucast v OR 0x80) # svarint_bytes (signed_drop_bit 7 v))"
  by (subst svarint_bytes.simps) (simp add: Let_def svarint_last_def)

lemma svarint_last_small:
  assumes "- 64 \<le> sint v" "sint v < 64"
  shows "svarint_last v"
proof -
  have all: "\<forall>k \<in> set [-64..63]. svarint_last (word_of_int k)"
    by code_simp
  have "sint v \<in> set [-64..63]"
    using assms by (simp only: set_upto atLeastAtMost_iff) simp
  then have "svarint_last (word_of_int (sint v))"
    using all by blast
  then show ?thesis
    by simp
qed

lemma byt_low [simp]: "(((b :: byte) OR 0x80) AND 0x7f) AND 0x80 = 0"
  "((b OR 0x80) AND 0x7f) AND 0x40 = b AND 0x40" "(b OR 0x80) AND 0x40 = b AND 0x40"
  by (rule bit_word_eqI, auto simp: varint_bits simp del: bit_numeral_word_iff)+

lemma low_bits:
  "ucast ((ucast (v :: u64) OR 0x80 :: byte) AND 0x7f) = take_bit 7 v"
  "ucast (((ucast v OR 0x80 :: byte) AND 0x7f) AND 0x7f) = take_bit 7 v"
  by (rule bit_word_eqI, auto simp: varint_bits bit_take_bit_iff simp del: bit_numeral_word_iff)+

lemma bit_6: "(ucast (v :: u64) :: byte) AND 0x40 = 0 \<longleftrightarrow> \<not> bit v 6"
proof -
  have "bit ((ucast v :: byte) AND 0x40) n \<longleftrightarrow> n = 6 \<and> bit v 6" for n
    by (auto simp: varint_bits simp del: bit_numeral_word_iff)
  then show ?thesis
    by (metis bit_0_eq bit_eqI bot_apply bot_bool_def)
qed

lemma svarint_last_value:
  assumes "svarint_last v" "shift < 64"
  shows "push_bit shift (take_bit 7 v) OR
      (if shift + 7 < 64 \<and> bit v 6 then - push_bit (shift + 7) 1 else 0) = push_bit shift v"
proof -
  have s: "bit (signed_drop_bit 7 v) n \<longleftrightarrow> bit v (if n < 57 then 7 + n else 63)" if "n < 64" for n
    using that by (auto simp: bit_simps)
  consider "\<not> bit v 6" "signed_drop_bit 7 v = 0" | "bit v 6" "signed_drop_bit 7 v = - 1"
    using assms(1) by (auto simp: svarint_last_def Let_def bit_6)
  then show ?thesis
  proof cases
    case 1
    have "\<not> bit v m" if "7 \<le> m" "m < 64" for m
    proof -
      have "m - 7 < 57" "7 + (m - 7) = m"
        using that by linarith+
      then show ?thesis
        using s [of "m - 7"] 1(2) by simp
    qed
    then have "take_bit 7 v = v"
      by (intro bit_word_eqI) (auto simp: bit_simps intro: leI)
    with 1 show ?thesis
      by simp
  next
    case 2
    have up: "bit v m" if "7 \<le> m" "m < 64" for m
    proof -
      have "m - 7 < 57" "7 + (m - 7) = m"
        using that by linarith+
      then show ?thesis
        using s [of "m - 7"] 2(2) by simp
    qed
    have "- push_bit (shift + 7) 1 = (push_bit (shift + 7) (- 1) :: u64)"
      by (simp only: push_bit_minus)
    with 2 up assms(2) show ?thesis
      by (intro bit_word_eqI) (auto simp: bit_simps simp del: push_bit_of_1)
  qed
qed

lemma svarint_next_value:
  assumes "shift < 64"
  shows "push_bit shift (take_bit 7 v) OR push_bit (shift + 7) (signed_drop_bit 7 v) = push_bit shift (v :: u64)"
proof (rule bit_word_eqI)
  fix n
  assume n: "n < LENGTH(64)"
  show "bit (push_bit shift (take_bit 7 v) OR push_bit (shift + 7) (signed_drop_bit 7 v)) n \<longleftrightarrow>
      bit (push_bit shift v) n"
  proof (cases "n < shift + 7")
    case False
    then obtain m where "n = shift + 7 + m"
      by (metis le_Suc_ex linorder_not_less)
    with n show ?thesis
      by (auto simp: bit_simps add.commute)
  qed (auto simp: bit_simps)
qed

lemma svarint_loop_bytes:
  assumes "shift < 64" "- (2 ^ (63 - shift)) \<le> sint v" "sint v < 2 ^ (63 - shift)"
  shows "\<exists>rc' byt shift'. svarint_loop (svarint_bytes v @ rest) rc shift n =
           Some (rc', byt, shift', n + length (svarint_bytes v)) \<and>
         (if shift' < 64 \<and> byt AND 0x40 \<noteq> 0 then rc' OR - push_bit shift' 1 else rc') =
           rc OR push_bit shift v"
  using assms
proof (induction v arbitrary: shift rc n rule: svarint_bytes.induct)
  case (1 v)
  show ?case
  proof (cases "svarint_last v")
    case True
    define rc1 where "rc1 = rc OR push_bit shift (take_bit 7 v)"
    have loop: "svarint_loop (svarint_bytes v @ rest) rc shift n =
        Some (rc1, (ucast v OR 0x80) AND 0x7f, shift + 7, n + 1)"
      using True 1(2) by (subst svarint_bytes_unfold) (simp add: low_bits rc1_def Let_def)
    have len: "length (svarint_bytes v) = 1"
      using True by (subst svarint_bytes_unfold) simp
    have "(if shift + 7 < 64 \<and> ((ucast v OR 0x80 :: byte) AND 0x7f) AND 0x40 \<noteq> 0
        then rc1 OR - push_bit (shift + 7) 1 else rc1) = rc OR push_bit shift v"
      using svarint_last_value [OF True 1(2), symmetric]
      by (auto simp: rc1_def bit_6 or.assoc simp del: push_bit_of_1)
    with loop len show ?thesis
      by (metis (no_types, lifting))
  next
    case False
    define v1 where "v1 = signed_drop_bit 7 v"
    define rc1 where "rc1 = rc OR push_bit shift (take_bit 7 v)"
    have more: "\<not> (v1 = 0 \<and> ((ucast v OR 0x80 :: byte) AND 0x40 = 0) \<or>
        v1 = - 1 \<and> (ucast v OR 0x80 :: byte) AND 0x40 \<noteq> 0)"
      using False by (simp add: svarint_last_def v1_def Let_def)
    have big: "\<not> (- 64 \<le> sint v \<and> sint v < 64)"
      using False svarint_last_small by blast
    have shift: "shift + 7 < 64"
    proof (rule ccontr)
      assume "\<not> shift + 7 < 64"
      then have "(2 :: int) ^ (63 - shift) \<le> 2 ^ 6"
        by (intro power_increasing) simp_all
      with 1(3,4) big show False
        by simp
    qed
    have pow: "(2 :: int) ^ (63 - shift) = 128 * 2 ^ (63 - (shift + 7))"
      using shift power_add [of "2 :: int" 7 "63 - (shift + 7)"] by simp
    have s1: "sint v1 = sint v div 128"
      unfolding v1_def by (rule sint_signed_drop_bit_7)
    have lo: "- (2 ^ (63 - (shift + 7))) \<le> sint v1" and hi: "sint v1 < 2 ^ (63 - (shift + 7))"
      using 1(3,4) unfolding pow s1 by linarith+
    obtain rc' byt shift' where
        ih: "svarint_loop (svarint_bytes v1 @ rest) rc1 (shift + 7) (n + 1) =
          Some (rc', byt, shift', n + 1 + length (svarint_bytes v1))"
      and ext: "(if shift' < 64 \<and> byt AND 0x40 \<noteq> 0 then rc' OR - push_bit shift' 1 else rc') =
          rc1 OR push_bit (shift + 7) v1"
      using 1(1) [OF refl v1_def more shift lo hi] by blast
    have bytes: "svarint_bytes v = (ucast v OR 0x80) # svarint_bytes v1"
      using False by (subst svarint_bytes_unfold) (simp add: v1_def)
    have "svarint_loop (svarint_bytes v @ rest) rc shift n =
        Some (rc', byt, shift', n + length (svarint_bytes v))"
      using ih 1(2) by (simp add: bytes low_bits rc1_def)
    moreover have "rc1 OR push_bit (shift + 7) v1 = rc OR push_bit shift v"
      using svarint_next_value [OF 1(2), of v, symmetric] by (simp add: rc1_def v1_def or.assoc)
    ultimately show ?thesis
      using ext by (metis (no_types, lifting))
  qed
qed

lemma svarint_get: "fstGetSVarint64 (svarint_bytes v @ rest) = Some (v, length (svarint_bytes v))"
proof -
  have lo: "- (2 ^ (63 - 0)) \<le> sint v" and hi: "sint v < 2 ^ (63 - 0)"
    using sint_ge [of v] sint_lt [of v] by simp_all
  obtain rc' byt shift' where
      "svarint_loop (svarint_bytes v @ rest) 0 0 0 = Some (rc', byt, shift', 0 + length (svarint_bytes v))"
      "(if shift' < 64 \<and> byt AND 0x40 \<noteq> 0 then rc' OR - push_bit shift' 1 else rc') = 0 OR push_bit 0 v"
    using svarint_loop_bytes [of 0 v rest 0 0, OF _ lo hi] by auto
  then show ?thesis
    by (simp add: fstGetSVarint64_def del: push_bit_of_1)
qed

text \<open>
  A signed 64-bit number (the alias offsets of a value-change section) written with
  \<open>fstWriterSVarint\<close> is read back by \<open>fstGetSVarint64\<close>, sign included, and exactly its bytes
  are skipped.
\<close>

theorem svarint_roundtrip:
  "\<exists>bytes. fstWriterSVarint f v = (length bytes, f @ bytes) \<and>
     fstGetSVarint64 (bytes @ rest) = Some (v, length bytes)"
  by (intro exI [of _ "svarint_bytes v"]) (simp add: fstWriterSVarint_def svarint_get)

end
