(* ===== verification/C_Text.thy ===== *)
theory C_Text
  imports Prelude
begin

text \<open>
  Text in C: a string is the list of its bytes before the terminating NUL. The library
  functions the sources use on it: decimal numbers (\<open>atoi\<close>, the conversions \<open>%d\<close> and
  \<open>%02x\<close> of \<open>printf\<close>), \<open>toupper\<close> in the C locale, and splitting at spaces.
\<close>

definition lit :: "string \<Rightarrow> byte list" where
  "lit s = map of_char s"

abbreviation ch_space :: byte where
  "ch_space \<equiv> 0x20"

definition no_nul :: "byte list \<Rightarrow> bool" where
  "no_nul s \<longleftrightarrow> 0 \<notin> set s"

lemma no_nul_simps [simp]:
  "no_nul []" "no_nul (b # s) \<longleftrightarrow> b \<noteq> 0 \<and> no_nul s" "no_nul (s @ t) \<longleftrightarrow> no_nul s \<and> no_nul t"
  by (auto simp: no_nul_def)

section \<open>Decimal numbers\<close>

definition is_digit :: "byte \<Rightarrow> bool" where
  "is_digit b \<longleftrightarrow> 0x30 \<le> b \<and> b \<le> 0x39"

function dec_digits :: "nat \<Rightarrow> byte list" where
  "dec_digits n = (if n < 10 then [0x30 + word_of_nat n] else dec_digits (n div 10) @ [0x30 + word_of_nat (n mod 10)])"
  by pat_completeness auto
termination
  by (relation "measure id") auto

declare dec_digits.simps [simp del]

definition dec_int :: "int \<Rightarrow> byte list" where
  "dec_int i = (if i < 0 then 0x2d # dec_digits (nat (- i)) else dec_digits (nat i))"

text \<open>The value of the digits at the start, without the overflow of \<open>int\<close>.\<close>

fun digits_value :: "nat \<Rightarrow> byte list \<Rightarrow> nat" where
  "digits_value v [] = v"
| "digits_value v (b # s) = (if is_digit b then digits_value (10 * v + (unat b - 48)) s else v)"

definition is_space :: "byte \<Rightarrow> bool" where
  "is_space b \<longleftrightarrow> b = 0x20 \<or> 0x09 \<le> b \<and> b \<le> 0x0d"

definition atoi :: "byte list \<Rightarrow> int" where
  "atoi s =
     (case dropWhile is_space s of
        [] \<Rightarrow> 0
      | b # t \<Rightarrow>
          if b = 0x2d then - int (digits_value 0 t)
          else if b = 0x2b then int (digits_value 0 t)
          else int (digits_value 0 (b # t)))"

lemma unat_digit [simp]: "d < 10 \<Longrightarrow> unat (0x30 + word_of_nat d :: byte) = 48 + d"
  using unsigned_of_nat [of "48 + d", where ?'a = nat and ?'b = 8] by (simp add: take_bit_nat_eq_self)

lemma digit_is_digit [simp]: "d < 10 \<Longrightarrow> is_digit (0x30 + word_of_nat d)"
  unfolding is_digit_def word_le_nat_alt by simp

lemma dec_digits_digits: "b \<in> set (dec_digits n) \<Longrightarrow> is_digit b"
proof (induction n rule: dec_digits.induct)
  case (1 n)
  then show ?case
    by (subst (asm) (2) dec_digits.simps) (auto split: if_splits)
qed

lemma dec_digits_nonempty [simp]: "dec_digits n \<noteq> []"
  by (subst dec_digits.simps) simp

lemma digits_value_append:
  "(\<forall>b \<in> set s. is_digit b) \<Longrightarrow> digits_value v (s @ t) = digits_value (digits_value v s) t"
  by (induction s arbitrary: v) auto

lemma digits_value_dec: "digits_value 0 (dec_digits n) = n"
proof (induction n rule: dec_digits.induct)
  case (1 n)
  show ?case
  proof (cases "n < 10")
    case True
    then show ?thesis
      by (subst dec_digits.simps) simp
  next
    case False
    have "digits_value 0 (dec_digits (n div 10) @ [0x30 + word_of_nat (n mod 10)]) =
        10 * (n div 10) + n mod 10"
      using 1 [OF False]
      by (subst digits_value_append)
        (auto simp: dec_digits_digits)
    with False show ?thesis
      by (subst dec_digits.simps) simp
  qed
qed

lemma digits_value_stop: "\<not> is_digit b \<Longrightarrow> digits_value v (b # t) = v"
  by simp

lemma atoi_dec:
  assumes "t = [] \<or> \<not> is_digit (List.hd t)"
  shows "atoi (dec_digits n @ t) = int n"
proof -
  have stop: "digits_value n t = n"
    using assms by (cases t) simp_all
  obtain b s where s: "dec_digits n = b # s"
    by (cases "dec_digits n") simp_all
  then have b: "is_digit b"
    using dec_digits_digits [of b n] by simp
  then have "\<not> is_space b" "b \<noteq> 0x2d" "b \<noteq> 0x2b"
    by (auto simp: is_digit_def is_space_def word_le_nat_alt)
  then have "atoi (dec_digits n @ t) = int (digits_value 0 (dec_digits n @ t))"
    by (simp add: atoi_def s)
  also have "digits_value 0 (dec_digits n @ t) = n"
    using dec_digits_digits [of _ n] stop by (simp add: digits_value_append digits_value_dec)
  finally show ?thesis .
qed

section \<open>Hexadecimal digits and upper case\<close>

definition hex_digit :: "nat \<Rightarrow> byte" where
  "hex_digit n = (if n < 10 then word_of_nat (48 + n) else word_of_nat (87 + n))"

definition hex02 :: "nat \<Rightarrow> byte list" where
  "hex02 n = [hex_digit (n div 16 mod 16), hex_digit (n mod 16)]"

definition toupper :: "byte \<Rightarrow> byte" where
  "toupper b = (if 0x61 \<le> b \<and> b \<le> 0x7a then b - 0x20 else b)"

section \<open>Words between spaces\<close>

fun split_at :: "byte \<Rightarrow> byte list \<Rightarrow> byte list list" where
  "split_at c [] = [[]]"
| "split_at c (b # s) =
     (if b = c then [] # split_at c s
      else case split_at c s of [] \<Rightarrow> [[b]] | w # ws \<Rightarrow> (b # w) # ws)"

lemma split_at_nonempty [simp]: "split_at c s \<noteq> []"
  by (induction s) (auto split: list.split)

lemma split_at_word: "c \<notin> set w \<Longrightarrow> split_at c w = [w]"
  by (induction w) auto

lemma split_at_append: "c \<notin> set w \<Longrightarrow> split_at c (w @ c # s) = w # split_at c s"
  by (induction w) auto

end
