(* ===== verification/Fst_Escape.thy ===== *)
theory Fst_Escape
  imports C_Text
begin

text \<open>
  The text form of binary strings and enumeration tables (\<open>src/fst/fstapi.c\<close>, "utility
  function"): escapes as in C source, without white space, and tables of literals and values
  separated by single spaces.
\<close>

section \<open>Escapes\<close>

text \<open>The switch of \<open>fstUtilityBinToEsc\<close> and of \<open>fstUtilityBinToEscConvertedLen\<close> for a byte.\<close>

definition esc_letter :: "byte \<Rightarrow> byte option" where
  "esc_letter b =
     (if b = 0x07 then Some 0x61 else if b = 0x08 then Some 0x62
      else if b = 0x0c then Some 0x66 else if b = 0x0a then Some 0x6e
      else if b = 0x0d then Some 0x72 else if b = 0x09 then Some 0x74
      else if b = 0x0b then Some 0x76 else if b = 0x27 then Some 0x27
      else if b = 0x22 then Some 0x22 else if b = 0x5c then Some 0x5c
      else if b = 0x3f then Some 0x3f else None)"

definition esc_byte :: "byte \<Rightarrow> byte list" where
  "esc_byte b =
     (case esc_letter b of
        Some l \<Rightarrow> [0x5c, l]
      | None \<Rightarrow>
          if b > 0x20 \<and> b \<le> 0x7e then [b]
          else [0x5c, b div 64 + 0x30, (b AND 63) div 8 + 0x30, ((b AND 63) AND 7) + 0x30])"

text \<open>The bytes stored at the destination; the result of the C function is their number.\<close>

fun fstUtilityBinToEsc :: "byte list \<Rightarrow> byte list" where
  "fstUtilityBinToEsc [] = []"
| "fstUtilityBinToEsc (b # s) = esc_byte b @ fstUtilityBinToEsc s"

fun fstUtilityBinToEscConvertedLen :: "byte list \<Rightarrow> nat" where
  "fstUtilityBinToEscConvertedLen [] = 0"
| "fstUtilityBinToEscConvertedLen (b # s) =
     (if esc_letter b \<noteq> None then 2 else if b > 0x20 \<and> b \<le> 0x7e then 1 else 4) +
     fstUtilityBinToEscConvertedLen s"

text \<open>
  The way back reads \<open>len\<close> bytes of the memory \<open>src\<close>, but an escape that the length cuts
  off is completed with the bytes behind it: \<open>None\<close> if there are none. The destination
  never overtakes the source, so that converting in place gives the same bytes.
\<close>

definition unesc_letter :: "byte \<Rightarrow> byte" where
  "unesc_letter c =
     (if c = 0x61 then 0x07 else if c = 0x62 then 0x08
      else if c = 0x66 then 0x0c else if c = 0x6e then 0x0a
      else if c = 0x72 then 0x0d else if c = 0x74 then 0x09
      else if c = 0x76 then 0x0b else c)"

definition hex_val :: "byte \<Rightarrow> byte" where
  "hex_val c = (let v = toupper c in if v \<ge> 0x41 \<and> v \<le> 0x46 then v - 0x41 + 10 else v - 0x30)"

fun fstUtilityEscToBin :: "nat \<Rightarrow> byte list \<Rightarrow> byte list option" where
  "fstUtilityEscToBin 0 src = Some []"
| "fstUtilityEscToBin (Suc len) [] = None"
| "fstUtilityEscToBin (Suc len) (c # src) =
     (if c \<noteq> 0x5c then map_option ((#) c) (fstUtilityEscToBin len src)
      else case src of
        [] \<Rightarrow> None
      | e # src1 \<Rightarrow>
          if e = 0x78 then
            (case src1 of
               h1 # h2 # src3 \<Rightarrow>
                 map_option ((#) (hex_val h1 * 16 + hex_val h2)) (fstUtilityEscToBin (len - 3) src3)
             | _ \<Rightarrow> None)
          else if 0x30 \<le> e \<and> e \<le> 0x37 then
            (case src1 of
               o2 # o3 # src3 \<Rightarrow>
                 map_option ((#) ((e - 0x30) * 64 + (o2 - 0x30) * 8 + (o3 - 0x30)))
                   (fstUtilityEscToBin (len - 3) src3)
             | _ \<Rightarrow> None)
          else map_option ((#) (unesc_letter e)) (fstUtilityEscToBin (len - 1) src1))"

text \<open>The three digits give the byte back, and the escapes are printable without spaces.\<close>

lemma octal_digits:
  "(b div 64 + 0x30 - 0x30) * 64 + ((b AND 63) div 8 + 0x30 - 0x30) * 8 + (((b AND 63) AND 7) + 0x30 - 0x30) = (b :: byte)"
  by (rule all_bytes [of _ b]) code_simp

lemma octal_first: "0x30 \<le> (b :: byte) div 64 + 0x30 \<and> b div 64 + 0x30 \<le> 0x37"
  by (rule all_bytes [of _ b]) code_simp

lemma octal_not_x: "(b :: byte) div 64 + 0x30 \<noteq> 0x78"
  by (rule all_bytes [of _ b]) code_simp

lemma esc_letter_unesc:
  "esc_letter b = Some l \<Longrightarrow> unesc_letter l = b \<and> l \<noteq> 0x78 \<and> \<not> (0x30 \<le> l \<and> l \<le> 0x37)"
  by (auto simp: esc_letter_def unesc_letter_def split: if_splits)

lemma esc_byte_plain: "\<forall>c \<in> set (esc_byte b). 0x20 < c \<and> c \<le> 0x7e"
  by (rule all_bytes [of _ b]) code_simp

lemma plain_not_space: "0x20 < (c :: byte) \<Longrightarrow> c \<noteq> 0x20 \<and> c \<noteq> 0"
  by auto

lemma esc_plain: "c \<in> set (fstUtilityBinToEsc s) \<Longrightarrow> 0x20 < c \<and> c \<le> 0x7e"
  using esc_byte_plain by (induction s) auto

lemma unesc_byte:
  "fstUtilityEscToBin (length (esc_byte b) + n) (esc_byte b @ src) = map_option ((#) b) (fstUtilityEscToBin n src)"
proof (cases "esc_letter b")
  case None
  then have "b \<noteq> 0x5c"
    by (auto simp: esc_letter_def)
  with None show ?thesis
    using octal_first [of b] octal_not_x [of b] octal_digits [of b]
    by (auto simp: esc_byte_def numeral_3_eq_3 simp del: word_le_sub1)
next
  case (Some l)
  then show ?thesis
    using esc_letter_unesc [OF Some] by (auto simp: esc_byte_def)
qed

lemma escape_length: "length (fstUtilityBinToEsc s) = fstUtilityBinToEscConvertedLen s"
  by (induction s) (auto simp: esc_byte_def split: option.split)

lemma unesc_esc:
  "fstUtilityEscToBin (length (fstUtilityBinToEsc s)) (fstUtilityBinToEsc s @ src) = Some s"
  by (induction s) (simp_all add: unesc_byte)

text \<open>
  Escaping a binary string gives printable text without spaces of exactly the
  announced length, at most four times as long, and the way back restores the string.
\<close>

theorem escape_roundtrip:
  "fstUtilityEscToBin (length (fstUtilityBinToEsc s)) (fstUtilityBinToEsc s @ rest) = Some s \<and>
   length (fstUtilityBinToEsc s) = fstUtilityBinToEscConvertedLen s \<and>
   fstUtilityBinToEscConvertedLen s \<le> 4 * length s \<and>
   list_all (\<lambda>c. 0x20 < c \<and> c \<le> 0x7e) (fstUtilityBinToEsc s)"
proof (intro conjI)
  show "fstUtilityEscToBin (length (fstUtilityBinToEsc s)) (fstUtilityBinToEsc s @ rest) = Some s"
    by (rule unesc_esc)
  show "length (fstUtilityBinToEsc s) = fstUtilityBinToEscConvertedLen s"
    by (rule escape_length)
  show "fstUtilityBinToEscConvertedLen s \<le> 4 * length s"
    by (induction s) auto
  show "list_all (\<lambda>c. 0x20 < c \<and> c \<le> 0x7e) (fstUtilityBinToEsc s)"
    using esc_plain by (auto simp: list_all_iff)
qed

section \<open>Enumeration tables\<close>

text \<open>
  The lengths are of type \<open>int\<close>: a string longer than \<open>2 ^ 31 - 1\<close> bytes is cut to the value
  of the low 32 bits of its length, and to nothing where that is negative.
\<close>

definition int_len :: "byte list \<Rightarrow> u32" where
  "int_len s = word_of_nat (length s)"

definition int_bytes :: "byte list \<Rightarrow> byte list" where
  "int_bytes s = take (nat (sint (int_len s))) s"

text \<open>
  The text \<open>attr_str\<close> that \<open>fstWriterCreateEnumTable\<close> builds: the name, the number of
  elements, the escaped literals and the escaped values, each padded with zeros on the left
  to \<open>min_valbits\<close>. \<open>enum_total_len\<close> is the size of its buffer, with the wrap-around of
  \<open>int\<close>; the terminating NUL takes the place of the last space. \<open>None\<close> is an access outside:
  the arrays are shorter than \<open>elem_count\<close>, the size or the length of the name is negative, or the
  buffer is too small for the text.
\<close>

definition val_pad :: "u32 \<Rightarrow> byte list \<Rightarrow> byte list" where
  "val_pad min_valbits v =
     (if min_valbits > 0 then
        if int_len v < min_valbits then replicate (unat (min_valbits - int_len v)) 0x30 else []
      else [])"

definition enum_total_len :: "byte list \<Rightarrow> u32 \<Rightarrow> u32 \<Rightarrow> byte list list \<Rightarrow> byte list list \<Rightarrow> u32" where
  "enum_total_len name elem_count min_valbits literal_arr val_arr =
     (let lit_len_tot = sum_list (map (\<lambda>l. word_of_nat (fstUtilityBinToEscConvertedLen (int_bytes l))) literal_arr);
          val_len_tot = sum_list (map (\<lambda>v. word_of_nat (fstUtilityBinToEscConvertedLen (int_bytes v)) +
            (if min_valbits > 0 then if int_len v < min_valbits then min_valbits - int_len v else 0 else 0)) val_arr)
      in int_len name + 1 + int_len (dec_digits (unat elem_count)) + 1 + lit_len_tot + elem_count + val_len_tot + elem_count)"

definition enum_attr_bytes :: "byte list \<Rightarrow> u32 \<Rightarrow> u32 \<Rightarrow> byte list list \<Rightarrow> byte list list \<Rightarrow> byte list option" where
  "enum_attr_bytes name elem_count min_valbits literal_arr val_arr =
     (let literals = take (unat elem_count) literal_arr; vals = take (unat elem_count) val_arr;
          total_len = enum_total_len name elem_count min_valbits literals vals;
          text = int_bytes name @ [ch_space] @ dec_digits (unat elem_count) @ [ch_space] @
            concat (map (\<lambda>l. fstUtilityBinToEsc (int_bytes l) @ [ch_space]) literals) @
            concat (map (\<lambda>v. val_pad min_valbits v @ fstUtilityBinToEsc (int_bytes v) @ [ch_space]) vals)
      in if length literal_arr < unat elem_count \<or> length val_arr < unat elem_count \<or> sint (int_len name) < 0 then None
         else if sint total_len < int (length text) then None
         else Some (text[length text - 1 := 0]))"

definition c_string :: "byte list \<Rightarrow> byte list" where
  "c_string mem = takeWhile (\<lambda>b. b \<noteq> 0) mem"

text \<open>
  The reader's table. \<open>fstUtilityExtractEnumTableFromString\<close> cuts a copy of the string at its
  spaces and converts as many pieces as it expects in place. The memory behind a piece is a
  NUL and the rest of the copy. The outer \<open>None\<close> is an access outside memory, the inner one the result
  \<open>NULL\<close>. The final search for a space finds none behind the last value. The count is the
  number that \<open>atoi\<close> has read as a \<open>long\<close>, converted to \<open>int\<close>.
\<close>

record fstETab =
  et_name :: "byte list"
  et_elem_count :: u32
  et_literal_arr :: "byte list list"
  et_val_arr :: "byte list list"

definition atoi_int :: "byte list \<Rightarrow> u32" where
  "atoi_int s = word_of_int (max (- (2 ^ 63)) (min (2 ^ 63 - 1) (atoi s)))"

fun join_words :: "byte list list \<Rightarrow> byte list" where
  "join_words [] = []"
| "join_words [w] = w @ [0]"
| "join_words (w # ws) = w @ ch_space # join_words ws"

fun convert_words :: "nat \<Rightarrow> byte list list \<Rightarrow> byte list list option" where
  "convert_words 0 ws = Some []"
| "convert_words (Suc n) [] = None"
| "convert_words (Suc n) (w # ws) =
     (case fstUtilityEscToBin (length (int_bytes w)) (w @ 0 # join_words ws) of
        None \<Rightarrow> None
      | Some v \<Rightarrow> map_option ((#) v) (convert_words n ws))"

definition fstUtilityExtractEnumTableFromString :: "byte list \<Rightarrow> fstETab option option" where
  "fstUtilityExtractEnumTableFromString s =
     (case split_at ch_space s of
        name # (text # ws) \<Rightarrow>
          (let cnt = atoi_int (drop (length name + 1) s); num_spaces = word_of_nat (length ws) in
           if num_spaces = 2 * cnt then
             (case convert_words (2 * nat (sint cnt)) ws of
                None \<Rightarrow> None
              | Some vs \<Rightarrow>
                  Some (Some \<lparr>et_name = name, et_elem_count = cnt,
                    et_literal_arr = take (nat (sint cnt)) vs, et_val_arr = drop (nat (sint cnt)) vs\<rparr>))
           else Some None)
      | _ \<Rightarrow> None)"

subsection \<open>The sizes\<close>

text \<open>What the buffer has to hold.\<close>

definition enum_size :: "byte list \<Rightarrow> u32 \<Rightarrow> byte list list \<Rightarrow> byte list list \<Rightarrow> nat" where
  "enum_size name min_valbits literal_arr val_arr =
     length name + 1 + length (dec_digits (length literal_arr)) + 1 +
     sum_list (map (\<lambda>l. fstUtilityBinToEscConvertedLen l + 1) literal_arr) +
     sum_list (map (\<lambda>v. fstUtilityBinToEscConvertedLen v + (unat min_valbits - length v) + 1) val_arr)"

lemma sint_small: "n < 2 ^ 31 \<Longrightarrow> sint (word_of_nat n :: u32) = int n"
  by (simp add: signed_of_nat signed_take_bit_int_eq_self)

lemma int_bytes_small: "length s < 2 ^ 31 \<Longrightarrow> int_bytes s = s"
  by (simp add: int_bytes_def int_len_def sint_small)

lemma length_le_converted: "length s \<le> fstUtilityBinToEscConvertedLen s"
  by (induction s) auto

lemma elem_le_sum: "x \<in> set xs \<Longrightarrow> f x \<le> sum_list (map f xs)" for f :: "'b \<Rightarrow> nat"
  by (induction xs) auto

lemma length_le_sum: "length xs \<le> sum_list (map (\<lambda>x. f x + 1) xs)" for f :: "'b \<Rightarrow> nat"
  by (induction xs) auto

lemma enum_size_bounds:
  "length name \<le> enum_size name k lits vals" "length lits \<le> enum_size name k lits vals"
  "l \<in> set lits \<Longrightarrow> length l \<le> enum_size name k lits vals" "v \<in> set vals \<Longrightarrow> length v \<le> enum_size name k lits vals"
proof -
  show "length name \<le> enum_size name k lits vals" "length lits \<le> enum_size name k lits vals"
    using length_le_sum [of lits fstUtilityBinToEscConvertedLen] by (simp_all add: enum_size_def)
  show "length l \<le> enum_size name k lits vals" if "l \<in> set lits"
    using elem_le_sum [OF that, of "\<lambda>l. fstUtilityBinToEscConvertedLen l + 1"] length_le_converted [of l]
    by (simp add: enum_size_def)
  show "length v \<le> enum_size name k lits vals" if "v \<in> set vals"
    using elem_le_sum [OF that, of "\<lambda>v. fstUtilityBinToEscConvertedLen v + (unat k - length v) + 1"] length_le_converted [of v]
    by (simp add: enum_size_def)
qed

lemma pad_count:
  assumes "length v < 2 ^ 31"
  shows "length (val_pad k v) = unat k - length v"
    and "(if k > 0 then if int_len v < k then k - int_len v else 0 else 0) = word_of_nat (unat k - length v)"
proof -
  have len: "unat (int_len v) = length v"
    using assms by (simp add: int_len_def unsigned_of_nat take_bit_nat_eq_self)
  then have less: "int_len v < k \<longleftrightarrow> length v < unat k"
    by (simp add: word_less_nat_alt)
  then have diff: "unat (k - int_len v) = unat k - length v" if "int_len v < k"
    using that by (simp add: unat_sub less_imp_le len)
  show "length (val_pad k v) = unat k - length v"
    using less diff by (auto simp: val_pad_def word_gt_0)
  have "k - int_len v = word_of_nat (unat k - length v)" if "int_len v < k"
    using diff [OF that, symmetric] by simp
  then show "(if k > 0 then if int_len v < k then k - int_len v else 0 else 0) = word_of_nat (unat k - length v)"
    using less by (auto simp: word_gt_0)
qed

lemma sum_of_nat: "sum_list (map (\<lambda>x. word_of_nat (f x)) xs) = (word_of_nat (sum_list (map f xs)) :: 'a :: len word)"
  by (induction xs) simp_all

lemma sum_Suc: "sum_list (map (\<lambda>x. Suc (f x)) xs) = sum_list (map f xs) + length xs" for f :: "'b \<Rightarrow> nat"
  by (induction xs) simp_all

lemma enum_total_len_size:
  assumes "length vals = length lits" "\<forall>l \<in> set (lits @ vals). length l < 2 ^ 31" "length lits < 2 ^ 32"
  shows "enum_total_len name (word_of_nat (length lits)) k lits vals = word_of_nat (enum_size name k lits vals)"
proof -
  have count: "unat (word_of_nat (length lits) :: u32) = length lits"
    using assms(3) by (simp add: unsigned_of_nat take_bit_nat_eq_self)
  have lits: "map (\<lambda>l. word_of_nat (fstUtilityBinToEscConvertedLen (int_bytes l)) :: u32) lits =
      map (\<lambda>l. word_of_nat (fstUtilityBinToEscConvertedLen l)) lits"
    using assms(2) by (simp add: int_bytes_small)
  have vals: "map (\<lambda>v. word_of_nat (fstUtilityBinToEscConvertedLen (int_bytes v)) +
        (if k > 0 then if int_len v < k then k - int_len v else 0 else 0)) vals =
      map (\<lambda>v. word_of_nat (fstUtilityBinToEscConvertedLen v + (unat k - length v))) vals"
    using assms(2) by (simp add: int_bytes_small pad_count(2))
  show ?thesis
    unfolding enum_total_len_def Let_def lits vals sum_of_nat count enum_size_def
    using assms(1) by (simp add: int_len_def sum_Suc)
qed

text \<open>The text is the words, separated by spaces, and ends with the NUL.\<close>

fun spaced :: "byte list list \<Rightarrow> byte list" where
  "spaced [] = []"
| "spaced [w] = w"
| "spaced (w # ws) = w @ ch_space # spaced ws"

lemma concat_spaced: "ws \<noteq> [] \<Longrightarrow> concat (map (\<lambda>w. w @ [ch_space]) ws) = spaced ws @ [ch_space]"
  by (induction ws rule: spaced.induct) simp_all

lemma split_spaced:
  "ws \<noteq> [] \<Longrightarrow> (\<forall>w \<in> set ws. ch_space \<notin> set w) \<Longrightarrow> split_at ch_space (spaced ws) = ws"
  by (induction ws rule: spaced.induct) (simp_all add: split_at_word split_at_append)

lemma spaced_append: "spaced (v # w # ws) = v @ ch_space # spaced (w # ws)"
  by simp

lemma no_nul_spaced: "(\<forall>w \<in> set ws. no_nul w) \<Longrightarrow> no_nul (spaced ws)"
  by (induction ws rule: spaced.induct) simp_all

definition enum_words :: "u32 \<Rightarrow> byte list list \<Rightarrow> byte list list \<Rightarrow> byte list list" where
  "enum_words k lits vals =
     map fstUtilityBinToEsc lits @ map (\<lambda>v. val_pad k v @ fstUtilityBinToEsc v) vals"

text \<open>The text with the space that becomes the NUL.\<close>

definition enum_text :: "byte list \<Rightarrow> u32 \<Rightarrow> byte list list \<Rightarrow> byte list list \<Rightarrow> byte list" where
  "enum_text name k lits vals = name @ [ch_space] @ dec_digits (length lits) @ [ch_space] @
     concat (map (\<lambda>l. fstUtilityBinToEsc l @ [ch_space]) lits) @
     concat (map (\<lambda>v. val_pad k v @ fstUtilityBinToEsc v @ [ch_space]) vals)"

lemma length_enum_text:
  assumes "\<forall>v \<in> set vals. length v < 2 ^ 31"
  shows "length (enum_text name k lits vals) = enum_size name k lits vals"
proof -
  have "map (\<lambda>v. Suc (length (val_pad k v) + fstUtilityBinToEscConvertedLen v)) vals =
      map (\<lambda>v. Suc (fstUtilityBinToEscConvertedLen v + (unat k - length v))) vals"
    using assms by (simp add: pad_count(1))
  from arg_cong [OF this, of sum_list] show ?thesis
    by (simp add: enum_text_def enum_size_def length_concat comp_def escape_length)
qed

lemma enum_text_spaced:
  "enum_text name k lits vals = spaced (name # dec_digits (length lits) # enum_words k lits vals) @ [ch_space]"
proof -
  let ?ws = "name # dec_digits (length lits) # enum_words k lits vals"
  have "enum_text name k lits vals = concat (map (\<lambda>w. w @ [ch_space]) ?ws)"
    by (simp add: enum_text_def enum_words_def comp_def)
  also have "\<dots> = spaced ?ws @ [ch_space]"
    by (rule concat_spaced) simp
  finally show ?thesis .
qed

lemma enum_attr_bytes_eq:
  assumes "length vals = length lits" "\<forall>l \<in> set (name # lits @ vals). length l < 2 ^ 31" "length lits < 2 ^ 32"
  shows "enum_attr_bytes name (word_of_nat (length lits)) k lits vals =
    (if sint (enum_total_len name (word_of_nat (length lits)) k lits vals) < int (enum_size name k lits vals) then None
     else Some (spaced (name # dec_digits (length lits) # enum_words k lits vals) @ [0]))"
proof -
  have count: "unat (word_of_nat (length lits) :: u32) = length lits"
    using assms(3) by (simp add: unsigned_of_nat take_bit_nat_eq_self)
  have name: "\<not> sint (int_len name) < 0" "int_bytes name = name"
    using assms(2) by (simp_all add: int_len_def sint_small int_bytes_small)
  have "map (\<lambda>l. fstUtilityBinToEsc (int_bytes l) @ [ch_space]) lits = map (\<lambda>l. fstUtilityBinToEsc l @ [ch_space]) lits"
    "map (\<lambda>v. val_pad k v @ fstUtilityBinToEsc (int_bytes v) @ [ch_space]) vals =
      map (\<lambda>v. val_pad k v @ fstUtilityBinToEsc v @ [ch_space]) vals"
    using assms(2) by (simp_all add: int_bytes_small)
  then have attr: "int_bytes name @ [ch_space] @ dec_digits (length lits) @ [ch_space] @
      concat (map (\<lambda>l. fstUtilityBinToEsc (int_bytes l) @ [ch_space]) lits) @
      concat (map (\<lambda>v. val_pad k v @ fstUtilityBinToEsc (int_bytes v) @ [ch_space]) vals) = enum_text name k lits vals"
    by (simp only: enum_text_def name(2))
  have size: "length (enum_text name k lits vals) = enum_size name k lits vals"
    using assms(2) by (intro length_enum_text) simp
  have nul: "(enum_text name k lits vals)[length (enum_text name k lits vals) - 1 := 0] =
      spaced (name # dec_digits (length lits) # enum_words k lits vals) @ [0]"
    unfolding enum_text_spaced by (simp add: list_update_append del: spaced.simps)
  have take: "take (length lits) lits = lits" "take (length lits) vals = vals"
    using assms(1) by simp_all
  have long: "(length lits < length lits \<or> length vals < length lits \<or> sint (int_len name) < 0) = False"
    using assms(1) name(1) by simp
  show ?thesis
    unfolding enum_attr_bytes_def Let_def count take attr long if_False size nul [unfolded size] ..
qed

lemma convert_enum_words:
  assumes "\<forall>(p, v) \<in> set pvs. p + length (fstUtilityBinToEsc v) < 2 ^ 31"
  shows "convert_words (length pvs) (map (\<lambda>(p, v). replicate p 0x30 @ fstUtilityBinToEsc v) pvs) =
     Some (map (\<lambda>(p, v). replicate p 0x30 @ v) pvs)"
proof -
  have pad: "fstUtilityEscToBin (p + n) (replicate p 0x30 @ src) =
      map_option ((@) (replicate p 0x30)) (fstUtilityEscToBin n src)" for p n src
    by (induction p) (simp_all add: option.map_comp comp_def option.map_ident)
  show ?thesis
    using assms
  proof (induction pvs)
    case (Cons pv pvs)
    obtain p v where pv: "pv = (p, v)"
      by (cases pv)
    have "length (int_bytes (replicate p 0x30 @ fstUtilityBinToEsc v)) = p + length (fstUtilityBinToEsc v)"
      using Cons.prems by (subst int_bytes_small) (simp_all add: pv)
    then show ?case
      using Cons pad [of p "length (fstUtilityBinToEsc v)"] by (simp add: pv unesc_esc)
  qed simp
qed

lemma val_pad_replicate: "\<exists>p. val_pad k v = replicate p 0x30"
  by (auto simp: val_pad_def intro: exI [of _ 0])

lemma convert_words_enum:
  assumes "\<forall>l \<in> set lits. fstUtilityBinToEscConvertedLen l < 2 ^ 31"
    and "\<forall>v \<in> set vals. length (val_pad k v) + fstUtilityBinToEscConvertedLen v < 2 ^ 31"
  shows "convert_words (length lits + length vals) (enum_words k lits vals) = Some (lits @ map (\<lambda>v. val_pad k v @ v) vals)"
proof -
  define pvs where
    "pvs = map (\<lambda>l. (0 :: nat, l)) lits @ map (\<lambda>v. (length (val_pad k v), v)) vals"
  have pad: "replicate (length (val_pad k v)) 0x30 = val_pad k v" for v
    using val_pad_replicate [of k v] by auto
  have words: "enum_words k lits vals = map (\<lambda>(p, v). replicate p 0x30 @ fstUtilityBinToEsc v) pvs"
    by (simp add: enum_words_def pvs_def pad comp_def)
  have conv: "lits @ map (\<lambda>v. val_pad k v @ v) vals = map (\<lambda>(p, v). replicate p 0x30 @ v) pvs"
    by (simp add: pvs_def pad comp_def)
  have len: "length lits + length vals = length pvs"
    by (simp add: pvs_def)
  show ?thesis
    unfolding words conv len by (rule convert_enum_words) (use assms in \<open>auto simp: pvs_def escape_length\<close>)
qed

lemma esc_word: "ch_space \<notin> set (fstUtilityBinToEsc s)" "no_nul (fstUtilityBinToEsc s)"
  using esc_plain [of "0x20" s] esc_plain [of 0 s] by (auto simp: no_nul_def)

lemma pad_word: "ch_space \<notin> set (val_pad k v)" "no_nul (val_pad k v)"
  by (auto simp: val_pad_def no_nul_def)

lemma dec_word: "ch_space \<notin> set (dec_digits n)" "no_nul (dec_digits n)"
  using dec_digits_digits [of "0x20" n] dec_digits_digits [of 0 n]
  by (auto simp: no_nul_def is_digit_def word_le_nat_alt)

lemma enum_words_plain:
  "\<forall>w \<in> set (enum_words k lits vals). ch_space \<notin> set w \<and> no_nul w"
  by (auto simp: enum_words_def esc_word pad_word)

lemma sint_high: "2 ^ 31 \<le> n \<Longrightarrow> n < 2 ^ 32 \<Longrightarrow> sint (word_of_nat n :: u32) < 0"
proof -
  assume "2 ^ 31 \<le> n" "n < 2 ^ 32"
  then have "n div 2 ^ 31 = 1"
    by (intro div_nat_eqI) simp_all
  then have "bit n 31"
    by (simp add: bit_iff_odd)
  then have "bit (word_of_nat n :: u32) 31"
    by transfer (simp add: bit_of_nat_iff_bit)
  then show ?thesis
    using bit_last_iff [of "word_of_nat n :: u32"] by simp
qed

lemma val_pad_zeros: "length v < 2 ^ 31 \<Longrightarrow> val_pad k v = replicate (unat k - length v) 0x30"
  using val_pad_replicate [of k v] pad_count(1) [of v k] by auto

lemma enum_words_fit:
  assumes "enum_size name k lits vals < 2 ^ 31"
  shows "\<forall>l \<in> set lits. fstUtilityBinToEscConvertedLen l < 2 ^ 31"
    and "\<forall>v \<in> set vals. length (val_pad k v) + fstUtilityBinToEscConvertedLen v < 2 ^ 31"
proof -
  show "\<forall>l \<in> set lits. fstUtilityBinToEscConvertedLen l < 2 ^ 31"
    using elem_le_sum [of _ lits "\<lambda>l. fstUtilityBinToEscConvertedLen l + 1"] assms by (fastforce simp: enum_size_def)
  have "fstUtilityBinToEscConvertedLen v + (unat k - length v) < 2 ^ 31" if "v \<in> set vals" for v
    using elem_le_sum [OF that, of "\<lambda>v. fstUtilityBinToEscConvertedLen v + (unat k - length v) + 1"] assms
    by (simp add: enum_size_def)
  moreover have "length v < 2 ^ 31" if "v \<in> set vals" for v
    using enum_size_bounds(4) [OF that, of name k lits] assms by linarith
  ultimately show "\<forall>v \<in> set vals. length (val_pad k v) + fstUtilityBinToEscConvertedLen v < 2 ^ 31"
    by (simp add: pad_count(1) add.commute)
qed

lemma enum_words_read:
  assumes "lits \<noteq> []" "length vals = length lits" "no_nul name" "ch_space \<notin> set name" "length lits < 2 ^ 31"
    and "\<forall>l \<in> set lits. fstUtilityBinToEscConvertedLen l < 2 ^ 31"
    and "\<forall>v \<in> set vals. length (val_pad k v) + fstUtilityBinToEscConvertedLen v < 2 ^ 31"
  shows "fstUtilityExtractEnumTableFromString
      (c_string (spaced (name # dec_digits (length lits) # enum_words k lits vals) @ [0])) =
    Some (Some \<lparr>et_name = name, et_elem_count = word_of_nat (length lits), et_literal_arr = lits,
      et_val_arr = map (\<lambda>v. val_pad k v @ v) vals\<rparr>)"
proof -
  let ?ew = "enum_words k lits vals"
  let ?ws = "name # dec_digits (length lits) # ?ew"
  have words: "\<forall>w \<in> set ?ws. ch_space \<notin> set w" and "\<forall>w \<in> set ?ws. no_nul w"
    using enum_words_plain [of k lits vals] dec_word assms(3,4) by auto
  then have "no_nul (spaced ?ws)"
    by (intro no_nul_spaced) auto
  then have nonzero: "b \<noteq> 0" if "b \<in> set (spaced ?ws)" for b
    using that unfolding no_nul_def by metis
  then have attr: "c_string (spaced ?ws @ [0]) = spaced ?ws"
    unfolding c_string_def
    by (subst takeWhile_append2) (simp_all only: nonzero takeWhile.simps append_Nil2 not_False_eq_True simp_thms if_False)
  have split: "split_at ch_space (spaced ?ws) = ?ws"
    using words by (intro split_spaced) auto
  have "?ew \<noteq> []"
    using assms(1) by (simp add: enum_words_def)
  then obtain w ws where ew: "?ew = w # ws"
    by (cases ?ew) auto
  have "drop (length name + 1) (spaced ?ws) = dec_digits (length lits) @ ch_space # spaced ?ew"
    by (simp add: ew)
  then have "atoi (drop (Suc (length name)) (spaced ?ws)) = int (length lits)"
    by (simp add: atoi_dec is_digit_def del: spaced.simps)
  then have cnt: "atoi_int (drop (Suc (length name)) (spaced ?ws)) = word_of_nat (length lits)"
    using assms(5) by (simp add: atoi_int_def del: spaced.simps)
  have len: "length ?ew = length lits + length lits"
    using assms(2) by (simp add: enum_words_def)
  have nat_cnt: "nat (sint (word_of_nat (length lits) :: u32)) = length lits"
    using assms(5) by (simp add: sint_small)
  have conv: "convert_words (2 * length lits) ?ew = Some (lits @ map (\<lambda>v. val_pad k v @ v) vals)"
    using convert_words_enum [OF assms(6,7)] assms(2) by (metis mult_2)
  have num: "word_of_nat (length ?ew) = (2 :: u32) * word_of_nat (length lits)"
    unfolding len by simp
  show ?thesis
    unfolding fstUtilityExtractEnumTableFromString_def attr split list.case Let_def Suc_eq_plus1 [symmetric] cnt num nat_cnt conv
    by simp
qed

text \<open>
  C39: the enumeration table that \<open>fstWriterCreateEnumTable\<close> stores as text. As long as the text
  has less than \<open>2 ^ 31\<close> bytes it fills its buffer exactly, and \<open>fstUtilityExtractEnumTableFromString\<close>
  gets the name, the literals and the values, padded with zeros on the left, back, provided that
  the name, which is not escaped, has no space. From there up to \<open>2 ^ 32\<close> (a \<open>min_valbits\<close> of
  \<open>2 ^ 31\<close> is enough) the size of the buffer is negative and the text is written outside of it.
\<close>

theorem enum_table_roundtrip:
  assumes "lits \<noteq> []" "length vals = length lits" "no_nul name" "ch_space \<notin> set name"
    and "\<forall>l \<in> set (name # lits @ vals). length l < 2 ^ 31" "enum_size name k lits vals < 2 ^ 32"
  shows "if enum_size name k lits vals < 2 ^ 31
    then \<exists>text. enum_attr_bytes name (word_of_nat (length lits)) k lits vals = Some text \<and>
      int (length text) = sint (enum_total_len name (word_of_nat (length lits)) k lits vals) \<and>
      fstUtilityExtractEnumTableFromString (c_string text) =
        Some (Some \<lparr>et_name = name, et_elem_count = word_of_nat (length lits), et_literal_arr = lits,
          et_val_arr = map (\<lambda>v. replicate (unat k - length v) 0x30 @ v) vals\<rparr>)
    else enum_attr_bytes name (word_of_nat (length lits)) k lits vals = None"
proof -
  let ?ew = "enum_words k lits vals"
  let ?ws = "name # dec_digits (length lits) # ?ew"
  have count: "length lits < 2 ^ 32"
    using enum_size_bounds(2) [of lits name k vals] assms(6) by linarith
  have total: "enum_total_len name (word_of_nat (length lits)) k lits vals = word_of_nat (enum_size name k lits vals)"
    using assms(5) by (intro enum_total_len_size [OF assms(2) _ count]) simp
  note attr = enum_attr_bytes_eq [OF assms(2,5) count, of k, unfolded total]
  show ?thesis
  proof (cases "enum_size name k lits vals < 2 ^ 31")
    case False
    then have "sint (word_of_nat (enum_size name k lits vals) :: u32) < 0"
      using assms(6) sint_high by simp
    then show ?thesis
      using False by (simp add: attr)
  next
    case True
    have stored: "enum_attr_bytes name (word_of_nat (length lits)) k lits vals = Some (spaced ?ws @ [0])"
      using True by (simp add: attr sint_small del: spaced.simps)
    have "length (spaced ?ws @ [0]) = enum_size name k lits vals"
      using length_enum_text [of vals name k lits] assms(5) by (simp add: enum_text_spaced del: spaced.simps)
    then have size: "int (length (spaced ?ws @ [0])) = sint (enum_total_len name (word_of_nat (length lits)) k lits vals)"
      using True by (simp only: total sint_small)
    have "length lits < 2 ^ 31"
      using enum_size_bounds(2) [of lits name k vals] True by linarith
    then have read: "fstUtilityExtractEnumTableFromString (c_string (spaced ?ws @ [0])) =
        Some (Some \<lparr>et_name = name, et_elem_count = word_of_nat (length lits), et_literal_arr = lits,
          et_val_arr = map (\<lambda>v. val_pad k v @ v) vals\<rparr>)"
      using enum_words_read [OF assms(1-4) _ enum_words_fit [OF True]] assms(5) by blast
    have "map (\<lambda>v. val_pad k v @ v) vals = map (\<lambda>v. replicate (unat k - length v) 0x30 @ v) vals"
      using assms(5) by (simp add: val_pad_zeros)
    with True stored size read show ?thesis
      by (simp del: spaced.simps)
  qed
qed

theorem enum_table_roundtrip_witness:
  "(\<exists>text. enum_attr_bytes (lit ''state'') 2 2 [lit ''IDLE'', lit ''BUSY''] [lit ''0'', lit ''01''] = Some text \<and>
     fstUtilityExtractEnumTableFromString (c_string text) =
       Some (Some \<lparr>et_name = lit ''state'', et_elem_count = 2,
         et_literal_arr = [lit ''IDLE'', lit ''BUSY''], et_val_arr = [lit ''00'', lit ''01'']\<rparr>)) \<and>
   enum_attr_bytes (lit ''state'') 1 0x80000000 [lit ''IDLE''] [lit ''0''] = None"
proof -
  have name: "no_nul (lit ''state'')" "ch_space \<notin> set (lit ''state'')"
    by code_simp+
  have digits: "length (dec_digits (Suc (Suc 0))) = 1" "length (dec_digits (Suc 0)) = 1"
    by code_simp+
  have conv: "fstUtilityBinToEscConvertedLen (lit ''IDLE'') = 4" "fstUtilityBinToEscConvertedLen (lit ''BUSY'') = 4"
    "fstUtilityBinToEscConvertedLen (lit ''0'') = 1" "fstUtilityBinToEscConvertedLen (lit ''01'') = 2"
    by code_simp+
  have len: "length (lit s) = length s" for s
    by (simp add: lit_def)
  have size: "enum_size (lit ''state'') 2 [lit ''IDLE'', lit ''BUSY''] [lit ''0'', lit ''01''] = 24"
    "enum_size (lit ''state'') 0x80000000 [lit ''IDLE''] [lit ''0''] = 2 ^ 31 + 14"
    using digits by (simp_all add: enum_size_def conv len)
  have pad: "48 # lit ''0'' = lit ''00''"
    by code_simp
  show ?thesis
    using enum_table_roundtrip [OF _ _ name, of "[lit ''IDLE'', lit ''BUSY'']" "[lit ''0'', lit ''01'']" 2]
      enum_table_roundtrip [OF _ _ name, of "[lit ''IDLE'']" "[lit ''0'']" "0x80000000"]
    by (simp add: size pad len) blast
qed

text \<open>
  A space in the name of an enumeration, which is not escaped, makes the number of
  spaces disagree with the count, so that the reader finds no table.
\<close>

theorem enum_name_with_space_lost:
  "enum_attr_bytes (lit ''my state'') 1 0 [lit ''IDLE''] [lit ''0''] = Some (lit ''my state 1 IDLE 0'' @ [0]) \<and>
   fstUtilityExtractEnumTableFromString (lit ''my state 1 IDLE 0'') = Some None"
  by code_simp

end
