(* ===== verification/Fst_Jenkins.thy ===== *)
theory Fst_Jenkins
  imports Prelude
begin

text \<open>
  The hash table of the FST library (\<open>src/fst/fstapi.c\<close>, "jenkins hash" and "judy HS
  emulation"): Jenkins' 32-bit hash and an array of collision chains. The writer numbers
  source paths with it and finds equal value chains.
\<close>

section \<open>The hash function\<close>

definition mix :: "u32 \<times> u32 \<times> u32 \<Rightarrow> u32 \<times> u32 \<times> u32" where
  "mix s =
     (let (a, b, c) = s;
          a = a - b; a = a - c; a = a XOR drop_bit 13 c;
          b = b - c; b = b - a; b = b XOR push_bit 8 a;
          c = c - a; c = c - b; c = c XOR drop_bit 13 b;
          a = a - b; a = a - c; a = a XOR drop_bit 12 c;
          b = b - c; b = b - a; b = b XOR push_bit 16 a;
          c = c - a; c = c - b; c = c XOR drop_bit 5 b;
          a = a - b; a = a - c; a = a XOR drop_bit 3 c;
          b = b - c; b = b - a; b = b XOR push_bit 10 a;
          c = c - a; c = c - b; c = c XOR drop_bit 15 b
      in (a, b, c))"

text \<open>Byte \<open>i\<close> of the key, shifted; the cases of the switch that do not apply add nothing.\<close>

definition key_byte :: "byte list \<Rightarrow> nat \<Rightarrow> nat \<Rightarrow> u32" where
  "key_byte k i sh = (if i < length k then push_bit sh (ucast (k ! i)) else 0)"

fun j_hash_loop :: "byte list \<Rightarrow> u32 \<times> u32 \<times> u32 \<Rightarrow> byte list \<times> u32 \<times> u32 \<times> u32" where
  "j_hash_loop (k0 # k1 # k2 # k3 # k4 # k5 # k6 # k7 # k8 # k9 # k10 # k11 # k) (a, b, c) =
     j_hash_loop k
       (mix (a + (ucast k0 + push_bit 8 (ucast k1) + push_bit 16 (ucast k2) + push_bit 24 (ucast k3)),
             b + (ucast k4 + push_bit 8 (ucast k5) + push_bit 16 (ucast k6) + push_bit 24 (ucast k7)),
             c + (ucast k8 + push_bit 8 (ucast k9) + push_bit 16 (ucast k10) + push_bit 24 (ucast k11))))"
| "j_hash_loop k s = (k, s)"

definition j_hash :: "byte list \<Rightarrow> u32 \<Rightarrow> u32" where
  "j_hash key initval =
     (let (k, a, b, c) = j_hash_loop key (0x9e3779b9, 0x9e3779b9, initval);
          c = c + word_of_nat (length key);
          c = c + key_byte k 10 24 + key_byte k 9 16 + key_byte k 8 8;
          b = b + key_byte k 7 24 + key_byte k 6 16 + key_byte k 5 8 + key_byte k 4 0;
          a = a + key_byte k 3 24 + key_byte k 2 16 + key_byte k 1 8 + key_byte k 0 0;
          (a, b, c) = mix (a, b, c)
      in c)"

section \<open>The table\<close>

text \<open>
  A chain is a list. \<open>JenkinsIns\<close> returns the address of the payload of an entry that is then
  the first of its chain; the model returns the index of the chain, and \<open>payload\<close> and
  \<open>set_payload\<close> are the accesses through that address. A new payload is \<open>NULL\<close>, 0.
  \<open>hashmask\<close> is one less than the number of chains, a power of two.
\<close>

record collchain =
  cc_payload :: u64
  cc_fullhash :: u32
  cc_length :: u32
  cc_mem :: "byte list"

type_synonym jtable = "collchain list list option"

text \<open>The first entry that fits, taken out of the chain; the \<open>length\<close> is compared before the bytes.\<close>

fun chain_take :: "(collchain \<Rightarrow> bool) \<Rightarrow> collchain list \<Rightarrow> (collchain \<times> collchain list) option" where
  "chain_take P [] = None"
| "chain_take P (c # chain) =
     (if P c then Some (c, chain)
      else map_option (\<lambda>(hit, rest). (hit, c # rest)) (chain_take P chain))"

definition JenkinsIns :: "jtable \<Rightarrow> byte list \<Rightarrow> u32 \<Rightarrow> jtable \<times> nat" where
  "JenkinsIns base mem hashmask =
     (let ar = (case base of None \<Rightarrow> replicate (unat hashmask + 1) [] | Some ar \<Rightarrow> ar);
          len = word_of_nat (length mem);
          hf = j_hash mem len;
          h = unat (hf AND hashmask);
          chain = ar ! h
      in case chain_take (\<lambda>c. cc_fullhash c = hf \<and> cc_length c = len \<and> cc_mem c = mem) chain of
           Some (hit, rest) \<Rightarrow> (Some (ar[h := hit # rest]), h)
         | None \<Rightarrow>
             (Some (ar[h := \<lparr>cc_payload = 0, cc_fullhash = hf, cc_length = len, cc_mem = mem\<rparr> # chain]), h))"

definition payload :: "jtable \<Rightarrow> nat \<Rightarrow> u64" where
  "payload base h = (case base of None \<Rightarrow> 0 | Some ar \<Rightarrow> (case ar ! h of [] \<Rightarrow> 0 | c # _ \<Rightarrow> cc_payload c))"

definition set_payload :: "u64 \<Rightarrow> jtable \<Rightarrow> nat \<Rightarrow> jtable" where
  "set_payload p base h =
     (case base of
        None \<Rightarrow> None
      | Some ar \<Rightarrow> (case ar ! h of [] \<Rightarrow> Some ar | c # chain \<Rightarrow> Some (ar[h := c\<lparr>cc_payload := p\<rparr> # chain])))"

text \<open>The loops free every entry of every chain.\<close>

definition JenkinsFree :: "jtable \<Rightarrow> jtable" where
  "JenkinsFree base = None"

section \<open>A finite map\<close>

text \<open>What the table promises: it is a map from byte strings to payloads.\<close>

definition key_hash :: "byte list \<Rightarrow> u32" where
  "key_hash mem = j_hash mem (word_of_nat (length mem))"

definition chain_map :: "collchain list \<Rightarrow> byte list \<Rightarrow> u64 option" where
  "chain_map chain = map_of (map (\<lambda>c. (cc_mem c, cc_payload c)) chain)"

definition jmap :: "u32 \<Rightarrow> jtable \<Rightarrow> byte list \<Rightarrow> u64 option" where
  "jmap hashmask base mem =
     (case base of None \<Rightarrow> None | Some ar \<Rightarrow> chain_map (ar ! unat (key_hash mem AND hashmask)) mem)"

definition chain_ok :: "u32 \<Rightarrow> nat \<Rightarrow> collchain list \<Rightarrow> bool" where
  "chain_ok hashmask h chain \<longleftrightarrow> distinct (map cc_mem chain) \<and>
     (\<forall>c \<in> set chain. cc_fullhash c = key_hash (cc_mem c) \<and> cc_length c = word_of_nat (length (cc_mem c)) \<and>
        unat (key_hash (cc_mem c) AND hashmask) = h)"

definition jtable_wf :: "u32 \<Rightarrow> jtable \<Rightarrow> bool" where
  "jtable_wf hashmask base \<longleftrightarrow>
     (case base of
        None \<Rightarrow> True
      | Some ar \<Rightarrow> length ar = unat hashmask + 1 \<and> (\<forall>h < length ar. chain_ok hashmask h (ar ! h)))"

lemma jmap_None [simp]: "jmap hashmask None = Map.empty"
  by (rule ext) (simp add: jmap_def)

lemma chain_index: "unat (hf AND hashmask) < unat (hashmask :: u32) + 1"
  using word_and_le1 [of hf hashmask] by (simp add: word_le_nat_alt less_Suc_eq_le)

lemma chain_take_None: "chain_take P chain = None \<longleftrightarrow> (\<forall>c \<in> set chain. \<not> P c)"
  by (induction chain) auto

lemma chain_take_Some:
  "chain_take P chain = Some (hit, rest) \<Longrightarrow>
     P hit \<and> set chain = insert hit (set rest) \<and> (\<exists>pre post. chain = pre @ hit # post \<and> rest = pre @ post)"
proof (induction chain arbitrary: rest)
  case (Cons c chain)
  show ?case
  proof (cases "P c")
    case True
    with Cons.prems have "hit = c" "rest = chain"
      by simp_all
    with True show ?thesis
      by (intro conjI exI [of _ "[]"] exI [of _ chain]) auto
  next
    case False
    with Cons.prems obtain rest1 where r: "chain_take P chain = Some (hit, rest1)" "rest = c # rest1"
      by auto
    obtain pre post where pp: "chain = pre @ hit # post" "rest1 = pre @ post" and "P hit"
      using Cons.IH [OF r(1)] by blast
    then show ?thesis
      by (intro conjI exI [of _ "c # pre"] exI [of _ post]) (auto simp: r(2))
  qed
qed simp

text \<open>The chain after \<open>JenkinsIns\<close> and an access through the result.\<close>

lemma chain_map_Cons: "chain_map (c # chain) = (chain_map chain)(cc_mem c \<mapsto> cc_payload c)"
  by (simp add: chain_map_def)

lemma chain_map_move:
  "distinct (map cc_mem (pre @ hit # post)) \<Longrightarrow> chain_map (hit # pre @ post) = chain_map (pre @ hit # post)"
proof (induction pre)
  case (Cons a pre)
  then have ne: "cc_mem a \<noteq> cc_mem hit"
    by auto
  have "chain_map (hit # a # pre @ post) =
      (chain_map (hit # pre @ post))(cc_mem a \<mapsto> cc_payload a)"
    using ne by (simp add: chain_map_Cons fun_upd_twist)
  also have "chain_map (hit # pre @ post) = chain_map (pre @ hit # post)"
    using Cons by simp
  finally show ?case
    by (simp add: chain_map_Cons)
qed simp

lemma chain_map_None: "chain_map chain k = None \<longleftrightarrow> k \<notin> set (map cc_mem chain)"
  by (simp add: chain_map_def map_of_eq_None_iff image_image)

text \<open>
  One chain: \<open>ins_chain\<close> is the new content of the chain of the key, with the entry in
  front. It holds the old map with the key bound.
\<close>

definition ins_chain :: "byte list \<Rightarrow> collchain list \<Rightarrow> collchain list" where
  "ins_chain mem chain =
     (let len = word_of_nat (length mem); hf = j_hash mem len in
      case chain_take (\<lambda>c. cc_fullhash c = hf \<and> cc_length c = len \<and> cc_mem c = mem) chain of
        Some (hit, rest) \<Rightarrow> hit # rest
      | None \<Rightarrow> \<lparr>cc_payload = 0, cc_fullhash = hf, cc_length = len, cc_mem = mem\<rparr> # chain)"

lemma JenkinsIns_chain:
  "JenkinsIns base mem hashmask =
     (let ar = (case base of None \<Rightarrow> replicate (unat hashmask + 1) [] | Some ar \<Rightarrow> ar);
          h = unat (key_hash mem AND hashmask)
      in (Some (ar[h := ins_chain mem (ar ! h)]), h))"
  by (simp add: JenkinsIns_def ins_chain_def key_hash_def Let_def split: option.split)

lemma ins_chain_props:
  assumes ok: "chain_ok hashmask h chain" and h: "h = unat (key_hash mem AND hashmask)"
  shows "\<exists>c rest. ins_chain mem chain = c # rest \<and> cc_mem c = mem \<and>
    cc_payload c = (case chain_map chain mem of Some p \<Rightarrow> p | None \<Rightarrow> 0) \<and>
    (\<forall>p. chain_ok hashmask h (c\<lparr>cc_payload := p\<rparr> # rest) \<and>
         chain_map (c\<lparr>cc_payload := p\<rparr> # rest) = (chain_map chain)(mem \<mapsto> p))"
proof -
  let ?P = "\<lambda>c. cc_fullhash c = key_hash mem \<and> cc_length c = word_of_nat (length mem) \<and> cc_mem c = mem"
  have keys: "c \<in> set chain \<Longrightarrow> cc_mem c = mem \<Longrightarrow> ?P c" for c
    using ok by (auto simp: chain_ok_def)
  show ?thesis
  proof (cases "chain_take ?P chain")
    case None
    then have new: "mem \<notin> set (map cc_mem chain)"
      using keys by (auto simp: chain_take_None)
    have "ins_chain mem chain =
        \<lparr>cc_payload = 0, cc_fullhash = key_hash mem, cc_length = word_of_nat (length mem), cc_mem = mem\<rparr> # chain"
      using None by (simp add: ins_chain_def key_hash_def Let_def)
    moreover have "chain_map chain mem = None"
      using new by (simp only: chain_map_None) simp
    ultimately show ?thesis
      using new ok h by (auto simp: chain_map_Cons chain_ok_def)
  next
    case (Some hr)
    obtain hit rest where hr: "hr = (hit, rest)"
      by (cases hr)
    obtain pre post where split: "chain = pre @ hit # post" "rest = pre @ post" and hit: "?P hit"
      using chain_take_Some Some hr by blast
    have ins: "ins_chain mem chain = hit # rest"
      using Some hr by (simp add: ins_chain_def key_hash_def Let_def)
    have d: "distinct (map cc_mem (pre @ hit # post))"
      using ok by (simp add: chain_ok_def split)
    have same: "chain_map chain = chain_map (hit # rest)"
      unfolding split by (rule chain_map_move [OF d, symmetric])
    have "chain_ok hashmask h (hit\<lparr>cc_payload := p\<rparr> # rest)" for p
      using ok by (auto simp: chain_ok_def split)
    moreover have "chain_map (hit\<lparr>cc_payload := p\<rparr> # rest) = (chain_map chain)(mem \<mapsto> p)" for p
      unfolding same using hit by (simp add: chain_map_Cons)
    moreover have "cc_payload hit = (case chain_map chain mem of Some p \<Rightarrow> p | None \<Rightarrow> 0)"
      unfolding same using hit by (simp add: chain_map_Cons)
    ultimately show ?thesis
      using ins hit by blast
  qed
qed

section \<open>The interface\<close>

text \<open>
  What the writer relies on: entering a key delivers a reference to its value, 0 if it is
  new, and a store through the reference changes the value of that key only. A writer that
  stores the next number under every new key numbers the keys.
\<close>

locale byte_dictionary =
  fixes look :: "'t \<Rightarrow> byte list \<Rightarrow> u64 option"
    and enter :: "'t \<Rightarrow> byte list \<Rightarrow> 't \<times> 'r"
    and read :: "'t \<Rightarrow> 'r \<Rightarrow> u64"
    and store :: "u64 \<Rightarrow> 't \<Rightarrow> 'r \<Rightarrow> 't"
    and wf :: "'t \<Rightarrow> bool"
  assumes enter_wf: "wf t \<Longrightarrow> wf (fst (enter t k))"
    and enter_look: "wf t \<Longrightarrow> look (fst (enter t k)) = (look t)(k \<mapsto> (case look t k of Some p \<Rightarrow> p | None \<Rightarrow> 0))"
    and enter_read: "wf t \<Longrightarrow> read (fst (enter t k)) (snd (enter t k)) = (case look t k of Some p \<Rightarrow> p | None \<Rightarrow> 0)"
    and store_wf: "wf t \<Longrightarrow> wf (store p (fst (enter t k)) (snd (enter t k)))"
    and store_look: "wf t \<Longrightarrow> look (store p (fst (enter t k)) (snd (enter t k))) = (look t)(k \<mapsto> p)"
begin

definition numbered :: "'t \<Rightarrow> u64 \<Rightarrow> bool" where
  "numbered t n \<longleftrightarrow> wf t \<and> inj_on (look t) (dom (look t)) \<and> (\<forall>k p. look t k = Some p \<longrightarrow> 0 < p \<and> p \<le> n)"

lemma numbered_old:
  assumes "numbered t n" "look t k = Some p"
  shows "read (fst (enter t k)) (snd (enter t k)) = p" "p \<noteq> 0"
    "numbered (fst (enter t k)) n" "look (fst (enter t k)) = look t"
proof -
  have wf: "wf t"
    using assms(1) by (simp add: numbered_def)
  show "read (fst (enter t k)) (snd (enter t k)) = p"
    by (simp add: enter_read [OF wf] assms(2))
  show "p \<noteq> 0"
    using assms by (auto simp: numbered_def)
  show l: "look (fst (enter t k)) = look t"
    by (simp add: enter_look [OF wf] assms(2) fun_upd_idem)
  show "numbered (fst (enter t k)) n"
    using assms(1) enter_wf [OF wf] by (simp add: numbered_def l)
qed

lemma numbered_new:
  assumes "numbered t n" "look t k = None" "n < - 1"
  shows "read (fst (enter t k)) (snd (enter t k)) = 0"
    "numbered (store (n + 1) (fst (enter t k)) (snd (enter t k))) (n + 1)"
    "look (store (n + 1) (fst (enter t k)) (snd (enter t k))) = (look t)(k \<mapsto> n + 1)"
proof -
  have wf: "wf t"
    using assms(1) by (simp add: numbered_def)
  show "read (fst (enter t k)) (snd (enter t k)) = 0"
    by (simp add: enter_read [OF wf] assms(2))
  show l: "look (store (n + 1) (fst (enter t k)) (snd (enter t k))) = (look t)(k \<mapsto> n + 1)"
    by (rule store_look [OF wf])
  have less: "n < n + 1"
  proof -
    have "1 + n \<noteq> 0"
      using assms(3) by (metis add.commute eq_neg_iff_add_eq_0 order_less_irrefl)
    then show ?thesis
      using unatSuc [of n] by (simp add: word_less_nat_alt add.commute)
  qed
  have bound: "0 < p \<and> p < n + 1" if "look t q = Some p" for q p
  proof -
    have "0 < p" "p \<le> n"
      using assms(1) that by (auto simp: numbered_def)
    with less show ?thesis
      by (auto intro: order.strict_trans1)
  qed
  have "inj_on ((look t)(k \<mapsto> n + 1)) (dom ((look t)(k \<mapsto> n + 1)))"
    using assms(1) bound by (auto simp: numbered_def inj_on_def dom_def) (metis less_irrefl option.inject)+
  moreover have "((look t)(k \<mapsto> n + 1)) q = Some p \<Longrightarrow> 0 < p \<and> p \<le> n + 1" for q p
    using bound less by (auto split: if_splits simp: word_gt_0 intro: less_imp_le)
  ultimately show "numbered (store (n + 1) (fst (enter t k)) (snd (enter t k))) (n + 1)"
    using store_wf [OF wf] unfolding numbered_def l by blast
qed

end

text \<open>The whole table: only the chain of the key changes.\<close>

lemma jtable_upd:
  assumes wf: "jtable_wf hashmask (Some ar)" and h: "h = unat (key_hash mem AND hashmask)"
    and ok: "chain_ok hashmask h chain" and map: "chain_map chain = (chain_map (ar ! h))(mem \<mapsto> p)"
  shows "jtable_wf hashmask (Some (ar[h := chain])) \<and>
    jmap hashmask (Some (ar[h := chain])) = (jmap hashmask (Some ar))(mem \<mapsto> p)"
proof
  have len: "length ar = unat hashmask + 1"
    using wf by (simp add: jtable_wf_def)
  then have h_less: "h < length ar"
    unfolding h using chain_index by simp
  show "jtable_wf hashmask (Some (ar[h := chain]))"
    using wf ok by (auto simp: jtable_wf_def) (metis nth_list_update_eq nth_list_update_neq)
  show "jmap hashmask (Some (ar[h := chain])) = (jmap hashmask (Some ar))(mem \<mapsto> p)"
  proof
    fix k
    have other: "chain_map (ar ! h) k = chain_map chain k" if "k \<noteq> mem"
      using that by (simp add: map)
    show "jmap hashmask (Some (ar[h := chain])) k = ((jmap hashmask (Some ar))(mem \<mapsto> p)) k"
      using h_less other map h by (auto simp: jmap_def nth_list_update)
  qed
qed

lemma JenkinsIns_props:
  assumes wf: "jtable_wf hashmask base"
  shows "\<exists>ar c rest h. JenkinsIns base mem hashmask = (Some ar, h) \<and> h < length ar \<and> ar ! h = c # rest \<and>
    cc_payload c = (case jmap hashmask base mem of Some p \<Rightarrow> p | None \<Rightarrow> 0) \<and>
    (\<forall>p. jtable_wf hashmask (Some (ar[h := c\<lparr>cc_payload := p\<rparr> # rest])) \<and>
         jmap hashmask (Some (ar[h := c\<lparr>cc_payload := p\<rparr> # rest])) = (jmap hashmask base)(mem \<mapsto> p))"
proof -
  define ar where "ar = (case base of None \<Rightarrow> replicate (unat hashmask + 1) [] | Some ar \<Rightarrow> ar)"
  define h where "h = unat (key_hash mem AND hashmask)"
  have wf_ar: "jtable_wf hashmask (Some ar)"
    using wf by (auto simp: jtable_wf_def ar_def chain_ok_def split: option.splits simp del: replicate_Suc)
  have "jmap hashmask base k = jmap hashmask (Some ar) k" for k
    using chain_index [of "key_hash k" hashmask]
    by (simp add: jmap_def ar_def chain_map_def split: option.split del: replicate_Suc)
  then have same: "jmap hashmask base = jmap hashmask (Some ar)"
    by blast
  have h_less: "h < length ar"
    using wf_ar chain_index by (simp add: jtable_wf_def h_def)
  then have ok: "chain_ok hashmask h (ar ! h)"
    using wf_ar by (simp add: jtable_wf_def)
  obtain c rest where ins: "ins_chain mem (ar ! h) = c # rest"
    and c: "cc_payload c = (case chain_map (ar ! h) mem of Some p \<Rightarrow> p | None \<Rightarrow> 0)"
    and upd: "\<forall>p. chain_ok hashmask h (c\<lparr>cc_payload := p\<rparr> # rest) \<and>
         chain_map (c\<lparr>cc_payload := p\<rparr> # rest) = (chain_map (ar ! h))(mem \<mapsto> p)"
    using ins_chain_props [OF ok h_def] by blast
  have "JenkinsIns base mem hashmask = (Some (ar[h := c # rest]), h)"
    by (simp add: JenkinsIns_chain Let_def ar_def [symmetric] h_def [symmetric] ins)
  moreover have "jmap hashmask base mem = chain_map (ar ! h) mem"
    by (simp add: same jmap_def h_def)
  moreover have "jtable_wf hashmask (Some (ar[h := c\<lparr>cc_payload := p\<rparr> # rest])) \<and>
      jmap hashmask (Some (ar[h := c\<lparr>cc_payload := p\<rparr> # rest])) = (jmap hashmask base)(mem \<mapsto> p)" for p
    unfolding same using upd by (intro jtable_upd [OF wf_ar h_def]) auto
  ultimately show ?thesis
    using h_less c
    by (intro exI [of _ "ar[h := c # rest]"] exI [of _ c] exI [of _ rest] exI [of _ h]) simp
qed

interpretation jenkins: byte_dictionary "jmap hashmask" "\<lambda>base mem. JenkinsIns base mem hashmask"
  payload set_payload "jtable_wf hashmask" for hashmask
proof
  fix base mem p
  assume wf: "jtable_wf hashmask base"
  obtain ar c rest h where ins: "JenkinsIns base mem hashmask = (Some ar, h)" "h < length ar" "ar ! h = c # rest"
    and c: "cc_payload c = (case jmap hashmask base mem of Some p \<Rightarrow> p | None \<Rightarrow> 0)"
    and upd: "\<And>p. jtable_wf hashmask (Some (ar[h := c\<lparr>cc_payload := p\<rparr> # rest]))"
      "\<And>p. jmap hashmask (Some (ar[h := c\<lparr>cc_payload := p\<rparr> # rest])) = (jmap hashmask base)(mem \<mapsto> p)"
    using JenkinsIns_props [OF wf] by blast
  have id: "ar[h := c\<lparr>cc_payload := cc_payload c\<rparr> # rest] = ar"
    using ins(2,3) by (simp add: list_update_same_conv)
  have set: "set_payload p (Some ar) h = Some (ar[h := c\<lparr>cc_payload := p\<rparr> # rest])"
    using ins(3) by (simp add: set_payload_def)
  show "jtable_wf hashmask (fst (JenkinsIns base mem hashmask))"
    using upd(1) [of "cc_payload c"] by (simp only: id ins fst_conv)
  show "jmap hashmask (fst (JenkinsIns base mem hashmask)) =
      (jmap hashmask base)(mem \<mapsto> (case jmap hashmask base mem of Some p \<Rightarrow> p | None \<Rightarrow> 0))"
    using upd(2) [of "cc_payload c"] by (simp only: id ins fst_conv c [symmetric])
  show "payload (fst (JenkinsIns base mem hashmask)) (snd (JenkinsIns base mem hashmask)) =
      (case jmap hashmask base mem of Some p \<Rightarrow> p | None \<Rightarrow> 0)"
    using ins c by (simp add: payload_def)
  show "jtable_wf hashmask (set_payload p (fst (JenkinsIns base mem hashmask)) (snd (JenkinsIns base mem hashmask)))"
    using upd(1) [of p] by (simp only: ins fst_conv snd_conv set)
  show "jmap hashmask (set_payload p (fst (JenkinsIns base mem hashmask)) (snd (JenkinsIns base mem hashmask))) =
      (jmap hashmask base)(mem \<mapsto> p)"
    using upd(2) [of p] by (simp only: ins fst_conv snd_conv set)
qed

text \<open>
  C36: the hash table refines a finite map: looking a key up delivers the value stored under
  it, 0 when it is new, and storing through the result changes the value of that key and of
  no other, whatever the hash function makes of the keys.
\<close>

theorem JenkinsIns_refines_map:
  assumes "jtable_wf hashmask base" "JenkinsIns base mem hashmask = (base1, h)"
  shows "payload base1 h = (case jmap hashmask base mem of Some p \<Rightarrow> p | None \<Rightarrow> 0) \<and>
    jtable_wf hashmask (set_payload p base1 h) \<and>
    jmap hashmask (set_payload p base1 h) = (jmap hashmask base)(mem \<mapsto> p) \<and>
    jmap hashmask (JenkinsFree base1) = Map.empty"
  using jenkins.enter_read [OF assms(1), of mem] jenkins.store_wf [OF assms(1), of p mem]
    jenkins.store_look [OF assms(1), of p mem]
  by (auto simp: assms(2) JenkinsFree_def jmap_def)

theorem JenkinsIns_refines_map_witness:
  "jmap 1 (set_payload 7 (fst (JenkinsIns None [0x61] 1)) (snd (JenkinsIns None [0x61] 1))) = [[0x61] \<mapsto> 7]"
proof -
  have "jtable_wf 1 None"
    by (simp add: jtable_wf_def)
  then show ?thesis
    using JenkinsIns_refines_map [of 1 None "[0x61]" "fst (JenkinsIns None [0x61] 1)" "snd (JenkinsIns None [0x61] 1)" 7]
    by (simp add: jmap_def)
qed

end
