(* ===== verification/Fst_Writer.thy ===== *)
theory Fst_Writer
  imports Fst_Varint Fst_Escape Fst_Jenkins
begin

text \<open>
  The context of the FST writer (\<open>src/fst/fstapi.c\<close>, \<open>struct fstWriterContext\<close>) and its
  operations on the header and on the hierarchy: scopes, attributes, variables, source
  stems, enumeration tables. The functions are modelled for a context that is not \<open>NULL\<close>;
  a parameter that may be \<open>NULL\<close> is an option.

  Files: the main file has a position (\<open>cfile\<close>); the hierarchy, geometry and time files are
  only appended to. \<open>valpos\<close> and \<open>curval\<close> are the contents of files that are mapped into
  memory while \<open>valpos_mem\<close> is not \<open>NULL\<close> (\<open>valpos_mapped\<close>); mapping does not change them.
\<close>

section \<open>The context\<close>

record cfile =
  f_data :: "byte list"
  f_pos :: nat

definition f_seek :: "nat \<Rightarrow> cfile \<Rightarrow> cfile" where
  "f_seek n f = f\<lparr>f_pos := n\<rparr>"

text \<open>A write behind the end fills the gap with zeros.\<close>

definition f_write :: "byte list \<Rightarrow> cfile \<Rightarrow> cfile" where
  "f_write bs f =
     (let d = f_data f @ replicate (f_pos f - length (f_data f)) 0
      in \<lparr>f_data = take (f_pos f) d @ bs @ drop (f_pos f + length bs) d, f_pos = f_pos f + length bs\<rparr>)"

text \<open>The four numbers of a signal: offset and length of its value, offset of its last value
  change in \<open>vchg_mem\<close>, and the index of the time of that change.\<close>

record valpos =
  vp_offs :: u32
  vp_len :: u32
  vp_chain :: u32
  vp_tidx :: u32

record fstWriterContext =
  xc_handle :: cfile
  hier_handle :: "byte list"
  hier_file_len :: nat
  geom_handle :: "byte list"
  valpos_mem :: "valpos list"
  valpos_mapped :: bool
  curval_mem :: "byte list"
  tchn_handle :: "byte list"
  vchg_mem :: "byte list"
  vchg_siz :: u32
  vchg_alloc_siz :: u32
  xc_maxhandle :: u32
  numsigs :: u32
  maxvalpos :: u32
  numscopes :: u32
  secnum :: u32
  vc_emitted :: bool
  is_initial_time :: bool
  tchn_idx :: u32
  tchn_cnt :: u32
  curtime :: u64
  firsttime :: u64
  timezero :: u64
  filetype :: byte
  fst_break_size :: u64
  fst_break_add_size :: u64
  fst_orig_break_size :: u64
  fst_orig_break_add_size :: u64
  fst_huge_break_size :: u64
  next_huge_break :: u32
  path_array :: jtable
  path_array_count :: u32
  max_enumhandle :: u32
  fastpack :: bool
  fourpack :: bool
  compress_hier :: bool
  repack_on_close :: bool
  parallel_enabled :: bool
  parallel_was_enabled :: bool
  dump_size_limit :: u64
  size_limit_locked :: bool
  section_start :: nat
  section_header_only :: bool
  section_header_truncpos :: nat
  skip_writing_section_hdr :: bool
  flush_context_pending :: bool
  already_in_flush :: bool
  fseek_failed :: bool
  blackouts :: "(u64 \<times> bool) list"

section \<open>The header\<close>

abbreviation FST_HDR_OFFS_START_TIME :: nat where "FST_HDR_OFFS_START_TIME \<equiv> 9"
abbreviation FST_HDR_OFFS_NUM_SCOPES :: nat where "FST_HDR_OFFS_NUM_SCOPES \<equiv> 41"
abbreviation FST_HDR_OFFS_TIMESCALE :: nat where "FST_HDR_OFFS_TIMESCALE \<equiv> 73"
abbreviation FST_HDR_OFFS_SIM_VERSION :: nat where "FST_HDR_OFFS_SIM_VERSION \<equiv> 74"
abbreviation FST_HDR_OFFS_DATE :: nat where "FST_HDR_OFFS_DATE \<equiv> 202"
abbreviation FST_HDR_OFFS_FILETYPE :: nat where "FST_HDR_OFFS_FILETYPE \<equiv> 321"
abbreviation FST_HDR_OFFS_TIMEZERO :: nat where "FST_HDR_OFFS_TIMEZERO \<equiv> 322"
abbreviation FST_HDR_SIM_VERSION_SIZE :: nat where "FST_HDR_SIM_VERSION_SIZE \<equiv> 128"
abbreviation FST_HDR_DATE_SIZE :: nat where "FST_HDR_DATE_SIZE \<equiv> 119"

text \<open>
  A seek to a negative position fails and is recorded. (\<open>fseeko\<close> succeeds otherwise: the
  output is a regular file.)
\<close>

definition fstWriterFseeko :: "int \<Rightarrow> fstWriterContext \<Rightarrow> fstWriterContext" where
  "fstWriterFseeko offset xc =
     (if offset < 0 then xc\<lparr>fseek_failed := True\<rparr>
      else xc\<lparr>xc_handle := f_seek (nat offset) (xc_handle xc)\<rparr>)"

definition put :: "byte list \<Rightarrow> fstWriterContext \<Rightarrow> fstWriterContext" where
  "put bs xc = xc\<lparr>xc_handle := f_write bs (xc_handle xc)\<rparr>"

definition put64 :: "u64 \<Rightarrow> fstWriterContext \<Rightarrow> fstWriterContext" where
  "put64 v xc = put (be_bytes 8 v) xc"

text \<open>The setters write at a fixed offset and go back to where they were.\<close>

definition at_offset :: "nat \<Rightarrow> (fstWriterContext \<Rightarrow> fstWriterContext) \<Rightarrow> fstWriterContext \<Rightarrow> fstWriterContext" where
  "at_offset off f xc =
     (let fpos = f_pos (xc_handle xc)
      in fstWriterFseeko (int fpos) (f (fstWriterFseeko (int off) xc)))"

text \<open>\<open>memset\<close> and \<open>memcpy\<close> of a string into a field: cut off or filled with zeros.\<close>

definition field :: "nat \<Rightarrow> byte list \<Rightarrow> byte list" where
  "field n s = take n s @ replicate (n - length s) 0"

text \<open>The eight bytes of the double 2.7182818284590452354 on a little-endian host.\<close>

definition FST_DOUBLE_ENDTEST :: "byte list" where
  "FST_DOUBLE_ENDTEST = [0x69, 0x57, 0x14, 0x8b, 0x0a, 0xbf, 0x05, 0x40]"

text \<open>\<open>date\<close> is the text of \<open>asctime(localtime(..))\<close>.\<close>

definition fstWriterEmitHdrBytes :: "byte list \<Rightarrow> fstWriterContext \<Rightarrow> fstWriterContext" where
  "fstWriterEmitHdrBytes date xc =
     (let xc = put [0] xc;
          xc = put64 329 xc;
          xc = put64 0 xc;
          xc = put64 0 xc;
          xc = put FST_DOUBLE_ENDTEST xc;
          xc = put64 (fst_break_size xc) xc;
          xc = put64 0 xc;
          xc = put64 0 xc;
          xc = put64 0 xc;
          xc = put64 0 xc;
          xc = put [ucast ((- 9 :: u32) AND 255)] xc;
          xc = put (field FST_HDR_SIM_VERSION_SIZE (lit ''fstWriter'')) xc;
          xc = put (field FST_HDR_DATE_SIZE date) xc;
          xc = put [filetype xc] xc
      in put64 (timezero xc) xc)"

definition fstWriterSetDate :: "byte list \<Rightarrow> fstWriterContext \<Rightarrow> fstWriterContext" where
  "fstWriterSetDate dat = at_offset FST_HDR_OFFS_DATE (put (field FST_HDR_DATE_SIZE dat))"

definition fstWriterSetVersion :: "byte list option \<Rightarrow> fstWriterContext \<Rightarrow> fstWriterContext" where
  "fstWriterSetVersion vers xc =
     (case vers of
        None \<Rightarrow> xc
      | Some v \<Rightarrow> at_offset FST_HDR_OFFS_SIM_VERSION (put (field FST_HDR_SIM_VERSION_SIZE v)) xc)"

definition fstWriterSetFileType :: "u32 \<Rightarrow> fstWriterContext \<Rightarrow> fstWriterContext" where
  "fstWriterSetFileType ft xc =
     (if ft \<le> 2 then
        (let xc = xc\<lparr>filetype := ucast ft\<rparr>
         in at_offset FST_HDR_OFFS_FILETYPE (put [filetype xc]) xc)
      else xc)"

definition fstWriterSetTimescale :: "u32 \<Rightarrow> fstWriterContext \<Rightarrow> fstWriterContext" where
  "fstWriterSetTimescale ts = at_offset FST_HDR_OFFS_TIMESCALE (put [ucast (ts AND 255)])"

text \<open>The exponent of the first unit letter in the text, -9 if there is none.\<close>

fun timescale_unit :: "byte list \<Rightarrow> int" where
  "timescale_unit [] = -9"
| "timescale_unit (c # s) =
     (if c = 0x6d then -3 else if c = 0x75 then -6 else if c = 0x6e then -9
      else if c = 0x70 then -12 else if c = 0x66 then -15 else if c = 0x61 then -18
      else if c = 0x7a then -21 else if c = 0x73 then 0 else timescale_unit s)"

definition fstWriterSetTimescaleFromString :: "byte list option \<Rightarrow> fstWriterContext \<Rightarrow> fstWriterContext" where
  "fstWriterSetTimescaleFromString s xc =
     (case s of
        None \<Rightarrow> xc
      | Some t \<Rightarrow>
          (let tv = atoi t; seconds_exp = timescale_unit t;
               seconds_exp = (if tv = 10 then seconds_exp + 1 else if tv = 100 then seconds_exp + 2 else seconds_exp)
           in fstWriterSetTimescale (word_of_int seconds_exp) xc))"

definition fstWriterSetTimezero :: "u64 \<Rightarrow> fstWriterContext \<Rightarrow> fstWriterContext" where
  "fstWriterSetTimezero tim xc = at_offset FST_HDR_OFFS_TIMEZERO (put64 tim) (xc\<lparr>timezero := tim\<rparr>)"

text \<open>The intermediate header and the mappings; nothing is mapped when there is no signal.\<close>

definition fstWriterCreateMmaps :: "fstWriterContext \<Rightarrow> fstWriterContext" where
  "fstWriterCreateMmaps xc =
     (let curpos = f_pos (xc_handle xc);
          xc = fstWriterFseeko (int FST_HDR_OFFS_START_TIME) xc;
          xc = put64 (firsttime xc) xc;
          xc = put64 (curtime xc) xc;
          xc = fstWriterFseeko (int FST_HDR_OFFS_NUM_SCOPES) xc;
          xc = put64 (ucast (numscopes xc)) xc;
          xc = put64 (ucast (numsigs xc)) xc;
          xc = put64 (ucast (xc_maxhandle xc)) xc;
          xc = put64 (ucast (secnum xc)) xc;
          xc = fstWriterFseeko (int curpos) xc
      in xc\<lparr>valpos_mapped := valpos_mapped xc \<or> xc_maxhandle xc \<noteq> 0\<rparr>)"

definition fstDestroyMmaps :: "fstWriterContext \<Rightarrow> fstWriterContext" where
  "fstDestroyMmaps xc = xc\<lparr>valpos_mapped := False\<rparr>"

section \<open>Modes\<close>

definition fstWriterSetPackType :: "u32 \<Rightarrow> fstWriterContext \<Rightarrow> fstWriterContext" where
  "fstWriterSetPackType typ xc = xc\<lparr>fastpack := typ \<noteq> 0, fourpack := typ = 2\<rparr>"

definition fstWriterSetRepackOnClose :: "u32 \<Rightarrow> fstWriterContext \<Rightarrow> fstWriterContext" where
  "fstWriterSetRepackOnClose enable xc = xc\<lparr>repack_on_close := enable \<noteq> 0\<rparr>"

text \<open>Built without threads, enabling the parallel mode ends the program with status 255.\<close>

definition fstWriterSetParallelMode :: "u32 \<Rightarrow> fstWriterContext \<Rightarrow> int + fstWriterContext" where
  "fstWriterSetParallelMode enable xc =
     (let xc = xc\<lparr>parallel_was_enabled := parallel_was_enabled xc \<or> parallel_enabled xc, parallel_enabled := enable \<noteq> 0\<rparr>
      in if parallel_enabled xc then Inl 255 else Inr xc)"

definition fstWriterSetDumpSizeLimit :: "u64 \<Rightarrow> fstWriterContext \<Rightarrow> fstWriterContext" where
  "fstWriterSetDumpSizeLimit numbytes xc = xc\<lparr>dump_size_limit := numbytes\<rparr>"

definition fstWriterGetDumpSizeLimitReached :: "fstWriterContext \<Rightarrow> bool" where
  "fstWriterGetDumpSizeLimitReached xc = size_limit_locked xc"

definition fstWriterGetFseekFailed :: "fstWriterContext \<Rightarrow> bool" where
  "fstWriterGetFseekFailed xc = fseek_failed xc"

definition fstWriterEmitDumpActive :: "u32 \<Rightarrow> fstWriterContext \<Rightarrow> fstWriterContext" where
  "fstWriterEmitDumpActive enable xc = xc\<lparr>blackouts := blackouts xc @ [(curtime xc, enable \<noteq> 0)]\<rparr>"

section \<open>The hierarchy\<close>

text \<open>\<open>fputc\<close>, \<open>fprintf\<close> and \<open>fstFwrite\<close> on the hierarchy file append; \<open>counted n\<close> adds to
  \<open>hier_file_len\<close>.\<close>

definition hier_put :: "byte list \<Rightarrow> fstWriterContext \<Rightarrow> fstWriterContext" where
  "hier_put bs xc = xc\<lparr>hier_handle := hier_handle xc @ bs\<rparr>"

definition counted :: "nat \<Rightarrow> fstWriterContext \<Rightarrow> fstWriterContext" where
  "counted n xc = xc\<lparr>hier_file_len := hier_file_len xc + n\<rparr>"

definition hier_varint :: "u64 \<Rightarrow> fstWriterContext \<Rightarrow> fstWriterContext" where
  "hier_varint v xc =
     (let (n, f) = fstWriterVarint (hier_handle xc) v in counted n (xc\<lparr>hier_handle := f\<rparr>))"

definition opt_text :: "byte list option \<Rightarrow> byte list" where
  "opt_text s = (case s of None \<Rightarrow> [] | Some t \<Rightarrow> t)"

definition fstWriterSetScope ::
    "u32 \<Rightarrow> byte list option \<Rightarrow> byte list option \<Rightarrow> fstWriterContext \<Rightarrow> fstWriterContext" where
  "fstWriterSetScope scopetype scopename scopecomp xc =
     (let xc = hier_put [254] xc;
          scopetype = (if scopetype > 21 then 0 else scopetype);
          xc = hier_put [ucast scopetype] xc;
          xc = hier_put (opt_text scopename @ [0] @ opt_text scopecomp @ [0]) xc;
          xc = (case scopename of None \<Rightarrow> xc | Some s \<Rightarrow> counted (length s) xc);
          xc = (case scopecomp of None \<Rightarrow> xc | Some s \<Rightarrow> counted (length s) xc);
          xc = counted 4 xc
      in xc\<lparr>numscopes := numscopes xc + 1\<rparr>)"

definition fstWriterSetUpscope :: "fstWriterContext \<Rightarrow> fstWriterContext" where
  "fstWriterSetUpscope xc = counted 1 (hier_put [255] xc)"

text \<open>The subtype is an \<open>int\<close>; the ranges are those of the attribute's enumeration.\<close>

definition attr_types :: "u32 \<Rightarrow> u32 \<Rightarrow> u32 \<times> u32" where
  "attr_types attrtype subtype =
     (let (attrtype, subtype) = (if attrtype > 3 then (0, 8) else (attrtype, subtype));
          subtype =
            (if attrtype = 1 then (if sint subtype < 0 \<or> sint subtype > 3 then 0 else subtype)
             else if attrtype = 2 then (if sint subtype < 0 \<or> sint subtype > 15 then 0 else subtype)
             else if attrtype = 3 then (if sint subtype < 0 \<or> sint subtype > 3 then 0 else subtype)
             else subtype)
      in (attrtype, subtype))"

definition fstWriterSetAttrBegin ::
    "u32 \<Rightarrow> u32 \<Rightarrow> byte list option \<Rightarrow> u64 \<Rightarrow> fstWriterContext \<Rightarrow> fstWriterContext" where
  "fstWriterSetAttrBegin attrtype subtype attrname arg xc =
     (let xc = hier_put [252] xc;
          (attrtype, subtype) = attr_types attrtype subtype;
          xc = hier_put [ucast attrtype] xc;
          xc = hier_put [ucast subtype] xc;
          xc = hier_put (opt_text attrname @ [0]) xc;
          xc = (case attrname of None \<Rightarrow> xc | Some s \<Rightarrow> counted (length s) xc);
          xc = counted 4 xc
      in hier_varint arg xc)"

definition fstWriterSetAttrEnd :: "fstWriterContext \<Rightarrow> fstWriterContext" where
  "fstWriterSetAttrEnd xc = counted 1 (hier_put [253] xc)"

definition fstWriterSetAttrGeneric :: "byte list option \<Rightarrow> u32 \<Rightarrow> u64 \<Rightarrow> fstWriterContext \<Rightarrow> fstWriterContext" where
  "fstWriterSetAttrGeneric comm typ arg xc =
     (case comm of
        None \<Rightarrow> xc
      | Some s \<Rightarrow>
          fstWriterSetAttrBegin 0 typ (Some (map (\<lambda>c. if c = 0x0a \<or> c = 0x0d then 0x20 else c) s)) arg xc)"

text \<open>The first argument becomes the name: its number of seven-bit groups, ended by a NUL.\<close>

definition fstWriterSetAttrDoubleArgGeneric :: "u32 \<Rightarrow> u64 \<Rightarrow> u64 \<Rightarrow> fstWriterContext \<Rightarrow> fstWriterContext" where
  "fstWriterSetAttrDoubleArgGeneric typ arg1 arg2 xc =
     fstWriterSetAttrBegin 0 typ (Some (c_string (varint_bytes arg1 @ (if arg1 \<noteq> 0 then [0] else [])))) arg2 xc"

text \<open>
  A path gets a number the first time it is used, and an attribute that tells it.
  \<open>realpath\<close> is the C library's function, \<open>None\<close> when it fails.
\<close>

definition fstWriterSetSourceStem_2 ::
    "(byte list \<Rightarrow> byte list option) \<Rightarrow> byte list option \<Rightarrow> u32 \<Rightarrow> u32 \<Rightarrow> u32 \<Rightarrow> fstWriterContext \<Rightarrow> fstWriterContext" where
  "fstWriterSetSourceStem_2 realpath path line use_realpath typ xc =
     (case path of
        None \<Rightarrow> xc
      | Some [] \<Rightarrow> xc
      | Some p \<Rightarrow>
          (let (arr, pv) = JenkinsIns (path_array xc) p 0xffff;
               (sidx, xc) =
                 (if payload arr pv \<noteq> 0 then (payload arr pv, xc\<lparr>path_array := arr\<rparr>)
                  else
                    (let xc = xc\<lparr>path_array_count := path_array_count xc + 1\<rparr>;
                         sidx = ucast (path_array_count xc);
                         xc = xc\<lparr>path_array := set_payload sidx arr pv\<rparr>;
                         rp = (if use_realpath \<noteq> 0 then realpath p else None)
                     in (sidx, fstWriterSetAttrGeneric (Some (case rp of Some r \<Rightarrow> r | None \<Rightarrow> p)) 3 sidx xc)))
           in fstWriterSetAttrDoubleArgGeneric typ sidx (ucast line) xc))"

definition fstWriterSetSourceStem where
  "fstWriterSetSourceStem realpath path line use_realpath =
     fstWriterSetSourceStem_2 realpath path line use_realpath 4"

definition fstWriterSetSourceInstantiationStem where
  "fstWriterSetSourceInstantiationStem realpath path line use_realpath =
     fstWriterSetSourceStem_2 realpath path line use_realpath 5"

definition fstWriterSetComment :: "byte list option \<Rightarrow> fstWriterContext \<Rightarrow> fstWriterContext" where
  "fstWriterSetComment comm = fstWriterSetAttrGeneric comm 0 0"

definition fstWriterSetValueList :: "byte list option \<Rightarrow> fstWriterContext \<Rightarrow> fstWriterContext" where
  "fstWriterSetValueList vl = fstWriterSetAttrGeneric vl 6 0"

definition fstWriterSetEnvVar :: "byte list option \<Rightarrow> fstWriterContext \<Rightarrow> fstWriterContext" where
  "fstWriterSetEnvVar envvar = fstWriterSetAttrGeneric envvar 1 0"

text \<open>The result is the handle of the table, 0 if there is none; \<open>None\<close> is an access outside memory.\<close>

definition fstWriterCreateEnumTable ::
    "byte list option \<Rightarrow> u32 \<Rightarrow> u32 \<Rightarrow> byte list list \<Rightarrow> byte list list \<Rightarrow> fstWriterContext \<Rightarrow> (u32 \<times> fstWriterContext) option" where
  "fstWriterCreateEnumTable name elem_count min_valbits literal_arr val_arr xc =
     (case name of
        Some nam \<Rightarrow>
          (if elem_count \<noteq> 0 then
             (case enum_attr_bytes nam elem_count min_valbits literal_arr val_arr of
                None \<Rightarrow> None
              | Some attr_str \<Rightarrow>
                  (let xc = xc\<lparr>max_enumhandle := max_enumhandle xc + 1\<rparr>;
                       enum_handle = max_enumhandle xc
                   in Some (enum_handle, fstWriterSetAttrBegin 0 7 (Some (c_string attr_str)) (ucast enum_handle) xc)))
           else Some (0, xc))
      | None \<Rightarrow> Some (0, xc))"

definition fstWriterEmitEnumTableRef :: "u32 \<Rightarrow> fstWriterContext \<Rightarrow> fstWriterContext" where
  "fstWriterEmitEnumTableRef enum_handle xc =
     (if enum_handle \<noteq> 0 then fstWriterSetAttrBegin 0 7 None (ucast enum_handle) xc else xc)"

section \<open>Variables\<close>

definition is_real_type :: "u32 \<Rightarrow> bool" where
  "is_real_type vt \<longleftrightarrow> vt = 3 \<or> vt = 4 \<or> vt = 20 \<or> vt = 29"

definition var_len :: "u32 \<Rightarrow> u32 \<Rightarrow> u32" where
  "var_len vt len = (if is_real_type vt then 8 else if vt = 21 then 0 else len)"

definition geom_varint :: "u64 \<Rightarrow> fstWriterContext \<Rightarrow> fstWriterContext" where
  "geom_varint v xc = xc\<lparr>geom_handle := snd (fstWriterVarint (geom_handle xc) v)\<rparr>"

text \<open>The bytes of a quiet NaN, the initial value of a real.\<close>

definition nan_bytes :: "byte list" where
  "nan_bytes = [0, 0, 0, 0, 0, 0, 0xf8, 0x7f]"

text \<open>With every million of signals the buffer for value changes grows.\<close>

definition huge_break :: "fstWriterContext \<Rightarrow> fstWriterContext" where
  "huge_break xc =
     (if numsigs xc = next_huge_break xc then
        (if fst_break_size xc < fst_huge_break_size xc then
           (let xc = xc\<lparr>next_huge_break := next_huge_break xc + 1000000,
                  fst_break_size := fst_break_size xc + fst_orig_break_size xc,
                  fst_break_add_size := fst_break_add_size xc + fst_orig_break_add_size xc\<rparr>
            in xc\<lparr>vchg_alloc_siz := ucast (fst_break_size xc + fst_break_add_size xc)\<rparr>)
         else xc)
      else xc)"

definition create_signal :: "bool \<Rightarrow> u32 \<Rightarrow> fstWriterContext \<Rightarrow> fstWriterContext" where
  "create_signal is_real len xc =
     (let xc = geom_varint (if len \<noteq> 0 then if \<not> is_real then ucast len else 0 else 0xFFFFFFFF) xc;
          xc = xc\<lparr>valpos_mem := valpos_mem xc @ [\<lparr>vp_offs = maxvalpos xc, vp_len = len, vp_chain = 0, vp_tidx = 0\<rparr>]\<rparr>;
          xc = xc\<lparr>curval_mem := curval_mem xc @ (if \<not> is_real then replicate (unat len) 0x78 else nan_bytes)\<rparr>
      in xc\<lparr>maxvalpos := maxvalpos xc + len, xc_maxhandle := xc_maxhandle xc + 1\<rparr>)"

definition fstWriterCreateVar ::
    "u32 \<Rightarrow> u32 \<Rightarrow> u32 \<Rightarrow> byte list option \<Rightarrow> u32 \<Rightarrow> fstWriterContext \<Rightarrow> u32 \<times> fstWriterContext" where
  "fstWriterCreateVar vt vd len nam aliasHandle xc =
     (case nam of
        None \<Rightarrow> (0, xc)
      | Some name \<Rightarrow>
          (let xc = (if valpos_mapped xc then fstDestroyMmaps xc else xc);
               xc = hier_put [ucast vt] xc;
               xc = hier_put [ucast vd] xc;
               xc = hier_put name xc;
               xc = hier_put [0] xc;
               xc = counted (length name + 3) xc;
               is_real = is_real_type vt;
               len = var_len vt len;
               xc = hier_varint (ucast len) xc;
               aliasHandle = (if aliasHandle > xc_maxhandle xc then 0 else aliasHandle);
               xc = hier_varint (ucast aliasHandle) xc;
               xc = xc\<lparr>numsigs := numsigs xc + 1\<rparr>;
               xc = huge_break xc
           in if aliasHandle = 0 then
                (let xc = create_signal is_real len xc in (xc_maxhandle xc, xc))
              else (aliasHandle, xc)))"

definition fstWriterCreateVar2 ::
    "u32 \<Rightarrow> u32 \<Rightarrow> u32 \<Rightarrow> byte list option \<Rightarrow> u32 \<Rightarrow> byte list option \<Rightarrow> u32 \<Rightarrow> u32 \<Rightarrow> fstWriterContext \<Rightarrow> u32 \<times> fstWriterContext" where
  "fstWriterCreateVar2 vt vd len nam aliasHandle type svt sdt xc =
     fstWriterCreateVar vt vd len nam aliasHandle
       (fstWriterSetAttrGeneric (Some (opt_text type)) 2 (ucast (push_bit 10 svt OR (sdt AND 1023))) xc)"

section \<open>Creation\<close>

text \<open>
  The sizes of the buffer for value changes; \<open>memtotal\<close> is the number of kilobytes of
  \<open>/proc/meminfo\<close>, if there is one.
\<close>

definition huge_break_size :: "u64 option \<Rightarrow> u64" where
  "huge_break_size memtotal =
     (case memtotal of
        None \<Rightarrow> 0x8000000
      | Some kb \<Rightarrow>
          (let v = kb * 1024 div 8 in
           if v > 0x8000000 then (if v > 0x80000000 then 0x80000000 else v) else 0x8000000))"

definition fstDetermineBreakSize :: "u64 option \<Rightarrow> fstWriterContext \<Rightarrow> fstWriterContext" where
  "fstDetermineBreakSize memtotal xc =
     xc\<lparr>fst_huge_break_size := huge_break_size memtotal,
        fst_break_size := 0x8000000, fst_orig_break_size := 0x8000000,
        fst_break_add_size := 0x400000, fst_orig_break_add_size := 0x400000,
        next_huge_break := 1000000\<rparr>"

definition zero_context :: fstWriterContext where
  "zero_context =
     \<lparr>xc_handle = \<lparr>f_data = [], f_pos = 0\<rparr>, hier_handle = [], hier_file_len = 0, geom_handle = [],
      valpos_mem = [], valpos_mapped = False, curval_mem = [], tchn_handle = [], vchg_mem = [],
      vchg_siz = 0, vchg_alloc_siz = 0, xc_maxhandle = 0, numsigs = 0, maxvalpos = 0, numscopes = 0,
      secnum = 0, vc_emitted = False, is_initial_time = False, tchn_idx = 0, tchn_cnt = 0, curtime = 0,
      firsttime = 0, timezero = 0, filetype = 0, fst_break_size = 0, fst_break_add_size = 0,
      fst_orig_break_size = 0, fst_orig_break_add_size = 0, fst_huge_break_size = 0, next_huge_break = 0,
      path_array = None, path_array_count = 0, max_enumhandle = 0, fastpack = False, fourpack = False,
      compress_hier = False, repack_on_close = False, parallel_enabled = False, parallel_was_enabled = False, dump_size_limit = 0,
      size_limit_locked = False, section_start = 0, section_header_only = False, section_header_truncpos = 0,
      skip_writing_section_hdr = False, flush_context_pending = False, already_in_flush = False,
      fseek_failed = False, blackouts = []\<rparr>"

text \<open>All files could be opened. The second argument goes to a field of one bit.\<close>

definition fstWriterCreate :: "u64 option \<Rightarrow> byte list \<Rightarrow> u32 \<Rightarrow> fstWriterContext" where
  "fstWriterCreate memtotal date use_compressed_hier =
     (let xc = zero_context\<lparr>compress_hier := use_compressed_hier AND 1 \<noteq> 0\<rparr>;
          xc = fstDetermineBreakSize memtotal xc;
          xc = xc\<lparr>vchg_alloc_siz := ucast (fst_break_size xc + fst_break_add_size xc)\<rparr>;
          xc = xc\<lparr>is_initial_time := True\<rparr>
      in fstWriterEmitHdrBytes date xc)"

lemma put_more [simp]:
  "hier_handle (put bs xc) = hier_handle xc" "hier_file_len (put bs xc) = hier_file_len xc"
  "xc_maxhandle (put bs xc) = xc_maxhandle xc" "valpos_mem (put bs xc) = valpos_mem xc"
  "curval_mem (put bs xc) = curval_mem xc" "maxvalpos (put bs xc) = maxvalpos xc"
  "path_array (put bs xc) = path_array xc" "path_array_count (put bs xc) = path_array_count xc"
  by (simp_all add: put_def)

lemma fstWriterCreate_simps [simp]:
  "hier_handle (fstWriterCreate m d c) = []" "hier_file_len (fstWriterCreate m d c) = 0"
  "xc_maxhandle (fstWriterCreate m d c) = 0" "valpos_mem (fstWriterCreate m d c) = []"
  "curval_mem (fstWriterCreate m d c) = []" "maxvalpos (fstWriterCreate m d c) = 0"
  "path_array (fstWriterCreate m d c) = None" "path_array_count (fstWriterCreate m d c) = 0"
  by (simp_all add: fstWriterCreate_def fstWriterEmitHdrBytes_def fstDetermineBreakSize_def
      zero_context_def put64_def Let_def)

section \<open>The layout of the values\<close>

text \<open>
  Every signal has its own range of \<open>curval_mem\<close>, one behind the other, and the ranges fill it.
\<close>

definition total_len :: "valpos list \<Rightarrow> nat" where
  "total_len vs = sum_list (map (\<lambda>v. unat (vp_len v)) vs)"

definition layout_ok :: "fstWriterContext \<Rightarrow> bool" where
  "layout_ok xc \<longleftrightarrow>
     length (valpos_mem xc) = unat (xc_maxhandle xc) \<and>
     length (curval_mem xc) = unat (maxvalpos xc) \<and>
     total_len (valpos_mem xc) = unat (maxvalpos xc) \<and>
     (\<forall>i < length (valpos_mem xc). unat (vp_offs (valpos_mem xc ! i)) = total_len (take i (valpos_mem xc)))"

lemma total_len_snoc [simp]: "total_len (vs @ [v]) = total_len vs + unat (vp_len v)"
  by (simp add: total_len_def)

lemma hier_put_layout [simp]:
  "valpos_mem (hier_put bs xc) = valpos_mem xc" "curval_mem (hier_put bs xc) = curval_mem xc"
  "maxvalpos (hier_put bs xc) = maxvalpos xc" "xc_maxhandle (hier_put bs xc) = xc_maxhandle xc"
  "valpos_mem (counted n xc) = valpos_mem xc" "curval_mem (counted n xc) = curval_mem xc"
  "maxvalpos (counted n xc) = maxvalpos xc" "xc_maxhandle (counted n xc) = xc_maxhandle xc"
  "valpos_mem (hier_varint v xc) = valpos_mem xc" "curval_mem (hier_varint v xc) = curval_mem xc"
  "maxvalpos (hier_varint v xc) = maxvalpos xc" "xc_maxhandle (hier_varint v xc) = xc_maxhandle xc"
  "valpos_mem (huge_break xc) = valpos_mem xc" "curval_mem (huge_break xc) = curval_mem xc"
  "maxvalpos (huge_break xc) = maxvalpos xc" "xc_maxhandle (huge_break xc) = xc_maxhandle xc"
  by (simp_all add: hier_put_def counted_def hier_varint_def huge_break_def fstWriterVarint_def Let_def)

lemma create_signal_layout:
  assumes ok: "layout_ok xc" and room: "unat (maxvalpos xc) + unat len < 2 ^ 32" "xc_maxhandle xc \<noteq> - 1"
    and real: "is_real \<Longrightarrow> len = 8"
  shows "layout_ok (create_signal is_real len xc)"
proof -
  have len: "length (if \<not> is_real then replicate (unat len) 0x78 else nan_bytes) = unat len"
    using real by (simp add: nan_bytes_def)
  have pos: "unat (maxvalpos xc + len) = unat (maxvalpos xc) + unat len"
    using room(1) by (simp add: unat_word_ariths)
  have "1 + xc_maxhandle xc \<noteq> 0"
    using room(2) by (metis add.commute eq_neg_iff_add_eq_0)
  then have max: "unat (xc_maxhandle xc + 1) = Suc (unat (xc_maxhandle xc))"
    by (simp add: unatSuc add.commute)
  show ?thesis
    using ok len unfolding layout_ok_def
    by (auto simp: create_signal_def geom_varint_def Let_def pos max nth_append less_Suc_eq)
qed

lemma create_var_layout:
  assumes "layout_ok xc" "unat (maxvalpos xc) + unat (var_len vt len) < 2 ^ 32" "xc_maxhandle xc \<noteq> - 1"
  shows "layout_ok (snd (fstWriterCreateVar vt vd len nam al xc))"
proof (cases nam)
  case (Some name)
  have real: "is_real_type vt \<Longrightarrow> var_len vt len = 8"
    by (simp add: var_len_def)
  have same: "layout_ok xc1" if "valpos_mem xc1 = valpos_mem xc" "curval_mem xc1 = curval_mem xc"
      "maxvalpos xc1 = maxvalpos xc" "xc_maxhandle xc1 = xc_maxhandle xc" for xc1
    using assms(1) that by (simp add: layout_ok_def)
  show ?thesis
    using assms(2,3) real
    by (auto simp: Some fstWriterCreateVar_def fstDestroyMmaps_def Let_def
        intro!: create_signal_layout intro: same)
qed (simp add: fstWriterCreateVar_def assms)

text \<open>
  C37: creating a variable, an alias or not, keeps the layout of the values: one entry for
  each handle, ranges that follow one another without gap or overlap, and a buffer of
  their total length, as long as that length fits 32 bits.
\<close>

theorem CreateVar_layout:
  assumes "layout_ok xc" "unat (maxvalpos xc) + unat (var_len vt len) < 2 ^ 32" "xc_maxhandle xc \<noteq> - 1"
  shows "layout_ok (snd (fstWriterCreateVar vt vd len nam al xc))"
  by (rule create_var_layout [OF assms])

theorem CreateVar_layout_witness:
  "layout_ok (snd (fstWriterCreateVar 16 0 32 (Some (lit ''pc'')) 0 (fstWriterCreate None [] 1)))"
proof -
  have "layout_ok (fstWriterCreate None [] 1)"
    by (simp add: layout_ok_def total_len_def)
  then show ?thesis
    by (rule CreateVar_layout) (simp_all add: var_len_def is_real_type_def)
qed

end
