(* ===== verification/Fst_Values.thy ===== *)
theory Fst_Values
  imports Fst_Writer "HOL-Library.Monad_Syntax"
begin

text \<open>
  Value changes in the writer (\<open>src/fst/fstapi.c\<close>): \<open>fstWriterEmitValueChange\<close> and its
  variants append a record to \<open>vchg_mem\<close> that is linked to the previous record of the same
  signal; the first part of a flush follows the links of a signal backwards and packs its
  changes, oldest first, into one chain.

  \<open>vchg_mem\<close> is the list of the bytes that have been stored; the bytes behind them are what
  \<open>malloc\<close> left there. \<open>realloc\<close> does not fail. The code under \<open>FST_REMOVE_DUPLICATE_VC\<close>,
  which this build does not define, is left out. \<open>None\<close> is an access outside an array.
\<close>

section \<open>Emission\<close>

definition mem_store :: "nat \<Rightarrow> byte list \<Rightarrow> byte list \<Rightarrow> byte list" where
  "mem_store off bs mem =
     (let d = mem @ replicate (off - length mem) 0 in take off d @ bs @ drop (off + length bs) d)"

text \<open>A record: the offset of the previous one, the distance in time, the value.\<close>

definition vchg_put :: "byte list \<Rightarrow> fstWriterContext \<Rightarrow> fstWriterContext" where
  "vchg_put bs xc = xc\<lparr>vchg_mem := mem_store (unat (vchg_siz xc)) bs (vchg_mem xc)\<rparr>"

definition fstWriterUint32WithVarint32 ::
    "u32 \<Rightarrow> u32 \<Rightarrow> byte list \<Rightarrow> fstWriterContext \<Rightarrow> u32 \<times> fstWriterContext" where
  "fstWriterUint32WithVarint32 u v dbuf xc =
     (let bs = le_bytes32 u @ varint_bytes v @ dbuf in (word_of_nat (length bs), vchg_put bs xc))"

definition fstWriterUint32WithVarint32AndLength ::
    "u32 \<Rightarrow> u32 \<Rightarrow> byte list \<Rightarrow> fstWriterContext \<Rightarrow> u32 \<times> fstWriterContext" where
  "fstWriterUint32WithVarint32AndLength u v dbuf xc =
     (let bs = le_bytes32 u @ varint_bytes v @ varint_bytes (word_of_nat (length dbuf) :: u32) @ dbuf
      in (word_of_nat (length bs), vchg_put bs xc))"

definition set_valpos :: "nat \<Rightarrow> valpos \<Rightarrow> fstWriterContext \<Rightarrow> fstWriterContext" where
  "set_valpos i vm xc = xc\<lparr>valpos_mem := (valpos_mem xc)[i := vm]\<rparr>"

text \<open>\<open>extra\<close> is what the record may need in addition to the value.\<close>

definition grow_vchg :: "u32 \<Rightarrow> u32 \<Rightarrow> fstWriterContext \<Rightarrow> fstWriterContext" where
  "grow_vchg len extra xc =
     (if vchg_siz xc + len + 10 + extra > vchg_alloc_siz xc
      then xc\<lparr>vchg_alloc_siz := vchg_alloc_siz xc + (ucast (fst_break_add_size xc) + len + extra)\<rparr> else xc)"

definition first_emission :: "fstWriterContext \<Rightarrow> fstWriterContext" where
  "first_emission xc = (if \<not> valpos_mapped xc then fstWriterCreateMmaps (xc\<lparr>vc_emitted := True\<rparr>) else xc)"

text \<open>The positions of a handle that is not above \<open>maxhandle\<close>: there are none for handle 0.\<close>

definition valpos_of :: "u32 \<Rightarrow> fstWriterContext \<Rightarrow> (nat \<times> valpos) option" where
  "valpos_of handle xc =
     (let i = unat (handle - 1)
      in if valpos_mapped xc \<and> i < length (valpos_mem xc) then Some (i, valpos_mem xc ! i) else None)"

definition link_record :: "nat \<Rightarrow> valpos \<Rightarrow> u32 \<times> fstWriterContext \<Rightarrow> fstWriterContext" where
  "link_record i vm r =
     (case r of (n, xc) \<Rightarrow>
        set_valpos i (vm\<lparr>vp_chain := vchg_siz xc, vp_tidx := tchn_idx xc\<rparr>) (xc\<lparr>vchg_siz := vchg_siz xc + n\<rparr>))"

definition fstWriterEmitValueChange :: "u32 \<Rightarrow> byte list \<Rightarrow> fstWriterContext \<Rightarrow> fstWriterContext option" where
  "fstWriterEmitValueChange handle val xc =
     (if handle > xc_maxhandle xc then Some xc
      else let xc = first_emission xc in
        case valpos_of handle xc of
          None \<Rightarrow> None
        | Some (i, vm) \<Rightarrow>
            (let len = unat (vp_len vm); offs = unat (vp_offs vm) in
             if len = 0 then Some xc
             else if length val < len then None
             else if \<not> is_initial_time xc then
               Some (link_record i vm (fstWriterUint32WithVarint32 (vp_chain vm) (tchn_idx xc - vp_tidx vm)
                 (take len val) (grow_vchg (vp_len vm) 0 xc)))
             else if offs + len \<le> length (curval_mem xc) then
               Some (xc\<lparr>curval_mem := poke (curval_mem xc) offs (take len val)\<rparr>)
             else None))"

definition fstWriterEmitVariableLengthValueChange ::
    "u32 \<Rightarrow> byte list \<Rightarrow> u32 \<Rightarrow> fstWriterContext \<Rightarrow> fstWriterContext option" where
  "fstWriterEmitVariableLengthValueChange handle val len xc =
     (if handle > xc_maxhandle xc then Some xc
      else let xc = first_emission xc in
        case valpos_of handle xc of
          None \<Rightarrow> None
        | Some (i, vm) \<Rightarrow>
            (if vp_len vm \<noteq> 0 then Some xc
             else if length val < unat len then None
             else Some (link_record i vm (fstWriterUint32WithVarint32AndLength (vp_chain vm)
               (tchn_idx xc - vp_tidx vm) (take (unat len) val) (grow_vchg len 5 xc)))))"

text \<open>
  Binary values. A shift by the width of the type or more is undefined. The buffers of the
  two simple variants hold 32 and 64 characters.
\<close>

definition shift_right :: "'a :: len word \<Rightarrow> nat \<Rightarrow> 'a word option" where
  "shift_right v n = (if n < LENGTH('a) then Some (drop_bit n v) else None)"

definition bit_char :: "'a :: len word \<Rightarrow> nat \<Rightarrow> byte option" where
  "bit_char v n = map_option (\<lambda>w. 0x30 + ucast (w AND 1)) (shift_right v n)"

definition bit_chars :: "nat \<Rightarrow> 'a :: len word \<Rightarrow> byte list option" where
  "bit_chars bits v = those (map (\<lambda>i. bit_char v (bits - i - 1)) [0..<bits])"

definition fstWriterEmitValueChange32 :: "u32 \<Rightarrow> nat \<Rightarrow> u32 \<Rightarrow> fstWriterContext \<Rightarrow> fstWriterContext option" where
  "fstWriterEmitValueChange32 handle bits val xc =
     (if bits > 32 then None else Option.bind (bit_chars bits val) (\<lambda>buf. fstWriterEmitValueChange handle buf xc))"

definition fstWriterEmitValueChange64 :: "u32 \<Rightarrow> nat \<Rightarrow> u64 \<Rightarrow> fstWriterContext \<Rightarrow> fstWriterContext option" where
  "fstWriterEmitValueChange64 handle bits val xc =
     (if bits > 64 then None else Option.bind (bit_chars bits val) (\<lambda>buf. fstWriterEmitValueChange handle buf xc))"

text \<open>
  The words of a vector, the highest first; \<open>v\<close> is a \<open>uint32_t\<close> in both variants. All words
  are read, the word \<open>bq\<close> even when none of its bits belong to the value.
\<close>

definition vec_chars :: "nat \<Rightarrow> nat \<Rightarrow> u32 list \<Rightarrow> byte list option" where
  "vec_chars width bits vs =
     (let bq = bits div width; br = bits mod width in
      if length vs \<le> bq then None
      else map_option concat (those
        (bit_chars br (vs ! bq) # map (\<lambda>w. bit_chars width (vs ! w)) (rev [0..<bq]))))"

definition fstWriterEmitValueChangeVec32 :: "u32 \<Rightarrow> nat \<Rightarrow> u32 list \<Rightarrow> fstWriterContext \<Rightarrow> fstWriterContext option" where
  "fstWriterEmitValueChangeVec32 handle bits val xc =
     (if bits \<le> 32 then
        (case val of [] \<Rightarrow> None | v # _ \<Rightarrow> fstWriterEmitValueChange32 handle bits v xc)
      else Option.bind (vec_chars 32 bits val) (\<lambda>outval. fstWriterEmitValueChange handle outval xc))"

definition fstWriterEmitValueChangeVec64 :: "u32 \<Rightarrow> nat \<Rightarrow> u64 list \<Rightarrow> fstWriterContext \<Rightarrow> fstWriterContext option" where
  "fstWriterEmitValueChangeVec64 handle bits val xc =
     (if bits \<le> 64 then
        (case val of [] \<Rightarrow> None | v # _ \<Rightarrow> fstWriterEmitValueChange64 handle bits v xc)
      else Option.bind (vec_chars 64 bits (map ucast val)) (\<lambda>outval. fstWriterEmitValueChange handle outval xc))"

section \<open>Chains\<close>

text \<open>
  The buffer for a chain is filled from its end; the state is the position \<open>scratchpnt\<close> and
  the buffer.
\<close>

type_synonym scratch = "nat \<times> byte list"

definition left_varint :: "u32 \<Rightarrow> scratch \<Rightarrow> scratch option" where
  "left_varint v sp = fstCopyVarint32ToLeft (snd sp) (fst sp) v"

definition left_bytes :: "byte list \<Rightarrow> scratch \<Rightarrow> scratch option" where
  "left_bytes bs sp =
     (if length bs \<le> fst sp then Some (fst sp - length bs, poke (snd sp) (fst sp - length bs) bs) else None)"

text \<open>The bytes from \<open>off\<close> on, \<open>n\<close> of them.\<close>

definition slice :: "byte list \<Rightarrow> nat \<Rightarrow> nat \<Rightarrow> byte list option" where
  "slice mem off n = (if off + n \<le> length mem then Some (take n (drop off mem)) else None)"

text \<open>One-bit signals: the value and the distance share one number.\<close>

definition rcv_code :: "byte \<Rightarrow> u32 \<Rightarrow> u32" where
  "rcv_code val time_delta =
     (if val = 0x30 \<or> val = 0x31 then push_bit 1 (ucast val AND 1) OR push_bit 2 time_delta
      else if val = 0x78 \<or> val = 0x58 then (1 OR push_bit 1 0) OR push_bit 4 time_delta
      else if val = 0x7a \<or> val = 0x5a then (1 OR push_bit 1 1) OR push_bit 4 time_delta
      else if val = 0x68 \<or> val = 0x48 then (1 OR push_bit 1 2) OR push_bit 4 time_delta
      else if val = 0x75 \<or> val = 0x55 then (1 OR push_bit 1 3) OR push_bit 4 time_delta
      else if val = 0x77 \<or> val = 0x57 then (1 OR push_bit 1 4) OR push_bit 4 time_delta
      else if val = 0x6c \<or> val = 0x4c then (1 OR push_bit 1 5) OR push_bit 4 time_delta
      else (1 OR push_bit 1 6) OR push_bit 4 time_delta)"

partial_function (option) bit_chain :: "byte list \<Rightarrow> nat \<Rightarrow> scratch \<Rightarrow> scratch option" where
  "bit_chain mem offs sp =
     (if offs = 0 then Some sp
      else Option.bind (fstGetUint32 (drop offs mem)) (\<lambda>next_offs.
           Option.bind (fstGetVarint32 (drop (offs + 4) mem)) (\<lambda>dw.
           Option.bind (peek mem (offs + 4 + snd dw)) (\<lambda>val.
           Option.bind (left_varint (rcv_code val (fst dw)) sp) (\<lambda>sp.
           bit_chain mem (unat next_offs) sp)))))"

text \<open>Values of variable length.\<close>

partial_function (option) var_chain :: "byte list \<Rightarrow> nat \<Rightarrow> scratch \<Rightarrow> scratch option" where
  "var_chain mem offs sp =
     (if offs = 0 then Some sp
      else Option.bind (fstGetUint32 (drop offs mem)) (\<lambda>next_offs.
           Option.bind (fstGetVarint32 (drop (offs + 4) mem)) (\<lambda>dw.
           Option.bind (fstGetVarint32 (drop (offs + 4 + snd dw) mem)) (\<lambda>lw.
           Option.bind (slice mem (offs + 4 + snd dw + snd lw) (unat (fst lw))) (\<lambda>val.
           Option.bind (left_bytes val sp) (\<lambda>sp.
           Option.bind (left_varint (fst lw) sp) (\<lambda>sp.
           Option.bind (left_varint (push_bit 1 (fst dw)) sp) (\<lambda>sp.
           var_chain mem (unat next_offs) sp))))))))"

text \<open>
  Vectors: a value of digits 0 and 1 is packed, eight to a byte, the last byte first; only
  the first of these bytes to be written, the last one, may hold fewer than eight.
\<close>

definition pack_byte :: "byte list \<Rightarrow> byte" where
  "pack_byte cs = fold (\<lambda>k acc. acc OR push_bit (7 - k) (cs ! k AND 1)) [0..<length cs] 0"

fun pack_bits :: "byte list \<Rightarrow> nat \<Rightarrow> nat \<Rightarrow> scratch \<Rightarrow> scratch option" where
  "pack_bits pnt 0 n sp = Some sp"
| "pack_bits pnt (Suc k) n sp =
     Option.bind (left_bytes [pack_byte (take n (drop (8 * k) pnt))] sp) (pack_bits pnt k 8)"

definition left_value :: "byte list \<Rightarrow> u32 \<Rightarrow> scratch \<Rightarrow> scratch option" where
  "left_value pnt time_delta sp =
     (if \<forall>c \<in> set pnt. c = 0x30 \<or> c = 0x31 then
        Option.bind (pack_bits pnt ((length pnt + 7) div 8) (if length pnt mod 8 = 0 then 8 else length pnt mod 8) sp)
          (left_varint (push_bit 1 time_delta))
      else Option.bind (left_bytes pnt sp) (left_varint (push_bit 1 time_delta OR 1)))"

partial_function (option) vec_chain :: "nat \<Rightarrow> byte list \<Rightarrow> nat \<Rightarrow> scratch \<Rightarrow> scratch option" where
  "vec_chain len mem offs sp =
     (if offs = 0 then Some sp
      else Option.bind (fstGetUint32 (drop offs mem)) (\<lambda>next_offs.
           Option.bind (fstGetVarint32 (drop (offs + 4) mem)) (\<lambda>dw.
           Option.bind (slice mem (offs + 4 + snd dw) len) (\<lambda>pnt.
           Option.bind (left_value pnt (fst dw) sp) (\<lambda>sp.
           vec_chain len mem (unat next_offs) sp)))))"

declare bit_chain.simps [code] var_chain.simps [code] vec_chain.simps [code]

text \<open>The chain of a signal, and its last value for the next section header.\<close>

definition signal_chain :: "valpos \<Rightarrow> byte list \<Rightarrow> nat \<Rightarrow> byte list option" where
  "signal_chain vm mem siz =
     (let offs = unat (vp_chain vm); sp = (siz, replicate siz 0) in
      map_option (\<lambda>(pnt, pad). drop pnt pad)
        (if vp_len vm \<le> 1 then
           if vp_len vm = 1 then bit_chain mem offs sp else var_chain mem offs sp
         else vec_chain (unat (vp_len vm)) mem offs sp))"

definition checkpoint :: "valpos \<Rightarrow> byte list \<Rightarrow> byte list \<Rightarrow> byte list option" where
  "checkpoint vm mem curval =
     (let offs = unat (vp_chain vm); len = unat (vp_len vm) in
      if len = 0 then Some curval
      else Option.bind (fstGetVarint32Length (drop (offs + 4) mem)) (\<lambda>wrlen.
           Option.bind (slice mem (offs + 4 + wrlen) len) (\<lambda>val.
           if unat (vp_offs vm) + len \<le> length curval then Some (poke curval (unat (vp_offs vm)) val) else None)))"

end
