(* ===== verification/Fastlz.thy ===== *)
theory Fastlz
  imports Prelude
begin

text \<open>
  The FastLZ compressor (\<open>src/fst/fastlz.c\<close>) that packs value chains. The file includes itself
  once for each of its two levels; the model has the level as a parameter.

  Positions are indices into the input and the output is the list of the bytes stored so
  far, so that \<open>op\<close> is its length and \<open>*(op-copy-1) = x\<close> is an update. Counts, distances and
  positions are natural numbers: they are below the \<open>int\<close> length of the input, and the
  differences of pointers that the code forms are not negative. Shifts and masks of them by
  constants are \<open>div\<close>, \<open>mod\<close> and \<open>*\<close>.
\<close>

abbreviation MAX_COPY :: nat where "MAX_COPY \<equiv> 32"
abbreviation MAX_LEN :: nat where "MAX_LEN \<equiv> 264"

definition MAX_DISTANCE :: "nat \<Rightarrow> nat" where
  "MAX_DISTANCE level = (if level = 1 then 8192 else 8191)"

abbreviation MAX_FARDISTANCE :: nat where "MAX_FARDISTANCE \<equiv> 65535 + 8191 - 1"

abbreviation byte_of :: "nat \<Rightarrow> byte" where "byte_of n \<equiv> word_of_nat n"

section \<open>The compressor\<close>

definition FASTLZ_READU16 :: "byte list \<Rightarrow> nat \<Rightarrow> u32" where
  "FASTLZ_READU16 inp p = ucast (inp ! p) OR push_bit 8 (ucast (inp ! (p + 1)))"

definition HASH_FUNCTION :: "byte list \<Rightarrow> nat \<Rightarrow> nat" where
  "HASH_FUNCTION inp p =
     (let v = FASTLZ_READU16 inp p in
      unat ((v XOR (FASTLZ_READU16 inp (p + 1) XOR drop_bit 3 v)) AND 8191))"

record flz =
  ip :: nat
  copy :: nat
  out :: "byte list"
  htab :: "nat list"

text \<open>
  The search for a match at \<open>anchor\<close>: the position behind the bytes compared so far in the
  earlier text, the distance and the number of bytes compared; \<open>None\<close> goes to \<open>literal\<close>.
\<close>

definition find_match :: "nat \<Rightarrow> byte list \<Rightarrow> nat \<Rightarrow> nat list \<Rightarrow> (nat \<times> nat \<times> nat) option \<times> nat list" where
  "find_match level inp anchor tab =
     (if level = 2 \<and> inp ! anchor = inp ! (anchor - 1) \<and>
         FASTLZ_READU16 inp (anchor - 1) = FASTLZ_READU16 inp (anchor + 1)
      then (Some (anchor - 1 + 3, 1, 3), tab)
      else
        (let hval = HASH_FUNCTION inp anchor;
             ref = tab ! hval;
             distance = anchor - ref;
             tab = tab[hval := anchor]
         in if distance = 0 \<or> distance \<ge> (if level = 1 then MAX_DISTANCE level else MAX_FARDISTANCE) \<or>
               inp ! ref \<noteq> inp ! anchor \<or> inp ! (ref + 1) \<noteq> inp ! (anchor + 1) \<or>
               inp ! (ref + 2) \<noteq> inp ! (anchor + 2)
            then (None, tab)
            else if level = 2 \<and> distance \<ge> MAX_DISTANCE level then
              (if inp ! (anchor + 3) \<noteq> inp ! (ref + 3) \<or> inp ! (anchor + 4) \<noteq> inp ! (ref + 4)
               then (None, tab) else (Some (ref + 5, distance, 5), tab))
            else (Some (ref + 3, distance, 3), tab)))"

text \<open>The loops that extend the match; the result is the final \<open>ip\<close>.\<close>

function run_loop :: "byte list \<Rightarrow> byte \<Rightarrow> nat \<Rightarrow> nat \<Rightarrow> nat \<Rightarrow> nat" where
  "run_loop inp x ip_bound ref ip0 =
     (if ip0 < ip_bound then if inp ! ref \<noteq> x then ip0 else run_loop inp x ip_bound (ref + 1) (ip0 + 1)
      else ip0)"
  by pat_completeness auto
termination
  by (relation "measure (\<lambda>(inp, x, ip_bound, ref, ip0). ip_bound - ip0)") auto

function cmp_loop :: "byte list \<Rightarrow> nat \<Rightarrow> nat \<Rightarrow> nat \<Rightarrow> nat" where
  "cmp_loop inp ip_bound ref ip0 =
     (if ip0 < ip_bound then
        if inp ! ref \<noteq> inp ! ip0 then ip0 + 1 else cmp_loop inp ip_bound (ref + 1) (ip0 + 1)
      else ip0)"
  by pat_completeness auto
termination
  by (relation "measure (\<lambda>(inp, ip_bound, ref, ip0). ip_bound - ip0)") auto

declare run_loop.simps [simp del] cmp_loop.simps [simp del]

fun cmp_unrolled :: "nat \<Rightarrow> byte list \<Rightarrow> nat \<Rightarrow> nat \<Rightarrow> nat \<Rightarrow> nat" where
  "cmp_unrolled 0 inp ip_bound ref ip0 = cmp_loop inp ip_bound ref ip0"
| "cmp_unrolled (Suc k) inp ip_bound ref ip0 =
     (if inp ! ref \<noteq> inp ! ip0 then ip0 + 1 else cmp_unrolled k inp ip_bound (ref + 1) (ip0 + 1))"

text \<open>The encoding of a match with the biased length and distance.\<close>

fun len_bytes2 :: "nat \<Rightarrow> byte list" where
  "len_bytes2 len = (if len \<ge> 255 then 255 # len_bytes2 (len - 255) else [byte_of len])"

definition encode2 :: "nat \<Rightarrow> nat \<Rightarrow> byte list" where
  "encode2 len distance =
     (if distance < MAX_DISTANCE 2 then
        (if len < 7 then [byte_of (len * 32 + distance div 256), byte_of (distance mod 256)]
         else byte_of (7 * 32 + distance div 256) # len_bytes2 (len - 7) @ [byte_of (distance mod 256)])
      else
        (let distance = distance - MAX_DISTANCE 2 in
         if len < 7 then
           [byte_of (len * 32 + 31), 255, byte_of (distance div 256), byte_of (distance mod 256)]
         else byte_of (7 * 32 + 31) # len_bytes2 (len - 7) @
                [255, byte_of (distance div 256), byte_of (distance mod 256)]))"

fun encode1 :: "nat \<Rightarrow> nat \<Rightarrow> byte list" where
  "encode1 len distance =
     (if len > MAX_LEN - 2 then
        byte_of (7 * 32 + distance div 256) # byte_of (MAX_LEN - 2 - 7 - 2) # byte_of (distance mod 256) #
          encode1 (len - (MAX_LEN - 2)) distance
      else if len < 7 then [byte_of (len * 32 + distance div 256), byte_of (distance mod 256)]
      else [byte_of (7 * 32 + distance div 256), byte_of (len - 7), byte_of (distance mod 256)])"

declare len_bytes2.simps [simp del] encode1.simps [simp del]

definition encode_match :: "nat \<Rightarrow> nat \<Rightarrow> nat \<Rightarrow> byte list" where
  "encode_match level len distance = (if level = 2 then encode2 len distance else encode1 len distance)"

text \<open>Closing a run of literals: its count is stored, or the place for it is taken back.\<close>

definition close_copy :: "nat \<Rightarrow> byte list \<Rightarrow> byte list" where
  "close_copy cpy op = (if cpy \<noteq> 0 then op[length op - cpy - 1 := byte_of (cpy - 1)] else butlast op)"

definition step_literal :: "byte list \<Rightarrow> flz \<Rightarrow> flz" where
  "step_literal inp s =
     (let anchor = ip s;
          s = s\<lparr>out := out s @ [inp ! anchor], ip := anchor + 1, copy := copy s + 1\<rparr>
      in if copy s = MAX_COPY then s\<lparr>copy := 0, out := out s @ [byte_of (MAX_COPY - 1)]\<rparr> else s)"

definition step_match :: "nat \<Rightarrow> byte list \<Rightarrow> nat \<times> nat \<times> nat \<Rightarrow> flz \<Rightarrow> flz" where
  "step_match level inp m s =
     (let (ref, distance, len) = m;
          anchor = ip s;
          ip_bound = length inp - 2;
          ip0 = anchor + len;
          distance = distance - 1;
          ip0 = (if distance = 0 then run_loop inp (inp ! (ip0 - 1)) ip_bound ref ip0
                 else cmp_unrolled 8 inp ip_bound ref ip0);
          op = close_copy (copy s) (out s);
          ip0 = ip0 - 3;
          len = ip0 - anchor;
          op = op @ encode_match level len distance;
          tab = (htab s)[HASH_FUNCTION inp ip0 := ip0];
          tab = tab[HASH_FUNCTION inp (ip0 + 1) := ip0 + 1]
      in \<lparr>ip = ip0 + 2, copy = 0, out = op @ [byte_of (MAX_COPY - 1)], htab = tab\<rparr>)"

definition flz_step :: "nat \<Rightarrow> byte list \<Rightarrow> flz \<Rightarrow> flz" where
  "flz_step level inp s =
     (case find_match level inp (ip s) (htab s) of
        (None, tab) \<Rightarrow> step_literal inp (s\<lparr>htab := tab\<rparr>)
      | (Some m, tab) \<Rightarrow> step_match level inp m (s\<lparr>htab := tab\<rparr>))"

lemma run_loop_ge: "ip0 \<le> run_loop inp x ip_bound ref ip0"
  by (induction inp x ip_bound ref ip0 rule: run_loop.induct) (subst run_loop.simps, auto)

lemma cmp_loop_ge: "ip0 \<le> cmp_loop inp ip_bound ref ip0"
  by (induction inp ip_bound ref ip0 rule: cmp_loop.induct) (subst cmp_loop.simps, auto)

lemma cmp_unrolled_ge: "ip0 \<le> cmp_unrolled k inp ip_bound ref ip0"
proof (induction k arbitrary: ref ip0)
  case (Suc k)
  have "ip0 + 1 \<le> cmp_unrolled k inp ip_bound (ref + 1) (ip0 + 1)"
    by (rule Suc)
  then show ?case
    by simp
qed (simp add: cmp_loop_ge)

lemma find_match_len:
  "find_match level inp anchor tab = (Some (ref, d, len), tab1) \<Longrightarrow> len = 3 \<or> len = 5"
  by (auto simp: find_match_def Let_def split: if_splits)

lemma flz_step_ip: "ip s < ip (flz_step level inp s)"
proof (cases "find_match level inp (ip s) (htab s)")
  case (Pair m tab)
  show ?thesis
  proof (cases m)
    case None
    with Pair show ?thesis
      by (simp add: flz_step_def step_literal_def Let_def)
  next
    case (Some q)
    obtain ref d len where q: "q = (ref, d, len)"
      by (cases q)
    have "len = 3 \<or> len = 5"
      using Pair find_match_len by (simp add: Some q)
    then have run: "ip s + 3 \<le> run_loop inp x b ref (ip s + len)"
      and cmp: "ip s + 3 \<le> cmp_unrolled k inp b ref (ip s + len)" for x b k
      using run_loop_ge [of "ip s + len" inp x b ref] cmp_unrolled_ge [of "ip s + len" k inp b ref] by linarith+
    have same: "ip (s\<lparr>htab := tab\<rparr>) = ip s"
      by simp
    define e where "e = (if d - 1 = 0 then run_loop inp (inp ! (ip s + len - 1)) (length inp - 2) ref (ip s + len)
         else cmp_unrolled 8 inp (length inp - 2) ref (ip s + len))"
    have "ip s + 3 \<le> e"
      unfolding e_def by (cases "d - 1 = 0") (simp_all only: run cmp if_True if_False simp_thms)
    moreover have "ip (flz_step level inp s) = e - 3 + 2"
      using Pair by (simp only: flz_step_def step_match_def Some q prod.case option.case Let_def flz.simps same e_def)
    ultimately show ?thesis
      by linarith
  qed
qed

function flz_loop :: "nat \<Rightarrow> byte list \<Rightarrow> flz \<Rightarrow> flz" where
  "flz_loop level inp s = (if ip s + 12 < length inp then flz_loop level inp (flz_step level inp s) else s)"
  by pat_completeness auto
termination
  by (relation "measure (\<lambda>(level, inp, s). length inp - ip s)") (use flz_step_ip in \<open>auto intro: diff_less_mono2\<close>)

function flz_rest :: "byte list \<Rightarrow> flz \<Rightarrow> flz" where
  "flz_rest inp s = (if ip s < length inp then flz_rest inp (step_literal inp s) else s)"
  by pat_completeness auto
termination
  by (relation "measure (\<lambda>(inp, s). length inp - ip s)") (auto simp: step_literal_def Let_def)

declare flz_loop.simps [simp del] flz_rest.simps [simp del]

definition FASTLZ_COMPRESSOR :: "nat \<Rightarrow> byte list \<Rightarrow> byte list" where
  "FASTLZ_COMPRESSOR level inp =
     (if length inp < 4 then
        (if inp \<noteq> [] then byte_of (length inp - 1) # inp else [])
      else
        (let s = \<lparr>ip = 2, copy = 2, out = [byte_of (MAX_COPY - 1), inp ! 0, inp ! 1], htab = replicate 8192 0\<rparr>;
             s = flz_loop level inp s;
             s = flz_rest inp s;
             op = close_copy (copy s) (out s)
         in if level = 2 then op[0 := op ! 0 OR 32] else op))"

definition fastlz_compress :: "byte list \<Rightarrow> byte list" where
  "fastlz_compress inp = FASTLZ_COMPRESSOR (if length inp < 65536 then 1 else 2) inp"

definition fastlz_compress_level :: "int \<Rightarrow> byte list \<Rightarrow> byte list" where
  "fastlz_compress_level level inp =
     (if level = 1 then FASTLZ_COMPRESSOR 1 inp else if level = 2 then FASTLZ_COMPRESSOR 2 inp else [])"

section \<open>The decompressor\<close>

text \<open>
  The copy of a match, as on x86-64: three bytes, one more if the rest is odd, then words of
  16 bits. The reference may overlap the output that it produces.
\<close>

fun copy_bytes :: "nat \<Rightarrow> nat \<Rightarrow> byte list \<Rightarrow> byte list" where
  "copy_bytes 0 ref op = op"
| "copy_bytes (Suc n) ref op = copy_bytes n (ref + 1) (op @ [op ! ref])"

fun copy_words :: "nat \<Rightarrow> nat \<Rightarrow> byte list \<Rightarrow> byte list" where
  "copy_words 0 ref op = op"
| "copy_words (Suc n) ref op = copy_words n (ref + 2) (op @ [op ! ref, op ! (ref + 1)])"

definition copy_match :: "nat \<Rightarrow> nat \<Rightarrow> byte list \<Rightarrow> byte list" where
  "copy_match len ref op =
     (if ref = length op then op @ replicate (len + 3) (op ! (ref - 1))
      else
        (let ref = ref - 1;
             op = copy_bytes 3 ref op;
             ref = ref + 3;
             (op, ref, len) = (if odd len then (copy_bytes 1 ref op, ref + 1, len - 1) else (op, ref, len))
         in copy_words (len div 2) ref op))"

fun read_len2 :: "nat \<Rightarrow> byte list \<Rightarrow> (nat \<times> byte list) option" where
  "read_len2 len [] = None"
| "read_len2 len (code # src) =
     (if code = 255 then read_len2 (len + unat code) src else Some (len + unat code, src))"

text \<open>The length, the reference as an offset into the output, and the input behind the match.\<close>

definition match_args1 :: "nat \<Rightarrow> byte list \<Rightarrow> nat \<Rightarrow> (nat \<times> int \<times> byte list) option" where
  "match_args1 ctrl src op =
     (let len = ctrl div 32 - 1; ofs = ctrl mod 32 * 256; ref = int op - int ofs in
      if len = 7 - 1 then
        (case src of c1 # c2 # src \<Rightarrow> Some (len + unat c1, ref - int (unat c2), src) | _ \<Rightarrow> None)
      else
        (case src of c2 # src \<Rightarrow> Some (len, ref - int (unat c2), src) | _ \<Rightarrow> None))"

definition match_args2 :: "nat \<Rightarrow> byte list \<Rightarrow> nat \<Rightarrow> (nat \<times> int \<times> byte list) option" where
  "match_args2 ctrl src op =
     (let len = ctrl div 32 - 1; ofs = ctrl mod 32 * 256; ref = int op - int ofs in
      case (if len = 7 - 1 then read_len2 len src else Some (len, src)) of
        None \<Rightarrow> None
      | Some (len, src) \<Rightarrow>
          (case src of
             [] \<Rightarrow> None
           | code # src \<Rightarrow>
               if code = 255 \<and> ofs = 31 * 256 then
                 (case src of
                    hi # lo # src \<Rightarrow>
                      Some (len, int op - int (unat hi * 256 + unat lo) - int (MAX_DISTANCE 2), src)
                  | _ \<Rightarrow> None)
               else Some (len, ref - int (unat code), src)))"

definition match_args :: "nat \<Rightarrow> nat \<Rightarrow> byte list \<Rightarrow> nat \<Rightarrow> (nat \<times> int \<times> byte list) option" where
  "match_args level = (if level = 2 then match_args2 else match_args1)"

lemma read_len2_shorter: "read_len2 len src = Some (n, src1) \<Longrightarrow> length src1 < length src"
  by (induction len src rule: read_len2.induct) (auto split: if_splits)

lemma match_args_shorter: "match_args level ctrl src op = Some (len, ref, src1) \<Longrightarrow> length src1 < length src"
  by (auto simp: match_args_def match_args1_def match_args2_def Let_def
      split: if_splits list.splits option.splits dest: read_len2_shorter)

text \<open>
  The loop. The input is the memory from \<open>ip\<close> on, of which the last \<open>over\<close> bytes are behind
  \<open>ip_limit\<close>: the arguments of a match are not tested against the limit. \<open>None\<close> is a read
  behind the memory. Otherwise the result is the value that is returned and the output,
  which is there also when a test against the end of a buffer fails and 0 is returned.
\<close>

function flz_decompress :: "nat \<Rightarrow> nat \<Rightarrow> nat \<Rightarrow> nat \<Rightarrow> byte list \<Rightarrow> byte list \<Rightarrow> (nat \<times> byte list) option" where
  "flz_decompress level over maxout ctrl src op =
     (if ctrl \<ge> 32 then
        (case match_args level ctrl src (length op) of
           None \<Rightarrow> None
         | Some (len, ref, src) \<Rightarrow>
             if length op + len + 3 > maxout then Some (0, op)
             else if ref - 1 < 0 then Some (0, op)
             else
               (let op = copy_match len (nat ref) op in
                if length src > over then flz_decompress level over maxout (unat (hd src)) (tl src) op
                else Some (length op, op)))
      else
        (let ctrl = ctrl + 1 in
         if length op + ctrl > maxout then Some (0, op)
         else if ctrl + over > length src then Some (0, op)
         else
           (let op = op @ take ctrl src; src = drop ctrl src in
            if length src > over then flz_decompress level over maxout (unat (hd src)) (tl src) op
            else Some (length op, op))))"
  by pat_completeness auto
termination
proof (relation "measure (\<lambda>(level, over, maxout, ctrl, src, op). length src)", goal_cases)
  case 1
  then show ?case
    by simp
next
  case 2
  then show ?case
    by (auto dest: match_args_shorter)
next
  case 3
  then show ?case
    by auto
qed

declare flz_decompress.simps [simp del]

definition FASTLZ_DECOMPRESSOR :: "nat \<Rightarrow> byte list \<Rightarrow> nat \<Rightarrow> nat \<Rightarrow> (nat \<times> byte list) option" where
  "FASTLZ_DECOMPRESSOR level input len maxout =
     (case input of
        [] \<Rightarrow> None
      | c # src \<Rightarrow>
          if length input < len then None
          else flz_decompress level (length input - len) maxout (unat (c AND 31)) src [])"

text \<open>\<open>input\<close> is the memory from the argument on, \<open>len\<close> the number of bytes to use of it.\<close>

definition fastlz_decompress :: "byte list \<Rightarrow> nat \<Rightarrow> nat \<Rightarrow> (nat \<times> byte list) option" where
  "fastlz_decompress input len maxout =
     (case input of
        [] \<Rightarrow> None
      | c # _ \<Rightarrow>
          (let level = unat (drop_bit 5 c) + 1 in
           if level = 1 then FASTLZ_DECOMPRESSOR 1 input len maxout
           else if level = 2 then FASTLZ_DECOMPRESSOR 2 input len maxout
           else Some (0, [])))"

end
