(* ===== verification/Fst_Flush.thy ===== *)
theory Fst_Flush
  imports Fst_Values Fastlz
begin

text \<open>
  Writing a section of value changes (\<open>src/fst/fstapi.c\<close>): its header with the values at its
  start, the chains of the signals, the index of the chains, the table of times
  (\<open>fstWriterEmitSectionHeader\<close>, \<open>fstWriterFlushContextPrivate\<close>, \<open>fstWriterEmitTimeChange\<close>).

  zlib is not part of the sources: \<open>compress2 level room src\<close> is a parameter, the compressed
  text if it could be made in \<open>room\<close> bytes (\<open>Z_OK\<close>). \<open>LZ4_compress\<close> is a parameter, too; the
  two are fields of \<open>packers\<close>. The build has no threads (\<open>FST_WRITER_PARALLEL\<close>).
\<close>

record packers =
  pk_compress2 :: "nat \<Rightarrow> nat \<Rightarrow> byte list \<Rightarrow> byte list option"
  pk_LZ4_compress :: "byte list \<Rightarrow> byte list"

abbreviation FST_BL_SKIP :: byte where "FST_BL_SKIP \<equiv> 255"
abbreviation FST_BL_VCDATA_DYN_ALIAS2 :: byte where "FST_BL_VCDATA_DYN_ALIAS2 \<equiv> 8"

definition put_varint :: "u64 \<Rightarrow> fstWriterContext \<Rightarrow> fstWriterContext" where
  "put_varint v xc = put (varint_bytes v) xc"

section \<open>The section header\<close>

definition fstWriterEmitSectionHeader :: "packers \<Rightarrow> fstWriterContext \<Rightarrow> fstWriterContext" where
  "fstWriterEmitSectionHeader pk xc =
     (let curval = take (unat (maxvalpos xc)) (curval_mem xc);
          packed = (case pk_compress2 pk 4 (unat (maxvalpos xc)) curval of
            Some dmem \<Rightarrow> if length dmem < unat (maxvalpos xc) then dmem else curval
          | None \<Rightarrow> curval);
          xc = put [FST_BL_SKIP] xc;
          xc = xc\<lparr>section_start := f_pos (xc_handle xc)\<rparr>;
          xc = xc\<lparr>section_header_only := True\<rparr>;
          xc = put64 0 xc;
          xc = put64 (if is_initial_time xc then firsttime xc else curtime xc) xc;
          xc = put64 (curtime xc) xc;
          xc = put64 0 xc;
          xc = put_varint (ucast (maxvalpos xc)) xc;
          xc = put_varint (word_of_nat (length packed)) xc;
          xc = put_varint (ucast (xc_maxhandle xc)) xc
      in put packed xc)"

section \<open>The chains\<close>

definition hashmask_of :: "u32 \<Rightarrow> u32" where
  "hashmask_of maxhandle =
     (let h = maxhandle; h = h OR drop_bit 1 h; h = h OR drop_bit 2 h; h = h OR drop_bit 4 h;
          h = h OR drop_bit 8 h
      in h OR drop_bit 16 h)"

text \<open>
  What is stored of a chain: its length before compression, 0 for a chain that is stored as
  it is, and the bytes. The bytes alone are the key by which an equal chain is found again.
\<close>

definition pack_chain :: "packers \<Rightarrow> fstWriterContext \<Rightarrow> byte list \<Rightarrow> nat \<times> byte list" where
  "pack_chain pk xc wr =
     (if length wr > 32 then
        if \<not> fastpack xc then
          (case pk_compress2 pk 4 (length wr) wr of Some dmem \<Rightarrow> (length wr, dmem) | None \<Rightarrow> (0, wr))
        else
          (let dmem = (if fourpack xc then pk_LZ4_compress pk wr else fastlz_compress wr)
           in if length dmem < length wr then (length wr, dmem) else (0, wr))
      else (0, wr))"

record flush_state =
  fl_xc :: fstWriterContext
  fl_fpos :: nat
  fl_tab :: jtable
  fl_memreq :: nat

definition store_chain :: "packers \<Rightarrow> u32 \<Rightarrow> nat \<Rightarrow> valpos \<Rightarrow> byte list \<Rightarrow> flush_state \<Rightarrow> flush_state" where
  "store_chain pk hashmask i vm wr fl =
     (let (tag, key) = pack_chain pk (fl_xc fl) wr;
          (tab, h) = JenkinsIns (fl_tab fl) key hashmask;
          fl = fl\<lparr>fl_memreq := fl_memreq fl + length wr\<rparr>
      in if payload tab h \<noteq> 0 then
           fl\<lparr>fl_tab := tab, fl_xc := set_valpos i (vm\<lparr>vp_chain := - ucast (payload tab h)\<rparr>) (fl_xc fl)\<rparr>
         else
           fl\<lparr>fl_tab := set_payload (word_of_nat (i + 1)) tab h,
              fl_fpos := fl_fpos fl + length (varint_bytes (word_of_nat tag :: u64)) + length key,
              fl_xc := put key (put_varint (word_of_nat tag)
                (set_valpos i (vm\<lparr>vp_chain := word_of_nat (fl_fpos fl)\<rparr>) (fl_xc fl)))\<rparr>)"

definition flush_signal :: "packers \<Rightarrow> u32 \<Rightarrow> nat \<Rightarrow> flush_state \<Rightarrow> flush_state option" where
  "flush_signal pk hashmask i fl =
     (let xc = fl_xc fl in
      Option.bind (peek (valpos_mem xc) i) (\<lambda>vm.
        if vp_chain vm = 0 then Some fl
        else Option.bind (checkpoint vm (vchg_mem xc) (curval_mem xc)) (\<lambda>curval.
             Option.bind (signal_chain vm (vchg_mem xc) (unat (vchg_siz xc))) (\<lambda>wr.
             Some (store_chain pk hashmask i vm wr (fl\<lparr>fl_xc := xc\<lparr>curval_mem := curval\<rparr>\<rparr>))))))"

fun flush_signals :: "packers \<Rightarrow> u32 \<Rightarrow> nat list \<Rightarrow> flush_state \<Rightarrow> flush_state option" where
  "flush_signals pk hashmask [] fl = Some fl"
| "flush_signals pk hashmask (i # is) fl =
     Option.bind (flush_signal pk hashmask i fl) (flush_signals pk hashmask is)"

section \<open>The index\<close>

text \<open>
  The positions of the chains in the order of the handles: the distance from the previous
  position, the (negative) handle of an equal chain, 0 for the same one as before; runs of
  signals without changes are counted.
\<close>

definition end_zeros :: "nat \<Rightarrow> byte list" where
  "end_zeros zerocnt = (if zerocnt \<noteq> 0 then varint_bytes (word_of_nat (2 * zerocnt) :: u64) else [])"

fun chain_index :: "valpos list \<Rightarrow> nat \<Rightarrow> u32 \<Rightarrow> u32 \<Rightarrow> byte list" where
  "chain_index [] zerocnt prev_alias prevpos = end_zeros zerocnt"
| "chain_index (vm # vms) zerocnt prev_alias prevpos =
     (let c = vp_chain vm in
      if c \<noteq> 0 then
        end_zeros zerocnt @
        (if c AND 0x80000000 \<noteq> 0 then
           if c \<noteq> prev_alias then svarint_bytes (push_bit 1 (scast c) OR 1) @ chain_index vms 0 c prevpos
           else svarint_bytes 1 @ chain_index vms 0 prev_alias prevpos
         else svarint_bytes (ucast (push_bit 1 (c - prevpos) OR 1)) @ chain_index vms 0 prev_alias c)
      else chain_index vms (zerocnt + 1) prev_alias prevpos)"

definition clear_chain :: "valpos \<Rightarrow> valpos" where
  "clear_chain vm = (if vp_chain vm \<noteq> 0 then vm\<lparr>vp_chain := 0, vp_tidx := 0\<rparr> else vm)"

section \<open>The flush\<close>

text \<open>The table of times; an empty file cannot be mapped, which ends the program.\<close>

definition put_times :: "packers \<Rightarrow> fstWriterContext \<Rightarrow> fstWriterContext option" where
  "put_times pk xc =
     (let tmem = tchn_handle xc;
          packed = (case pk_compress2 pk 9 (length tmem) tmem of
            Some dmem \<Rightarrow> if length dmem < length tmem then dmem else tmem
          | None \<Rightarrow> tmem);
          xc = put packed xc;
          xc = put64 (word_of_nat (length tmem)) xc;
          xc = put64 (word_of_nat (length packed)) xc;
          xc = put64 (ucast (tchn_cnt xc)) xc
      in if tmem = [] then None else Some (xc\<lparr>tchn_cnt := 0, tchn_idx := 0, tchn_handle := []\<rparr>))"

text \<open>The length, the end time and the memory of the section go to its header, and its type.\<close>

definition put_trailer :: "nat \<Rightarrow> fstWriterContext \<Rightarrow> fstWriterContext" where
  "put_trailer memreq xc =
     (let endpos = f_pos (xc_handle xc);
          xc = fstWriterFseeko (int (section_start xc)) xc;
          xc = put64 (word_of_nat (endpos - section_start xc)) xc;
          xc = fstWriterFseeko (int (f_pos (xc_handle xc)) + 8) xc;
          xc = put64 (curtime xc) xc;
          xc = put64 (word_of_nat memreq) xc;
          xc = fstWriterFseeko (int (section_start xc) - 1) xc;
          xc = put [FST_BL_VCDATA_DYN_ALIAS2] xc;
          xc = fstWriterFseeko (int endpos) xc
      in xc\<lparr>section_header_truncpos := endpos\<rparr>)"

definition end_section :: "packers \<Rightarrow> fstWriterContext \<Rightarrow> fstWriterContext" where
  "end_section pk xc =
     (let endpos = section_header_truncpos xc;
          xc = (if dump_size_limit xc \<noteq> 0 \<and> endpos \<ge> unat (dump_size_limit xc)
            then xc\<lparr>skip_writing_section_hdr := True, size_limit_locked := True, is_initial_time := True\<rparr> else xc);
          xc = (if \<not> skip_writing_section_hdr xc then fstWriterEmitSectionHeader pk xc else xc)
      in xc\<lparr>already_in_flush := False\<rparr>)"

definition fstWriterFlushContextPrivate :: "packers \<Rightarrow> fstWriterContext \<Rightarrow> fstWriterContext option" where
  "fstWriterFlushContextPrivate pk xc =
     (if vchg_siz xc \<le> 1 \<or> already_in_flush xc then Some xc
      else
        let hashmask = hashmask_of (xc_maxhandle xc);
            xc = xc\<lparr>already_in_flush := True, section_header_only := False\<rparr>;
            xc = put_varint (ucast (xc_maxhandle xc)) xc;
            xc = put [if fourpack xc then 0x34 else if fastpack xc then 0x46 else 0x5a] xc
        in Option.bind (flush_signals pk hashmask [0..<unat (xc_maxhandle xc)]
             \<lparr>fl_xc = xc, fl_fpos = 1, fl_tab = None, fl_memreq = 0\<rparr>) (\<lambda>fl.
           let xc = fl_xc fl;
               indxpos = f_pos (xc_handle xc);
               xc = xc\<lparr>secnum := secnum xc + 1\<rparr>;
               xc = put (chain_index (valpos_mem xc) 0 0 0) xc;
               xc = xc\<lparr>valpos_mem := map clear_chain (valpos_mem xc)\<rparr>;
               xc = xc\<lparr>vchg_mem := mem_store 0 [0x21] (vchg_mem xc), vchg_siz := 1\<rparr>;
               xc = put64 (word_of_nat (f_pos (xc_handle xc) - indxpos)) xc
           in Option.bind (put_times pk xc) (\<lambda>xc.
              Some (end_section pk (put_trailer (fl_memreq fl) xc)))))"

definition fstWriterFlushContext :: "fstWriterContext \<Rightarrow> fstWriterContext" where
  "fstWriterFlushContext xc = (if tchn_idx xc > 1 then xc\<lparr>flush_context_pending := True\<rparr> else xc)"

section \<open>Times\<close>

definition time_put :: "u64 \<Rightarrow> fstWriterContext \<Rightarrow> fstWriterContext" where
  "time_put v xc = xc\<lparr>tchn_handle := tchn_handle xc @ varint_bytes v, tchn_cnt := tchn_cnt xc + 1\<rparr>"

definition first_time :: "packers \<Rightarrow> u64 \<Rightarrow> fstWriterContext \<Rightarrow> fstWriterContext" where
  "first_time pk tim xc =
     (let xc = (if \<not> valpos_mapped xc then fstWriterCreateMmaps xc else xc);
          xc = xc\<lparr>firsttime := (if vc_emitted xc then 0 else tim), curtime := 0\<rparr>;
          xc = xc\<lparr>vchg_mem := mem_store 0 [0x21] (vchg_mem xc), vchg_siz := 1\<rparr>;
          xc = fstWriterEmitSectionHeader pk xc;
          xc = xc\<lparr>valpos_mem := map (\<lambda>vm. vm\<lparr>vp_chain := 0, vp_tidx := 0\<rparr>) (valpos_mem xc)\<rparr>
      in xc\<lparr>is_initial_time := False\<rparr>)"

definition next_time :: "packers \<Rightarrow> fstWriterContext \<Rightarrow> fstWriterContext option" where
  "next_time pk xc =
     (if ucast (vchg_siz xc) \<ge> fst_break_size xc \<or> flush_context_pending xc then
        Option.bind (fstWriterFlushContextPrivate pk (xc\<lparr>flush_context_pending := False\<rparr>)) (\<lambda>xc.
          Some (time_put (curtime xc) xc))
      else Some xc)"

definition fstWriterEmitTimeChange :: "packers \<Rightarrow> u64 \<Rightarrow> fstWriterContext \<Rightarrow> fstWriterContext option" where
  "fstWriterEmitTimeChange pk tim xc =
     (if is_initial_time xc then
        if size_limit_locked xc then Some xc
        else
          let xc = first_time pk tim xc in Some ((time_put (tim - curtime xc) xc)\<lparr>curtime := tim\<rparr>)
      else
        Option.bind (next_time pk xc) (\<lambda>xc.
          let xc = xc\<lparr>tchn_idx := tchn_idx xc + 1\<rparr>
          in Some ((time_put (tim - curtime xc) xc)\<lparr>curtime := tim\<rparr>)))"

end
