(* ===== verification/Fst_Close.thy ===== *)
theory Fst_Close
  imports Fst_Flush
begin

text \<open>
  Closing a file (\<open>src/fst/fstapi.c\<close>, \<open>fstWriterClose\<close>): the last section, or the removal of
  a section that only has its header, then the blocks with the geometry of the signals, the
  times at which dumping was switched off and on, and the hierarchy, then the final header,
  and a wrapper around the whole file if that was asked for.

  \<open>gz\<close> is zlib's \<open>gzdopen(.., "wb4")\<close>: what it writes to the file for the texts of the calls
  of \<open>gzwrite\<close>. All files can be opened. The hierarchy file is on disk as a whole: with
  \<open>fourpack\<close> it is mapped without a call of \<open>fflush\<close>, which \<open>fstWriterCreateMmaps\<close> has
  done for everything that was written before the first value or time.
\<close>

abbreviation FST_BL_BLACKOUT :: byte where "FST_BL_BLACKOUT \<equiv> 2"
abbreviation FST_BL_GEOM :: byte where "FST_BL_GEOM \<equiv> 3"
abbreviation FST_BL_HIER :: byte where "FST_BL_HIER \<equiv> 4"
abbreviation FST_BL_HIER_LZ4 :: byte where "FST_BL_HIER_LZ4 \<equiv> 6"
abbreviation FST_BL_HIER_LZ4DUO :: byte where "FST_BL_HIER_LZ4DUO \<equiv> 7"
abbreviation FST_BL_ZWRAPPER :: byte where "FST_BL_ZWRAPPER \<equiv> 254"
abbreviation FST_GZIO_LEN :: nat where "FST_GZIO_LEN \<equiv> 32768"
abbreviation FST_HDR_FOURPACK_DUO_SIZE :: nat where "FST_HDR_FOURPACK_DUO_SIZE \<equiv> 4194304"

section \<open>Files\<close>

definition f_truncate :: "nat \<Rightarrow> cfile \<Rightarrow> cfile" where
  "f_truncate n f = f\<lparr>f_data := take n (f_data f) @ replicate (n - length (f_data f)) 0\<rparr>"

definition fseek_end :: "fstWriterContext \<Rightarrow> fstWriterContext" where
  "fseek_end xc = fstWriterFseeko (int (length (f_data (xc_handle xc)))) xc"

text \<open>The loops that copy a file to zlib in pieces.\<close>

function gz_pieces :: "byte list \<Rightarrow> byte list list" where
  "gz_pieces text = (if text = [] then [] else take FST_GZIO_LEN text # gz_pieces (drop FST_GZIO_LEN text))"
  by auto
termination
  by (relation "measure length") auto

declare gz_pieces.simps [simp del]

section \<open>The last section\<close>

text \<open>
  If the time never advanced, the values are emitted for time 0. \<open>val\<close> points into
  \<open>curval_mem\<close>, which an emission does not change any more.
\<close>

fun clone_values :: "nat list \<Rightarrow> fstWriterContext \<Rightarrow> fstWriterContext option" where
  "clone_values [] xc = Some xc"
| "clone_values (dupe_idx # is) xc =
     Option.bind (peek (valpos_mem xc) dupe_idx) (\<lambda>vm.
       Option.bind (fstWriterEmitValueChange (word_of_nat dupe_idx + 1) (drop (unat (vp_offs vm)) (curval_mem xc)) xc)
         (clone_values is))"

definition close_section :: "packers \<Rightarrow> fstWriterContext \<Rightarrow> fstWriterContext option" where
  "close_section pk xc =
     (if section_header_only xc \<and> section_header_truncpos xc \<noteq> 0 \<and> vchg_siz xc \<le> 1 \<and> \<not> is_initial_time xc then
        (let n = section_header_truncpos xc;
             xc = fstWriterFseeko (int n) (xc\<lparr>xc_handle := f_truncate n (xc_handle xc)\<rparr>)
         in Some (xc\<lparr>section_header_only := False\<rparr>))
      else
        (let xc = xc\<lparr>skip_writing_section_hdr := True\<rparr> in
         if size_limit_locked xc then Some xc
         else Option.bind
           (if is_initial_time xc then
              Option.bind (fstWriterEmitTimeChange pk 0 xc) (\<lambda>xc. clone_values [0..<unat (xc_maxhandle xc)] xc)
            else Some xc)
           (fstWriterFlushContextPrivate pk)))"

section \<open>The blocks behind the sections\<close>

text \<open>A block is tagged when it is complete.\<close>

definition tag_block :: "nat \<Rightarrow> byte \<Rightarrow> fstWriterContext \<Rightarrow> fstWriterContext" where
  "tag_block fixup_offs tag xc = fseek_end (put [tag] (fstWriterFseeko (int fixup_offs) xc))"

definition put_geom :: "packers \<Rightarrow> fstWriterContext \<Rightarrow> fstWriterContext" where
  "put_geom pk xc =
     (let tmem = geom_handle xc; tlen = length tmem in
      if tlen = 0 then xc
      else
        let stored = (case pk_compress2 pk 9 tlen tmem of
              Some dmem \<Rightarrow> if length dmem < tlen then dmem else tmem
            | None \<Rightarrow> tmem);
            fixup_offs = f_pos (xc_handle xc);
            xc = put [FST_BL_SKIP] xc;
            xc = put64 (word_of_nat (length stored) + 24) xc;
            xc = put64 (word_of_nat tlen) xc;
            xc = put64 (ucast (xc_maxhandle xc)) xc;
            xc = put stored xc
        in tag_block fixup_offs FST_BL_GEOM xc)"

fun blackout_bytes :: "u64 \<Rightarrow> (u64 \<times> bool) list \<Rightarrow> byte list" where
  "blackout_bytes cur_bl [] = []"
| "blackout_bytes cur_bl ((tim, active) # bs) =
     (if active then 1 else 0) # varint_bytes (tim - cur_bl) @ blackout_bytes tim bs"

text \<open>The length of the block that starts at \<open>pos\<close> is put there.\<close>

definition put_length :: "nat \<Rightarrow> fstWriterContext \<Rightarrow> fstWriterContext" where
  "put_length pos xc =
     (let eos = f_pos (xc_handle xc) in put64 (word_of_nat (eos - pos)) (fstWriterFseeko (int pos) xc))"

definition put_blackouts :: "fstWriterContext \<Rightarrow> fstWriterContext" where
  "put_blackouts xc =
     (let num_blackouts = word_of_nat (length (blackouts xc)) :: u32 in
      if num_blackouts = 0 then xc
      else
        let fixup_offs = f_pos (xc_handle xc);
            xc = put [FST_BL_SKIP] xc;
            bpos = fixup_offs + 1;
            xc = put64 0 xc;
            xc = put_varint (ucast num_blackouts) xc;
            xc = put (blackout_bytes 0 (take (unat num_blackouts) (blackouts xc))) xc
        in tag_block fixup_offs FST_BL_BLACKOUT (put_length bpos xc))"

text \<open>What is stored of the hierarchy, and the type of its block.\<close>

definition pack_hier :: "packers \<Rightarrow> (byte list list \<Rightarrow> byte list) \<Rightarrow> fstWriterContext \<Rightarrow> byte list \<Rightarrow> byte list \<times> byte" where
  "pack_hier pk gz xc hmem =
     (if \<not> fourpack xc then (gz (gz_pieces hmem), FST_BL_HIER)
      else
        let mem = pk_LZ4_compress pk hmem;
            fourpack_duo = \<not> repack_on_close xc \<and> hier_file_len xc > FST_HDR_FOURPACK_DUO_SIZE
        in if fourpack_duo then (varint_bytes (word_of_nat (length mem) :: u64) @ pk_LZ4_compress pk mem, FST_BL_HIER_LZ4DUO)
           else (mem, FST_BL_HIER_LZ4))"

definition put_hier :: "packers \<Rightarrow> (byte list list \<Rightarrow> byte list) \<Rightarrow> fstWriterContext \<Rightarrow> fstWriterContext option" where
  "put_hier pk gz xc =
     (if \<not> compress_hier xc then Some xc
      else
        let fixup_offs = f_pos (xc_handle xc);
            xc = put [FST_BL_SKIP] xc;
            hlen = f_pos (xc_handle xc);
            xc = put64 0 xc;
            xc = put64 (word_of_nat (hier_file_len xc)) xc
        in Option.bind (slice (hier_handle xc) 0 (hier_file_len xc)) (\<lambda>hmem.
             let (stored, tag) = pack_hier pk gz xc hmem;
                 xc = fseek_end (put stored xc)
             in Some (tag_block fixup_offs tag (put_length hlen xc))))"

section \<open>The final header\<close>

definition put_header :: "fstWriterContext \<Rightarrow> fstWriterContext" where
  "put_header xc =
     (let xc = fstWriterFseeko (int FST_HDR_OFFS_START_TIME) xc;
          xc = put64 (firsttime xc) xc;
          xc = put64 (curtime xc) xc;
          xc = fstWriterFseeko (int FST_HDR_OFFS_NUM_SCOPES) xc;
          xc = put64 (ucast (numscopes xc)) xc;
          xc = put64 (ucast (numsigs xc)) xc;
          xc = put64 (ucast (xc_maxhandle xc)) xc
      in put64 (ucast (secnum xc)) xc)"

text \<open>The wrapper: its length, the length of the file in it, and the file.\<close>

definition zwrap :: "(byte list list \<Rightarrow> byte list) \<Rightarrow> byte list \<Rightarrow> byte list" where
  "zwrap gz f =
     (let z = gz (gz_pieces f)
      in FST_BL_ZWRAPPER # be_bytes 8 (word_of_nat (16 + length z)) @ be_bytes 8 (word_of_nat (length f)) @ z)"

section \<open>Closing\<close>

text \<open>
  The result is the file that is left (\<open>Inr\<close>); the context is freed. While a flush is running
  (an interrupt handler may close the file) nothing is done (\<open>Inl\<close>).
\<close>

definition close_file :: "packers \<Rightarrow> (byte list list \<Rightarrow> byte list) \<Rightarrow> fstWriterContext \<Rightarrow> fstWriterContext option" where
  "close_file pk gz xc =
     Option.bind (close_section pk xc) (\<lambda>xc.
     let xc = fstDestroyMmaps xc;
         xc = put_geom pk xc;
         xc = put_blackouts xc
     in Option.bind (put_hier pk gz xc) (\<lambda>xc. Some (put_header xc)))"

definition fstWriterClose ::
    "packers \<Rightarrow> (byte list list \<Rightarrow> byte list) \<Rightarrow> fstWriterContext \<Rightarrow> (fstWriterContext + byte list) option" where
  "fstWriterClose pk gz xc =
     (if already_in_flush xc then Some (Inl xc)
      else map_option (\<lambda>xc.
        let f = f_data (xc_handle xc) in Inr (if repack_on_close xc then zwrap gz f else f)) (close_file pk gz xc))"

end
