(* ===== verification/Fst_Blocks.thy ===== *)
theory Fst_Blocks
  imports Fst_Flush Fst_Context
begin

text \<open>
  Reading value changes (\<open>src/fst/fstapi.c\<close>, \<open>fstReaderIterBlocks2\<close> with callbacks and
  without a file for VCD text, the way \<open>src/FstProcess.cc\<close> calls it): the sections one after
  the other, in each of them the table of times, the values at its start, the index of the
  chains, and the traversal that puts the changes of all signals in the order of time.

  \<open>None\<close> is undefined behaviour (a read or write outside a buffer, a value that was never
  stored) or an error for which the program exits. zlib, LZ4, the \<open>%.16g\<close> format of
  \<open>sprintf\<close> and what fresh memory of a size contains are parameters, the fields of
  \<open>unpackers\<close>.
\<close>

record unpackers =
  up_uncompress :: "nat \<Rightarrow> byte list \<Rightarrow> byte list option"
  up_LZ4_decompress_safe_partial :: "byte list \<Rightarrow> nat \<Rightarrow> byte list option"
  up_sprintf_g :: "byte list \<Rightarrow> byte list"
  up_malloc :: "nat \<Rightarrow> byte list"

record block_reader =
  rd_f :: "byte list"
  rd_mask :: fst_mask
  rd_signal_lens :: "u32 list"
  rd_signal_typs :: "byte list"
  rd_vc_section_count :: u64
  rd_limit_range :: "(u64 \<times> u64) option"
  rd_native_doubles :: bool
  rd_double_endian_match :: bool

text \<open>A call of \<open>value_change_callback\<close> or of \<open>value_change_callback_varlen\<close>.\<close>

datatype vc_event =
    Value_change u64 nat "byte list"
  | Varlen_change u64 nat "byte list"

section \<open>Reading the file\<close>

definition read64 :: "byte list \<Rightarrow> nat \<Rightarrow> u64 option" where
  "read64 f pos = (if pos + 8 \<le> length f then Some (fst (fstReaderUint64 [] (drop pos f))) else None)"

text \<open>Data that is stored compressed unless the two lengths are equal.\<close>

definition read_packed :: "unpackers \<Rightarrow> byte list \<Rightarrow> nat \<Rightarrow> nat \<Rightarrow> nat \<Rightarrow> byte list option" where
  "read_packed up f pos uclen clen =
     Option.bind (slice f pos clen) (\<lambda>cdata.
       if uclen \<noteq> clen then
         Option.bind (up_uncompress up uclen cdata) (\<lambda>d. if length d = uclen then Some d else None)
       else Some cdata)"

fun time_table :: "nat \<Rightarrow> u64 \<Rightarrow> byte list \<Rightarrow> u64 list option" where
  "time_table 0 tpval tpnt = Some []"
| "time_table (Suc n) tpval tpnt =
     Option.bind (fstGetVarint64 tpnt) (\<lambda>(val, skiplen).
       map_option ((#) (tpval + val)) (time_table n (tpval + val) (drop skiplen tpnt)))"

section \<open>The index of the chains\<close>

text \<open>
  \<open>chain_table\<close> and \<open>chain_table_lengths\<close> are kept from section to section; they have room
  for the largest number of handles so far and one more.
\<close>

record chain_state =
  ct_idx :: nat
  ct_pidx :: nat
  ct_pval :: u64
  ct_prev_alias :: u32
  ct_table :: "u64 list"
  ct_lengths :: "u32 list"

definition set_chain :: "u64 \<Rightarrow> chain_state \<Rightarrow> chain_state option" where
  "set_chain v st = (if ct_idx st < length (ct_table st) then Some (st\<lparr>ct_table := (ct_table st)[ct_idx st := v]\<rparr>) else None)"

definition set_length :: "nat \<Rightarrow> u32 \<Rightarrow> chain_state \<Rightarrow> chain_state option" where
  "set_length i v st = (if i < length (ct_lengths st) then Some (st\<lparr>ct_lengths := (ct_lengths st)[i := v]\<rparr>) else None)"

text \<open>A chain \<open>dist\<close> bytes behind the previous one, whose length is known now.\<close>

definition index_chain :: "u64 \<Rightarrow> chain_state \<Rightarrow> chain_state option" where
  "index_chain dist st =
     (let pval = ct_pval st + dist in
      Option.bind (set_chain pval (st\<lparr>ct_pval := pval\<rparr>)) (\<lambda>st.
      Option.bind (if ct_idx st \<noteq> 0 then set_length (ct_pidx st) (ucast (pval - ct_table st ! ct_pidx st)) st else Some st) (\<lambda>st.
      Some (st\<lparr>ct_pidx := ct_idx st, ct_idx := ct_idx st + 1\<rparr>))))"

definition index_alias :: "u32 \<Rightarrow> chain_state \<Rightarrow> chain_state option" where
  "index_alias alia st =
     Option.bind (set_chain 0 st) (\<lambda>st.
     Option.bind (set_length (ct_idx st) alia st) (\<lambda>st. Some (st\<lparr>ct_idx := ct_idx st + 1\<rparr>)))"

fun index_zeros :: "nat \<Rightarrow> chain_state \<Rightarrow> chain_state option" where
  "index_zeros 0 st = Some st"
| "index_zeros (Suc n) st =
     Option.bind (set_chain 0 st) (\<lambda>st. index_zeros n (st\<lparr>ct_idx := ct_idx st + 1\<rparr>))"

text \<open>One entry of the index of a section of type \<open>FST_BL_VCDATA_DYN_ALIAS2\<close>.\<close>

definition index_entry2 :: "byte list \<Rightarrow> chain_state \<Rightarrow> (chain_state \<times> nat) option" where
  "index_entry2 pnt st =
     Option.bind (peek pnt 0) (\<lambda>b.
       if b AND 1 \<noteq> 0 then
         Option.bind (fstGetSVarint64 pnt) (\<lambda>(v, skiplen).
           let shval = signed_drop_bit 1 v in
           map_option (\<lambda>st. (st, skiplen))
             (if sint shval > 0 then index_chain shval st
              else if sint shval < 0 then index_alias (ucast shval) (st\<lparr>ct_prev_alias := ucast shval\<rparr>)
              else index_alias (ct_prev_alias st) st))
       else
         Option.bind (fstGetVarint32 pnt) (\<lambda>(val, skiplen).
           map_option (\<lambda>st. (st, skiplen)) (index_zeros (unat (drop_bit 1 val)) st)))"

text \<open>The same for the two older types.\<close>

definition index_entry1 :: "byte list \<Rightarrow> chain_state \<Rightarrow> (chain_state \<times> nat) option" where
  "index_entry1 pnt st =
     Option.bind (fstGetVarint32 pnt) (\<lambda>(val, skiplen).
       if val = 0 then
         Option.bind (fstGetVarint32 (drop skiplen pnt)) (\<lambda>(val, skiplen2).
           map_option (\<lambda>st. (st, skiplen + skiplen2)) (index_alias (- val) st))
       else if val AND 1 \<noteq> 0 then
         map_option (\<lambda>st. (st, skiplen)) (index_chain (ucast (drop_bit 1 val)) st)
       else map_option (\<lambda>st. (st, skiplen)) (index_zeros (unat (drop_bit 1 val)) st))"

definition index_entry :: "byte \<Rightarrow> byte list \<Rightarrow> chain_state \<Rightarrow> (chain_state \<times> nat) option" where
  "index_entry sectype pnt st =
     (if sectype = FST_BL_VCDATA_DYN_ALIAS2 then index_entry2 pnt st else index_entry1 pnt st)"

lemma varint_scan_pos: "varint_scan mem = Some n \<Longrightarrow> 0 < n \<and> n \<le> length mem"
  by (induction mem arbitrary: n) (auto split: if_splits)

lemma svarint_loop_pos: "svarint_loop mem rc shift k = Some (v, byt, sh, n) \<Longrightarrow> k < n"
  by (induction mem rc shift k rule: svarint_loop.induct) (auto simp: Let_def split: if_splits)

lemma get_varint32_pos: "fstGetVarint32 mem = Some (v, n) \<Longrightarrow> 0 < n \<and> n \<le> length mem"
  using varint_scan_pos by (auto simp: fstGetVarint32_def split: option.splits)

lemma index_entry_pos: "index_entry sectype pnt st = Some (st1, n) \<Longrightarrow> 0 < n"
  using get_varint32_pos
  by (fastforce simp: index_entry_def index_entry1_def index_entry2_def fstGetSVarint64_def Let_def
      dest: svarint_loop_pos split: option.splits if_splits Option.bind_splits)

text \<open>The loop runs until it is at the end of the index; it must not step over it.\<close>

function read_index :: "byte \<Rightarrow> byte list \<Rightarrow> chain_state \<Rightarrow> chain_state option" where
  "read_index sectype pnt st =
     (case index_entry sectype pnt st of
        None \<Rightarrow> None
      | Some (st1, skiplen) \<Rightarrow>
          if skiplen = length pnt then Some st1
          else if skiplen > length pnt then None
          else read_index sectype (drop skiplen pnt) st1)"
  by pat_completeness auto
termination
  by (relation "measure (\<lambda>(sectype, pnt, st). length pnt)") (auto dest: index_entry_pos)

declare read_index.simps [simp del]

text \<open>Signals with the chain of another one take its position and length.\<close>

definition resolve_alias :: "nat \<Rightarrow> chain_state \<Rightarrow> chain_state" where
  "resolve_alias i st =
     (let v32 = ct_lengths st ! i in
      if sint v32 < 0 \<and> ct_table st ! i = 0 then
        (let v = unat (- v32 - 1) in
         if v < i then
           st\<lparr>ct_table := (ct_table st)[i := ct_table st ! v], ct_lengths := (ct_lengths st)[i := ct_lengths st ! v]\<rparr>
         else st)
      else st)"

definition read_chain_table :: "byte \<Rightarrow> byte list \<Rightarrow> u64 \<Rightarrow> chain_state \<Rightarrow> chain_state option" where
  "read_chain_table sectype chain_cmem end_offs st =
     Option.bind (read_index sectype chain_cmem (st\<lparr>ct_idx := 0, ct_pval := 0, ct_prev_alias := 0\<rparr>)) (\<lambda>st.
     Option.bind (set_chain end_offs st) (\<lambda>st.
     Option.bind (set_length (ct_pidx st) (ucast (ct_table st ! ct_idx st - ct_table st ! ct_pidx st)) st) (\<lambda>st.
     Some (fold resolve_alias [0..<ct_idx st] st))))"

section \<open>Values\<close>

text \<open>The number of table entries to the change at the head of a chain.\<close>

definition next_delta :: "u32 \<Rightarrow> byte list \<Rightarrow> nat option" where
  "next_delta len mem =
     Option.bind (fstGetVarint32NoSkip mem) (\<lambda>vli.
       Some (if len = 1 then unat (drop_bit (2 * 2 ^ unat (vli AND 1)) vli) else unat (drop_bit 1 vli)))"

definition FST_RCV_STR :: "byte list" where
  "FST_RCV_STR = [0x78, 0x7a, 0x68, 0x75, 0x77, 0x6c, 0x2d, 0x3f]"

definition rcv_char :: "u32 \<Rightarrow> byte" where
  "rcv_char vli =
     (if vli AND 1 = 0 then ucast (drop_bit 1 vli AND 1) OR 0x30
      else FST_RCV_STR ! unat (drop_bit 1 vli AND 7))"

definition unpack_bits :: "nat \<Rightarrow> byte list \<Rightarrow> byte list option" where
  "unpack_bits len vdata =
     (if (len + 7) div 8 \<le> length vdata
      then Some (map (\<lambda>j. (drop_bit (7 - j mod 8) (vdata ! (j div 8)) AND 1) OR 0x30) [0..<len]) else None)"

text \<open>What the callback gets for the eight bytes of a real.\<close>

definition real_value :: "unpackers \<Rightarrow> block_reader \<Rightarrow> byte list \<Rightarrow> byte list" where
  "real_value up xc srcdata =
     (let clone_d = (if rd_double_endian_match xc then srcdata else rev srcdata)
      in if rd_native_doubles xc then clone_d else up_sprintf_g up clone_d)"

abbreviation FST_VT_VCD_REAL :: byte where "FST_VT_VCD_REAL \<equiv> 3"

text \<open>
  The change at the head of a chain (\<open>mem\<close> is the memory from there on): the event, which
  gets its time later, and its size. The bit of a variable-length value that is reserved
  for extensions suppresses it.
\<close>

definition read_bit :: "nat \<Rightarrow> byte list \<Rightarrow> ((u64 \<Rightarrow> vc_event list) \<times> nat) option" where
  "read_bit idx mem =
     Option.bind (fstGetVarint32 mem) (\<lambda>(vli, skiplen).
       Some (\<lambda>tim. [Value_change tim (idx + 1) [rcv_char vli]], skiplen))"

definition read_varlen :: "nat \<Rightarrow> byte list \<Rightarrow> ((u64 \<Rightarrow> vc_event list) \<times> nat) option" where
  "read_varlen idx mem =
     Option.bind (fstGetVarint32 mem) (\<lambda>(vli, skiplen).
     Option.bind (fstGetVarint32 (drop skiplen mem)) (\<lambda>(len, skiplen2).
     Option.bind (slice mem (skiplen + skiplen2) (unat len)) (\<lambda>vdata.
       Some (\<lambda>tim. if vli AND 1 = 0 then [Varlen_change tim (idx + 1) vdata] else [],
             skiplen + skiplen2 + unat len))))"

definition read_vector :: "nat \<Rightarrow> u32 \<Rightarrow> byte list \<Rightarrow> ((u64 \<Rightarrow> vc_event list) \<times> nat) option" where
  "read_vector idx len mem =
     Option.bind (fstGetVarint32 mem) (\<lambda>(vli, skiplen).
       if vli AND 1 = 0 then
         Option.bind (unpack_bits (unat len) (drop skiplen mem)) (\<lambda>v.
           Some (\<lambda>tim. [Value_change tim (idx + 1) v], skiplen + (unat len + 7) div 8))
       else
         Option.bind (slice mem skiplen (unat len)) (\<lambda>v.
           Some (\<lambda>tim. [Value_change tim (idx + 1) v], skiplen + unat len)))"

definition read_real :: "unpackers \<Rightarrow> block_reader \<Rightarrow> nat \<Rightarrow> u32 \<Rightarrow> byte list \<Rightarrow> ((u64 \<Rightarrow> vc_event list) \<times> nat) option" where
  "read_real up xc idx len mem =
     Option.bind (fstGetVarint32 mem) (\<lambda>(vli, skiplen).
       if vli AND 1 = 0 then
         Option.bind (unpack_bits 8 (drop skiplen mem)) (\<lambda>buf.
           Some (\<lambda>tim. [Value_change tim (idx + 1) (real_value up xc buf)], skiplen + 1))
       else
         Option.bind (slice mem skiplen 8) (\<lambda>srcdata.
           Some (\<lambda>tim. [Value_change tim (idx + 1) (real_value up xc srcdata)], skiplen + unat len)))"

definition read_change :: "unpackers \<Rightarrow> block_reader \<Rightarrow> nat \<Rightarrow> byte list \<Rightarrow> ((u64 \<Rightarrow> vc_event list) \<times> nat) option" where
  "read_change up xc idx mem =
     Option.bind (peek (rd_signal_lens xc) idx) (\<lambda>len.
     Option.bind (peek (rd_signal_typs xc) idx) (\<lambda>typ'.
       if len = 1 then read_bit idx mem
       else if len = 0 then read_varlen idx mem
       else if typ' \<noteq> FST_VT_VCD_REAL then read_vector idx len mem
       else read_real up xc idx len mem))"

section \<open>The traversal\<close>

text \<open>
  \<open>tc_head\<close> has for every time the first signal that changes then, \<open>scatterptr\<close> for every
  signal the next one in the same list, both counted from 1, 0 at the end.
\<close>

record traversal =
  tr_mem :: "byte list"
  tr_headptr :: "nat list"
  tr_remaining :: "u32 list"
  tr_scatter :: "nat list"
  tr_tc_head :: "nat list"
  tr_events :: "vc_event list"

definition enqueue :: "nat \<Rightarrow> nat \<Rightarrow> traversal \<Rightarrow> traversal option" where
  "enqueue i t tr =
     (if t < length (tr_tc_head tr) then
        Some (tr\<lparr>tr_scatter := (tr_scatter tr)[i := tr_tc_head tr ! t], tr_tc_head := (tr_tc_head tr)[t := i + 1]\<rparr>)
      else None)"

text \<open>
  One pass of the loop over the list of the time \<open>i\<close>. The index of the next time is a sum of
  \<open>uint32_t\<close> and wraps around; the positions in the memory are of that type too, and
  \<open>load_chain\<close> below has put less than \<open>2 ^ 32\<close> bytes there.
\<close>

definition advance :: "nat \<Rightarrow> nat \<Rightarrow> nat \<Rightarrow> nat \<Rightarrow> vc_event list \<Rightarrow> traversal \<Rightarrow> traversal" where
  "advance i idx head skiplen evs tr =
     (let tr = tr\<lparr>tr_events := tr_events tr @ evs\<rparr>;
          tr = tr\<lparr>tr_headptr := (tr_headptr tr)[idx := head + skiplen],
                  tr_remaining := (tr_remaining tr)[idx := tr_remaining tr ! idx - word_of_nat skiplen]\<rparr>;
          tr = tr\<lparr>tr_tc_head := (tr_tc_head tr)[i := tr_scatter tr ! idx]\<rparr>
      in tr\<lparr>tr_scatter := (tr_scatter tr)[idx := 0]\<rparr>)"

definition visit_signal :: "unpackers \<Rightarrow> block_reader \<Rightarrow> u64 \<Rightarrow> nat \<Rightarrow> traversal \<Rightarrow> traversal option" where
  "visit_signal up xc tim i tr =
     (let idx = tr_tc_head tr ! i - 1 in
      Option.bind (peek (tr_headptr tr) idx) (\<lambda>head.
      Option.bind (read_change up xc idx (drop head (tr_mem tr))) (\<lambda>(ev, skiplen).
        let tr = advance i idx head skiplen (ev tim) tr
        in if tr_remaining tr ! idx \<noteq> 0 then
             Option.bind (next_delta (rd_signal_lens xc ! idx) (drop (head + skiplen) (tr_mem tr)))
               (\<lambda>tdelta. enqueue idx ((i + tdelta) mod 2 ^ 32) tr)
           else Some tr)))"

text \<open>Every pass moves a signal forward in the memory.\<close>

definition to_read :: "traversal \<Rightarrow> nat" where
  "to_read tr = sum_list (map (\<lambda>head. length (tr_mem tr) - head) (tr_headptr tr))"

lemma read_change_pos:
  assumes "read_change up xc idx mem = Some (ev, n)"
  shows "0 < n \<and> mem \<noteq> []"
  using assms get_varint32_pos
  by (fastforce simp: read_change_def read_bit_def read_varlen_def read_vector_def read_real_def
      split: Option.bind_splits if_splits)

lemma sum_list_update_less:
  fixes f :: "'a \<Rightarrow> nat"
  assumes "i < length xs" "f x < f (xs ! i)"
  shows "sum_list (map f (xs[i := x])) < sum_list (map f xs)"
  using assms by (induction xs arbitrary: i) (auto split: nat.splits)

lemma enqueue_fields:
  "enqueue i t tr = Some tr1 \<Longrightarrow> tr_mem tr1 = tr_mem tr \<and> tr_headptr tr1 = tr_headptr tr"
  by (auto simp: enqueue_def split: if_splits)

lemma advance_fields:
  "tr_mem (advance i idx head n evs tr) = tr_mem tr"
  "tr_headptr (advance i idx head n evs tr) = (tr_headptr tr)[idx := head + n]"
  by (simp_all add: advance_def Let_def)

lemma visit_signal_to_read:
  assumes "visit_signal up xc tim i tr = Some tr1"
  shows "to_read tr1 < to_read tr"
proof -
  let ?idx = "tr_tc_head tr ! i - 1"
  obtain head ev n where h: "?idx < length (tr_headptr tr)" "head = tr_headptr tr ! ?idx"
    and r: "read_change up xc ?idx (drop head (tr_mem tr)) = Some (ev, n)"
    and f: "tr_mem tr1 = tr_mem tr" "tr_headptr tr1 = (tr_headptr tr)[?idx := head + n]"
    using assms
    by (auto simp: visit_signal_def Let_def peek_Some_iff advance_fields
        split: Option.bind_splits if_splits dest!: enqueue_fields)
  have "0 < n" "head < length (tr_mem tr)"
    using read_change_pos [OF r] by auto
  then show ?thesis
    unfolding to_read_def f using h by (intro sum_list_update_less) auto
qed

function visit_time :: "unpackers \<Rightarrow> block_reader \<Rightarrow> u64 \<Rightarrow> nat \<Rightarrow> traversal \<Rightarrow> traversal option" where
  "visit_time up xc tim i tr =
     (if tr_tc_head tr ! i = 0 then Some tr
      else (case visit_signal up xc tim i tr of None \<Rightarrow> None | Some tr1 \<Rightarrow> visit_time up xc tim i tr1))"
  by pat_completeness auto
termination
  by (relation "measure (\<lambda>(up, xc, tim, i, tr). to_read tr)") (auto dest: visit_signal_to_read)

declare visit_time.simps [simp del]

fun visit_times :: "unpackers \<Rightarrow> block_reader \<Rightarrow> nat \<Rightarrow> u64 list \<Rightarrow> traversal \<Rightarrow> traversal option" where
  "visit_times up xc i [] tr = Some tr"
| "visit_times up xc i (tim # tims) tr =
     Option.bind (visit_time up xc tim i tr) (visit_times up xc (i + 1) tims)"

section \<open>Sections\<close>

definition masked :: "block_reader \<Rightarrow> nat \<Rightarrow> bool option" where
  "masked xc idx = map_option (\<lambda>m. m AND push_bit (idx mod 8) 1 \<noteq> 0) (peek (process_mask (rd_mask xc)) (idx div 8))"

text \<open>The values at the start of the section, one signal after the other.\<close>

definition frame_value :: "unpackers \<Rightarrow> block_reader \<Rightarrow> u64 \<Rightarrow> nat \<Rightarrow> byte list \<Rightarrow> vc_event list option" where
  "frame_value up xc tim idx mu =
     Option.bind (peek (rd_signal_lens xc) idx) (\<lambda>len.
     Option.bind (peek (rd_signal_typs xc) idx) (\<lambda>typ'.
       if len = 0 then Some []
       else if len = 1 \<or> typ' \<noteq> FST_VT_VCD_REAL then
         map_option (\<lambda>v. [Value_change tim (idx + 1) v]) (slice mu 0 (unat len))
       else map_option (\<lambda>v. [Value_change tim (idx + 1) (real_value up xc v)]) (slice mu 0 8)))"

fun frame_values :: "unpackers \<Rightarrow> block_reader \<Rightarrow> u64 \<Rightarrow> nat list \<Rightarrow> byte list \<Rightarrow> vc_event list option" where
  "frame_values up xc tim [] mu = Some []"
| "frame_values up xc tim (idx # idxs) mu =
     Option.bind (masked xc idx) (\<lambda>m.
     Option.bind (peek (rd_signal_lens xc) idx) (\<lambda>len.
     Option.bind (if m then frame_value up xc tim idx mu else Some []) (\<lambda>evs.
     map_option ((@) evs) (frame_values up xc tim idxs (drop (unat len) mu)))))"

text \<open>
  Loading a chain. The length in the table includes the number in front of the compressed
  text, so that the decompressors get a few bytes too many. \<open>mc_mem\<close> is the buffer for
  compressed text, which is kept for the next chain.
\<close>

definition unpack_chain :: "unpackers \<Rightarrow> byte \<Rightarrow> byte list \<Rightarrow> nat \<Rightarrow> nat \<Rightarrow> byte list option" where
  "unpack_chain up packtype mc_mem sourcelen destlen =
     Option.bind
       (if packtype = 0x34 then up_LZ4_decompress_safe_partial up (take sourcelen mc_mem) destlen
        else if packtype = 0x46 then map_option snd (fastlz_decompress mc_mem sourcelen destlen)
        else up_uncompress up destlen (take sourcelen mc_mem))
       (\<lambda>mu. if length mu = destlen then Some mu else None)"

record loading =
  ld_tr :: traversal
  ld_mc_mem :: "byte list"

definition chain_data ::
    "unpackers \<Rightarrow> block_reader \<Rightarrow> byte \<Rightarrow> nat \<Rightarrow> nat \<Rightarrow> byte list \<Rightarrow> (byte list \<times> byte list) option" where
  "chain_data up xc packtype pos clen mc_mem =
     Option.bind (fstReaderVarint32WithSkip (drop pos (rd_f xc))) (\<lambda>(val, skiplen, _).
       if val \<noteq> 0 then
         (let mc_mem = (if length mc_mem < clen then up_malloc up clen else mc_mem) in
          Option.bind (slice (rd_f xc) (pos + skiplen) clen) (\<lambda>mc.
            let mc_mem = poke mc_mem 0 mc in
            map_option (\<lambda>mu. (mu, mc_mem)) (unpack_chain up packtype mc_mem clen (unat val))))
       else if clen < skiplen then None
       else map_option (\<lambda>mu. (mu, mc_mem)) (slice (rd_f xc) (pos + skiplen) (clen - skiplen)))"

text \<open>
  A chain that does not fit into the memory that the header of the section has announced is
  written outside of it. The offset \<open>traversal_mem_offs\<close> is a \<open>uint32_t\<close>: a section whose chains
  have \<open>2 ^ 32\<close> bytes or more would overwrite its first ones, and is \<open>None\<close> as well.
\<close>

definition load_chain ::
    "unpackers \<Rightarrow> block_reader \<Rightarrow> byte \<Rightarrow> nat \<Rightarrow> nat \<Rightarrow> chain_state \<Rightarrow> nat \<Rightarrow> loading \<Rightarrow> loading option" where
  "load_chain up xc packtype vc_start memreq st i ld =
     (if ct_table st ! i = 0 then Some ld
      else Option.bind (masked xc i) (\<lambda>m.
        if \<not> m then Some ld
        else Option.bind (chain_data up xc packtype (vc_start + unat (ct_table st ! i)) (unat (ct_lengths st ! i)) (ld_mc_mem ld))
          (\<lambda>(mu, mc_mem).
            let tr = ld_tr ld; offs = length (tr_mem tr);
                tr = tr\<lparr>tr_mem := tr_mem tr @ mu, tr_headptr := (tr_headptr tr)[i := offs],
                        tr_remaining := (tr_remaining tr)[i := word_of_nat (length mu)]\<rparr>
            in if offs + length mu > memreq + 66 \<or> offs + length mu \<ge> 2 ^ 32 then None
               else Option.bind (next_delta (rd_signal_lens xc ! i) (drop offs (tr_mem tr))) (\<lambda>tdelta.
                    map_option (\<lambda>tr. \<lparr>ld_tr = tr, ld_mc_mem = mc_mem\<rparr>) (enqueue i tdelta tr)))))"

fun load_chains ::
    "unpackers \<Rightarrow> block_reader \<Rightarrow> byte \<Rightarrow> nat \<Rightarrow> nat \<Rightarrow> chain_state \<Rightarrow> nat list \<Rightarrow> loading \<Rightarrow> loading option" where
  "load_chains up xc packtype vc_start memreq st [] ld = Some ld"
| "load_chains up xc packtype vc_start memreq st (i # is) ld =
     Option.bind (load_chain up xc packtype vc_start memreq st i ld)
       (load_chains up xc packtype vc_start memreq st is)"

text \<open>The changes of a section: the table of times, the chains, the traversal.\<close>

definition section_changes ::
    "unpackers \<Rightarrow> block_reader \<Rightarrow> byte \<Rightarrow> nat \<Rightarrow> nat \<Rightarrow> u64 list \<Rightarrow> chain_state \<Rightarrow> vc_event list option" where
  "section_changes up xc packtype vc_start memreq tims st =
     (let n = unat (maxhandle (rd_mask xc));
          tr = \<lparr>tr_mem = [], tr_headptr = replicate n 0, tr_remaining = replicate n 0, tr_scatter = replicate n 0,
                tr_tc_head = replicate (max 1 (length tims)) 0, tr_events = []\<rparr>
      in Option.bind (load_chains up xc packtype vc_start memreq st [0..<min (ct_idx st) n]
           \<lparr>ld_tr = tr, ld_mc_mem = up_malloc up 16384\<rparr>) (\<lambda>ld.
         map_option tr_events (visit_times up xc 0 tims (ld_tr ld))))"

text \<open>
  A section from \<open>blkpos\<close> on, the position behind the byte with its type. The iteration ends
  early at a section that is too short for its table of times. The tables of the chains are
  new if there are more handles than before; without any, the section is skipped.
\<close>

datatype section_result =
    Stop
  | Section "vc_event list" chain_state

definition section_times :: "unpackers \<Rightarrow> byte list \<Rightarrow> nat \<Rightarrow> (u64 list \<times> nat) option" where
  "section_times up f endpos =
     Option.bind (read64 f (endpos - 24)) (\<lambda>uclen.
     Option.bind (read64 f (endpos - 16)) (\<lambda>clen.
     Option.bind (read64 f (endpos - 8)) (\<lambda>nitems.
       if endpos < 24 + unat clen then None
       else Option.bind (read_packed up f (endpos - 24 - unat clen) (unat uclen) (unat clen)) (\<lambda>ucdata.
         map_option (\<lambda>tims. (tims, unat clen)) (time_table (unat nitems) 0 ucdata)))))"

definition section_frame ::
    "unpackers \<Rightarrow> block_reader \<Rightarrow> bool \<Rightarrow> u64 \<Rightarrow> nat \<Rightarrow> (vc_event list \<times> nat) option" where
  "section_frame up xc deliver beg_tim pos =
     (let f = rd_f xc in
      Option.bind (fstReaderVarint64 (drop pos f)) (\<lambda>(uclen, f1).
      Option.bind (fstReaderVarint64 f1) (\<lambda>(clen, f2).
      Option.bind (fstReaderVarint64 f2) (\<lambda>(frame_maxhandle, f3).
        let pos = length f - length f3 in
        Option.bind (if deliver then
            Option.bind (read_packed up f pos (unat uclen) (unat clen)) (frame_values up xc beg_tim [0..<unat frame_maxhandle])
          else Some []) (\<lambda>evs. Some (evs, pos + unat clen))))))"

definition new_tables :: "nat \<Rightarrow> chain_state \<Rightarrow> chain_state" where
  "new_tables vc_maxhandle st =
     (if vc_maxhandle + 1 > length (ct_table st) \<and> vc_maxhandle > 0
      then st\<lparr>ct_table := replicate (vc_maxhandle + 1) 0, ct_lengths := replicate (vc_maxhandle + 1) 0\<rparr> else st)"

definition section_chains ::
    "unpackers \<Rightarrow> block_reader \<Rightarrow> byte \<Rightarrow> nat \<Rightarrow> nat \<Rightarrow> nat \<Rightarrow> u64 list \<Rightarrow> chain_state \<Rightarrow> (vc_event list \<times> chain_state) option" where
  "section_chains up xc sectype pos indx_pntr memreq tims st =
     (let f = rd_f xc in
      Option.bind (fstReaderVarint64 (drop pos f)) (\<lambda>(vc_maxhandle, f1).
        let vc_start = length f - length f1 in
        Option.bind (peek f vc_start) (\<lambda>packtype.
        Option.bind (read64 f indx_pntr) (\<lambda>chain_clen.
          if indx_pntr < unat chain_clen then None
          else
            let indx_pos = indx_pntr - unat chain_clen; st = new_tables (unat vc_maxhandle) st in
            Option.bind (slice f indx_pos (unat chain_clen)) (\<lambda>chain_cmem.
              if ct_table st = [] then Some ([], st)
              else if indx_pos < vc_start then None
              else Option.bind (read_chain_table sectype chain_cmem (word_of_nat (indx_pos - vc_start)) st) (\<lambda>st.
                map_option (\<lambda>evs. (evs, st)) (section_changes up xc packtype vc_start memreq tims st)))))))"

definition iter_section ::
    "unpackers \<Rightarrow> block_reader \<Rightarrow> byte \<Rightarrow> nat \<Rightarrow> nat \<Rightarrow> u64 \<Rightarrow> bool \<Rightarrow> bool \<Rightarrow> chain_state \<Rightarrow> section_result option" where
  "iter_section up xc sectype blkpos seclen beg_tim first skipped st =
     Option.bind (read64 (rd_f xc) (blkpos + 24)) (\<lambda>memreq.
       let endpos = blkpos + seclen in
       if endpos < 24 then Some Stop
       else Option.bind (read64 (rd_f xc) (endpos - 16)) (\<lambda>tsec_clen.
         if unat tsec_clen > seclen then Some Stop
         else Option.bind (section_times up (rd_f xc) endpos) (\<lambda>(tims, tsec_clen).
           if first \<and> tims = [] then None
           else Option.bind (section_frame up xc (first \<and> (beg_tim \<noteq> hd tims \<or> skipped)) beg_tim (blkpos + 32)) (\<lambda>(evs, pos).
             if endpos < 32 + tsec_clen then None
             else map_option (\<lambda>(evs2, st). Section (evs @ evs2) st)
               (section_chains up xc sectype pos (endpos - 24 - tsec_clen - 8) (unat memreq) tims st)))))"

text \<open>
  All sections. A length that leads out of the range of file positions is \<open>None\<close>.
\<close>

definition is_vcdata :: "byte \<Rightarrow> bool" where
  "is_vcdata sectype \<longleftrightarrow> sectype = 1 \<or> sectype = 5 \<or> sectype = FST_BL_VCDATA_DYN_ALIAS2"

function iter_blocks ::
    "unpackers \<Rightarrow> block_reader \<Rightarrow> nat \<Rightarrow> u32 \<Rightarrow> bool \<Rightarrow> chain_state \<Rightarrow> vc_event list option" where
  "iter_blocks up xc blkpos sec skipped st =
     (let f = rd_f xc in
      if length f \<le> blkpos \<or> f ! blkpos = FST_BL_SKIP then Some []
      else (case read64 f (blkpos + 1) of
        None \<Rightarrow> None
      | Some seclen \<Rightarrow>
          let sectype = f ! blkpos; pos = blkpos + 1; next_pos = pos + unat seclen in
          if next_pos \<ge> 2 ^ 63 then None
          else if \<not> is_vcdata sectype then iter_blocks up xc next_pos sec skipped st
          else if seclen = 0 then Some []
          else (case (read64 f (pos + 8), read64 f (pos + 16)) of
            (Some beg_tim, Some end_tim) \<Rightarrow>
              if (case rd_limit_range xc of Some (lo, hi) \<Rightarrow> end_tim < lo | None \<Rightarrow> False)
              then iter_blocks up xc next_pos sec True st
              else if (case rd_limit_range xc of Some (lo, hi) \<Rightarrow> beg_tim > hi | None \<Rightarrow> False) then Some []
              else (case iter_section up xc sectype pos (unat seclen) beg_tim (sec = 0) skipped st of
                None \<Rightarrow> None
              | Some Stop \<Rightarrow> Some []
              | Some (Section evs st1) \<Rightarrow>
                  if ucast (sec + 1) = rd_vc_section_count xc then Some evs
                  else map_option ((@) evs) (iter_blocks up xc next_pos (sec + 1) skipped st1))
          | _ \<Rightarrow> None)))"
  by pat_completeness auto
termination
  by (relation "measure (\<lambda>(up, xc, blkpos, sec, skipped, st). length (rd_f xc) - blkpos)") auto

declare iter_blocks.simps [simp del]

definition fstReaderIterBlocks2 :: "unpackers \<Rightarrow> block_reader \<Rightarrow> vc_event list option" where
  "fstReaderIterBlocks2 up xc =
     iter_blocks up xc 0 0 False
       \<lparr>ct_idx = 0, ct_pidx = 0, ct_pval = 0, ct_prev_alias = 0, ct_table = [], ct_lengths = []\<rparr>"

text \<open>Without a callback for values of variable length these are left out.\<close>

definition fstReaderIterBlocks :: "unpackers \<Rightarrow> block_reader \<Rightarrow> vc_event list option" where
  "fstReaderIterBlocks up xc =
     map_option (filter (\<lambda>e. case e of Value_change _ _ _ \<Rightarrow> True | Varlen_change _ _ _ \<Rightarrow> False)) (fstReaderIterBlocks2 up xc)"

end
