(* ===== verification/Fst_Hier.thy ===== *)
theory Fst_Hier
  imports Fst_Writer
begin

text \<open>
  Reading the hierarchy (\<open>src/fst/fstapi.c\<close>, \<open>fstReaderIterateHier\<close>): the records of the
  hierarchy file, one per call. The file is the list of its bytes; \<open>fh_rest\<close> are those from
  its position on and \<open>fh_eof\<close> is the end-of-file flag.

  The outer \<open>None\<close> of a reading function is undefined behaviour: \<open>fgetc\<close> delivers \<open>EOF\<close>
  for ever at the end of the file, and the loops for names store it behind the end of
  their buffer of 513 bytes, as they do with the characters of a longer name.
\<close>

section \<open>The reader\<close>

datatype fst_hier =
    Hier_SCOPE (h_typ: byte) (h_name: "byte list") (h_comp: "byte list")
  | Hier_UPSCOPE
  | Hier_ATTRBEGIN (h_typ: byte) (h_subtype: byte) (h_name: "byte list") (h_arg: u64) (h_arg_from_name: "u64 option")
  | Hier_ATTREND
  | Hier_VAR (h_typ: byte) (h_direction: byte) (h_name: "byte list") (h_length: u32) (h_handle: u32) (h_is_alias: bool)

record hier_reader =
  fh :: "byte list"
  fh_rest :: "byte list"
  fh_eof :: bool
  do_rewind :: bool
  current_handle :: u32

text \<open>The loop that copies a string to a buffer with \<open>room\<close> for its characters.\<close>

fun cstr :: "nat \<Rightarrow> byte list \<Rightarrow> (byte list \<times> byte list) option" where
  "cstr room [] = None"
| "cstr room (ch # f) =
     (if ch = 0 then Some ([], f)
      else if room = 0 then None
      else map_option (\<lambda>(s, g). (ch # s, g)) (cstr (room - 1) f))"

abbreviation FST_ID_NAM_SIZ :: nat where "FST_ID_NAM_SIZ \<equiv> 512"

definition iterate_scope :: "byte list \<Rightarrow> (fst_hier \<times> byte list) option" where
  "iterate_scope f =
     (case f of
        [] \<Rightarrow> None
      | typ # f \<Rightarrow>
          (case cstr FST_ID_NAM_SIZ f of
             None \<Rightarrow> None
           | Some (nam, f) \<Rightarrow>
               (case cstr FST_ID_NAM_SIZ f of
                  None \<Rightarrow> None
                | Some (cmp, f) \<Rightarrow> Some (Hier_SCOPE typ nam cmp, f))))"

definition iterate_attrbegin :: "byte list \<Rightarrow> (fst_hier \<times> byte list) option" where
  "iterate_attrbegin f =
     (case f of
        typ # subtype # f \<Rightarrow>
          (case cstr FST_ID_NAM_SIZ f of
             None \<Rightarrow> None
           | Some (nam, f) \<Rightarrow>
               (case fstReaderVarint64 f of
                  None \<Rightarrow> None
                | Some (arg, f) \<Rightarrow>
                    Some (Hier_ATTRBEGIN typ subtype nam arg
                      (if typ = 0 \<and> (subtype = 4 \<or> subtype = 5)
                       then map_option fst (fstGetVarint64 (nam @ [0])) else None), f)))
      | _ \<Rightarrow> None)"

definition iterate_var :: "byte \<Rightarrow> u32 \<Rightarrow> byte list \<Rightarrow> (fst_hier \<times> u32 \<times> byte list) option" where
  "iterate_var tag handle_count f =
     (case f of
        [] \<Rightarrow> None
      | dir # f \<Rightarrow>
          (case cstr FST_ID_NAM_SIZ f of
             None \<Rightarrow> None
           | Some (nam, f) \<Rightarrow>
               (case fstReaderVarint32 f of
                  None \<Rightarrow> None
                | Some (len, f) \<Rightarrow>
                    (let len = (if tag = 18 then (len - 2) div 3 else len) in
                     case fstReaderVarint32 f of
                       None \<Rightarrow> None
                     | Some (al, f) \<Rightarrow>
                         if al = 0 then
                           Some (Hier_VAR tag dir nam len (handle_count + 1) False, handle_count + 1, f)
                         else Some (Hier_VAR tag dir nam len al True, handle_count, f)))))"

text \<open>The result of the function is \<open>NULL\<close>, the inner \<open>None\<close>, at the end of the file and at an
  unknown tag.\<close>

definition fstReaderIterateHier :: "hier_reader \<Rightarrow> (fst_hier option \<times> hier_reader) option" where
  "fstReaderIterateHier xc =
     (let xc = (if do_rewind xc
                then xc\<lparr>do_rewind := False, current_handle := 0, fh_rest := fh xc, fh_eof := False\<rparr> else xc)
      in if fh_eof xc then Some (None, xc)
      else case fh_rest xc of
        [] \<Rightarrow> Some (None, xc\<lparr>fh_eof := True\<rparr>)
      | tag # f \<Rightarrow>
          if tag = 254 then
            map_option (\<lambda>(h, f). (Some h, xc\<lparr>fh_rest := f\<rparr>)) (iterate_scope f)
          else if tag = 255 then Some (Some Hier_UPSCOPE, xc\<lparr>fh_rest := f\<rparr>)
          else if tag = 252 then
            map_option (\<lambda>(h, f). (Some h, xc\<lparr>fh_rest := f\<rparr>)) (iterate_attrbegin f)
          else if tag = 253 then Some (Some Hier_ATTREND, xc\<lparr>fh_rest := f\<rparr>)
          else if tag \<le> 29 then
            map_option (\<lambda>(h, n, f). (Some h, xc\<lparr>fh_rest := f, current_handle := n\<rparr>))
              (iterate_var tag (current_handle xc) f)
          else Some (None, xc\<lparr>fh_rest := f\<rparr>))"

text \<open>\<open>fstReaderIterateHierRewind\<close> with the hierarchy file open.\<close>

definition fstReaderIterateHierRewind :: "hier_reader \<Rightarrow> bool \<times> hier_reader" where
  "fstReaderIterateHierRewind xc = (True, xc\<lparr>do_rewind := True\<rparr>)"

section \<open>Round trip\<close>

text \<open>The calls that describe a design, and the records a reader is to see.\<close>

datatype hier_call =
    Call_SetScope u32 "byte list option" "byte list option"
  | Call_SetUpscope
  | Call_SetAttrBegin u32 u32 "byte list option" u64
  | Call_SetAttrEnd
  | Call_CreateVar u32 u32 u32 "byte list" u32

definition attr_seen :: "byte \<Rightarrow> byte \<Rightarrow> byte list \<Rightarrow> u64 option" where
  "attr_seen typ subtype nam =
     (if typ = 0 \<and> (subtype = 4 \<or> subtype = 5) then map_option fst (fstGetVarint64 (nam @ [0])) else None)"

definition run_call :: "hier_call \<Rightarrow> fstWriterContext \<Rightarrow> fst_hier \<times> fstWriterContext" where
  "run_call c xc =
     (case c of
        Call_SetScope typ nam cmp \<Rightarrow>
          (Hier_SCOPE (ucast (if typ > 21 then 0 else typ)) (opt_text nam) (opt_text cmp), fstWriterSetScope typ nam cmp xc)
      | Call_SetUpscope \<Rightarrow> (Hier_UPSCOPE, fstWriterSetUpscope xc)
      | Call_SetAttrBegin typ subtype nam arg \<Rightarrow>
          (let (t, s) = attr_types typ subtype in
           (Hier_ATTRBEGIN (ucast t) (ucast s) (opt_text nam) arg (attr_seen (ucast t) (ucast s) (opt_text nam)),
            fstWriterSetAttrBegin typ subtype nam arg xc))
      | Call_SetAttrEnd \<Rightarrow> (Hier_ATTREND, fstWriterSetAttrEnd xc)
      | Call_CreateVar vt vd len nam al \<Rightarrow>
          (let (h, xc1) = fstWriterCreateVar vt vd len (Some nam) al xc in
           (Hier_VAR (ucast vt) (ucast vd) nam
              (if vt = 18 then (var_len vt len - 2) div 3 else var_len vt len)
              h (al \<noteq> 0 \<and> al \<le> xc_maxhandle xc), xc1)))"

fun run_calls :: "hier_call list \<Rightarrow> fstWriterContext \<Rightarrow> fst_hier list \<times> fstWriterContext" where
  "run_calls [] xc = ([], xc)"
| "run_calls (c # cs) xc =
     (let (h, xc) = run_call c xc; (hs, xc) = run_calls cs xc in (h # hs, xc))"

text \<open>\<open>n\<close> calls of the iterator, up to the first \<open>NULL\<close>.\<close>

fun iterate :: "nat \<Rightarrow> hier_reader \<Rightarrow> (fst_hier list \<times> hier_reader) option" where
  "iterate 0 r = Some ([], r)"
| "iterate (Suc n) r =
     (case fstReaderIterateHier r of
        None \<Rightarrow> None
      | Some (None, r) \<Rightarrow> Some ([], r)
      | Some (Some h, r) \<Rightarrow> map_option (\<lambda>(hs, r). (h # hs, r)) (iterate n r))"

text \<open>Names without NUL that fit the reader's buffers, and a type the reader knows.\<close>

definition good_name :: "byte list \<Rightarrow> bool" where
  "good_name s \<longleftrightarrow> no_nul s \<and> length s \<le> FST_ID_NAM_SIZ"

fun good_call :: "hier_call \<Rightarrow> bool" where
  "good_call (Call_SetScope typ nam cmp) = (good_name (opt_text nam) \<and> good_name (opt_text cmp))"
| "good_call (Call_SetAttrBegin typ subtype nam arg) = good_name (opt_text nam)"
| "good_call (Call_CreateVar vt vd len nam al) = (good_name nam \<and> vt \<le> 29)"
| "good_call _ = True"

lemma cstr_name: "no_nul s \<Longrightarrow> length s \<le> room \<Longrightarrow> cstr room (s @ 0 # f) = Some (s, f)"
  by (induction s arbitrary: room) auto

lemma cstr_good: "good_name s \<Longrightarrow> cstr FST_ID_NAM_SIZ (s @ 0 # f) = Some (s, f)"
  by (simp add: good_name_def cstr_name)

lemma reader32_varint: "fstReaderVarint32 (varint_bytes (ucast (v :: u32) :: u64) @ rest) = Some (v, rest)"
proof -
  have "unat (ucast v :: u64) < 2 ^ 35"
    using unsigned_less [of v, where ?'a = nat]
    by (simp add: unsigned_ucast_eq take_bit_nat_eq_self)
  then have "length (varint_bytes (ucast v :: u64)) \<le> 5"
    using varint_length_le [of 5 "ucast v :: u64"] by simp
  moreover have "(ucast (ucast v :: u64) :: u32) = v"
    by (rule bit_word_eqI) (simp add: bit_simps)
  ultimately show ?thesis
    by (simp add: fstReaderVarint32_def reader_varint_bytes)
qed

lemma reader32_zero: "fstReaderVarint32 (varint_bytes (0 :: u64) @ rest) = Some (0, rest)"
  using reader32_varint [of 0 rest] by simp

lemma reader64_varint: "fstReaderVarint64 (varint_bytes (v :: u64) @ rest) = Some (v, rest)"
  using varint_length_64 [of v] by (simp add: fstReaderVarint64_def reader_varint_bytes)

text \<open>The bytes a call appends.\<close>

fun call_bytes :: "u32 \<Rightarrow> hier_call \<Rightarrow> byte list" where
  "call_bytes n (Call_SetScope typ nam cmp) =
     254 # ucast (if typ > 21 then 0 else typ) # opt_text nam @ 0 # opt_text cmp @ [0]"
| "call_bytes n Call_SetUpscope = [255]"
| "call_bytes n (Call_SetAttrBegin typ subtype nam arg) =
     (let (t, s) = attr_types typ subtype in 252 # ucast t # ucast s # opt_text nam @ 0 # varint_bytes arg)"
| "call_bytes n Call_SetAttrEnd = [253]"
| "call_bytes n (Call_CreateVar vt vd len nam al) =
     ucast vt # ucast vd # nam @ 0 # varint_bytes (ucast (var_len vt len) :: u64) @
       varint_bytes (ucast (if al > n then 0 else al) :: u64)"

lemma hier_put_simps [simp]:
  "hier_handle (hier_put bs xc) = hier_handle xc @ bs" "hier_file_len (hier_put bs xc) = hier_file_len xc"
  "xc_maxhandle (hier_put bs xc) = xc_maxhandle xc"
  "hier_handle (counted n xc) = hier_handle xc" "hier_file_len (counted n xc) = hier_file_len xc + n"
  "xc_maxhandle (counted n xc) = xc_maxhandle xc"
  "hier_handle (hier_varint v xc) = hier_handle xc @ varint_bytes v"
  "hier_file_len (hier_varint v xc) = hier_file_len xc + length (varint_bytes v)"
  "xc_maxhandle (hier_varint v xc) = xc_maxhandle xc"
  by (simp_all add: hier_put_def counted_def hier_varint_def fstWriterVarint_def)

lemma huge_break_simps [simp]:
  "hier_handle (huge_break xc) = hier_handle xc" "hier_file_len (huge_break xc) = hier_file_len xc"
  "xc_maxhandle (huge_break xc) = xc_maxhandle xc"
  by (simp_all add: huge_break_def Let_def)

lemma create_signal_simps [simp]:
  "hier_handle (create_signal r len xc) = hier_handle xc" "hier_file_len (create_signal r len xc) = hier_file_len xc"
  "xc_maxhandle (create_signal r len xc) = xc_maxhandle xc + 1"
  by (simp_all add: create_signal_def geom_varint_def Let_def)

lemma SetAttrBegin_hier [simp]:
  "hier_handle (fstWriterSetAttrBegin typ subtype nam arg xc) =
     hier_handle xc @ call_bytes 0 (Call_SetAttrBegin typ subtype nam arg)"
  "hier_file_len (fstWriterSetAttrBegin typ subtype nam arg xc) =
     hier_file_len xc + length (call_bytes 0 (Call_SetAttrBegin typ subtype nam arg))"
  "xc_maxhandle (fstWriterSetAttrBegin typ subtype nam arg xc) = xc_maxhandle xc"
  by (cases nam; simp add: fstWriterSetAttrBegin_def opt_text_def Let_def case_prod_beta)+

lemma SetScope_hier [simp]:
  "hier_handle (fstWriterSetScope typ nam cmp xc) = hier_handle xc @ call_bytes 0 (Call_SetScope typ nam cmp)"
  "hier_file_len (fstWriterSetScope typ nam cmp xc) =
     hier_file_len xc + length (call_bytes 0 (Call_SetScope typ nam cmp))"
  "xc_maxhandle (fstWriterSetScope typ nam cmp xc) = xc_maxhandle xc"
  by (cases nam; cases cmp; simp add: fstWriterSetScope_def opt_text_def Let_def)+

lemma CreateVar_hier:
  "hier_handle (snd (fstWriterCreateVar vt vd len (Some nam) al xc)) =
     hier_handle xc @ call_bytes (xc_maxhandle xc) (Call_CreateVar vt vd len nam al)"
  "hier_file_len (snd (fstWriterCreateVar vt vd len (Some nam) al xc)) =
     hier_file_len xc + length (call_bytes (xc_maxhandle xc) (Call_CreateVar vt vd len nam al))"
  "fst (fstWriterCreateVar vt vd len (Some nam) al xc) =
     (if al = 0 \<or> al > xc_maxhandle xc then xc_maxhandle xc + 1 else al)"
  "xc_maxhandle (snd (fstWriterCreateVar vt vd len (Some nam) al xc)) =
     (if al = 0 \<or> al > xc_maxhandle xc then xc_maxhandle xc + 1 else xc_maxhandle xc)"
  by (auto simp: fstWriterCreateVar_def fstDestroyMmaps_def Let_def)

lemma call_bytes_0: "call_bytes 0 c = call_bytes n c \<or> (\<exists>vt vd len nam al. c = Call_CreateVar vt vd len nam al)"
  by (cases c) simp_all

lemma run_call_hier:
  "hier_handle (snd (run_call c xc)) = hier_handle xc @ call_bytes (xc_maxhandle xc) c"
  "hier_file_len (snd (run_call c xc)) = hier_file_len xc + length (call_bytes (xc_maxhandle xc) c)"
  by (cases c; simp add: run_call_def CreateVar_hier fstWriterSetUpscope_def fstWriterSetAttrEnd_def
      case_prod_beta Let_def)+

lemma ucast_small: "vt \<le> 29 \<Longrightarrow> (ucast (vt :: u32) :: byte) \<le> 29 \<and> ((ucast vt :: byte) = 18 \<longleftrightarrow> vt = 18)"
proof -
  assume vt: "vt \<le> 29"
  then have "unat (ucast vt :: byte) = unat vt"
    by (simp add: unsigned_ucast_eq take_bit_nat_eq_self word_le_nat_alt)
  with vt show ?thesis
    by (auto simp: word_le_nat_alt word_unat_eq_iff)
qed

lemma iterate_call:
  assumes c: "good_call c" and r: "fh_rest r = call_bytes (xc_maxhandle xc) c @ rest" "\<not> fh_eof r" "\<not> do_rewind r"
    and h: "current_handle r = xc_maxhandle xc"
  shows "fstReaderIterateHier r =
    Some (Some (fst (run_call c xc)),
      r\<lparr>fh_rest := rest, current_handle := xc_maxhandle (snd (run_call c xc))\<rparr>)"
proof (cases c)
  case (Call_SetScope ty nam cmp)
  with c r h show ?thesis
    by (simp add: fstReaderIterateHier_def iterate_scope_def run_call_def cstr_good)
next
  case Call_SetUpscope
  with r h show ?thesis
    by (simp add: fstReaderIterateHier_def run_call_def fstWriterSetUpscope_def)
next
  case (Call_SetAttrBegin ty subtype nam arg)
  with c r h show ?thesis
    by (auto simp: fstReaderIterateHier_def iterate_attrbegin_def run_call_def cstr_good reader64_varint
        attr_seen_def case_prod_beta Let_def)
next
  case Call_SetAttrEnd
  with r h show ?thesis
    by (simp add: fstReaderIterateHier_def run_call_def fstWriterSetAttrEnd_def)
next
  case (Call_CreateVar vt vd len nam al)
  have vt: "(ucast vt :: byte) \<le> 29" "(ucast vt :: byte) = 18 \<longleftrightarrow> vt = 18"
    using c ucast_small by (simp_all add: Call_CreateVar)
  then have tags: "(ucast vt :: byte) \<noteq> 252" "(ucast vt :: byte) \<noteq> 253" "(ucast vt :: byte) \<noteq> 254"
    "(ucast vt :: byte) \<noteq> 255"
    by auto
  have "good_name nam"
    using c by (simp add: Call_CreateVar)
  then show ?thesis
    using r h vt tags
    by (cases "xc_maxhandle xc < al"; cases "al = 0")
     (simp_all add: Call_CreateVar fstReaderIterateHier_def iterate_var_def run_call_def cstr_good
        reader32_varint reader32_zero CreateVar_hier case_prod_beta Let_def leD)
qed

lemma run_calls_hier:
  "\<exists>bytes. hier_handle (snd (run_calls cs xc)) = hier_handle xc @ bytes \<and>
     hier_file_len (snd (run_calls cs xc)) = hier_file_len xc + length bytes \<and>
     (list_all good_call cs \<longrightarrow>
       (\<forall>r rest. fh_rest r = bytes @ rest \<and> \<not> fh_eof r \<and> \<not> do_rewind r \<and> current_handle r = xc_maxhandle xc \<longrightarrow>
         (\<forall>n. iterate (length cs + n) r =
           map_option (\<lambda>(hs, r). (fst (run_calls cs xc) @ hs, r))
             (iterate n (r\<lparr>fh_rest := rest, current_handle := xc_maxhandle (snd (run_calls cs xc))\<rparr>)))))"
proof (induction cs arbitrary: xc)
  case Nil
  have same: "r\<lparr>fh_rest := rest, current_handle := h\<rparr> = r" if "fh_rest r = rest" "current_handle r = h"
    for r :: hier_reader and rest h
    using that by (cases r) simp
  show ?case
    by (intro exI [of _ "[]"]) (auto simp: same option.map_ident case_prod_beta)
next
  case (Cons c cs)
  let ?xc1 = "snd (run_call c xc)"
  obtain bytes where b: "hier_handle (snd (run_calls cs ?xc1)) = hier_handle ?xc1 @ bytes"
      "hier_file_len (snd (run_calls cs ?xc1)) = hier_file_len ?xc1 + length bytes"
    and r: "list_all good_call cs \<Longrightarrow> fh_rest r = bytes @ rest \<Longrightarrow> \<not> fh_eof r \<Longrightarrow> \<not> do_rewind r \<Longrightarrow>
       current_handle r = xc_maxhandle ?xc1 \<Longrightarrow>
         iterate (length cs + n) r =
           map_option (\<lambda>(hs, r). (fst (run_calls cs ?xc1) @ hs, r))
             (iterate n (r\<lparr>fh_rest := rest, current_handle := xc_maxhandle (snd (run_calls cs ?xc1))\<rparr>))"
    for r rest n
    using Cons.IH [of ?xc1] by blast
  have runs: "run_calls (c # cs) xc =
      (fst (run_call c xc) # fst (run_calls cs ?xc1), snd (run_calls cs ?xc1))"
    by (simp add: case_prod_beta Let_def)
  show ?case
  proof (intro exI [of _ "call_bytes (xc_maxhandle xc) c @ bytes"] conjI impI allI)
    show "hier_handle (snd (run_calls (c # cs) xc)) = hier_handle xc @ call_bytes (xc_maxhandle xc) c @ bytes"
      unfolding runs by (simp add: b run_call_hier)
    show "hier_file_len (snd (run_calls (c # cs) xc)) =
        hier_file_len xc + length (call_bytes (xc_maxhandle xc) c @ bytes)"
      unfolding runs by (simp add: b run_call_hier)
    fix r :: hier_reader and rest n
    assume good: "list_all good_call (c # cs)"
      and reader: "fh_rest r = (call_bytes (xc_maxhandle xc) c @ bytes) @ rest \<and> \<not> fh_eof r \<and> \<not> do_rewind r \<and>
        current_handle r = xc_maxhandle xc"
    let ?r1 = "r\<lparr>fh_rest := bytes @ rest, current_handle := xc_maxhandle ?xc1\<rparr>"
    have one: "fstReaderIterateHier r = Some (Some (fst (run_call c xc)), ?r1)"
      using good reader by (intro iterate_call) auto
    have "iterate (length cs + n) ?r1 =
           map_option (\<lambda>(hs, r). (fst (run_calls cs ?xc1) @ hs, r))
             (iterate n (?r1\<lparr>fh_rest := rest, current_handle := xc_maxhandle (snd (run_calls cs ?xc1))\<rparr>))"
      using good reader by (intro r) auto
    then show "iterate (length (c # cs) + n) r =
           map_option (\<lambda>(hs, r). (fst (run_calls (c # cs) xc) @ hs, r))
             (iterate n (r\<lparr>fh_rest := rest, current_handle := xc_maxhandle (snd (run_calls (c # cs) xc))\<rparr>))"
      unfolding runs by (simp add: one option.map_comp comp_def case_prod_unfold)
  qed
qed

lemma hier_read_back:
  assumes "hier_handle xc = []" "hier_file_len xc = 0" "xc_maxhandle xc = 0" "list_all good_call cs"
    and "fh r = hier_handle (snd (run_calls cs xc))"
  shows "hier_file_len (snd (run_calls cs xc)) = length (hier_handle (snd (run_calls cs xc))) \<and>
    map_option fst (iterate (length cs + 1) (snd (fstReaderIterateHierRewind r))) =
      Some (fst (run_calls cs xc))"
proof
  obtain bytes where b: "hier_handle (snd (run_calls cs xc)) = hier_handle xc @ bytes"
      "hier_file_len (snd (run_calls cs xc)) = hier_file_len xc + length bytes"
    and reader: "\<And>r rest n. fh_rest r = bytes @ rest \<Longrightarrow> \<not> fh_eof r \<Longrightarrow> \<not> do_rewind r \<Longrightarrow>
       current_handle r = xc_maxhandle xc \<Longrightarrow>
         iterate (length cs + n) r =
           map_option (\<lambda>(hs, r). (fst (run_calls cs xc) @ hs, r))
             (iterate n (r\<lparr>fh_rest := rest, current_handle := xc_maxhandle (snd (run_calls cs xc))\<rparr>))"
    using run_calls_hier [of cs xc] assms(4) by blast
  show "hier_file_len (snd (run_calls cs xc)) = length (hier_handle (snd (run_calls cs xc)))"
    using b assms(1,2) by simp
  let ?r0 = "snd (fstReaderIterateHierRewind r)"
  let ?r1 = "?r0\<lparr>do_rewind := False, current_handle := 0, fh_rest := fh r, fh_eof := False\<rparr>"
  have start: "fstReaderIterateHier ?r0 = fstReaderIterateHier ?r1"
    by (simp add: fstReaderIterateHierRewind_def fstReaderIterateHier_def)
  have "iterate (length cs + 1) ?r0 = iterate (length cs + 1) ?r1"
    by (simp add: start)
  also have "\<dots> = map_option (\<lambda>(hs, r). (fst (run_calls cs xc) @ hs, r))
      (iterate 1 (?r1\<lparr>fh_rest := [], current_handle := xc_maxhandle (snd (run_calls cs xc))\<rparr>))"
    using assms(1,3,5) b(1) by (intro reader) simp_all
  also have "\<dots> = Some (fst (run_calls cs xc),
      ?r1\<lparr>fh_rest := [], current_handle := xc_maxhandle (snd (run_calls cs xc)), fh_eof := True\<rparr>)"
    by (simp add: fstReaderIterateHier_def fstReaderIterateHierRewind_def)
  finally show "map_option fst (iterate (length cs + 1) ?r0) = Some (fst (run_calls cs xc))"
    by simp
qed

text \<open>
  C35: the hierarchy file that a sequence of scopes, attributes and variables leaves behind
  has the length the writer counted, and a reader that starts over and iterates gets the
  same scopes, attributes and variables in order, each variable with the handle that
  \<open>fstWriterCreateVar\<close> returned for it, and then \<open>NULL\<close>.
\<close>

theorem hier_roundtrip:
  assumes "hier_handle xc = []" "hier_file_len xc = 0" "xc_maxhandle xc = 0" "list_all good_call cs"
    and "fh r = hier_handle (snd (run_calls cs xc))"
  shows "hier_file_len (snd (run_calls cs xc)) = length (hier_handle (snd (run_calls cs xc))) \<and>
    map_option fst (iterate (length cs + 1) (snd (fstReaderIterateHierRewind r))) =
      Some (fst (run_calls cs xc))"
  by (rule hier_read_back [OF assms])

theorem hier_roundtrip_witness:
  "let (hs, xc) = run_calls [Call_SetScope 0 (Some (lit ''top'')) None, Call_CreateVar 16 0 1 (lit ''clk'') 0,
       Call_CreateVar 16 0 1 (lit ''clk_i'') 1, Call_SetUpscope] (fstWriterCreate None [] 1)
   in map_option fst (iterate 5 \<lparr>fh = hier_handle xc, fh_rest = [], fh_eof = True, do_rewind = True, current_handle = 0\<rparr>)
     = Some hs \<and> hier_file_len xc = length (hier_handle xc)"
proof -
  let ?cs = "[Call_SetScope 0 (Some (lit ''top'')) None, Call_CreateVar 16 0 1 (lit ''clk'') 0,
       Call_CreateVar 16 0 1 (lit ''clk_i'') 1, Call_SetUpscope]"
  let ?xc = "snd (run_calls ?cs (fstWriterCreate None [] 1))"
  let ?r = "\<lparr>fh = hier_handle ?xc, fh_rest = [], fh_eof = True, do_rewind = True, current_handle = 0\<rparr>"
  have good: "list_all good_call ?cs"
    by code_simp
  have "hier_file_len ?xc = length (hier_handle ?xc) \<and>
      map_option fst (iterate (length ?cs + 1) (snd (fstReaderIterateHierRewind ?r))) =
        Some (fst (run_calls ?cs (fstWriterCreate None [] 1)))"
    by (rule hier_roundtrip) (use good in \<open>simp_all del: run_calls.simps\<close>)
  moreover have "length ?cs + 1 = 5"
    by simp
  moreover have "snd (fstReaderIterateHierRewind ?r) = ?r"
    by (simp add: fstReaderIterateHierRewind_def)
  ultimately show ?thesis
    by (simp only: case_prod_unfold Let_def)
qed

section \<open>Source stems\<close>

text \<open>The first argument of a stem, made a name, is what the reader extracts from it.\<close>

lemma varint_bytes_no_nul: "v \<noteq> 0 \<Longrightarrow> no_nul (varint_bytes (v :: 'a :: len word))"
proof (induction v rule: varint_bytes.induct)
  case (1 v)
  have more: "(b :: byte) OR 0x80 \<noteq> 0" for b
    by (rule all_bytes [of _ b]) code_simp
  show ?case
  proof (cases "drop_bit 7 v = 0")
    case True
    have "varint_bytes v = [ucast v]"
      using True by (subst varint_bytes.simps) (simp add: Let_def)
    then have "varint_value [ucast v :: byte] = (v :: 'a word)"
      using varint_value_varint_bytes [of v, where ?'b = 'a] by simp
    then have "(ucast v :: byte) \<noteq> 0"
      using 1(2) by (auto simp: varint_value_def)
    then show ?thesis
      using True by (subst varint_bytes.simps) (simp add: Let_def)
  next
    case False
    with 1 more show ?thesis
      by (subst varint_bytes.simps) (simp add: Let_def)
  qed
qed

lemma ucast_plus_one: "(c :: u32) < - 1 \<Longrightarrow> (ucast (c + 1) :: u64) = ucast c + 1"
proof -
  assume "c < - 1"
  then have "1 + c \<noteq> 0"
    by (metis add.commute eq_neg_iff_add_eq_0 order_less_irrefl)
  then have "unat (c + 1) = unat c + 1"
    by (simp add: unatSuc add.commute)
  then have "(word_of_nat (unat (c + 1)) :: u64) = word_of_nat (unat c + 1)"
    by simp
  then show ?thesis
    by (simp only: of_nat_unat of_nat_add) simp
qed

lemma ucast_less_max: "(ucast (c :: u32) :: u64) < - 1"
proof -
  have "unat (ucast c :: u64) = unat c"
    by (simp add: unsigned_ucast_eq take_bit_nat_eq_self less_trans [OF unsigned_less])
  moreover have "unat c < 2 ^ 32"
    using unsigned_less [of c, where ?'a = nat] by simp
  ultimately show ?thesis
    by (simp add: word_less_nat_alt unsigned_minus_1_eq_mask mask_eq_exp_minus_1)
qed

lemma c_string_no_nul: "no_nul s \<Longrightarrow> c_string (s @ 0 # t) = s"
  by (induction s) (auto simp: c_string_def)

definition stem_name :: "u64 \<Rightarrow> byte list" where
  "stem_name sidx = c_string (varint_bytes sidx @ (if sidx \<noteq> 0 then [0] else []))"

lemma stem_name_read: "sidx \<noteq> 0 \<Longrightarrow> map_option fst (fstGetVarint64 (stem_name sidx @ [0])) = Some sidx"
  by (simp add: stem_name_def c_string_no_nul varint_bytes_no_nul fstGetVarint64_def
      varint_scan_varint_bytes varint_value_varint_bytes)

lemma good_stem_name: "sidx \<noteq> 0 \<Longrightarrow> good_name (stem_name sidx)"
  using varint_length_64 [of sidx]
  by (simp add: good_name_def stem_name_def c_string_no_nul varint_bytes_no_nul)

definition paths_ok :: "fstWriterContext \<Rightarrow> bool" where
  "paths_ok xc \<longleftrightarrow> jenkins.numbered 0xffff (path_array xc) (ucast (path_array_count xc))"

definition path_number :: "fstWriterContext \<Rightarrow> byte list \<Rightarrow> u64 option" where
  "path_number xc = jmap 0xffff (path_array xc)"

lemma paths_ok_create [simp]: "paths_ok (fstWriterCreate m d c)" "path_number (fstWriterCreate m d c) = Map.empty"
  by (simp_all add: paths_ok_def path_number_def jenkins.numbered_def jtable_wf_def)

lemma paths_ok_inj: "paths_ok xc \<Longrightarrow> inj_on (path_number xc) (dom (path_number xc))"
  by (simp add: paths_ok_def path_number_def jenkins.numbered_def)

lemma SetAttrBegin_paths [simp]:
  "path_array (fstWriterSetAttrBegin ty subtype nam arg xc) = path_array xc"
  "path_array_count (fstWriterSetAttrBegin ty subtype nam arg xc) = path_array_count xc"
  by (cases nam; simp add: fstWriterSetAttrBegin_def hier_varint_def hier_put_def counted_def
      fstWriterVarint_def Let_def case_prod_unfold)+

definition stem_text :: "byte list \<Rightarrow> byte list" where
  "stem_text s = map (\<lambda>c. if c = 0x0a \<or> c = 0x0d then 0x20 else c) s"

lemma attr_types_misc [simp]: "attr_types 0 s = (0, s)"
  by (simp add: attr_types_def)

text \<open>
  C38: A source stem is recorded under the number of its path: the first stem with a path
  takes the next number and emits the path with it, every later one finds that number, other
  paths keep theirs, different paths have different numbers, and the reader gets the number
  back from the name of the stem attribute and the line from its argument.
\<close>

theorem source_stem_numbers:
  assumes ok: "paths_ok xc" and p: "p \<noteq> []" and room: "path_array_count xc < - 1"
  shows "\<exists>k. let xc1 = fstWriterSetSourceStem realpath (Some p) line 0 xc;
       new = (path_number xc p = None)
     in paths_ok xc1 \<and> path_number xc1 = (path_number xc)(p \<mapsto> k) \<and>
        inj_on (path_number xc1) (dom (path_number xc1)) \<and>
        (if new then k = ucast (path_array_count xc + 1) else path_number xc p = Some k) \<and>
        hier_handle xc1 = hier_handle xc @
          (if new then call_bytes 0 (Call_SetAttrBegin 0 3 (Some (stem_text p)) k) else []) @
          call_bytes 0 (Call_SetAttrBegin 0 4 (Some (stem_name k)) (ucast line)) \<and>
        attr_seen 0 4 (stem_name k) = Some k"
proof -
  obtain arr pv where ins: "JenkinsIns (path_array xc) p 0xffff = (arr, pv)"
    by (cases "JenkinsIns (path_array xc) p 0xffff")
  obtain c0 cs where pc: "p = c0 # cs"
    using p by (cases p) auto
  have num: "jenkins.numbered 0xffff (path_array xc) (ucast (path_array_count xc))"
    using ok by (simp add: paths_ok_def)
  show ?thesis
  proof (cases "path_number xc p")
    case (Some k)
    then have look: "jmap 0xffff (path_array xc) p = Some k"
      by (simp add: path_number_def)
    have old: "payload arr pv = k" "k \<noteq> 0"
        "jenkins.numbered 0xffff arr (ucast (path_array_count xc))" "jmap 0xffff arr = jmap 0xffff (path_array xc)"
      using jenkins.numbered_old [OF num look] by (simp_all add: ins)
    have xc1: "fstWriterSetSourceStem realpath (Some p) line 0 xc =
        fstWriterSetAttrBegin 0 4 (Some (stem_name k)) (ucast line) (xc\<lparr>path_array := arr\<rparr>)"
      using old(1,2) ins
      by (simp add: fstWriterSetSourceStem_def fstWriterSetSourceStem_2_def pc Let_def
          fstWriterSetAttrDoubleArgGeneric_def stem_name_def)
    show ?thesis
      using Some old paths_ok_inj [OF ok] stem_name_read [OF old(2)]
      by (intro exI [of _ k])
        (simp add: xc1 paths_ok_def path_number_def attr_seen_def Let_def fun_upd_idem opt_text_def)
  next
    case None
    then have look: "jmap 0xffff (path_array xc) p = None"
      by (simp add: path_number_def)
    have room64: "(ucast (path_array_count xc) :: u64) < - 1"
      by (rule ucast_less_max)
    have cnt: "(ucast (path_array_count xc + 1) :: u64) = ucast (path_array_count xc) + 1"
      using room by (rule ucast_plus_one)
    define k :: u64 where "k = ucast (path_array_count xc) + 1"
    have new: "payload arr pv = 0"
        "jenkins.numbered 0xffff (set_payload k arr pv) k"
        "jmap 0xffff (set_payload k arr pv) = (jmap 0xffff (path_array xc))(p \<mapsto> k)"
      using jenkins.numbered_new [OF num look room64] by (simp_all add: ins k_def)
    then have k0: "k \<noteq> 0"
      unfolding jenkins.numbered_def by (metis fun_upd_same order_less_irrefl)
    let ?xc0 = "xc\<lparr>path_array_count := path_array_count xc + 1, path_array := set_payload k arr pv\<rparr>"
    have xc1: "fstWriterSetSourceStem realpath (Some p) line 0 xc =
        fstWriterSetAttrBegin 0 4 (Some (stem_name k)) (ucast line)
          (fstWriterSetAttrBegin 0 3 (Some (stem_text p)) k ?xc0)"
      using new(1) ins cnt
      by (simp add: fstWriterSetSourceStem_def fstWriterSetSourceStem_2_def pc Let_def k_def
          fstWriterSetAttrDoubleArgGeneric_def fstWriterSetAttrGeneric_def stem_name_def stem_text_def)
    have ok1: "paths_ok (fstWriterSetSourceStem realpath (Some p) line 0 xc)"
      using new(2) cnt by (simp add: xc1 paths_ok_def k_def)
    show ?thesis
      using None new ok1 paths_ok_inj [OF ok1] stem_name_read [OF k0] cnt
      by (intro exI [of _ k])
        (simp add: xc1 path_number_def attr_seen_def Let_def opt_text_def k_def)
  qed
qed

theorem source_stem_numbers_witness:
  "path_number (fstWriterSetSourceStem (\<lambda>_. None) (Some (lit ''a.v'')) 7 0 (fstWriterCreate None [] 1)) = [lit ''a.v'' \<mapsto> 1]"
proof -
  have "lit ''a.v'' \<noteq> []"
    by (simp add: lit_def)
  moreover have "path_array_count (fstWriterCreate None [] 1) < - 1"
    by (simp add: word_less_nat_alt unsigned_minus_1_eq_mask mask_eq_exp_minus_1)
  ultimately show ?thesis
    using source_stem_numbers [of "fstWriterCreate None [] 1" "lit ''a.v''" "\<lambda>_. None" 7]
    by (auto simp: Let_def)
qed

end
