(* ===== verification/Fst_Open.thy ===== *)
theory Fst_Open
  imports Fst_Close Fst_Blocks Fst_Hier
begin

text \<open>
  Opening a file (\<open>src/fst/fstapi.c\<close>, \<open>fstReaderOpen\<close>, \<open>fstReaderInit\<close>): the walk over its
  blocks that collects what the header and the blocks with geometry, blackouts and hierarchy
  say; unpacking the hierarchy (\<open>fstReaderRecreateHierFile\<close>); and, for a file without
  geometry, finding the signals in the hierarchy (\<open>fstReaderProcessHier\<close> without a file for
  VCD text).

  \<open>None\<close> is undefined behaviour (a value read behind the end of the file or of a buffer, a
  write outside a buffer, a loop that does not end) or an error for which the program exits.
  \<open>gunzip\<close> is zlib's \<open>gzdopen(.., "rb")\<close>: all that can be read from a stream that starts at
  the front of the given bytes. Memory is not exhausted, temporary files can be created.
\<close>

section \<open>The context of a reader\<close>

record fstReaderContext =
  fx_f :: "byte list"
  fx_fh :: "byte list option"
  start_time :: u64
  end_time :: u64
  mem_used_by_writer :: u64
  scope_count :: u64
  var_count :: u64
  fx_maxhandle :: u32
  num_alias :: u64
  vc_section_count :: u64
  signal_lens :: "u32 list"
  signal_typs :: "byte list"
  fx_process_mask :: "byte list"
  longest_signal_value_len :: u32
  timescale :: byte
  fx_filetype :: byte
  use_vcd_extensions :: bool
  double_endian_match :: bool
  native_doubles_for_cb :: bool
  contains_geom_section :: bool
  contains_hier_section :: bool
  contains_hier_section_lz4duo :: bool
  contains_hier_section_lz4 :: bool
  limit_range :: "(u64 \<times> u64) option"
  version :: "byte list"
  date :: "byte list"
  fx_timezero :: u64
  hier_pos :: nat
  blackout_times :: "u64 list"
  blackout_activity :: "byte list"
  fx_do_rewind :: bool

text \<open>The zeros of \<open>calloc\<close>.\<close>

definition zero_reader :: "byte list \<Rightarrow> fstReaderContext" where
  "zero_reader f =
     \<lparr>fx_f = f, fx_fh = None, start_time = 0, end_time = 0, mem_used_by_writer = 0, scope_count = 0, var_count = 0,
      fx_maxhandle = 0, num_alias = 0, vc_section_count = 0, signal_lens = [], signal_typs = [], fx_process_mask = [],
      longest_signal_value_len = 0, timescale = 0, fx_filetype = 0, use_vcd_extensions = False, double_endian_match = False,
      native_doubles_for_cb = False, contains_geom_section = False, contains_hier_section = False,
      contains_hier_section_lz4duo = False, contains_hier_section_lz4 = False, limit_range = None, version = [], date = [],
      fx_timezero = 0, hier_pos = 0, blackout_times = [], blackout_activity = [], fx_do_rewind = False\<rparr>"

text \<open>What the iteration over the blocks uses of it.\<close>

definition blocks_of :: "fstReaderContext \<Rightarrow> block_reader" where
  "blocks_of xc =
     \<lparr>rd_f = fx_f xc, rd_mask = \<lparr>maxhandle = fx_maxhandle xc, process_mask = fx_process_mask xc\<rparr>,
      rd_signal_lens = signal_lens xc, rd_signal_typs = signal_typs xc, rd_vc_section_count = vc_section_count xc,
      rd_limit_range = limit_range xc, rd_native_doubles = native_doubles_for_cb xc,
      rd_double_endian_match = double_endian_match xc\<rparr>"

section \<open>What can be asked\<close>

definition fstReaderGetTimescale :: "fstReaderContext \<Rightarrow> byte" where
  "fstReaderGetTimescale xc = timescale xc"

definition fstReaderGetStartTime :: "fstReaderContext \<Rightarrow> u64" where
  "fstReaderGetStartTime xc = start_time xc"

definition fstReaderGetEndTime :: "fstReaderContext \<Rightarrow> u64" where
  "fstReaderGetEndTime xc = end_time xc"

definition fstReaderGetMemoryUsedByWriter :: "fstReaderContext \<Rightarrow> u64" where
  "fstReaderGetMemoryUsedByWriter xc = mem_used_by_writer xc"

definition fstReaderGetScopeCount :: "fstReaderContext \<Rightarrow> u64" where
  "fstReaderGetScopeCount xc = scope_count xc"

definition fstReaderGetVarCount :: "fstReaderContext \<Rightarrow> u64" where
  "fstReaderGetVarCount xc = var_count xc"

definition fstReaderGetMaxHandle :: "fstReaderContext \<Rightarrow> u32" where
  "fstReaderGetMaxHandle xc = fx_maxhandle xc"

definition fstReaderGetAliasCount :: "fstReaderContext \<Rightarrow> u64" where
  "fstReaderGetAliasCount xc = num_alias xc"

definition fstReaderGetValueChangeSectionCount :: "fstReaderContext \<Rightarrow> u64" where
  "fstReaderGetValueChangeSectionCount xc = vc_section_count xc"

definition fstReaderGetDoubleEndianMatchState :: "fstReaderContext \<Rightarrow> bool" where
  "fstReaderGetDoubleEndianMatchState xc = double_endian_match xc"

definition fstReaderGetFileType :: "fstReaderContext \<Rightarrow> byte" where
  "fstReaderGetFileType xc = fx_filetype xc"

definition fstReaderGetTimezero :: "fstReaderContext \<Rightarrow> u64" where
  "fstReaderGetTimezero xc = fx_timezero xc"

definition fstReaderGetNumberDumpActivityChanges :: "fstReaderContext \<Rightarrow> u32" where
  "fstReaderGetNumberDumpActivityChanges xc = word_of_nat (length (blackout_times xc))"

text \<open>Texts end at the first NUL.\<close>

definition fstReaderGetVersionString :: "fstReaderContext \<Rightarrow> byte list" where
  "fstReaderGetVersionString xc = takeWhile (\<lambda>b. b \<noteq> 0) (version xc)"

definition fstReaderGetDateString :: "fstReaderContext \<Rightarrow> byte list" where
  "fstReaderGetDateString xc = takeWhile (\<lambda>b. b \<noteq> 0) (date xc)"

definition fstReaderGetDumpActivityChangeTime :: "fstReaderContext \<Rightarrow> u32 \<Rightarrow> u64" where
  "fstReaderGetDumpActivityChangeTime xc idx =
     (if unat idx < length (blackout_times xc) then blackout_times xc ! unat idx else 0)"

definition fstReaderGetDumpActivityChangeValue :: "fstReaderContext \<Rightarrow> u32 \<Rightarrow> byte" where
  "fstReaderGetDumpActivityChangeValue xc idx =
     (if unat idx < length (blackout_activity xc) then blackout_activity xc ! unat idx else 0)"

definition fstReaderSetLimitTimeRange :: "u64 \<Rightarrow> u64 \<Rightarrow> fstReaderContext \<Rightarrow> fstReaderContext" where
  "fstReaderSetLimitTimeRange start_tim end_tim xc = xc\<lparr>limit_range := Some (start_tim, end_tim)\<rparr>"

definition fstReaderSetUnlimitedTimeRange :: "fstReaderContext \<Rightarrow> fstReaderContext" where
  "fstReaderSetUnlimitedTimeRange xc = xc\<lparr>limit_range := None\<rparr>"

definition fstReaderSetVcdExtensions :: "u32 \<Rightarrow> fstReaderContext \<Rightarrow> fstReaderContext" where
  "fstReaderSetVcdExtensions enable xc = xc\<lparr>use_vcd_extensions := enable \<noteq> 0\<rparr>"

definition fstReaderIterBlocksSetNativeDoublesOnCallback :: "u32 \<Rightarrow> fstReaderContext \<Rightarrow> fstReaderContext" where
  "fstReaderIterBlocksSetNativeDoublesOnCallback enable xc = xc\<lparr>native_doubles_for_cb := enable \<noteq> 0\<rparr>"

section \<open>The hierarchy\<close>

text \<open>
  The loop over pieces of a gzip stream ends with the first piece that is not complete; the
  pieces before it are in the file.
\<close>

definition gz_copy :: "byte list \<Rightarrow> u64 \<Rightarrow> bool \<times> byte list" where
  "gz_copy text uclen =
     (let n = nat (sint uclen) in
      if n \<le> length text then (True, take n text)
      else (False, take (length text div FST_GZIO_LEN * FST_GZIO_LEN) text))"

text \<open>
  An LZ4 text of \<open>clen\<close> bytes that gives \<open>uclen\<close> bytes; what a failed call leaves in the
  buffer is \<open>up_malloc\<close>.
\<close>

definition lz4_copy :: "unpackers \<Rightarrow> byte list \<Rightarrow> nat \<Rightarrow> bool \<times> byte list" where
  "lz4_copy up cmem uclen =
     (case up_LZ4_decompress_safe_partial up cmem uclen of
        Some d \<Rightarrow> if length d = uclen then (True, d) else (False, up_malloc up uclen)
      | None \<Rightarrow> (False, up_malloc up uclen))"

definition lz4duo_copy :: "unpackers \<Rightarrow> byte list \<Rightarrow> nat \<Rightarrow> (bool \<times> byte list) option" where
  "lz4duo_copy up cmem uclen =
     Option.bind (fstGetVarint64 cmem) (\<lambda>(uclen2, skiplen2).
       let (pass_status, mem2) = lz4_copy up (drop skiplen2 cmem) (unat uclen2)
       in Some (if pass_status then lz4_copy up mem2 uclen else (False, [])))"

text \<open>The section's length, the length of the hierarchy, and the packed hierarchy are at \<open>hier_pos\<close>.\<close>

definition fstReaderRecreateHierFile ::
    "unpackers \<Rightarrow> (byte list \<Rightarrow> byte list) \<Rightarrow> fstReaderContext \<Rightarrow> (bool \<times> fstReaderContext) option" where
  "fstReaderRecreateHierFile up gunzip xc =
     (if fx_fh xc \<noteq> None then Some (True, xc)
      else if \<not> contains_hier_section_lz4 xc \<and> contains_hier_section xc then
        Option.bind (read64 (fx_f xc) (hier_pos xc)) (\<lambda>uclen.
          let (pass_status, text) = gz_copy (gunzip (drop (hier_pos xc + 8) (fx_f xc))) uclen
          in Some (pass_status, xc\<lparr>fx_fh := Some text\<rparr>))
      else if contains_hier_section_lz4 xc \<and> \<not> contains_hier_section xc then
        Option.bind (read64 (fx_f xc) (hier_pos xc - 8)) (\<lambda>seclen.
        Option.bind (read64 (fx_f xc) (hier_pos xc)) (\<lambda>uclen.
          if seclen < 16 \<or> uclen \<ge> 0x80000000 then None
          else Option.bind (slice (fx_f xc) (hier_pos xc + 8) (unat seclen - 16)) (\<lambda>cmem.
            map_option (\<lambda>(pass_status, text). (pass_status, xc\<lparr>fx_fh := Some text\<rparr>))
              (if contains_hier_section_lz4duo xc then lz4duo_copy up cmem (unat uclen)
               else Some (lz4_copy up cmem (unat uclen))))))
      else Some (False, xc))"

text \<open>The two functions that go over the hierarchy unpack it first.\<close>

definition hier_of :: "byte list \<Rightarrow> fstReaderContext \<Rightarrow> hier_reader" where
  "hier_of text xc = \<lparr>fh = text, fh_rest = text, fh_eof = False, do_rewind = fx_do_rewind xc, current_handle = 0\<rparr>"

abbreviation FST_ID_NAM_ATTR_SIZ :: nat where "FST_ID_NAM_ATTR_SIZ \<equiv> 69632"

text \<open>\<open>while(fgetc(xc->fh)) { };\<close>\<close>

fun skip_cstr :: "byte list \<Rightarrow> byte list option" where
  "skip_cstr [] = None"
| "skip_cstr (ch # f) = (if ch = 0 then Some f else skip_cstr f)"

text \<open>The type of an aliased real goes behind the last signal; room is doubled when it is needed for a signal.\<close>

record hier_scan =
  hs_lens :: "u32 list"
  hs_typs :: "byte list"
  hs_alias :: u64
  hs_longest :: u32
  hs_room :: nat

definition is_real_tag :: "byte \<Rightarrow> bool" where
  "is_real_tag vartype \<longleftrightarrow> vartype = 3 \<or> vartype = 4 \<or> vartype = 20 \<or> vartype = 29"

definition scan_var :: "byte \<Rightarrow> u32 \<Rightarrow> u32 \<Rightarrow> hier_scan \<Rightarrow> hier_scan option" where
  "scan_var vartype len alias_of xs =
     (if alias_of = 0 then
        (let xs = (if length (hs_lens xs) = hs_room xs then xs\<lparr>hs_room := 2 * hs_room xs\<rparr> else xs)
         in Some (xs\<lparr>hs_lens := hs_lens xs @ [len],
                hs_typs := hs_typs xs @ [if is_real_tag vartype then 3 else vartype],
                hs_longest := (if len > hs_longest xs then len else hs_longest xs)\<rparr>))
      else if is_real_tag vartype \<and> length (hs_lens xs) = hs_room xs then None
      else Some (xs\<lparr>hs_alias := hs_alias xs + 1\<rparr>))"

definition scan_item :: "byte \<Rightarrow> byte list \<Rightarrow> hier_scan \<Rightarrow> (byte list \<times> hier_scan) option" where
  "scan_item tag f xs =
     (if tag = 254 then
        (case f of [] \<Rightarrow> None | _ # f \<Rightarrow>
           Option.bind (cstr FST_ID_NAM_ATTR_SIZ f) (\<lambda>(_, f). map_option (\<lambda>f. (f, xs)) (skip_cstr f)))
      else if tag = 252 then
        (case f of _ # _ # f \<Rightarrow>
           Option.bind (cstr FST_ID_NAM_ATTR_SIZ f) (\<lambda>(_, f). map_option (\<lambda>(_, f). (f, xs)) (fstReaderVarint64 f))
         | _ \<Rightarrow> None)
      else if tag \<le> 29 then
        (case f of [] \<Rightarrow> None | _ # f \<Rightarrow>
           Option.bind (cstr FST_ID_NAM_ATTR_SIZ f) (\<lambda>(_, f).
           Option.bind (fstReaderVarint32 f) (\<lambda>(len, f).
           Option.bind (fstReaderVarint32 f) (\<lambda>(alias_of, f).
             map_option (\<lambda>xs. (f, xs)) (scan_var tag len alias_of xs)))))
      else Some (f, xs))"

text \<open>Each turn of the loop takes a byte at least; so many turns are enough.\<close>

fun scan_hier :: "nat \<Rightarrow> byte list \<Rightarrow> hier_scan \<Rightarrow> hier_scan option" where
  "scan_hier n [] xs = Some xs"
| "scan_hier 0 f xs = None"
| "scan_hier (Suc n) (tag # f) xs = Option.bind (scan_item tag f xs) (\<lambda>(f, xs). scan_hier n f xs)"

definition no_mask :: "u32 \<Rightarrow> byte list" where
  "no_mask handles = replicate (unat ((handles + 7) div 8)) 0"

definition fstReaderProcessHier ::
    "unpackers \<Rightarrow> (byte list \<Rightarrow> byte list) \<Rightarrow> fstReaderContext \<Rightarrow> (bool \<times> fstReaderContext) option" where
  "fstReaderProcessHier up gunzip xc =
     Option.bind (fstReaderRecreateHierFile up gunzip (xc\<lparr>longest_signal_value_len := 32\<rparr>)) (\<lambda>(ok, xc).
       case (ok, fx_fh xc) of
         (True, Some text) \<Rightarrow>
           Option.bind (scan_hier (length text) text
               \<lparr>hs_lens = [], hs_typs = [], hs_alias = 0, hs_longest = 32, hs_room = 65536\<rparr>) (\<lambda>xs.
             let handles = word_of_nat (length (hs_lens xs)) :: u32;
                 maxhandle_scanbuild = (if handles \<noteq> 0 then handles else 1)
             in Some (True, xc\<lparr>fx_maxhandle := handles, num_alias := hs_alias xs, signal_lens := hs_lens xs,
                  signal_typs := hs_typs xs, longest_signal_value_len := hs_longest xs,
                  fx_process_mask := no_mask maxhandle_scanbuild,
                  var_count := ucast handles + hs_alias xs\<rparr>))
       | _ \<Rightarrow> Some (False, xc))"

section \<open>The blocks\<close>

text \<open>
  The header; \<open>pos\<close> is behind its length. The result is \<open>False\<close> for a file of another
  machine or another kind.
\<close>

definition read_header :: "byte list \<Rightarrow> nat \<Rightarrow> fstReaderContext \<Rightarrow> (bool \<times> fstReaderContext) option" where
  "read_header f pos xc =
     Option.bind (read64 f pos) (\<lambda>start_tim.
     Option.bind (read64 f (pos + 8)) (\<lambda>end_tim.
     Option.bind (slice f (pos + 16) 8) (\<lambda>dcheck.
       let xc = xc\<lparr>start_time := start_tim, end_time := end_tim, double_endian_match := dcheck = FST_DOUBLE_ENDTEST\<rparr> in
       if dcheck \<noteq> FST_DOUBLE_ENDTEST \<and> rev dcheck \<noteq> FST_DOUBLE_ENDTEST then Some (False, xc)
       else
         Option.bind (read64 f (pos + 24)) (\<lambda>mem_used.
         Option.bind (read64 f (pos + 32)) (\<lambda>scopes.
         Option.bind (read64 f (pos + 40)) (\<lambda>vars.
         Option.bind (read64 f (pos + 48)) (\<lambda>handles.
         Option.bind (read64 f (pos + 56)) (\<lambda>sections.
         Option.bind (peek f (pos + 64)) (\<lambda>ts.
         Option.bind (slice f (pos + 65) FST_HDR_SIM_VERSION_SIZE) (\<lambda>vers.
         Option.bind (slice f (pos + 193) FST_HDR_DATE_SIZE) (\<lambda>dat.
         Option.bind (peek f (pos + 312)) (\<lambda>ft.
         Option.bind (read64 f (pos + 313)) (\<lambda>tz.
           Some (True, xc\<lparr>mem_used_by_writer := mem_used, scope_count := scopes, var_count := vars,
             fx_maxhandle := ucast handles, num_alias := vars - ucast (ucast handles :: u32), vc_section_count := sections,
             timescale := ts, version := vers, date := dat, fx_filetype := ft, fx_timezero := tz\<rparr>))))))))))))))"

text \<open>The geometry: 0 is a real, all ones a value of variable length.\<close>

fun geom_signals :: "nat \<Rightarrow> byte list \<Rightarrow> (u32 \<times> byte) list option" where
  "geom_signals 0 pnt = Some []"
| "geom_signals (Suc n) pnt =
     Option.bind (fstGetVarint32 pnt) (\<lambda>(val, skiplen).
       map_option ((#) (if val \<noteq> 0 then (if val \<noteq> 0xFFFFFFFF then val else 0, 16) else (8, 3)))
         (geom_signals n (drop skiplen pnt)))"

definition longest_len :: "u32 list \<Rightarrow> u32" where
  "longest_len lens = foldl (\<lambda>m len. if len > m then len else m) 32 lens"

definition read_geom :: "unpackers \<Rightarrow> byte list \<Rightarrow> nat \<Rightarrow> u64 \<Rightarrow> fstReaderContext \<Rightarrow> fstReaderContext option" where
  "read_geom up f pos seclen xc =
     (let clen = seclen - 24 in
      Option.bind (read64 f pos) (\<lambda>uclen.
      Option.bind (read64 f (pos + 8)) (\<lambda>handles.
      Option.bind (slice f (pos + 16) (unat clen)) (\<lambda>cdata.
      Option.bind (if clen \<noteq> uclen then up_uncompress up (unat uclen) cdata else Some cdata) (\<lambda>ucdata.
      Option.bind (geom_signals (unat (ucast handles :: u32)) ucdata) (\<lambda>sigs.
        Some (xc\<lparr>contains_geom_section := True, fx_maxhandle := ucast handles,
          longest_signal_value_len := longest_len (map fst sigs), fx_process_mask := no_mask (ucast handles),
          signal_lens := map fst sigs, signal_typs := map snd sigs\<rparr>)))))))"

fun read_blackouts :: "nat \<Rightarrow> u64 \<Rightarrow> byte list \<Rightarrow> (u64 \<times> byte) list option" where
  "read_blackouts 0 cur_bl f = Some []"
| "read_blackouts (Suc n) cur_bl [] = None"
| "read_blackouts (Suc n) cur_bl (active # f) =
     Option.bind (fstReaderVarint64 f) (\<lambda>(delta, f).
       map_option ((#) (cur_bl + delta, if active \<noteq> 0 then 1 else 0)) (read_blackouts n (cur_bl + delta) f))"

text \<open>
  A block that is not the header; \<open>pos\<close> is behind its length. The number of sections with
  value changes so far is counted. A header without times (the writer was not closed) is
  completed by these sections.
\<close>

definition read_block ::
    "unpackers \<Rightarrow> byte list \<Rightarrow> byte \<Rightarrow> nat \<Rightarrow> u64 \<Rightarrow> bool \<Rightarrow> u64 \<times> fstReaderContext \<Rightarrow> (u64 \<times> fstReaderContext) option" where
  "read_block up f sectype pos seclen hdr_incomplete s =
     (let (vc_section_count_actual, xc) = s in
      if is_vcdata sectype then
        (if hdr_incomplete then
           Option.bind (read64 f pos) (\<lambda>bt.
           Option.bind (read64 f (pos + 8)) (\<lambda>et.
             let xc = xc\<lparr>end_time := et\<rparr>;
                 xc = (if vc_section_count_actual = 0 then xc\<lparr>start_time := bt\<rparr> else xc)
             in Some (vc_section_count_actual + 1, xc)))
         else Some (vc_section_count_actual + 1, xc))
      else if sectype = FST_BL_GEOM then
        (if hdr_incomplete then Some s
         else map_option (Pair vc_section_count_actual) (read_geom up f pos seclen xc))
      else if sectype = FST_BL_HIER then
        Some (vc_section_count_actual, xc\<lparr>contains_hier_section := True, hier_pos := pos\<rparr>)
      else if sectype = FST_BL_HIER_LZ4DUO then
        Some (vc_section_count_actual,
          xc\<lparr>contains_hier_section_lz4 := True, contains_hier_section_lz4duo := True, hier_pos := pos\<rparr>)
      else if sectype = FST_BL_HIER_LZ4 then
        Some (vc_section_count_actual, xc\<lparr>contains_hier_section_lz4 := True, hier_pos := pos\<rparr>)
      else if sectype = FST_BL_BLACKOUT then
        Option.bind (fstReaderVarint32 (drop pos f)) (\<lambda>(num, g).
          map_option (\<lambda>bs. (vc_section_count_actual, xc\<lparr>blackout_times := map fst bs, blackout_activity := map snd bs\<rparr>))
            (read_blackouts (unat num) 0 g))
      else Some s)"

text \<open>A length that leads out of the range of file positions is \<open>None\<close>.\<close>

function init_blocks ::
    "unpackers \<Rightarrow> byte list \<Rightarrow> nat \<Rightarrow> bool \<Rightarrow> bool \<Rightarrow> u64 \<times> fstReaderContext \<Rightarrow> (bool \<times> u64 \<times> fstReaderContext) option" where
  "init_blocks up f blkpos hdr_seen hdr_incomplete s =
     (if length f \<le> blkpos then Some (hdr_seen, s)
      else (case read64 f (blkpos + 1) of
        None \<Rightarrow> None
      | Some seclen \<Rightarrow>
          let sectype = f ! blkpos; next_pos = blkpos + 1 + unat seclen in
          if hdr_incomplete \<and> seclen = 0 then Some (hdr_seen, s)
          else if \<not> hdr_seen then
            (if sectype \<noteq> 0 then Some (hdr_seen, s)
             else (case read_header f (blkpos + 9) (snd s) of
               None \<Rightarrow> None
             | Some (ok, xc) \<Rightarrow>
                 if \<not> ok then Some (False, fst s, xc)
                 else if next_pos \<ge> 2 ^ 63 then None
                 else init_blocks up f next_pos True (start_time xc = 0 \<and> end_time xc = 0) (fst s, xc)))
          else (case read_block up f sectype (blkpos + 9) seclen hdr_incomplete s of
            None \<Rightarrow> None
          | Some s \<Rightarrow> if next_pos \<ge> 2 ^ 63 then None else init_blocks up f next_pos hdr_seen hdr_incomplete s)))"
  by pat_completeness auto
termination
  by (relation "measure (\<lambda>(up, f, blkpos, hdr_seen, hdr_incomplete, s). length f - blkpos)") auto

declare init_blocks.simps [simp del]

section \<open>Opening\<close>

definition init_file ::
    "unpackers \<Rightarrow> (byte list \<Rightarrow> byte list) \<Rightarrow> fstReaderContext \<Rightarrow> (bool \<times> fstReaderContext) option" where
  "init_file up gunzip xc =
     Option.bind (init_blocks up (fx_f xc) 0 False False (0, xc)) (\<lambda>(hdr_seen, vc_section_count_actual, xc).
       if hdr_seen then
         (let xc = xc\<lparr>vc_section_count := vc_section_count_actual\<rparr> in
          map_option (\<lambda>xc. (True, xc))
            (if \<not> contains_geom_section xc then map_option snd (fstReaderProcessHier up gunzip xc) else Some xc))
       else Some (False, xc))"

definition fstReaderInit ::
    "unpackers \<Rightarrow> (byte list \<Rightarrow> byte list) \<Rightarrow> fstReaderContext \<Rightarrow> (bool \<times> fstReaderContext) option" where
  "fstReaderInit up gunzip xc =
     (let f = fx_f xc in
      if f \<noteq> [] \<and> hd f = FST_BL_ZWRAPPER then
        Option.bind (read64 f 1) (\<lambda>seclen.
        Option.bind (read64 f 9) (\<lambda>uclen.
          if seclen = 0 then Some (False, xc)
          else
            let (gzread_pass_status, text) = gz_copy (gunzip (drop 17 f)) uclen; xc = xc\<lparr>fx_f := text\<rparr>
            in if gzread_pass_status then init_file up gunzip xc else Some (False, xc)))
      else init_file up gunzip xc)"

text \<open>
  \<open>file\<close> and \<open>hier_file\<close> are the file of that name and the one with \<open>.hier\<close> behind its name,
  if they exist. The inner \<open>None\<close> is \<open>NULL\<close>.
\<close>

definition fstReaderOpen ::
    "unpackers \<Rightarrow> (byte list \<Rightarrow> byte list) \<Rightarrow> byte list option \<Rightarrow> byte list option \<Rightarrow> fstReaderContext option option" where
  "fstReaderOpen up gunzip nam hier_file =
     (case nam of
        None \<Rightarrow> Some None
      | Some f \<Rightarrow>
          map_option (\<lambda>(rc, xc).
            if rc \<and> vc_section_count xc \<noteq> 0 \<and> fx_maxhandle xc \<noteq> 0 \<and>
               (fx_fh xc \<noteq> None \<or> contains_hier_section xc \<or> contains_hier_section_lz4 xc)
            then Some (xc\<lparr>fx_do_rewind := True\<rparr>) else None)
            (fstReaderInit up gunzip ((zero_reader f)\<lparr>fx_fh := hier_file\<rparr>)))"

end
