(* ===== verification/Gdbwave.thy ===== *)
theory Gdbwave
  imports Start_Up Gdb_Stub Fst_Open C_Text
begin

text \<open>
  The program as a whole (\<open>src/main.cc\<close>, \<open>src/FstProcess.cc\<close>): it reads the command line and the
  configuration, opens the waveform with the FST reader, extracts the three traces from what
  the reader delivers, waits for GDB, and serves its requests until the connection ends.

  The order of the calls is that of \<open>main\<close>. An error of the reader that has no defined
  behaviour (\<open>None\<close> in its model) makes the whole run \<open>Undefined\<close>, also when a callback would
  have thrown an exception before it.
\<close>

section \<open>How the program ends\<close>

text \<open>With an exit status, by an exception nobody catches, or without defined behaviour.\<close>

datatype outcome = Exited int | Terminated | Undefined

fun outcome_of :: "cxx_error \<Rightarrow> outcome" where
  "outcome_of (ExitProcess n) = Exited n"
| "outcome_of InvalidArgument = Terminated"
| "outcome_of OutOfRange = Terminated"
| "outcome_of RuntimeError = Terminated"
| "outcome_of _ = Undefined"

definition run_cxx :: "cxx_error + 'a \<Rightarrow> ('a \<Rightarrow> outcome + 'b) \<Rightarrow> outcome + 'b" where
  "run_cxx x f = (case x of Inl e \<Rightarrow> Inl (outcome_of e) | Inr a \<Rightarrow> f a)"

definition run_reader :: "'a option \<Rightarrow> ('a \<Rightarrow> outcome + 'b) \<Rightarrow> outcome + 'b" where
  "run_reader x f = (case x of None \<Rightarrow> Inl Undefined | Some a \<Rightarrow> f a)"

definition chars :: "byte list \<Rightarrow> string" where
  "chars bs = map (\<lambda>b. char_of (unat b)) bs"

text \<open>A \<open>std::string\<close> of a C string.\<close>

definition c_chars :: "byte list \<Rightarrow> string" where
  "c_chars bs = chars (takeWhile (\<lambda>b. b \<noteq> 0) bs)"

section \<open>The waveform\<close>

text \<open>The constructor of \<open>FstProcess\<close>; without a file it throws.\<close>

definition FstProcess_new ::
    "unpackers \<Rightarrow> (byte list \<Rightarrow> byte list) \<Rightarrow> (string \<Rightarrow> byte list option) \<Rightarrow> string \<Rightarrow>
      (cxx_error + fstReaderContext) option" where
  "FstProcess_new up gunzip files nam =
     map_option (\<lambda>rx. case rx of None \<Rightarrow> Inl RuntimeError | Some rx \<Rightarrow> Inr rx)
       (fstReaderOpen up gunzip (files nam) (files (nam @ ''.hier'')))"

text \<open>\<open>infoStr\<close>: a report, which ends the program if the file has blackouts. No seek of the reader fails.\<close>

definition fileTypeStrings :: "byte list list" where
  "fileTypeStrings = [lit ''VERILOG'', lit ''VHDL'', lit ''VERILOG_VHDL'']"

definition info_line :: "string \<Rightarrow> byte list \<Rightarrow> byte list" where
  "info_line label v = lit label @ v @ [0x0a]"

definition trim_spaces :: "byte list \<Rightarrow> byte list" where
  "trim_spaces s = rev (dropWhile is_space (rev (dropWhile is_space s)))"

definition infoStr :: "fst_scope \<Rightarrow> fstReaderContext \<Rightarrow> cxx_error + byte list" where
  "infoStr xc rx =
     (let fileType = unat (fstReaderGetFileType rx);
          bar = lit ''============================================================'' @ [0x0a];
          num = (\<lambda>label w. info_line label (dec_int (uint (w :: u64))))
      in if length fileTypeStrings \<le> fileType then Inl DerefEnd
         else if fstReaderGetNumberDumpActivityChanges rx > 0 then Inl (ExitProcess (- 2))
         else Inr (bar @ num ''aliasCount: '' (fstReaderGetAliasCount rx) @
           info_line ''curFlatScope: '' (lit (fstReaderGetCurrentFlatScope xc)) @
           info_line ''curScopeLen: '' (dec_int (int (fstReaderGetCurrentScopeLen xc))) @
           info_line ''date: '' (trim_spaces (fstReaderGetDateString rx)) @
           info_line ''doubleEndianMatchState: '' (dec_int (if fstReaderGetDoubleEndianMatchState rx then 1 else 0)) @
           num ''dumpActivityChangeTime: '' (fstReaderGetDumpActivityChangeTime rx 0) @
           num ''dumpActivityChangeValue: '' (ucast (fstReaderGetDumpActivityChangeValue rx 0)) @
           info_line ''fileType: '' (dec_int (int fileType) @ lit '' ('' @ fileTypeStrings ! fileType @ lit '')'') @
           info_line ''fseekFailed: '' (dec_int 0) @
           num ''memoryUsedByWriter:'' (fstReaderGetMemoryUsedByWriter rx) @
           num ''numDumpActivityChanges: '' (ucast (fstReaderGetNumberDumpActivityChanges rx)) @
           num ''scopeCount: '' (fstReaderGetScopeCount rx) @
           num ''startTime: '' (fstReaderGetStartTime rx) @
           num ''endTime: '' (fstReaderGetEndTime rx) @
           info_line ''timeZero: '' (dec_int (sint (fstReaderGetTimezero rx))) @
           info_line ''timescale:'' (dec_int (sint (fstReaderGetTimescale rx))) @
           num ''valueChangeSectionCount: '' (fstReaderGetValueChangeSectionCount rx) @
           num ''varCount: '' (fstReaderGetVarCount rx) @
           info_line ''Version string: '' (fstReaderGetVersionString rx) @ bar))"

text \<open>
  What the loop of \<open>assignHandles\<close> sees of the hierarchy. A record takes a byte of the text at
  least, so the calls are enough to come to its end. The reader starts again for every search.
\<close>

definition hier_item :: "fst_hier \<Rightarrow> fstHier" where
  "hier_item h =
     (case h of
        Hier_SCOPE typ nam cmp \<Rightarrow> HT_SCOPE (chars nam)
      | Hier_UPSCOPE \<Rightarrow> HT_UPSCOPE
      | Hier_VAR typ dir nam len hnd is_alias \<Rightarrow> HT_VAR (chars nam) hnd
      | _ \<Rightarrow> HT_OTHER)"

definition hierarchy :: "unpackers \<Rightarrow> (byte list \<Rightarrow> byte list) \<Rightarrow> fstReaderContext \<Rightarrow> fstHier list option" where
  "hierarchy up gunzip rx =
     Option.bind (fstReaderRecreateHierFile up gunzip rx) (\<lambda>(_, rx).
       case fx_fh rx of
         None \<Rightarrow> Some []
       | Some text \<Rightarrow>
           map_option (\<lambda>(hs, _). map hier_item hs) (iterate (length text + 1) (snd (fstReaderIterateHierRewind (hier_of text rx)))))"

text \<open>
  The calls of the callbacks of \<open>getValueChanges\<close> for the signals in the mask; the callback for
  values of variable length throws.
\<close>

fun event_changes :: "vc_event list \<Rightarrow> cxx_error + change list" where
  "event_changes [] = Inr []"
| "event_changes (Value_change time h v # es) =
     (case event_changes es of Inl e \<Rightarrow> Inl e | Inr cs \<Rightarrow> Inr ((time, word_of_nat h, c_chars v) # cs))"
| "event_changes (Varlen_change time h v # es) = Inl RuntimeError"

definition signal_changes :: "unpackers \<Rightarrow> fstReaderContext \<Rightarrow> fst_mask \<Rightarrow> (cxx_error + change list) option" where
  "signal_changes up rx m =
     map_option event_changes (fstReaderIterBlocks2 up (blocks_of (rx\<lparr>fx_process_mask := process_mask m\<rparr>)))"

text \<open>The changes for the constructor of a trace: those of its signals, if it finds them all.\<close>

definition file_mask :: "fstReaderContext \<Rightarrow> fst_mask" where
  "file_mask rx = rd_mask (blocks_of rx)"

definition trace_changes ::
    "unpackers \<Rightarrow> fstReaderContext \<Rightarrow> fstHier list \<Rightarrow> fst_scope \<Rightarrow> FstSignal list \<Rightarrow> (cxx_error + change list) option" where
  "trace_changes up rx hier xc signals =
     (case assignHandles hier xc signals of
        Inr (Some True, sigs, _) \<Rightarrow> signal_changes up rx (select_signals sigs (file_mask rx))
      | _ \<Rightarrow> Some (Inr []))"

section \<open>The traces\<close>

text \<open>What the memory happens to hold where the program sets nothing.\<close>

record junk =
  junk_handle :: "nat \<Rightarrow> handle"
  junk_start :: u32
  junk_mem :: MemTrace

definition the_signals :: "junk \<Rightarrow> (ConfigParams \<Rightarrow> string) list \<Rightarrow> ConfigParams \<Rightarrow> FstSignal list" where
  "the_signals j fs c = map (\<lambda>(k, f). FstSignal_of_path (junk_handle j k) (f c)) (enumerate 0 fs)"

definition cpu_signals :: "junk \<Rightarrow> ConfigParams \<Rightarrow> FstSignal list" where
  "cpu_signals j = the_signals j [cpuClkSignal, retiredPcValidSignal, retiredPcSignal]"

definition reg_signals :: "junk \<Rightarrow> ConfigParams \<Rightarrow> FstSignal list" where
  "reg_signals j = the_signals j [cpuClkSignal, regFileWriteValidSignal, regFileWriteAddrSignal, regFileWriteDataSignal]"

definition bus_signals :: "junk \<Rightarrow> ConfigParams \<Rightarrow> FstSignal list" where
  "bus_signals j = the_signals j
     [cpuClkSignal, memCmdValidSignal, memCmdReadySignal, memCmdAddrSignal, memCmdSizeSignal, memCmdWrSignal, memCmdWrDataSignal,
      memRspValidSignal, memRspRdDataSignal]"

definition image_file :: "(string \<Rightarrow> byte list option) \<Rightarrow> ConfigParams \<Rightarrow> byte list option option" where
  "image_file files c = (if memInitFileName c = [] then None else Some (files (memInitFileName c)))"

definition image_start :: "junk \<Rightarrow> ConfigParams \<Rightarrow> u32" where
  "image_start j c = (case cfg_memInitStartAddr c of None \<Rightarrow> junk_start j | Some n \<Rightarrow> word_of_int n)"

definition extract_traces ::
    "unpackers \<Rightarrow> (byte list \<Rightarrow> byte list) \<Rightarrow> (string \<Rightarrow> byte list option) \<Rightarrow> junk \<Rightarrow> ConfigParams \<Rightarrow> fstReaderContext \<Rightarrow>
      outcome + (CpuTrace \<times> RegFileTrace \<times> MemTrace)" where
  "extract_traces up gunzip files j c rx =
     run_reader (hierarchy up gunzip rx) (\<lambda>hier.
     let cpu = cpu_signals j c; regs = reg_signals j c; bus = bus_signals j c; fm = file_mask rx in
     run_reader (trace_changes up rx hier fst_scope_init cpu) (\<lambda>x. run_cxx x (\<lambda>changes.
     run_cxx (CpuTrace_new hier fst_scope_init fm changes (cpu ! 0) (cpu ! 1) (cpu ! 2)) (\<lambda>(cpuTrace, xc).
     run_reader (trace_changes up rx hier xc regs) (\<lambda>x. run_cxx x (\<lambda>changes.
     run_cxx (RegFileTrace_new hier xc fm changes (regs ! 0) (regs ! 1) (regs ! 2) (regs ! 3)) (\<lambda>(regFileTrace, xc).
     run_reader (trace_changes up rx hier xc bus) (\<lambda>x. run_cxx x (\<lambda>changes.
     run_cxx (MemTrace_new (image_file files c) (image_start j c) (junk_mem j) hier xc fm changes (bus ! 0) (bus ! 1) (bus ! 2)
         (bus ! 3) (bus ! 4) (bus ! 5) (bus ! 6) (bus ! 7) (bus ! 8)) (\<lambda>(memTrace, xc).
       Inr (cpuTrace, regFileTrace, memTrace)))))))))))"

section \<open>The program\<close>

record environment =
  env_files :: "string \<Rightarrow> byte list option"
  env_sockets :: socket_calls
  env_client :: conn
  env_junk :: junk
  env_stacks :: "nat \<Rightarrow> byte list"

text \<open>The statics of the stub are zero when the program starts.\<close>

definition debug_target :: "conn \<Rightarrow> CpuTrace \<times> RegFileTrace \<times> MemTrace \<Rightarrow> dbg_sys" where
  "debug_target client = (\<lambda>(cpu, regs, mem).
     \<lparr>tcpServer = client, cpuTrace = cpu, sys_regs = regs, sys_mem = mem,
      dbg_state = \<lparr>signum = 0, registers = replicate DBG_CPU_RISCV_NUM_REGISTERS 0\<rparr>, breakpoints = Map.empty\<rparr>)"

text \<open>Everything up to the call of \<open>dbg_sys_init\<close>.\<close>

definition start_up :: "unpackers \<Rightarrow> (byte list \<Rightarrow> byte list) \<Rightarrow> environment \<Rightarrow> string list \<Rightarrow> outcome + dbg_sys" where
  "start_up up gunzip env argv =
     run_cxx (command_line argv) (\<lambda>ops.
     run_cxx (parseConfig (map_option chars (env_files env (configParamsFileName ops))) no_params) (\<lambda>c.
     run_cxx (check_params c) (\<lambda>_.
     run_reader (FstProcess_new up gunzip (env_files env) (fstFileName ops)) (\<lambda>x. run_cxx x (\<lambda>rx.
     run_cxx (infoStr fst_scope_init rx) (\<lambda>_.
     case extract_traces up gunzip (env_files env) (env_junk env) c rx of
       Inl r \<Rightarrow> Inl r
     | Inr traces \<Rightarrow>
         if TcpServer_open (env_sockets env) then Inr (debug_target (env_client env) traces) else Inl Terminated))))))"

definition gdbwave_main :: "unpackers \<Rightarrow> (byte list \<Rightarrow> byte list) \<Rightarrow> environment \<Rightarrow> string list \<Rightarrow> outcome" where
  "gdbwave_main up gunzip env argv =
     (case start_up up gunzip env argv of
        Inl r \<Rightarrow> r
      | Inr y \<Rightarrow>
          (case dbg_sys_init (env_stacks env) y of
             Inl BufferOverread \<Rightarrow> Undefined
           | Inl BufferOverrun \<Rightarrow> Undefined
           | Inl (Target e) \<Rightarrow> outcome_of e
           | Inr _ \<Rightarrow> Exited 0))"

end
