(* ===== verification/Waves.thy ===== *)
theory Waves
  imports Sampling
begin

text \<open>
  What the extractors make of a whole waveform. A \<^emph>\<open>wave\<close> gives for every signal its changes,
  each with the index of its time. The reader delivers them in one group for every time; in
  a group the changes of one signal are in their order, the signals in any order. If no
  signal changes together with a falling edge of the clock (which the extractors take for
  granted), the records are those of the values at the falling edges, whatever the order in
  the groups.
\<close>

type_synonym wave = "handle \<Rightarrow> (nat \<times> string) list"

definition known :: "string \<Rightarrow> u64 option" where
  "known v = (if has_unknown v then None else case value_int v of Inl _ \<Rightarrow> None | Inr n \<Rightarrow> Some n)"

definition readable :: "string \<Rightarrow> bool" where
  "readable v \<longleftrightarrow> has_unknown v \<or> (\<exists>n. value_int v = Inr n)"

definition last_known :: "u64 \<Rightarrow> string list \<Rightarrow> u64" where
  "last_known = foldl (\<lambda>x v. case known v of None \<Rightarrow> x | Some n \<Rightarrow> n)"

text \<open>The value of a signal at the time with index \<open>k\<close>, and the falling edges of the clock then.\<close>

definition value_at :: "wave \<Rightarrow> handle \<Rightarrow> nat \<Rightarrow> u64" where
  "value_at W h k = last_known 0 (map snd (filter (\<lambda>c. fst c \<le> k) (W h)))"

definition falls :: "wave \<Rightarrow> handle \<Rightarrow> nat \<Rightarrow> nat" where
  "falls W clk k = length (filter (\<lambda>c. fst c = k \<and> known (snd c) = Some 0) (W clk))"

definition edge_records :: "wave \<Rightarrow> handle \<Rightarrow> (u64 \<Rightarrow> env \<Rightarrow> 'a list) \<Rightarrow> u64 list \<Rightarrow> 'a list" where
  "edge_records W clk out tims =
     concat (map (\<lambda>k. concat (replicate (falls W clk k) (out (tims ! k) (\<lambda>h. value_at W h k)))) [0..<length tims])"

definition stable_at_edges :: "wave \<Rightarrow> handle \<Rightarrow> handle set \<Rightarrow> bool" where
  "stable_at_edges W clk hs \<longleftrightarrow> (\<forall>k h. falls W clk k \<noteq> 0 \<longrightarrow> h \<in> hs \<longrightarrow> h \<noteq> clk \<longrightarrow> filter (\<lambda>c. fst c = k) (W h) = [])"

text \<open>The groups of changes of the signals \<open>hs\<close>.\<close>

definition grouped :: "wave \<Rightarrow> handle set \<Rightarrow> u64 list \<Rightarrow> change list list \<Rightarrow> bool" where
  "grouped W hs tims groups \<longleftrightarrow> length groups = length tims \<and>
     (\<forall>k < length tims. (\<forall>(t, h, v) \<in> set (groups ! k). t = tims ! k \<and> h \<in> hs) \<and>
        (\<forall>h \<in> hs. map (snd \<circ> snd) (filter (\<lambda>(t, h', v). h' = h) (groups ! k)) = map snd (filter (\<lambda>c. fst c = k) (W h))))"

section \<open>Sampling a list of changes\<close>

text \<open>The sampler on changes with handles in place of the signals.\<close>

fun sample_changes :: "handle \<Rightarrow> (u64 \<Rightarrow> env \<Rightarrow> 'a list) \<Rightarrow> env \<Rightarrow> change list \<Rightarrow> 'a list" where
  "sample_changes clk out env [] = []"
| "sample_changes clk out env ((time, h, v) # es) =
     (case known v of
        None \<Rightarrow> sample_changes clk out env es
      | Some n \<Rightarrow> (if h = clk \<and> n = 0 then out time env else []) @ sample_changes clk out (env(h := n)) es)"

lemma sample_selected:
  assumes "list_all (\<lambda>(t, h, v). h \<in> handle ` set sigs \<and> readable v) es"
  shows "sample clk out env (selected_changes sigs es) = sample_changes clk out env es"
  using assms
proof (induction es arbitrary: env)
  case (Cons e es)
  obtain t h v where e: "e = (t, h, v)"
    by (metis prod_cases3)
  with Cons.prems have hv: "h \<in> handle ` set sigs" "readable v" and rest: "list_all (\<lambda>(t, h, v). h \<in> handle ` set sigs \<and> readable v) es"
    by auto
  from hv(1) obtain sig where sig: "find (\<lambda>sig. handle sig = h) sigs = Some sig" "handle sig = h"
    by (metis (mono_tags, lifting) bex_find find_Some_iff imageE option.exhaust_sel)
  show ?case
    using hv(2) Cons.IH [OF rest] sig
    by (auto simp: e selected_changes_def List.map_filter_simps known_def readable_def simp del: fun_upd_apply split: sum.splits)
qed (simp add: selected_changes_def)

definition env_after :: "env \<Rightarrow> change list \<Rightarrow> env" where
  "env_after env es h = last_known (env h) (map (snd \<circ> snd) (filter (\<lambda>(t, h', v). h' = h) es))"

lemma last_known_Nil [simp]: "last_known x [] = x"
  by (simp add: last_known_def)

lemma last_known_Cons [simp]: "last_known x (v # vs) = last_known (case known v of None \<Rightarrow> x | Some n \<Rightarrow> n) vs"
  by (simp add: last_known_def)

lemma last_known_append: "last_known x (vs @ ws) = last_known (last_known x vs) ws"
  by (simp add: last_known_def)

lemma env_after_Cons:
  "env_after env ((t, h, v) # es) = env_after (case known v of None \<Rightarrow> env | Some n \<Rightarrow> env(h := n)) es"
  by (auto simp: env_after_def fun_eq_iff split: option.split)

lemma env_after_Nil [simp]: "env_after env [] = env"
  by (simp add: env_after_def fun_eq_iff)

lemma sample_changes_append:
  "sample_changes clk out env (es @ es') = sample_changes clk out env es @ sample_changes clk out (env_after env es) es'"
proof (induction es arbitrary: env)
  case (Cons e es)
  then show ?case
    by (cases e) (auto simp: env_after_Cons simp del: fun_upd_apply split: option.split)
qed simp

text \<open>A group: without a falling edge it gives no record; with one it has changes of the clock only.\<close>

definition edges :: "handle \<Rightarrow> change list \<Rightarrow> nat" where
  "edges clk es = length (filter (\<lambda>(t, h, v). h = clk \<and> known v = Some 0) es)"

lemma edges_Cons: "edges clk ((t, h, v) # es) = (if h = clk \<and> known v = Some 0 then Suc (edges clk es) else edges clk es)"
  by (simp add: edges_def)

lemma sample_no_edge: "edges clk es = 0 \<Longrightarrow> sample_changes clk out env es = []"
proof (induction es arbitrary: env)
  case (Cons e es)
  then show ?case
    by (cases e) (auto simp: edges_Cons split: option.split if_splits)
qed simp

lemma sample_clock:
  assumes "\<And>t env n. out t (env(clk := n)) = out t env" "\<forall>(t', h, v) \<in> set es. t' = t \<and> h = clk"
  shows "sample_changes clk out env es = concat (replicate (edges clk es) (out t env))"
  using assms(2)
proof (induction es arbitrary: env)
  case (Cons e es)
  obtain t' h v where e: "e = (t', h, v)"
    by (metis prod_cases3)
  with Cons.prems have *: "t' = t" "h = clk" "\<forall>(t', h, v) \<in> set es. t' = t \<and> h = clk"
    by auto
  show ?case
    using Cons.IH [OF *(3)] by (auto simp: e * assms(1) edges_Cons simp del: fun_upd_apply split: option.split)
qed (simp add: edges_def)

section \<open>Sampling a wave\<close>

lemma filter_fst_le_Suc:
  assumes "sorted (map fst cs)"
  shows "filter (\<lambda>c. fst c \<le> k) cs = filter (\<lambda>c. fst c < k) cs @ filter (\<lambda>c. fst c = (k :: nat)) cs"
  using assms
proof (induction cs)
  case (Cons c cs)
  show ?case
  proof (cases "fst c < k")
    case False
    then have "filter (\<lambda>c. fst c < k) cs = []"
      using Cons.prems by (fastforce simp: filter_empty_conv)
    then show ?thesis
      using Cons False by auto
  qed (use Cons in auto)
qed simp

lemma edges_falls:
  assumes "map (snd \<circ> snd) (filter (\<lambda>(t, h', v). h' = clk) g) = map snd (filter (\<lambda>c. fst c = k) (W clk))"
  shows "edges clk g = falls W clk k"
proof -
  have "edges clk g = length (filter (\<lambda>v. known v = Some 0) (map (snd \<circ> snd) (filter (\<lambda>(t, h', v). h' = clk) g)))"
    by (induction g) (auto simp: edges_def)
  also have "\<dots> = length (filter (\<lambda>v. known v = Some 0) (map snd (filter (\<lambda>c. fst c = k) (W clk))))"
    by (simp only: assms)
  also have "\<dots> = falls W clk k"
    by (simp add: falls_def filter_map comp_def conj_commute)
  finally show ?thesis .
qed

definition value_before :: "wave \<Rightarrow> handle set \<Rightarrow> nat \<Rightarrow> env" where
  "value_before W hs k h = (if h \<in> hs then last_known 0 (map snd (filter (\<lambda>c. fst c < k) (W h))) else 0)"

lemma grouped_env:
  assumes "grouped W hs tims groups" "k < length tims" "\<forall>h \<in> hs. sorted (map fst (W h))"
  shows "env_after (value_before W hs k) (groups ! k) = value_before W hs (Suc k)"
proof
  fix h
  have g: "\<forall>(t, h, v) \<in> set (groups ! k). h \<in> hs"
    "\<forall>h \<in> hs. map (snd \<circ> snd) (filter (\<lambda>(t, h', v). h' = h) (groups ! k)) = map snd (filter (\<lambda>c. fst c = k) (W h))"
    using assms(1,2) by (fastforce simp: grouped_def)+
  show "env_after (value_before W hs k) (groups ! k) h = value_before W hs (Suc k) h"
  proof (cases "h \<in> hs")
    case True
    then show ?thesis
      using g(2) assms(3) filter_fst_le_Suc [of "W h" k]
      by (simp add: env_after_def value_before_def less_Suc_eq_le last_known_append)
  next
    case False
    then have "filter (\<lambda>(t, h', v). h' = h) (groups ! k) = []"
      using g(1) by (auto simp: filter_empty_conv)
    then show ?thesis
      using False by (simp add: env_after_def value_before_def)
  qed
qed

text \<open>The records depend on the signals other than the clock.\<close>

definition reads_only :: "(u64 \<Rightarrow> env \<Rightarrow> 'a list) \<Rightarrow> handle set \<Rightarrow> bool" where
  "reads_only out hs \<longleftrightarrow> (\<forall>t env env'. (\<forall>h \<in> hs. env h = env' h) \<longrightarrow> out t env = out t env')"

lemma sample_group:
  assumes "grouped W hs tims groups" "k < length tims" "stable_at_edges W clk hs" "clk \<in> hs"
    and out: "reads_only out (hs - {clk})"
    and "\<forall>h \<in> hs. sorted (map fst (W h))"
  shows "sample_changes clk out (value_before W hs k) (groups ! k) =
    concat (replicate (falls W clk k) (out (tims ! k) (\<lambda>h. value_at W h k)))"
proof -
  have g: "\<forall>(t, h, v) \<in> set (groups ! k). t = tims ! k \<and> h \<in> hs"
    "\<And>h. h \<in> hs \<Longrightarrow> map (snd \<circ> snd) (filter (\<lambda>(t, h', v). h' = h) (groups ! k)) = map snd (filter (\<lambda>c. fst c = k) (W h))"
    using assms(1,2) by (auto simp: grouped_def)
  have edges: "edges clk (groups ! k) = falls W clk k"
    by (rule edges_falls) (rule g(2) [OF assms(4)])
  show ?thesis
  proof (cases "falls W clk k = 0")
    case True
    then show ?thesis
      using edges by (simp add: sample_no_edge)
  next
    case False
    have quiet: "filter (\<lambda>c. fst c = k) (W h) = []" if "h \<in> hs" "h \<noteq> clk" for h
      using assms(3) False that by (simp add: stable_at_edges_def)
    then have no: "filter (\<lambda>(t, h', v). h' = h) (groups ! k) = []" if "h \<in> hs" "h \<noteq> clk" for h
      using g(2) [of h] that by simp
    have "t = tims ! k \<and> h = clk" if e: "(t, h, v) \<in> set (groups ! k)" for t h v
    proof -
      have th: "t = tims ! k \<and> h \<in> hs"
        using g(1) e by blast
      have "h = clk"
      proof (rule ccontr)
        assume "h \<noteq> clk"
        from no [OF conjunct2 [OF th] this]
        have "\<forall>x \<in> set (groups ! k). \<not> (case x of (t, h', v) \<Rightarrow> h' = h)"
          by (simp only: filter_empty_conv)
        from bspec [OF this e] show False
          by simp
      qed
      with th show ?thesis
        by simp
    qed
    then have "\<forall>(t, h, v) \<in> set (groups ! k). t = tims ! k \<and> h = clk"
      by blast
    then have "sample_changes clk out (value_before W hs k) (groups ! k) =
        concat (replicate (falls W clk k) (out (tims ! k) (value_before W hs k)))"
      using sample_clock [of out clk "groups ! k" "tims ! k"] out edges by (simp add: reads_only_def)
    moreover have "\<forall>h \<in> hs - {clk}. value_before W hs k h = value_at W h k"
    proof
      fix h
      assume "h \<in> hs - {clk}"
      then show "value_before W hs k h = value_at W h k"
        using quiet [of h] assms(6) filter_fst_le_Suc [of "W h" k] by (simp add: value_before_def value_at_def)
    qed
    from out [unfolded reads_only_def, THEN spec, of "tims ! k", THEN spec, of "value_before W hs k", THEN spec,
        of "\<lambda>h. value_at W h k", THEN mp, OF this]
    have "out (tims ! k) (value_before W hs k) = out (tims ! k) (\<lambda>h. value_at W h k)" .
    ultimately show ?thesis
      by simp
  qed
qed

lemma sample_groups:
  assumes "grouped W hs tims groups" "stable_at_edges W clk hs" "clk \<in> hs"
    and out: "reads_only out (hs - {clk})"
    and sorted: "\<forall>h \<in> hs. sorted (map fst (W h))"
  shows "sample_changes clk out (\<lambda>_. 0) (concat groups) = edge_records W clk out tims"
proof -
  have "n \<le> length tims \<Longrightarrow>
      sample_changes clk out (\<lambda>_. 0) (concat (take n groups)) =
        concat (map (\<lambda>k. concat (replicate (falls W clk k) (out (tims ! k) (\<lambda>h. value_at W h k)))) [0..<n]) \<and>
      env_after (\<lambda>_. 0) (concat (take n groups)) = value_before W hs n" for n
  proof (induction n)
    case 0
    show ?case
      by (simp add: value_before_def fun_eq_iff)
  next
    case (Suc n)
    then have n: "n < length tims" "n < length groups"
      using assms(1) by (simp_all add: grouped_def)
    have "env_after env (es @ es') = env_after (env_after env es) es'" for env es es'
      by (simp add: env_after_def fun_eq_iff last_known_append)
    then show ?case
      using Suc n sample_group [OF assms(1) n(1) assms(2,3) out sorted] grouped_env [OF assms(1) n(1) sorted]
      by (simp add: take_Suc_conv_app_nth sample_changes_append)
  qed
  from this [of "length tims"] show ?thesis
    using assms(1) by (simp add: grouped_def edge_records_def)
qed

text \<open>The extractors' records of a wave.\<close>

lemma sample_wave:
  assumes "grouped W (handle ` set sigs) tims groups" "stable_at_edges W clk (handle ` set sigs)" "clk \<in> handle ` set sigs"
    and "reads_only out (handle ` set sigs - {clk})"
    and "\<forall>h \<in> handle ` set sigs. sorted (map fst (W h))" "\<forall>h \<in> handle ` set sigs. \<forall>c \<in> set (W h). readable (snd c)"
  shows "sample clk out (\<lambda>_. 0) (selected_changes sigs (concat groups)) = edge_records W clk out tims"
proof -
  have "h \<in> handle ` set sigs \<and> readable v" if "(t, h, v) \<in> set (concat groups)" for t h v
  proof -
    obtain g where "g \<in> set groups" "(t, h, v) \<in> set g"
      using \<open>(t, h, v) \<in> set (concat groups)\<close> by auto
    then obtain k where k: "k < length tims" "(t, h, v) \<in> set (groups ! k)"
      using assms(1) by (auto simp: in_set_conv_nth grouped_def)
    then have h: "h \<in> handle ` set sigs"
      using assms(1) by (fastforce simp: grouped_def)
    then have "map (snd \<circ> snd) (filter (\<lambda>(t, h', v). h' = h) (groups ! k)) = map snd (filter (\<lambda>c. fst c = k) (W h))"
      using assms(1) k(1) by (auto simp: grouped_def)
    moreover have "v \<in> set (map (snd \<circ> snd) (filter (\<lambda>(t, h', v). h' = h) (groups ! k)))"
      using k(2) by force
    ultimately have "v \<in> snd ` set (W h)"
      by auto
    with h assms(6) show ?thesis
      by auto
  qed
  then have "list_all (\<lambda>(t, h, v). h \<in> handle ` set sigs \<and> readable v) (concat groups)"
    unfolding list_all_iff by blast
  from sample_selected [OF this, of clk out "\<lambda>_. 0"] sample_groups [OF assms(1-3) assms(4) assms(5)] show ?thesis
    by (rule trans)
qed

end
