(* ===== verification/Fst_Values_Correct.thy ===== *)
theory Fst_Values_Correct
  imports Fst_Values
begin

text \<open>
  Value changes in memory: the links of a signal lead through the records of exactly the
  changes that were emitted for it, and the chain that a flush makes of them is their text,
  oldest first. \<open>chain_in\<close> is the relation between memory and the list of the changes.
\<close>

section \<open>Filling a buffer from its end\<close>

text \<open>\<open>f\<close> puts the bytes \<open>bs\<close> in front of those that are there.\<close>

definition puts :: "byte list \<Rightarrow> (scratch \<Rightarrow> scratch option) \<Rightarrow> bool" where
  "puts bs f \<longleftrightarrow> (\<forall>pnt pad. length bs \<le> pnt \<longrightarrow> pnt \<le> length pad \<longrightarrow>
     (\<exists>pad1. f (pnt, pad) = Some (pnt - length bs, pad1) \<and> length pad1 = length pad \<and>
        drop (pnt - length bs) pad1 = bs @ drop pnt pad))"

lemma putsD:
  assumes "puts bs f" "length bs \<le> pnt" "pnt \<le> length pad"
  obtains pad1 where "f (pnt, pad) = Some (pnt - length bs, pad1)" "length pad1 = length pad"
    "drop (pnt - length bs) pad1 = bs @ drop pnt pad"
  using assms by (auto simp: puts_def)

lemma puts_Nil: "puts [] Some"
  by (simp add: puts_def)

lemma puts_bind:
  assumes f: "puts as f" and g: "puts bs g"
  shows "puts (bs @ as) (\<lambda>sp. Option.bind (f sp) g)"
  unfolding puts_def
proof (intro allI impI)
  fix pnt and pad :: "byte list"
  assume room: "length (bs @ as) \<le> pnt" "pnt \<le> length pad"
  obtain pad1 where 1: "f (pnt, pad) = Some (pnt - length as, pad1)" "length pad1 = length pad"
      "drop (pnt - length as) pad1 = as @ drop pnt pad"
    by (rule putsD [OF f, of pnt pad]) (use room in simp_all)
  obtain pad2 where 2: "g (pnt - length as, pad1) = Some (pnt - length as - length bs, pad2)" "length pad2 = length pad1"
      "drop (pnt - length as - length bs) pad2 = bs @ drop (pnt - length as) pad1"
    by (rule putsD [OF g, of "pnt - length as" pad1]) (use room 1(2) in simp_all)
  have "pnt - length (bs @ as) = pnt - length as - length bs"
    by simp
  then show "\<exists>pad1. Option.bind (f (pnt, pad)) g = Some (pnt - length (bs @ as), pad1) \<and> length pad1 = length pad \<and>
      drop (pnt - length (bs @ as)) pad1 = (bs @ as) @ drop pnt pad"
    using 1 2 by simp
qed

lemma puts_bytes: "puts bs (left_bytes bs)"
  unfolding puts_def
proof (intro allI impI)
  fix pnt and pad :: "byte list"
  assume room: "length bs \<le> pnt" "pnt \<le> length pad"
  then have "poke pad (pnt - length bs) bs = take (pnt - length bs) pad @ bs @ drop pnt pad"
    by (simp add: poke_fits)
  then show "\<exists>pad1. left_bytes bs (pnt, pad) = Some (pnt - length bs, pad1) \<and> length pad1 = length pad \<and>
      drop (pnt - length bs) pad1 = bs @ drop pnt pad"
    using room by (simp add: left_bytes_def)
qed

lemma puts_varint: "puts (varint_bytes v) (left_varint v)"
proof -
  have "length (varint_bytes v) > 0"
    by simp
  then have "fst sp \<ge> length (varint_bytes v) \<Longrightarrow> left_varint v sp = left_bytes (varint_bytes v) sp" for sp
    by (simp add: left_varint_def left_bytes_def fstCopyVarint32ToLeft_def varint_count_bytes varint_emit_bytes Let_def)
  then show ?thesis
    using puts_bytes [of "varint_bytes v"] by (simp add: puts_def)
qed

section \<open>The text of a change\<close>

text \<open>Eight digits to a byte, the last byte padded.\<close>

definition pack_text :: "byte list \<Rightarrow> byte list" where
  "pack_text v = map (\<lambda>k. pack_byte (take 8 (drop (8 * k) v))) [0..<(length v + 7) div 8]"

lemma puts_pack_bits: "puts (map (\<lambda>k. pack_byte (take 8 (drop (8 * k) v))) [0..<k]) (pack_bits v k 8)"
proof (induction k)
  case (Suc k)
  show ?case
    using puts_bind [OF puts_bytes Suc, of "[pack_byte (take 8 (drop (8 * k) v))]"] by simp
qed (simp add: puts_def)

lemma puts_pack:
  assumes "v \<noteq> []"
  shows "puts (pack_text v) (pack_bits v ((length v + 7) div 8) (if length v mod 8 = 0 then 8 else length v mod 8))"
proof -
  obtain n where n: "length v = Suc n"
    using assms by (cases v) simp_all
  define k where "k = n div 8"
  have k: "(length v + 7) div 8 = Suc k"
    by (simp add: n k_def)
  have last: "take (if length v mod 8 = 0 then 8 else length v mod 8) (drop (8 * k) v) = take 8 (drop (8 * k) v)"
  proof (cases "length v mod 8 = 0")
    case False
    then have "length v = 8 * k + length v mod 8"
      unfolding n k_def by presburger
    then have "length (drop (8 * k) v) = length v mod 8"
      by (metis add_diff_cancel_left' length_drop)
    then show ?thesis
      using False by simp
  qed simp
  let ?m = "if length v mod 8 = 0 then 8 else length v mod 8"
  have "pack_bits v (Suc k) ?m = (\<lambda>sp. Option.bind (left_bytes [pack_byte (take 8 (drop (8 * k) v))] sp) (pack_bits v k 8))"
    by (rule ext) (simp only: pack_bits.simps last)
  moreover have "pack_text v = map (\<lambda>k. pack_byte (take 8 (drop (8 * k) v))) [0..<k] @ [pack_byte (take 8 (drop (8 * k) v))]"
    by (simp add: pack_text_def k)
  ultimately show ?thesis
    using puts_bind [OF puts_bytes [of "[pack_byte (take 8 (drop (8 * k) v))]"] puts_pack_bits [of v k]]
    by (simp only: k)
qed

text \<open>A change of a signal of the length \<open>len\<close>: the distance in time and the value.\<close>

definition is_binary :: "byte list \<Rightarrow> bool" where
  "is_binary v \<longleftrightarrow> (\<forall>c \<in> set v. c = 0x30 \<or> c = 0x31)"

definition change_text :: "u32 \<Rightarrow> u32 \<times> byte list \<Rightarrow> byte list" where
  "change_text len dv =
     (case dv of (d, v) \<Rightarrow>
        if len = 1 then varint_bytes (rcv_code (hd v) d)
        else if len = 0 then varint_bytes (push_bit 1 d) @ varint_bytes (word_of_nat (length v) :: u32) @ v
        else if is_binary v then varint_bytes (push_bit 1 d) @ pack_text v
        else varint_bytes (push_bit 1 d OR 1) @ v)"

definition left_change :: "u32 \<Rightarrow> u32 \<times> byte list \<Rightarrow> scratch \<Rightarrow> scratch option" where
  "left_change len dv sp =
     (case dv of (d, v) \<Rightarrow>
        if len = 1 then left_varint (rcv_code (hd v) d) sp
        else if len = 0 then
          Option.bind (Option.bind (left_bytes v sp) (left_varint (word_of_nat (length v)))) (left_varint (push_bit 1 d))
        else left_value v d sp)"

text \<open>The length that a value has: that of the signal, if it is fixed.\<close>

definition value_fits :: "u32 \<Rightarrow> byte list \<Rightarrow> bool" where
  "value_fits len v \<longleftrightarrow> (if len = 0 then length v < 2 ^ 32 else length v = unat len)"

lemma puts_change:
  assumes "value_fits len v"
  shows "puts (change_text len (d, v)) (left_change len (d, v))"
proof -
  consider "len = 1" | "len = 0" | "len \<noteq> 0" "len \<noteq> 1"
    by blast
  then show ?thesis
  proof cases
    case 1
    then have "left_change len (d, v) = left_varint (rcv_code (hd v) d)"
      by (simp add: left_change_def fun_eq_iff)
    then show ?thesis
      using 1 puts_varint by (simp add: change_text_def)
  next
    case 2
    then have "left_change len (d, v) = (\<lambda>sp. Option.bind
        (Option.bind (left_bytes v sp) (left_varint (word_of_nat (length v)))) (left_varint (push_bit 1 d)))"
      by (simp add: left_change_def fun_eq_iff)
    moreover have "puts (varint_bytes (push_bit 1 d) @ varint_bytes (word_of_nat (length v) :: u32) @ v)
        (\<lambda>sp. Option.bind (Option.bind (left_bytes v sp) (left_varint (word_of_nat (length v)))) (left_varint (push_bit 1 d)))"
      by (intro puts_bind puts_bytes puts_varint)
    ultimately show ?thesis
      using 2 by (simp only: change_text_def prod.case) simp
  next
    case 3
    then have v: "v \<noteq> []"
      using assms by (auto simp: value_fits_def unat_eq_0)
    have "left_change len (d, v) = left_value v d"
      using 3 by (simp add: left_change_def fun_eq_iff)
    moreover have "puts (if is_binary v then varint_bytes (push_bit 1 d) @ pack_text v
        else varint_bytes (push_bit 1 d OR 1) @ v) (left_value v d)"
    proof (cases "is_binary v")
      case True
      then have "left_value v d = (\<lambda>sp. Option.bind (pack_bits v ((length v + 7) div 8)
          (if length v mod 8 = 0 then 8 else length v mod 8) sp) (left_varint (push_bit 1 d)))"
        by (intro ext) (simp only: left_value_def is_binary_def [symmetric] if_True)
      moreover have "puts (varint_bytes (push_bit 1 d) @ pack_text v) \<dots>"
        by (intro puts_bind puts_pack puts_varint v)
      ultimately show ?thesis
        using True by simp
    next
      case False
      then have "left_value v d = (\<lambda>sp. Option.bind (left_bytes v sp) (left_varint (push_bit 1 d OR 1)))"
        by (intro ext) (simp only: left_value_def is_binary_def [symmetric] if_False)
      moreover have "puts (varint_bytes (push_bit 1 d OR 1) @ v) \<dots>"
        by (intro puts_bind puts_bytes puts_varint)
      ultimately show ?thesis
        using False by simp
    qed
    ultimately show ?thesis
      using 3 by (simp only: change_text_def prod.case if_False)
  qed
qed

lemma varint_length_32: "length (varint_bytes (v :: u32)) \<le> 5"
proof -
  have "unat v < 2 ^ 32"
    using unsigned_less [of v, where ?'a = nat] by simp
  also have "(2 :: nat) ^ 32 \<le> 128 ^ 5"
    by simp
  finally show ?thesis
    using varint_length_le [of 5 v] by simp
qed

section \<open>The records of a signal\<close>

definition vc_record :: "u32 \<Rightarrow> u32 \<Rightarrow> u32 \<times> byte list \<Rightarrow> byte list" where
  "vc_record len next_offs dv =
     le_bytes32 next_offs @ varint_bytes (fst dv) @
     (if len = 0 then varint_bytes (word_of_nat (length (snd dv)) :: u32) else []) @ snd dv"

text \<open>
  From \<open>offs\<close> on, the links lead through the changes \<open>es\<close>, newest first; every record lies
  below the one before it, and all of them below \<open>lim\<close>.
\<close>

fun chain_in :: "u32 \<Rightarrow> byte list \<Rightarrow> nat \<Rightarrow> nat \<Rightarrow> (u32 \<times> byte list) list \<Rightarrow> bool" where
  "chain_in len mem lim offs [] \<longleftrightarrow> offs = 0"
| "chain_in len mem lim offs (dv # es) \<longleftrightarrow>
     (\<exists>next_offs. 0 < offs \<and> value_fits len (snd dv) \<and>
        offs + length (vc_record len next_offs dv) \<le> lim \<and>
        slice mem offs (length (vc_record len next_offs dv)) = Some (vc_record len next_offs dv) \<and>
        chain_in len mem offs (unat next_offs) es)"

lemma slice_take: "off + n \<le> lim \<Longrightarrow> lim \<le> length mem \<Longrightarrow> slice (take lim mem) off n = slice mem off n"
  by (simp add: slice_def drop_take min_def)

lemma slice_cong:
  assumes "take lim mem = take lim mem1" "lim \<le> length mem" "lim \<le> length mem1" "off + n \<le> lim"
  shows "slice mem off n = slice mem1 off n"
  using slice_take [of off n lim mem] slice_take [of off n lim mem1] assms by simp

lemma chain_in_cong:
  "take lim mem = take lim mem1 \<Longrightarrow> lim \<le> length mem \<Longrightarrow> lim \<le> length mem1 \<Longrightarrow>
     chain_in len mem lim offs es \<Longrightarrow> chain_in len mem1 lim offs es"
proof (induction es arbitrary: lim offs)
  case (Cons dv es)
  then obtain next_offs where r: "0 < offs" "value_fits len (snd dv)"
      "offs + length (vc_record len next_offs dv) \<le> lim"
      "slice mem offs (length (vc_record len next_offs dv)) = Some (vc_record len next_offs dv)"
      "chain_in len mem offs (unat next_offs) es"
    by auto
  have "take offs mem = take offs mem1"
    using Cons.prems(1) r(3) by (metis add_leD1 min.absorb1 take_take)
  then have "chain_in len mem1 offs (unat next_offs) es"
    using Cons.IH r(3,5) Cons.prems(2,3) by simp
  then show ?case
    using r slice_cong [OF Cons.prems(1-3) r(3)] by auto
qed simp

lemma chain_in_mono: "chain_in len mem lim offs es \<Longrightarrow> lim \<le> lim1 \<Longrightarrow> chain_in len mem lim1 offs es"
  by (cases es) (auto intro: order_trans)

lemma slice_SomeD: "slice mem off n = Some bs \<Longrightarrow> \<exists>rest. drop off mem = bs @ rest \<and> length bs = n"
  by (auto simp: slice_def split: if_splits intro: exI [of _ "drop n (drop off mem)"])
    (metis append_take_drop_id drop_drop)

lemma slice_append: "length a = off \<Longrightarrow> slice (a @ bs @ rest) off (length bs) = Some bs"
  by (simp add: slice_def)

text \<open>The size of the text of a change is at most that of its record.\<close>

lemma length_pack_text: "length (pack_text v) \<le> length v"
  by (cases v) (simp_all add: pack_text_def)

lemma change_text_size:
  assumes "value_fits len (snd dv)"
  shows "length (change_text len dv) \<le> length (vc_record len next_offs dv)"
proof -
  obtain d v where dv: "dv = (d, v)"
    by (cases dv)
  have 1: "length (varint_bytes (w :: u32)) \<le> 4 + length (varint_bytes d)" for w
    using varint_length_32 [of w] by (cases "varint_bytes d") auto
  have 2: "len = 1 \<Longrightarrow> length v = 1"
    using assms by (simp add: dv value_fits_def)
  show ?thesis
    using 1 [of "rcv_code (hd v) d"] 1 [of "push_bit 1 d"] 1 [of "push_bit 1 d OR 1"] 2 length_pack_text [of v]
    by (auto simp: dv change_text_def vc_record_def)
qed

lemma chain_text_size:
  "chain_in len mem lim offs es \<Longrightarrow> 0 < lim \<Longrightarrow> length (concat (map (change_text len) (rev es))) < lim"
proof (induction es arbitrary: lim offs)
  case (Cons dv es)
  then obtain next_offs where r: "0 < offs" "value_fits len (snd dv)"
      "offs + length (vc_record len next_offs dv) \<le> lim" "chain_in len mem offs (unat next_offs) es"
    by auto
  have "length (concat (map (change_text len) (rev es))) < offs"
    using Cons.IH r by blast
  then show ?case
    using change_text_size [OF r(2), of next_offs] r(3) by simp
qed simp

section \<open>The chain of a signal\<close>

definition value_chain :: "u32 \<Rightarrow> byte list \<Rightarrow> nat \<Rightarrow> scratch \<Rightarrow> scratch option" where
  "value_chain len mem offs sp =
     (if len \<le> 1 then if len = 1 then bit_chain mem offs sp else var_chain mem offs sp
      else vec_chain (unat len) mem offs sp)"

lemma get_uint32_record: "fstGetUint32 (le_bytes32 w @ rest) = Some w"
  by (simp add: fstGetUint32_def)

lemma get_varint32_bytes: "fstGetVarint32 (varint_bytes (v :: u32) @ rest) = Some (v, length (varint_bytes v))"
  by (simp add: fstGetVarint32_def varint_scan_varint_bytes varint_value_varint_bytes)

lemma drop_record:
  assumes "drop offs mem = as @ rest"
  shows "drop (offs + length as) mem = rest"
  using assms by (metis add.commute append_eq_conv_conj drop_drop)

text \<open>What the functions that walk along the links see at a record.\<close>

lemma record_parts:
  assumes "slice mem offs (length (vc_record len next_offs (d, v))) = Some (vc_record len next_offs (d, v))"
  shows "fstGetUint32 (drop offs mem) = Some next_offs"
    "fstGetVarint32 (drop (offs + 4) mem) = Some (d, length (varint_bytes d))"
    "len \<noteq> 0 \<Longrightarrow> slice mem (offs + 4 + length (varint_bytes d)) (length v) = Some v"
    "len = 0 \<Longrightarrow> fstGetVarint32 (drop (offs + 4 + length (varint_bytes d)) mem) =
       Some (word_of_nat (length v), length (varint_bytes (word_of_nat (length v) :: u32)))"
    "len = 0 \<Longrightarrow> slice mem (offs + 4 + length (varint_bytes d) + length (varint_bytes (word_of_nat (length v) :: u32)))
       (length v) = Some v"
proof -
  let ?l = "if len = 0 then varint_bytes (word_of_nat (length v) :: u32) else []"
  obtain rest where r: "drop offs mem = le_bytes32 next_offs @ varint_bytes d @ ?l @ v @ rest"
    using slice_SomeD [OF assms] by (auto simp: vc_record_def)
  have r4: "drop (offs + 4) mem = varint_bytes d @ ?l @ v @ rest"
    using drop_record [OF r] by simp
  have r5: "drop (offs + 4 + length (varint_bytes d)) mem = ?l @ v @ rest"
    by (rule drop_record [OF r4])
  have r6: "drop (offs + 4 + length (varint_bytes d) + length ?l) mem = v @ rest"
    by (rule drop_record [OF r5])
  have "offs + 4 + length (varint_bytes d) + length ?l + length v \<le> length mem"
    using assms by (simp add: slice_def vc_record_def split: if_splits)
  then have sl: "slice mem (offs + 4 + length (varint_bytes d) + length ?l) (length v) = Some v"
    using r6 by (simp add: slice_def)
  show "fstGetUint32 (drop offs mem) = Some next_offs"
    unfolding r by (rule get_uint32_record)
  show "fstGetVarint32 (drop (offs + 4) mem) = Some (d, length (varint_bytes d))"
    unfolding r4 by (rule get_varint32_bytes)
  show "slice mem (offs + 4 + length (varint_bytes d)) (length v) = Some v" if "len \<noteq> 0"
    using sl that by simp
  show "fstGetVarint32 (drop (offs + 4 + length (varint_bytes d)) mem) =
       Some (word_of_nat (length v), length (varint_bytes (word_of_nat (length v) :: u32)))" if "len = 0"
    using r5 that by (simp add: get_varint32_bytes)
  show "slice mem (offs + 4 + length (varint_bytes d) + length (varint_bytes (word_of_nat (length v) :: u32)))
       (length v) = Some v" if "len = 0"
    using sl that by simp
qed

lemma slice_peek: "slice mem off (Suc 0) = Some [b] \<Longrightarrow> peek mem off = Some b"
  by (auto simp: slice_def peek_Some_iff take_Suc_conv_app_nth split: if_splits)

lemma value_chain_eq:
  "value_chain len mem offs =
     (if len \<le> 1 then if len = 1 then bit_chain mem offs else var_chain mem offs else vec_chain (unat len) mem offs)"
  by (simp add: value_chain_def fun_eq_iff)

lemma value_chain_step:
  assumes offs: "0 < offs" and fits: "value_fits len (snd dv)"
    and r: "slice mem offs (length (vc_record len next_offs dv)) = Some (vc_record len next_offs dv)"
  shows "value_chain len mem offs = (\<lambda>sp. Option.bind (left_change len dv sp) (value_chain len mem (unat next_offs)))"
proof
  fix sp
  obtain d v where dv: "dv = (d, v)"
    by (cases dv)
  note parts = record_parts [OF r [unfolded dv]]
  have len_cases: "len \<le> 1 \<longleftrightarrow> len = 0 \<or> len = 1"
    by unat_arith
  consider "len = 1" | "len = 0" | "len \<noteq> 0" "len \<noteq> 1"
    by blast
  then show "value_chain len mem offs sp = Option.bind (left_change len dv sp) (value_chain len mem (unat next_offs))"
  proof cases
    case 1
    then obtain b where v: "v = [b]"
      using fits by (auto simp: dv value_fits_def length_Suc_conv)
    have "peek mem (offs + 4 + length (varint_bytes d)) = Some b"
      using parts(3) 1 v by (intro slice_peek) simp
    then show ?thesis
      using 1 offs parts(1,2) by (simp add: value_chain_eq dv v left_change_def bit_chain.simps [of mem offs])
  next
    case 2
    have "unat (word_of_nat (length v) :: u32) = length v"
      using fits 2 by (simp add: dv value_fits_def unsigned_of_nat take_bit_nat_eq_self)
    then show ?thesis
      using 2 offs parts
      by (simp add: value_chain_eq dv left_change_def var_chain.simps [of mem offs] Option.bind_assoc)
  next
    case 3
    have "length v = unat len"
      using fits 3 by (simp add: dv value_fits_def)
    then show ?thesis
      using 3 offs parts(1,2,3)
      by (simp add: value_chain_eq len_cases dv left_change_def vec_chain.simps [of "unat len" mem offs])
  qed
qed

lemma value_chain_end: "value_chain len mem 0 = Some"
  by (simp add: value_chain_def fun_eq_iff bit_chain.simps [of mem 0] var_chain.simps [of mem 0]
      vec_chain.simps [of "unat len" mem 0])

lemma puts_value_chain:
  "chain_in len mem lim offs es \<Longrightarrow> puts (concat (map (change_text len) (rev es))) (value_chain len mem offs)"
proof (induction es arbitrary: lim offs)
  case Nil
  then show ?case
    by (simp add: value_chain_end puts_Nil)
next
  case (Cons dv es)
  then obtain next_offs where r: "0 < offs" "value_fits len (snd dv)"
      "slice mem offs (length (vc_record len next_offs dv)) = Some (vc_record len next_offs dv)"
      "chain_in len mem offs (unat next_offs) es"
    by auto
  have "puts (change_text len dv) (left_change len dv)"
    using puts_change [of len "snd dv" "fst dv"] r(2) by simp
  then show ?case
    using puts_bind Cons.IH [OF r(4)] unfolding value_chain_step [OF r(1-3)] by simp
qed

text \<open>The chain is the text of the changes; the walk ends and stays in the buffer.\<close>

lemma signal_chain_text:
  assumes "chain_in (vp_len vm) mem siz (unat (vp_chain vm)) es" "0 < siz"
  shows "signal_chain vm mem siz = Some (concat (map (change_text (vp_len vm)) (rev es)))"
proof -
  have "length (concat (map (change_text (vp_len vm)) (rev es))) \<le> siz"
    using chain_text_size [OF assms] by simp
  then obtain pad where "value_chain (vp_len vm) mem (unat (vp_chain vm)) (siz, replicate siz 0) =
        Some (siz - length (concat (map (change_text (vp_len vm)) (rev es))), pad)"
      "drop (siz - length (concat (map (change_text (vp_len vm)) (rev es)))) pad =
        concat (map (change_text (vp_len vm)) (rev es)) @ drop siz (replicate siz 0)"
    using putsD [OF puts_value_chain [OF assms(1)], of siz "replicate siz 0"] by auto
  then show ?thesis
    by (simp add: signal_chain_def Let_def value_chain_def)
qed

section \<open>Emitting changes\<close>

text \<open>
  The log of a signal: the times, as indices into the table of times, and the values, newest
  first. In memory stand the distances.
\<close>

type_synonym vc_log = "(u32 \<times> byte list) list"

fun last_time :: "vc_log \<Rightarrow> u32" where
  "last_time [] = 0"
| "last_time ((t, v) # es) = t"

fun deltas :: "vc_log \<Rightarrow> (u32 \<times> byte list) list" where
  "deltas [] = []"
| "deltas ((t, v) # es) = (t - last_time es, v) # deltas es"

definition vc_ready :: "fstWriterContext \<Rightarrow> bool" where
  "vc_ready xc \<longleftrightarrow> valpos_mapped xc \<and> \<not> is_initial_time xc \<and> length (valpos_mem xc) = unat (xc_maxhandle xc) \<and>
     0 < unat (vchg_siz xc) \<and> unat (vchg_siz xc) \<le> length (vchg_mem xc)"

definition holds_log :: "fstWriterContext \<Rightarrow> (nat \<Rightarrow> vc_log) \<Rightarrow> bool" where
  "holds_log xc lg \<longleftrightarrow> (\<forall>i < length (valpos_mem xc).
     chain_in (vp_len (valpos_mem xc ! i)) (vchg_mem xc) (unat (vchg_siz xc)) (unat (vp_chain (valpos_mem xc ! i))) (deltas (lg i)) \<and>
     vp_tidx (valpos_mem xc ! i) = last_time (lg i))"

text \<open>What an emission leaves as it is.\<close>

definition only_values :: "fstWriterContext \<Rightarrow> fstWriterContext \<Rightarrow> bool" where
  "only_values xc xc1 \<longleftrightarrow>
     xc1 = xc\<lparr>vchg_mem := vchg_mem xc1, vchg_siz := vchg_siz xc1, vchg_alloc_siz := vchg_alloc_siz xc1,
              valpos_mem := valpos_mem xc1\<rparr> \<and>
     map vp_len (valpos_mem xc1) = map vp_len (valpos_mem xc) \<and> map vp_offs (valpos_mem xc1) = map vp_offs (valpos_mem xc)"

lemma only_values_refl: "only_values xc xc"
  by (simp add: only_values_def)

lemma mem_store_end:
  "off \<le> length mem \<Longrightarrow> mem_store off bs mem = take off mem @ bs @ drop (off + length bs) mem"
  by (simp add: mem_store_def)

lemma unat_plus_nat:
  assumes "unat (w :: u32) + n < 2 ^ 32"
  shows "unat (w + word_of_nat n) = unat w + n"
proof -
  have "unat (word_of_nat n :: u32) = n"
    using assms by (simp add: unsigned_of_nat take_bit_nat_eq_self)
  then show ?thesis
    using assms by (simp add: unat_plus_if')
qed

lemma map_update_same: "i < length xs \<Longrightarrow> f x = f (xs ! i) \<Longrightarrow> map f (xs[i := x]) = map f xs"
  by (simp add: map_update list_update_same_conv)

lemma grow_vchg_alloc:
  obtains A where "grow_vchg l e xc = xc\<lparr>vchg_alloc_siz := A\<rparr>"
proof
  show "grow_vchg l e xc = xc\<lparr>vchg_alloc_siz := vchg_alloc_siz (grow_vchg l e xc)\<rparr>"
    by (simp add: grow_vchg_def)
qed

lemma vchg_update_fields:
  assumes "xc1 = xc\<lparr>vchg_mem := M, vchg_siz := S, vchg_alloc_siz := A, valpos_mem := V\<rparr>"
  shows "vchg_mem xc1 = M" "vchg_siz xc1 = S" "valpos_mem xc1 = V"
    "xc1 = xc\<lparr>vchg_mem := vchg_mem xc1, vchg_siz := vchg_siz xc1, vchg_alloc_siz := vchg_alloc_siz xc1,
              valpos_mem := valpos_mem xc1\<rparr>"
    "valpos_mapped xc1 = valpos_mapped xc" "is_initial_time xc1 = is_initial_time xc" "xc_maxhandle xc1 = xc_maxhandle xc"
  using assms by simp_all

lemma link_record_eq:
  assumes A: "grow_vchg l e xc = xc\<lparr>vchg_alloc_siz := A\<rparr>"
    and stored: "mem_store (unat (vchg_siz xc)) bs (vchg_mem xc) = M"
  shows "link_record i vm (n, vchg_put bs (grow_vchg l e xc)) =
    xc\<lparr>vchg_mem := M, vchg_siz := vchg_siz xc + n, vchg_alloc_siz := A,
       valpos_mem := (valpos_mem xc)[i := vm\<lparr>vp_chain := vchg_siz xc, vp_tidx := tchn_idx xc\<rparr>]\<rparr>"
  unfolding A vchg_put_def link_record_def set_valpos_def prod.case using stored by simp

lemma link_record_log:
  assumes ready: "vc_ready xc" and holds: "holds_log xc lg" and i: "i < length (valpos_mem xc)"
    and vm: "vm = valpos_mem xc ! i" and fits: "value_fits (vp_len vm) v"
    and bs: "bs = vc_record (vp_len vm) (vp_chain vm) (tchn_idx xc - vp_tidx vm, v)"
    and room: "unat (vchg_siz xc) + length bs < 2 ^ 32"
    and xc1: "xc1 = link_record i vm (word_of_nat (length bs), vchg_put bs (grow_vchg l e xc))"
  shows "vc_ready xc1 \<and> holds_log xc1 (lg(i := (tchn_idx xc, v) # lg i)) \<and> only_values xc xc1 \<and>
    unat (vchg_siz xc1) = unat (vchg_siz xc) + length bs"
proof -
  let ?siz = "unat (vchg_siz xc)"
  obtain A where A: "grow_vchg l e xc = xc\<lparr>vchg_alloc_siz := A\<rparr>"
    by (rule grow_vchg_alloc)
  have stored: "mem_store ?siz bs (vchg_mem xc) = take ?siz (vchg_mem xc) @ bs @ drop (?siz + length bs) (vchg_mem xc)"
    using ready by (intro mem_store_end) (simp add: vc_ready_def)
  note f = vchg_update_fields [OF xc1 [unfolded link_record_eq [OF A stored]]]
  have siz: "0 < ?siz" "?siz \<le> length (vchg_mem xc)"
    using ready by (simp_all add: vc_ready_def)
  have siz1: "unat (vchg_siz xc1) = ?siz + length bs"
    unfolding f(2) by (rule unat_plus_nat [OF room])
  have ready1: "vc_ready xc1"
    using ready siz siz1 by (simp add: vc_ready_def f(1,3,5-7))
  have same: "take ?siz (vchg_mem xc) = take ?siz (vchg_mem xc1)"
    using siz by (simp add: f(1))
  have len1: "?siz \<le> length (vchg_mem xc1)"
    using siz by (simp add: f(1))
  have old: "chain_in (vp_len (valpos_mem xc ! j)) (vchg_mem xc1) ?siz (unat (vp_chain (valpos_mem xc ! j))) (deltas (lg j))"
    and tidx: "vp_tidx (valpos_mem xc ! j) = last_time (lg j)" if "j < length (valpos_mem xc)" for j
    using holds that chain_in_cong [OF same siz(2) len1] by (simp_all add: holds_log_def)
  have "holds_log xc1 (lg(i := (tchn_idx xc, v) # lg i))"
    unfolding holds_log_def
  proof (intro allI impI)
    fix j
    assume j: "j < length (valpos_mem xc1)"
    show "chain_in (vp_len (valpos_mem xc1 ! j)) (vchg_mem xc1) (unat (vchg_siz xc1)) (unat (vp_chain (valpos_mem xc1 ! j)))
        (deltas ((lg(i := (tchn_idx xc, v) # lg i)) j)) \<and>
      vp_tidx (valpos_mem xc1 ! j) = last_time ((lg(i := (tchn_idx xc, v) # lg i)) j)"
    proof (cases "j = i")
      case True
      have "slice (vchg_mem xc1) ?siz (length bs) = Some bs"
        unfolding f(1) by (rule slice_append) (use siz in simp)
      then show ?thesis
        using True i old [OF i] tidx [OF i] siz fits siz1 by (auto simp: f(3) vm bs)
    next
      case False
      then show ?thesis
        using j old [of j] tidx [of j] chain_in_mono [OF old [of j]] siz1 by (auto simp: f(3))
    qed
  qed
  moreover have "only_values xc xc1"
    unfolding only_values_def by (intro conjI f(4)) (use i in \<open>simp_all only: f(3), simp_all add: map_update_same vm\<close>)
  ultimately show ?thesis
    using ready1 siz1 by blast
qed

lemma valpos_of_handle:
  assumes "valpos_mapped xc" "length (valpos_mem xc) = unat (xc_maxhandle xc)" "h \<noteq> 0" "h \<le> xc_maxhandle xc"
  shows "valpos_of h xc = Some (unat h - 1, valpos_mem xc ! (unat h - 1))" "unat h - 1 < length (valpos_mem xc)"
proof -
  have "unat (h - 1) = unat h - 1" "unat h \<noteq> 0" "unat h \<le> unat (xc_maxhandle xc)"
    using assms(3,4) by (unat_arith, simp_all add: unat_eq_0 word_le_nat_alt)
  then show "valpos_of h xc = Some (unat h - 1, valpos_mem xc ! (unat h - 1))" "unat h - 1 < length (valpos_mem xc)"
    using assms(1,2) by (auto simp: valpos_of_def Let_def)
qed

lemma vc_record_length:
  "length (vc_record len next_offs (d, v)) \<le> length v + 14"
  using varint_length_32 [of d] varint_length_32 [of "word_of_nat (length v)"] by (simp add: vc_record_def)

text \<open>The signal of a handle and the value that is logged for it.\<close>

abbreviation sig_len :: "fstWriterContext \<Rightarrow> u32 \<Rightarrow> u32" where
  "sig_len xc h \<equiv> vp_len (valpos_mem xc ! (unat h - 1))"

definition logged :: "fstWriterContext \<Rightarrow> (nat \<Rightarrow> vc_log) \<Rightarrow> u32 \<Rightarrow> byte list \<Rightarrow> nat \<Rightarrow> vc_log" where
  "logged xc lg h v = lg(unat h - 1 := (tchn_idx xc, v) # lg (unat h - 1))"

lemma emit_value_log:
  assumes ready: "vc_ready xc" and holds: "holds_log xc lg" and h: "h \<noteq> 0" "h \<le> xc_maxhandle xc"
    and len: "sig_len xc h \<noteq> 0" "length v = unat (sig_len xc h)"
    and room: "unat (vchg_siz xc) + length v + 14 < 2 ^ 32"
  shows "\<exists>xc1. fstWriterEmitValueChange h v xc = Some xc1 \<and> vc_ready xc1 \<and> holds_log xc1 (logged xc lg h v) \<and>
    only_values xc xc1 \<and> unat (vchg_siz xc1) \<le> unat (vchg_siz xc) + length v + 14"
proof -
  let ?i = "unat h - 1" and ?vm = "valpos_mem xc ! (unat h - 1)"
  let ?bs = "vc_record (vp_len ?vm) (vp_chain ?vm) (tchn_idx xc - vp_tidx ?vm, v)"
  let ?xc1 = "link_record ?i ?vm (word_of_nat (length ?bs), vchg_put ?bs (grow_vchg (vp_len ?vm) 0 xc))"
  have r: "valpos_mapped xc" "length (valpos_mem xc) = unat (xc_maxhandle xc)" "\<not> is_initial_time xc"
    using ready by (simp_all add: vc_ready_def)
  note i = valpos_of_handle [OF r(1,2) h]
  have fits: "value_fits (vp_len ?vm) v"
    using len by (simp add: value_fits_def)
  have size: "length ?bs \<le> length v + 14"
    by (rule vc_record_length)
  have "fstWriterEmitValueChange h v xc = Some ?xc1"
    using h len r i by (simp add: fstWriterEmitValueChange_def first_emission_def not_less unat_eq_0
        fstWriterUint32WithVarint32_def vc_record_def Let_def)
  moreover have "vc_ready ?xc1 \<and> holds_log ?xc1 (lg(?i := (tchn_idx xc, v) # lg ?i)) \<and> only_values xc ?xc1 \<and>
      unat (vchg_siz ?xc1) = unat (vchg_siz xc) + length ?bs"
    using room size by (intro link_record_log [OF ready holds i(2) refl fits refl _ refl]) simp
  ultimately show ?thesis
    using size unfolding logged_def by (intro exI [of _ ?xc1]) simp
qed

lemma emit_varlen_log:
  assumes ready: "vc_ready xc" and holds: "holds_log xc lg" and h: "h \<noteq> 0" "h \<le> xc_maxhandle xc"
    and len: "sig_len xc h = 0" and room: "unat (vchg_siz xc) + length v + 14 < 2 ^ 32"
  shows "\<exists>xc1. fstWriterEmitVariableLengthValueChange h v (word_of_nat (length v)) xc = Some xc1 \<and> vc_ready xc1 \<and>
    holds_log xc1 (logged xc lg h v) \<and> only_values xc xc1 \<and> unat (vchg_siz xc1) \<le> unat (vchg_siz xc) + length v + 14"
proof -
  let ?i = "unat h - 1" and ?vm = "valpos_mem xc ! (unat h - 1)"
  let ?bs = "vc_record (vp_len ?vm) (vp_chain ?vm) (tchn_idx xc - vp_tidx ?vm, v)"
  let ?xc1 = "link_record ?i ?vm (word_of_nat (length ?bs), vchg_put ?bs (grow_vchg (word_of_nat (length v)) 5 xc))"
  have r: "valpos_mapped xc" "length (valpos_mem xc) = unat (xc_maxhandle xc)" "\<not> is_initial_time xc"
    using ready by (simp_all add: vc_ready_def)
  note i = valpos_of_handle [OF r(1,2) h]
  have n: "unat (word_of_nat (length v) :: u32) = length v"
    using room by (simp add: unsigned_of_nat take_bit_nat_eq_self)
  have fits: "value_fits (vp_len ?vm) v"
    using len room by (simp add: value_fits_def)
  have size: "length ?bs \<le> length v + 14"
    by (rule vc_record_length)
  have "fstWriterEmitVariableLengthValueChange h v (word_of_nat (length v)) xc = Some ?xc1"
    using h len r i n by (simp add: fstWriterEmitVariableLengthValueChange_def first_emission_def not_less
        fstWriterUint32WithVarint32AndLength_def vc_record_def Let_def)
  moreover have "vc_ready ?xc1 \<and> holds_log ?xc1 (lg(?i := (tchn_idx xc, v) # lg ?i)) \<and> only_values xc ?xc1 \<and>
      unat (vchg_siz ?xc1) = unat (vchg_siz xc) + length ?bs"
    using room size by (intro link_record_log [OF ready holds i(2) refl fits refl _ refl]) simp
  ultimately show ?thesis
    using size unfolding logged_def by (intro exI [of _ ?xc1]) simp
qed

end
