(* ===== verification/Fst_Log.thy ===== *)
theory Fst_Log
  imports Fst_Values_Correct Fst_Flush
begin

text \<open>
  Sequences of changes and times: what a client tells the writer between two flushes, the
  log of it, and that the writer's memory holds this log.
\<close>

datatype vc_call =
    Emit u32 "byte list"
  | Emit_varlen u32 "byte list"
  | Time_change u64

fun run_vc :: "packers \<Rightarrow> vc_call \<Rightarrow> fstWriterContext \<Rightarrow> fstWriterContext option" where
  "run_vc pk (Emit h v) xc = fstWriterEmitValueChange h v xc"
| "run_vc pk (Emit_varlen h v) xc = fstWriterEmitVariableLengthValueChange h v (word_of_nat (length v)) xc"
| "run_vc pk (Time_change tim) xc = fstWriterEmitTimeChange pk tim xc"

fun run_vcs :: "packers \<Rightarrow> vc_call list \<Rightarrow> fstWriterContext \<Rightarrow> fstWriterContext option" where
  "run_vcs pk [] xc = Some xc"
| "run_vcs pk (c # cs) xc = Option.bind (run_vc pk c xc) (run_vcs pk cs)"

text \<open>
  The log: the times so far, and for every signal its changes, newest first, with the index
  of their time.
\<close>

type_synonym full_log = "u64 list \<times> (nat \<Rightarrow> vc_log)"

definition log_change :: "u32 \<Rightarrow> byte list \<Rightarrow> full_log \<Rightarrow> full_log" where
  "log_change h v l = (case l of (tims, lg) \<Rightarrow>
     (tims, lg(unat h - 1 := (word_of_nat (length tims - 1), v) # lg (unat h - 1))))"

fun log_call :: "vc_call \<Rightarrow> full_log \<Rightarrow> full_log" where
  "log_call (Emit h v) l = log_change h v l"
| "log_call (Emit_varlen h v) l = log_change h v l"
| "log_call (Time_change tim) (tims, lg) = (tims @ [tim], lg)"

definition log_calls :: "vc_call list \<Rightarrow> full_log \<Rightarrow> full_log" where
  "log_calls cs l = fold log_call cs l"

text \<open>Calls for existing signals of the right kind, with values of their length.\<close>

fun good_vc :: "u32 list \<Rightarrow> vc_call \<Rightarrow> bool" where
  "good_vc lens (Emit h v) \<longleftrightarrow>
     0 < unat h \<and> unat h \<le> length lens \<and> lens ! (unat h - 1) \<noteq> 0 \<and> length v = unat (lens ! (unat h - 1))"
| "good_vc lens (Emit_varlen h v) \<longleftrightarrow> 0 < unat h \<and> unat h \<le> length lens \<and> lens ! (unat h - 1) = 0"
| "good_vc lens (Time_change tim) \<longleftrightarrow> True"

text \<open>A bound of the memory a call takes.\<close>

fun vc_size :: "vc_call \<Rightarrow> nat" where
  "vc_size (Emit h v) = length v + 14"
| "vc_size (Emit_varlen h v) = length v + 14"
| "vc_size (Time_change tim) = 1"

fun time_bytes :: "u64 \<Rightarrow> u64 list \<Rightarrow> byte list" where
  "time_bytes prev [] = []"
| "time_bytes prev (t # ts) = varint_bytes (t - prev) @ time_bytes t ts"

lemma time_bytes_snoc:
  "time_bytes prev (ts @ [t]) = time_bytes prev ts @ varint_bytes (t - last (prev # ts))"
  by (induction ts arbitrary: prev) auto

text \<open>The writer holds a log, and no flush is due.\<close>

definition holds_full :: "fstWriterContext \<Rightarrow> full_log \<Rightarrow> bool" where
  "holds_full xc l \<longleftrightarrow> (case l of (tims, lg) \<Rightarrow>
     vc_ready xc \<and> holds_log xc lg \<and> tims \<noteq> [] \<and> tchn_handle xc = time_bytes 0 tims \<and>
     tchn_cnt xc = word_of_nat (length tims) \<and> tchn_idx xc = word_of_nat (length tims - 1) \<and> curtime xc = last tims \<and>
     \<not> flush_context_pending xc)"

definition sig_lens :: "fstWriterContext \<Rightarrow> u32 list" where
  "sig_lens xc = map vp_len (valpos_mem xc)"

text \<open>What emissions and times leave as it is.\<close>

definition same_file :: "fstWriterContext \<Rightarrow> fstWriterContext \<Rightarrow> bool" where
  "same_file xc xc1 \<longleftrightarrow>
     (\<exists>mem siz alloc vp tchn cnt idx cur.
        xc1 = xc\<lparr>vchg_mem := mem, vchg_siz := siz, vchg_alloc_siz := alloc, valpos_mem := vp, tchn_handle := tchn,
                 tchn_cnt := cnt, tchn_idx := idx, curtime := cur\<rparr> \<and>
        map vp_len vp = map vp_len (valpos_mem xc) \<and> map vp_offs vp = map vp_offs (valpos_mem xc))"

lemma same_fileI:
  assumes "xc1 = xc\<lparr>vchg_mem := mem, vchg_siz := siz, vchg_alloc_siz := alloc, valpos_mem := vp, tchn_handle := tchn,
                 tchn_cnt := cnt, tchn_idx := idx, curtime := cur\<rparr>"
    "map vp_len vp = map vp_len (valpos_mem xc)" "map vp_offs vp = map vp_offs (valpos_mem xc)"
  shows "same_file xc xc1"
  using assms unfolding same_file_def by blast

lemma same_file_D:
  assumes "same_file xc xc1"
  shows "fst_break_size xc1 = fst_break_size xc" "xc_maxhandle xc1 = xc_maxhandle xc" "xc_handle xc1 = xc_handle xc"
    "sig_lens xc1 = sig_lens xc" "map vp_offs (valpos_mem xc1) = map vp_offs (valpos_mem xc)"
    "flush_context_pending xc1 = flush_context_pending xc"
    "is_initial_time xc1 = is_initial_time xc" "section_start xc1 = section_start xc" "maxvalpos xc1 = maxvalpos xc"
    "curval_mem xc1 = curval_mem xc" "already_in_flush xc1 = already_in_flush xc" "fourpack xc1 = fourpack xc"
    "fastpack xc1 = fastpack xc"
  using assms unfolding same_file_def by (auto simp: sig_lens_def)

lemma same_file_trans: "same_file xc xc1 \<Longrightarrow> same_file xc1 xc2 \<Longrightarrow> same_file xc xc2"
  unfolding same_file_def by force

lemma same_file_refl: "same_file xc xc"
  by (rule same_fileI [where mem = "vchg_mem xc" and siz = "vchg_siz xc" and alloc = "vchg_alloc_siz xc" and
        vp = "valpos_mem xc" and tchn = "tchn_handle xc" and cnt = "tchn_cnt xc" and idx = "tchn_idx xc" and cur = "curtime xc"]) simp_all

lemma only_values_same_file:
  assumes "only_values xc xc1"
  shows "same_file xc xc1"
proof -
  obtain m s a v where eq: "xc1 = xc\<lparr>vchg_mem := m, vchg_siz := s, vchg_alloc_siz := a, valpos_mem := v\<rparr>"
    and v: "map vp_len v = map vp_len (valpos_mem xc)" "map vp_offs v = map vp_offs (valpos_mem xc)"
    using assms unfolding only_values_def by (metis fstWriterContext.select_convs(5) fstWriterContext.update_convs(5))
  show ?thesis
    by (rule same_fileI [where mem = m and siz = s and alloc = a and vp = v and tchn = "tchn_handle xc" and
          cnt = "tchn_cnt xc" and idx = "tchn_idx xc" and cur = "curtime xc"]) (simp_all add: eq v)
qed

lemma only_values_D:
  assumes "only_values xc xc1"
  shows "tchn_handle xc1 = tchn_handle xc" "tchn_cnt xc1 = tchn_cnt xc" "tchn_idx xc1 = tchn_idx xc" "curtime xc1 = curtime xc"
    "flush_context_pending xc1 = flush_context_pending xc"
proof -
  obtain m s a v where "xc1 = xc\<lparr>vchg_mem := m, vchg_siz := s, vchg_alloc_siz := a, valpos_mem := v\<rparr>"
    using assms unfolding only_values_def by blast
  then show "tchn_handle xc1 = tchn_handle xc" "tchn_cnt xc1 = tchn_cnt xc" "tchn_idx xc1 = tchn_idx xc" "curtime xc1 = curtime xc"
    "flush_context_pending xc1 = flush_context_pending xc"
    by simp_all
qed

section \<open>Calls and their log\<close>

lemma vc_ready_maxhandle: "vc_ready xc \<Longrightarrow> length (sig_lens xc) = unat (xc_maxhandle xc)"
  by (simp add: vc_ready_def sig_lens_def)

lemma run_change:
  assumes holds: "holds_full xc (tims, lg)" and good: "good_vc (sig_lens xc) c" and c: "c = Emit h v \<or> c = Emit_varlen h v"
    and room: "unat (vchg_siz xc) + length v + 14 < 2 ^ 32"
  shows "\<exists>xc1. run_vc pk c xc = Some xc1 \<and> holds_full xc1 (log_call c (tims, lg)) \<and> same_file xc xc1 \<and>
    unat (vchg_siz xc1) \<le> unat (vchg_siz xc) + length v + 14"
proof -
  have ready: "vc_ready xc" and lg: "holds_log xc lg"
    and idx: "tchn_idx xc = word_of_nat (length tims - 1)"
    using holds by (simp_all add: holds_full_def)
  have h: "h \<noteq> 0" "h \<le> xc_maxhandle xc" and i: "unat h - 1 < length (valpos_mem xc)"
    using good c vc_ready_maxhandle [OF ready] by (auto simp: sig_lens_def word_le_nat_alt)
  have len: "sig_lens xc ! (unat h - 1) = sig_len xc h"
    using i by (simp add: sig_lens_def)
  have log: "log_call c (tims, lg) = (tims, logged xc lg h v)"
    using c idx by (auto simp: log_change_def logged_def)
  have "\<exists>xc1. run_vc pk c xc = Some xc1 \<and> vc_ready xc1 \<and> holds_log xc1 (logged xc lg h v) \<and> only_values xc xc1 \<and>
      unat (vchg_siz xc1) \<le> unat (vchg_siz xc) + length v + 14"
    using c
  proof
    assume "c = Emit h v"
    then show ?thesis
      using emit_value_log [OF ready lg h _ _ room] good len by auto
  next
    assume "c = Emit_varlen h v"
    then show ?thesis
      using emit_varlen_log [OF ready lg h _ room] good len by auto
  qed
  then obtain xc1 where x: "run_vc pk c xc = Some xc1" "vc_ready xc1" "holds_log xc1 (logged xc lg h v)" "only_values xc xc1"
      "unat (vchg_siz xc1) \<le> unat (vchg_siz xc) + length v + 14"
    by blast
  have "holds_full xc1 (tims, logged xc lg h v)"
    using holds x(2,3) only_values_D [OF x(4)] by (simp add: holds_full_def)
  then show ?thesis
    using x only_values_same_file [OF x(4)] unfolding log by blast
qed

lemma unat_ucast_64: "unat (ucast (w :: u32) :: u64) = unat w"
proof -
  have "unat w < 2 ^ 32"
    using unsigned_less [of w, where ?'a = nat] by simp
  then show ?thesis
    by (simp add: unsigned_ucast_eq take_bit_nat_eq_self)
qed

lemma run_time:
  assumes holds: "holds_full xc (tims, lg)" and room: "unat (vchg_siz xc) < unat (fst_break_size xc)"
  shows "\<exists>xc1. run_vc pk (Time_change tim) xc = Some xc1 \<and> holds_full xc1 (tims @ [tim], lg) \<and> same_file xc xc1 \<and>
    unat (vchg_siz xc1) \<le> unat (vchg_siz xc) + vc_size (Time_change tim)"
proof -
  let ?xc1 = "xc\<lparr>tchn_handle := tchn_handle xc @ varint_bytes (tim - curtime xc), tchn_cnt := tchn_cnt xc + 1,
      tchn_idx := tchn_idx xc + 1, curtime := tim\<rparr>"
  have h: "vc_ready xc" "holds_log xc lg" "tims \<noteq> []" "tchn_handle xc = time_bytes 0 tims" "\<not> flush_context_pending xc"
      "tchn_cnt xc = word_of_nat (length tims)" "tchn_idx xc = word_of_nat (length tims - 1)" "curtime xc = last tims"
    using holds by (simp_all add: holds_full_def)
  have siz: "\<not> fst_break_size xc \<le> ucast (vchg_siz xc)"
    using room by (simp add: word_le_nat_alt unat_ucast_64)
  have "\<not> is_initial_time xc"
    using h(1) by (simp add: vc_ready_def)
  then have "run_vc pk (Time_change tim) xc = Some ?xc1"
    using h(5) siz by (simp add: fstWriterEmitTimeChange_def next_time_def time_put_def)
  moreover have "holds_full ?xc1 (tims @ [tim], lg)"
  proof -
    have "word_of_nat (length tims - 1) + 1 = (word_of_nat (length tims) :: u32)"
      using h(3) by (cases tims) simp_all
    then show ?thesis
      using h by (simp add: holds_full_def vc_ready_def holds_log_def time_bytes_snoc)
  qed
  moreover have "same_file xc ?xc1"
    by (rule same_fileI [where mem = "vchg_mem xc" and siz = "vchg_siz xc" and alloc = "vchg_alloc_siz xc" and
          vp = "valpos_mem xc"]) simp_all
  ultimately show ?thesis
    by (intro exI [of _ ?xc1]) simp
qed

lemma run_vcs_log:
  assumes "holds_full xc l" "list_all (good_vc (sig_lens xc)) cs"
    "unat (vchg_siz xc) + sum_list (map vc_size cs) < unat (fst_break_size xc)" "fst_break_size xc \<le> 0x80000000"
  shows "\<exists>xc1. run_vcs pk cs xc = Some xc1 \<and> holds_full xc1 (log_calls cs l) \<and> same_file xc xc1 \<and>
    unat (vchg_siz xc1) < unat (fst_break_size xc)"
  using assms
proof (induction cs arbitrary: xc l)
  case Nil
  then show ?case
    by (auto simp: log_calls_def same_file_refl)
next
  case (Cons c cs)
  obtain tims lg where l: "l = (tims, lg)"
    by (cases l)
  have max: "unat (fst_break_size xc) \<le> 2 ^ 31"
    using Cons.prems(4) by (simp add: word_le_nat_alt)
  have good: "good_vc (sig_lens xc) c" and room: "unat (vchg_siz xc) + vc_size c < 2 ^ 32"
    and room1: "unat (vchg_siz xc) < unat (fst_break_size xc)"
    using Cons.prems max by simp_all
  have change: "\<exists>xc1. run_vc pk c xc = Some xc1 \<and> holds_full xc1 (log_call c l) \<and> same_file xc xc1 \<and>
      unat (vchg_siz xc1) \<le> unat (vchg_siz xc) + vc_size c" if c: "c = Emit h v \<or> c = Emit_varlen h v" for h v
  proof -
    have "vc_size c = length v + 14"
      using c by auto
    then show ?thesis
      using run_change [OF Cons.prems(1) [unfolded l] good c] room unfolding l by (simp only: add.assoc)
  qed
  have "\<exists>xc1. run_vc pk c xc = Some xc1 \<and> holds_full xc1 (log_call c l) \<and> same_file xc xc1 \<and>
      unat (vchg_siz xc1) \<le> unat (vchg_siz xc) + vc_size c"
  proof (cases c)
    case (Emit h v)
    then show ?thesis
      by (intro change) simp
  next
    case (Emit_varlen h v)
    then show ?thesis
      by (intro change) simp
  next
    case (Time_change tim)
    then show ?thesis
      unfolding l Time_change log_call.simps by (intro run_time Cons.prems(1) [unfolded l] room1)
  qed
  then obtain xc1 where x: "run_vc pk c xc = Some xc1" "holds_full xc1 (log_call c l)" "same_file xc xc1"
      "unat (vchg_siz xc1) \<le> unat (vchg_siz xc) + vc_size c"
    by blast
  note D = same_file_D [OF x(3)]
  obtain xc2 where "run_vcs pk cs xc1 = Some xc2" "holds_full xc2 (log_calls cs (log_call c l))" "same_file xc1 xc2"
      "unat (vchg_siz xc2) < unat (fst_break_size xc)"
    using Cons.IH [OF x(2)] Cons.prems x(4) D by auto
  then show ?case
    using x(1) same_file_trans [OF x(3)] by (auto simp: log_calls_def)
qed

section \<open>The first time\<close>

text \<open>A context before the first time, with variables.\<close>

definition vc_fresh :: "fstWriterContext \<Rightarrow> bool" where
  "vc_fresh xc \<longleftrightarrow> is_initial_time xc \<and> \<not> size_limit_locked xc \<and> \<not> flush_context_pending xc \<and>
     xc_maxhandle xc \<noteq> 0 \<and> length (valpos_mem xc) = unat (xc_maxhandle xc) \<and>
     tchn_handle xc = [] \<and> tchn_cnt xc = 0 \<and> tchn_idx xc = 0"

lemma fseeko_simps [simp]:
  "hier_handle (fstWriterFseeko n xc) = hier_handle xc" "valpos_mem (fstWriterFseeko n xc) = valpos_mem xc"
  "valpos_mapped (fstWriterFseeko n xc) = valpos_mapped xc" "xc_maxhandle (fstWriterFseeko n xc) = xc_maxhandle xc"
  "tchn_handle (fstWriterFseeko n xc) = tchn_handle xc" "tchn_cnt (fstWriterFseeko n xc) = tchn_cnt xc"
  "tchn_idx (fstWriterFseeko n xc) = tchn_idx xc" "flush_context_pending (fstWriterFseeko n xc) = flush_context_pending xc"
  "curtime (fstWriterFseeko n xc) = curtime xc" "fst_break_size (fstWriterFseeko n xc) = fst_break_size xc"
  "vchg_mem (fstWriterFseeko n xc) = vchg_mem xc" "vchg_siz (fstWriterFseeko n xc) = vchg_siz xc"
  "is_initial_time (fstWriterFseeko n xc) = is_initial_time xc" "maxvalpos (fstWriterFseeko n xc) = maxvalpos xc"
  "curval_mem (fstWriterFseeko n xc) = curval_mem xc" "firsttime (fstWriterFseeko n xc) = firsttime xc"
  by (simp_all add: fstWriterFseeko_def)

lemma put_simps [simp]:
  "valpos_mapped (put bs xc) = valpos_mapped xc" "tchn_handle (put bs xc) = tchn_handle xc"
  "tchn_cnt (put bs xc) = tchn_cnt xc" "tchn_idx (put bs xc) = tchn_idx xc"
  "flush_context_pending (put bs xc) = flush_context_pending xc" "curtime (put bs xc) = curtime xc"
  "fst_break_size (put bs xc) = fst_break_size xc" "vchg_mem (put bs xc) = vchg_mem xc" "vchg_siz (put bs xc) = vchg_siz xc"
  "is_initial_time (put bs xc) = is_initial_time xc" "firsttime (put bs xc) = firsttime xc"
  by (simp_all add: put_def)

lemma create_mmaps_simps [simp]:
  "valpos_mem (fstWriterCreateMmaps xc) = valpos_mem xc" "xc_maxhandle (fstWriterCreateMmaps xc) = xc_maxhandle xc"
  "tchn_handle (fstWriterCreateMmaps xc) = tchn_handle xc" "tchn_cnt (fstWriterCreateMmaps xc) = tchn_cnt xc"
  "tchn_idx (fstWriterCreateMmaps xc) = tchn_idx xc" "flush_context_pending (fstWriterCreateMmaps xc) = flush_context_pending xc"
  "fst_break_size (fstWriterCreateMmaps xc) = fst_break_size xc" "vchg_mem (fstWriterCreateMmaps xc) = vchg_mem xc"
  "valpos_mapped (fstWriterCreateMmaps xc) \<longleftrightarrow> valpos_mapped xc \<or> xc_maxhandle xc \<noteq> 0"
  by (simp_all add: fstWriterCreateMmaps_def put64_def Let_def)

lemma section_header_simps [simp]:
  "valpos_mem (fstWriterEmitSectionHeader pk xc) = valpos_mem xc" "xc_maxhandle (fstWriterEmitSectionHeader pk xc) = xc_maxhandle xc"
  "tchn_handle (fstWriterEmitSectionHeader pk xc) = tchn_handle xc" "tchn_cnt (fstWriterEmitSectionHeader pk xc) = tchn_cnt xc"
  "tchn_idx (fstWriterEmitSectionHeader pk xc) = tchn_idx xc"
  "flush_context_pending (fstWriterEmitSectionHeader pk xc) = flush_context_pending xc"
  "fst_break_size (fstWriterEmitSectionHeader pk xc) = fst_break_size xc" "vchg_mem (fstWriterEmitSectionHeader pk xc) = vchg_mem xc"
  "vchg_siz (fstWriterEmitSectionHeader pk xc) = vchg_siz xc" "curtime (fstWriterEmitSectionHeader pk xc) = curtime xc"
  "valpos_mapped (fstWriterEmitSectionHeader pk xc) = valpos_mapped xc"
  by (simp_all add: fstWriterEmitSectionHeader_def put64_def put_varint_def Let_def)

lemma first_time_fields:
  assumes "vc_fresh xc"
  shows "\<exists>xc1. run_vc pk (Time_change tim) xc = Some xc1 \<and> holds_full xc1 ([tim], \<lambda>_. []) \<and>
    sig_lens xc1 = sig_lens xc \<and> vchg_siz xc1 = 1 \<and> fst_break_size xc1 = fst_break_size xc \<and> xc_maxhandle xc1 = xc_maxhandle xc"
proof -
  let ?xc0 = "first_time pk tim xc"
  let ?xc1 = "(time_put (tim - curtime ?xc0) ?xc0)\<lparr>curtime := tim\<rparr>"
  have f: "valpos_mem ?xc0 = map (\<lambda>vm. vm\<lparr>vp_chain := 0, vp_tidx := 0\<rparr>) (valpos_mem xc)" "valpos_mapped ?xc0"
    "vchg_mem ?xc0 = mem_store 0 [0x21] (vchg_mem xc)" "vchg_siz ?xc0 = 1" "curtime ?xc0 = 0" "\<not> is_initial_time ?xc0"
    "tchn_handle ?xc0 = []" "tchn_cnt ?xc0 = 0" "tchn_idx ?xc0 = 0" "\<not> flush_context_pending ?xc0"
    "xc_maxhandle ?xc0 = xc_maxhandle xc" "fst_break_size ?xc0 = fst_break_size xc"
    using assms by (simp_all add: first_time_def Let_def vc_fresh_def)
  have "run_vc pk (Time_change tim) xc = Some ?xc1"
    using assms by (simp add: fstWriterEmitTimeChange_def vc_fresh_def Let_def)
  moreover have "holds_full ?xc1 ([tim], \<lambda>_. [])"
    using assms f by (simp add: holds_full_def vc_ready_def holds_log_def time_put_def vc_fresh_def mem_store_def Let_def)
  moreover have "sig_lens ?xc1 = sig_lens xc"
    using f(1) by (simp add: sig_lens_def time_put_def comp_def)
  ultimately show ?thesis
    using f by (intro exI [of _ ?xc1]) (simp add: time_put_def)
qed

lemma holds_full_chain:
  assumes "holds_full xc (tims, lg)" "i < length (sig_lens xc)"
  shows "signal_chain (valpos_mem xc ! i) (vchg_mem xc) (unat (vchg_siz xc)) =
    Some (concat (map (change_text (sig_lens xc ! i)) (rev (deltas (lg i)))))"
proof -
  have "0 < unat (vchg_siz xc)"
    "chain_in (vp_len (valpos_mem xc ! i)) (vchg_mem xc) (unat (vchg_siz xc)) (unat (vp_chain (valpos_mem xc ! i))) (deltas (lg i))"
    using assms by (simp_all add: holds_full_def vc_ready_def holds_log_def sig_lens_def)
  then show ?thesis
    using signal_chain_text assms(2) by (simp add: sig_lens_def)
qed

text \<open>
  C4: The memory of linked records implements the log of the changes: after a first time and
  any calls for existing signals that fit the memory, no call has failed, and the walk along
  the links that a flush makes for a signal ends with the text of exactly the changes that
  were emitted for it, oldest first, each with its distance in the table of times to the one
  before. The table of times holds the times of the calls.
\<close>

theorem chains_refine_log:
  assumes "vc_fresh xc" "list_all (good_vc (sig_lens xc)) cs" "1 + sum_list (map vc_size cs) < unat (fst_break_size xc)"
    and "fst_break_size xc \<le> 0x80000000" and "log_calls cs ([tim], \<lambda>_. []) = (tims, lg)"
  shows "\<exists>xc1. run_vcs pk (Time_change tim # cs) xc = Some xc1 \<and> tchn_handle xc1 = time_bytes 0 tims \<and>
    (\<forall>i < length (sig_lens xc). signal_chain (valpos_mem xc1 ! i) (vchg_mem xc1) (unat (vchg_siz xc1)) =
       Some (concat (map (change_text (sig_lens xc ! i)) (rev (deltas (lg i))))))"
proof -
  obtain xc0 where 0: "run_vc pk (Time_change tim) xc = Some xc0" "holds_full xc0 ([tim], \<lambda>_. [])"
      "sig_lens xc0 = sig_lens xc" "vchg_siz xc0 = 1" "fst_break_size xc0 = fst_break_size xc"
    using first_time_fields [OF assms(1)] by blast
  obtain xc1 where 1: "run_vcs pk cs xc0 = Some xc1" "holds_full xc1 (tims, lg)" "same_file xc0 xc1"
    using run_vcs_log [OF 0(2), of cs pk] assms(2-5) 0(3-5) by auto
  have "tchn_handle xc1 = time_bytes 0 tims"
    using 1(2) by (simp add: holds_full_def)
  moreover have "run_vcs pk (Time_change tim # cs) xc = Some xc1"
    using 0(1) 1(1) by simp
  ultimately show ?thesis
    using holds_full_chain [OF 1(2)] same_file_D(4) [OF 1(3)] 0(3) by (metis (no_types))
qed

text \<open>A file with a signal of one bit and a text, three changes and two times.\<close>

definition demo_packers :: packers where
  "demo_packers = \<lparr>pk_compress2 = (\<lambda>level room src. None), pk_LZ4_compress = id\<rparr>"

definition demo_writer :: fstWriterContext where
  "demo_writer =
     snd (fstWriterCreateVar 21 0 0 (Some (lit ''s'')) 0
       (snd (fstWriterCreateVar 16 0 1 (Some (lit ''b'')) 0 (fstWriterCreate None [] 1))))"

lemma demo_writer_fields: "vc_fresh demo_writer" "sig_lens demo_writer = [1, 0]" "fst_break_size demo_writer = 134217728"
  by code_simp+

theorem chains_refine_log_witness:
  "\<exists>xc1. run_vcs demo_packers [Time_change 3, Emit 1 [0x31], Emit_varlen 2 [0x61, 0x62], Time_change 5, Emit 1 [0x30]] demo_writer
      = Some xc1 \<and> tchn_handle xc1 = [3, 2] \<and>
    signal_chain (valpos_mem xc1 ! 0) (vchg_mem xc1) (unat (vchg_siz xc1)) =
      Some (varint_bytes (rcv_code 0x31 0) @ varint_bytes (rcv_code 0x30 1))"
proof -
  let ?cs = "[Emit 1 [0x31], Emit_varlen 2 [0x61, 0x62], Time_change 5, Emit 1 [0x30]]"
  let ?lg = "(\<lambda>_. [])(0 := [(1, [0x30]), (0, [0x31])], 1 := [(0, [0x61, 0x62])])"
  have "list_all (good_vc (sig_lens demo_writer)) ?cs"
    "1 + sum_list (map vc_size ?cs) < unat (fst_break_size demo_writer)" "fst_break_size demo_writer \<le> 0x80000000"
    by (simp_all add: demo_writer_fields)
  moreover have "log_calls ?cs ([3], \<lambda>_. []) = ([3, 5], ?lg)"
    by (simp add: log_calls_def log_change_def fun_eq_iff)
  ultimately obtain xc1 where x: "run_vcs demo_packers (Time_change 3 # ?cs) demo_writer = Some xc1"
      "tchn_handle xc1 = time_bytes 0 [3, 5]"
      "\<forall>i < length (sig_lens demo_writer). signal_chain (valpos_mem xc1 ! i) (vchg_mem xc1) (unat (vchg_siz xc1)) =
         Some (concat (map (change_text (sig_lens demo_writer ! i)) (rev (deltas (?lg i)))))"
    using chains_refine_log [OF demo_writer_fields(1), of ?cs 3 "[3, 5]" ?lg demo_packers] by blast
  moreover have "time_bytes 0 [3, 5] = [3, 2]"
    by (simp add: varint_bytes.simps)
  moreover have "signal_chain (valpos_mem xc1 ! 0) (vchg_mem xc1) (unat (vchg_siz xc1)) =
      Some (varint_bytes (rcv_code 0x31 0) @ varint_bytes (rcv_code 0x30 1))"
    using x(3) [rule_format, of 0] by (simp add: demo_writer_fields(2) change_text_def)
  ultimately show ?thesis
    by (metis (no_types))
qed

end
