(* ===== verification/Fst_Traverse.thy ===== *)
theory Fst_Traverse
  imports Fst_Blocks Fst_Log
begin

text \<open>
  The traversal of the chains of a section puts the changes of all signals in the order of
  time: what the callbacks get are the changes of every signal in their order, grouped by the
  entries of the table of times.
\<close>

section \<open>The changes of a chain\<close>

text \<open>Changes to come: the index of the time, and the events, which get the time later.\<close>

type_synonym timed = "(nat \<times> (u64 \<Rightarrow> vc_event list)) list"

text \<open>
  From \<open>pos\<close> to \<open>lim\<close> the memory holds the chain of the changes \<open>cs\<close> of the signal \<open>x\<close>;
  the distances are counted from the index \<open>t\<close>.
\<close>

fun chain_at :: "unpackers \<Rightarrow> block_reader \<Rightarrow> nat \<Rightarrow> byte list \<Rightarrow> nat \<Rightarrow> nat \<Rightarrow> nat \<Rightarrow> timed \<Rightarrow> bool" where
  "chain_at up xc x mem lim pos t [] \<longleftrightarrow> pos = lim"
| "chain_at up xc x mem lim pos t ((t1, ev) # cs) \<longleftrightarrow>
     (\<exists>n. t \<le> t1 \<and> next_delta (rd_signal_lens xc ! x) (drop pos mem) = Some (t1 - t) \<and>
        read_change up xc x (drop pos mem) = Some (ev, n) \<and> pos + n \<le> lim \<and>
        chain_at up xc x mem lim (pos + n) t1 cs)"

lemma chain_at_sorted:
  "chain_at up xc x mem lim pos t cs \<Longrightarrow> sorted (t # map fst cs)"
proof (induction cs arbitrary: pos t)
  case (Cons c cs)
  obtain t1 ev where "c = (t1, ev)"
    by (cases c)
  then show ?case
    using Cons by (auto simp only: list.map fst_conv sorted2 chain_at.simps)
qed simp

lemma chain_at_pos:
  assumes "chain_at up xc x mem lim pos t cs"
  shows "pos \<le> lim" "cs \<noteq> [] \<Longrightarrow> pos < lim"
proof -
  have "pos < lim" if c: "cs = (t1, ev) # cs1" for t1 ev cs1
  proof -
    obtain n where "read_change up xc x (drop pos mem) = Some (ev, n)" "pos + n \<le> lim"
      using assms c by auto
    then show ?thesis
      using read_change_pos by fastforce
  qed
  then show "cs \<noteq> [] \<Longrightarrow> pos < lim"
    by (cases cs) auto
  then show "pos \<le> lim"
    using assms by (cases cs) auto
qed

section \<open>The lists of the times\<close>

fun linked :: "nat list \<Rightarrow> nat \<Rightarrow> nat list \<Rightarrow> bool" where
  "linked sc h [] \<longleftrightarrow> h = 0"
| "linked sc h (x # xs) \<longleftrightarrow> h = x + 1 \<and> x < length sc \<and> linked sc (sc ! x) xs"

lemma linked_update: "linked sc h xs \<Longrightarrow> x \<notin> set xs \<Longrightarrow> linked (sc[x := v]) h xs"
  by (induction xs arbitrary: h) auto

definition next_at :: "nat \<Rightarrow> timed \<Rightarrow> bool" where
  "next_at t cs \<longleftrightarrow> cs \<noteq> [] \<and> fst (hd cs) = t"

text \<open>
  The invariant: \<open>p\<close> are the changes to come, none of them before the time \<open>i\<close>, and \<open>q\<close>
  the lists, in which every signal is at the time of its next change.
\<close>

definition chains_ok :: "unpackers \<Rightarrow> block_reader \<Rightarrow> traversal \<Rightarrow> (nat \<Rightarrow> timed) \<Rightarrow> bool" where
  "chains_ok up xc tr p \<longleftrightarrow>
     (\<forall>x. p x \<noteq> [] \<longrightarrow> x < length (tr_headptr tr) \<and>
        (\<exists>lim t. tr_remaining tr ! x = word_of_nat (lim - tr_headptr tr ! x) \<and> lim - tr_headptr tr ! x < 2 ^ 32 \<and>
           chain_at up xc x (tr_mem tr) lim (tr_headptr tr ! x) t (p x)))"

definition lists_ok :: "traversal \<Rightarrow> (nat \<Rightarrow> timed) \<Rightarrow> (nat \<Rightarrow> nat list) \<Rightarrow> bool" where
  "lists_ok tr p q \<longleftrightarrow>
     (\<forall>t < length (tr_tc_head tr). linked (tr_scatter tr) (tr_tc_head tr ! t) (q t) \<and> distinct (q t) \<and>
        set (q t) = {x. x < length (tr_headptr tr) \<and> next_at t (p x)})"

definition sizes_ok :: "traversal \<Rightarrow> bool" where
  "sizes_ok tr \<longleftrightarrow> length (tr_remaining tr) = length (tr_headptr tr) \<and> length (tr_scatter tr) = length (tr_headptr tr) \<and>
     length (tr_tc_head tr) \<le> 2 ^ 32"

definition times_ok :: "nat \<Rightarrow> traversal \<Rightarrow> (nat \<Rightarrow> timed) \<Rightarrow> bool" where
  "times_ok i tr p \<longleftrightarrow>
     (\<forall>x. \<forall>c \<in> set (p x). i \<le> fst c \<and> fst c < length (tr_tc_head tr))"

definition traverses ::
    "unpackers \<Rightarrow> block_reader \<Rightarrow> nat \<Rightarrow> traversal \<Rightarrow> (nat \<Rightarrow> timed) \<Rightarrow> (nat \<Rightarrow> nat list) \<Rightarrow> bool" where
  "traverses up xc i tr p q \<longleftrightarrow> sizes_ok tr \<and> chains_ok up xc tr p \<and> lists_ok tr p q \<and> times_ok i tr p"

lemma traverses_times:
  assumes "traverses up xc i tr p q" "c \<in> set (p x)"
  shows "i \<le> fst c" "fst c < length (tr_tc_head tr)"
  using assms by (auto simp: traverses_def times_ok_def)

text \<open>A signal that is in no list is put into that of the time of its next change.\<close>

lemma enqueue_lists:
  assumes sizes: "sizes_ok tr" and lists: "lists_ok tr (p(x := [])) q"
    and x: "x < length (tr_headptr tr)" and t: "t < length (tr_tc_head tr)" and p: "next_at t (p x)"
  obtains tr1 where "enqueue x t tr = Some tr1" "lists_ok tr1 p (q(t := x # q t))" "sizes_ok tr1"
    "tr_mem tr1 = tr_mem tr" "tr_headptr tr1 = tr_headptr tr" "tr_remaining tr1 = tr_remaining tr"
    "tr_events tr1 = tr_events tr" "length (tr_tc_head tr1) = length (tr_tc_head tr)"
proof
  let ?tr1 = "tr\<lparr>tr_scatter := (tr_scatter tr)[x := tr_tc_head tr ! t], tr_tc_head := (tr_tc_head tr)[t := x + 1]\<rparr>"
  show "enqueue x t tr = Some ?tr1"
    using t by (simp add: enqueue_def)
  show "sizes_ok ?tr1"
    using sizes by (simp add: sizes_ok_def)
  have notin: "x \<notin> set (q u)" if "u < length (tr_tc_head tr)" for u
    using lists that by (auto simp: lists_ok_def next_at_def)
  have old: "linked (tr_scatter tr) (tr_tc_head tr ! u) (q u)" "distinct (q u)"
    "set (q u) = {y. y < length (tr_headptr tr) \<and> next_at u ((p(x := [])) y)}" if "u < length (tr_tc_head tr)" for u
    using lists that by (auto simp: lists_ok_def)
  show "lists_ok ?tr1 p (q(t := x # q t))"
    unfolding lists_ok_def
  proof (intro allI impI conjI)
    fix u
    assume "u < length (tr_tc_head ?tr1)"
    then have u: "u < length (tr_tc_head tr)"
      by simp
    have sc: "linked ((tr_scatter tr)[x := tr_tc_head tr ! t]) (tr_tc_head tr ! u) (q u)"
      by (rule linked_update [OF old(1) [OF u] notin [OF u]])
    show "linked (tr_scatter ?tr1) (tr_tc_head ?tr1 ! u) ((q(t := x # q t)) u)"
      using sc x u t sizes by (cases "u = t") (simp_all add: sizes_ok_def)
    show "distinct ((q(t := x # q t)) u)"
      using old(2) [OF u] notin [OF u] by (cases "u = t") simp_all
    show "set ((q(t := x # q t)) u) = {y. y < length (tr_headptr ?tr1) \<and> next_at u (p y)}"
      using old(3) [OF u] x p by (cases "u = t") (auto simp: next_at_def split: if_splits)
  qed
qed simp_all

lemma word_of_nat_diff_32:
  assumes "b \<le> a"
  shows "(word_of_nat (a - b) :: u32) = word_of_nat a - word_of_nat b"
  using assms by (simp add: of_nat_diff)

lemma word_of_nat_32_eq_0: "n < 2 ^ 32 \<Longrightarrow> (word_of_nat n :: u32) = 0 \<longleftrightarrow> n = 0"
  by (auto simp: word_of_nat_eq_0_iff dest: dvd_imp_le)

text \<open>One pass of the loop.\<close>

lemma visit_signal_step:
  assumes tr: "traverses up xc i tr p q" and i: "i < length (tr_tc_head tr)" and qi: "q i = x # xs"
  obtains ev cs tr1 q1 where "p x = (i, ev) # cs" "visit_signal up xc tim i tr = Some tr1"
    "traverses up xc i tr1 (p(x := cs)) q1" "tr_events tr1 = tr_events tr @ ev tim" "x < length (tr_headptr tr)"
    "length (tr_tc_head tr1) = length (tr_tc_head tr)" "length (tr_headptr tr1) = length (tr_headptr tr)"
proof -
  let ?n = "length (tr_headptr tr)" and ?head = "tr_headptr tr ! x"
  note d = tr [unfolded traverses_def]
  have li: "linked (tr_scatter tr) (tr_tc_head tr ! i) (x # xs)" "distinct (x # xs)"
    "set (x # xs) = {y. y < ?n \<and> next_at i (p y)}"
    using d i qi unfolding lists_ok_def by metis+
  have x: "x < ?n" "next_at i (p x)"
    using li(3) by auto
  then obtain ev cs where px: "p x = (i, ev) # cs"
    by (cases "p x") (auto simp: next_at_def)
  obtain lim t0 where c: "tr_remaining tr ! x = word_of_nat (lim - ?head)" "lim - ?head < 2 ^ 32"
      "chain_at up xc x (tr_mem tr) lim ?head t0 (p x)"
    using d x px unfolding chains_ok_def by (metis list.distinct(1))
  then obtain n where r: "read_change up xc x (drop ?head (tr_mem tr)) = Some (ev, n)" "?head + n \<le> lim"
      "chain_at up xc x (tr_mem tr) lim (?head + n) i cs"
    unfolding px by auto
  have head: "tr_tc_head tr ! i = x + 1"
    using li(1) by simp
  define tr0 where "tr0 = advance i x ?head n (ev tim) tr"
  have f: "tr_mem tr0 = tr_mem tr" "tr_headptr tr0 = (tr_headptr tr)[x := ?head + n]"
    "tr_remaining tr0 = (tr_remaining tr)[x := word_of_nat (lim - (?head + n))]"
    "tr_scatter tr0 = (tr_scatter tr)[x := 0]" "tr_tc_head tr0 = (tr_tc_head tr)[i := tr_scatter tr ! x]"
    "tr_events tr0 = tr_events tr @ ev tim"
    using c(1) word_of_nat_diff_32 [of n "lim - ?head"] r(2) by (simp_all add: tr0_def advance_def Let_def diff_diff_eq)
  have sizes: "sizes_ok tr0"
    using d by (simp add: sizes_ok_def f)
  have lists: "lists_ok tr0 (p(x := [])) (q(i := xs))"
    unfolding lists_ok_def
  proof (intro allI impI conjI)
    fix u
    assume "u < length (tr_tc_head tr0)"
    then have u: "u < length (tr_tc_head tr)"
      by (simp add: f)
    have old: "linked (tr_scatter tr) (tr_tc_head tr ! u) (q u)" "distinct (q u)" "set (q u) = {y. y < ?n \<and> next_at u (p y)}"
      using d u by (auto simp: lists_ok_def)
    have "x \<notin> set (q u)" if "u \<noteq> i"
      using old(3) that px by (auto simp: next_at_def)
    then show "linked (tr_scatter tr0) (tr_tc_head tr0 ! u) ((q(i := xs)) u)"
      using old(1) li(1,2) i linked_update by (cases "u = i") (auto simp: f)
    show "distinct ((q(i := xs)) u)"
      using old(2) li(2) by simp
    show "set ((q(i := xs)) u) = {y. y < length (tr_headptr tr0) \<and> next_at u ((p(x := [])) y)}"
      using old(3) li(2,3) px by (cases "u = i") (auto simp: f next_at_def)
  qed
  have chains: "chains_ok up xc tr1 (p(x := cs))" if "tr_mem tr1 = tr_mem tr0" "tr_headptr tr1 = tr_headptr tr0"
      "tr_remaining tr1 = tr_remaining tr0" for tr1
    unfolding chains_ok_def
  proof (intro allI impI)
    fix y
    assume y: "(p(x := cs)) y \<noteq> []"
    then have yn: "y < ?n"
      using d x by (auto simp: chains_ok_def split: if_splits)
    show "y < length (tr_headptr tr1) \<and> (\<exists>lim t. tr_remaining tr1 ! y = word_of_nat (lim - tr_headptr tr1 ! y) \<and> lim - tr_headptr tr1 ! y < 2 ^ 32 \<and>
        chain_at up xc y (tr_mem tr1) lim (tr_headptr tr1 ! y) t ((p(x := cs)) y))"
    proof (cases "y = x")
      case True
      then show ?thesis
        using r c(2) d x by (intro conjI exI [of _ lim] exI [of _ i]) (simp_all add: that f sizes_ok_def)
    next
      case False
      then show ?thesis
        using d y yn by (simp add: that f chains_ok_def)
    qed
  qed
  have times: "times_ok i tr1 (p(x := cs))" if "length (tr_tc_head tr1) = length (tr_tc_head tr)"
      "length (tr_headptr tr1) = ?n" for tr1
    unfolding times_ok_def
  proof (intro allI ballI)
    fix y c
    assume "c \<in> set ((p(x := cs)) y)"
    then have "c \<in> set (p y)"
      using px by (auto split: if_splits)
    then show "i \<le> fst c \<and> fst c < length (tr_tc_head tr1)"
      using d that by (auto simp: times_ok_def)
  qed
  have rem: "tr_remaining tr0 ! x = 0 \<longleftrightarrow> cs = []"
  proof -
    have "lim - (?head + n) < 2 ^ 32"
      using c(2) by simp
    then have "tr_remaining tr0 ! x = 0 \<longleftrightarrow> lim - (?head + n) = 0"
      using d x word_of_nat_32_eq_0 by (simp add: f sizes_ok_def)
    also have "\<dots> \<longleftrightarrow> cs = []"
      using chain_at_pos [OF r(3)] r(3) by (cases cs) auto
    finally show ?thesis .
  qed
  have visit: "visit_signal up xc tim i tr =
      (if tr_remaining tr0 ! x \<noteq> 0 then
         Option.bind (next_delta (rd_signal_lens xc ! x) (drop (?head + n) (tr_mem tr0))) (\<lambda>tdelta. enqueue x ((i + tdelta) mod 2 ^ 32) tr0)
       else Some tr0)"
    using x r(1) by (simp add: visit_signal_def head tr0_def Let_def)
  show ?thesis
  proof (cases cs)
    case Nil
    have "lists_ok tr0 (p(x := cs)) (q(i := xs))"
      using lists Nil by simp
    then have "traverses up xc i tr0 (p(x := cs)) (q(i := xs))"
      using sizes chains [of tr0] times [of tr0] by (simp add: traverses_def f)
    then show ?thesis
      using that [OF px] visit rem Nil x by (simp add: f)
  next
    case (Cons c1 cs1)
    obtain t1 ev1 where c1: "c1 = (t1, ev1)"
      by (cases c1)
    have t1: "i \<le> t1" "next_delta (rd_signal_lens xc ! x) (drop (?head + n) (tr_mem tr)) = Some (t1 - i)"
      using r(3) by (auto simp: Cons c1)
    have t1_less: "t1 < length (tr_tc_head tr0)"
      using traverses_times(2) [OF tr, of "(t1, ev1)" x] px by (simp add: Cons c1 f)
    then have t1_small: "t1 < 2 ^ 32"
      using sizes by (simp add: sizes_ok_def)
    note t1_less
    moreover have "lists_ok tr0 ((p(x := cs))(x := [])) (q(i := xs))"
      using lists by simp
    moreover have "next_at t1 ((p(x := cs)) x)" "x < length (tr_headptr tr0)"
      using x by (simp_all add: next_at_def Cons c1 f)
    ultimately obtain tr1 where e: "enqueue x t1 tr0 = Some tr1" "lists_ok tr1 (p(x := cs)) ((q(i := xs))(t1 := x # (q(i := xs)) t1))"
        "sizes_ok tr1" "tr_mem tr1 = tr_mem tr0" "tr_headptr tr1 = tr_headptr tr0" "tr_remaining tr1 = tr_remaining tr0"
        "tr_events tr1 = tr_events tr0" "length (tr_tc_head tr1) = length (tr_tc_head tr0)"
      using enqueue_lists [OF sizes] by metis
    have "traverses up xc i tr1 (p(x := cs)) ((q(i := xs))(t1 := x # (q(i := xs)) t1))"
      using e(2,3) chains [OF e(4-6)] times [of tr1] e(5,8) by (simp add: traverses_def f)
    moreover have "visit_signal up xc tim i tr = Some tr1"
      using visit rem e(1) t1 t1_small Cons by (simp add: f)
    ultimately show ?thesis
      using that [OF px] x e by (simp add: f)
  qed
qed

section \<open>The list of a time\<close>

fun event_handle :: "vc_event \<Rightarrow> nat" where
  "event_handle (Value_change tim h v) = h"
| "event_handle (Varlen_change tim h v) = h"

fun event_time :: "vc_event \<Rightarrow> u64" where
  "event_time (Value_change tim h v) = tim"
| "event_time (Varlen_change tim h v) = tim"

lemma read_change_event:
  assumes "read_change up xc x mem = Some (ev, n)" "e \<in> set (ev tim)"
  shows "event_handle e = x + 1" "event_time e = tim"
  using assms
  by (auto simp: read_change_def read_bit_def read_varlen_def read_vector_def read_real_def
      split: Option.bind_splits if_splits)

text \<open>
  The events of the time with the index \<open>i\<close>: they all have this time, and those of a
  signal are its changes at this time, in their order.
\<close>

definition events_at :: "(nat \<Rightarrow> timed) \<Rightarrow> nat \<Rightarrow> u64 \<Rightarrow> vc_event list \<Rightarrow> bool" where
  "events_at p i tim evs \<longleftrightarrow>
     (\<forall>e \<in> set evs. event_time e = tim \<and> 0 < event_handle e) \<and>
     (\<forall>x. filter (\<lambda>e. event_handle e = x + 1) evs = concat (map (\<lambda>c. snd c tim) (filter (\<lambda>c. fst c = i) (p x))))"

lemma events_at_step:
  assumes "p x = (i, ev) # cs" "\<forall>e \<in> set (ev tim). event_handle e = x + 1 \<and> event_time e = tim"
    and "events_at (p(x := cs)) i tim evs"
  shows "events_at p i tim (ev tim @ evs)"
  using assms unfolding events_at_def by (auto simp: filter_empty_conv intro: filter_True)

lemma traverses_later:
  assumes tr: "traverses up xc i tr p q" and i: "i < length (tr_tc_head tr)" and qi: "q i = []"
  shows "traverses up xc (Suc i) tr p q" "\<And>c. c \<in> set (p x) \<Longrightarrow> fst c \<noteq> i"
proof -
  have later: "i < fst c" if c: "c \<in> set (p x)" for c x
  proof -
    obtain c0 cs where p: "p x = c0 # cs"
      using c by (cases "p x") auto
    have "x < length (tr_headptr tr) \<and> (\<exists>lim t. chain_at up xc x (tr_mem tr) lim (tr_headptr tr ! x) t (p x))"
      using tr p unfolding traverses_def chains_ok_def by (metis list.distinct(1))
    then have "sorted (map fst (p x))" "x < length (tr_headptr tr)"
      using chain_at_sorted by (fastforce dest: sorted_wrt.simps(2) [THEN iffD1])+
    moreover have "i \<le> fst c0"
      using traverses_times(1) [OF tr, of c0 x] p by simp
    moreover have "\<not> next_at i (p x)"
      using tr i qi \<open>x < length (tr_headptr tr)\<close> by (auto simp: traverses_def lists_ok_def)
    ultimately show ?thesis
      using c p by (auto simp: next_at_def)
  qed
  then show "traverses up xc (Suc i) tr p q"
    using tr by (auto simp: traverses_def times_ok_def Suc_le_eq)
  show "\<And>c. c \<in> set (p x) \<Longrightarrow> fst c \<noteq> i"
    using later by fastforce
qed

lemma visit_time_run:
  assumes "traverses up xc i tr p q" "i < length (tr_tc_head tr)"
  shows "\<exists>tr1 q1 evs. visit_time up xc tim i tr = Some tr1 \<and>
    traverses up xc (Suc i) tr1 (\<lambda>x. filter (\<lambda>c. fst c \<noteq> i) (p x)) q1 \<and>
    tr_events tr1 = tr_events tr @ evs \<and> events_at p i tim evs \<and>
    length (tr_tc_head tr1) = length (tr_tc_head tr)"
  using assms
proof (induction "to_read tr" arbitrary: tr p q rule: less_induct)
  case less
  note tr = less.prems
  have linked: "linked (tr_scatter tr) (tr_tc_head tr ! i) (q i)"
    using tr by (simp add: traverses_def lists_ok_def)
  show ?case
  proof (cases "q i")
    case Nil
    note later = traverses_later [OF tr Nil]
    have "(\<lambda>x. filter (\<lambda>c. fst c \<noteq> i) (p x)) = p"
      using later(2) by (auto simp: fun_eq_iff filter_id_conv)
    moreover have "events_at p i tim []"
      using later(2) by (auto simp: events_at_def filter_empty_conv)
    moreover have "visit_time up xc tim i tr = Some tr"
      using linked Nil by (simp add: visit_time.simps [of up xc tim i tr])
    ultimately show ?thesis
      using later(1) by (intro exI [of _ tr] exI [of _ q] exI [of _ "[]"]) simp
  next
    case (Cons x xs)
    obtain ev cs tr1 q1 where s: "p x = (i, ev) # cs" "visit_signal up xc tim i tr = Some tr1"
        "traverses up xc i tr1 (p(x := cs)) q1" "tr_events tr1 = tr_events tr @ ev tim" "x < length (tr_headptr tr)"
        "length (tr_tc_head tr1) = length (tr_tc_head tr)"
      using visit_signal_step [OF tr Cons, of tim] by metis
    obtain lim pos t where "chain_at up xc x (tr_mem tr) lim pos t (p x)"
      using tr(1) s(1) by (metis chains_ok_def list.distinct(1) traverses_def)
    then obtain mem n where "read_change up xc x mem = Some (ev, n)"
      using s(1) by auto
    then have ev: "\<forall>e \<in> set (ev tim). event_handle e = x + 1 \<and> event_time e = tim"
      using read_change_event by blast
    obtain tr2 q2 evs where r: "visit_time up xc tim i tr1 = Some tr2"
        "traverses up xc (Suc i) tr2 (\<lambda>y. filter (\<lambda>c. fst c \<noteq> i) ((p(x := cs)) y)) q2"
        "tr_events tr2 = tr_events tr1 @ evs" "events_at (p(x := cs)) i tim evs"
        "length (tr_tc_head tr2) = length (tr_tc_head tr1)"
      using less.hyps [OF visit_signal_to_read [OF s(2)] s(3)] tr(2) s(6) by auto
    have "(\<lambda>y. filter (\<lambda>c. fst c \<noteq> i) ((p(x := cs)) y)) = (\<lambda>y. filter (\<lambda>c. fst c \<noteq> i) (p y))"
      using s(1) by (auto simp: fun_eq_iff)
    moreover have "visit_time up xc tim i tr = Some tr2"
      using linked Cons s(2) r(1) by (simp add: visit_time.simps [of up xc tim i tr])
    ultimately show ?thesis
      using r s(4,6) events_at_step [OF s(1) ev r(4)] by (intro exI [of _ tr2] exI [of _ q2] exI [of _ "ev tim @ evs"]) simp
  qed
qed

text \<open>All times.\<close>

definition changes_sorted :: "(nat \<Rightarrow> timed) \<Rightarrow> u64 list \<Rightarrow> nat \<Rightarrow> vc_event list list \<Rightarrow> bool" where
  "changes_sorted p tims i groups \<longleftrightarrow>
     length groups = length tims \<and> (\<forall>k < length tims. events_at p (i + k) (tims ! k) (groups ! k))"

lemma visit_times_run:
  assumes "traverses up xc i tr p q" "i + length tims \<le> length (tr_tc_head tr)"
  shows "\<exists>tr1 groups. visit_times up xc i tims tr = Some tr1 \<and> tr_events tr1 = tr_events tr @ concat groups \<and>
    changes_sorted p tims i groups"
  using assms
proof (induction tims arbitrary: i tr p q)
  case Nil
  then show ?case
    by (auto simp: changes_sorted_def)
next
  case (Cons tim tims)
  obtain tr1 q1 evs where 1: "visit_time up xc tim i tr = Some tr1"
      "traverses up xc (Suc i) tr1 (\<lambda>x. filter (\<lambda>c. fst c \<noteq> i) (p x)) q1"
      "tr_events tr1 = tr_events tr @ evs" "events_at p i tim evs" "length (tr_tc_head tr1) = length (tr_tc_head tr)"
    using visit_time_run [OF Cons.prems(1)] Cons.prems(2) by fastforce
  obtain tr2 groups where 2: "visit_times up xc (Suc i) tims tr1 = Some tr2" "tr_events tr2 = tr_events tr1 @ concat groups"
      "changes_sorted (\<lambda>x. filter (\<lambda>c. fst c \<noteq> i) (p x)) tims (Suc i) groups"
    using Cons.IH [OF 1(2)] Cons.prems(2) 1(5) by auto
  have "events_at p (Suc i + k) tim1 evs1 \<longleftrightarrow> events_at (\<lambda>x. filter (\<lambda>c. fst c \<noteq> i) (p x)) (Suc i + k) tim1 evs1" for k tim1 evs1
  proof -
    have "filter (\<lambda>c. fst c = Suc i + k) (filter (\<lambda>c. fst c \<noteq> i) (p x)) = filter (\<lambda>c. fst c = Suc i + k) (p x)" for x
      by (induction "p x" arbitrary: p) (auto simp: filter_filter intro!: filter_cong)
    then show ?thesis
      by (simp add: events_at_def)
  qed
  then have "changes_sorted p (tim # tims) i (evs # groups)"
    using 1(4) 2(3) by (auto simp: changes_sorted_def nth_Cons split: nat.split)
  then show ?case
    using 1(1,3) 2(1,2) by (intro exI [of _ tr2] exI [of _ "evs # groups"]) simp
qed

end
