(* ===== verification/Fst_Decode.thy ===== *)
theory Fst_Decode
  imports Fst_Traverse
begin

text \<open>
  Reading the text of a change gives the value that was emitted: digits 0 and 1 come back
  as they are, the other digits of a one-bit signal in the case and with the replacement that
  the nine values of VHDL get, vectors unpacked, reals converted by the \<open>sprintf\<close> of the reader.
\<close>

section \<open>One-bit values\<close>

definition rcv_text :: "byte \<Rightarrow> byte" where
  "rcv_text c =
     (if c = 0x30 \<or> c = 0x31 then c
      else if c = 0x78 \<or> c = 0x58 then 0x78
      else if c = 0x7a \<or> c = 0x5a then 0x7a
      else if c = 0x68 \<or> c = 0x48 then 0x68
      else if c = 0x75 \<or> c = 0x55 then 0x75
      else if c = 0x77 \<or> c = 0x57 then 0x77
      else if c = 0x6c \<or> c = 0x4c then 0x6c
      else 0x2d)"

definition small :: "u32 \<Rightarrow> bool" where
  "small d \<longleftrightarrow> unat d < 2 ^ 28"

lemma small_bits:
  assumes "small d" "bit d n"
  shows "n < 28"
proof -
  have "take_bit 28 d = d"
    using assms(1) by (simp add: small_def word_unat_eq_iff unsigned_take_bit_eq take_bit_nat_eq_self)
  then show ?thesis
    using assms(2) by (metis bit_take_bit_iff)
qed

lemma code_binary:
  fixes d w :: u32
  assumes "small d"
  shows "(push_bit 1 (w AND 1) OR push_bit 2 d) AND 1 = 0"
    "drop_bit 1 (push_bit 1 (w AND 1) OR push_bit 2 d) AND 1 = w AND 1"
    "drop_bit 2 (push_bit 1 (w AND 1) OR push_bit 2 d) = d"
  using small_bits [OF assms]
  by (auto intro!: bit_word_eqI simp: bit_simps bit_1_iff simp del: push_bit_Suc One_nat_def) fastforce+

lemma code_other:
  fixes d k :: u32
  assumes "small d" "take_bit 3 k = k"
  shows "((1 OR push_bit 1 k) OR push_bit 4 d) AND 1 = 1"
    "drop_bit 1 ((1 OR push_bit 1 k) OR push_bit 4 d) AND 7 = k"
    "drop_bit 4 ((1 OR push_bit 1 k) OR push_bit 4 d) = d"
proof -
  have k: "n < 3" if "bit k n" for n
    using assms(2) that by (metis bit_take_bit_iff)
  have 7: "(7 :: u32) = mask 3"
    by (simp add: mask_eq_exp_minus_1)
  show "((1 OR push_bit 1 k) OR push_bit 4 d) AND 1 = 1"
    by (auto intro!: bit_word_eqI simp: bit_simps bit_1_iff)
  show "drop_bit 1 ((1 OR push_bit 1 k) OR push_bit 4 d) AND 7 = k"
    unfolding 7 by (auto intro!: bit_word_eqI simp: bit_simps bit_1_iff simp del: push_bit_Suc One_nat_def) (fastforce dest: k)+
  show "drop_bit 4 ((1 OR push_bit 1 k) OR push_bit 4 d) = d"
    using k small_bits [OF assms(1)] by (auto intro!: bit_word_eqI simp: bit_simps bit_1_iff simp del: push_bit_Suc One_nat_def) fastforce+
qed

lemma rcv_code_cases:
  obtains "c = 0x30 \<or> c = 0x31" "rcv_code c d = push_bit 1 (ucast c AND 1) OR push_bit 2 d"
  | k where "rcv_code c d = (1 OR push_bit 1 k) OR push_bit 4 d" "take_bit 3 k = k" "FST_RCV_STR ! unat k = rcv_text c"
proof -
  have "\<exists>k. rcv_code c d = (1 OR push_bit 1 k) OR push_bit 4 d \<and> take_bit 3 k = k \<and> FST_RCV_STR ! unat k = rcv_text c"
    if "\<not> (c = 0x30 \<or> c = 0x31)"
    using that by (cases "c = 0x78 \<or> c = 0x58"; cases "c = 0x7a \<or> c = 0x5a"; cases "c = 0x68 \<or> c = 0x48";
        cases "c = 0x75 \<or> c = 0x55"; cases "c = 0x77 \<or> c = 0x57"; cases "c = 0x6c \<or> c = 0x4c")
      (simp_all only: rcv_code_def rcv_text_def FST_RCV_STR_def if_True if_False, (rule exI, rule conjI, rule refl, simp)+)
  then show ?thesis
    using that by (cases "c = 0x30 \<or> c = 0x31") (auto simp: rcv_code_def)
qed

lemma rcv_code_read:
  assumes "small d"
  shows "rcv_char (rcv_code c d) = rcv_text c"
    "drop_bit (2 * 2 ^ unat (rcv_code c d AND 1)) (rcv_code c d) = d"
proof -
  have "rcv_char (rcv_code c d) = rcv_text c \<and> drop_bit (2 * 2 ^ unat (rcv_code c d AND 1)) (rcv_code c d) = d"
  proof (cases rule: rcv_code_cases [of c d])
    case 1
    have "ucast (ucast c AND 1 :: u32) OR 0x30 = c"
      using 1(1) by auto
    then show ?thesis
      using 1 code_binary [OF assms, of "ucast c"] by (auto simp: rcv_char_def rcv_text_def)
  next
    case (2 k)
    then show ?thesis
      using code_other [OF assms 2(2)] by (simp add: rcv_char_def)
  qed
  then show "rcv_char (rcv_code c d) = rcv_text c"
    "drop_bit (2 * 2 ^ unat (rcv_code c d AND 1)) (rcv_code c d) = d"
    by blast+
qed

section \<open>Packed values\<close>

lemma bit_fold_or:
  "bit (fold (\<lambda>k acc. acc OR f k) ks a) n \<longleftrightarrow> bit (a :: byte) n \<or> (\<exists>k \<in> set ks. bit (f k) n)"
  by (induction ks arbitrary: a) (auto simp: bit_or_iff)

lemma bit_pack_byte:
  assumes "length cs \<le> 8" "m < length cs"
  shows "bit (pack_byte cs) (7 - m) \<longleftrightarrow> bit (cs ! m) 0"
proof -
  have "bit (push_bit (7 - k) (cs ! k AND 1)) (7 - m) \<longleftrightarrow> k = m \<and> bit (cs ! m) 0" if "k < length cs" for k
  proof (cases "k = m")
    case False
    then have "7 - m - (7 - k) \<noteq> 0 \<or> 7 - m < 7 - k"
      using assms that by arith
    then show ?thesis
      using False by (auto simp: bit_simps bit_1_iff)
  qed (auto simp: bit_simps bit_1_iff less_imp_diff_less)
  then show ?thesis
    using assms(2) by (auto simp: pack_byte_def bit_fold_or)
qed

lemma unpack_bit:
  assumes "length cs \<le> 8" "m < length cs" "cs ! m = 0x30 \<or> cs ! m = 0x31"
  shows "(drop_bit (7 - m) (pack_byte cs) AND 1) OR 0x30 = cs ! m"
proof -
  have "drop_bit (7 - m) (pack_byte cs) AND 1 = (if bit (cs ! m) 0 then 1 else 0)"
    using bit_pack_byte [OF assms(1,2)] by (auto simp: and_one_eq mod2_eq_if bit_iff_odd_drop_bit [of "pack_byte cs"])
  then show ?thesis
    using assms(3) by (auto simp: bit_0)
qed

lemma unpack_pack:
  assumes "is_binary v"
  shows "unpack_bits (length v) (pack_text v @ rest) = Some v"
proof -
  let ?n = "(length v + 7) div 8"
  have "(drop_bit (7 - j mod 8) ((pack_text v @ rest) ! (j div 8)) AND 1) OR 0x30 = v ! j" if j: "j < length v" for j
  proof -
    let ?cs = "take 8 (drop (8 * (j div 8)) v)"
    have m: "8 * (j div 8) + j mod 8 = j" "j mod 8 < 8"
      by simp_all
    have k: "j div 8 < ?n"
    proof -
      have "8 * (j div 8) < length v"
        using m j by linarith
      then show ?thesis
        by (simp add: Suc_le_eq [symmetric] less_eq_div_iff_mult_less_eq)
    qed
    have len: "j mod 8 < length v - 8 * (j div 8)"
      using m(1) j by linarith
    then have "j mod 8 < length ?cs"
      using m(2) by (simp only: length_take length_drop min_less_iff_conj)
    moreover have "?cs ! (j mod 8) = v ! j"
      using m len by (simp only: nth_take nth_drop)
    moreover have "v ! j = 0x30 \<or> v ! j = 0x31"
      using assms j by (simp add: is_binary_def)
    ultimately have "(drop_bit (7 - j mod 8) (pack_byte ?cs) AND 1) OR 0x30 = v ! j"
      using unpack_bit [of ?cs "j mod 8"] by simp
    then show ?thesis
      using k by (simp add: pack_text_def nth_append)
  qed
  then have "map (\<lambda>j. (drop_bit (7 - j mod 8) ((pack_text v @ rest) ! (j div 8)) AND 1) OR 0x30) [0..<length v] = v"
    by (intro nth_equalityI) (simp_all only: length_map length_upt nth_map nth_upt minus_nat.diff_0 add_0)
  moreover have "?n \<le> length (pack_text v @ rest)"
    by (simp only: pack_text_def length_map length_upt length_append minus_nat.diff_0 le_add1)
  ultimately show ?thesis
    by (simp only: unpack_bits_def if_True)
qed

section \<open>A change\<close>

text \<open>What the callback gets for a value \<open>v\<close> of the signal \<open>x\<close>.\<close>

definition delivered :: "unpackers \<Rightarrow> block_reader \<Rightarrow> nat \<Rightarrow> byte list \<Rightarrow> u64 \<Rightarrow> vc_event list" where
  "delivered up rd x v tim =
     (let len = rd_signal_lens rd ! x in
      if len = 1 then [Value_change tim (x + 1) [rcv_text (hd v)]]
      else if len = 0 then [Varlen_change tim (x + 1) v]
      else if rd_signal_typs rd ! x \<noteq> FST_VT_VCD_REAL then [Value_change tim (x + 1) v]
      else [Value_change tim (x + 1) (real_value up rd v)])"

text \<open>A signal of the file; reals have eight bytes.\<close>

definition signal_ok :: "block_reader \<Rightarrow> nat \<Rightarrow> bool" where
  "signal_ok rd x \<longleftrightarrow> x < length (rd_signal_lens rd) \<and> x < length (rd_signal_typs rd) \<and>
     (rd_signal_typs rd ! x = FST_VT_VCD_REAL \<longrightarrow> rd_signal_lens rd ! x \<in> {0, 1, 8})"

lemma get_varint32_noskip_bytes: "fstGetVarint32NoSkip (varint_bytes (v :: u32) @ rest) = Some v"
  by (simp add: fstGetVarint32NoSkip_def varint_scan_varint_bytes varint_value_varint_bytes)

lemma code_value:
  fixes d :: u32
  assumes "small d"
  shows "push_bit 1 d AND 1 = 0" "drop_bit 1 (push_bit 1 d) = d"
    "(push_bit 1 d OR 1) AND 1 = 1" "drop_bit 1 (push_bit 1 d OR 1) = d"
  using small_bits [OF assms]
  by (auto intro!: bit_word_eqI simp: bit_simps bit_1_iff simp del: push_bit_Suc One_nat_def) fastforce+

lemma length_pack_text_eq: "length (pack_text v) = (length v + 7) div 8"
  by (simp add: pack_text_def)

lemma slice_start: "slice (as @ bs @ rest) (length as) (length bs) = Some bs"
  by (simp add: slice_def)

lemma next_delta_text:
  assumes "small d"
  shows "next_delta len (change_text len (d, v) @ rest) = Some (unat d)"
  using rcv_code_read(2) [OF assms, of "hd v"] code_value [OF assms]
  by (simp add: next_delta_def change_text_def get_varint32_noskip_bytes)

lemma read_vector_text:
  assumes "length v = unat len" "small d"
  shows "read_vector x len ((if is_binary v then varint_bytes (push_bit 1 d) @ pack_text v
      else varint_bytes (push_bit 1 d OR 1) @ v) @ rest) =
    Some (\<lambda>tim. [Value_change tim (x + 1) v], length (if is_binary v then varint_bytes (push_bit 1 d) @ pack_text v
      else varint_bytes (push_bit 1 d OR 1) @ v))"
proof (cases "is_binary v")
  case True
  then show ?thesis
    using unpack_pack [OF True, of rest] assms(1) code_value [OF assms(2)]
    by (simp add: read_vector_def get_varint32_bytes length_pack_text_eq)
next
  case False
  then show ?thesis
    using slice_start [of "varint_bytes (push_bit 1 d OR 1)" v rest] assms(1) code_value [OF assms(2)]
    by (simp add: read_vector_def get_varint32_bytes)
qed

lemma read_real_text:
  assumes "length v = 8" "len = 8" "small d"
  shows "read_real up rd x len ((if is_binary v then varint_bytes (push_bit 1 d) @ pack_text v
      else varint_bytes (push_bit 1 d OR 1) @ v) @ rest) =
    Some (\<lambda>tim. [Value_change tim (x + 1) (real_value up rd v)],
      length (if is_binary v then varint_bytes (push_bit 1 d) @ pack_text v else varint_bytes (push_bit 1 d OR 1) @ v))"
proof (cases "is_binary v")
  case True
  then show ?thesis
    using unpack_pack [OF True, of rest] assms(1) code_value [OF assms(3)]
    by (simp add: read_real_def get_varint32_bytes length_pack_text_eq)
next
  case False
  then show ?thesis
    using slice_start [of "varint_bytes (push_bit 1 d OR 1)" v rest] assms(1,2) code_value [OF assms(3)]
    by (simp add: read_real_def get_varint32_bytes)
qed

lemma read_varlen_text:
  assumes "length v < 2 ^ 32" "small d"
  shows "read_varlen x ((varint_bytes (push_bit 1 d) @ varint_bytes (word_of_nat (length v) :: u32) @ v) @ rest) =
    Some (\<lambda>tim. [Varlen_change tim (x + 1) v],
      length (varint_bytes (push_bit 1 d) @ varint_bytes (word_of_nat (length v) :: u32) @ v))"
proof -
  have "unat (word_of_nat (length v) :: u32) = length v"
    using assms(1) by (simp add: unsigned_of_nat take_bit_nat_eq_self)
  then show ?thesis
    using slice_start [of "varint_bytes (push_bit 1 d) @ varint_bytes (word_of_nat (length v) :: u32)" v rest]
      code_value [OF assms(2)]
    by (simp add: read_varlen_def get_varint32_bytes)
qed

lemma read_change_text:
  assumes "signal_ok rd x" "value_fits (rd_signal_lens rd ! x) v" "small d"
  shows "read_change up rd x (change_text (rd_signal_lens rd ! x) (d, v) @ rest) =
    Some (delivered up rd x v, length (change_text (rd_signal_lens rd ! x) (d, v)))"
proof -
  let ?len = "rd_signal_lens rd ! x"
  have p: "peek (rd_signal_lens rd) x = Some ?len" "peek (rd_signal_typs rd) x = Some (rd_signal_typs rd ! x)"
    using assms(1) by (simp_all add: signal_ok_def)
  consider "?len = 1" | "?len = 0" | "?len \<noteq> 0" "?len \<noteq> 1"
    by blast
  then show ?thesis
  proof cases
    case 1
    then show ?thesis
      using rcv_code_read(1) [OF assms(3)]
      by (simp add: read_change_def p read_bit_def change_text_def get_varint32_bytes delivered_def fun_eq_iff)
  next
    case 2
    then have "length v < 2 ^ 32"
      using assms(2) by (simp add: value_fits_def)
    then show ?thesis
      using 2 read_varlen_text [of v d x rest] assms(3)
      by (simp add: read_change_def p change_text_def delivered_def fun_eq_iff)
  next
    case 3
    then have v: "length v = unat ?len"
      using assms(2) by (simp add: value_fits_def)
    have ct: "change_text ?len (d, v) = (if is_binary v then varint_bytes (push_bit 1 d) @ pack_text v
        else varint_bytes (push_bit 1 d OR 1) @ v)"
      using 3 by (simp add: change_text_def)
    show ?thesis
    proof (cases "rd_signal_typs rd ! x = FST_VT_VCD_REAL")
      case True
      then have "?len = 8"
        using 3 assms(1) by (auto simp: signal_ok_def)
      then show ?thesis
        using True v read_real_text [of v ?len d up rd x rest] assms(3) unfolding ct
        by (simp add: read_change_def p delivered_def fun_eq_iff)
    next
      case False
      then show ?thesis
        using 3 read_vector_text [OF v assms(3), of x rest] unfolding ct
        by (simp add: read_change_def p delivered_def fun_eq_iff)
    qed
  qed
qed

section \<open>A chain\<close>

text \<open>The distances of changes that are given oldest first.\<close>

fun distances :: "u32 \<Rightarrow> vc_log \<Rightarrow> (u32 \<times> byte list) list" where
  "distances t [] = []"
| "distances t ((t1, v) # es) = (t1 - t, v) # distances t1 es"

lemma distances_snoc: "distances t (es @ [(t1, v)]) = distances t es @ [(t1 - last (t # map fst es), v)]"
  by (induction t es rule: distances.induct) auto

lemma rev_deltas: "rev (deltas lg) = distances 0 (rev lg)"
proof (induction lg)
  case (Cons e lg)
  have "last_time lg = last (0 # map fst (rev lg))"
    by (cases lg) (auto simp: last_map)
  then show ?case
    using Cons by (cases e) (simp add: distances_snoc)
qed simp

definition to_deliver :: "unpackers \<Rightarrow> block_reader \<Rightarrow> nat \<Rightarrow> vc_log \<Rightarrow> timed" where
  "to_deliver up rd x es = map (\<lambda>(t, v). (unat t, delivered up rd x v)) es"

lemma chain_at_text:
  assumes "signal_ok rd x" "\<forall>(t, v) \<in> set es. value_fits (rd_signal_lens rd ! x) v \<and> unat t < 2 ^ 28"
    and "sorted (unat t0 # map (unat \<circ> fst) es)"
  shows "chain_at up rd x (pre @ concat (map (change_text (rd_signal_lens rd ! x)) (distances t0 es)) @ rest)
    (length pre + length (concat (map (change_text (rd_signal_lens rd ! x)) (distances t0 es)))) (length pre) (unat t0)
    (to_deliver up rd x es)"
  using assms(2,3)
proof (induction t0 es arbitrary: pre rule: distances.induct)
  case (1 t)
  then show ?case
    by (simp add: to_deliver_def)
next
  case (2 t t1 v es)
  let ?len = "rd_signal_lens rd ! x"
  let ?text = "change_text ?len (t1 - t, v)" and ?more = "concat (map (change_text ?len) (distances t1 es))"
  have t: "unat t \<le> unat t1" and d: "unat (t1 - t) = unat t1 - unat t" "small (t1 - t)"
    using 2 by (auto simp: small_def unat_sub word_le_nat_alt)
  have fits: "value_fits ?len v"
    using 2 by simp
  have "chain_at up rd x ((pre @ ?text) @ ?more @ rest) (length (pre @ ?text) + length ?more) (length (pre @ ?text)) (unat t1)
      (to_deliver up rd x es)"
    using 2 by (intro "2.IH") auto
  then show ?case
    using t d next_delta_text [OF d(2)] read_change_text [OF assms(1) fits d(2)]
    by (simp add: to_deliver_def add.assoc)
qed

end
