(* ===== verification/Fst_Load.thy ===== *)
theory Fst_Load
  imports Fst_Decode
begin

text \<open>
  Loading the chains of a section one behind the other, and the changes of a section as a
  whole: every change of every chain is delivered once, at its time.
\<close>

section \<open>Chains in a larger memory\<close>

lemma varint_scan_append: "varint_scan mem = Some n \<Longrightarrow> varint_scan (mem @ rest) = Some n"
  by (induction mem arbitrary: n) (auto split: if_splits)

lemma get_varint32_append: "fstGetVarint32 mem = Some (v, n) \<Longrightarrow> fstGetVarint32 (mem @ rest) = Some (v, n)"
  using varint_scan_append varint_scan_pos by (fastforce simp: fstGetVarint32_def split: option.splits)

lemma next_delta_append: "next_delta len mem = Some t \<Longrightarrow> next_delta len (mem @ rest) = Some t"
  using varint_scan_append varint_scan_pos
  by (fastforce simp: next_delta_def fstGetVarint32NoSkip_def split: option.splits Option.bind_splits)

lemma slice_append_rest: "slice mem off n = Some bs \<Longrightarrow> slice (mem @ rest) off n = Some bs"
  by (auto simp: slice_def split: if_splits)

lemma unpack_bits_append: "unpack_bits len mem = Some v \<Longrightarrow> unpack_bits len (mem @ rest) = Some v"
proof -
  assume "unpack_bits len mem = Some v"
  then have fits: "(len + 7) div 8 \<le> length mem"
    and v: "v = map (\<lambda>j. (drop_bit (7 - j mod 8) (mem ! (j div 8)) AND 1) OR 0x30) [0..<len]"
    by (auto simp: unpack_bits_def split: if_splits)
  have "j div 8 < length mem" if "j < len" for j
  proof -
    have "8 * (j div 8) + j mod 8 = j"
      by simp
    then have "8 * (j div 8) < len"
      using that by linarith
    then have "j div 8 < (len + 7) div 8"
      by (simp add: Suc_le_eq [symmetric] less_eq_div_iff_mult_less_eq)
    then show ?thesis
      using fits by simp
  qed
  then have "map (\<lambda>j. (drop_bit (7 - j mod 8) ((mem @ rest) ! (j div 8)) AND 1) OR 0x30) [0..<len] = v"
    unfolding v by (intro map_cong refl) (simp add: nth_append)
  then show ?thesis
    using fits by (simp add: unpack_bits_def)
qed

lemma get_varint32_drop_append:
  "fstGetVarint32 mem = Some (v, n) \<Longrightarrow> drop n (mem @ rest) = drop n mem @ rest"
  using get_varint32_pos by fastforce

lemma read_bit_append: "read_bit x mem = Some (ev, n) \<Longrightarrow> read_bit x (mem @ rest) = Some (ev, n)"
  by (auto simp: read_bit_def bind_eq_Some_conv dest: get_varint32_append)

lemma read_varlen_append:
  assumes "read_varlen x mem = Some (ev, n)"
  shows "read_varlen x (mem @ rest) = Some (ev, n)"
proof -
  obtain vli skip len skip2 v where
    g: "fstGetVarint32 mem = Some (vli, skip)" "fstGetVarint32 (drop skip mem) = Some (len, skip2)"
      "slice mem (skip + skip2) (unat len) = Some v"
    and r: "ev = (\<lambda>tim. if vli AND 1 = 0 then [Varlen_change tim (x + 1) v] else [])" "n = skip + skip2 + unat len"
    using assms by (auto simp: read_varlen_def bind_eq_Some_conv)
  show ?thesis
    using get_varint32_append [OF g(1)] get_varint32_append [OF g(2)] get_varint32_drop_append [OF g(1)] slice_append_rest [OF g(3)]
    by (simp add: read_varlen_def r)
qed

lemma read_vector_append:
  assumes "read_vector x len mem = Some (ev, n)"
  shows "read_vector x len (mem @ rest) = Some (ev, n)"
proof -
  obtain vli skip where g: "fstGetVarint32 mem = Some (vli, skip)"
    using assms by (auto simp: read_vector_def bind_eq_Some_conv)
  show ?thesis
    using assms get_varint32_append [OF g, of rest] get_varint32_drop_append [OF g, of rest]
    by (cases "vli AND 1 = 0") (auto simp: read_vector_def g bind_eq_Some_conv dest: unpack_bits_append slice_append_rest)
qed

lemma read_real_append:
  assumes "read_real up xc x len mem = Some (ev, n)"
  shows "read_real up xc x len (mem @ rest) = Some (ev, n)"
proof -
  obtain vli skip where g: "fstGetVarint32 mem = Some (vli, skip)"
    using assms by (auto simp: read_real_def bind_eq_Some_conv)
  show ?thesis
    using assms get_varint32_append [OF g, of rest] get_varint32_drop_append [OF g, of rest]
    by (cases "vli AND 1 = 0") (auto simp: read_real_def g bind_eq_Some_conv dest: unpack_bits_append slice_append_rest)
qed

lemma read_change_append:
  "read_change up xc x mem = Some (ev, n) \<Longrightarrow> read_change up xc x (mem @ rest) = Some (ev, n)"
  using read_bit_append read_varlen_append read_vector_append read_real_append
  by (auto simp: read_change_def bind_eq_Some_conv split: if_splits)

lemma chain_at_append: "chain_at up xc x mem lim pos t cs \<Longrightarrow> chain_at up xc x (mem @ rest) lim pos t cs"
proof (induction cs arbitrary: pos t)
  case (Cons c cs)
  obtain t1 ev where c: "c = (t1, ev)"
    by (cases c)
  obtain n where n: "t \<le> t1" "next_delta (rd_signal_lens xc ! x) (drop pos mem) = Some (t1 - t)"
      "read_change up xc x (drop pos mem) = Some (ev, n)" "pos + n \<le> lim" "chain_at up xc x mem lim (pos + n) t1 cs"
    using Cons.prems by (auto simp: c)
  have "drop pos (mem @ rest) = drop pos mem @ rest"
    using read_change_pos [OF n(3)] by simp
  then show ?case
    using n next_delta_append [OF n(2)] read_change_append [OF n(3)] Cons.IH [OF n(5)] by (auto simp: c)
qed simp

lemma chain_at_shift:
  "chain_at up xc x mem lim pos t cs \<Longrightarrow> chain_at up xc x (pre @ mem) (length pre + lim) (length pre + pos) t cs"
proof (induction cs arbitrary: pos t)
  case (Cons c cs)
  obtain t1 ev where c: "c = (t1, ev)"
    by (cases c)
  show ?case
    using Cons by (auto simp: c add.assoc)
qed simp

section \<open>Loading\<close>

text \<open>
  The table has a chain for the signal \<open>i\<close>, its text is \<open>mu\<close>, and it holds the changes
  \<open>cs\<close>; or there is none to load.
\<close>

definition chain_present ::
    "unpackers \<Rightarrow> block_reader \<Rightarrow> byte \<Rightarrow> nat \<Rightarrow> chain_state \<Rightarrow> nat \<Rightarrow> byte list \<Rightarrow> timed \<Rightarrow> bool" where
  "chain_present up xc packtype vc_start st i mu cs \<longleftrightarrow>
     masked xc i = Some True \<and> ct_table st ! i \<noteq> 0 \<and> cs \<noteq> [] \<and> length mu < 2 ^ 32 \<and>
     (\<forall>mc. \<exists>mc1. chain_data up xc packtype (vc_start + unat (ct_table st ! i)) (unat (ct_lengths st ! i)) mc = Some (mu, mc1)) \<and>
     chain_at up xc i mu (length mu) 0 0 cs"

definition chain_absent :: "block_reader \<Rightarrow> chain_state \<Rightarrow> nat \<Rightarrow> byte list \<Rightarrow> timed \<Rightarrow> bool" where
  "chain_absent xc st i mu cs \<longleftrightarrow> (ct_table st ! i = 0 \<or> masked xc i = Some False) \<and> cs = [] \<and> mu = []"

definition below :: "nat \<Rightarrow> (nat \<Rightarrow> timed) \<Rightarrow> nat \<Rightarrow> timed" where
  "below k p = (\<lambda>x. if x < k then p x else [])"

lemma below_Suc: "below (Suc k) p = (below k p)(k := p k)" "(below (Suc k) p)(k := []) = below k p"
  by (auto simp: below_def fun_eq_iff)

definition loaded :: "unpackers \<Rightarrow> block_reader \<Rightarrow> nat \<Rightarrow> nat \<Rightarrow> (nat \<Rightarrow> timed) \<Rightarrow> (nat \<Rightarrow> byte list) \<Rightarrow> nat \<Rightarrow> loading \<Rightarrow> bool" where
  "loaded up xc n m p mu k ld \<longleftrightarrow>
     (\<exists>q. traverses up xc 0 (ld_tr ld) (below k p) q) \<and> length (tr_headptr (ld_tr ld)) = n \<and> length (tr_tc_head (ld_tr ld)) = m \<and>
     length (tr_mem (ld_tr ld)) = sum_list (map (\<lambda>x. length (mu x)) [0..<k]) \<and> tr_events (ld_tr ld) = []"

lemma chain_at_first:
  assumes "chain_at up xc x mem lim pos t cs" "cs \<noteq> []"
  shows "next_delta (rd_signal_lens xc ! x) (drop pos mem) = Some (fst (hd cs) - t)"
  using assms by (cases cs) (auto split: prod.splits)

lemma load_chain_step:
  assumes ld: "loaded up xc n m p mu i ld" and i: "i < n" and times: "\<forall>c \<in> set (p i). fst c < m"
    and chain: "chain_present up xc packtype vc_start st i (mu i) (p i) \<or> chain_absent xc st i (mu i) (p i)"
    and mem: "sum_list (map (\<lambda>x. length (mu x)) [0..<Suc i]) \<le> min (memreq + 66) (2 ^ 32 - 1)"
  shows "\<exists>ld1. load_chain up xc packtype vc_start memreq st i ld = Some ld1 \<and> loaded up xc n m p mu (Suc i) ld1"
  using chain
proof
  assume absent: "chain_absent xc st i (mu i) (p i)"
  then have "below (Suc i) p = below i p"
    by (auto simp: below_def chain_absent_def fun_eq_iff less_Suc_eq)
  then have "loaded up xc n m p mu (Suc i) ld"
    using ld absent by (simp add: loaded_def chain_absent_def)
  then show ?thesis
    using absent by (auto simp: load_chain_def chain_absent_def)
next
  assume present: "chain_present up xc packtype vc_start st i (mu i) (p i)"
  let ?tr = "ld_tr ld" and ?offs = "length (tr_mem (ld_tr ld))" and ?cs = "p i"
  obtain q where q: "traverses up xc 0 ?tr (below i p) q"
    using ld by (auto simp: loaded_def)
  have len: "length (tr_headptr ?tr) = n" "length (tr_tc_head ?tr) = m" "tr_events ?tr = []"
    "?offs = sum_list (map (\<lambda>x. length (mu x)) [0..<i])"
    using ld by (simp_all add: loaded_def)
  obtain mc1 where data: "chain_data up xc packtype (vc_start + unat (ct_table st ! i)) (unat (ct_lengths st ! i)) (ld_mc_mem ld)
      = Some (mu i, mc1)"
    using present unfolding chain_present_def by blast
  have c: "chain_at up xc i (mu i) (length (mu i)) 0 0 ?cs" "?cs \<noteq> []" "length (mu i) < 2 ^ 32"
    using present by (simp_all add: chain_present_def)
  define tr0 where "tr0 = ?tr\<lparr>tr_mem := tr_mem ?tr @ mu i, tr_headptr := (tr_headptr ?tr)[i := ?offs],
      tr_remaining := (tr_remaining ?tr)[i := word_of_nat (length (mu i))]\<rparr>"
  have f: "tr_mem tr0 = tr_mem ?tr @ mu i" "tr_headptr tr0 = (tr_headptr ?tr)[i := ?offs]"
    "tr_remaining tr0 = (tr_remaining ?tr)[i := word_of_nat (length (mu i))]" "tr_scatter tr0 = tr_scatter ?tr"
    "tr_tc_head tr0 = tr_tc_head ?tr" "tr_events tr0 = []"
    by (simp_all add: tr0_def len)
  have sizes: "sizes_ok tr0"
    using q by (simp add: sizes_ok_def traverses_def f)
  have "chain_at up xc i (tr_mem tr0) (?offs + length (mu i)) ?offs 0 ?cs"
    using chain_at_shift [OF c(1), of "tr_mem ?tr"] by (simp add: f)
  note at_i = this
  have delta: "next_delta (rd_signal_lens xc ! i) (mu i) = Some (fst (hd ?cs))"
    using chain_at_first [OF c(1,2)] by simp
  have room: "?offs + length (mu i) \<le> memreq + 66" "?offs + length (mu i) < 2 ^ 32"
    using mem len(4) by simp_all
  have "lists_ok tr0 (below i p) q"
    using q by (simp add: traverses_def lists_ok_def f)
  then have lists: "lists_ok tr0 ((below (Suc i) p)(i := [])) q"
    by (simp add: below_Suc(2))
  have "next_at (fst (hd ?cs)) (below (Suc i) p i)" "fst (hd ?cs) < m"
    using c(2) times by (simp_all add: next_at_def below_def)
  then obtain tr1 where e: "enqueue i (fst (hd ?cs)) tr0 = Some tr1" "lists_ok tr1 (below (Suc i) p) (q(fst (hd ?cs) := i # q (fst (hd ?cs))))"
      "sizes_ok tr1" "tr_mem tr1 = tr_mem tr0" "tr_headptr tr1 = tr_headptr tr0" "tr_remaining tr1 = tr_remaining tr0"
      "tr_events tr1 = tr_events tr0" "length (tr_tc_head tr1) = length (tr_tc_head tr0)"
    using enqueue_lists [OF sizes lists, of "fst (hd ?cs)"] i len f by (metis length_list_update)
  have "chains_ok up xc tr1 (below (Suc i) p)"
    unfolding chains_ok_def
  proof (intro allI impI)
    fix y
    assume y: "below (Suc i) p y \<noteq> []"
    show "y < length (tr_headptr tr1) \<and> (\<exists>lim t. tr_remaining tr1 ! y = word_of_nat (lim - tr_headptr tr1 ! y) \<and>
        lim - tr_headptr tr1 ! y < 2 ^ 32 \<and> chain_at up xc y (tr_mem tr1) lim (tr_headptr tr1 ! y) t (below (Suc i) p y))"
    proof (cases "y = i")
      case True
      then show ?thesis
        using at_i i c(3) sizes len
        by (intro conjI exI [of _ "?offs + length (mu i)"] exI [of _ 0]) (simp_all add: e f below_def sizes_ok_def)
    next
      case False
      then have "below i p y \<noteq> []" "below (Suc i) p y = below i p y"
        using y by (auto simp: below_def split: if_splits)
      then show ?thesis
        using q False chain_at_append unfolding traverses_def chains_ok_def by (fastforce simp: e f)
    qed
  qed
  moreover have "times_ok 0 tr1 (below (Suc i) p)"
    using q times len by (auto simp: traverses_def times_ok_def below_def e f less_Suc_eq)
  ultimately have "traverses up xc 0 tr1 (below (Suc i) p) (q(fst (hd ?cs) := i # q (fst (hd ?cs))))"
    using e(2,3) by (simp add: traverses_def)
  then have "loaded up xc n m p mu (Suc i) \<lparr>ld_tr = tr1, ld_mc_mem = mc1\<rparr>"
    using len by (auto simp: loaded_def e f)
  moreover have "load_chain up xc packtype vc_start memreq st i ld = Some \<lparr>ld_tr = tr1, ld_mc_mem = mc1\<rparr>"
    using present data delta e(1) room
    by (simp add: load_chain_def chain_present_def Let_def tr0_def)
  ultimately show ?thesis
    by blast
qed

lemma sum_lengths_mono: "k \<le> n \<Longrightarrow> sum_list (map (f :: nat \<Rightarrow> nat) [0..<k]) \<le> sum_list (map f [0..<n])"
  by (metis le_add1 le_iff_add map_append sum_list_append upt_add_eq_append zero_le)

lemma load_chains_run:
  assumes "loaded up xc n m p mu i ld" "i \<le> k" "k \<le> n" "\<forall>x < k. \<forall>c \<in> set (p x). fst c < m"
    and "\<forall>x < k. chain_present up xc packtype vc_start st x (mu x) (p x) \<or> chain_absent xc st x (mu x) (p x)"
    and "sum_list (map (\<lambda>x. length (mu x)) [0..<k]) \<le> min (memreq + 66) (2 ^ 32 - 1)"
  shows "\<exists>ld1. load_chains up xc packtype vc_start memreq st [i..<k] ld = Some ld1 \<and> loaded up xc n m p mu k ld1"
  using assms
proof (induction "k - i" arbitrary: i ld)
  case (Suc j)
  then have i: "i < k"
    by simp
  have "sum_list (map (\<lambda>x. length (mu x)) [0..<Suc i]) \<le> min (memreq + 66) (2 ^ 32 - 1)"
    using sum_lengths_mono [of "Suc i" k "\<lambda>x. length (mu x)"] i Suc.prems(6) by simp
  then obtain ld1 where 1: "load_chain up xc packtype vc_start memreq st i ld = Some ld1" "loaded up xc n m p mu (Suc i) ld1"
    using load_chain_step [OF Suc.prems(1), where packtype = packtype and st = st and vc_start = vc_start and memreq = memreq]
      i Suc.prems(3-5) by fastforce
  obtain ld2 where "load_chains up xc packtype vc_start memreq st [Suc i..<k] ld1 = Some ld2" "loaded up xc n m p mu k ld2"
    using Suc.hyps(1) [OF _ 1(2)] Suc.hyps(2) Suc.prems(3-6) i by fastforce
  then show ?case
    using 1(1) i by (simp add: upt_conv_Cons)
qed simp

text \<open>Fresh arrays.\<close>

lemma loaded_start:
  "0 < m \<Longrightarrow> m \<le> 2 ^ 32 \<Longrightarrow> loaded up xc n m p mu 0 \<lparr>ld_tr = \<lparr>tr_mem = [], tr_headptr = replicate n 0, tr_remaining = replicate n 0,
     tr_scatter = replicate n 0, tr_tc_head = replicate m 0, tr_events = []\<rparr>, ld_mc_mem = mc\<rparr>"
  by (auto simp: loaded_def traverses_def sizes_ok_def chains_ok_def lists_ok_def times_ok_def below_def next_at_def
      intro!: exI [of _ "\<lambda>_. []"])

lemma section_changes_run:
  assumes k: "k = min (ct_idx st) (unat (maxhandle (rd_mask xc)))"
    and chains: "\<forall>x < k. chain_present up xc packtype vc_start st x (mu x) (p x) \<or> chain_absent xc st x (mu x) (p x)"
    and times: "\<forall>x < k. \<forall>c \<in> set (p x). fst c < length tims" "length tims \<le> 2 ^ 32"
    and mem: "sum_list (map (\<lambda>x. length (mu x)) [0..<k]) \<le> min (memreq + 66) (2 ^ 32 - 1)"
  shows "\<exists>groups. section_changes up xc packtype vc_start memreq tims st = Some (concat groups) \<and>
    changes_sorted (below k p) tims 0 groups"
proof -
  let ?n = "unat (maxhandle (rd_mask xc))" and ?m = "max 1 (length tims)"
  let ?ld = "\<lparr>ld_tr = \<lparr>tr_mem = [], tr_headptr = replicate ?n 0, tr_remaining = replicate ?n 0,
     tr_scatter = replicate ?n 0, tr_tc_head = replicate ?m 0, tr_events = []\<rparr>, ld_mc_mem = up_malloc up 16384\<rparr>"
  have "\<forall>x < k. \<forall>c \<in> set (p x). fst c < ?m"
    using times by fastforce
  moreover have "0 < ?m" "?m \<le> 2 ^ 32" "k \<le> ?n"
    using times(2) k by simp_all
  ultimately obtain ld1 where ld: "load_chains up xc packtype vc_start memreq st [0..<k] ?ld = Some ld1" "loaded up xc ?n ?m p mu k ld1"
    using load_chains_run [OF loaded_start le0 _ _ chains mem] by blast
  then obtain q where q: "traverses up xc 0 (ld_tr ld1) (below k p) q" "length (tr_tc_head (ld_tr ld1)) = ?m" "tr_events (ld_tr ld1) = []"
    by (auto simp: loaded_def)
  then obtain tr1 groups where "visit_times up xc 0 tims (ld_tr ld1) = Some tr1" "tr_events tr1 = concat groups"
      "changes_sorted (below k p) tims 0 groups"
    using visit_times_run [OF q(1), of tims] by auto
  then show ?thesis
    using ld(1) by (intro exI [of _ groups]) (simp add: section_changes_def k [symmetric] Let_def)
qed

end
