(* ===== verification/Fst_Index.thy ===== *)
theory Fst_Index
  imports Fst_Load
begin

text \<open>
  The index of the chains: what the reader makes of the index that the writer has written.
\<close>

section \<open>Entries\<close>

text \<open>An entry of the writer: no chain, the (negative) handle of an equal chain, or a position.\<close>

definition is_alias :: "u32 \<Rightarrow> bool" where
  "is_alias c \<longleftrightarrow> c AND 0x80000000 \<noteq> 0"

definition is_chain :: "u32 \<Rightarrow> bool" where
  "is_chain c \<longleftrightarrow> c \<noteq> 0 \<and> \<not> is_alias c"

lemma is_alias_bit: "is_alias c \<longleftrightarrow> bit c 31"
  using and_exp_eq_0_iff_not_bit [of c 31] by (simp add: is_alias_def)

lemma is_alias_sint: "is_alias c \<longleftrightarrow> sint c < 0"
  using bit_last_iff [of c] by (simp add: is_alias_bit)

lemma not_alias_small:
  assumes "\<not> is_alias c"
  shows "unat c < 2 ^ 31"
proof -
  have "take_bit 31 c = c"
  proof (rule bit_word_eqI)
    fix n
    assume "n < LENGTH(32)"
    then have "n < 31 \<or> n = 31"
      by auto
    then show "bit (take_bit 31 c) n \<longleftrightarrow> bit c n"
      using assms by (auto simp: is_alias_bit bit_take_bit_iff)
  qed
  then have "unat c = take_bit 31 (unat c)"
    by (metis unsigned_take_bit_eq)
  then show ?thesis
    by (metis take_bit_nat_less_exp)
qed

definition apply_entry :: "u32 \<Rightarrow> chain_state \<Rightarrow> chain_state option" where
  "apply_entry c st =
     (if c = 0 then index_zeros 1 st
      else if is_alias c then index_alias c (st\<lparr>ct_prev_alias := c\<rparr>)
      else index_chain (ucast c - ct_pval st) st)"

fun apply_entries :: "u32 list \<Rightarrow> chain_state \<Rightarrow> chain_state option" where
  "apply_entries [] st = Some st"
| "apply_entries (c # cs) st = Option.bind (apply_entry c st) (apply_entries cs)"

fun positions_grow :: "u32 list \<Rightarrow> u32 \<Rightarrow> bool" where
  "positions_grow [] pp \<longleftrightarrow> True"
| "positions_grow (c # cs) pp \<longleftrightarrow>
     (if is_chain c then unat pp < unat c \<and> positions_grow cs c else positions_grow cs pp)"

definition read_index0 :: "byte list \<Rightarrow> chain_state \<Rightarrow> chain_state option" where
  "read_index0 pnt st = (if pnt = [] then Some st else read_index FST_BL_VCDATA_DYN_ALIAS2 pnt st)"

lemma read_index0_entry:
  assumes "index_entry FST_BL_VCDATA_DYN_ALIAS2 (e @ rest) st = map_option (\<lambda>s. (s, length e)) r" "e \<noteq> []"
  shows "read_index0 (e @ rest) st = Option.bind r (read_index0 rest)"
proof (cases r)
  case None
  then show ?thesis
    using assms by (simp add: read_index0_def read_index.simps [of _ "e @ rest"])
next
  case (Some s)
  then show ?thesis
    using assms by (simp add: read_index0_def read_index.simps [of _ "e @ rest"])
qed

section \<open>The first byte\<close>

lemma and_one_bit: "(w :: 'a :: len word) AND 1 \<noteq> 0 \<longleftrightarrow> bit w 0"
  using and_exp_eq_0_iff_not_bit [of w 0] by simp

lemma svarint_first: "\<exists>b bs. svarint_bytes v = b # bs \<and> (b AND 1 \<noteq> 0 \<longleftrightarrow> bit v 0)"
proof (cases "svarint_last v")
  case True
  have "((ucast v OR 0x80 :: byte) AND 0x7f) AND 1 \<noteq> 0 \<longleftrightarrow> bit v 0"
    by (simp only: and_one_bit bit_and_iff bit_or_iff bit_unsigned_iff) simp
  then show ?thesis
    using True by (simp add: svarint_bytes_unfold [of v])
next
  case False
  have "(ucast v OR 0x80 :: byte) AND 1 \<noteq> 0 \<longleftrightarrow> bit v 0"
    by (simp only: and_one_bit bit_and_iff bit_or_iff bit_unsigned_iff) simp
  then show ?thesis
    using False by (simp add: svarint_bytes_unfold [of v])
qed

lemma svarint_nonempty: "svarint_bytes v \<noteq> []"
  using svarint_first [of v] by auto

lemma varint_first: "\<exists>b bs. varint_bytes (v :: u64) = b # bs \<and> (b AND 1 \<noteq> 0 \<longleftrightarrow> bit v 0)"
proof (cases "drop_bit 7 v = 0")
  case True
  have "(ucast v :: byte) AND 1 \<noteq> 0 \<longleftrightarrow> bit v 0"
    by (simp only: and_one_bit bit_unsigned_iff) simp
  then show ?thesis
    using True by (simp add: varint_bytes.simps [of v])
next
  case False
  have "(ucast v OR 0x80 :: byte) AND 1 \<noteq> 0 \<longleftrightarrow> bit v 0"
    by (simp only: and_one_bit bit_or_iff bit_unsigned_iff) simp
  then show ?thesis
    using False by (simp add: varint_bytes.simps [of v])
qed

lemma peek_first: "e = b # bs \<Longrightarrow> peek (e @ rest) 0 = Some b"
  by simp

section \<open>Reading an entry\<close>

lemma unat_small_32: "n < 2 ^ 32 \<Longrightarrow> unat (word_of_nat n :: u32) = n"
  by (simp add: unsigned_of_nat take_bit_nat_eq_self)

lemma unat_half: "unat (drop_bit 1 (w :: u32)) = unat w div 2"
  by (simp add: drop_bit_eq_div unat_div)

lemma read_zeros:
  assumes "2 * z < 2 ^ 32"
  shows "index_entry FST_BL_VCDATA_DYN_ALIAS2 (varint_bytes (word_of_nat (2 * z) :: u64) @ rest) st =
    map_option (\<lambda>s. (s, length (varint_bytes (word_of_nat (2 * z) :: u64)))) (index_zeros z st)"
proof -
  let ?v = "word_of_nat (2 * z) :: u64"
  obtain b bs where b: "varint_bytes ?v = b # bs" "b AND 1 \<noteq> 0 \<longleftrightarrow> bit ?v 0"
    using varint_first by blast
  have even: "\<not> bit ?v 0"
    by (simp only: bit_of_nat_iff bit_0) simp
  have "2 * z < 2 ^ 64"
    using assms by simp
  then have "(ucast ?v :: u32) = word_of_nat (2 * z)"
    by (simp only: unsigned_of_nat) (simp add: take_bit_nat_eq_self)
  moreover have "unat (drop_bit 1 (word_of_nat (2 * z) :: u32)) = z"
    using unat_small_32 [OF assms] by (simp only: unat_half)
  ultimately have "fstGetVarint32 (varint_bytes ?v @ rest) = Some (word_of_nat (2 * z), length (varint_bytes ?v))"
    "unat (drop_bit 1 (word_of_nat (2 * z) :: u32)) = z"
    by (simp_all add: fstGetVarint32_def varint_scan_varint_bytes varint_value_varint_bytes)
  then show ?thesis
    using b even peek_first [OF b(1), of rest] by (simp only: index_entry_def index_entry2_def bind.bind_lunit if_True if_False not_True_eq_False not_False_eq_True simp_thms prod.case)
qed

lemma bits_31:
  assumes "unat (d :: u32) < 2 ^ 31" "bit d n"
  shows "n < 31"
proof -
  have "take_bit 31 d = d"
    using assms(1) by (simp add: word_unat_eq_iff unsigned_take_bit_eq take_bit_nat_eq_self)
  then show ?thesis
    using assms(2) by (metis bit_take_bit_iff)
qed

lemma position_value:
  assumes "unat (d :: u32) < 2 ^ 31"
  shows "signed_drop_bit 1 (ucast (push_bit 1 d OR 1) :: u64) = ucast d"
    "bit (ucast (push_bit 1 d OR 1) :: u64) 0"
proof -
  show "signed_drop_bit 1 (ucast (push_bit 1 d OR 1) :: u64) = ucast d"
  proof (rule bit_word_eqI)
    fix n
    assume "n < LENGTH(64)"
    then show "bit (signed_drop_bit 1 (ucast (push_bit 1 d OR 1) :: u64)) n \<longleftrightarrow> bit (ucast d :: u64) n"
      using bits_31 [OF assms, of n]
      by (auto simp: bit_simps bit_1_iff simp del: push_bit_Suc One_nat_def)
  qed
  show "bit (ucast (push_bit 1 d OR 1) :: u64) 0"
    by (simp only: bit_unsigned_iff bit_or_iff) simp
qed

lemma alias_value:
  "signed_drop_bit 1 (push_bit 1 (scast (c :: u32)) OR 1 :: u64) = scast c"
  "bit (push_bit 1 (scast c) OR 1 :: u64) 0"
proof -
  show "signed_drop_bit 1 (push_bit 1 (scast c) OR 1 :: u64) = scast c"
  proof (rule bit_word_eqI)
    fix n
    assume n: "n < LENGTH(64)"
    have s: "bit (scast c :: u64) m \<longleftrightarrow> bit c (min m 31)" if "m < 64" for m
      using that by (auto simp: bit_signed_iff min_def)
    have "bit (signed_drop_bit 1 (push_bit 1 (scast c) OR 1 :: u64)) n \<longleftrightarrow>
        bit (push_bit 1 (scast c) OR 1 :: u64) (if n < 63 then 1 + n else 63)"
      using n by (auto simp: bit_signed_drop_bit_iff)
    also have "\<dots> \<longleftrightarrow> bit (scast c :: u64) (if n < 63 then n else 62)"
      using n by (auto simp: bit_or_iff bit_push_bit_iff bit_1_iff simp del: push_bit_Suc One_nat_def)
    also have "\<dots> \<longleftrightarrow> bit (scast c :: u64) n"
      using s [of n] s [of "if n < 63 then n else 62"] n by (auto simp: min_def split: if_splits)
    finally show "bit (signed_drop_bit 1 (push_bit 1 (scast c) OR 1 :: u64)) n \<longleftrightarrow> bit (scast c :: u64) n" .
  qed
  show "bit (push_bit 1 (scast c) OR 1 :: u64) 0"
    by (simp only: bit_or_iff) simp
qed

lemma read_signed:
  assumes "bit v 0"
  shows "index_entry FST_BL_VCDATA_DYN_ALIAS2 (svarint_bytes v @ rest) st =
    map_option (\<lambda>s. (s, length (svarint_bytes v)))
      (let shval = signed_drop_bit 1 v in
       if sint shval > 0 then index_chain shval st
       else if sint shval < 0 then index_alias (ucast shval) (st\<lparr>ct_prev_alias := ucast shval\<rparr>)
       else index_alias (ct_prev_alias st) st)"
proof -
  obtain b bs where b: "svarint_bytes v = b # bs" "b AND 1 \<noteq> 0 \<longleftrightarrow> bit v 0"
    using svarint_first by blast
  have "peek (svarint_bytes v @ rest) 0 = Some b" "b AND 1 \<noteq> 0"
    using b assms by simp_all
  then show ?thesis
    by (simp only: index_entry_def index_entry2_def bind.bind_lunit if_True svarint_get prod.case Let_def simp_thms)
qed

lemma sint_small_64:
  assumes "uint (w :: u64) = int n" "n < 2 ^ 31"
  shows "sint w = int n"
  unfolding sint_uint assms(1) using assms(2) by (intro signed_take_bit_int_eq_self) simp_all

lemma read_position:
  assumes "unat pp < unat c" "\<not> is_alias c"
  shows "index_entry FST_BL_VCDATA_DYN_ALIAS2 (svarint_bytes (ucast (push_bit 1 (c - pp) OR 1)) @ rest) st =
    map_option (\<lambda>s. (s, length (svarint_bytes (ucast (push_bit 1 (c - pp) OR 1))))) (index_chain (ucast (c - pp)) st)"
proof -
  have d: "unat (c - pp) = unat c - unat pp"
    using assms(1) by (simp add: unat_sub word_le_nat_alt)
  have small: "unat (c - pp) < 2 ^ 31"
    using d not_alias_small [OF assms(2)] by simp
  have u: "uint (ucast (c - pp) :: u64) = int (unat (c - pp))"
    by (simp only: uint_nat unat_ucast_64)
  then have "sint (ucast (c - pp) :: u64) = int (unat (c - pp))"
    using small sint_small_64 by metis
  then have "sint (ucast (c - pp) :: u64) > 0"
    using d assms(1) by (metis of_nat_0_less_iff zero_less_diff)
  then show ?thesis
    unfolding read_signed [OF position_value(2) [OF small]] position_value(1) [OF small] Let_def by simp
qed

lemma read_alias:
  assumes "is_alias c"
  shows "index_entry FST_BL_VCDATA_DYN_ALIAS2 (svarint_bytes (push_bit 1 (scast c) OR 1) @ rest) st =
    map_option (\<lambda>s. (s, length (svarint_bytes (push_bit 1 (scast c) OR 1)))) (index_alias c (st\<lparr>ct_prev_alias := c\<rparr>))"
proof -
  have "sint (scast c :: u64) < 0"
    using assms bit_last_iff [of "scast c :: u64"] by (simp add: is_alias_bit bit_signed_iff)
  moreover have "(ucast (scast c :: u64) :: u32) = c"
    by (auto intro!: bit_word_eqI simp: bit_simps)
  ultimately show ?thesis
    unfolding read_signed [OF alias_value(2)] alias_value(1) Let_def by simp
qed

lemma read_same_alias:
  "index_entry FST_BL_VCDATA_DYN_ALIAS2 (svarint_bytes 1 @ rest) st =
    map_option (\<lambda>s. (s, length (svarint_bytes 1))) (index_alias (ct_prev_alias st) st)"
proof -
  have "signed_drop_bit 1 (1 :: u64) = 0"
    by code_simp
  then show ?thesis
    using read_signed [of 1 rest st] by simp
qed

section \<open>The whole index\<close>

lemma index_zeros_Suc: "index_zeros (z + 1) st = Option.bind (index_zeros z st) (index_zeros 1)"
proof (induction z arbitrary: st)
  case (Suc z)
  have "index_zeros (Suc z + 1) st = Option.bind (set_chain 0 st) (\<lambda>st. index_zeros (z + 1) (st\<lparr>ct_idx := ct_idx st + 1\<rparr>))"
    by simp
  then show ?case
    unfolding Suc by (simp only: index_zeros.simps Option.bind_assoc)
qed simp

lemma set_chain_SomeD: "set_chain v st = Some st1 \<Longrightarrow> st1 = st\<lparr>ct_table := (ct_table st)[ct_idx st := v]\<rparr> \<and> ct_idx st < length (ct_table st)"
  by (auto simp: set_chain_def split: if_splits)

lemma set_length_SomeD: "set_length i v st = Some st1 \<Longrightarrow> st1 = st\<lparr>ct_lengths := (ct_lengths st)[i := v]\<rparr> \<and> i < length (ct_lengths st)"
  by (auto simp: set_length_def split: if_splits)

lemma index_zeros_keeps: "index_zeros z st = Some st1 \<Longrightarrow> ct_prev_alias st1 = ct_prev_alias st \<and> ct_pval st1 = ct_pval st"
  by (induction z arbitrary: st) (force simp: bind_eq_Some_conv dest: set_chain_SomeD)+

lemma index_alias_keeps: "index_alias c st = Some st1 \<Longrightarrow> ct_prev_alias st1 = ct_prev_alias st \<and> ct_pval st1 = ct_pval st"
  by (auto simp: index_alias_def bind_eq_Some_conv dest!: set_chain_SomeD set_length_SomeD)

lemma index_chain_keeps: "index_chain d st = Some st1 \<Longrightarrow> ct_prev_alias st1 = ct_prev_alias st \<and> ct_pval st1 = ct_pval st + d"
  by (auto simp: index_chain_def Let_def bind_eq_Some_conv split: if_splits dest!: set_chain_SomeD set_length_SomeD)

lemma ucast_diff_31:
  assumes "unat pp < unat (c :: u32)"
  shows "(ucast (c - pp) :: u64) = ucast c - ucast pp"
proof -
  have "unat (ucast c - ucast pp :: u64) = unat c - unat pp"
    using assms by (simp add: unat_sub word_le_nat_alt unat_ucast_64)
  moreover have "unat (ucast (c - pp) :: u64) = unat c - unat pp"
    using assms by (simp add: unat_sub word_le_nat_alt unat_ucast_64)
  ultimately show ?thesis
    by (simp add: word_unat_eq_iff)
qed

lemma read_end_zeros:
  assumes "2 * z < 2 ^ 32"
  shows "read_index0 (end_zeros z @ rest) st = Option.bind (index_zeros z st) (read_index0 rest)"
  using read_index0_entry [OF read_zeros [OF assms], of rest st] by (cases "z = 0") (simp_all add: end_zeros_def)

lemma read_index0_Nil: "read_index0 [] = Some"
  by (simp add: fun_eq_iff read_index0_def)

lemma read_chain_index:
  assumes "2 * (z + length vms) < 2 ^ 32" "positions_grow (map vp_chain vms) pp"
    and "ct_prev_alias st = pa" "ct_pval st = ucast pp"
  shows "read_index0 (chain_index vms z pa pp) st = Option.bind (index_zeros z st) (apply_entries (map vp_chain vms))"
  using assms
proof (induction vms arbitrary: z pa pp st)
  case Nil
  then show ?case
    using read_end_zeros [of z "[]" st] by (simp add: read_index0_Nil fun_eq_iff)
next
  case (Cons vm vms)
  let ?c = "vp_chain vm"
  show ?case
  proof (cases "?c = 0")
    case True
    have "read_index0 (chain_index vms (z + 1) pa pp) st = Option.bind (index_zeros (z + 1) st) (apply_entries (map vp_chain vms))"
      using Cons.prems True by (intro Cons.IH) (simp_all add: is_chain_def)
    then show ?thesis
      unfolding index_zeros_Suc using True by (simp add: apply_entry_def Option.bind_assoc fun_eq_iff)
  next
    case False
    define e pa1 pp1 where "e = (if is_alias ?c then if ?c \<noteq> pa then svarint_bytes (push_bit 1 (scast ?c) OR 1) else svarint_bytes 1
        else svarint_bytes (ucast (push_bit 1 (?c - pp) OR 1)))"
      and "pa1 = (if is_alias ?c then ?c else pa)" and "pp1 = (if is_alias ?c then pp else ?c)"
    have ct: "chain_index (vm # vms) z pa pp = end_zeros z @ e @ chain_index vms 0 pa1 pp1"
      using False by (simp add: e_def pa1_def pp1_def is_alias_def Let_def)
    have entry: "read_index0 (e @ chain_index vms 0 pa1 pp1) st1 =
        Option.bind (apply_entry ?c st1) (apply_entries (map vp_chain vms))"
      if st1: "ct_prev_alias st1 = pa" "ct_pval st1 = ucast pp" for st1
    proof -
      have entry: "index_entry FST_BL_VCDATA_DYN_ALIAS2 (e @ chain_index vms 0 pa1 pp1) st1 =
          map_option (\<lambda>s. (s, length e)) (apply_entry ?c st1)"
      proof (cases "is_alias ?c")
        case True
        have "st1\<lparr>ct_prev_alias := ?c\<rparr> = st1" if "?c = pa"
          using that st1(1) by simp
        then show ?thesis
          using True False st1(1)
          by (auto simp: e_def apply_entry_def read_alias read_same_alias simp del: push_bit_Suc One_nat_def)
      next
        case chain: False
        then have "unat pp < unat ?c"
          using Cons.prems(2) False by (simp add: is_chain_def)
        then show ?thesis
          using chain False st1(2) by (simp add: e_def apply_entry_def read_position ucast_diff_31 del: push_bit_Suc One_nat_def)
      qed
      have ne: "e \<noteq> []"
        by (simp add: e_def svarint_nonempty del: push_bit_Suc One_nat_def)
      have tail: "read_index0 (chain_index vms 0 pa1 pp1) st2 = apply_entries (map vp_chain vms) st2"
        if "apply_entry ?c st1 = Some st2" for st2
      proof -
        have "ct_prev_alias st2 = pa1" "ct_pval st2 = ucast pp1"
          using that False st1 by (auto simp: apply_entry_def pa1_def pp1_def split: if_splits
              dest!: index_alias_keeps index_chain_keeps)
        moreover have "positions_grow (map vp_chain vms) pp1" "2 * (0 + length vms) < 2 ^ 32"
          using Cons.prems(1,2) False by (simp_all add: pp1_def is_chain_def split: if_splits)
        ultimately show ?thesis
          using Cons.IH [of 0 pp1 st2 pa1] by simp
      qed
      show ?thesis
        unfolding read_index0_entry [OF entry ne] using tail by (cases "apply_entry ?c st1") simp_all
    qed
    have "2 * z < 2 ^ 32"
      using Cons.prems(1) by simp
    then have "read_index0 (chain_index (vm # vms) z pa pp) st =
        Option.bind (index_zeros z st) (read_index0 (e @ chain_index vms 0 pa1 pp1))"
      unfolding ct by (rule read_end_zeros)
    then show ?thesis
      using entry index_zeros_keeps Cons.prems(3,4) by (cases "index_zeros z st") (auto simp: fun_eq_iff)
  qed
qed

section \<open>The table\<close>

definition chains_before :: "u32 list \<Rightarrow> bool" where
  "chains_before cs \<longleftrightarrow> (\<forall>j < length cs. is_alias (cs ! j) \<longrightarrow> (\<exists>k < j. is_chain (cs ! k)))"

definition next_chain :: "u32 list \<Rightarrow> nat \<Rightarrow> nat \<Rightarrow> bool" where
  "next_chain cs j k \<longleftrightarrow> j < k \<and> k < length cs \<and> is_chain (cs ! j) \<and> is_chain (cs ! k) \<and>
     (\<forall>m. j < m \<and> m < k \<longrightarrow> \<not> is_chain (cs ! m))"

definition last_chain :: "u32 list \<Rightarrow> nat \<Rightarrow> bool" where
  "last_chain cs j \<longleftrightarrow> j < length cs \<and> is_chain (cs ! j) \<and> (\<forall>m. j < m \<and> m < length cs \<longrightarrow> \<not> is_chain (cs ! m))"

definition no_chain :: "u32 list \<Rightarrow> bool" where
  "no_chain cs \<longleftrightarrow> (\<forall>m < length cs. \<not> is_chain (cs ! m))"

text \<open>The state after the entries \<open>cs\<close>, from new arrays of the size \<open>n\<close>.\<close>

definition table_entries :: "u32 list \<Rightarrow> u64 list \<Rightarrow> bool" where
  "table_entries cs tab \<longleftrightarrow>
     (\<forall>j < length tab. tab ! j = (if j < length cs \<and> is_chain (cs ! j) then ucast (cs ! j) else 0))"

definition length_entries :: "u32 list \<Rightarrow> u32 list \<Rightarrow> bool" where
  "length_entries cs lens \<longleftrightarrow>
     (\<forall>j < length cs. is_alias (cs ! j) \<longrightarrow> lens ! j = cs ! j) \<and>
     (\<forall>j k. next_chain cs j k \<longrightarrow> lens ! j = cs ! k - cs ! j) \<and>
     (\<forall>j < length lens. length cs \<le> j \<or> cs ! j = 0 \<longrightarrow> \<not> is_alias (lens ! j))"

definition indexed :: "nat \<Rightarrow> u32 list \<Rightarrow> chain_state \<Rightarrow> bool" where
  "indexed n cs st \<longleftrightarrow>
     ct_idx st = length cs \<and> length (ct_table st) = n \<and> length (ct_lengths st) = n \<and>
     table_entries cs (ct_table st) \<and> length_entries cs (ct_lengths st) \<and>
     (\<forall>j. last_chain cs j \<longrightarrow> ct_pidx st = j \<and> ct_pval st = ucast (cs ! j)) \<and>
     (no_chain cs \<longrightarrow> ct_pidx st = 0 \<and> ct_pval st = 0)"

lemma last_chain_exists: "no_chain cs \<or> (\<exists>j. last_chain cs j)"
proof (cases "no_chain cs")
  case False
  let ?P = "\<lambda>j. j < length cs \<and> is_chain (cs ! j)"
  obtain j where j: "?P j" "\<forall>m. ?P m \<longrightarrow> m \<le> j"
    using False Nat.ex_has_greatest_nat [of ?P _ "length cs"] unfolding no_chain_def by (metis less_imp_le)
  then show ?thesis
    by (metis last_chain_def not_less)
qed simp

lemma next_chain_snoc: "next_chain (cs @ [c]) j k \<longleftrightarrow> next_chain cs j k \<or> k = length cs \<and> is_chain c \<and> last_chain cs j"
proof -
  have old: "(cs @ [c]) ! m = cs ! m" if "m < length cs" for m
    using that by (simp add: nth_append)
  consider "k < length cs" | "k = length cs" | "length cs < k"
    by linarith
  then show ?thesis
  proof cases
    case 1
    then have "(cs @ [c]) ! k = cs ! k" "j < k \<Longrightarrow> (cs @ [c]) ! j = cs ! j" "\<And>m. m < k \<Longrightarrow> (cs @ [c]) ! m = cs ! m"
      using old by simp_all
    then show ?thesis
      using 1 unfolding next_chain_def by auto
  next
    case 2
    then show ?thesis
      using old unfolding next_chain_def last_chain_def by auto
  next
    case 3
    then show ?thesis
      by (simp add: next_chain_def)
  qed
qed

lemma last_chain_snoc: "last_chain (cs @ [c]) j \<longleftrightarrow> (if is_chain c then j = length cs else last_chain cs j)"
proof -
  have old: "(cs @ [c]) ! m = cs ! m" if "m < length cs" for m
    using that by (simp add: nth_append)
  consider "j < length cs" | "j = length cs" | "length cs < j"
    by linarith
  then show ?thesis
  proof cases
    case 1
    have "(\<forall>m. j < m \<and> m < Suc (length cs) \<longrightarrow> \<not> is_chain ((cs @ [c]) ! m)) \<longleftrightarrow>
        \<not> is_chain c \<and> (\<forall>m. j < m \<and> m < length cs \<longrightarrow> \<not> is_chain (cs ! m))"
      using 1 old by (metis less_Suc_eq nth_append_length)
    then show ?thesis
      using 1 old by (auto simp: last_chain_def)
  next
    case 2
    have "\<forall>m. length cs < m \<and> m < Suc (length cs) \<longrightarrow> \<not> is_chain ((cs @ [c]) ! m)"
      by auto
    then show ?thesis
      using 2 by (simp add: last_chain_def)
  next
    case 3
    then show ?thesis
      by (simp add: last_chain_def)
  qed
qed

lemma no_chain_snoc: "no_chain (cs @ [c]) \<longleftrightarrow> no_chain cs \<and> \<not> is_chain c"
proof -
  have "(\<forall>m < Suc (length cs). \<not> is_chain ((cs @ [c]) ! m)) \<longleftrightarrow> (\<forall>m < length cs. \<not> is_chain (cs ! m)) \<and> \<not> is_chain c"
    by (simp add: less_Suc_eq all_conj_distrib nth_append imp_disjL cong: imp_cong)
  then show ?thesis
    by (simp add: no_chain_def)
qed

lemma next_chain_less: "next_chain cs j k \<Longrightarrow> j < length cs \<and> k < length cs"
  by (simp add: next_chain_def)

lemma is_chain_unsigned: "is_chain c \<Longrightarrow> \<not> is_alias c \<and> c \<noteq> 0"
  by (simp add: is_chain_def)

lemma is_chain_0 [simp]: "\<not> is_chain 0" "\<not> is_alias 0"
  by (simp_all add: is_chain_def is_alias_def)

text \<open>An entry is added.\<close>

lemma table_entries_snoc:
  assumes "table_entries cs tab" "length cs < length tab"
  shows "table_entries (cs @ [c]) (tab[length cs := (if is_chain c then ucast c else 0)])"
  unfolding table_entries_def
proof (intro allI impI)
  fix j
  assume "j < length (tab[length cs := (if is_chain c then ucast c else 0)])"
  then show "tab[length cs := (if is_chain c then ucast c else 0)] ! j =
      (if j < length (cs @ [c]) \<and> is_chain ((cs @ [c]) ! j) then ucast ((cs @ [c]) ! j) else 0)"
    using assms unfolding table_entries_def by (cases "j < length cs"; cases "j = length cs") (simp_all add: nth_append)
qed

lemma length_entries_zero: "length_entries cs lens \<Longrightarrow> length_entries (cs @ [0]) lens"
  unfolding length_entries_def by (auto simp: next_chain_snoc nth_append less_Suc_eq dest: next_chain_less)

lemma length_entries_alias:
  assumes "length_entries cs lens" "is_alias c" "length cs < length lens"
  shows "length_entries (cs @ [c]) (lens[length cs := c])"
  unfolding length_entries_def
proof (intro conjI allI impI)
  have c: "c \<noteq> 0" "\<not> is_chain c"
    using assms(2) by (auto simp: is_chain_def)
  fix j k
  show "lens[length cs := c] ! j = (cs @ [c]) ! k - (cs @ [c]) ! j" if n: "next_chain (cs @ [c]) j k"
  proof -
    have "next_chain cs j k"
      using n c by (simp add: next_chain_snoc)
    moreover from this have "j < length cs" "k < length cs"
      by (simp_all add: next_chain_def)
    ultimately show ?thesis
      using assms(1) by (simp add: length_entries_def nth_append)
  qed
  show "lens[length cs := c] ! j = (cs @ [c]) ! j" if "j < length (cs @ [c])" "is_alias ((cs @ [c]) ! j)"
    using assms that by (cases "j < length cs") (auto simp: length_entries_def nth_append less_Suc_eq)
  show "\<not> is_alias (lens[length cs := c] ! j)" if "j < length (lens[length cs := c])" "length (cs @ [c]) \<le> j \<or> (cs @ [c]) ! j = 0"
    using assms that c by (cases "j < length cs"; cases "j = length cs") (auto simp: length_entries_def nth_append)
qed

lemma indexed_zero:
  assumes "indexed n cs st" "length cs < n"
  obtains st1 where "apply_entry 0 st = Some st1" "indexed n (cs @ [0]) st1"
proof
  let ?st1 = "st\<lparr>ct_table := (ct_table st)[length cs := 0], ct_idx := length cs + 1\<rparr>"
  show "apply_entry 0 st = Some ?st1"
    using assms by (simp add: apply_entry_def set_chain_def indexed_def)
  show "indexed n (cs @ [0]) ?st1"
    using assms table_entries_snoc [of cs "ct_table st" 0] length_entries_zero unfolding indexed_def
    by (auto simp: last_chain_snoc no_chain_snoc nth_append last_chain_def)
qed

lemma indexed_alias:
  assumes "indexed n cs st" "length cs < n" "is_alias c"
  obtains st1 where "apply_entry c st = Some st1" "indexed n (cs @ [c]) st1"
proof
  let ?st1 = "st\<lparr>ct_table := (ct_table st)[length cs := 0], ct_lengths := (ct_lengths st)[length cs := c],
      ct_idx := length cs + 1, ct_prev_alias := c\<rparr>"
  have c: "c \<noteq> 0" "\<not> is_chain c"
    using assms(3) by (auto simp: is_chain_def)
  show "apply_entry c st = Some ?st1"
    using assms c by (simp add: apply_entry_def index_alias_def set_chain_def set_length_def indexed_def)
  show "indexed n (cs @ [c]) ?st1"
    using assms c table_entries_snoc [of cs "ct_table st" c] length_entries_alias unfolding indexed_def
    by (auto simp: last_chain_snoc no_chain_snoc nth_append last_chain_def)
qed

lemma ucast_diff_u32: "(ucast (ucast c - ucast d :: u64) :: u32) = c - d"
  by transfer (simp add: take_bit_diff)

lemma length_entries_chain:
  assumes lens: "length_entries cs lens" and c: "is_chain c" and before: "chains_before cs"
    and p: "last_chain cs p \<or> no_chain cs \<and> p = 0" and lens_p: "cs \<noteq> [] \<Longrightarrow> p < length lens" and l: "last_chain cs p \<Longrightarrow> l = c - cs ! p" "no_chain cs \<Longrightarrow> l = c"
  shows "length_entries (cs @ [c]) (if cs = [] then lens else lens[p := l])"
proof (cases "cs = []")
  case True
  then show ?thesis
    using lens c by (auto simp: length_entries_def next_chain_def is_chain_def)
next
  case False
  have lens_p: "p < length lens"
    using lens_p False by simp
  have p_less: "p < length cs"
    using p False by (auto simp: last_chain_def)
  have alias_p: "\<not> is_alias (cs ! p)"
  proof
    assume "is_alias (cs ! p)"
    then show False
      using p before p_less by (auto simp: last_chain_def is_chain_def chains_before_def no_chain_def)
  qed
  have "length_entries (cs @ [c]) (lens[p := l])"
    unfolding length_entries_def
  proof (intro conjI allI impI)
    fix j k
    show "lens[p := l] ! j = (cs @ [c]) ! j" if "j < length (cs @ [c])" "is_alias ((cs @ [c]) ! j)"
    proof -
      have "j < length cs" "is_alias (cs ! j)"
        using that c by (auto simp: nth_append less_Suc_eq is_chain_def split: if_splits)
      then show ?thesis
        using alias_p lens by (cases "j = p") (simp_all add: length_entries_def nth_append)
    qed
    show "lens[p := l] ! j = (cs @ [c]) ! k - (cs @ [c]) ! j" if n: "next_chain (cs @ [c]) j k"
    proof (cases "next_chain cs j k")
      case True
      then have "j < length cs" "k < length cs" "j < k" "is_chain (cs ! k)"
        by (simp_all add: next_chain_def)
      then have "p \<noteq> j"
        using p by (auto simp: last_chain_def no_chain_def)
      then show ?thesis
        using True \<open>j < length cs\<close> \<open>k < length cs\<close> lens by (simp add: length_entries_def nth_append)
    next
      case False
      then have jk: "k = length cs" "last_chain cs j"
        using n by (simp_all add: next_chain_snoc)
      have "j = p"
        using p jk(2) by (metis last_chain_def linorder_neqE_nat no_chain_def)
      then show ?thesis
        using jk l(1) p_less lens_p by (simp add: nth_append)
    qed
    show "\<not> is_alias (lens[p := l] ! j)" if "j < length (lens[p := l])" "length (cs @ [c]) \<le> j \<or> (cs @ [c]) ! j = 0"
    proof (cases "j = p")
      case True
      then have "no_chain cs"
        using p p_less that(2) by (auto simp: last_chain_def nth_append)
      then show ?thesis
        using True l(2) c that(1) by (simp add: is_chain_def)
    next
      case False
      then show ?thesis
        using that lens p_less by (cases "j < length cs") (auto simp: length_entries_def nth_append)
    qed
  qed
  then show ?thesis
    using False by simp
qed

lemma table_at:
  "table_entries cs tab \<Longrightarrow> j < length tab \<Longrightarrow> tab ! j = (if j < length cs \<and> is_chain (cs ! j) then ucast (cs ! j) else 0)"
  by (simp add: table_entries_def)

lemma indexed_chain:
  assumes st: "indexed n cs st" and n: "length cs < n" and c: "is_chain c" and before: "chains_before cs"
  obtains st1 where "apply_entry c st = Some st1" "indexed n (cs @ [c]) st1"
proof
  let ?p = "ct_pidx st" and ?k = "length cs"
  let ?tab = "(ct_table st)[?k := ucast c]"
  let ?l = "ucast (ucast c - ?tab ! ?p :: u64) :: u32"
  let ?lens = "if cs = [] then ct_lengths st else (ct_lengths st)[?p := ?l]"
  let ?st1 = "st\<lparr>ct_pval := ucast c, ct_table := ?tab, ct_lengths := ?lens, ct_pidx := ?k, ct_idx := ?k + 1\<rparr>"
  have f: "ct_idx st = ?k" "length (ct_table st) = n" "length (ct_lengths st) = n" "table_entries cs (ct_table st)"
    "length_entries cs (ct_lengths st)"
    using st by (simp_all add: indexed_def)
  have p: "last_chain cs ?p \<or> no_chain cs \<and> ?p = 0"
    using st last_chain_exists [of cs] by (auto simp: indexed_def)
  then have p_less: "cs \<noteq> [] \<Longrightarrow> ?p < ?k"
    by (auto simp: last_chain_def)
  have l: "last_chain cs ?p \<Longrightarrow> ?l = c - cs ! ?p" "no_chain cs \<Longrightarrow> cs \<noteq> [] \<Longrightarrow> ?l = c"
  proof -
    assume last: "last_chain cs ?p"
    then have "?p < ?k" "is_chain (cs ! ?p)"
      by (simp_all add: last_chain_def)
    then have "?tab ! ?p = ucast (cs ! ?p)"
      using f n table_at [OF f(4), of ?p] by simp
    then show "?l = c - cs ! ?p"
      by (simp add: ucast_diff_u32)
  next
    assume no: "no_chain cs" "cs \<noteq> []"
    then have "?p < ?k" "\<not> is_chain (cs ! ?p)"
      using p_less by (simp_all add: no_chain_def)
    then have "?tab ! ?p = ucast (0 :: u32)"
      using f n table_at [OF f(4), of ?p] by simp
    then have "?l = c - 0"
      by (simp only: ucast_diff_u32)
    then show "?l = c"
      by simp
  qed
  have "apply_entry c st = Some ?st1"
    using c n p_less f
    by (cases "cs = []") (simp_all add: apply_entry_def index_chain_def set_chain_def set_length_def is_chain_def Let_def)
  then show "apply_entry c st = Some ?st1" .
  have "length_entries (cs @ [c]) ?lens"
  proof (cases "cs = []")
    case True
    then show ?thesis
      using f(5) c by (auto simp: length_entries_def next_chain_def is_chain_def)
  next
    case False
    then show ?thesis
      using length_entries_chain [OF f(5) c before p, of ?l] p_less f(3) n l by auto
  qed
  moreover have "table_entries (cs @ [c]) ?tab"
    using table_entries_snoc [OF f(4), of c] f(2) n c by simp
  ultimately show "indexed n (cs @ [c]) ?st1"
    using f c by (auto simp: indexed_def last_chain_snoc no_chain_snoc)
qed

lemma chains_before_snoc: "chains_before (cs @ [c]) \<Longrightarrow> chains_before cs"
  unfolding chains_before_def
proof (intro allI impI)
  fix j
  assume all: "\<forall>j < length (cs @ [c]). is_alias ((cs @ [c]) ! j) \<longrightarrow> (\<exists>k < j. is_chain ((cs @ [c]) ! k))"
    and j: "j < length cs" "is_alias (cs ! j)"
  then obtain k where "k < j" "is_chain ((cs @ [c]) ! k)"
    by (metis length_append nth_append trans_less_add1)
  then show "\<exists>k < j. is_chain (cs ! k)"
    using j(1) by (auto simp: nth_append)
qed

lemma apply_entries_append: "apply_entries (cs @ ds) st = Option.bind (apply_entries cs st) (apply_entries ds)"
proof (induction cs arbitrary: st)
  case (Cons c cs)
  then show ?case
    by (cases "apply_entry c st") simp_all
qed simp

lemma apply_entries_indexed:
  assumes "indexed n [] st" "length cs \<le> n" "chains_before cs"
  shows "\<exists>st1. apply_entries cs st = Some st1 \<and> indexed n cs st1"
  using assms
proof (induction cs rule: rev_induct)
  case (snoc c cs)
  obtain st1 where 1: "apply_entries cs st = Some st1" "indexed n cs st1"
    using snoc chains_before_snoc by fastforce
  have n: "length cs < n"
    using snoc.prems(2) by simp
  have "\<exists>st2. apply_entry c st1 = Some st2 \<and> indexed n (cs @ [c]) st2"
  proof (cases "c = 0")
    case True
    then show ?thesis
      using indexed_zero [OF 1(2) n] by metis
  next
    case False
    then show ?thesis
      using indexed_alias [OF 1(2) n] indexed_chain [OF 1(2) n _ chains_before_snoc [OF snoc.prems(3)]]
      by (metis is_chain_def)
  qed
  then show ?case
    using 1(1) by (auto simp: apply_entries_append)
qed simp

section \<open>Aliases\<close>

definition alias_of :: "u32 \<Rightarrow> nat" where
  "alias_of c = unat (- c - 1)"

definition aliases_ok :: "u32 list \<Rightarrow> bool" where
  "aliases_ok cs \<longleftrightarrow> (\<forall>j < length cs. is_alias (cs ! j) \<longrightarrow> alias_of (cs ! j) < j \<and> is_chain (cs ! alias_of (cs ! j)))"

lemma aliases_before: "aliases_ok cs \<Longrightarrow> chains_before cs"
  unfolding aliases_ok_def chains_before_def by blast

text \<open>The table when all positions and the lengths are known.\<close>

definition complete :: "u32 list \<Rightarrow> chain_state \<Rightarrow> bool" where
  "complete cs st \<longleftrightarrow>
     length cs < length (ct_table st) \<and> length cs < length (ct_lengths st) \<and>
     (\<forall>j < length cs. ct_table st ! j = (if is_chain (cs ! j) then ucast (cs ! j) else 0) \<and>
        (is_alias (cs ! j) \<longrightarrow> ct_lengths st ! j = cs ! j) \<and> (cs ! j = 0 \<longrightarrow> \<not> is_alias (ct_lengths st ! j)))"

definition resolved :: "u32 list \<Rightarrow> nat \<Rightarrow> chain_state \<Rightarrow> chain_state \<Rightarrow> bool" where
  "resolved cs k st st1 \<longleftrightarrow>
     ct_idx st1 = ct_idx st \<and> length (ct_table st1) = length (ct_table st) \<and> length (ct_lengths st1) = length (ct_lengths st) \<and>
     (\<forall>j < length cs. let i = (if j < k \<and> is_alias (cs ! j) then alias_of (cs ! j) else j) in
        ct_table st1 ! j = ct_table st ! i \<and> ct_lengths st1 ! j = ct_lengths st ! i)"

lemma resolved_at:
  assumes "resolved cs k st st1" "j < length cs"
  shows "k \<le> j \<or> \<not> is_alias (cs ! j) \<Longrightarrow> ct_table st1 ! j = ct_table st ! j"
    "k \<le> j \<or> \<not> is_alias (cs ! j) \<Longrightarrow> ct_lengths st1 ! j = ct_lengths st ! j"
    "j < k \<Longrightarrow> is_alias (cs ! j) \<Longrightarrow> ct_table st1 ! j = ct_table st ! alias_of (cs ! j)"
    "j < k \<Longrightarrow> is_alias (cs ! j) \<Longrightarrow> ct_lengths st1 ! j = ct_lengths st ! alias_of (cs ! j)"
  using assms by (auto simp: resolved_def Let_def)

lemma ucast_eq_0_32: "(ucast (c :: u32) :: u64) = 0 \<longleftrightarrow> c = 0"
  by (metis unat_eq_0 unat_ucast_64)

lemma resolve_step:
  assumes st: "complete cs st" and ok: "aliases_ok cs" and k: "k < length cs" and st1: "resolved cs k st st1"
  shows "resolved cs (Suc k) st (resolve_alias k st1)"
proof -
  let ?c = "cs ! k"
  have now: "ct_table st1 ! k = ct_table st ! k" "ct_lengths st1 ! k = ct_lengths st ! k"
    using resolved_at(1,2) [OF st1 k] by simp_all
  have len: "length cs < length (ct_table st1)" "length cs < length (ct_lengths st1)"
    using st st1 by (simp_all add: complete_def resolved_def)
  have entry: "ct_table st ! k = (if is_chain ?c then ucast ?c else 0)" "is_alias ?c \<Longrightarrow> ct_lengths st ! k = ?c"
    "?c = 0 \<Longrightarrow> \<not> is_alias (ct_lengths st ! k)"
    using st k by (simp_all add: complete_def)
  show ?thesis
  proof (cases "is_alias ?c")
    case False
    have "resolve_alias k st1 = st1"
    proof (cases "?c = 0")
      case True
      then show ?thesis
        using entry(3) now by (simp add: resolve_alias_def is_alias_sint Let_def)
    next
      case chain: False
      then have "is_chain ?c"
        using False by (simp add: is_chain_def)
      then show ?thesis
        using entry(1) now chain by (simp add: resolve_alias_def Let_def ucast_eq_0_32)
    qed
    then show ?thesis
      using st1 False by (auto simp: resolved_def Let_def less_Suc_eq)
  next
    case True
    let ?v = "alias_of ?c"
    have v: "?v < k" "is_chain (cs ! ?v)"
      using ok k True by (simp_all add: aliases_ok_def)
    have "ct_table st1 ! k = 0" "ct_lengths st1 ! k = ?c"
      using entry(1,2) True now by (simp_all add: is_chain_def)
    then have res: "resolve_alias k st1 = st1\<lparr>ct_table := (ct_table st1)[k := ct_table st1 ! ?v],
        ct_lengths := (ct_lengths st1)[k := ct_lengths st1 ! ?v]\<rparr>"
      using v True by (simp add: resolve_alias_def Let_def is_alias_sint alias_of_def)
    have "ct_table st1 ! ?v = ct_table st ! ?v" "ct_lengths st1 ! ?v = ct_lengths st ! ?v"
      using resolved_at(1,2) [OF st1, of ?v] v k by (simp_all add: is_chain_def)
    then show ?thesis
      using st1 len k True unfolding res by (auto simp: resolved_def Let_def less_Suc_eq nth_list_update)
  qed
qed

lemma resolve_all:
  assumes "complete cs st" "aliases_ok cs" "k \<le> length cs"
  shows "resolved cs k st (fold resolve_alias [0..<k] st)"
  using assms(3)
proof (induction k)
  case 0
  then show ?case
    by (simp add: resolved_def)
next
  case (Suc k)
  then show ?case
    using resolve_step [OF assms(1,2)] by simp
qed

section \<open>The index is read back\<close>

definition fresh_tables :: "nat \<Rightarrow> chain_state \<Rightarrow> bool" where
  "fresh_tables n st \<longleftrightarrow> ct_table st = replicate n 0 \<and> ct_lengths st = replicate n 0 \<and> ct_pidx st = 0"

text \<open>What the table says of the signal \<open>i\<close>, whose entry is \<open>c\<close>.\<close>

definition entry_read :: "u32 list \<Rightarrow> u32 \<Rightarrow> chain_state \<Rightarrow> nat \<Rightarrow> bool" where
  "entry_read cs end_offs st i \<longleftrightarrow>
     (cs ! i = 0 \<longrightarrow> ct_table st ! i = 0) \<and>
     (is_chain (cs ! i) \<longrightarrow> ct_table st ! i = ucast (cs ! i) \<and>
        (\<forall>k. next_chain cs i k \<longrightarrow> ct_lengths st ! i = cs ! k - cs ! i) \<and>
        (last_chain cs i \<longrightarrow> ct_lengths st ! i = end_offs - cs ! i)) \<and>
     (is_alias (cs ! i) \<longrightarrow> ct_table st ! i = ct_table st ! alias_of (cs ! i) \<and>
        ct_lengths st ! i = ct_lengths st ! alias_of (cs ! i))"

lemma entry_read_resolved:
  assumes res: "resolved cs (length cs) st2 st1" and ok: "aliases_ok cs" and i: "i < length cs"
    and tab: "ct_table st2 ! i = (if is_chain (cs ! i) then ucast (cs ! i) else 0)"
    and "\<And>k. next_chain cs i k \<Longrightarrow> ct_lengths st2 ! i = cs ! k - cs ! i"
    and "last_chain cs i \<Longrightarrow> ct_lengths st2 ! i = end_offs - cs ! i"
  shows "entry_read cs end_offs st1 i"
proof (cases "is_alias (cs ! i)")
  case True
  then have t: "alias_of (cs ! i) < length cs" "\<not> is_alias (cs ! alias_of (cs ! i))"
    using ok i by (auto simp: aliases_ok_def is_chain_def)
  show ?thesis
    using True resolved_at(3,4) [OF res i] resolved_at(1,2) [OF res t(1)] t i
    by (auto simp: entry_read_def is_chain_def)
next
  case False
  then show ?thesis
    using resolved_at(1,2) [OF res i] assms(4-6) by (auto simp: entry_read_def)
qed

lemma chain_index_nonempty: "0 < z \<or> vms \<noteq> [] \<Longrightarrow> chain_index vms z pa pp \<noteq> []"
  by (induction vms z pa pp rule: chain_index.induct) (simp_all add: end_zeros_def svarint_nonempty Let_def)

lemma resolve_alias_pidx [simp]: "ct_pidx (resolve_alias i st) = ct_pidx st" "ct_idx (resolve_alias i st) = ct_idx st"
  "length (ct_table (resolve_alias i st)) = length (ct_table st)" "length (ct_lengths (resolve_alias i st)) = length (ct_lengths st)"
  by (simp_all add: resolve_alias_def Let_def)

lemma fold_resolve_pidx [simp]: "ct_pidx (fold resolve_alias is st) = ct_pidx st" "ct_idx (fold resolve_alias is st) = ct_idx st"
  "length (ct_table (fold resolve_alias is st)) = length (ct_table st)"
  "length (ct_lengths (fold resolve_alias is st)) = length (ct_lengths st)"
  by (induction "is" arbitrary: st) simp_all

text \<open>The index is there as a sequence of entries.\<close>

lemma read_index_entries:
  assumes "vms \<noteq> []" "2 * length vms < 2 ^ 32" "positions_grow (map vp_chain vms) 0" "ct_prev_alias st = 0" "ct_pval st = 0"
  shows "read_index FST_BL_VCDATA_DYN_ALIAS2 (chain_index vms 0 0 0) st = apply_entries (map vp_chain vms) st"
proof -
  have "read_index0 (chain_index vms 0 0 0) st = Option.bind (index_zeros 0 st) (apply_entries (map vp_chain vms))"
    by (rule read_chain_index) (use assms in simp_all)
  then show ?thesis
    using chain_index_nonempty assms(1) by (simp add: read_index0_def)
qed

text \<open>The table afterwards, with the signal whose length comes next.\<close>

lemma read_written_tables:
  assumes vms: "vms \<noteq> []" "2 * length vms < 2 ^ 32" and cs: "cs = map vp_chain vms" and grow: "positions_grow cs 0"
    and ok: "aliases_ok cs" and fresh: "fresh_tables (length vms + 1) st" and end_offs: "\<not> is_alias end_offs"
  shows "\<exists>st1. read_chain_table FST_BL_VCDATA_DYN_ALIAS2 (chain_index vms 0 0 0) (ucast end_offs) st = Some st1 \<and>
    ct_idx st1 = length vms \<and> (\<forall>i < length vms. entry_read cs end_offs st1 i) \<and>
    (\<forall>p. last_chain cs p \<longrightarrow> ct_pidx st1 = p) \<and> length (ct_table st1) = length vms + 1 \<and> length (ct_lengths st1) = length vms + 1"
proof -
  let ?n = "length vms + 1" and ?st0 = "st\<lparr>ct_idx := 0, ct_pval := 0, ct_prev_alias := 0\<rparr>"
  have len: "length cs = length vms"
    by (simp add: cs)
  have "indexed ?n [] ?st0"
    using fresh by (auto simp: indexed_def fresh_tables_def table_entries_def length_entries_def next_chain_def last_chain_def
        no_chain_def simp del: replicate_Suc)
  then obtain st1 where st1: "apply_entries cs ?st0 = Some st1" "indexed ?n cs st1"
    using apply_entries_indexed [of ?n ?st0 cs] aliases_before [OF ok] len by auto
  have index: "read_index FST_BL_VCDATA_DYN_ALIAS2 (chain_index vms 0 0 0) ?st0 = Some st1"
    using read_index_entries [of vms ?st0] vms grow st1(1) by (simp add: cs)
  let ?p = "ct_pidx st1" and ?tab = "(ct_table st1)[length cs := ucast end_offs]"
  let ?l = "ucast (ucast end_offs - ?tab ! ?p :: u64) :: u32"
  let ?st2 = "st1\<lparr>ct_table := ?tab, ct_lengths := (ct_lengths st1)[?p := ?l]\<rparr>"
  have f: "ct_idx st1 = length cs" "length (ct_table st1) = ?n" "length (ct_lengths st1) = ?n"
    "table_entries cs (ct_table st1)" "length_entries cs (ct_lengths st1)"
    using st1(2) by (simp_all add: indexed_def)
  have p: "last_chain cs ?p \<or> no_chain cs \<and> ?p = 0"
    using st1(2) last_chain_exists [of cs] by (auto simp: indexed_def)
  have p_less: "?p < length cs"
    using p vms(1) len by (auto simp: last_chain_def)
  have tab: "?tab ! j = (if is_chain (cs ! j) then ucast (cs ! j) else 0)" if "j < length cs" for j
    using that f(2) len table_at [OF f(4), of j] by simp
  have l: "is_chain (cs ! ?p) \<Longrightarrow> ?l = end_offs - cs ! ?p" "\<not> is_chain (cs ! ?p) \<Longrightarrow> ?l = end_offs"
    using tab [OF p_less] ucast_diff_u32 [of end_offs "cs ! ?p"] ucast_diff_u32 [of end_offs 0] by simp_all
  have not_alias: "\<not> is_alias (cs ! ?p)"
    using p aliases_before [OF ok] p_less by (auto simp: last_chain_def is_chain_def chains_before_def no_chain_def)
  have st2: "complete cs ?st2"
    using f len p_less l(2) not_alias end_offs tab
    by (auto simp: complete_def length_entries_def nth_list_update)
  have res: "resolved cs (length cs) ?st2 (fold resolve_alias [0..<length cs] ?st2)"
    by (rule resolve_all [OF st2 ok]) simp
  have "entry_read cs end_offs (fold resolve_alias [0..<length cs] ?st2) i" if i: "i < length vms" for i
  proof -
    have i': "i < length cs"
      using i len by simp
    have "ct_table ?st2 ! i = (if is_chain (cs ! i) then ucast (cs ! i) else 0)"
      using tab [OF i'] by simp
    moreover have "ct_lengths ?st2 ! i = cs ! k - cs ! i" if "next_chain cs i k" for k
    proof -
      have "?p \<noteq> i"
        using p that by (auto simp: last_chain_def next_chain_def no_chain_def)
      then show ?thesis
        using f(5) that by (simp add: length_entries_def)
    qed
    moreover have "ct_lengths ?st2 ! i = end_offs - cs ! i" if last: "last_chain cs i"
    proof -
      have "?p = i" "is_chain (cs ! i)"
        using last st1(2) by (simp_all add: indexed_def last_chain_def)
      then show ?thesis
        using l(1) f(3) i by simp
    qed
    ultimately show ?thesis
      by (intro entry_read_resolved [OF res ok i'])
  qed
  moreover have "read_chain_table FST_BL_VCDATA_DYN_ALIAS2 (chain_index vms 0 0 0) (ucast end_offs) st =
      Some (fold resolve_alias [0..<length cs] ?st2)"
    using index f len p_less by (simp add: read_chain_table_def set_chain_def set_length_def)
  moreover have "ct_idx (fold resolve_alias [0..<length cs] ?st2) = length vms"
    using res f(1) len by (simp add: resolved_def)
  moreover have "\<forall>p. last_chain cs p \<longrightarrow> ct_pidx (fold resolve_alias [0..<length cs] ?st2) = p"
    using st1(2) by (simp add: indexed_def)
  moreover have "length (ct_table (fold resolve_alias [0..<length cs] ?st2)) = length vms + 1"
    "length (ct_lengths (fold resolve_alias [0..<length cs] ?st2)) = length vms + 1"
    using f(2,3) by simp_all
  ultimately show ?thesis
    by blast
qed

lemma read_written_index:
  assumes "vms \<noteq> []" "2 * length vms < 2 ^ 32" "cs = map vp_chain vms" "positions_grow cs 0"
    and "aliases_ok cs" "fresh_tables (length vms + 1) st" "\<not> is_alias end_offs"
  shows "\<exists>st1. read_chain_table FST_BL_VCDATA_DYN_ALIAS2 (chain_index vms 0 0 0) (ucast end_offs) st = Some st1 \<and>
    ct_idx st1 = length vms \<and> (\<forall>i < length vms. entry_read cs end_offs st1 i)"
  using read_written_tables [OF assms] by blast

end
