(* ===== verification/Fst_Section.thy ===== *)
theory Fst_Section
  imports Fst_Index
begin

text \<open>
  What a flush writes: the chains of the signals, every chain once, the index of their
  positions, the table of times, and the header of the section completed.
\<close>

section \<open>The chains of a section\<close>

text \<open>A stored chain: its length before compression, and the bytes.\<close>

definition chunk :: "nat \<times> byte list \<Rightarrow> byte list" where
  "chunk ch = varint_bytes (word_of_nat (fst ch) :: u64) @ snd ch"

definition stored_at :: "byte list \<Rightarrow> u32 \<Rightarrow> nat \<times> byte list \<Rightarrow> bool" where
  "stored_at area c ch \<longleftrightarrow> slice area (unat c) (length (chunk ch)) = Some (chunk ch)"

text \<open>
  \<open>P\<close> is what there is to store for a signal, \<open>cs\<close> the entries of the index, \<open>area\<close> the
  bytes from the one that names the compression on.
\<close>

definition entry_ok :: "(nat \<Rightarrow> (nat \<times> byte list) option) \<Rightarrow> u32 list \<Rightarrow> byte list \<Rightarrow> nat \<Rightarrow> bool" where
  "entry_ok P cs area j \<longleftrightarrow>
     (case P j of
        None \<Rightarrow> cs ! j = 0
      | Some ch \<Rightarrow>
          is_chain (cs ! j) \<and> stored_at area (cs ! j) ch \<or>
          is_alias (cs ! j) \<and> alias_of (cs ! j) < j \<and> is_chain (cs ! alias_of (cs ! j)) \<and>
            (\<exists>tag. P (alias_of (cs ! j)) = Some (tag, snd ch)))"

definition chunk_of :: "(nat \<Rightarrow> (nat \<times> byte list) option) \<Rightarrow> nat \<Rightarrow> nat" where
  "chunk_of P j = length (chunk (the (P j)))"

definition layout :: "(nat \<Rightarrow> (nat \<times> byte list) option) \<Rightarrow> u32 list \<Rightarrow> byte list \<Rightarrow> bool" where
  "layout P cs area \<longleftrightarrow>
     (\<forall>j < length cs. entry_ok P cs area j) \<and>
     (\<forall>j k. next_chain cs j k \<longrightarrow> unat (cs ! k) = unat (cs ! j) + chunk_of P j) \<and>
     (\<forall>j. last_chain cs j \<longrightarrow> length area = unat (cs ! j) + chunk_of P j) \<and>
     (no_chain cs \<longrightarrow> length area = 1) \<and> positions_grow cs 0"

fun last_pos :: "u32 list \<Rightarrow> u32 \<Rightarrow> u32" where
  "last_pos [] pp = pp"
| "last_pos (c # cs) pp = last_pos cs (if is_chain c then c else pp)"

lemma positions_grow_snoc:
  "positions_grow (cs @ [c]) pp \<longleftrightarrow> positions_grow cs pp \<and> (is_chain c \<longrightarrow> unat (last_pos cs pp) < unat c)"
  by (induction cs arbitrary: pp) auto

lemma last_pos_snoc: "last_pos (cs @ [c]) pp = (if is_chain c then c else last_pos cs pp)"
  by (induction cs arbitrary: pp) auto

lemma last_pos_chain: "(last_chain cs j \<longrightarrow> last_pos cs pp = cs ! j) \<and> (no_chain cs \<longrightarrow> last_pos cs pp = pp)"
proof (induction cs arbitrary: j rule: rev_induct)
  case Nil
  then show ?case
    by (simp add: last_chain_def)
next
  case (snoc c cs)
  have "j < length cs" if "last_chain cs j"
    using that by (simp add: last_chain_def)
  then show ?case
    using snoc [of j] by (auto simp: last_chain_snoc no_chain_snoc last_pos_snoc nth_append)
qed

lemma chunk_pos: "0 < length (chunk ch)"
  by (simp add: chunk_def)

lemma stored_at_append: "stored_at area c ch \<Longrightarrow> stored_at (area @ rest) c ch"
  unfolding stored_at_def by (rule slice_append_rest)

lemma entry_ok_old:
  assumes "entry_ok P cs area j" "j < length cs"
  shows "entry_ok P (cs @ [c]) (area @ rest) j"
  using assms stored_at_append by (fastforce simp: entry_ok_def nth_append split: option.splits)

lemma entry_ok_rest: "entry_ok P cs area j \<Longrightarrow> j < length cs \<Longrightarrow> entry_ok P (cs @ [c]) area j"
  using entry_ok_old [of P cs area j c "[]"] by simp

lemma last_chain_less: "last_chain cs j \<Longrightarrow> j < length cs"
  by (simp add: last_chain_def)

text \<open>A signal without changes, one with the chain of another, one with a new chain.\<close>

lemma layout_old:
  assumes lay: "layout P cs area" and c: "\<not> is_chain c" and e: "entry_ok P (cs @ [c]) area (length cs)"
  shows "layout P (cs @ [c]) area"
proof -
  have "\<forall>j < length (cs @ [c]). entry_ok P (cs @ [c]) area j"
    using lay e entry_ok_rest by (auto simp: layout_def less_Suc_eq)
  moreover have "unat ((cs @ [c]) ! k) = unat ((cs @ [c]) ! j) + chunk_of P j" if "next_chain (cs @ [c]) j k" for j k
    using lay that c next_chain_less [of cs j k] by (auto simp: layout_def next_chain_snoc nth_append)
  moreover have "length area = unat ((cs @ [c]) ! j) + chunk_of P j" if "last_chain (cs @ [c]) j" for j
    using lay that c last_chain_less [of cs j] by (auto simp: layout_def last_chain_snoc nth_append)
  ultimately show ?thesis
    using lay c by (auto simp: layout_def no_chain_snoc positions_grow_snoc)
qed

lemma layout_none: "layout P cs area \<Longrightarrow> P (length cs) = None \<Longrightarrow> layout P (cs @ [0]) area"
  by (rule layout_old) (simp_all add: entry_ok_def)

lemma alias_word:
  assumes "j < 2 ^ 31"
  shows "is_alias (- word_of_nat (j + 1))" "alias_of (- word_of_nat (j + 1)) = j"
proof -
  have "(- (- word_of_nat (j + 1)) - 1 :: u32) = word_of_nat j"
    by simp
  moreover have "unat (word_of_nat j :: u32) = j"
    using assms by (intro unat_small_32) simp
  ultimately show "alias_of (- word_of_nat (j + 1)) = j"
    by (simp only: alias_of_def)
  show "is_alias (- word_of_nat (j + 1))"
  proof (rule ccontr)
    assume "\<not> is_alias (- word_of_nat (j + 1))"
    then have "unat (- word_of_nat (j + 1) :: u32) < 2 ^ 31"
      by (rule not_alias_small)
    moreover have w: "unat (word_of_nat (j + 1) :: u32) = j + 1"
      using assms by (intro unat_small_32) simp
    ultimately have "unat (- word_of_nat (j + 1) + word_of_nat (j + 1) :: u32) = unat (- word_of_nat (j + 1) :: u32) + (j + 1)"
      using assms by (simp only: unat_plus_if' w) simp
    then show False
      by (simp only: left_minus unsigned_0)
  qed
qed

lemma layout_alias:
  assumes "layout P cs area" "P (length cs) = Some (tag, key)" "j < length cs" "is_chain (cs ! j)" "P j = Some (tag1, key)"
    and "length cs < 2 ^ 31"
  shows "layout P (cs @ [- word_of_nat (j + 1)]) area"
proof (rule layout_old [OF assms(1)])
  have j: "j < 2 ^ 31"
    using assms(3,6) by simp
  note a = alias_word [OF j]
  show "\<not> is_chain (- word_of_nat (j + 1))"
    using a(1) by (simp add: is_chain_def)
  show "entry_ok P (cs @ [- word_of_nat (j + 1)]) area (length cs)"
    using assms(2-5) a unfolding entry_ok_def by (simp add: nth_append del: of_nat_add of_nat_Suc minus_add_distrib)
qed

lemma not_alias_of_small: "n < 2 ^ 31 \<Longrightarrow> \<not> is_alias (word_of_nat n)"
proof
  assume n: "n < 2 ^ 31" and a: "is_alias (word_of_nat n)"
  have "unat (word_of_nat n :: u32) = n"
    using n by (intro unat_small_32) simp
  then have "\<not> bit (word_of_nat n :: u32) 31"
    using bits_31 [of "word_of_nat n" 31] n by auto
  then show False
    using a by (simp only: is_alias_bit)
qed

lemma layout_store:
  assumes lay: "layout P cs area" and p: "P (length cs) = Some ch" and small: "length area < 2 ^ 31"
  shows "layout P (cs @ [word_of_nat (length area)]) (area @ chunk ch) \<and> is_chain (word_of_nat (length area))"
proof -
  let ?c = "word_of_nat (length area) :: u32"
  have c: "unat ?c = length area" "\<not> is_alias ?c"
    using small not_alias_of_small unat_small_32 by simp_all
  have pos: "unat (last_pos cs 0) < length area"
  proof -
    consider j where "last_chain cs j" | "no_chain cs"
      using last_chain_exists by blast
    then show ?thesis
    proof cases
      case 1
      then have "length area = unat (cs ! j) + chunk_of P j" "j < length cs" "is_chain (cs ! j)"
        using lay by (auto simp: layout_def last_chain_def)
      then show ?thesis
        using 1 last_pos_chain [of cs j 0] chunk_pos by (simp add: chunk_of_def)
    next
      case 2
      then show ?thesis
        using lay last_pos_chain [of cs 0 0] by (simp add: layout_def)
    qed
  qed
  have chain: "is_chain ?c"
    using c pos by (auto simp: is_chain_def)
  have "entry_ok P (cs @ [?c]) (area @ chunk ch) (length cs)"
    using p chain slice_start [of area "chunk ch" "[]"] by (simp add: entry_ok_def stored_at_def c)
  then have "\<forall>j < length (cs @ [?c]). entry_ok P (cs @ [?c]) (area @ chunk ch) j"
    using lay entry_ok_old by (auto simp: layout_def less_Suc_eq)
  moreover have "unat ((cs @ [?c]) ! k) = unat ((cs @ [?c]) ! j) + chunk_of P j" if "next_chain (cs @ [?c]) j k" for j k
    using lay that c(1) next_chain_less [of cs j k] last_chain_less [of cs j]
    by (auto simp: layout_def next_chain_snoc nth_append)
  moreover have "length (area @ chunk ch) = unat ((cs @ [?c]) ! j) + chunk_of P j" if "last_chain (cs @ [?c]) j" for j
    using that chain c(1) p by (simp add: last_chain_snoc chunk_of_def)
  moreover have "positions_grow (cs @ [?c]) 0"
    using lay pos c(1) by (simp add: layout_def positions_grow_snoc)
  ultimately show ?thesis
    using chain by (auto simp: layout_def no_chain_snoc)
qed

section \<open>Appending to the file\<close>

definition appended :: "byte list \<Rightarrow> fstWriterContext \<Rightarrow> fstWriterContext" where
  "appended d xc = xc\<lparr>xc_handle := \<lparr>f_data = d, f_pos = length d\<rparr>\<rparr>"

lemma put_appended: "put bs (appended d xc) = appended (d @ bs) xc"
  by (simp add: put_def appended_def f_write_def)

lemma put_varint_appended: "put_varint v (appended d xc) = appended (d @ varint_bytes v) xc"
  by (simp add: put_varint_def put_appended)

lemma put64_appended: "put64 v (appended d xc) = appended (d @ be_bytes 8 v) xc"
  by (simp add: put64_def put_appended)

lemma appended_handle [simp]: "f_pos (xc_handle (appended d xc)) = length d" "f_data (xc_handle (appended d xc)) = d"
  by (simp_all add: appended_def)

section \<open>Storing the chains\<close>

text \<open>\<open>W\<close> is the chain of every signal with changes.\<close>

definition chain_length :: "(nat \<Rightarrow> byte list option) \<Rightarrow> nat \<Rightarrow> nat" where
  "chain_length W j = (case W j of None \<Rightarrow> 0 | Some wr \<Rightarrow> length wr)"

definition chunk_length :: "(nat \<Rightarrow> (nat \<times> byte list) option) \<Rightarrow> nat \<Rightarrow> nat" where
  "chunk_length P j = (case P j of None \<Rightarrow> 0 | Some ch \<Rightarrow> length (chunk ch))"

definition packed :: "packers \<Rightarrow> fstWriterContext \<Rightarrow> (nat \<Rightarrow> byte list option) \<Rightarrow> nat \<Rightarrow> (nat \<times> byte list) option" where
  "packed pk xc W j = map_option (pack_chain pk xc) (W j)"

definition has_chain :: "fstWriterContext \<Rightarrow> (nat \<Rightarrow> byte list option) \<Rightarrow> nat \<Rightarrow> bool" where
  "has_chain xc W i \<longleftrightarrow>
     (let vm = valpos_mem xc ! i in
      vp_chain vm = 0 \<and> W i = None \<or>
      vp_chain vm \<noteq> 0 \<and> signal_chain vm (vchg_mem xc) (unat (vchg_siz xc)) = W i \<and> W i \<noteq> None \<and>
      (\<forall>cv. length cv = length (curval_mem xc) \<longrightarrow>
         (\<exists>cv1. checkpoint vm (vchg_mem xc) cv = Some cv1 \<and> length cv1 = length cv)))"

text \<open>The table of the keys knows signals with a chain of their own only.\<close>

definition keys_known :: "(byte list \<Rightarrow> u64 option) \<Rightarrow> (nat \<Rightarrow> (nat \<times> byte list) option) \<Rightarrow> u32 list \<Rightarrow> bool" where
  "keys_known look P cs \<longleftrightarrow>
     (\<forall>key p. look key = Some p \<longrightarrow>
        (\<exists>j tag. j < length cs \<and> p = word_of_nat (j + 1) \<and> is_chain (cs ! j) \<and> P j = Some (tag, key)))"

definition chains_set :: "fstWriterContext \<Rightarrow> u32 list \<Rightarrow> valpos list \<Rightarrow> bool" where
  "chains_set xc cs vps \<longleftrightarrow>
     length vps = length (valpos_mem xc) \<and>
     (\<forall>j < length vps. vps ! j = (if j < length cs then (valpos_mem xc ! j)\<lparr>vp_chain := cs ! j\<rparr> else valpos_mem xc ! j))"

definition pack_type :: "fstWriterContext \<Rightarrow> byte" where
  "pack_type xc = (if fourpack xc then 0x34 else if fastpack xc then 0x46 else 0x5a)"

definition flushed ::
    "packers \<Rightarrow> fstWriterContext \<Rightarrow> (nat \<Rightarrow> byte list option) \<Rightarrow> u32 \<Rightarrow> byte list \<Rightarrow> nat \<Rightarrow>
     u32 list \<Rightarrow> byte list \<Rightarrow> flush_state \<Rightarrow> bool" where
  "flushed pk xc W hm base i cs area fl \<longleftrightarrow>
     (\<exists>cv vps. fl_xc fl = appended (base @ area) (xc\<lparr>curval_mem := cv, valpos_mem := vps\<rparr>) \<and>
        length cv = length (curval_mem xc) \<and> chains_set xc cs vps) \<and>
     length cs = i \<and> layout (packed pk xc W) cs area \<and> area \<noteq> [] \<and> hd area = pack_type xc \<and>
     fl_fpos fl = length area \<and> length area \<le> 1 + sum_list (map (chunk_length (packed pk xc W)) [0..<i]) \<and>
     fl_memreq fl = sum_list (map (chain_length W) [0..<i]) \<and>
     jtable_wf hm (fl_tab fl) \<and> keys_known (jmap hm (fl_tab fl)) (packed pk xc W) cs"

lemma keys_known_mono:
  assumes "keys_known look P cs"
  shows "keys_known look P (cs @ [c])"
  unfolding keys_known_def
proof (intro allI impI)
  fix key p
  assume "look key = Some p"
  then obtain j tag where "j < length cs" "p = word_of_nat (j + 1)" "is_chain (cs ! j)" "P j = Some (tag, key)"
    using assms unfolding keys_known_def by blast
  then show "\<exists>j tag. j < length (cs @ [c]) \<and> p = word_of_nat (j + 1) \<and> is_chain ((cs @ [c]) ! j) \<and> P j = Some (tag, key)"
    by (intro exI [of _ j] exI [of _ tag]) (simp add: nth_append)
qed

lemma keys_known_new:
  assumes "keys_known look P cs" "is_chain c" "P (length cs) = Some (tag, key)"
  shows "keys_known (look(key \<mapsto> word_of_nat (length cs + 1))) P (cs @ [c])"
  unfolding keys_known_def
proof (intro allI impI)
  fix k p
  assume k: "(look(key \<mapsto> word_of_nat (length cs + 1))) k = Some p"
  show "\<exists>j tag. j < length (cs @ [c]) \<and> p = word_of_nat (j + 1) \<and> is_chain ((cs @ [c]) ! j) \<and> P j = Some (tag, k)"
  proof (cases "k = key")
    case True
    then show ?thesis
      using assms(2,3) k by (intro exI [of _ "length cs"] exI [of _ tag]) auto
  next
    case False
    then show ?thesis
      using keys_known_mono [OF assms(1), of c] k by (simp add: keys_known_def)
  qed
qed

lemma chains_set_snoc:
  assumes "chains_set xc cs vps" "length cs < length (valpos_mem xc)"
  shows "chains_set xc (cs @ [c]) (vps[length cs := (valpos_mem xc ! length cs)\<lparr>vp_chain := c\<rparr>])"
  using assms by (auto simp: chains_set_def nth_list_update nth_append less_Suc_eq)

lemma chains_set_zero:
  assumes "chains_set xc cs vps" "vp_chain (valpos_mem xc ! length cs) = 0"
  shows "chains_set xc (cs @ [0]) vps"
  using assms by (auto simp: chains_set_def nth_append less_Suc_eq)

lemma chunk_pack:
  "length (chunk (tag, key)) = length (varint_bytes (word_of_nat tag :: u64)) + length key"
  by (simp add: chunk_def)

lemma flushedI:
  assumes "fl_xc fl = appended (base @ area) (xc\<lparr>curval_mem := cv, valpos_mem := vps\<rparr>)"
    "length cv = length (curval_mem xc)" "chains_set xc cs vps" "length cs = i" "layout (packed pk xc W) cs area"
    "area \<noteq> []" "hd area = pack_type xc" "fl_fpos fl = length area" "length area \<le> 1 + sum_list (map (chunk_length (packed pk xc W)) [0..<i])"
    "fl_memreq fl = sum_list (map (chain_length W) [0..<i])" "jtable_wf hm (fl_tab fl)"
    "keys_known (jmap hm (fl_tab fl)) (packed pk xc W) cs"
  shows "flushed pk xc W hm base i cs area fl"
  using assms unfolding flushed_def by blast

lemma sum_snoc: "sum_list (map (f :: nat \<Rightarrow> nat) [0..<Suc i]) = sum_list (map f [0..<i]) + f i"
  by simp

lemma store_chain_flushed:
  assumes fl: "flushed pk xc W hm base i cs area fl" and i: "i < length (valpos_mem xc)" "length (valpos_mem xc) < 2 ^ 31"
    and W: "W i = Some wr" and small: "length area + chunk_length (packed pk xc W) i < 2 ^ 31"
  shows "\<exists>cs1 area1. flushed pk xc W hm base (Suc i) cs1 area1 (store_chain pk hm i (valpos_mem xc ! i) wr fl)"
proof -
  let ?P = "packed pk xc W"
  obtain cv vps where x: "fl_xc fl = appended (base @ area) (xc\<lparr>curval_mem := cv, valpos_mem := vps\<rparr>)"
      "length cv = length (curval_mem xc)" "chains_set xc cs vps"
    using fl by (auto simp: flushed_def)
  have f: "length cs = i" "layout ?P cs area" "fl_fpos fl = length area" "area \<noteq> []" "hd area = pack_type xc"
    "length area \<le> 1 + sum_list (map (chunk_length ?P) [0..<i])"
    "fl_memreq fl = sum_list (map (chain_length W) [0..<i])" "jtable_wf hm (fl_tab fl)"
    "keys_known (jmap hm (fl_tab fl)) ?P cs"
    using fl by (auto simp: flushed_def)
  obtain tag key where ch: "pack_chain pk xc wr = (tag, key)"
    by (cases "pack_chain pk xc wr")
  have "pack_chain pk (fl_xc fl) wr = pack_chain pk xc wr"
    by (simp add: x(1) pack_chain_def appended_def)
  then have ch1: "pack_chain pk (fl_xc fl) wr = (tag, key)"
    by (simp only: ch)
  have P: "?P i = Some (tag, key)"
    using W ch by (simp add: packed_def)
  obtain tab h where ins: "JenkinsIns (fl_tab fl) key hm = (tab, h)"
    by (cases "JenkinsIns (fl_tab fl) key hm")
  have pay: "payload tab h = (case jmap hm (fl_tab fl) key of Some p \<Rightarrow> p | None \<Rightarrow> 0)"
    using jenkins.enter_read [OF f(8), of key] by (simp add: ins)
  have mem: "fl_memreq fl + length wr = sum_list (map (chain_length W) [0..<Suc i])"
    using f(7) W by (simp add: chain_length_def)
  have len: "length vps = length (valpos_mem xc)"
    using x(3) by (simp add: chains_set_def)
  note set = chains_set_snoc [OF x(3)]
  show ?thesis
  proof (cases "jmap hm (fl_tab fl) key")
    case (Some p)
    then obtain j tag1 where j: "j < length cs" "p = word_of_nat (j + 1)" "is_chain (cs ! j)" "?P j = Some (tag1, key)"
      using f(9) unfolding keys_known_def by blast
    have jn: "j + 1 < 2 ^ 31"
      using j(1) f(1) i by simp
    have p: "p \<noteq> 0" "(ucast p :: u32) = word_of_nat (j + 1)"
    proof -
      have "unat p = j + 1"
        unfolding j(2) using jn by (simp only: unsigned_of_nat) (simp add: take_bit_nat_eq_self)
      then show "p \<noteq> 0"
        by auto
      show "(ucast p :: u32) = word_of_nat (j + 1)"
        unfolding j(2) using take_bit_nat_eq_self [of "j + 1" 64] jn by (simp only: unsigned_of_nat) simp
    qed
    let ?c = "- word_of_nat (j + 1) :: u32"
    let ?fl1 = "fl\<lparr>fl_memreq := fl_memreq fl + length wr, fl_tab := tab,
        fl_xc := set_valpos i ((valpos_mem xc ! i)\<lparr>vp_chain := ?c\<rparr>) (fl_xc fl)\<rparr>"
    have step: "store_chain pk hm i (valpos_mem xc ! i) wr fl = ?fl1"
      using ch1 ins pay Some p by (simp add: store_chain_def Let_def)
    have "layout ?P (cs @ [?c]) area"
      using layout_alias [OF f(2) _ j(1,3,4), of tag] P f(1) i by simp
    moreover have "jtable_wf hm tab" "jmap hm tab = jmap hm (fl_tab fl)"
      using jenkins.enter_wf [OF f(8), of key] jenkins.enter_look [OF f(8), of key] Some
      by (auto simp: ins fun_eq_iff)
    moreover have "set_valpos i ((valpos_mem xc ! i)\<lparr>vp_chain := ?c\<rparr>) (fl_xc fl) =
        appended (base @ area) (xc\<lparr>curval_mem := cv, valpos_mem := vps[i := (valpos_mem xc ! i)\<lparr>vp_chain := ?c\<rparr>]\<rparr>)"
      by (simp add: x(1) set_valpos_def appended_def)
    ultimately have "flushed pk xc W hm base (Suc i) (cs @ [?c]) area ?fl1"
      using x(2) set [of ?c] f(1,3-6) i(1) mem keys_known_mono [OF f(9), of ?c]
      by (intro flushedI [where cv = cv and vps = "vps[i := (valpos_mem xc ! i)\<lparr>vp_chain := ?c\<rparr>]"]) (simp_all only: sum_snoc, simp_all)
    then have "flushed pk xc W hm base (Suc i) (cs @ [?c]) area (store_chain pk hm i (valpos_mem xc ! i) wr fl)"
      unfolding step .
    then show ?thesis
      by blast
  next
    case None
    let ?c = "word_of_nat (length area) :: u32"
    let ?fl1 = "fl\<lparr>fl_memreq := fl_memreq fl + length wr, fl_tab := set_payload (word_of_nat (i + 1)) tab h,
        fl_fpos := fl_fpos fl + length (varint_bytes (word_of_nat tag :: u64)) + length key,
        fl_xc := put key (put_varint (word_of_nat tag)
          (set_valpos i ((valpos_mem xc ! i)\<lparr>vp_chain := word_of_nat (fl_fpos fl)\<rparr>) (fl_xc fl)))\<rparr>"
    have step: "store_chain pk hm i (valpos_mem xc ! i) wr fl = ?fl1"
      using ch1 ins pay None by (simp add: store_chain_def Let_def)
    have store: "layout ?P (cs @ [?c]) (area @ chunk (tag, key))" "is_chain ?c"
      using layout_store [OF f(2), of "(tag, key)"] P f(1) small by simp_all
    have "jtable_wf hm (set_payload (word_of_nat (i + 1)) tab h)"
      "jmap hm (set_payload (word_of_nat (i + 1)) tab h) = (jmap hm (fl_tab fl))(key \<mapsto> word_of_nat (i + 1))"
      using jenkins.store_wf [OF f(8), of "word_of_nat (i + 1)" key] jenkins.store_look [OF f(8), of "word_of_nat (i + 1)" key]
      by (simp_all add: ins)
    moreover have "put key (put_varint (word_of_nat tag)
          (set_valpos i ((valpos_mem xc ! i)\<lparr>vp_chain := ?c\<rparr>) (fl_xc fl))) =
        appended (base @ area @ chunk (tag, key))
          (xc\<lparr>curval_mem := cv, valpos_mem := vps[i := (valpos_mem xc ! i)\<lparr>vp_chain := ?c\<rparr>]\<rparr>)"
    proof -
      have "set_valpos i ((valpos_mem xc ! i)\<lparr>vp_chain := ?c\<rparr>) (fl_xc fl) =
          appended (base @ area) (xc\<lparr>curval_mem := cv, valpos_mem := vps[i := (valpos_mem xc ! i)\<lparr>vp_chain := ?c\<rparr>]\<rparr>)"
        by (simp add: x(1) set_valpos_def appended_def)
      then show ?thesis
        by (simp add: put_varint_appended put_appended chunk_def)
    qed
    ultimately have "flushed pk xc W hm base (Suc i) (cs @ [?c]) (area @ chunk (tag, key)) ?fl1"
      using x(2) set [of ?c] f(1,3-6) i(1) mem store(1) keys_known_new [OF f(9) store(2), of tag key] P
      by (intro flushedI [where cv = cv and vps = "vps[i := (valpos_mem xc ! i)\<lparr>vp_chain := ?c\<rparr>]"])
        (simp_all only: sum_snoc, simp_all add: chunk_length_def chunk_pack)
    then have "flushed pk xc W hm base (Suc i) (cs @ [?c]) (area @ chunk (tag, key))
        (store_chain pk hm i (valpos_mem xc ! i) wr fl)"
      unfolding step .
    then show ?thesis
      by blast
  qed
qed

lemma flush_signal_run:
  assumes fl: "flushed pk xc W hm base i cs area fl" and i: "i < length (valpos_mem xc)" "length (valpos_mem xc) < 2 ^ 31"
    and chain: "has_chain xc W i" and small: "length area + chunk_length (packed pk xc W) i < 2 ^ 31"
  shows "\<exists>cs1 area1 fl1. flush_signal pk hm i fl = Some fl1 \<and> flushed pk xc W hm base (Suc i) cs1 area1 fl1"
proof -
  let ?vm = "valpos_mem xc ! i" and ?P = "packed pk xc W"
  obtain cv vps where x: "fl_xc fl = appended (base @ area) (xc\<lparr>curval_mem := cv, valpos_mem := vps\<rparr>)"
      "length cv = length (curval_mem xc)" "chains_set xc cs vps"
    using fl by (auto simp: flushed_def)
  have len: "length cs = i"
    using fl by (simp add: flushed_def)
  have vm: "peek (valpos_mem (fl_xc fl)) i = Some ?vm"
    using x(1,3) i(1) len by (simp add: appended_def chains_set_def)
  have mem: "vchg_mem (fl_xc fl) = vchg_mem xc" "vchg_siz (fl_xc fl) = vchg_siz xc" "curval_mem (fl_xc fl) = cv"
    using x(1) by (simp_all add: appended_def)
  show ?thesis
  proof (cases "vp_chain ?vm = 0")
    case True
    then have W: "W i = None"
      using chain by (simp add: has_chain_def Let_def)
    have "flushed pk xc W hm base (Suc i) (cs @ [0]) area fl"
      using fl x len chains_set_zero [OF x(3)] True W layout_none [of ?P cs area] keys_known_mono
      by (intro flushedI [where cv = cv and vps = vps])
        (simp_all only: sum_snoc, simp_all add: flushed_def chunk_length_def chain_length_def packed_def)
    then show ?thesis
      using True vm by (auto simp: flush_signal_def Let_def)
  next
    case False
    then obtain wr where wr: "W i = Some wr" "signal_chain ?vm (vchg_mem xc) (unat (vchg_siz xc)) = Some wr"
      using chain by (auto simp: has_chain_def Let_def)
    obtain cv1 where cv1: "checkpoint ?vm (vchg_mem xc) cv = Some cv1" "length cv1 = length cv"
      using chain False x(2) unfolding has_chain_def Let_def by blast
    let ?fl0 = "fl\<lparr>fl_xc := (fl_xc fl)\<lparr>curval_mem := cv1\<rparr>\<rparr>"
    have "flushed pk xc W hm base i cs area ?fl0"
      using fl x cv1(2)
      by (intro flushedI [where cv = cv1 and vps = vps]) (simp_all add: flushed_def appended_def)
    then obtain cs1 area1 where "flushed pk xc W hm base (Suc i) cs1 area1 (store_chain pk hm i ?vm wr ?fl0)"
      using store_chain_flushed [OF _ i wr(1) small] by blast
    moreover have "flush_signal pk hm i fl = Some (store_chain pk hm i ?vm wr ?fl0)"
      using False vm cv1(1) wr(2) mem by (simp add: flush_signal_def Let_def)
    ultimately show ?thesis
      by blast
  qed
qed

lemma flush_signals_run:
  assumes "flushed pk xc W hm base i cs area fl" "i \<le> n" "n \<le> length (valpos_mem xc)" "length (valpos_mem xc) < 2 ^ 31"
    and "\<forall>j < n. has_chain xc W j" "1 + sum_list (map (chunk_length (packed pk xc W)) [0..<n]) < 2 ^ 31"
  shows "\<exists>cs1 area1 fl1. flush_signals pk hm [i..<n] fl = Some fl1 \<and> flushed pk xc W hm base n cs1 area1 fl1"
  using assms
proof (induction "n - i" arbitrary: i cs area fl)
  case (Suc d)
  let ?cl = "chunk_length (packed pk xc W)"
  have i: "i < n"
    using Suc.hyps(2) by simp
  have "length area \<le> 1 + sum_list (map ?cl [0..<i])"
    using Suc.prems(1) by (simp add: flushed_def)
  then have "length area + ?cl i \<le> 1 + sum_list (map ?cl [0..<Suc i])"
    by simp
  also have "\<dots> \<le> 1 + sum_list (map ?cl [0..<n])"
    using sum_lengths_mono [of "Suc i" n ?cl] i by simp
  finally have "length area + ?cl i < 2 ^ 31"
    using Suc.prems(6) by simp
  then obtain cs1 area1 fl1 where 1: "flush_signal pk hm i fl = Some fl1" "flushed pk xc W hm base (Suc i) cs1 area1 fl1"
    using flush_signal_run [OF Suc.prems(1)] Suc.prems(3-5) i by fastforce
  obtain cs2 area2 fl2 where "flush_signals pk hm [Suc i..<n] fl1 = Some fl2" "flushed pk xc W hm base n cs2 area2 fl2"
    using Suc.hyps(1) [OF _ 1(2)] Suc.hyps(2) Suc.prems(3-6) i by fastforce
  then show ?case
    using 1(1) i by (auto simp: upt_conv_Cons)
qed auto

lemma flushed_start:
  "flushed pk xc W hm base 0 [] [pack_type xc] \<lparr>fl_xc = appended (base @ [pack_type xc]) xc, fl_fpos = 1, fl_tab = None, fl_memreq = 0\<rparr>"
  by (rule flushedI [where cv = "curval_mem xc" and vps = "valpos_mem xc"])
    (simp_all add: chains_set_def layout_def next_chain_def last_chain_def jtable_wf_def keys_known_def)

section \<open>The whole section\<close>

text \<open>From the position behind the type of the section on.\<close>

definition section_body ::
    "u64 \<Rightarrow> u64 \<Rightarrow> u64 \<Rightarrow> byte list \<Rightarrow> u32 \<Rightarrow> byte list \<Rightarrow> byte list \<Rightarrow> byte list \<Rightarrow> u64 \<Rightarrow> u64 \<Rightarrow> byte list" where
  "section_body beg_tim end_tim memreq frame maxh area indx tims ulen nitems =
     be_bytes 8 beg_tim @ be_bytes 8 end_tim @ be_bytes 8 memreq @ frame @ varint_bytes (ucast maxh :: u64) @ area @ indx @
     be_bytes 8 (word_of_nat (length indx)) @ tims @ be_bytes 8 ulen @ be_bytes 8 (word_of_nat (length tims)) @
     be_bytes 8 nitems"

definition section_text :: "byte list \<Rightarrow> byte list" where
  "section_text body = FST_BL_VCDATA_DYN_ALIAS2 # be_bytes 8 (word_of_nat (8 + length body)) @ body"

text \<open>The file while a section is open: its header has been written, the end of it is to come.\<close>

definition section_open :: "fstWriterContext \<Rightarrow> byte list \<Rightarrow> u64 \<Rightarrow> byte list \<Rightarrow> bool" where
  "section_open xc pre beg_tim frame \<longleftrightarrow>
     (\<exists>endt. xc_handle xc = xc_handle (appended
        (pre @ FST_BL_SKIP # be_bytes 8 0 @ be_bytes 8 beg_tim @ be_bytes 8 endt @ be_bytes 8 0 @ frame) xc)) \<and>
     section_start xc = length pre + 1"

definition packed_times :: "packers \<Rightarrow> byte list \<Rightarrow> byte list" where
  "packed_times pk tmem =
     (case pk_compress2 pk 9 (length tmem) tmem of
        Some dmem \<Rightarrow> if length dmem < length tmem then dmem else tmem
      | None \<Rightarrow> tmem)"

lemma appended_id: "xc_handle xc = xc_handle (appended d xc) \<Longrightarrow> xc = appended d xc"
  by (simp add: appended_def)

text \<open>The position behind \<open>as\<close>, in front of \<open>rest\<close>.\<close>

definition at_pos :: "byte list \<Rightarrow> byte list \<Rightarrow> fstWriterContext \<Rightarrow> fstWriterContext" where
  "at_pos as rest xc = xc\<lparr>xc_handle := \<lparr>f_data = as @ rest, f_pos = length as\<rparr>\<rparr>"

lemma appended_at: "appended d xc = at_pos d [] xc"
  by (simp add: appended_def at_pos_def)

lemma put_at: "length bs = length cs \<Longrightarrow> put bs (at_pos as (cs @ rest) xc) = at_pos (as @ bs) rest xc"
  by (simp add: put_def at_pos_def f_write_def)

lemma put64_at: "length cs = 8 \<Longrightarrow> put64 v (at_pos as (cs @ rest) xc) = at_pos (as @ be_bytes 8 v) rest xc"
  unfolding put64_def by (rule put_at) simp

lemma seek_at:
  "as @ rest = as1 @ rest1 \<Longrightarrow> n = int (length as1) \<Longrightarrow> fstWriterFseeko n (at_pos as rest xc) = at_pos as1 rest1 xc"
  by (simp add: fstWriterFseeko_def at_pos_def f_seek_def)

lemma at_pos_fields [simp]:
  "section_start (at_pos as rest xc) = section_start xc" "curtime (at_pos as rest xc) = curtime xc"
  "f_pos (xc_handle (at_pos as rest xc)) = length as"
  by (simp_all add: at_pos_def)

lemma put_trailer_text:
  assumes d: "d = pre @ [b] @ be_bytes 8 l @ be_bytes 8 beg_tim @ be_bytes 8 endt @ be_bytes 8 m @ rest"
    and s: "section_start xc = length pre + 1"
  shows "put_trailer memreq (appended d xc) =
    (appended (pre @ [FST_BL_VCDATA_DYN_ALIAS2] @ be_bytes 8 (word_of_nat (32 + length rest)) @ be_bytes 8 beg_tim @
       be_bytes 8 (curtime xc) @ be_bytes 8 (word_of_nat memreq) @ rest) xc)\<lparr>section_header_truncpos := length d\<rparr>"
proof -
  let ?L = "be_bytes 8 (word_of_nat (32 + length rest)) :: byte list" and ?B = "be_bytes 8 beg_tim"
    and ?C = "be_bytes 8 (curtime xc)" and ?M = "be_bytes 8 (word_of_nat memreq) :: byte list" and ?V = "[FST_BL_VCDATA_DYN_ALIAS2]"
  have len: "length d - (length pre + 1) = 32 + length rest"
    by (simp add: d)
  let ?x1 = "at_pos (pre @ [b]) (be_bytes 8 l @ ?B @ be_bytes 8 endt @ be_bytes 8 m @ rest) xc"
  let ?x2 = "at_pos ((pre @ [b]) @ ?L) (?B @ be_bytes 8 endt @ be_bytes 8 m @ rest) xc"
  let ?x3 = "at_pos ((pre @ [b]) @ ?L @ ?B) (be_bytes 8 endt @ be_bytes 8 m @ rest) xc"
  let ?x4 = "at_pos (((pre @ [b]) @ ?L @ ?B) @ ?C) (be_bytes 8 m @ rest) xc"
  let ?x5 = "at_pos ((((pre @ [b]) @ ?L @ ?B) @ ?C) @ ?M) rest xc"
  let ?x6 = "at_pos pre ([b] @ ?L @ ?B @ ?C @ ?M @ rest) xc"
  let ?x7 = "at_pos (pre @ ?V) (?L @ ?B @ ?C @ ?M @ rest) xc"
  let ?x8 = "at_pos (pre @ ?V @ ?L @ ?B @ ?C @ ?M @ rest) [] xc"
  have 1: "fstWriterFseeko (int (length pre + 1)) (appended d xc) = ?x1"
    unfolding appended_at by (rule seek_at) (simp_all add: d)
  have 2: "put64 (word_of_nat (32 + length rest)) ?x1 = ?x2"
    by (rule put64_at) simp
  have 3: "fstWriterFseeko (int (length ((pre @ [b]) @ ?L)) + 8) ?x2 = ?x3"
    by (rule seek_at) simp_all
  have 4: "put64 (curtime xc) ?x3 = ?x4"
    by (rule put64_at) simp
  have 5: "put64 (word_of_nat memreq) ?x4 = ?x5"
    by (rule put64_at) simp
  have 6: "fstWriterFseeko (int (length pre + 1) - 1) ?x5 = ?x6"
    by (rule seek_at) simp_all
  have 7: "put ?V ?x6 = ?x7"
    by (rule put_at) simp
  have 8: "fstWriterFseeko (int (length d)) ?x7 = ?x8"
    by (rule seek_at) (simp_all add: d)
  have "section_start (appended d xc) = length pre + 1"
    using s by (simp add: appended_at)
  then show ?thesis
    unfolding put_trailer_def Let_def appended_handle
    by (simp only: 1 2 3 4 5 6 7 8 len at_pos_fields s) (simp add: appended_at)
qed

lemma flushed_same:
  assumes "valpos_mem xc1 = valpos_mem xc" "vchg_mem xc1 = vchg_mem xc" "vchg_siz xc1 = vchg_siz xc" "curval_mem xc1 = curval_mem xc"
    "fastpack xc1 = fastpack xc" "fourpack xc1 = fourpack xc"
  shows "has_chain xc1 W j \<longleftrightarrow> has_chain xc W j" "packed pk xc1 W = packed pk xc W" "pack_type xc1 = pack_type xc"
proof -
  have "pack_chain pk xc1 = pack_chain pk xc"
    by (rule ext) (simp add: pack_chain_def assms(5,6))
  then show "packed pk xc1 W = packed pk xc W"
    by (intro ext) (simp only: packed_def)
  show "has_chain xc1 W j \<longleftrightarrow> has_chain xc W j" "pack_type xc1 = pack_type xc"
    using assms by (simp_all add: has_chain_def pack_type_def)
qed

lemma put_times_text:
  assumes "tchn_handle xc \<noteq> []"
  shows "put_times pk (appended d xc) =
    Some (appended (d @ packed_times pk (tchn_handle xc) @ be_bytes 8 (word_of_nat (length (tchn_handle xc))) @
        be_bytes 8 (word_of_nat (length (packed_times pk (tchn_handle xc)))) @ be_bytes 8 (ucast (tchn_cnt xc)))
      (xc\<lparr>tchn_cnt := 0, tchn_idx := 0, tchn_handle := []\<rparr>))"
proof -
  have f: "tchn_handle (appended d xc) = tchn_handle xc" "tchn_cnt (appended d xc) = tchn_cnt xc" for d
    by (simp_all add: appended_def)
  show ?thesis
    using assms unfolding put_times_def Let_def f packed_times_def [symmetric] put_appended put64_appended
    by (simp add: appended_def)
qed

lemma varint_length_16: "length (varint_bytes (v :: u64)) \<le> 16"
proof -
  have "unat v < 128 ^ 16"
    using unsigned_less [of v, where ?'a = nat] by (rule order_less_trans) simp
  then show ?thesis
    using varint_length_le [of 16 v] by simp
qed

text \<open>The next header, unless the file is large enough.\<close>

lemma emit_header_tail:
  "\<exists>tail. f_data (xc_handle (fstWriterEmitSectionHeader pk (appended d xc))) = d @ FST_BL_SKIP # tail \<and> length tail < 2 ^ 33"
proof -
  define fr where "fr = (case pk_compress2 pk 4 (unat (maxvalpos xc)) (take (unat (maxvalpos xc)) (curval_mem xc)) of
        Some dmem \<Rightarrow> if length dmem < unat (maxvalpos xc) then dmem else take (unat (maxvalpos xc)) (curval_mem xc)
      | None \<Rightarrow> take (unat (maxvalpos xc)) (curval_mem xc))"
  have "length fr \<le> unat (maxvalpos xc)"
    by (auto simp: fr_def split: option.split)
  also have "\<dots> < 2 ^ 32"
    using unsigned_less [of "maxvalpos xc", where ?'a = nat] by simp
  finally have fr: "length fr < 2 ^ 32" .
  have f: "put64 v ((appended d x)\<lparr>section_start := n\<rparr>) = appended (d @ be_bytes 8 v) (x\<lparr>section_start := n\<rparr>)"
    "(appended d x)\<lparr>section_start := n\<rparr> = appended d (x\<lparr>section_start := n\<rparr>)"
    "(appended d x)\<lparr>section_header_only := True\<rparr> = appended d (x\<lparr>section_header_only := True\<rparr>)"
    "maxvalpos (appended d x) = maxvalpos x" "is_initial_time (appended d x) = is_initial_time x" "curtime (appended d x) = curtime x"
    "firsttime (appended d x) = firsttime x" "xc_maxhandle (appended d x) = xc_maxhandle x" "curval_mem (appended d x) = curval_mem x" for d x v n
    by (simp_all add: appended_def put64_def put_def f_write_def)
  show ?thesis
    unfolding fstWriterEmitSectionHeader_def Let_def put_appended f put64_appended put_varint_appended appended_handle
      fr_def [symmetric]
    using fr varint_length_16 [of "ucast (maxvalpos xc)"] varint_length_16 [of "ucast (xc_maxhandle xc)"]
      varint_length_16 [of "word_of_nat (length fr)"]
    by (simp del: be_bytes.simps)
qed

lemma end_section_text:
  "\<exists>tail. f_data (xc_handle (end_section pk ((appended d xc)\<lparr>section_header_truncpos := n\<rparr>))) = d @ tail \<and>
     (tail = [] \<or> hd tail = FST_BL_SKIP) \<and> length tail \<le> 2 ^ 33"
proof -
  let ?P = "\<lambda>x. \<exists>tail. f_data (xc_handle x) = d @ tail \<and> (tail = [] \<or> hd tail = FST_BL_SKIP) \<and> length tail \<le> 2 ^ 33"
  let ?x0 = "(appended d xc)\<lparr>section_header_truncpos := n\<rparr>"
  let ?x1 = "if dump_size_limit ?x0 \<noteq> 0 \<and> section_header_truncpos ?x0 \<ge> unat (dump_size_limit ?x0)
      then ?x0\<lparr>skip_writing_section_hdr := True, size_limit_locked := True, is_initial_time := True\<rparr> else ?x0"
  have "\<exists>y. ?x1 = appended d y"
    by (rule exI, rule appended_id) (simp add: appended_def)
  then obtain y where y: "?x1 = appended d y" ..
  have "?P (if \<not> skip_writing_section_hdr ?x1 then fstWriterEmitSectionHeader pk ?x1 else ?x1)"
    unfolding y using emit_header_tail [of pk d y] by fastforce
  moreover have "end_section pk ?x0 =
      (if \<not> skip_writing_section_hdr ?x1 then fstWriterEmitSectionHeader pk ?x1 else ?x1)\<lparr>already_in_flush := False\<rparr>"
    by (simp only: end_section_def Let_def)
  ultimately show ?thesis
    by simp
qed

text \<open>The state behind the trailer, from which \<open>end_section\<close> goes on.\<close>

definition flushed_context :: "byte list \<Rightarrow> byte list \<Rightarrow> valpos list \<Rightarrow> nat \<Rightarrow> fstWriterContext \<Rightarrow> fstWriterContext" where
  "flushed_context d cv vps n xc =
     (appended d (xc\<lparr>already_in_flush := True, section_header_only := False, curval_mem := cv, secnum := secnum xc + 1,
        valpos_mem := map clear_chain vps, vchg_mem := mem_store 0 [0x21] (vchg_mem xc), vchg_siz := 1, tchn_cnt := 0, tchn_idx := 0,
        tchn_handle := []\<rparr>))\<lparr>section_header_truncpos := n\<rparr>"

lemma flush_result:
  assumes op: "section_open xc pre beg_tim frame" and siz: "1 < unat (vchg_siz xc)" "\<not> already_in_flush xc"
    and n: "length (valpos_mem xc) = unat (xc_maxhandle xc)" "unat (xc_maxhandle xc) < 2 ^ 31"
    and W: "\<forall>j < unat (xc_maxhandle xc). has_chain xc W j"
    and room: "1 + sum_list (map (chunk_length (packed pk xc W)) [0..<unat (xc_maxhandle xc)]) < 2 ^ 31"
    and tims: "tchn_handle xc \<noteq> []"
  shows "\<exists>cv vps area l. fstWriterFlushContextPrivate pk xc = Some (end_section pk (flushed_context (pre @ section_text
       (section_body beg_tim (curtime xc)
       (word_of_nat (sum_list (map (chain_length W) [0..<unat (xc_maxhandle xc)]))) frame (xc_maxhandle xc) area
       (chain_index vps 0 0 0) (packed_times pk (tchn_handle xc)) (word_of_nat (length (tchn_handle xc)))
       (ucast (tchn_cnt xc)))) cv vps l xc)) \<and>
    length vps = unat (xc_maxhandle xc) \<and>
    layout (packed pk xc W) (map vp_chain vps) area \<and> area \<noteq> [] \<and> hd area = pack_type xc \<and>
    length area \<le> 1 + sum_list (map (chunk_length (packed pk xc W)) [0..<unat (xc_maxhandle xc)])"
proof -
  let ?n = "unat (xc_maxhandle xc)" and ?hm = "hashmask_of (xc_maxhandle xc)"
  obtain endt where handle: "xc = appended (pre @ FST_BL_SKIP # be_bytes 8 0 @ be_bytes 8 beg_tim @ be_bytes 8 endt @ be_bytes 8 0 @ frame) xc"
    and start: "section_start xc = length pre + 1"
    using op appended_id unfolding section_open_def by blast
  let ?head = "pre @ FST_BL_SKIP # be_bytes 8 0 @ be_bytes 8 beg_tim @ be_bytes 8 endt @ be_bytes 8 0 @ frame"
  let ?xc1 = "xc\<lparr>already_in_flush := True, section_header_only := False\<rparr>"
  let ?base = "?head @ varint_bytes (ucast (xc_maxhandle xc) :: u64)"
  have x1: "?xc1 = appended ?head ?xc1"
    by (rule appended_id) (subst handle, simp add: appended_def)
  have same: "has_chain ?xc1 W j \<longleftrightarrow> has_chain xc W j" "packed pk ?xc1 W = packed pk xc W" "pack_type ?xc1 = pack_type xc" for j
    by (rule flushed_same; simp)+
  have begun: "flushed pk ?xc1 W ?hm ?base 0 [] [pack_type xc]
      \<lparr>fl_xc = appended (?base @ [pack_type xc]) ?xc1, fl_fpos = 1, fl_tab = None, fl_memreq = 0\<rparr>"
    using flushed_start [of pk ?xc1 W ?hm ?base] unfolding same .
  have "\<exists>cs1 area1 fl1. flush_signals pk ?hm [0..<?n]
      \<lparr>fl_xc = appended (?base @ [pack_type xc]) ?xc1, fl_fpos = 1, fl_tab = None, fl_memreq = 0\<rparr> = Some fl1 \<and>
      flushed pk ?xc1 W ?hm ?base ?n cs1 area1 fl1"
    by (rule flush_signals_run [OF begun]) (use n W room same in simp_all)
  then obtain cs area fl where fl: "flush_signals pk ?hm [0..<?n]
      \<lparr>fl_xc = appended (?base @ [pack_type xc]) ?xc1, fl_fpos = 1, fl_tab = None, fl_memreq = 0\<rparr> = Some fl"
      "flushed pk ?xc1 W ?hm ?base ?n cs area fl"
    by blast
  obtain cv vps where v: "fl_xc fl = appended (?base @ area) (?xc1\<lparr>curval_mem := cv, valpos_mem := vps\<rparr>)" "chains_set ?xc1 cs vps"
    using fl(2) unfolding flushed_def by blast
  have g: "length cs = ?n" "layout (packed pk xc W) cs area" "area \<noteq> []" "hd area = pack_type xc"
    "fl_memreq fl = sum_list (map (chain_length W) [0..<?n])"
    "length area \<le> 1 + sum_list (map (chunk_length (packed pk xc W)) [0..<?n])"
    using fl(2) unfolding flushed_def same by blast+
  have vps: "length vps = ?n" "map vp_chain vps = cs"
    using v(2) g(1) n(1) by (auto simp: chains_set_def list_eq_iff_nth_eq)
  let ?xv = "?xc1\<lparr>curval_mem := cv, valpos_mem := vps\<rparr>" and ?indx = "chain_index vps 0 0 0"
  let ?memreq = "sum_list (map (chain_length W) [0..<?n])"
  have begin_text: "put [if fourpack xc then 0x34 else if fastpack xc then 0x46 else 0x5a] (put_varint (ucast (xc_maxhandle xc)) ?xc1) =
      appended (?base @ [pack_type xc]) ?xc1"
    by (subst x1) (simp add: put_varint_appended put_appended pack_type_def)
  let ?xw = "?xv\<lparr>secnum := secnum ?xv + 1, valpos_mem := map clear_chain vps, vchg_mem := mem_store 0 [0x21] (vchg_mem xc), vchg_siz := 1\<rparr>"
  let ?d = "?base @ area @ ?indx @ be_bytes 8 (word_of_nat (length ?indx))"
  let ?tims = "packed_times pk (tchn_handle xc) @ be_bytes 8 (word_of_nat (length (tchn_handle xc))) @
      be_bytes 8 (word_of_nat (length (packed_times pk (tchn_handle xc)))) @ be_bytes 8 (ucast (tchn_cnt xc))"
  let ?xt = "?xw\<lparr>tchn_cnt := 0, tchn_idx := 0, tchn_handle := []\<rparr>"
  have times: "put_times pk (appended ?d ?xw) = Some (appended (?d @ ?tims) ?xt)"
    using put_times_text [of ?xw pk ?d] tims by simp
  have comm: "(appended d x)\<lparr>secnum := a\<rparr> = appended d (x\<lparr>secnum := a\<rparr>)" "(appended d x)\<lparr>valpos_mem := b\<rparr> = appended d (x\<lparr>valpos_mem := b\<rparr>)"
    "(appended d x)\<lparr>vchg_mem := m, vchg_siz := s\<rparr> = appended d (x\<lparr>vchg_mem := m, vchg_siz := s\<rparr>)"
    "secnum (appended d x) = secnum x" "valpos_mem (appended d x) = valpos_mem x" "vchg_mem (appended d x) = vchg_mem x"
    for d a b m s x
    by (simp_all add: appended_def)
  have pv: "fourpack (put_varint w (x\<lparr>already_in_flush := True, section_header_only := False\<rparr>)) = fourpack x"
    "fastpack (put_varint w (x\<lparr>already_in_flush := True, section_header_only := False\<rparr>)) = fastpack x"
    "xc_maxhandle (put bs (put_varint w (x\<lparr>already_in_flush := True, section_header_only := False\<rparr>))) = xc_maxhandle x"
    "xc_maxhandle (x\<lparr>already_in_flush := True, section_header_only := False\<rparr>) = xc_maxhandle x" for w x bs
    by (simp_all add: put_varint_def put_def)
  have "\<not> (vchg_siz xc \<le> 1 \<or> already_in_flush xc)"
    using siz by (simp add: word_le_nat_alt)
  then have "fstWriterFlushContextPrivate pk xc = Option.bind (put_times pk (appended ?d ?xw)) (\<lambda>xc.
      Some (end_section pk (put_trailer (fl_memreq fl) xc)))"
    unfolding fstWriterFlushContextPrivate_def Let_def pv
    by (simp only: if_False begin_text fl(1) v(1) comm put_appended put64_appended appended_handle bind.bind_lunit) (simp add: comm)
  then have whole: "fstWriterFlushContextPrivate pk xc = Some (end_section pk (put_trailer ?memreq (appended (?d @ ?tims) ?xt)))"
    using times g(5) by simp
  have trailer: "put_trailer ?memreq (appended (?d @ ?tims) ?xt) =
      (appended (pre @ section_text (section_body beg_tim (curtime xc) (word_of_nat ?memreq) frame (xc_maxhandle xc) area ?indx
         (packed_times pk (tchn_handle xc)) (word_of_nat (length (tchn_handle xc))) (ucast (tchn_cnt xc)))) ?xt)
        \<lparr>section_header_truncpos := length (?d @ ?tims)\<rparr>"
    by (subst put_trailer_text [where pre = pre and b = FST_BL_SKIP and l = 0 and beg_tim = beg_tim and endt = endt and m = 0
          and rest = "frame @ varint_bytes (ucast (xc_maxhandle xc) :: u64) @ area @ ?indx @
            be_bytes 8 (word_of_nat (length ?indx)) @ ?tims"])
      (simp_all add: start section_text_def section_body_def)
  note finished = whole [unfolded trailer]
  have "fstWriterFlushContextPrivate pk xc = Some (end_section pk (flushed_context (pre @ section_text
      (section_body beg_tim (curtime xc) (word_of_nat ?memreq) frame (xc_maxhandle xc) area ?indx
         (packed_times pk (tchn_handle xc)) (word_of_nat (length (tchn_handle xc))) (ucast (tchn_cnt xc))))
      cv vps (length (?d @ ?tims)) xc))"
    using finished by (simp only: flushed_context_def) simp
  then show ?thesis
    using g(2-4,6) vps(1) unfolding vps(2) [symmetric] by blast
qed

lemma flush_text:
  assumes op: "section_open xc pre beg_tim frame" and siz: "1 < unat (vchg_siz xc)" "\<not> already_in_flush xc"
    and n: "length (valpos_mem xc) = unat (xc_maxhandle xc)" "unat (xc_maxhandle xc) < 2 ^ 31"
    and W: "\<forall>j < unat (xc_maxhandle xc). has_chain xc W j"
    and room: "1 + sum_list (map (chunk_length (packed pk xc W)) [0..<unat (xc_maxhandle xc)]) < 2 ^ 31"
    and tims: "tchn_handle xc \<noteq> []"
  shows "\<exists>xc1 vps area tail. fstWriterFlushContextPrivate pk xc = Some xc1 \<and>
    f_data (xc_handle xc1) = pre @ section_text (section_body beg_tim (curtime xc)
       (word_of_nat (sum_list (map (chain_length W) [0..<unat (xc_maxhandle xc)]))) frame (xc_maxhandle xc) area
       (chain_index vps 0 0 0) (packed_times pk (tchn_handle xc)) (word_of_nat (length (tchn_handle xc)))
       (ucast (tchn_cnt xc))) @ tail \<and>
    (tail = [] \<or> hd tail = FST_BL_SKIP) \<and> length tail \<le> 2 ^ 33 \<and> length vps = unat (xc_maxhandle xc) \<and>
    layout (packed pk xc W) (map vp_chain vps) area \<and> area \<noteq> [] \<and> hd area = pack_type xc \<and>
    length area \<le> 1 + sum_list (map (chunk_length (packed pk xc W)) [0..<unat (xc_maxhandle xc)])"
proof -
  obtain cv vps area l where fl: "fstWriterFlushContextPrivate pk xc = Some (end_section pk (flushed_context (pre @ section_text
       (section_body beg_tim (curtime xc)
       (word_of_nat (sum_list (map (chain_length W) [0..<unat (xc_maxhandle xc)]))) frame (xc_maxhandle xc) area
       (chain_index vps 0 0 0) (packed_times pk (tchn_handle xc)) (word_of_nat (length (tchn_handle xc)))
       (ucast (tchn_cnt xc)))) cv vps l xc))" "length vps = unat (xc_maxhandle xc)"
      "layout (packed pk xc W) (map vp_chain vps) area" "area \<noteq> []" "hd area = pack_type xc"
      "length area \<le> 1 + sum_list (map (chunk_length (packed pk xc W)) [0..<unat (xc_maxhandle xc)])"
    using flush_result [OF assms] by blast
  obtain tail where "f_data (xc_handle (end_section pk (flushed_context (pre @ section_text
       (section_body beg_tim (curtime xc)
       (word_of_nat (sum_list (map (chain_length W) [0..<unat (xc_maxhandle xc)]))) frame (xc_maxhandle xc) area
       (chain_index vps 0 0 0) (packed_times pk (tchn_handle xc)) (word_of_nat (length (tchn_handle xc)))
       (ucast (tchn_cnt xc)))) cv vps l xc))) = (pre @ section_text
       (section_body beg_tim (curtime xc)
       (word_of_nat (sum_list (map (chain_length W) [0..<unat (xc_maxhandle xc)]))) frame (xc_maxhandle xc) area
       (chain_index vps 0 0 0) (packed_times pk (tchn_handle xc)) (word_of_nat (length (tchn_handle xc)))
       (ucast (tchn_cnt xc)))) @ tail" "tail = [] \<or> hd tail = FST_BL_SKIP" "length tail \<le> 2 ^ 33"
    unfolding flushed_context_def using end_section_text by blast
  then show ?thesis
    using fl by (intro exI [of _ "the (fstWriterFlushContextPrivate pk xc)"] exI [of _ vps] exI [of _ area] exI [of _ tail])
      (simp only: option.sel append_assoc simp_thms)
qed

end
