(* ===== verification/Fst_Roundtrip.thy ===== *)
theory Fst_Roundtrip
  imports Fst_Section
begin

text \<open>
  Reading a section that has been written: every change that was emitted is delivered, at
  its time, with its value.
\<close>

section \<open>Reading the parts of a section\<close>

lemma read64_at: "f = as @ be_bytes 8 v @ rest \<Longrightarrow> pos = length as \<Longrightarrow> read64 f pos = Some v"
  by (simp add: read64_def fstReaderUint64_def be_bytes_step take_bit_word_eq_self del: be_bytes.simps)

lemma varint64_at: "fstReaderVarint64 (varint_bytes (v :: u64) @ rest) = Some (v, rest)"
proof -
  have "unat v < 128 ^ 16"
    using unsigned_less [of v, where ?'a = nat] by (rule order_less_trans) simp
  then have "length (varint_bytes v) \<le> 16"
    using varint_length_le [of 16 v] by simp
  then show ?thesis
    by (simp add: fstReaderVarint64_def reader_varint_def varint_scan_varint_bytes varint_value_varint_bytes)
qed

lemma slice_at: "f = as @ bs @ rest \<Longrightarrow> pos = length as \<Longrightarrow> n = length bs \<Longrightarrow> slice f pos n = Some bs"
  using slice_start by blast

text \<open>The end of a section: the table of times and its three numbers.\<close>

lemma section_times_at:
  assumes f: "f = as @ timesb @ be_bytes 8 ulen @ be_bytes 8 (word_of_nat (length timesb)) @ be_bytes 8 nitems @ rest"
    and "endpos = length as + length timesb + 24" "length f < 2 ^ 63"
    and data: "(if unat ulen \<noteq> length timesb then up_uncompress up (unat ulen) timesb else Some timesb) = Some tmem"
      "length tmem = unat ulen"
    and tims: "time_table (unat nitems) 0 tmem = Some tims"
  shows "section_times up f endpos = Some (tims, length timesb)"
    "read64 f (endpos - 16) = Some (word_of_nat (length timesb))"
proof -
  have clen: "unat (word_of_nat (length timesb) :: u64) = length timesb"
    using assms(3) f by (simp add: unsigned_of_nat take_bit_nat_eq_self)
  have r: "read64 f (endpos - 24) = Some ulen" "read64 f (endpos - 16) = Some (word_of_nat (length timesb))"
    "read64 f (endpos - 8) = Some nitems"
    by (rule read64_at [where as = "as @ timesb"], simp_all add: f assms(2) del: be_bytes.simps)
      (rule read64_at [where as = "as @ timesb @ be_bytes 8 ulen"], simp_all del: be_bytes.simps,
       rule read64_at [where as = "as @ timesb @ be_bytes 8 ulen @ be_bytes 8 (word_of_nat (length timesb))"],
       simp_all del: be_bytes.simps)
  show "read64 f (endpos - 16) = Some (word_of_nat (length timesb))"
    by (rule r(2))
  have "slice f (endpos - 24 - length timesb) (length timesb) = Some timesb"
    by (rule slice_at [where as = as]) (use f assms(2) in simp_all)
  then have "read_packed up f (endpos - 24 - length timesb) (unat ulen) (length timesb) = Some tmem"
    using data by (auto simp: read_packed_def split: if_splits)
  then show "section_times up f endpos = Some (tims, length timesb)"
    using r clen tims assms(2) by (simp add: section_times_def)
qed

text \<open>The values at the start, when they are not delivered.\<close>

definition frame_text :: "u64 \<Rightarrow> u64 \<Rightarrow> byte list \<Rightarrow> byte list" where
  "frame_text ulen maxh fr = varint_bytes ulen @ varint_bytes (word_of_nat (length fr) :: u64) @ varint_bytes maxh @ fr"

lemma section_frame_at:
  assumes f: "rd_f rd = as @ frame_text ulen maxh fr @ rest" and "length (rd_f rd) < 2 ^ 63"
  shows "section_frame up rd False beg_tim (length as) = Some ([], length as + length (frame_text ulen maxh fr))"
proof -
  have "unat (word_of_nat (length fr) :: u64) = length fr"
    using assms by (simp add: frame_text_def unsigned_of_nat take_bit_nat_eq_self)
  then show ?thesis
    unfolding section_frame_def f Let_def by (simp add: frame_text_def varint64_at)
qed

text \<open>Times come back.\<close>

lemma get_varint64_bytes: "fstGetVarint64 (varint_bytes (v :: u64) @ rest) = Some (v, length (varint_bytes v))"
  by (simp add: fstGetVarint64_def varint_scan_varint_bytes varint_value_varint_bytes)

lemma time_table_bytes: "time_table (length ts) prev (time_bytes prev ts @ rest) = Some ts"
  by (induction ts arbitrary: prev) (simp_all add: get_varint64_bytes)

section \<open>Compressed chains\<close>

text \<open>
  What is assumed of zlib and LZ4: decompression into a buffer of the original size gives
  the original, whatever follows the compressed text, and \<open>compress2\<close> does not write more
  than there is room for; fresh memory has the size that was asked for.
\<close>

definition inverse_packers :: "packers \<Rightarrow> unpackers \<Rightarrow> bool" where
  "inverse_packers pk up \<longleftrightarrow>
     (\<forall>lvl room src d junk. pk_compress2 pk lvl room src = Some d \<longrightarrow>
        length d \<le> room \<and> up_uncompress up (length src) (d @ junk) = Some src) \<and>
     (\<forall>src junk. up_LZ4_decompress_safe_partial up (pk_LZ4_compress pk src @ junk) (length src) = Some src) \<and>
     (\<forall>n. length (up_malloc up n) = n)"

definition unpacks :: "unpackers \<Rightarrow> byte \<Rightarrow> byte list \<Rightarrow> byte list \<Rightarrow> bool" where
  "unpacks up packtype key wr \<longleftrightarrow>
     (\<forall>mc n. length key \<le> n \<longrightarrow> n \<le> length mc \<longrightarrow> take (length key) mc = key \<longrightarrow>
        unpack_chain up packtype mc n (length wr) = Some wr)"

lemma pack_chain_cases:
  assumes "inverse_packers pk up" "fastpack xc = fourpack xc" "pack_chain pk xc wr = (tag, key)"
  shows "tag = 0 \<and> key = wr \<or> tag = length wr \<and> wr \<noteq> [] \<and> length key \<le> length wr \<and> unpacks up (pack_type xc) key wr"
proof -
  have junk: "\<exists>junk. take n mc = key1 @ junk" if "length key1 \<le> n" "take (length key1) mc = key1" for n and mc key1 :: "byte list"
    using that by (metis append_take_drop_id min.absorb1 take_take)
  have z: "unpacks up 0x5a key wr" if "pk_compress2 pk 4 (length wr) wr = Some key"
    unfolding unpacks_def
  proof (intro allI impI)
    fix mc :: "byte list" and n
    assume "length key \<le> n" "take (length key) mc = key"
    then obtain j where "take n mc = key @ j"
      using junk by blast
    then show "unpack_chain up 0x5a mc n (length wr) = Some wr"
      using assms(1) that by (simp add: unpack_chain_def inverse_packers_def)
  qed
  have l: "unpacks up 0x34 (pk_LZ4_compress pk wr) wr"
    unfolding unpacks_def
  proof (intro allI impI)
    fix mc :: "byte list" and n
    assume "length (pk_LZ4_compress pk wr) \<le> n" "take (length (pk_LZ4_compress pk wr)) mc = pk_LZ4_compress pk wr"
    then obtain j where "take n mc = pk_LZ4_compress pk wr @ j"
      using junk by blast
    then show "unpack_chain up 0x34 mc n (length wr) = Some wr"
      using assms(1) by (simp add: unpack_chain_def inverse_packers_def)
  qed
  show ?thesis
  proof (cases "fastpack xc")
    case True
    then show ?thesis
      using assms(2,3) l by (auto simp: pack_chain_def pack_type_def Let_def split: if_splits)
  next
    case False
    have "length key \<le> length wr" if "pk_compress2 pk 4 (length wr) wr = Some key"
      using assms(1) that unfolding inverse_packers_def by blast
    then show ?thesis
      using False assms(2,3) z by (auto simp: pack_chain_def pack_type_def split: if_splits option.splits)
  qed
qed

lemma varint32_skip_at:
  assumes "n < 2 ^ 32"
  shows "fstReaderVarint32WithSkip (varint_bytes (word_of_nat n :: u64) @ rest) =
    Some (word_of_nat n, length (varint_bytes (word_of_nat n :: u64)), rest)" "length (varint_bytes (word_of_nat n :: u64)) \<le> 5"
proof -
  have n: "unat (word_of_nat n :: u64) = n"
    using assms by (simp add: unsigned_of_nat take_bit_nat_eq_self)
  show len: "length (varint_bytes (word_of_nat n :: u64)) \<le> 5"
    using varint_length_le [of 5 "word_of_nat n :: u64"] n assms by simp
  have "(ucast (word_of_nat n :: u64) :: u32) = word_of_nat n"
    using take_bit_nat_eq_self [of n 64] assms by (simp only: unsigned_of_nat) simp
  then show "fstReaderVarint32WithSkip (varint_bytes (word_of_nat n :: u64) @ rest) =
    Some (word_of_nat n, length (varint_bytes (word_of_nat n :: u64)), rest)"
    using len by (simp add: fstReaderVarint32WithSkip_def reader_varint_def varint_scan_varint_bytes varint_value_varint_bytes)
qed

lemma chain_data_at:
  assumes f: "rd_f rd = as @ area @ rest" and at: "slice area off (length (chunk (tag, key))) = Some (chunk (tag, key))"
    and tag: "tag = 0 \<and> key = wr \<or> tag = length wr \<and> wr \<noteq> [] \<and> unpacks up packtype key wr" "tag < 2 ^ 32"
    and rest: "5 \<le> length rest" and malloc: "\<forall>n. length (up_malloc up n) = n"
  shows "\<exists>mc1. chain_data up rd packtype (length as + off) (length (chunk (tag, key))) mc = Some (wr, mc1)"
proof -
  let ?v = "varint_bytes (word_of_nat tag :: u64)" and ?f = "rd_f rd"
  obtain after where area: "drop off area = chunk (tag, key) @ after" and off: "off + length (chunk (tag, key)) \<le> length area"
    using slice_SomeD [OF at] at by (auto simp: slice_def split: if_splits)
  have fo: "drop (length as + off) ?f = ?v @ key @ after @ rest"
    using area off by (simp add: f chunk_def)
  note v = varint32_skip_at [OF tag(2)]
  have fo2: "drop (length as + off + length ?v) ?f = key @ after @ rest"
    by (rule drop_record [OF fo])
  have len: "length as + off + length ?v + length (chunk (tag, key)) \<le> length ?f"
    using off rest v(2) by (simp add: f)
  have n: "(word_of_nat tag :: u32) = 0 \<longleftrightarrow> tag = 0" "unat (word_of_nat tag :: u32) = tag"
    using tag(2) by (simp_all add: word_of_nat_32_eq_0 unat_small_32)
  show ?thesis
  proof (cases "tag = 0")
    case True
    then have "slice ?f (length as + off + length ?v) (length (chunk (tag, key)) - length ?v) = Some wr"
      using fo2 len tag(1) by (auto simp: slice_def chunk_def)
    then show ?thesis
      using True v(1) by (simp add: chain_data_def fo chunk_def)
  next
    case False
    let ?clen = "length (chunk (tag, key))" and ?mem = "if length mc < length (chunk (tag, key)) then up_malloc up (length (chunk (tag, key))) else mc"
    define got where "got = take ?clen (key @ after @ rest)"
    have sl: "slice ?f (length as + off + length ?v) ?clen = Some got"
      using len by (simp add: slice_def fo2 got_def)
    have got: "length got = ?clen" "take (length key) got = key"
      using len rest v(2) sl by (auto simp: got_def slice_def chunk_def split: if_splits)
    have room: "?clen \<le> length ?mem"
      using malloc by auto
    have mem: "poke ?mem 0 got = got @ drop ?clen ?mem"
      using room got(1) by (simp add: poke_at_0)
    have "unpack_chain up packtype (poke ?mem 0 got) ?clen tag = Some wr"
      using tag(1) False got unfolding mem unpacks_def by (auto simp: chunk_def)
    then have "chain_data up rd packtype (length as + off) ?clen mc = Some (wr, poke ?mem 0 got)"
      unfolding chain_data_def fo v(1) using False n sl by (simp add: Let_def)
    then show ?thesis
      by blast
  qed
qed

section \<open>The chains that the table leads to\<close>

lemma chain_has_next:
  assumes "j < length cs" "is_chain (cs ! j)"
  shows "last_chain cs j \<or> (\<exists>k. next_chain cs j k)"
proof (cases "last_chain cs j")
  case False
  let ?P = "\<lambda>m. j < m \<and> m < length cs \<and> is_chain (cs ! m)"
  have "\<exists>m. ?P m"
    using False assms by (auto simp: last_chain_def)
  then obtain k where "?P k" "\<forall>m < k. \<not> ?P m"
    using exists_least_iff [of ?P] by blast
  then have "next_chain cs j k"
    using assms by (auto simp: next_chain_def)
  then show ?thesis
    by blast
qed simp

lemma table_size:
  assumes lay: "layout P cs area" and read: "entry_read cs (word_of_nat (length area)) st j" and j: "j < length cs" "is_chain (cs ! j)"
    and small: "length area < 2 ^ 31"
  shows "unat (ct_lengths st ! j) = chunk_of P j" "unat (ct_table st ! j) = unat (cs ! j)"
proof -
  show "unat (ct_table st ! j) = unat (cs ! j)"
    using read j(2) by (simp add: entry_read_def unat_ucast_64)
  show "unat (ct_lengths st ! j) = chunk_of P j"
    using chain_has_next [OF j]
  proof
    assume last: "last_chain cs j"
    then have l: "ct_lengths st ! j = word_of_nat (length area) - cs ! j" "length area = unat (cs ! j) + chunk_of P j"
      using read lay j(2) by (simp_all add: entry_read_def layout_def)
    have u: "unat (word_of_nat (length area) :: u32) = length area"
      using small by (intro unat_small_32) simp
    then have "cs ! j \<le> word_of_nat (length area)"
      unfolding word_le_nat_alt u using l(2) by simp
    then have "unat (word_of_nat (length area) - cs ! j) = unat (word_of_nat (length area) :: u32) - unat (cs ! j)"
      by (rule unat_sub)
    then show ?thesis
      unfolding l(1) using u l(2) by linarith
  next
    assume "\<exists>k. next_chain cs j k"
    then obtain k where k: "next_chain cs j k" ..
    then have "ct_lengths st ! j = cs ! k - cs ! j" "unat (cs ! k) = unat (cs ! j) + chunk_of P j"
      using read lay j(2) by (simp_all add: entry_read_def layout_def)
    then show ?thesis
      by (simp add: unat_sub word_le_nat_alt)
  qed
qed

text \<open>Chains with the same bytes are compressed or not compressed both.\<close>

definition no_collision :: "packers \<Rightarrow> fstWriterContext \<Rightarrow> (nat \<Rightarrow> byte list option) \<Rightarrow> bool" where
  "no_collision pk xc W \<longleftrightarrow>
     (\<forall>i j tag tag1 key. packed pk xc W i = Some (tag, key) \<longrightarrow> packed pk xc W j = Some (tag1, key) \<longrightarrow> tag = tag1)"

lemma same_chunk_same_chain:
  assumes "inverse_packers pk up" "fastpack xc = fourpack xc" "pack_chain pk xc wr = (tag, key)" "pack_chain pk xc wr1 = (tag, key)"
  shows "wr = wr1"
proof -
  have "unpack_chain up (pack_type xc) key (length key) (length w) = Some w" if "unpacks up (pack_type xc) key w" for w
    using that unfolding unpacks_def by simp
  then show ?thesis
    using pack_chain_cases [OF assms(1-3)] pack_chain_cases [OF assms(1,2,4)] by (metis length_0_conv option.inject)
qed

lemma chain_found:
  assumes inv: "inverse_packers pk up" "fastpack xc = fourpack xc" "no_collision pk xc W"
    and lay: "layout (packed pk xc W) cs area" and small: "length area < 2 ^ 31"
    and read: "\<forall>j < length cs. entry_read cs (word_of_nat (length area)) st j"
    and f: "rd_f rd = as @ area @ rest" "5 \<le> length rest" and i: "i < length cs"
    and W: "W i = Some wr" "length wr < 2 ^ 32"
  shows "ct_table st ! i \<noteq> 0 \<and>
    (\<exists>mc1. chain_data up rd (pack_type xc) (length as + unat (ct_table st ! i)) (unat (ct_lengths st ! i)) mc = Some (wr, mc1))"
proof -
  let ?P = "packed pk xc W"
  obtain tag key where ch: "pack_chain pk xc wr = (tag, key)"
    by (cases "pack_chain pk xc wr")
  have P: "?P i = Some (tag, key)"
    using W ch by (simp add: packed_def)
  obtain j where j: "j < length cs" "is_chain (cs ! j)" "?P j = Some (tag, key)"
      "ct_table st ! i = ct_table st ! j" "ct_lengths st ! i = ct_lengths st ! j"
  proof -
    have e: "entry_ok ?P cs area i"
      using lay i by (simp add: layout_def)
    consider "is_chain (cs ! i)" | tag1 where "is_alias (cs ! i)" "alias_of (cs ! i) < i" "is_chain (cs ! alias_of (cs ! i))"
        "?P (alias_of (cs ! i)) = Some (tag1, key)"
      using e P by (auto simp: entry_ok_def)
    then show thesis
    proof cases
      case 1
      then show thesis
        using that [of i] i P by blast
    next
      case 2
      then have "tag1 = tag"
        using inv(3) P unfolding no_collision_def by blast
      then show thesis
        using 2 that [of "alias_of (cs ! i)"] i read by (auto simp: entry_read_def)
    qed
  qed
  have size: "unat (ct_lengths st ! j) = length (chunk (tag, key))" "unat (ct_table st ! j) = unat (cs ! j)"
    using table_size [OF lay _ j(1,2) small] read j(1,3) by (simp_all add: chunk_of_def)
  have "entry_ok ?P cs area j" "\<not> is_alias (cs ! j)"
    using lay j(1,2) by (simp_all add: layout_def is_chain_def)
  then have at: "slice area (unat (cs ! j)) (length (chunk (tag, key))) = Some (chunk (tag, key))"
    using j(3) by (simp add: entry_ok_def stored_at_def)
  have nonzero: "ct_table st ! j \<noteq> 0"
    using read j(1,2) by (auto simp: entry_read_def is_chain_def ucast_eq_0_32)
  have pc: "tag = 0 \<and> key = wr \<or> tag = length wr \<and> wr \<noteq> [] \<and> unpacks up (pack_type xc) key wr"
    using pack_chain_cases [OF inv(1,2) ch] by blast
  then have tag: "tag < 2 ^ 32"
    using W(2) by auto
  have malloc: "\<forall>n. length (up_malloc up n) = n"
    using inv(1) by (simp add: inverse_packers_def)
  show ?thesis
    using chain_data_at [OF f(1) at pc tag f(2) malloc, of mc] nonzero by (simp only: j(4,5) size) simp
qed

section \<open>The section\<close>

lemma layout_aliases_ok: "layout P cs area \<Longrightarrow> aliases_ok cs"
  by (auto simp: layout_def aliases_ok_def entry_ok_def is_chain_def split: option.splits)

text \<open>What there is to deliver: the changes of the signals with a chain that are not masked.\<close>

definition to_come ::
    "unpackers \<Rightarrow> block_reader \<Rightarrow> (nat \<Rightarrow> byte list option) \<Rightarrow> (nat \<Rightarrow> timed) \<Rightarrow> nat \<Rightarrow> bool" where
  "to_come up rd W p i \<longleftrightarrow>
     (masked rd i = Some False \<and> p i = []) \<or>
     (masked rd i = Some True \<and>
        (case W i of
           None \<Rightarrow> p i = []
         | Some wr \<Rightarrow> p i \<noteq> [] \<and> length wr < 2 ^ 32 \<and> chain_at up rd i wr (length wr) 0 0 (p i)))"

lemma word_of_nat_ucast: "n < 2 ^ 32 \<Longrightarrow> (ucast (word_of_nat n :: u32) :: u64) = word_of_nat n"
  by (simp only: unsigned_of_nat) (simp add: take_bit_nat_eq_self)

lemma section_chains_at:
  assumes inv: "inverse_packers pk up" "fastpack xc = fourpack xc" "no_collision pk xc W"
    and lay: "layout (packed pk xc W) (map vp_chain vps) area" and area: "length area < 2 ^ 31" "area \<noteq> []" "hd area = pack_type xc"
    and f: "rd_f rd = as @ varint_bytes (ucast maxh :: u64) @ area @ chain_index vps 0 0 0 @
        be_bytes 8 (word_of_nat (length (chain_index vps 0 0 0))) @ rest" "length (rd_f rd) < 2 ^ 63"
    and n: "length vps = unat maxh" "0 < unat maxh" "unat maxh < 2 ^ 31" "maxhandle (rd_mask rd) = maxh"
    and W: "\<forall>i < unat maxh. to_come up rd W p i"
    and times: "\<forall>i < unat maxh. \<forall>c \<in> set (p i). fst c < length tims" "length tims \<le> 2 ^ 32"
    and mem: "sum_list (map (chain_length W) [0..<unat maxh]) \<le> memreq" "memreq < 2 ^ 31"
    and fresh: "ct_table st = []" "ct_lengths st = []" "ct_pidx st = 0"
  shows "\<exists>groups st1. section_chains up rd FST_BL_VCDATA_DYN_ALIAS2 (length as)
      (length as + length (varint_bytes (ucast maxh :: u64)) + length area + length (chain_index vps 0 0 0)) memreq tims st =
        Some (concat groups, st1) \<and> changes_sorted (below (unat maxh) p) tims 0 groups"
proof -
  let ?n = "unat maxh" and ?v = "varint_bytes (ucast maxh :: u64)" and ?indx = "chain_index vps 0 0 0" and ?f = "rd_f rd"
  let ?cs = "map vp_chain vps" and ?start = "length as + length (varint_bytes (ucast maxh :: u64))"
  let ?fin = "word_of_nat (length area) :: u32"
  have end_not: "\<not> is_alias ?fin"
    using area(1) by (rule not_alias_of_small)
  have st: "fresh_tables (length vps + 1) (new_tables ?n st)"
    using n fresh by (simp add: new_tables_def fresh_tables_def)
  have "vps \<noteq> []" "2 * length vps < 2 ^ 32"
    using n by auto
  then obtain st1 where st1: "read_chain_table FST_BL_VCDATA_DYN_ALIAS2 ?indx (ucast ?fin) (new_tables ?n st) = Some st1"
      "ct_idx st1 = ?n" "\<forall>i < length vps. entry_read ?cs ?fin st1 i"
    using read_written_index [OF _ _ refl _ layout_aliases_ok [OF lay] st end_not] lay n(1) by (auto simp: layout_def)
  let ?mu = "\<lambda>i. if masked rd i = Some True then (case W i of None \<Rightarrow> [] | Some wr \<Rightarrow> wr) else []"
  have chains: "chain_present up rd (pack_type xc) ?start st1 i (?mu i) (p i) \<or> chain_absent rd st1 i (?mu i) (p i)"
    if i: "i < ?n" for i
  proof (cases "masked rd i = Some True \<and> W i \<noteq> None")
    case True
    then obtain wr where wr: "W i = Some wr" "masked rd i = Some True"
      by auto
    have p: "p i \<noteq> []" "length wr < 2 ^ 32" "chain_at up rd i wr (length wr) 0 0 (p i)"
      using W i wr by (auto simp: to_come_def)
    have "5 \<le> length (?indx @ be_bytes 8 (word_of_nat (length ?indx)) @ rest)"
      by (simp del: be_bytes.simps)
    then have found: "ct_table st1 ! i \<noteq> 0 \<and> (\<exists>mc1. chain_data up rd (pack_type xc) (length (as @ ?v) + unat (ct_table st1 ! i))
        (unat (ct_lengths st1 ! i)) mc = Some (wr, mc1))" for mc
      using chain_found [OF inv lay area(1), of st1 rd "as @ ?v"] st1(3) f(1) i n(1) wr(1) p(2) by simp
    then show ?thesis
      using wr p by (simp add: chain_present_def add.assoc)
  next
    case False
    then have "p i = []"
      using W i by (auto simp: to_come_def split: option.splits)
    moreover have "ct_table st1 ! i = 0 \<or> masked rd i = Some False"
    proof (cases "W i")
      case None
      then have "?cs ! i = 0"
        using lay i n(1) by (auto simp: layout_def entry_ok_def packed_def)
      then show ?thesis
        using st1(3) i n(1) by (simp add: entry_read_def)
    next
      case (Some wr)
      then show ?thesis
        using False W i by (auto simp: to_come_def)
    qed
    ultimately show ?thesis
      using False by (auto simp: chain_absent_def split: option.splits)
  qed
  have len: "length (?mu i) \<le> chain_length W i" for i
    by (simp add: chain_length_def split: option.split)
  then have "sum_list (map (\<lambda>i. length (?mu i)) [0..<?n]) \<le> sum_list (map (chain_length W) [0..<?n])"
    by (intro sum_list_mono) simp
  then have "sum_list (map (\<lambda>i. length (?mu i)) [0..<?n]) \<le> min (memreq + 66) (2 ^ 32 - 1)"
    using mem by simp
  then obtain groups where g: "section_changes up rd (pack_type xc) ?start memreq tims st1 = Some (concat groups)"
      "changes_sorted (below ?n p) tims 0 groups"
    using section_changes_run [of ?n st1 rd up "pack_type xc" ?start ?mu p tims memreq] chains times st1(2) n(4) by auto
  have clen: "unat (word_of_nat (length ?indx) :: u64) = length ?indx"
    using f by (simp add: unsigned_of_nat take_bit_nat_eq_self del: be_bytes.simps)
  have tab: "ct_table (new_tables ?n st) \<noteq> []"
    using st by (simp add: fresh_tables_def)
  have maxh: "unat (ucast maxh :: u64) = ?n"
    by (rule unat_ucast_64)
  have 1: "fstReaderVarint64 (drop (length as) ?f) = Some (ucast maxh, area @ ?indx @ be_bytes 8 (word_of_nat (length ?indx)) @ rest)"
    by (simp add: f(1) varint64_at del: be_bytes.simps)
  have 2: "length ?f - length (area @ ?indx @ be_bytes 8 (word_of_nat (length ?indx)) @ rest) = ?start"
    by (simp add: f(1) del: be_bytes.simps)
  have 3: "peek ?f ?start = Some (pack_type xc)"
    using area(2,3) by (cases area) (simp_all add: f(1) peek_Some_iff nth_append del: be_bytes.simps)
  have 4: "read64 ?f (?start + length area + length ?indx) = Some (word_of_nat (length ?indx))"
    by (rule read64_at [where as = "as @ ?v @ area @ ?indx"]) (simp_all add: f(1) del: be_bytes.simps)
  have 5: "slice ?f (?start + length area) (length ?indx) = Some ?indx"
    by (rule slice_at [where as = "as @ ?v @ area"]) (simp_all add: f(1) del: be_bytes.simps)
  have "section_chains up rd FST_BL_VCDATA_DYN_ALIAS2 (length as) (?start + length area + length ?indx) memreq tims st =
      Some (concat groups, st1)"
    unfolding section_chains_def Let_def 1
    using 2 3 4 5 clen tab st1(1) g(1) word_of_nat_ucast [of "length area"] area(1) by (simp add: maxh)
  then show ?thesis
    using g(2) by blast
qed

end
