(* ===== verification/Fst_File.thy ===== *)
theory Fst_File
  imports Fst_Roundtrip
begin

text \<open>
  A file with one section: what was told to the writer before the flush is what the reader
  delivers.
\<close>

section \<open>Reading a section in its file\<close>

lemma iter_section_at:
  assumes inv: "inverse_packers pk up" "fastpack xc = fourpack xc" "no_collision pk xc W"
    and lay: "layout (packed pk xc W) (map vp_chain vps) area" and area: "length area < 2 ^ 31" "area \<noteq> []" "hd area = pack_type xc"
    and body: "body = section_body beg_tim end_tim (word_of_nat memreq) (frame_text flen fmax fr) maxh area (chain_index vps 0 0 0)
       timesb ulen nitems"
    and f: "rd_f rd = pre @ section_text body @ rest" "length (rd_f rd) < 2 ^ 63"
    and n: "length vps = unat maxh" "0 < unat maxh" "unat maxh < 2 ^ 31" "maxhandle (rd_mask rd) = maxh"
    and W: "\<forall>i < unat maxh. to_come up rd W p i"
    and times: "\<forall>i < unat maxh. \<forall>c \<in> set (p i). fst c < length tims" "length tims \<le> 2 ^ 32"
    and mem: "sum_list (map (chain_length W) [0..<unat maxh]) \<le> memreq" "memreq < 2 ^ 31"
    and fresh: "ct_table st = []" "ct_lengths st = []" "ct_pidx st = 0"
    and data: "(if unat ulen \<noteq> length timesb then up_uncompress up (unat ulen) timesb else Some timesb) = Some tmem"
      "length tmem = unat ulen" "time_table (unat nitems) 0 tmem = Some tims" "tims \<noteq> []" "beg_tim = hd tims"
  shows "\<exists>groups st1. iter_section up rd FST_BL_VCDATA_DYN_ALIAS2 (length pre + 1) (8 + length body) beg_tim True False st =
      Some (Section (concat groups) st1) \<and> changes_sorted (below (unat maxh) p) tims 0 groups"
proof -
  let ?f = "rd_f rd" and ?frame = "frame_text flen fmax fr" and ?v = "varint_bytes (ucast maxh :: u64)"
  let ?indx = "chain_index vps 0 0 0" and ?il = "be_bytes 8 (word_of_nat (length (chain_index vps 0 0 0))) :: byte list"
  let ?L = "be_bytes 8 (word_of_nat (8 + length body)) :: byte list" and ?M = "be_bytes 8 (word_of_nat memreq) :: byte list"
  let ?as = "pre @ [FST_BL_VCDATA_DYN_ALIAS2] @ ?L @ be_bytes 8 beg_tim @ be_bytes 8 end_tim @ ?M"
  let ?tail = "timesb @ be_bytes 8 ulen @ be_bytes 8 (word_of_nat (length timesb)) @ be_bytes 8 nitems @ rest"
  have f1: "?f = ?as @ ?frame @ ?v @ area @ ?indx @ ?il @ ?tail"
    by (simp add: f(1) section_text_def body section_body_def del: be_bytes.simps)
  have las: "length ?as = length pre + 33"
    by (simp del: be_bytes.simps)
  have mreq: "read64 ?f (length pre + 1 + 24) = Some (word_of_nat memreq)"
    by (rule read64_at [where as = "pre @ [FST_BL_VCDATA_DYN_ALIAS2] @ ?L @ be_bytes 8 beg_tim @ be_bytes 8 end_tim"])
      (simp_all add: f1 del: be_bytes.simps)
  have memreq: "unat (word_of_nat memreq :: u64) = memreq"
    using mem(2) by (simp add: unsigned_of_nat take_bit_nat_eq_self)
  let ?fin = "length pre + 1 + (8 + length body)"
  let ?before = "?as @ ?frame @ ?v @ area @ ?indx @ ?il"
  have endp: "?fin = length ?before + length timesb + 24"
    by (simp add: body section_body_def del: be_bytes.simps)
  have f2: "?f = ?before @ timesb @ be_bytes 8 ulen @ be_bytes 8 (word_of_nat (length timesb)) @ be_bytes 8 nitems @ rest"
    by (simp add: f1 del: be_bytes.simps)
  note t = section_times_at [OF f2 endp f(2) data(1-3)]
  have clen: "unat (word_of_nat (length timesb) :: u64) = length timesb"
    using f(2) f1 by (simp add: unsigned_of_nat take_bit_nat_eq_self del: be_bytes.simps)
  have fr: "section_frame up rd False beg_tim (length pre + 1 + 32) = Some ([], length ?as + length ?frame)"
  proof -
    have "length pre + 1 + 32 = length ?as"
      by (simp add: las)
    then show ?thesis
      using section_frame_at [OF f1 f(2), of up beg_tim] by (simp only:)
  qed
  have f3: "rd_f rd = (?as @ ?frame) @ varint_bytes (ucast maxh :: u64) @ area @ ?indx @ be_bytes 8 (word_of_nat (length ?indx)) @ ?tail"
    by (simp add: f1 del: be_bytes.simps)
  have pos: "length (?as @ ?frame) = length ?as + length ?frame"
    "?fin - 24 - length timesb - 8 = length (?as @ ?frame) + length ?v + length area + length ?indx"
    unfolding endp by simp_all
  obtain groups st1 where g: "section_chains up rd FST_BL_VCDATA_DYN_ALIAS2 (length ?as + length ?frame) (?fin - 24 - length timesb - 8)
      memreq tims st = Some (concat groups, st1)" "changes_sorted (below (unat maxh) p) tims 0 groups"
    using section_chains_at [OF inv lay area f3 f(2) n W times mem fresh] unfolding pos by blast
  have "\<not> ?fin < 24" "\<not> length timesb > 8 + length body" "\<not> ?fin < 32 + length timesb"
    using endp by (simp_all add: body section_body_def del: be_bytes.simps)
  then have "iter_section up rd FST_BL_VCDATA_DYN_ALIAS2 (length pre + 1) (8 + length body) beg_tim True False st =
      Some (Section (concat groups) st1)"
    unfolding iter_section_def Let_def mreq memreq t bind.bind_lunit clen
    using fr g(1) data(4,5) by simp
  then show ?thesis
    using g(2) by blast
qed

text \<open>The block with the header of the file, one section, and then nothing or a section without end.\<close>

definition header_block :: "byte list \<Rightarrow> bool" where
  "header_block hdr \<longleftrightarrow> (\<exists>rest. hdr = 0 # be_bytes 8 329 @ rest \<and> length rest = 321)"

lemma iter_blocks_end:
  assumes "rd_f rd = as @ tail" "tail = [] \<or> hd tail = FST_BL_SKIP"
  shows "iter_blocks up rd (length as) sec skipped st = Some []"
  using assms by (subst iter_blocks.simps) (cases tail, simp_all add: Let_def)

lemma iter_blocks_header:
  assumes "rd_f rd = hdr @ rest" "header_block hdr"
  shows "iter_blocks up rd 0 sec skipped st = iter_blocks up rd (length hdr) sec skipped st"
proof -
  obtain h where hdr: "hdr = 0 # be_bytes 8 329 @ h" "length h = 321"
    using assms(2) by (auto simp: header_block_def)
  have r: "read64 (rd_f rd) (0 + 1) = Some 329"
    by (rule read64_at [where as = "[0]" and rest = "h @ rest"]) (simp_all add: assms(1) hdr(1) del: be_bytes.simps)
  have f: "length (rd_f rd) > 0" "rd_f rd ! 0 = 0"
    by (simp_all add: assms(1) hdr(1))
  have "length hdr = 330"
    by (simp add: hdr del: be_bytes.simps)
  then show ?thesis
    using f r by (subst iter_blocks.simps) (simp add: Let_def is_vcdata_def)
qed

lemma iter_blocks_section:
  assumes f: "rd_f rd = pre @ section_text body @ tail" "length (rd_f rd) < 2 ^ 63" and tail: "tail = [] \<or> hd tail = FST_BL_SKIP \<or> rd_vc_section_count rd = 1"
    and body: "body = be_bytes 8 beg_tim @ be_bytes 8 end_tim @ more'" and limit: "rd_limit_range rd = None"
    and iter: "iter_section up rd FST_BL_VCDATA_DYN_ALIAS2 (length pre + 1) (8 + length body) beg_tim True skipped st = Some (Section evs st1)"
  shows "iter_blocks up rd (length pre) 0 skipped st = Some evs"
proof -
  let ?L = "be_bytes 8 (word_of_nat (8 + length body)) :: byte list"
  have len: "unat (word_of_nat (8 + length body) :: u64) = 8 + length body"
    using f by (simp only: unsigned_of_nat) (simp add: section_text_def take_bit_nat_eq_self del: be_bytes.simps)
  have r: "read64 (rd_f rd) (length pre + 1) = Some (word_of_nat (8 + length body))"
    by (rule read64_at [where as = "pre @ [FST_BL_VCDATA_DYN_ALIAS2]"]) (simp_all add: f(1) section_text_def del: be_bytes.simps)
  have rb: "read64 (rd_f rd) (length pre + 1 + 8) = Some beg_tim" "read64 (rd_f rd) (length pre + 1 + 16) = Some end_tim"
    by (rule read64_at [where as = "pre @ [FST_BL_VCDATA_DYN_ALIAS2] @ ?L"],
        simp_all add: f(1) section_text_def body del: be_bytes.simps)
      (rule read64_at [where as = "pre @ [FST_BL_VCDATA_DYN_ALIAS2] @ ?L @ be_bytes 8 beg_tim"],
        simp_all add: body del: be_bytes.simps)
  have head: "length pre < length (rd_f rd)" "rd_f rd ! length pre = FST_BL_VCDATA_DYN_ALIAS2"
    by (simp_all add: f(1) section_text_def)
  have next_pos: "length pre + 1 + (8 + length body) = length (pre @ section_text body)"
    by (simp add: section_text_def del: be_bytes.simps)
  have "length (pre @ section_text body) < 2 ^ 63"
    using f by simp
  then have small: "\<not> length pre + 1 + (8 + length body) \<ge> 2 ^ 63"
    unfolding next_pos by simp
  have tl: "(if ucast (0 + 1 :: u32) = rd_vc_section_count rd then Some evs
      else map_option ((@) evs) (iter_blocks up rd (length pre + 1 + (8 + length body)) (0 + 1) skipped st1)) = Some evs"
    unfolding next_pos using tail iter_blocks_end [of rd "pre @ section_text body" tail] f(1) by auto
  have nz: "(word_of_nat (8 + length body) :: u64) \<noteq> 0"
    using len by (metis unsigned_0 add_eq_0_iff_both_eq_0 zero_neq_numeral)
  have conds: "\<not> (length (rd_f rd) \<le> length pre \<or> FST_BL_VCDATA_DYN_ALIAS2 = FST_BL_SKIP)" "is_vcdata FST_BL_VCDATA_DYN_ALIAS2"
    using head(1) by (simp_all add: is_vcdata_def)
  show ?thesis
    by (subst iter_blocks.simps)
      (simp only: Let_def r rb len head(2) conds small nz limit iter option.case section_result.case if_False if_True
        prod.case simp_thms tl)
qed

end
