(* ===== verification/Fst_Written.thy ===== *)
theory Fst_Written
  imports Fst_File
begin

text \<open>
  The writer's side of a file with one section: the header that the first time writes, and
  what the log says about the chains that a flush finds.
\<close>

section \<open>The open section\<close>

text \<open>A file that has its header, and nothing else.\<close>

definition file_fresh :: "fstWriterContext \<Rightarrow> bool" where
  "file_fresh xc \<longleftrightarrow> (\<exists>hdr. xc_handle xc = xc_handle (appended hdr xc) \<and> header_block hdr) \<and>
     \<not> already_in_flush xc \<and> \<not> vc_emitted xc"

lemma split_bytes: "n \<le> length r \<Longrightarrow> \<exists>a b. r = a @ b \<and> length a = n \<and> length b = length r - n"
  by (intro exI [of _ "take n r"] exI [of _ "drop n r"]) simp

text \<open>A header of which the writer changes the times and the numbers, but not \<open>c\<close> and \<open>e\<close>.\<close>

definition headed :: "byte list \<Rightarrow> byte list \<Rightarrow> byte list \<Rightarrow> bool" where
  "headed c e hdr \<longleftrightarrow> length c = 16 \<and> length e = 257 \<and>
     (\<exists>a b d1 d2 d3 d4. hdr = (0 # be_bytes 8 329) @ a @ b @ c @ d1 @ d2 @ d3 @ d4 @ e \<and>
       length a = 8 \<and> length b = 8 \<and> length d1 = 8 \<and> length d2 = 8 \<and> length d3 = 8 \<and> length d4 = 8)"

lemma headed_block: "headed c e hdr \<Longrightarrow> header_block hdr"
  by (auto simp: headed_def header_block_def simp del: be_bytes.simps)

lemma header_block_headed:
  assumes "header_block hdr"
  shows "\<exists>c e. headed c e hdr"
proof -
  obtain r where r: "hdr = 0 # be_bytes 8 329 @ r" "length r = 321"
    using assms by (auto simp: header_block_def)
  obtain a r1 where 1: "r = a @ r1" "length a = 8" "length r1 = 313"
    using split_bytes [of 8 r] r(2) by auto
  obtain b r2 where 2: "r1 = b @ r2" "length b = 8" "length r2 = 305"
    using split_bytes [of 8 r1] 1(3) by auto
  obtain c r3 where 3: "r2 = c @ r3" "length c = 16" "length r3 = 289"
    using split_bytes [of 16 r2] 2(3) by auto
  obtain d1 r4 where 4: "r3 = d1 @ r4" "length d1 = 8" "length r4 = 281"
    using split_bytes [of 8 r3] 3(3) by auto
  obtain d2 r5 where 5: "r4 = d2 @ r5" "length d2 = 8" "length r5 = 273"
    using split_bytes [of 8 r4] 4(3) by auto
  obtain d3 r6 where 6: "r5 = d3 @ r6" "length d3 = 8" "length r6 = 265"
    using split_bytes [of 8 r5] 5(3) by auto
  obtain d4 e where 7: "r6 = d4 @ e" "length d4 = 8" "length e = 257"
    using split_bytes [of 8 r6] 6(3) by auto
  have "hdr = (0 # be_bytes 8 329) @ a @ b @ c @ d1 @ d2 @ d3 @ d4 @ e"
    by (simp only: r(1) 1(1) 2(1) 3(1) 4(1) 5(1) 6(1) 7(1) append.simps append_assoc)
  then show ?thesis
    unfolding headed_def using 1(2) 2(2) 3(2) 4(2) 5(2) 6(2) 7(2,3) by blast
qed

text \<open>What the values and the times of a file do not change.\<close>

definition same_design :: "fstWriterContext \<Rightarrow> fstWriterContext \<Rightarrow> bool" where
  "same_design xc xc1 \<longleftrightarrow> geom_handle xc1 = geom_handle xc \<and> hier_handle xc1 = hier_handle xc \<and>
     hier_file_len xc1 = hier_file_len xc \<and> numscopes xc1 = numscopes xc \<and> numsigs xc1 = numsigs xc \<and>
     xc_maxhandle xc1 = xc_maxhandle xc \<and> secnum xc1 = secnum xc \<and> blackouts xc1 = blackouts xc \<and>
     fourpack xc1 = fourpack xc \<and> compress_hier xc1 = compress_hier xc \<and> repack_on_close xc1 = repack_on_close xc \<and>
     size_limit_locked xc1 = size_limit_locked xc"

lemma same_design_trans: "same_design x y \<Longrightarrow> same_design y z \<Longrightarrow> same_design x z"
  by (simp add: same_design_def)

lemma same_file_design: "same_file xc xc1 \<Longrightarrow> same_design xc xc1 \<and> firsttime xc1 = firsttime xc"
  by (auto simp: same_file_def same_design_def)

definition file_headed :: "byte list \<Rightarrow> byte list \<Rightarrow> fstWriterContext \<Rightarrow> bool" where
  "file_headed c e xc \<longleftrightarrow> (\<exists>hdr. xc_handle xc = xc_handle (appended hdr xc) \<and> headed c e hdr) \<and>
     \<not> already_in_flush xc \<and> \<not> vc_emitted xc"

lemma file_fresh_headed: "file_fresh xc \<longleftrightarrow> (\<exists>c e. file_headed c e xc)"
  unfolding file_fresh_def file_headed_def using headed_block header_block_headed by blast

lemma create_mmaps_file:
  assumes "xc_handle xc = xc_handle (appended hdr xc)" "headed c e hdr"
  shows "\<exists>hdr1. fstWriterCreateMmaps xc = appended hdr1 (xc\<lparr>valpos_mapped := valpos_mapped xc \<or> xc_maxhandle xc \<noteq> 0\<rparr>) \<and>
    headed c e hdr1"
proof -
  obtain a b d1 d2 d3 d4 where hdr: "hdr = (0 # be_bytes 8 329) @ a @ b @ c @ d1 @ d2 @ d3 @ d4 @ e"
    and len: "length a = 8" "length b = 8" "length c = 16" "length d1 = 8" "length d2 = 8" "length d3 = 8" "length d4 = 8"
      "length e = 257"
    using assms(2) unfolding headed_def by blast
  have x: "xc = at_pos hdr [] xc"
    using assms(1) appended_id [of xc hdr] by (simp add: appended_at)
  let ?h = "0 # be_bytes 8 329 :: byte list" and ?fa = "be_bytes 8 (firsttime xc)" and ?cu = "be_bytes 8 (curtime xc)"
  let ?n1 = "be_bytes 8 (ucast (numscopes xc)) :: byte list" and ?n2 = "be_bytes 8 (ucast (numsigs xc)) :: byte list"
    and ?n3 = "be_bytes 8 (ucast (xc_maxhandle xc)) :: byte list" and ?n4 = "be_bytes 8 (ucast (secnum xc)) :: byte list"
  have 1: "fstWriterFseeko 9 (at_pos hdr [] xc) = at_pos ?h (a @ b @ c @ d1 @ d2 @ d3 @ d4 @ e) xc"
    by (rule seek_at) (simp_all add: hdr del: be_bytes.simps)
  have 2: "put64 (firsttime xc) (at_pos ?h (a @ b @ c @ d1 @ d2 @ d3 @ d4 @ e) xc) = at_pos (?h @ ?fa) (b @ c @ d1 @ d2 @ d3 @ d4 @ e) xc"
    by (rule put64_at) (simp add: len)
  have 3: "put64 (curtime xc) (at_pos (?h @ ?fa) (b @ c @ d1 @ d2 @ d3 @ d4 @ e) xc) = at_pos ((?h @ ?fa) @ ?cu) (c @ d1 @ d2 @ d3 @ d4 @ e) xc"
    by (rule put64_at) (simp add: len)
  have 4: "fstWriterFseeko 41 (at_pos ((?h @ ?fa) @ ?cu) (c @ d1 @ d2 @ d3 @ d4 @ e) xc) =
      at_pos ((?h @ ?fa) @ ?cu @ c) (d1 @ d2 @ d3 @ d4 @ e) xc"
    by (rule seek_at) (simp_all add: len del: be_bytes.simps)
  have 5: "put64 (ucast (numscopes xc)) (at_pos ((?h @ ?fa) @ ?cu @ c) (d1 @ d2 @ d3 @ d4 @ e) xc) =
      at_pos (((?h @ ?fa) @ ?cu @ c) @ ?n1) (d2 @ d3 @ d4 @ e) xc"
    by (rule put64_at) (simp add: len)
  have 6: "put64 (ucast (numsigs xc)) (at_pos (((?h @ ?fa) @ ?cu @ c) @ ?n1) (d2 @ d3 @ d4 @ e) xc) =
      at_pos ((((?h @ ?fa) @ ?cu @ c) @ ?n1) @ ?n2) (d3 @ d4 @ e) xc"
    by (rule put64_at) (simp add: len)
  have 7: "put64 (ucast (xc_maxhandle xc)) (at_pos ((((?h @ ?fa) @ ?cu @ c) @ ?n1) @ ?n2) (d3 @ d4 @ e) xc) =
      at_pos (((((?h @ ?fa) @ ?cu @ c) @ ?n1) @ ?n2) @ ?n3) (d4 @ e) xc"
    by (rule put64_at) (simp add: len)
  have 8: "put64 (ucast (secnum xc)) (at_pos (((((?h @ ?fa) @ ?cu @ c) @ ?n1) @ ?n2) @ ?n3) (d4 @ e) xc) =
      at_pos ((((((?h @ ?fa) @ ?cu @ c) @ ?n1) @ ?n2) @ ?n3) @ ?n4) e xc"
    by (rule put64_at) (simp add: len)
  let ?new = "((((((?h @ ?fa) @ ?cu @ c) @ ?n1) @ ?n2) @ ?n3) @ ?n4) @ e"
  have 9: "fstWriterFseeko (int (length hdr)) (at_pos ((((((?h @ ?fa) @ ?cu @ c) @ ?n1) @ ?n2) @ ?n3) @ ?n4) e xc) = at_pos ?new [] xc"
    by (rule seek_at) (simp_all add: hdr len del: be_bytes.simps)
  have f: "firsttime (at_pos p q xc) = firsttime xc" "numscopes (at_pos p q xc) = numscopes xc" "numsigs (at_pos p q xc) = numsigs xc"
    "xc_maxhandle (at_pos p q xc) = xc_maxhandle xc" "secnum (at_pos p q xc) = secnum xc" "valpos_mapped (at_pos p q xc) = valpos_mapped xc"
    for p q
    by (simp_all add: at_pos_def)
  have "fstWriterCreateMmaps (at_pos hdr [] xc) =
      (at_pos ?new [] xc)\<lparr>valpos_mapped := valpos_mapped xc \<or> xc_maxhandle xc \<noteq> 0\<rparr>"
    unfolding fstWriterCreateMmaps_def Let_def at_pos_fields
    by (simp only: of_nat_numeral 1 2 3 4 5 6 7 8 9 f at_pos_fields)
  then have "fstWriterCreateMmaps xc = appended ?new (xc\<lparr>valpos_mapped := valpos_mapped xc \<or> xc_maxhandle xc \<noteq> 0\<rparr>)"
    by (subst x) (simp add: appended_def at_pos_def)
  moreover have "headed c e ?new"
    unfolding headed_def
    by (intro conjI len(3,8) exI [of _ ?fa] exI [of _ ?cu] exI [of _ ?n1] exI [of _ ?n2] exI [of _ ?n3] exI [of _ ?n4])
      (simp_all del: be_bytes.simps)
  ultimately show ?thesis
    by blast
qed

text \<open>The first time leaves a file with its header and the header of a section.\<close>

lemma emit_header_open:
  "\<exists>frame. length frame < 2 ^ 32 \<and> fstWriterEmitSectionHeader pk (appended d xc) =
     appended (d @ FST_BL_SKIP # be_bytes 8 0 @ be_bytes 8 (if is_initial_time xc then firsttime xc else curtime xc) @
        be_bytes 8 (curtime xc) @ be_bytes 8 0 @ frame_text (ucast (maxvalpos xc)) (ucast (xc_maxhandle xc)) frame)
      (xc\<lparr>section_start := length d + 1, section_header_only := True\<rparr>)"
proof -
  have f: "put64 v ((appended d x)\<lparr>section_start := n\<rparr>) = appended (d @ be_bytes 8 v) (x\<lparr>section_start := n\<rparr>)"
    "(appended d x)\<lparr>section_start := n\<rparr> = appended d (x\<lparr>section_start := n\<rparr>)"
    "(appended d x)\<lparr>section_header_only := True\<rparr> = appended d (x\<lparr>section_header_only := True\<rparr>)"
    "maxvalpos (appended d x) = maxvalpos x" "is_initial_time (appended d x) = is_initial_time x" "curtime (appended d x) = curtime x"
    "firsttime (appended d x) = firsttime x" "xc_maxhandle (appended d x) = xc_maxhandle x" "curval_mem (appended d x) = curval_mem x"
    for d x v n
    by (simp_all add: appended_def put64_def put_def f_write_def)
  let ?fr = "case pk_compress2 pk 4 (unat (maxvalpos xc)) (take (unat (maxvalpos xc)) (curval_mem xc)) of
          Some dmem \<Rightarrow> if length dmem < unat (maxvalpos xc) then dmem else take (unat (maxvalpos xc)) (curval_mem xc)
        | None \<Rightarrow> take (unat (maxvalpos xc)) (curval_mem xc)"
  have "length ?fr \<le> unat (maxvalpos xc)"
    by (auto split: option.split)
  also have "\<dots> < 2 ^ 32"
    using unsigned_less [of "maxvalpos xc", where ?'a = nat] by simp
  finally have "length ?fr < 2 ^ 32" .
  then show ?thesis
    unfolding fstWriterEmitSectionHeader_def Let_def put_appended f put64_appended put_varint_appended appended_handle
    by (intro exI [of _ ?fr] conjI) (assumption, simp add: frame_text_def)
qed

lemma first_time_file:
  assumes "vc_fresh xc" "file_headed c e xc"
  shows "\<exists>xc1 hdr frame. run_vc pk (Time_change tim) xc = Some xc1 \<and> headed c e hdr \<and>
    section_open xc1 hdr tim (frame_text (ucast (maxvalpos xc)) (ucast (xc_maxhandle xc)) frame) \<and>
    length frame < 2 ^ 32 \<and> \<not> already_in_flush xc1 \<and> fastpack xc1 = fastpack xc \<and> fourpack xc1 = fourpack xc \<and> curval_mem xc1 = curval_mem xc \<and>
    map vp_offs (valpos_mem xc1) = map vp_offs (valpos_mem xc) \<and> same_design xc xc1 \<and> firsttime xc1 = tim \<and> curtime xc1 = tim"
proof -
  obtain hdr where h: "xc_handle xc = xc_handle (appended hdr xc)" "headed c e hdr"
    using assms(2) by (auto simp: file_headed_def)
  have "\<exists>hdr1 mapped. (if \<not> valpos_mapped xc then fstWriterCreateMmaps xc else xc) = appended hdr1 (xc\<lparr>valpos_mapped := mapped\<rparr>) \<and>
      headed c e hdr1"
  proof (cases "valpos_mapped xc")
    case True
    then show ?thesis
      using h by (intro exI [of _ hdr] exI [of _ True]) (simp add: appended_def)
  qed (use create_mmaps_file [OF h] in auto)
  then obtain hdr1 mapped where m: "(if \<not> valpos_mapped xc then fstWriterCreateMmaps xc else xc) =
      appended hdr1 (xc\<lparr>valpos_mapped := mapped\<rparr>)" "headed c e hdr1"
    by blast
  let ?x = "xc\<lparr>valpos_mapped := mapped, firsttime := tim, curtime := 0, vchg_mem := mem_store 0 [0x21] (vchg_mem xc), vchg_siz := 1\<rparr>"
  obtain frame where fr: "length frame < 2 ^ 32" "fstWriterEmitSectionHeader pk (appended hdr1 ?x) =
     appended (hdr1 @ FST_BL_SKIP # be_bytes 8 0 @ be_bytes 8 tim @ be_bytes 8 0 @ be_bytes 8 0 @
        frame_text (ucast (maxvalpos xc)) (ucast (xc_maxhandle xc)) frame)
      (?x\<lparr>section_start := length hdr1 + 1, section_header_only := True\<rparr>)"
    using emit_header_open [of pk hdr1 ?x] assms(1) by (auto simp: vc_fresh_def)
  have "\<not> vc_emitted xc"
    using assms(2) by (simp add: file_headed_def)
  then have "((appended hdr1 (xc\<lparr>valpos_mapped := mapped\<rparr>))\<lparr>firsttime := (if vc_emitted (appended hdr1 (xc\<lparr>valpos_mapped := mapped\<rparr>)) then 0 else tim), curtime := 0\<rparr>)
      \<lparr>vchg_mem := mem_store 0 [0x21] (vchg_mem xc), vchg_siz := 1\<rparr> = appended hdr1 ?x"
    "vchg_mem ((appended hdr1 (xc\<lparr>valpos_mapped := mapped\<rparr>))\<lparr>firsttime := (if vc_emitted (appended hdr1 (xc\<lparr>valpos_mapped := mapped\<rparr>)) then 0 else tim), curtime := 0\<rparr>) = vchg_mem xc"
    by (simp_all add: appended_def)
  then have "first_time pk tim xc = (fstWriterEmitSectionHeader pk (appended hdr1 ?x))
      \<lparr>valpos_mem := map (\<lambda>vm. vm\<lparr>vp_chain := 0, vp_tidx := 0\<rparr>) (valpos_mem (fstWriterEmitSectionHeader pk (appended hdr1 ?x))),
       is_initial_time := False\<rparr>"
    unfolding first_time_def Let_def m(1) by simp
  note ft = this [unfolded fr(2)]
  let ?xc0 = "first_time pk tim xc"
  have "run_vc pk (Time_change tim) xc = Some ((time_put (tim - curtime ?xc0) ?xc0)\<lparr>curtime := tim\<rparr>)"
    using assms(1) by (simp add: fstWriterEmitTimeChange_def vc_fresh_def Let_def)
  moreover have "section_open ((time_put (tim - curtime ?xc0) ?xc0)\<lparr>curtime := tim\<rparr>) hdr1 tim
      (frame_text (ucast (maxvalpos xc)) (ucast (xc_maxhandle xc)) frame)"
    unfolding section_open_def ft by (intro conjI exI [of _ 0]) (simp_all add: time_put_def appended_def)
  ultimately show ?thesis
    using m(2) assms(2) fr(1)
    by (intro exI [of _ "(time_put (tim - curtime ?xc0) ?xc0)\<lparr>curtime := tim\<rparr>"] exI [of _ hdr1] exI [of _ frame] conjI)
      (simp_all add: ft time_put_def appended_def file_headed_def same_design_def comp_def)
qed

end
