(* ===== verification/Fst_File_Log.thy ===== *)
theory Fst_File_Log
  imports Fst_Written
begin

text \<open>
  The log of the calls seen from the flush: its times are in order, its texts are bounded by
  the calls, and the chains that the flush finds in memory are the texts of the log.
\<close>

section \<open>Times of the log\<close>

definition log_ok :: "full_log \<Rightarrow> bool" where
  "log_ok l \<longleftrightarrow> (case l of (tims, lg) \<Rightarrow>
     (\<forall>i. sorted (map (unat \<circ> fst) (rev (lg i))) \<and> (\<forall>e \<in> set (lg i). unat (fst e) < length tims)))"

lemma log_ok_change:
  assumes "log_ok (tims, lg)" "tims \<noteq> []" "length tims \<le> 2 ^ 28"
  shows "log_ok (log_change h v (tims, lg))"
proof -
  have "unat (word_of_nat (length tims - 1) :: u32) = length tims - 1"
    using assms(3) by (intro unat_small_32) simp
  moreover have "unat (fst e) \<le> length tims - 1" if "e \<in> set (lg i)" for e i
    using assms(1) that by (fastforce simp: log_ok_def)
  ultimately show ?thesis
    using assms(1,2) by (auto simp: log_ok_def log_change_def sorted_append simp del: of_nat_diff)
qed

lemma log_call_times:
  assumes "log_call c (tims, lg) = (tims1, lg1)"
  shows "\<exists>more'. tims1 = tims @ more' \<and> length more' \<le> 1"
  using assms by (cases c) (auto simp: log_change_def)

lemma log_ok_call:
  assumes "log_ok (tims, lg)" "tims \<noteq> []" "length tims \<le> 2 ^ 28"
  shows "log_ok (log_call c (tims, lg))"
proof (cases c)
  case (Time_change tim)
  then show ?thesis
    using assms(1) by (fastforce simp: log_ok_def)
qed (simp_all only: log_call.simps log_ok_change [OF assms])

lemma log_calls_ok:
  assumes "log_ok (tims, lg)" "tims \<noteq> []" "length tims + length cs \<le> 2 ^ 28" "log_calls cs (tims, lg) = (tims1, lg1)"
  shows "log_ok (tims1, lg1) \<and> (\<exists>more'. tims1 = tims @ more' \<and> length more' \<le> length cs)"
  using assms
proof (induction cs arbitrary: tims lg)
  case (Cons c cs)
  obtain tims2 lg2 where 2: "log_call c (tims, lg) = (tims2, lg2)"
    by (cases "log_call c (tims, lg)")
  obtain m where m: "tims2 = tims @ m" "length m \<le> 1"
    using log_call_times [OF 2] by blast
  have "log_ok (tims2, lg2)"
    using log_ok_call [OF Cons.prems(1,2), of c] Cons.prems(3) 2 by simp
  moreover have "log_calls cs (tims2, lg2) = (tims1, lg1)"
    using Cons.prems(4) 2 by (simp add: log_calls_def)
  ultimately have "log_ok (tims1, lg1) \<and> (\<exists>more'. tims1 = tims2 @ more' \<and> length more' \<le> length cs)"
    using Cons.IH [of tims2 lg2] Cons.prems(2,3) m by simp
  then show ?case
    using m by fastforce
qed (simp add: log_calls_def)

section \<open>Sizes\<close>

text \<open>A bound of what is stored of a signal.\<close>

definition log_weight :: "vc_log \<Rightarrow> nat" where
  "log_weight es = sum_list (map (\<lambda>e. length (snd e) + 15) es)"

lemma sum_update_add:
  fixes f :: "'a \<Rightarrow> nat"
  assumes "f x \<le> f (lg k) + d"
  shows "sum_list (map (\<lambda>i. f ((lg(k := x)) i)) [0..<n]) \<le> sum_list (map (\<lambda>i. f (lg i)) [0..<n]) + d"
proof (induction n)
  case (Suc n)
  show ?case
  proof (cases "k = n")
    case True
    have "map (\<lambda>i. f ((lg(k := x)) i)) [0..<n] = map (\<lambda>i. f (lg i)) [0..<n]"
      by (intro map_cong) (auto simp: True)
    then have "sum_list (map (\<lambda>i. f ((lg(k := x)) i)) [0..<n]) = sum_list (map (\<lambda>i. f (lg i)) [0..<n])"
      by (rule arg_cong)
    then show ?thesis
      using assms True by (simp del: fun_upd_apply) simp
  qed (use Suc in simp)
qed simp

definition log_total :: "nat \<Rightarrow> (nat \<Rightarrow> vc_log) \<Rightarrow> nat" where
  "log_total n lg = sum_list (map (\<lambda>i. log_weight (lg i)) [0..<n])"

lemma log_total_change:
  "log_change h v (tims, lg) = (tims1, lg1) \<Longrightarrow> log_total n lg1 \<le> log_total n lg + (length v + 15)"
  by (auto simp: log_change_def log_total_def log_weight_def intro!: sum_update_add)

lemma log_total_call:
  assumes "log_call c (tims, lg) = (tims1, lg1)"
  shows "log_total n lg1 \<le> log_total n lg + 2 * vc_size c"
proof (cases c)
  case (Emit h v)
  then show ?thesis
    using assms log_total_change [of h v tims lg tims1 lg1 n] by simp
next
  case (Emit_varlen h v)
  then show ?thesis
    using assms log_total_change [of h v tims lg tims1 lg1 n] by simp
qed (use assms in simp)

lemma log_total_calls:
  "log_calls cs (tims, lg) = (tims1, lg1) \<Longrightarrow> log_total n lg1 \<le> log_total n lg + 2 * sum_list (map vc_size cs)"
proof (induction cs arbitrary: tims lg)
  case (Cons c cs)
  obtain tims2 lg2 where 2: "log_call c (tims, lg) = (tims2, lg2)"
    by (cases "log_call c (tims, lg)")
  then have "log_calls cs (tims2, lg2) = (tims1, lg1)"
    using Cons.prems by (simp add: log_calls_def)
  then show ?case
    using Cons.IH log_total_call [OF 2, of n] by fastforce
qed (simp add: log_calls_def)

lemma log_weight_le: "i < n \<Longrightarrow> log_weight (lg i) \<le> log_total n lg"
  unfolding log_total_def by (induction n) (auto simp: less_Suc_eq)

section \<open>The texts of the chains\<close>

definition log_text :: "u32 \<Rightarrow> vc_log \<Rightarrow> byte list" where
  "log_text len es = concat (map (change_text len) (distances 0 (rev es)))"

definition log_chains :: "u32 list \<Rightarrow> (nat \<Rightarrow> vc_log) \<Rightarrow> nat \<Rightarrow> byte list option" where
  "log_chains lens lg i = (if lg i = [] then None else Some (log_text (lens ! i) (lg i)))"

lemma change_text_le: "length (change_text len (d, v)) \<le> length v + 10"
proof -
  have 5: "length (varint_bytes (w :: u32)) \<le> 5" for w
    by (rule varint_length_32)
  show ?thesis
    using 5 [of "rcv_code (hd v) d"] 5 [of "push_bit 1 d"] 5 [of "push_bit 1 d OR 1"] 5 [of "word_of_nat (length v)"]
      length_pack_text [of v]
    unfolding change_text_def prod.case by (auto simp del: push_bit_Suc One_nat_def)
qed

lemma log_text_le: "length (log_text len es) + 5 * length es \<le> log_weight es"
proof -
  have "length (concat (map (change_text len) (distances t es))) + 5 * length es \<le> log_weight es" for t es
  proof (induction t es rule: distances.induct)
    case (2 t t1 v es)
    then show ?case
      using change_text_le [of len "t1 - t" v] by (simp add: log_weight_def)
  qed simp
  from this [of 0 "rev es"] show ?thesis
    by (simp add: log_text_def log_weight_def rev_map [symmetric])
qed

lemma log_chain_length: "chain_length (log_chains lens lg) i \<le> log_weight (lg i)"
  using log_text_le [of "lens ! i" "lg i"] by (simp add: chain_length_def log_chains_def)

lemma log_chunk_length:
  assumes "inverse_packers pk up" "fastpack xc = fourpack xc" "log_weight (lg i) < 2 ^ 32"
  shows "chunk_length (packed pk xc (log_chains lens lg)) i \<le> log_weight (lg i)"
proof (cases "lg i = []")
  case False
  let ?wr = "log_text (lens ! i) (lg i)"
  obtain tag key where ch: "pack_chain pk xc ?wr = (tag, key)"
    by (cases "pack_chain pk xc ?wr")
  have w: "length ?wr + 5 \<le> log_weight (lg i)"
    using log_text_le [of "lens ! i" "lg i"] False by (cases "lg i") auto
  have "tag < 2 ^ 32" "length key \<le> length ?wr"
    using pack_chain_cases [OF assms(1,2) ch] w assms(3) by auto
  then show ?thesis
    using False ch w varint32_skip_at(2) [of tag] by (simp add: chunk_length_def packed_def log_chains_def chunk_def)
qed (simp add: chunk_length_def packed_def log_chains_def)

section \<open>What the flush finds\<close>

lemma deltas_values: "snd ` set (deltas es) = snd ` set es"
  by (induction es rule: deltas.induct) auto

lemma chain_in_fits: "chain_in len mem lim offs es \<Longrightarrow> dv \<in> set es \<Longrightarrow> value_fits len (snd dv)"
  by (induction es arbitrary: lim offs) auto

lemma holds_value_fits:
  assumes "holds_full xc (tims, lg)" "i < length (sig_lens xc)" "e \<in> set (lg i)"
  shows "value_fits (sig_lens xc ! i) (snd e)"
proof -
  have "snd e \<in> snd ` set (deltas (lg i))"
    unfolding deltas_values using assms(3) by simp
  then obtain dv where "dv \<in> set (deltas (lg i))" "snd dv = snd e"
    by (metis imageE)
  moreover have "chain_in (vp_len (valpos_mem xc ! i)) (vchg_mem xc) (unat (vchg_siz xc)) (unat (vp_chain (valpos_mem xc ! i)))
      (deltas (lg i))"
    using assms(1,2) by (simp add: holds_full_def holds_log_def sig_lens_def)
  ultimately have "value_fits (vp_len (valpos_mem xc ! i)) (snd dv)"
    using chain_in_fits by blast
  then show ?thesis
    using assms(2) \<open>snd dv = snd e\<close> by (simp add: sig_lens_def)
qed

lemma holds_has_chain:
  assumes holds: "holds_full xc (tims, lg)" and i: "i < length (valpos_mem xc)"
    and room: "unat (vp_offs (valpos_mem xc ! i)) + unat (vp_len (valpos_mem xc ! i)) \<le> length (curval_mem xc)"
  shows "has_chain xc (log_chains (sig_lens xc) lg) i"
proof -
  let ?vm = "valpos_mem xc ! i"
  have chain: "chain_in (vp_len ?vm) (vchg_mem xc) (unat (vchg_siz xc)) (unat (vp_chain ?vm)) (deltas (lg i))"
    using holds i by (simp add: holds_full_def holds_log_def)
  show ?thesis
  proof (cases "lg i")
    case Nil
    then have "vp_chain ?vm = 0"
      using chain by (simp add: unat_eq_zero)
    then show ?thesis
      using Nil by (simp add: has_chain_def log_chains_def Let_def)
  next
    case (Cons e es)
    then obtain dv ds where d: "deltas (lg i) = dv # ds"
      by (cases e) simp
    then obtain next_offs where r: "0 < unat (vp_chain ?vm)" "value_fits (vp_len ?vm) (snd dv)"
        "slice (vchg_mem xc) (unat (vp_chain ?vm)) (length (vc_record (vp_len ?vm) next_offs dv)) =
          Some (vc_record (vp_len ?vm) next_offs dv)"
      using chain by auto
    obtain dd v where dv: "dv = (dd, v)"
      by (cases dv)
    note parts = record_parts [OF r(3) [unfolded dv]]
    have sc: "signal_chain ?vm (vchg_mem xc) (unat (vchg_siz xc)) = Some (log_text (sig_lens xc ! i) (lg i))"
      using holds_full_chain [OF holds, of i] i by (simp add: sig_lens_def log_text_def rev_deltas)
    have "\<exists>cv1. checkpoint ?vm (vchg_mem xc) cv = Some cv1 \<and> length cv1 = length cv" if "length cv = length (curval_mem xc)" for cv
    proof (cases "vp_len ?vm = 0")
      case False
      have v: "length v = unat (vp_len ?vm)"
        using r(2) False by (simp add: dv value_fits_def)
      have "fstGetVarint32Length (drop (unat (vp_chain ?vm) + 4) (vchg_mem xc)) = Some (length (varint_bytes dd))"
        using parts(2) by (auto simp: fstGetVarint32Length_def fstGetVarint32_def split: option.splits)
      then show ?thesis
        using parts(3) [OF False] v room that by (simp add: checkpoint_def Let_def unat_eq_zero)
    qed (simp add: checkpoint_def)
    moreover have "vp_chain ?vm \<noteq> 0"
      using r(1) by auto
    ultimately show ?thesis
      using sc Cons by (simp add: has_chain_def log_chains_def Let_def)
  qed
qed

end
