(* ===== verification/Fst_Whole.thy ===== *)
theory Fst_Whole
  imports Fst_File_Log
begin

text \<open>
  The two ends together: calls, flush, file, iteration.
\<close>

section \<open>Small facts\<close>

lemma section_open_same:
  assumes "section_open xc pre beg_tim frame" "same_file xc xc1"
  shows "section_open xc1 pre beg_tim frame"
  using assms same_file_D(3,8) [OF assms(2)] by (auto simp: section_open_def appended_def)

lemma log_calls_outside:
  "list_all (good_vc lens) cs \<Longrightarrow> log_calls cs (tims, lg) = (tims1, lg1) \<Longrightarrow> length lens \<le> i \<Longrightarrow> lg i = [] \<Longrightarrow> lg1 i = []"
proof (induction cs arbitrary: tims lg)
  case (Cons c cs)
  obtain tims2 lg2 where 2: "log_call c (tims, lg) = (tims2, lg2)"
    by (cases "log_call c (tims, lg)")
  then have "lg2 i = []"
    using Cons.prems by (cases c) (auto simp: log_change_def)
  moreover have "log_calls cs (tims2, lg2) = (tims1, lg1)"
    using Cons.prems(2) 2 by (simp add: log_calls_def)
  ultimately show ?case
    using Cons.IH Cons.prems by auto
qed (simp add: log_calls_def)

lemma layout_room:
  assumes "layout_ok xc" "i < length (valpos_mem xc)"
  shows "unat (vp_offs (valpos_mem xc ! i)) + unat (vp_len (valpos_mem xc ! i)) \<le> length (curval_mem xc)"
proof -
  have "total_len (take (Suc i) (valpos_mem xc)) \<le> total_len (valpos_mem xc)"
    by (metis append_take_drop_id le_add1 map_append sum_list_append total_len_def)
  then show ?thesis
    using assms by (simp add: layout_ok_def take_Suc_conv_app_nth)
qed

lemma length_time_bytes: "length (time_bytes prev ts) \<le> 16 * length ts"
proof (induction ts arbitrary: prev)
  case (Cons t ts)
  show ?case
    using Cons [of t] varint_length_16 [of "t - prev"] by simp
qed simp

lemma packed_times_read:
  assumes "inverse_packers pk up" "length tmem < 2 ^ 64"
  shows "(if unat (word_of_nat (length tmem) :: u64) \<noteq> length (packed_times pk tmem)
      then up_uncompress up (unat (word_of_nat (length tmem) :: u64)) (packed_times pk tmem) else Some (packed_times pk tmem)) = Some tmem"
    "unat (word_of_nat (length tmem) :: u64) = length tmem"
proof -
  show u: "unat (word_of_nat (length tmem) :: u64) = length tmem"
    using assms(2) by (simp add: unsigned_of_nat take_bit_nat_eq_self)
  have "up_uncompress up (length tmem) dmem = Some tmem" if "pk_compress2 pk 9 (length tmem) tmem = Some dmem" for dmem
    using assms(1) that unfolding inverse_packers_def by (metis append_Nil2)
  then show "(if unat (word_of_nat (length tmem) :: u64) \<noteq> length (packed_times pk tmem)
      then up_uncompress up (unat (word_of_nat (length tmem) :: u64)) (packed_times pk tmem) else Some (packed_times pk tmem)) = Some tmem"
    unfolding u by (auto simp: packed_times_def split: option.splits)
qed

lemma packed_times_le: "length (packed_times pk tmem) \<le> length tmem"
  by (auto simp: packed_times_def split: option.split)

text \<open>The index takes at most 26 bytes for each entry.\<close>

lemma svarint_length:
  "- (2 ^ (7 * k + 6)) \<le> sint v \<Longrightarrow> sint v < 2 ^ (7 * k + 6) \<Longrightarrow> length (svarint_bytes v) \<le> k + 1"
proof (induction k arbitrary: v)
  case 0
  then show ?case
    using svarint_last_small [of v] by (subst svarint_bytes_unfold) simp
next
  case (Suc k)
  have "sint (signed_drop_bit 7 v) = sint v div 128"
    by (simp add: sint_signed_drop_bit_eq drop_bit_eq_div)
  then have "length (svarint_bytes (signed_drop_bit 7 v)) \<le> k + 1"
    using Suc.prems by (intro Suc.IH) (simp_all add: power_add)
  then show ?case
    by (subst svarint_bytes_unfold) simp
qed

lemma svarint_length_10: "length (svarint_bytes v) \<le> 10"
proof -
  have "- (2 ^ 63) \<le> sint v" "sint v < 2 ^ 63"
    using sint_greater_eq [of v] sint_less [of v] by simp_all
  then have "- (2 ^ (7 * 9 + 6)) \<le> sint v" "sint v < 2 ^ (7 * 9 + 6)"
    by simp_all
  then show ?thesis
    using svarint_length [of 9 v] by simp
qed

lemma end_zeros_length: "length (end_zeros z) \<le> 16"
  by (simp add: end_zeros_def varint_length_16)

lemma chain_index_length: "length (chain_index vps z pa pp) \<le> 26 * length vps + 16"
proof (induction vps z pa pp rule: chain_index.induct)
  case (2 vm vms z pa pp)
  note le = end_zeros_length [of z] svarint_length_10 [of "push_bit 1 (scast (vp_chain vm)) OR 1"] svarint_length_10 [of 1]
    svarint_length_10 [of "ucast (push_bit 1 (vp_chain vm - pp) OR 1)"]
  show ?case
  proof (cases "vp_chain vm = 0")
    case True
    then show ?thesis
      using "2.IH" by (simp add: Let_def)
  next
    case False
    show ?thesis
    proof (cases "vp_chain vm AND 0x80000000 \<noteq> 0")
      case True
      show ?thesis
        using "2.IH" (1,2) [OF refl False True] True False le
        by (cases "vp_chain vm = pa") (simp_all add: Let_def del: push_bit_Suc One_nat_def)
    next
      case no_alias: False
      then show ?thesis
        using "2.IH" (3) [OF refl False] False le by (simp add: Let_def del: push_bit_Suc One_nat_def)
    qed
  qed
qed (simp add: end_zeros_length)

text \<open>A chain with a change has made the memory larger than a byte.\<close>

lemma holds_full_size:
  assumes "holds_full xc (tims, lg)" "i < length (valpos_mem xc)" "lg i \<noteq> []"
  shows "1 < unat (vchg_siz xc)"
proof -
  have "chain_in (vp_len (valpos_mem xc ! i)) (vchg_mem xc) (unat (vchg_siz xc)) (unat (vp_chain (valpos_mem xc ! i))) (deltas (lg i))"
    using assms(1,2) by (simp add: holds_full_def holds_log_def)
  moreover obtain t v es where "lg i = (t, v) # es"
    using assms(3) by (cases "lg i") auto
  ultimately obtain next_offs dv where "0 < unat (vp_chain (valpos_mem xc ! i))"
      "unat (vp_chain (valpos_mem xc ! i)) + length (vc_record (vp_len (valpos_mem xc ! i)) next_offs dv) \<le> unat (vchg_siz xc)"
    by auto
  moreover have "4 \<le> length (vc_record (vp_len (valpos_mem xc ! i)) next_offs dv)"
    by (simp add: vc_record_def le_bytes32_def)
  ultimately show ?thesis
    by linarith
qed

text \<open>The changes of a signal, if it is selected.\<close>

definition expected :: "unpackers \<Rightarrow> block_reader \<Rightarrow> (nat \<Rightarrow> vc_log) \<Rightarrow> nat \<Rightarrow> timed" where
  "expected up rd lg i = (if masked rd i = Some True then to_deliver up rd i (rev (lg i)) else [])"

lemma expected_to_come:
  assumes log: "log_ok (tims, lg)" "length tims \<le> 2 ^ 28" and sig: "signal_ok rd i" "masked rd i \<noteq> None"
    and fits: "\<forall>e \<in> set (lg i). value_fits (rd_signal_lens rd ! i) (snd e)" and small: "log_weight (lg i) < 2 ^ 32"
  shows "to_come up rd (log_chains (rd_signal_lens rd) lg) (expected up rd lg) i"
    "\<forall>c \<in> set (expected up rd lg i). fst c < length tims"
proof -
  have times: "unat (fst e) < length tims" if "e \<in> set (lg i)" for e
    using log(1) that by (auto simp: log_ok_def)
  then show "\<forall>c \<in> set (expected up rd lg i). fst c < length tims"
    by (auto simp: expected_def to_deliver_def)
  let ?wr = "log_text (rd_signal_lens rd ! i) (lg i)"
  have "\<forall>(t, v) \<in> set (rev (lg i)). value_fits (rd_signal_lens rd ! i) v \<and> unat t < 2 ^ 28"
    using fits times log(2) by fastforce
  moreover have "sorted (unat (0 :: u32) # map (unat \<circ> fst) (rev (lg i)))"
    using log(1) by (simp add: log_ok_def)
  ultimately have "chain_at up rd i ?wr (length ?wr) 0 0 (to_deliver up rd i (rev (lg i)))"
    using chain_at_text [OF sig(1), of "rev (lg i)" 0 up "[]" "[]"] by (simp add: log_text_def)
  moreover have "length ?wr < 2 ^ 32"
    using log_text_le [of "rd_signal_lens rd ! i" "lg i"] small by simp
  ultimately show "to_come up rd (log_chains (rd_signal_lens rd) lg) (expected up rd lg) i"
    using sig(2) by (auto simp: to_come_def expected_def log_chains_def to_deliver_def)
qed

section \<open>What was written is read\<close>

text \<open>A reader of the file: the signals of the writer, and a mask for each of them.\<close>

definition reader_of :: "fstWriterContext \<Rightarrow> block_reader \<Rightarrow> bool" where
  "reader_of xc rd \<longleftrightarrow>
     rd_signal_lens rd = sig_lens xc \<and> maxhandle (rd_mask rd) = xc_maxhandle xc \<and> rd_limit_range rd = None \<and>
     (\<forall>i < unat (xc_maxhandle xc). signal_ok rd i \<and> masked rd i \<noteq> None)"

lemma time_bytes_nonempty: "ts \<noteq> [] \<Longrightarrow> time_bytes prev ts \<noteq> []"
  by (cases ts) simp_all

lemma vc_size_count: "length cs \<le> sum_list (map vc_size cs)"
proof (induction cs)
  case (Cons c cs)
  have "1 \<le> vc_size c"
    by (cases c) auto
  then show ?case
    using Cons by simp
qed simp

lemma written_times:
  assumes "1 + sum_list (map vc_size cs) < unat (fst_break_size xc)" "fst_break_size xc \<le> 2 ^ 28"
    "log_calls cs ([tim], \<lambda>_. []) = (tims, lg)"
  shows "log_ok (tims, lg) \<and> tims \<noteq> [] \<and> hd tims = tim \<and> length tims \<le> 2 ^ 28"
proof -
  have "length cs + 1 < 2 ^ 28"
    using vc_size_count [of cs] assms(1,2) by (simp add: word_le_nat_alt)
  then show ?thesis
    using log_calls_ok [of "[tim]" "\<lambda>_. []" cs tims lg] assms(3) by (fastforce simp: log_ok_def)
qed

lemma written_total:
  assumes "1 + sum_list (map vc_size cs) < unat (fst_break_size xc)" "fst_break_size xc \<le> 2 ^ 28"
    "log_calls cs ([tim], \<lambda>_. []) = (tims, lg)"
  shows "log_total n lg < 2 ^ 29"
  using log_total_calls [OF assms(3), of n] assms(1,2)
  by (simp add: log_total_def log_weight_def word_le_nat_alt sum_list_0)

lemma section_size:
  assumes "header_block hdr" "length frame < 2 ^ 32" "length area < 2 ^ 31" "length vps < 2 ^ 31" "length tims \<le> 2 ^ 28"
    and "length tail \<le> 2 ^ 40"
  shows "length (hdr @ section_text (section_body beg_tim end_tim memreq (frame_text ulen fmax frame) maxh area
     (chain_index vps 0 0 0) (packed_times pk (time_bytes 0 tims)) tlen nitems) @ tail) < 2 ^ 63"
proof -
  have "length hdr = 330"
    using assms(1) by (auto simp: header_block_def simp del: be_bytes.simps)
  moreover have "length (frame_text ulen fmax frame) \<le> 48 + length frame"
    using varint_length_16 [of ulen] varint_length_16 [of "word_of_nat (length frame)"] varint_length_16 [of fmax]
    by (simp add: frame_text_def)
  moreover have "length (packed_times pk (time_bytes 0 tims)) \<le> 16 * 2 ^ 28"
    using packed_times_le [of pk "time_bytes 0 tims"] length_time_bytes [of 0 tims] assms(5) by simp
  ultimately show ?thesis
    using assms(2-6) chain_index_length [of vps 0 0 0] varint_length_16 [of "ucast maxh"]
    by (simp add: section_text_def section_body_def del: be_bytes.simps)
qed

text \<open>A file with its header and the section of a log.\<close>

definition section_parts :: "packers \<Rightarrow> fstWriterContext \<Rightarrow> u64 list \<Rightarrow> (nat \<Rightarrow> vc_log) \<Rightarrow> byte list \<Rightarrow> byte list \<Rightarrow> bool" where
  "section_parts pk xc tims lg tail f \<longleftrightarrow>
     (\<exists>hdr end_tim frame vps area. header_block hdr \<and>
       f = hdr @ section_text (section_body (hd tims) end_tim
         (word_of_nat (sum_list (map (chain_length (log_chains (sig_lens xc) lg)) [0..<unat (xc_maxhandle xc)])))
         (frame_text (ucast (maxvalpos xc)) (ucast (xc_maxhandle xc)) frame) (xc_maxhandle xc) area
         (chain_index vps 0 0 0) (packed_times pk (time_bytes 0 tims)) (word_of_nat (length (time_bytes 0 tims)))
         (word_of_nat (length tims))) @ tail \<and>
       length vps = unat (xc_maxhandle xc) \<and>
       layout (packed pk xc (log_chains (sig_lens xc) lg)) (map vp_chain vps) area \<and> area \<noteq> [] \<and> hd area = pack_type xc \<and>
       length area < 2 ^ 31 \<and> length frame < 2 ^ 32 \<and> length tail \<le> 2 ^ 40)"

definition section_file :: "packers \<Rightarrow> fstWriterContext \<Rightarrow> u64 list \<Rightarrow> (nat \<Rightarrow> vc_log) \<Rightarrow> byte list \<Rightarrow> bool" where
  "section_file pk xc tims lg f \<longleftrightarrow> (\<exists>tail. section_parts pk xc tims lg tail f \<and> (tail = [] \<or> hd tail = FST_BL_SKIP))"

text \<open>What a writer is when the calls are done: ready for the flush.\<close>

definition flush_ready ::
    "packers \<Rightarrow> fstWriterContext \<Rightarrow> u64 list \<Rightarrow> (nat \<Rightarrow> vc_log) \<Rightarrow> byte list \<Rightarrow> byte list \<Rightarrow> fstWriterContext \<Rightarrow> bool" where
  "flush_ready pk xc tims lg hdr frame x1 \<longleftrightarrow>
     section_open x1 hdr (hd tims) (frame_text (ucast (maxvalpos xc)) (ucast (xc_maxhandle xc)) frame) \<and> length frame < 2 ^ 32 \<and>
     1 < unat (vchg_siz x1) \<and> \<not> already_in_flush x1 \<and> xc_maxhandle x1 = xc_maxhandle xc \<and>
     length (valpos_mem x1) = unat (xc_maxhandle x1) \<and> unat (xc_maxhandle x1) < 2 ^ 31 \<and>
     (\<forall>j < unat (xc_maxhandle x1). has_chain x1 (log_chains (sig_lens xc) lg) j) \<and>
     packed pk x1 (log_chains (sig_lens xc) lg) = packed pk xc (log_chains (sig_lens xc) lg) \<and> pack_type x1 = pack_type xc \<and>
     1 + sum_list (map (chunk_length (packed pk x1 (log_chains (sig_lens xc) lg))) [0..<unat (xc_maxhandle x1)]) < 2 ^ 31 \<and>
     tchn_handle x1 \<noteq> [] \<and> tchn_handle x1 = time_bytes 0 tims \<and> ucast (tchn_cnt x1) = (word_of_nat (length tims) :: u64) \<and>
     (\<forall>i < unat (xc_maxhandle xc). \<forall>e \<in> set (lg i). value_fits (sig_lens xc ! i) (snd e)) \<and>
     same_design xc x1 \<and> firsttime x1 = hd tims \<and> curtime x1 = last tims \<and> \<not> is_initial_time x1"

lemma calls_flush_ready:
  assumes fresh: "vc_fresh xc" "file_headed c e xc" "layout_ok xc" "unat (xc_maxhandle xc) < 2 ^ 31"
    and calls: "list_all (good_vc (sig_lens xc)) cs" "1 + sum_list (map vc_size cs) < unat (fst_break_size xc)"
      "fst_break_size xc \<le> 2 ^ 28" "log_calls cs ([tim], \<lambda>_. []) = (tims, lg)"
    and some: "j < unat (xc_maxhandle xc)" "lg j \<noteq> []"
    and packers: "inverse_packers pk up" "fastpack xc = fourpack xc"
  shows "\<exists>x1 hdr frame. run_vcs pk (Time_change tim # cs) xc = Some x1 \<and> headed c e hdr \<and> flush_ready pk xc tims lg hdr frame x1"
proof -
  let ?n = "unat (xc_maxhandle xc)" and ?W = "log_chains (sig_lens xc) lg"
  obtain x0 where 0: "run_vc pk (Time_change tim) xc = Some x0" "holds_full x0 ([tim], \<lambda>_. [])" "sig_lens x0 = sig_lens xc"
      "vchg_siz x0 = 1" "fst_break_size x0 = fst_break_size xc" "xc_maxhandle x0 = xc_maxhandle xc"
    using first_time_fields [OF fresh(1)] by blast
  obtain hdr frame where h: "headed c e hdr" "section_open x0 hdr tim (frame_text (ucast (maxvalpos xc)) (ucast (xc_maxhandle xc)) frame)"
      "length frame < 2 ^ 32" "\<not> already_in_flush x0" "fastpack x0 = fastpack xc" "fourpack x0 = fourpack xc" "curval_mem x0 = curval_mem xc"
      "map vp_offs (valpos_mem x0) = map vp_offs (valpos_mem xc)" "same_design xc x0" "firsttime x0 = tim"
    using first_time_file [OF fresh(1,2), of pk tim] 0(1) by auto
  have "fst_break_size xc \<le> 0x80000000"
    using calls(3) by (simp add: word_le_nat_alt)
  then obtain x1 where 1: "run_vcs pk cs x0 = Some x1" "holds_full x1 (tims, lg)" "same_file x0 x1"
    using run_vcs_log [OF 0(2), of cs pk] calls(1,2,4) 0(3-5) by auto
  note D = same_file_D [OF 1(3)]
  have run: "run_vcs pk (Time_change tim # cs) xc = Some x1"
    using 0(1) 1(1) by simp
  have n: "xc_maxhandle x1 = xc_maxhandle xc" "length (valpos_mem x1) = ?n" "length (valpos_mem xc) = ?n" "length (sig_lens xc) = ?n"
    using D(2) 0(6) 1(2) fresh(1) by (simp_all add: holds_full_def vc_ready_def vc_fresh_def sig_lens_def)
  have lens: "sig_lens x1 = sig_lens xc"
    using D(4) 0(3) by simp
  have total: "log_total ?n lg < 2 ^ 29"
    by (rule written_total [OF calls(2-4)])
  then have weight: "log_weight (lg i) < 2 ^ 29" if "i < ?n" for i
    using log_weight_le [OF that, of lg] by simp
  have room1: "unat (vp_offs (valpos_mem x1 ! i)) + unat (vp_len (valpos_mem x1 ! i)) \<le> length (curval_mem x1)" if i: "i < ?n" for i
  proof -
    have "vp_offs (valpos_mem x1 ! i) = vp_offs (valpos_mem xc ! i)" "vp_len (valpos_mem x1 ! i) = vp_len (valpos_mem xc ! i)"
      using D(5) h(8) lens i n by (metis nth_map sig_lens_def)+
    then show ?thesis
      using layout_room [OF fresh(3), of i] i n D(10) h(7) by simp
  qed
  have chains: "has_chain x1 ?W i" if i: "i < ?n" for i
    using holds_has_chain [OF 1(2), of i] room1 [OF i] i n lens by simp
  have pk: "packed pk x1 ?W = packed pk xc ?W" "pack_type x1 = pack_type xc"
    using D(12,13) h(5,6) by (auto simp: packed_def pack_chain_def pack_type_def fun_eq_iff map_option_case split: option.splits)
  have "sum_list (map (chunk_length (packed pk xc ?W)) [0..<?n]) \<le> log_total ?n lg"
    unfolding log_total_def by (rule sum_list_mono) (use log_chunk_length [OF packers] weight in fastforce)
  then have room: "1 + sum_list (map (chunk_length (packed pk xc ?W)) [0..<?n]) < 2 ^ 31"
    using total by simp
  have tim: "tim = hd tims"
    using written_times [OF calls(2-4)] by simp
  have "tims \<noteq> []" "tchn_handle x1 = time_bytes 0 tims" "tchn_cnt x1 = word_of_nat (length tims)"
    using 1(2) by (simp_all add: holds_full_def)
  moreover have "length tims < 2 ^ 32"
    using written_times [OF calls(2-4)] by simp
  ultimately have t: "tchn_handle x1 \<noteq> []" "tchn_handle x1 = time_bytes 0 tims" "ucast (tchn_cnt x1) = (word_of_nat (length tims) :: u64)"
    using time_bytes_nonempty [of tims 0] by (simp_all add: word_of_nat_ucast)
  have siz: "1 < unat (vchg_siz x1)" "\<not> already_in_flush x1"
    using holds_full_size [OF 1(2), of j] some n D(11) h(4) by simp_all
  have W: "\<forall>j < unat (xc_maxhandle x1). has_chain x1 ?W j"
    using chains n by simp
  have "value_fits (sig_lens xc ! i) (snd e)" if "i < ?n" "e \<in> set (lg i)" for i e
    using holds_value_fits [OF 1(2), of i e] that n lens by simp
  then have fits: "\<forall>i < ?n. \<forall>e \<in> set (lg i). value_fits (sig_lens xc ! i) (snd e)"
    by blast
  have size: "length (valpos_mem x1) = unat (xc_maxhandle x1)" "unat (xc_maxhandle x1) < 2 ^ 31"
    "1 + sum_list (map (chunk_length (packed pk x1 ?W)) [0..<unat (xc_maxhandle x1)]) < 2 ^ 31"
    using n fresh(4) room unfolding pk by simp_all
  have "curtime x1 = last tims" "\<not> is_initial_time x1"
    using 1(2) by (simp_all add: holds_full_def vc_ready_def)
  moreover have "same_design xc x1 \<and> firsttime x1 = tim"
    using same_file_design [OF 1(3)] same_design_trans [OF h(9)] h(10) by simp
  ultimately have "flush_ready pk xc tims lg hdr frame x1"
    unfolding flush_ready_def tim [symmetric]
    using section_open_same [OF h(2) 1(3)] h(3) siz n(1) size W pk t fits by blast
  then show ?thesis
    using run h(1) by blast
qed

lemma flush_ready_result:
  assumes "flush_ready pk xc tims lg hdr frame x1"
  shows "\<exists>cv vps area l. fstWriterFlushContextPrivate pk x1 = Some (end_section pk (flushed_context (hdr @ section_text
       (section_body (hd tims) (last tims)
         (word_of_nat (sum_list (map (chain_length (log_chains (sig_lens xc) lg)) [0..<unat (xc_maxhandle xc)])))
         (frame_text (ucast (maxvalpos xc)) (ucast (xc_maxhandle xc)) frame) (xc_maxhandle xc) area
         (chain_index vps 0 0 0) (packed_times pk (time_bytes 0 tims)) (word_of_nat (length (time_bytes 0 tims)))
         (word_of_nat (length tims)))) cv vps l x1)) \<and> length vps = unat (xc_maxhandle xc) \<and>
       layout (packed pk xc (log_chains (sig_lens xc) lg)) (map vp_chain vps) area \<and> area \<noteq> [] \<and> hd area = pack_type xc \<and>
       length area < 2 ^ 31"
proof -
  note r = assms [unfolded flush_ready_def]
  have op: "section_open x1 hdr (hd tims) (frame_text (ucast (maxvalpos xc)) (ucast (xc_maxhandle xc)) frame)"
    using r by blast
  have t: "tchn_handle x1 = time_bytes 0 tims" "ucast (tchn_cnt x1) = (word_of_nat (length tims) :: u64)" "curtime x1 = last tims"
    and pk: "packed pk x1 (log_chains (sig_lens xc) lg) = packed pk xc (log_chains (sig_lens xc) lg)" "pack_type x1 = pack_type xc"
    and n: "xc_maxhandle x1 = xc_maxhandle xc"
    using r by blast+
  obtain cv vps area l where f: "fstWriterFlushContextPrivate pk x1 = Some (end_section pk (flushed_context (hdr @ section_text
       (section_body (hd tims) (last tims)
         (word_of_nat (sum_list (map (chain_length (log_chains (sig_lens xc) lg)) [0..<unat (xc_maxhandle xc)])))
         (frame_text (ucast (maxvalpos xc)) (ucast (xc_maxhandle xc)) frame) (xc_maxhandle xc) area
         (chain_index vps 0 0 0) (packed_times pk (time_bytes 0 tims)) (word_of_nat (length (time_bytes 0 tims)))
         (word_of_nat (length tims)))) cv vps l x1))" "length vps = unat (xc_maxhandle xc)"
      "layout (packed pk xc (log_chains (sig_lens xc) lg)) (map vp_chain vps) area" "area \<noteq> []" "hd area = pack_type xc"
      "length area \<le> 1 + sum_list (map (chunk_length (packed pk xc (log_chains (sig_lens xc) lg))) [0..<unat (xc_maxhandle xc)])"
    using flush_result [OF op, of "log_chains (sig_lens xc) lg" pk] r unfolding t pk n by blast
  have "1 + sum_list (map (chunk_length (packed pk xc (log_chains (sig_lens xc) lg))) [0..<unat (xc_maxhandle xc)]) < 2 ^ 31"
    using r unfolding pk n by blast
  then have "length area < 2 ^ 31"
    by (rule le_less_trans [OF f(6)])
  then show ?thesis
    using f by blast
qed

lemma written_section:
  assumes fresh: "vc_fresh xc" "file_fresh xc" "layout_ok xc" "unat (xc_maxhandle xc) < 2 ^ 31"
    and calls: "list_all (good_vc (sig_lens xc)) cs" "1 + sum_list (map vc_size cs) < unat (fst_break_size xc)"
      "fst_break_size xc \<le> 2 ^ 28" "log_calls cs ([tim], \<lambda>_. []) = (tims, lg)"
    and some: "j < unat (xc_maxhandle xc)" "lg j \<noteq> []"
    and packers: "inverse_packers pk up" "fastpack xc = fourpack xc"
  shows "\<exists>xc1 xc2. run_vcs pk (Time_change tim # cs) xc = Some xc1 \<and>
    fstWriterFlushContextPrivate pk xc1 = Some xc2 \<and> section_file pk xc tims lg (f_data (xc_handle xc2)) \<and>
    (\<forall>i < unat (xc_maxhandle xc). \<forall>e \<in> set (lg i). value_fits (sig_lens xc ! i) (snd e))"
proof -
  obtain c e where "file_headed c e xc"
    using fresh(2) file_fresh_headed by blast
  then obtain x1 hdr frame where x: "run_vcs pk (Time_change tim # cs) xc = Some x1" "headed c e hdr" "flush_ready pk xc tims lg hdr frame x1"
    using calls_flush_ready [OF fresh(1) _ fresh(3,4) calls some packers] by blast
  have r: "length frame < 2 ^ 32" "\<forall>i < unat (xc_maxhandle xc). \<forall>e \<in> set (lg i). value_fits (sig_lens xc ! i) (snd e)"
    using x(3) unfolding flush_ready_def by blast+
  obtain cv vps area l where f: "fstWriterFlushContextPrivate pk x1 = Some (end_section pk (flushed_context (hdr @ section_text
       (section_body (hd tims) (last tims)
         (word_of_nat (sum_list (map (chain_length (log_chains (sig_lens xc) lg)) [0..<unat (xc_maxhandle xc)])))
         (frame_text (ucast (maxvalpos xc)) (ucast (xc_maxhandle xc)) frame) (xc_maxhandle xc) area
         (chain_index vps 0 0 0) (packed_times pk (time_bytes 0 tims)) (word_of_nat (length (time_bytes 0 tims)))
         (word_of_nat (length tims)))) cv vps l x1))" "length vps = unat (xc_maxhandle xc)"
       "layout (packed pk xc (log_chains (sig_lens xc) lg)) (map vp_chain vps) area" "area \<noteq> []" "hd area = pack_type xc"
       "length area < 2 ^ 31"
    using flush_ready_result [OF x(3)] by blast
  obtain tail where "f_data (xc_handle (end_section pk (flushed_context (hdr @ section_text
       (section_body (hd tims) (last tims)
         (word_of_nat (sum_list (map (chain_length (log_chains (sig_lens xc) lg)) [0..<unat (xc_maxhandle xc)])))
         (frame_text (ucast (maxvalpos xc)) (ucast (xc_maxhandle xc)) frame) (xc_maxhandle xc) area
         (chain_index vps 0 0 0) (packed_times pk (time_bytes 0 tims)) (word_of_nat (length (time_bytes 0 tims)))
         (word_of_nat (length tims)))) cv vps l x1))) = (hdr @ section_text
       (section_body (hd tims) (last tims)
         (word_of_nat (sum_list (map (chain_length (log_chains (sig_lens xc) lg)) [0..<unat (xc_maxhandle xc)])))
         (frame_text (ucast (maxvalpos xc)) (ucast (xc_maxhandle xc)) frame) (xc_maxhandle xc) area
         (chain_index vps 0 0 0) (packed_times pk (time_bytes 0 tims)) (word_of_nat (length (time_bytes 0 tims)))
         (word_of_nat (length tims)))) @ tail" "tail = [] \<or> hd tail = FST_BL_SKIP" "length tail \<le> 2 ^ 33"
    unfolding flushed_context_def using end_section_text by blast
  then have "section_file pk xc tims lg (f_data (xc_handle (end_section pk (flushed_context (hdr @ section_text
       (section_body (hd tims) (last tims)
         (word_of_nat (sum_list (map (chain_length (log_chains (sig_lens xc) lg)) [0..<unat (xc_maxhandle xc)])))
         (frame_text (ucast (maxvalpos xc)) (ucast (xc_maxhandle xc)) frame) (xc_maxhandle xc) area
         (chain_index vps 0 0 0) (packed_times pk (time_bytes 0 tims)) (word_of_nat (length (time_bytes 0 tims)))
         (word_of_nat (length tims)))) cv vps l x1))))"
    unfolding section_file_def section_parts_def append_assoc using headed_block [OF x(2)] f(2-6) r(1) by fastforce
  then show ?thesis
    using x(1) f(1) r(2) by blast
qed

lemma section_file_read:
  assumes written: "section_parts pk xc tims lg tail (rd_f rd)" "tail = [] \<or> hd tail = FST_BL_SKIP \<or> rd_vc_section_count rd = 1"
    and rd: "reader_of xc rd"
    and packers: "inverse_packers pk up" "fastpack xc = fourpack xc" "no_collision pk xc (log_chains (sig_lens xc) lg)"
    and n: "0 < unat (xc_maxhandle xc)" "unat (xc_maxhandle xc) < 2 ^ 31"
    and log: "log_ok (tims, lg)" "tims \<noteq> []" "length tims \<le> 2 ^ 28" "log_total (unat (xc_maxhandle xc)) lg < 2 ^ 29"
    and outside: "\<forall>i \<ge> unat (xc_maxhandle xc). lg i = []"
    and fits: "\<forall>i < unat (xc_maxhandle xc). \<forall>e \<in> set (lg i). value_fits (sig_lens xc ! i) (snd e)"
  shows "\<exists>groups. fstReaderIterBlocks2 up rd = Some (concat groups) \<and> changes_sorted (expected up rd lg) tims 0 groups"
proof -
  let ?n = "unat (xc_maxhandle xc)" and ?W = "log_chains (sig_lens xc) lg" and ?p = "expected up rd lg"
  let ?memreq = "sum_list (map (chain_length ?W) [0..<?n])"
  let ?st = "\<lparr>ct_idx = 0, ct_pidx = 0, ct_pval = 0, ct_prev_alias = 0, ct_table = [], ct_lengths = []\<rparr>"
  note r = rd [unfolded reader_of_def]
  obtain hdr end_tim frame vps area body where w: "header_block hdr"
      "body = section_body (hd tims) end_tim (word_of_nat ?memreq)
       (frame_text (ucast (maxvalpos xc)) (ucast (xc_maxhandle xc)) frame) (xc_maxhandle xc) area
       (chain_index vps 0 0 0) (packed_times pk (time_bytes 0 tims)) (word_of_nat (length (time_bytes 0 tims)))
       (word_of_nat (length tims))"
      "rd_f rd = hdr @ section_text body @ tail" "length vps = ?n"
      "layout (packed pk xc ?W) (map vp_chain vps) area" "area \<noteq> []" "hd area = pack_type xc" "length area < 2 ^ 31"
      "length frame < 2 ^ 32" "length tail \<le> 2 ^ 40"
    using written(1) unfolding section_parts_def by blast
  have "length vps < 2 ^ 31"
    using w(4) n(2) by simp
  then have size: "length (rd_f rd) < 2 ^ 63"
    unfolding w(3) w(2) by (intro section_size w log)
  have weight: "log_weight (lg i) < 2 ^ 32" if "i < ?n" for i
    using log_weight_le [OF that, of lg] log(4) by simp
  have "?memreq \<le> log_total ?n lg"
    unfolding log_total_def by (rule sum_list_mono) (use log_chain_length in fastforce)
  then have memreq: "?memreq < 2 ^ 31"
    using log(4) by simp
  have "length (time_bytes 0 tims) < 2 ^ 64"
    using length_time_bytes [of 0 tims] log(3) by simp
  note times = packed_times_read [OF packers(1) this]
  have lens: "rd_signal_lens rd = sig_lens xc"
    using r by blast
  have come: "to_come up rd ?W ?p i" "\<forall>c \<in> set (?p i). fst c < length tims" if i: "i < ?n" for i
    using expected_to_come [OF log(1,3), of rd i up] r fits weight [OF i] i unfolding lens by blast+
  obtain groups st1 where g: "iter_section up rd FST_BL_VCDATA_DYN_ALIAS2 (length hdr + 1) (8 + length body) (hd tims) True False ?st =
      Some (Section (concat groups) st1)" "changes_sorted (below ?n ?p) tims 0 groups"
  proof (rule exE [OF iter_section_at [OF packers w(5,8,6,7,2,3) size w(4) n]])
    show "time_table (unat (word_of_nat (length tims) :: u64)) 0 (time_bytes 0 tims) = Some tims"
      using time_table_bytes [of tims 0 "[]"] log(3) by (simp add: unsigned_of_nat take_bit_nat_eq_self)
    show "length (time_bytes 0 tims) = unat (word_of_nat (length (time_bytes 0 tims)) :: u64)"
      by (rule times(2) [symmetric])
    show "\<forall>i < ?n. to_come up rd ?W ?p i" "\<forall>i < ?n. \<forall>c \<in> set (?p i). fst c < length tims" "length tims \<le> 2 ^ 32"
      using come log(3) by simp_all
  qed (use that times(1) memreq log(2) r in auto)
  have "below ?n ?p = ?p"
    using outside by (auto simp: below_def expected_def to_deliver_def fun_eq_iff)
  moreover have "fstReaderIterBlocks2 up rd = Some (concat groups)"
    unfolding fstReaderIterBlocks2_def iter_blocks_header [OF w(3,1)]
    by (rule iter_blocks_section [OF w(3) size written(2) _ _ g(1)]) (use r w(2) in \<open>simp_all add: section_body_def del: be_bytes.simps\<close>)
  ultimately show ?thesis
    using g(2) by auto
qed

text \<open>
  C3: What the writer was told is what the reader delivers: a file that is created with its
  variables, a first time and any further calls that emit values and change the time, as far
  as they fit the memory before a flush is due, and the flush, leave a file from which a
  reader with these signals delivers one group of calls of the callbacks for every time, in
  the order of the times; in each group every selected signal has exactly its changes of
  that time, in their order, with the values that were emitted. This is assumed of zlib and
  LZ4: decompression inverts compression; and of the chains: no chain that is stored as it is
  equals a compressed one.
\<close>

theorem written_is_read:
  assumes "vc_fresh xc" "file_fresh xc" "layout_ok xc" "unat (xc_maxhandle xc) < 2 ^ 31"
    and "list_all (good_vc (sig_lens xc)) cs" "1 + sum_list (map vc_size cs) < unat (fst_break_size xc)"
      "fst_break_size xc \<le> 2 ^ 28" "log_calls cs ([tim], \<lambda>_. []) = (tims, lg)"
    and "j < unat (xc_maxhandle xc)" "lg j \<noteq> []"
    and "inverse_packers pk up" "fastpack xc = fourpack xc" "no_collision pk xc (log_chains (sig_lens xc) lg)"
  shows "\<exists>xc1 xc2. run_vcs pk (Time_change tim # cs) xc = Some xc1 \<and> fstWriterFlushContextPrivate pk xc1 = Some xc2 \<and>
    (\<forall>rd. reader_of xc rd \<longrightarrow> rd_f rd = f_data (xc_handle xc2) \<longrightarrow>
       (\<exists>groups. fstReaderIterBlocks2 up rd = Some (concat groups) \<and> changes_sorted (expected up rd lg) tims 0 groups))"
proof -
  obtain x1 x2 where w: "run_vcs pk (Time_change tim # cs) xc = Some x1" "fstWriterFlushContextPrivate pk x1 = Some x2"
      "section_file pk xc tims lg (f_data (xc_handle x2))"
      "\<forall>i < unat (xc_maxhandle xc). \<forall>e \<in> set (lg i). value_fits (sig_lens xc ! i) (snd e)"
    using written_section [OF assms(1-12)] by blast
  have "lg i = []" if "unat (xc_maxhandle xc) \<le> i" for i
    using log_calls_outside [OF assms(5,8), of i] that assms(1) by (simp add: vc_fresh_def sig_lens_def)
  moreover obtain tail where "section_parts pk xc tims lg tail (f_data (xc_handle x2))" "tail = [] \<or> hd tail = FST_BL_SKIP"
    using w(3) unfolding section_file_def by blast
  ultimately have "\<exists>groups. fstReaderIterBlocks2 up rd = Some (concat groups) \<and> changes_sorted (expected up rd lg) tims 0 groups"
    if "reader_of xc rd" "rd_f rd = f_data (xc_handle x2)" for rd
    using section_file_read [of pk xc tims lg tail rd, OF _ _ that(1) assms(11-13) _ assms(4)] written_times [OF assms(6-8)]
      written_total [OF assms(6-8)] assms(9) w(4) that(2) by auto
  then show ?thesis
    using w(1,2) by blast
qed

text \<open>The file of the example above, read with both signals selected.\<close>

definition demo_unpackers :: unpackers where
  "demo_unpackers = \<lparr>up_uncompress = (\<lambda>n d. None), up_LZ4_decompress_safe_partial = (\<lambda>d n. Some (take n d)),
     up_sprintf_g = id, up_malloc = (\<lambda>n. replicate n 0)\<rparr>"

definition demo_reader :: "byte list \<Rightarrow> block_reader" where
  "demo_reader f = \<lparr>rd_f = f, rd_mask = \<lparr>maxhandle = 2, process_mask = [3]\<rparr>, rd_signal_lens = [1, 0],
     rd_signal_typs = [16, 21], rd_vc_section_count = 1, rd_limit_range = None, rd_native_doubles = False,
     rd_double_endian_match = True\<rparr>"

lemma demo_writer_file:
  "f_pos (xc_handle demo_writer) = 330" "length (f_data (xc_handle demo_writer)) = 330"
  "take 9 (f_data (xc_handle demo_writer)) = 0 # be_bytes 8 329" "\<not> already_in_flush demo_writer" "\<not> vc_emitted demo_writer"
  "fastpack demo_writer = fourpack demo_writer" "xc_maxhandle demo_writer = 2"
  by code_simp+

lemma demo_writer_layout: "layout_ok demo_writer"
proof -
  have "list_all (\<lambda>i. unat (vp_offs (valpos_mem demo_writer ! i)) = total_len (take i (valpos_mem demo_writer)))
      [0..<length (valpos_mem demo_writer)]"
    "length (valpos_mem demo_writer) = unat (xc_maxhandle demo_writer)"
    "length (curval_mem demo_writer) = unat (maxvalpos demo_writer)" "total_len (valpos_mem demo_writer) = unat (maxvalpos demo_writer)"
    by code_simp+
  then show ?thesis
    by (simp add: layout_ok_def list_all_iff)
qed

lemma demo_writer_fresh: "file_fresh demo_writer"
proof -
  let ?f = "f_data (xc_handle demo_writer)"
  have "?f = take 9 ?f @ drop 9 ?f"
    by simp
  then have "header_block ?f"
    unfolding header_block_def demo_writer_file(3)
    by (intro exI [of _ "drop 9 ?f"]) (simp add: demo_writer_file(2) del: be_bytes.simps)
  moreover have "xc_handle demo_writer = xc_handle (appended ?f demo_writer)"
    using demo_writer_file(1,2) by (cases "xc_handle demo_writer") (simp add: appended_def)
  ultimately show ?thesis
    using demo_writer_file(4,5) by (auto simp: file_fresh_def)
qed

theorem written_is_read_witness:
  "\<exists>xc1 xc2 evs.
     run_vcs demo_packers [Time_change 3, Emit 1 [0x31], Emit_varlen 2 [0x61, 0x62], Time_change 5, Emit 1 [0x30]] demo_writer = Some xc1 \<and>
     fstWriterFlushContextPrivate demo_packers xc1 = Some xc2 \<and>
     fstReaderIterBlocks2 demo_unpackers (demo_reader (f_data (xc_handle xc2))) = Some evs \<and>
     filter (\<lambda>e. event_handle e = 1) evs = [Value_change 3 1 [0x31], Value_change 5 1 [0x30]] \<and>
     filter (\<lambda>e. event_handle e = 2) evs = [Varlen_change 3 2 [0x61, 0x62]]"
proof -
  let ?cs = "[Emit 1 [0x31], Emit_varlen 2 [0x61, 0x62], Time_change 5, Emit 1 [0x30]]"
  let ?lg = "(\<lambda>_. [])(0 := [(1, [0x30]), (0, [0x31])], 1 := [(0, [0x61, 0x62])]) :: nat \<Rightarrow> vc_log"
  have no: "no_collision demo_packers demo_writer W" for W
    by (auto simp: no_collision_def packed_def pack_chain_def demo_packers_def demo_writer_file split: if_splits)
  have calls: "list_all (good_vc (sig_lens demo_writer)) ?cs" "1 + sum_list (map vc_size ?cs) < unat (fst_break_size demo_writer)"
    "fst_break_size demo_writer \<le> 2 ^ 28" "log_calls ?cs ([3], \<lambda>_. []) = ([3, 5], ?lg)"
    by (simp_all add: demo_writer_fields log_calls_def log_change_def fun_eq_iff)
  have inv: "inverse_packers demo_packers demo_unpackers"
    by (simp add: inverse_packers_def demo_packers_def demo_unpackers_def)
  have small: "unat (xc_maxhandle demo_writer) < 2 ^ 31" "0 < unat (xc_maxhandle demo_writer)" "?lg 0 \<noteq> []"
    by (simp_all add: demo_writer_file)
  obtain xc1 xc2 where x: "run_vcs demo_packers (Time_change 3 # ?cs) demo_writer = Some xc1"
      "fstWriterFlushContextPrivate demo_packers xc1 = Some xc2"
      "\<forall>rd. reader_of demo_writer rd \<longrightarrow> rd_f rd = f_data (xc_handle xc2) \<longrightarrow>
         (\<exists>groups. fstReaderIterBlocks2 demo_unpackers rd = Some (concat groups) \<and>
            changes_sorted (expected demo_unpackers rd ?lg) [3, 5] 0 groups)"
    using written_is_read [OF demo_writer_fields(1) demo_writer_fresh demo_writer_layout small(1) calls small(2,3) inv
        demo_writer_file(6) no] by blast
  let ?rd = "demo_reader (f_data (xc_handle xc2))"
  have two: "i < unat (xc_maxhandle demo_writer) \<longleftrightarrow> i = 0 \<or> i = 1" for i
    by (auto simp: demo_writer_file)
  have m: "masked ?rd 0 = Some True" "masked ?rd (Suc 0) = Some True"
    by (simp_all add: masked_def demo_reader_def)
  have "reader_of demo_writer ?rd"
    unfolding reader_of_def two
    using m by (auto simp: demo_writer_file demo_writer_fields(2) signal_ok_def) (simp_all add: demo_reader_def)
  then obtain groups where g: "fstReaderIterBlocks2 demo_unpackers ?rd = Some (concat groups)"
      "changes_sorted (expected demo_unpackers ?rd ?lg) [3, 5] 0 groups"
    using x(3) by (auto simp: demo_reader_def)
  obtain g0 g1 where gs: "groups = [g0, g1]"
    using g(2) by (auto simp: changes_sorted_def length_Suc_conv numeral_2_eq_2)
  define p where "p = expected demo_unpackers ?rd ?lg"
  have e: "p 0 = [(0, delivered demo_unpackers ?rd 0 [0x31]), (1, delivered demo_unpackers ?rd 0 [0x30])]"
    "p 1 = [(0, delivered demo_unpackers ?rd 1 [0x61, 0x62])]"
    by (simp_all add: p_def expected_def m to_deliver_def)
  have d: "delivered demo_unpackers ?rd 0 [v] tim = [Value_change tim 1 [rcv_text v]]"
    "delivered demo_unpackers ?rd 1 w tim = [Varlen_change tim 2 w]" for v w tim
    by (simp_all add: delivered_def demo_reader_def)
  have "events_at p 0 3 g0" "events_at p 1 5 g1"
    using g(2) unfolding p_def [symmetric] by (auto simp: changes_sorted_def gs less_Suc_eq numeral_2_eq_2)
  then have ev: "filter (\<lambda>e. event_handle e = x + 1) g0 = concat (map (\<lambda>c. snd c 3) (filter (\<lambda>c. fst c = 0) (p x)))"
    "filter (\<lambda>e. event_handle e = x + 1) g1 = concat (map (\<lambda>c. snd c 5) (filter (\<lambda>c. fst c = 1) (p x)))" for x
    by (simp_all add: events_at_def)
  have "filter (\<lambda>e. event_handle e = 0 + 1) g0 = [Value_change 3 1 [0x31]]" "filter (\<lambda>e. event_handle e = 1 + 1) g0 = [Varlen_change 3 2 [0x61, 0x62]]"
    "filter (\<lambda>e. event_handle e = 0 + 1) g1 = [Value_change 5 1 [0x30]]" "filter (\<lambda>e. event_handle e = 1 + 1) g1 = []"
    unfolding ev e by (simp_all add: d [simplified] d rcv_text_def)
  then have "filter (\<lambda>e. event_handle e = 1) (concat groups) = [Value_change 3 1 [0x31], Value_change 5 1 [0x30]]"
    "filter (\<lambda>e. event_handle e = 2) (concat groups) = [Varlen_change 3 2 [0x61, 0x62]]"
    by (simp_all add: gs numeral_2_eq_2)
  then show ?thesis
    using x(1,2) g(1) by blast
qed

end
