(* ===== verification/Fst_Closed.thy ===== *)
theory Fst_Closed
  imports Fst_Open Fst_Whole
begin

text \<open>
  A file that was closed: the text of its blocks, and what closing makes of a writer that
  holds a log.
\<close>

section \<open>The text of the blocks\<close>

lemma fseek_end_at: "fseek_end (at_pos as rest xc) = appended (as @ rest) xc"
  by (simp add: fseek_end_def fstWriterFseeko_def at_pos_def appended_def f_seek_def)

lemma tag_block_at:
  assumes "as @ rest0 = pre @ b # rest"
  shows "tag_block (length pre) tag (at_pos as rest0 xc) = appended (pre @ tag # rest) xc"
proof -
  have "fstWriterFseeko (int (length pre)) (at_pos as rest0 xc) = at_pos pre ([b] @ rest) xc"
    by (rule seek_at) (simp_all add: assms)
  moreover have "put [tag] (at_pos pre ([b] @ rest) xc) = at_pos (pre @ [tag]) rest xc"
    by (rule put_at) simp
  ultimately show ?thesis
    by (simp add: tag_block_def fseek_end_at)
qed

lemma tag_block_text: "tag_block (length pre) tag (appended (pre @ b # rest) xc) = appended (pre @ tag # rest) xc"
  unfolding appended_at using tag_block_at [of "pre @ b # rest" "[]" pre b rest tag xc] by (simp add: appended_at)

lemma put_length_text:
  assumes "length z = 8"
  shows "put_length (length pre) (appended (pre @ z @ rest) xc) = at_pos (pre @ be_bytes 8 (word_of_nat (8 + length rest))) rest xc"
proof -
  have "fstWriterFseeko (int (length pre)) (appended (pre @ z @ rest) xc) = at_pos pre (z @ rest) xc"
    unfolding appended_at by (rule seek_at) simp_all
  then show ?thesis
    using put64_at [OF assms] assms by (simp add: put_length_def)
qed

definition stored_geom :: "packers \<Rightarrow> byte list \<Rightarrow> byte list" where
  "stored_geom pk tmem =
     (case pk_compress2 pk 9 (length tmem) tmem of
        Some dmem \<Rightarrow> if length dmem < length tmem then dmem else tmem
      | None \<Rightarrow> tmem)"

definition geom_block :: "packers \<Rightarrow> u32 \<Rightarrow> byte list \<Rightarrow> byte list" where
  "geom_block pk handles tmem =
     (if tmem = [] then []
      else FST_BL_GEOM # be_bytes 8 (word_of_nat (length (stored_geom pk tmem)) + 24) @
        be_bytes 8 (word_of_nat (length tmem)) @ be_bytes 8 (ucast handles) @ stored_geom pk tmem)"

lemma appended_design [simp]:
  "geom_handle (appended d xc) = geom_handle xc" "hier_handle (appended d xc) = hier_handle xc"
  "hier_file_len (appended d xc) = hier_file_len xc" "xc_maxhandle (appended d xc) = xc_maxhandle xc"
  "blackouts (appended d xc) = blackouts xc" "fourpack (appended d xc) = fourpack xc"
  "compress_hier (appended d xc) = compress_hier xc" "repack_on_close (appended d xc) = repack_on_close xc"
  by (simp_all add: appended_def)

lemma put_geom_text: "put_geom pk (appended d xc) = appended (d @ geom_block pk (xc_maxhandle xc) (geom_handle xc)) xc"
proof (cases "geom_handle xc = []")
  case False
  then show ?thesis
    unfolding put_geom_def Let_def appended_design stored_geom_def [symmetric] put_appended put64_appended appended_handle
    by (simp add: geom_block_def tag_block_text del: be_bytes.simps)
qed (simp add: put_geom_def geom_block_def)

definition blackout_block :: "(u64 \<times> bool) list \<Rightarrow> byte list" where
  "blackout_block bs =
     (let num_blackouts = word_of_nat (length bs) :: u32;
          body = varint_bytes (ucast num_blackouts :: u64) @ blackout_bytes 0 (take (unat num_blackouts) bs)
      in if num_blackouts = 0 then []
         else FST_BL_BLACKOUT # be_bytes 8 (word_of_nat (8 + length body)) @ body)"

lemma put_blackouts_text: "put_blackouts (appended d xc) = appended (d @ blackout_block (blackouts xc)) xc"
proof (cases "word_of_nat (length (blackouts xc)) = (0 :: u32)")
  case no: False
  define num where "num = (word_of_nat (length (blackouts xc)) :: u32)"
  define body where "body = varint_bytes (ucast num :: u64) @ blackout_bytes 0 (take (unat num) (blackouts xc))"
  let ?z = "be_bytes 8 0 :: byte list"
  have 1: "put_length (length (d @ [FST_BL_SKIP])) (appended ((d @ [FST_BL_SKIP]) @ ?z @ body) xc) =
      at_pos ((d @ [FST_BL_SKIP]) @ be_bytes 8 (word_of_nat (8 + length body))) body xc"
    by (rule put_length_text) simp
  have 2: "tag_block (length d) FST_BL_BLACKOUT
      (at_pos ((d @ [FST_BL_SKIP]) @ be_bytes 8 (word_of_nat (8 + length body))) body xc) =
      appended (d @ FST_BL_BLACKOUT # be_bytes 8 (word_of_nat (8 + length body)) @ body) xc"
    by (rule tag_block_at) simp
  have "((d @ [FST_BL_SKIP]) @ ?z @ varint_bytes (ucast num :: u64)) @ blackout_bytes 0 (take (unat num) (blackouts xc)) =
      (d @ [FST_BL_SKIP]) @ ?z @ body" "length d + 1 = length (d @ [FST_BL_SKIP])"
    by (simp_all add: body_def)
  then show ?thesis
    using no unfolding put_blackouts_def blackout_block_def Let_def appended_design put_appended put64_appended put_varint_appended
      appended_handle num_def [symmetric] body_def [symmetric] append_assoc 1 [unfolded append_assoc] 2 [unfolded append_assoc]
    by (simp only: 1 [unfolded append_assoc] 2 [unfolded append_assoc] if_False)
qed (simp add: put_blackouts_def blackout_block_def)

definition hier_block :: "packers \<Rightarrow> (byte list list \<Rightarrow> byte list) \<Rightarrow> fstWriterContext \<Rightarrow> byte list" where
  "hier_block pk gz xc =
     (if \<not> compress_hier xc then []
      else let (stored, tag) = pack_hier pk gz xc (hier_handle xc)
        in tag # be_bytes 8 (word_of_nat (16 + length stored)) @ be_bytes 8 (word_of_nat (hier_file_len xc)) @ stored)"

lemma put_hier_text:
  assumes "hier_file_len xc = length (hier_handle xc)"
  shows "put_hier pk gz (appended d xc) = Some (appended (d @ hier_block pk gz xc) xc)"
proof (cases "compress_hier xc")
  case True
  obtain stored tag where p: "pack_hier pk gz xc (hier_handle xc) = (stored, tag)"
    by (cases "pack_hier pk gz xc (hier_handle xc)")
  have same: "pack_hier pk gz (appended a xc) = pack_hier pk gz xc" for a
    by (rule ext) (simp add: pack_hier_def)
  let ?z = "be_bytes 8 0 :: byte list" and ?h = "be_bytes 8 (word_of_nat (hier_file_len xc)) :: byte list"
  have "put_length (length (d @ [FST_BL_SKIP])) (appended ((d @ [FST_BL_SKIP]) @ ?z @ ?h @ stored) xc) =
      at_pos ((d @ [FST_BL_SKIP]) @ be_bytes 8 (word_of_nat (8 + length (?h @ stored)))) (?h @ stored) xc"
    by (rule put_length_text) simp
  moreover have "tag_block (length d) tag
      (at_pos ((d @ [FST_BL_SKIP]) @ be_bytes 8 (word_of_nat (8 + length (?h @ stored)))) (?h @ stored) xc) =
      appended (d @ tag # be_bytes 8 (word_of_nat (8 + length (?h @ stored))) @ ?h @ stored) xc"
    by (rule tag_block_at) simp
  moreover have "fseek_end (appended a xc) = appended a xc" for a
    using fseek_end_at [of a "[]" xc] by (simp add: appended_at)
  moreover have "slice (hier_handle xc) 0 (hier_file_len xc) = Some (hier_handle xc)"
    by (simp add: slice_def assms)
  ultimately show ?thesis
    using True unfolding put_hier_def Let_def appended_design put_appended put64_appended appended_handle
    by (simp add: hier_block_def p same put_appended del: be_bytes.simps)
qed (simp add: put_hier_def hier_block_def)

section \<open>The final header\<close>

definition closed_header :: "byte list \<Rightarrow> byte list \<Rightarrow> fstWriterContext \<Rightarrow> byte list" where
  "closed_header c e xc =
     (0 # be_bytes 8 329) @ be_bytes 8 (firsttime xc) @ be_bytes 8 (curtime xc) @ c @
     be_bytes 8 (ucast (numscopes xc)) @ be_bytes 8 (ucast (numsigs xc)) @ be_bytes 8 (ucast (xc_maxhandle xc)) @
     be_bytes 8 (ucast (secnum xc)) @ e"

lemma at_pos_more [simp]:
  "firsttime (at_pos p q xc) = firsttime xc" "numscopes (at_pos p q xc) = numscopes xc" "numsigs (at_pos p q xc) = numsigs xc"
  "xc_maxhandle (at_pos p q xc) = xc_maxhandle xc" "secnum (at_pos p q xc) = secnum xc"
  by (simp_all add: at_pos_def)

lemma put_header_text:
  assumes "headed c e hdr"
  shows "\<exists>p q. put_header (appended (hdr @ rest) xc) = at_pos p q xc \<and> p @ q = closed_header c e xc @ rest"
proof -
  obtain a b d1 d2 d3 d4 where hdr: "hdr = (0 # be_bytes 8 329) @ a @ b @ c @ d1 @ d2 @ d3 @ d4 @ e"
    and len: "length a = 8" "length b = 8" "length c = 16" "length d1 = 8" "length d2 = 8" "length d3 = 8" "length d4 = 8"
    using assms unfolding headed_def by blast
  let ?h = "0 # be_bytes 8 329 :: byte list" and ?e = "e @ rest"
  let ?p2 = "?h @ be_bytes 8 (firsttime xc)" 
  let ?p3 = "?p2 @ be_bytes 8 (curtime xc)"
  let ?p4 = "?p3 @ c"
  let ?p5 = "?p4 @ be_bytes 8 (ucast (numscopes xc))"
  let ?p6 = "?p5 @ be_bytes 8 (ucast (numsigs xc))"
  let ?p7 = "?p6 @ be_bytes 8 (ucast (xc_maxhandle xc))"
  let ?p8 = "?p7 @ be_bytes 8 (ucast (secnum xc))"
  have 1: "fstWriterFseeko 9 (appended (hdr @ rest) xc) = at_pos ?h (a @ b @ c @ d1 @ d2 @ d3 @ d4 @ ?e) xc"
    unfolding appended_at by (rule seek_at) (simp_all add: hdr del: be_bytes.simps)
  have 2: "put64 (firsttime xc) (at_pos ?h (a @ b @ c @ d1 @ d2 @ d3 @ d4 @ ?e) xc) = at_pos ?p2 (b @ c @ d1 @ d2 @ d3 @ d4 @ ?e) xc"
    by (rule put64_at) (simp add: len)
  have 3: "put64 (curtime xc) (at_pos ?p2 (b @ c @ d1 @ d2 @ d3 @ d4 @ ?e) xc) = at_pos ?p3 (c @ d1 @ d2 @ d3 @ d4 @ ?e) xc"
    by (rule put64_at) (simp add: len)
  have 4: "fstWriterFseeko 41 (at_pos ?p3 (c @ d1 @ d2 @ d3 @ d4 @ ?e) xc) = at_pos ?p4 (d1 @ d2 @ d3 @ d4 @ ?e) xc"
    by (rule seek_at) (simp_all add: len del: be_bytes.simps)
  have 5: "put64 (ucast (numscopes xc)) (at_pos ?p4 (d1 @ d2 @ d3 @ d4 @ ?e) xc) = at_pos ?p5 (d2 @ d3 @ d4 @ ?e) xc"
    by (rule put64_at) (simp add: len)
  have 6: "put64 (ucast (numsigs xc)) (at_pos ?p5 (d2 @ d3 @ d4 @ ?e) xc) = at_pos ?p6 (d3 @ d4 @ ?e) xc"
    by (rule put64_at) (simp add: len)
  have 7: "put64 (ucast (xc_maxhandle xc)) (at_pos ?p6 (d3 @ d4 @ ?e) xc) = at_pos ?p7 (d4 @ ?e) xc"
    by (rule put64_at) (simp add: len)
  have 8: "put64 (ucast (secnum xc)) (at_pos ?p7 (d4 @ ?e) xc) = at_pos ?p8 ?e xc"
    by (rule put64_at) (simp add: len)
  have "firsttime (appended (hdr @ rest) xc) = firsttime xc"
    by (simp add: appended_def)
  then have "put_header (appended (hdr @ rest) xc) = at_pos ?p8 ?e xc"
    unfolding put_header_def Let_def of_nat_numeral 1 by (simp only: at_pos_more at_pos_fields 2 3 4 5 6 7 8)
  then show ?thesis
    by (intro exI [of _ ?p8] exI [of _ ?e]) (simp add: closed_header_def del: be_bytes.simps)
qed

section \<open>Closing a writer that holds a log\<close>

definition closing :: "fstWriterContext \<Rightarrow> fstWriterContext \<Rightarrow> bool" where
  "closing xc y \<longleftrightarrow> geom_handle y = geom_handle xc \<and> hier_handle y = hier_handle xc \<and> hier_file_len y = hier_file_len xc \<and>
     numscopes y = numscopes xc \<and> numsigs y = numsigs xc \<and> xc_maxhandle y = xc_maxhandle xc \<and> secnum y = secnum xc + 1 \<and>
     blackouts y = blackouts xc \<and> fourpack y = fourpack xc \<and> compress_hier y = compress_hier xc \<and>
     repack_on_close y = repack_on_close xc \<and> firsttime y = firsttime xc \<and> curtime y = curtime xc"

lemma end_section_skip:
  assumes "skip_writing_section_hdr xc"
  shows "\<exists>y. end_section pk (flushed_context d cv vps l xc) = appended d y \<and> closing xc y"
proof -
  let ?z = "end_section pk (flushed_context d cv vps l xc)"
  have "?z = appended d ?z \<and> closing xc ?z"
    using assms by (auto simp: end_section_def flushed_context_def appended_def closing_def Let_def)
  then show ?thesis
    by (intro exI [of _ ?z])
qed

lemma close_section_log:
  assumes r: "flush_ready pk xc tims lg hdr frame x1" and "\<not> size_limit_locked xc"
  shows "\<exists>y vps area. close_section pk x1 = Some (appended (hdr @ section_text
       (section_body (hd tims) (last tims)
         (word_of_nat (sum_list (map (chain_length (log_chains (sig_lens xc) lg)) [0..<unat (xc_maxhandle xc)])))
         (frame_text (ucast (maxvalpos xc)) (ucast (xc_maxhandle xc)) frame) (xc_maxhandle xc) area
         (chain_index vps 0 0 0) (packed_times pk (time_bytes 0 tims)) (word_of_nat (length (time_bytes 0 tims)))
         (word_of_nat (length tims)))) y) \<and> closing x1 y \<and> length vps = unat (xc_maxhandle xc) \<and>
       layout (packed pk xc (log_chains (sig_lens xc) lg)) (map vp_chain vps) area \<and> area \<noteq> [] \<and> hd area = pack_type xc \<and>
       length area < 2 ^ 31"
proof -
  let ?x = "x1\<lparr>skip_writing_section_hdr := True\<rparr>"
  note d = r [unfolded flush_ready_def]
  have same: "has_chain ?x W j \<longleftrightarrow> has_chain x1 W j" "packed pk ?x W = packed pk x1 W" "pack_type ?x = pack_type x1" for W j
    by (rule flushed_same; simp)+
  have op: "section_open ?x p b f \<longleftrightarrow> section_open x1 p b f" for p b f
    by (simp add: section_open_def appended_def)
  have des: "same_design xc ?x \<longleftrightarrow> same_design xc x1"
    by (simp add: same_design_def)
  have sel: "vchg_siz ?x = vchg_siz x1" "already_in_flush ?x = already_in_flush x1" "xc_maxhandle ?x = xc_maxhandle x1"
    "valpos_mem ?x = valpos_mem x1" "tchn_handle ?x = tchn_handle x1" "tchn_cnt ?x = tchn_cnt x1" "firsttime ?x = firsttime x1"
    "curtime ?x = curtime x1" "is_initial_time ?x = is_initial_time x1"
    by simp_all
  have "flush_ready pk xc tims lg hdr frame ?x"
    unfolding flush_ready_def same op des sel by (rule d)
  then obtain cv vps area l where f: "fstWriterFlushContextPrivate pk ?x = Some (end_section pk (flushed_context (hdr @ section_text
       (section_body (hd tims) (last tims)
         (word_of_nat (sum_list (map (chain_length (log_chains (sig_lens xc) lg)) [0..<unat (xc_maxhandle xc)])))
         (frame_text (ucast (maxvalpos xc)) (ucast (xc_maxhandle xc)) frame) (xc_maxhandle xc) area
         (chain_index vps 0 0 0) (packed_times pk (time_bytes 0 tims)) (word_of_nat (length (time_bytes 0 tims)))
         (word_of_nat (length tims)))) cv vps l ?x))" "length vps = unat (xc_maxhandle xc)"
       "layout (packed pk xc (log_chains (sig_lens xc) lg)) (map vp_chain vps) area" "area \<noteq> []" "hd area = pack_type xc"
       "length area < 2 ^ 31"
    using flush_ready_result by blast
  have "\<not> vchg_siz x1 \<le> 1" "\<not> is_initial_time x1" "\<not> size_limit_locked x1"
    using d assms(2) by (simp_all add: word_le_nat_alt same_design_def)
  then have "close_section pk x1 = fstWriterFlushContextPrivate pk ?x"
    by (simp add: close_section_def Let_def)
  moreover obtain y where "end_section pk (flushed_context (hdr @ section_text
       (section_body (hd tims) (last tims)
         (word_of_nat (sum_list (map (chain_length (log_chains (sig_lens xc) lg)) [0..<unat (xc_maxhandle xc)])))
         (frame_text (ucast (maxvalpos xc)) (ucast (xc_maxhandle xc)) frame) (xc_maxhandle xc) area
         (chain_index vps 0 0 0) (packed_times pk (time_bytes 0 tims)) (word_of_nat (length (time_bytes 0 tims)))
         (word_of_nat (length tims)))) cv vps l ?x) = appended (hdr @ section_text
       (section_body (hd tims) (last tims)
         (word_of_nat (sum_list (map (chain_length (log_chains (sig_lens xc) lg)) [0..<unat (xc_maxhandle xc)])))
         (frame_text (ucast (maxvalpos xc)) (ucast (xc_maxhandle xc)) frame) (xc_maxhandle xc) area
         (chain_index vps 0 0 0) (packed_times pk (time_bytes 0 tims)) (word_of_nat (length (time_bytes 0 tims)))
         (word_of_nat (length tims)))) y" "closing x1 y"
    using end_section_skip [of ?x] by (fastforce simp: closing_def)
  ultimately show ?thesis
    using f by metis
qed

lemma close_file_text:
  assumes "close_section pk x1 = Some (appended (hdr @ text') y)" "closing x1 y" "headed c e hdr"
    and "hier_file_len x1 = length (hier_handle x1)"
  shows "\<exists>p q. close_file pk gz x1 = Some (at_pos p q (fstDestroyMmaps y)) \<and>
    p @ q = closed_header c e y @ text' @ geom_block pk (xc_maxhandle x1) (geom_handle x1) @ blackout_block (blackouts x1) @ hier_block pk gz x1"
proof -
  note cl = assms(2) [unfolded closing_def]
  have d: "fstDestroyMmaps (appended a y) = appended a (fstDestroyMmaps y)" for a
    by (simp add: fstDestroyMmaps_def appended_def)
  have f: "geom_handle (fstDestroyMmaps y) = geom_handle x1" "xc_maxhandle (fstDestroyMmaps y) = xc_maxhandle x1"
    "blackouts (fstDestroyMmaps y) = blackouts x1" "hier_file_len (fstDestroyMmaps y) = length (hier_handle (fstDestroyMmaps y))"
    using cl assms(4) by (simp_all add: fstDestroyMmaps_def)
  have "pack_hier pk gz (fstDestroyMmaps y) = pack_hier pk gz x1"
    using cl by (intro ext) (simp add: pack_hier_def fstDestroyMmaps_def)
  then have h: "hier_block pk gz (fstDestroyMmaps y) = hier_block pk gz x1"
    using cl by (simp add: hier_block_def fstDestroyMmaps_def)
  have "closed_header c e (fstDestroyMmaps y) = closed_header c e y"
    by (simp add: closed_header_def fstDestroyMmaps_def)
  then show ?thesis
    using put_header_text [OF assms(3)]
    unfolding close_file_def assms(1) bind.bind_lunit Let_def d put_geom_text put_blackouts_text put_hier_text [OF f(4)] f(1-3) h
    by (metis append_assoc)
qed

end
