(* ===== verification/Fst_Opened.thy ===== *)
theory Fst_Opened
  imports Fst_Closed
begin

text \<open>
  Opening a file that was closed: the walk over its blocks, the signals, the hierarchy, and
  the iteration over its changes.
\<close>

section \<open>Reading at a position\<close>

lemma read64_skip: "length as \<le> pos \<Longrightarrow> read64 (as @ g) pos = read64 g (pos - length as)"
  by (auto simp: read64_def)

lemma read64_Cons: "0 < pos \<Longrightarrow> read64 (b # g) pos = read64 g (pos - 1)"
  using read64_skip [of "[b]" pos g] by simp

lemma read64_front: "read64 (be_bytes 8 v @ g) 0 = Some v" "read64 (be_bytes 8 v) 0 = Some v"
  by (rule read64_at [where as = "[]"]; simp del: be_bytes.simps)
    (rule read64_at [where as = "[]" and rest = "[]"]; simp del: be_bytes.simps)

lemma slice_skip: "length as \<le> pos \<Longrightarrow> slice (as @ g) pos n = slice g (pos - length as) n"
  by (auto simp: slice_def)

lemma slice_Cons: "0 < pos \<Longrightarrow> slice (b # g) pos n = slice g (pos - 1) n"
  using slice_skip [of "[b]" pos g] by simp

lemma slice_front: "n = length bs \<Longrightarrow> slice (bs @ g) 0 n = Some bs"
  by (simp add: slice_def)

lemma peek_skip: "length as \<le> pos \<Longrightarrow> peek (as @ g) pos = peek g (pos - length as)"
  by (auto simp: peek_def nth_append)

lemma peek_Cons: "0 < pos \<Longrightarrow> peek (b # g) pos = peek g (pos - 1)"
  using peek_skip [of "[b]" pos g] by simp

lemma peek_front: "peek (b # g) 0 = Some b"
  by (simp add: peek_def)

lemmas at_place = read64_skip read64_Cons read64_front slice_skip slice_Cons slice_front peek_skip peek_Cons peek_front

section \<open>The header\<close>

definition header_rest :: "byte list \<Rightarrow> u64 \<Rightarrow> byte list \<Rightarrow> bool" where
  "header_rest c mem e \<longleftrightarrow> c = FST_DOUBLE_ENDTEST @ be_bytes 8 mem \<and> length e = 257 \<and> e ! 248 < 3"

lemma header_end_parts:
  assumes "length (e :: byte list) = 257"
  obtains ts vers dat ft z where "e = ts # vers @ dat @ ft # z" "length vers = 128" "length dat = 119" "length z = 8"
proof -
  obtain ts e1 where 1: "e = ts # e1" "length e1 = 256"
    using assms by (cases e) auto
  obtain vers e2 where 2: "e1 = vers @ e2" "length vers = 128" "length e2 = 128"
    using split_bytes [of 128 e1] 1(2) by auto
  obtain dat e3 where 3: "e2 = dat @ e3" "length dat = 119" "length e3 = 9"
    using split_bytes [of 119 e2] 2(3) by auto
  obtain ft z where 4: "e3 = ft # z" "length z = 8"
    using 3(3) by (cases e3) auto
  show thesis
    by (rule that [OF _ 2(2) 3(2) 4(2)]) (simp add: 1(1) 2(1) 3(1) 4(1))
qed

lemma read64_some: "length z = 8 \<Longrightarrow> \<exists>v. read64 (z @ g) 0 = Some v"
  by (simp add: read64_def)

lemma endtest: "length FST_DOUBLE_ENDTEST = 8" "rev FST_DOUBLE_ENDTEST \<noteq> FST_DOUBLE_ENDTEST"
  by (simp_all add: FST_DOUBLE_ENDTEST_def)

text \<open>The type of the file is one that is known.\<close>

lemma header_filetype: "length vers = 128 \<Longrightarrow> length dat = 119 \<Longrightarrow> (ts # vers @ dat @ ft # z) ! 248 = ft"
  by (simp add: nth_append)

text \<open>What reading the header leaves as it is.\<close>

definition header_kept :: "fstReaderContext \<Rightarrow> fstReaderContext \<Rightarrow> bool" where
  "header_kept xc xc1 \<longleftrightarrow> fx_f xc1 = fx_f xc \<and> fx_fh xc1 = fx_fh xc \<and> contains_hier_section xc1 = contains_hier_section xc \<and>
     contains_hier_section_lz4 xc1 = contains_hier_section_lz4 xc \<and>
     contains_hier_section_lz4duo xc1 = contains_hier_section_lz4duo xc \<and> limit_range xc1 = limit_range xc \<and>
     native_doubles_for_cb xc1 = native_doubles_for_cb xc \<and> blackout_times xc1 = blackout_times xc \<and>
     blackout_activity xc1 = blackout_activity xc"

lemma read_closed_header:
  assumes "header_rest c mem e"
  shows "\<exists>xc1. read_header (closed_header c e y @ rest) 9 xc = Some (True, xc1) \<and> start_time xc1 = firsttime y \<and>
    end_time xc1 = curtime y \<and> double_endian_match xc1 \<and> scope_count xc1 = ucast (numscopes y) \<and>
    var_count xc1 = ucast (numsigs y) \<and> fx_filetype xc1 < 3 \<and> header_kept xc xc1"
proof -
  have c: "c = FST_DOUBLE_ENDTEST @ be_bytes 8 mem" and e: "length e = 257" "e ! 248 < 3"
    using assms by (simp_all add: header_rest_def)
  obtain ts vers dat ft z where p: "e = ts # vers @ dat @ ft # z" "length vers = 128" "length dat = 119" "length z = 8"
    using header_end_parts [OF e(1)] by blast
  have ft: "ft < 3"
    using e(2) header_filetype [OF p(2,3)] by (simp only: p(1))
  obtain tz where tz: "read64 (z @ rest) 0 = Some tz"
    using read64_some [OF p(4)] by blast
  show ?thesis
    unfolding read_header_def closed_header_def c p(1)
    by (simp add: header_kept_def at_place endtest p(2-4) tz ft nth_append del: be_bytes.simps)
qed

lemma init_header:
  assumes "header_rest c mem e" "f = closed_header c e y @ rest" "firsttime y \<noteq> 0 \<or> curtime y \<noteq> 0"
  shows "\<exists>xc1. init_blocks up f 0 False False (n, xc) = init_blocks up f (length (closed_header c e y)) True False (n, xc1) \<and>
    start_time xc1 = firsttime y \<and> end_time xc1 = curtime y \<and> double_endian_match xc1 \<and> scope_count xc1 = ucast (numscopes y) \<and>
    var_count xc1 = ucast (numsigs y) \<and> fx_filetype xc1 < 3 \<and> header_kept xc xc1"
proof -
  have len: "length (closed_header c e y) = 330"
    using assms(1) by (simp add: closed_header_def header_rest_def endtest del: be_bytes.simps)
  have r: "read64 f (0 + 1) = Some 329"
    by (rule read64_at [where as = "[0]"]) (simp_all add: assms(2) closed_header_def del: be_bytes.simps)
  have f: "length f > 0" "f ! 0 = 0"
    by (simp_all add: assms(2) closed_header_def)
  obtain xc1 where h: "read_header f 9 xc = Some (True, xc1)" "start_time xc1 = firsttime y"
      "end_time xc1 = curtime y" "double_endian_match xc1" "scope_count xc1 = ucast (numscopes y)"
      "var_count xc1 = ucast (numsigs y)" "fx_filetype xc1 < 3" "header_kept xc xc1"
    using read_closed_header [OF assms(1), of y rest xc] unfolding assms(2) by blast
  have "init_blocks up f 0 False False (n, xc) = init_blocks up f (length (closed_header c e y)) True False (n, xc1)"
    using f h(1-3) assms(3) r len by (subst init_blocks.simps) (auto simp: Let_def)
  then show ?thesis
    using h by blast
qed

section \<open>The other blocks\<close>

lemma init_step:
  assumes f: "f = pre @ tag # be_bytes 8 (word_of_nat (8 + length body)) @ body @ rest" "length f < 2 ^ 63"
    and block: "read_block up f tag (length pre + 9) (word_of_nat (8 + length body)) False s = Some s1"
  shows "init_blocks up f (length pre) True False s =
    init_blocks up f (length (pre @ tag # be_bytes 8 (word_of_nat (8 + length body)) @ body)) True False s1"
proof -
  let ?L = "word_of_nat (8 + length body) :: u64"
  have len: "unat ?L = 8 + length body"
    using f by (simp only: unsigned_of_nat) (simp add: take_bit_nat_eq_self del: be_bytes.simps)
  have r: "read64 f (length pre + 1) = Some ?L"
    by (rule read64_at [where as = "pre @ [tag]"]) (simp_all add: f(1) del: be_bytes.simps)
  have head: "length pre < length f" "f ! length pre = tag"
    by (simp_all add: f(1))
  have next_pos: "length pre + 1 + unat ?L = length (pre @ tag # be_bytes 8 ?L @ body)"
    by (simp only: len) (simp del: be_bytes.simps)
  moreover have "length (pre @ tag # be_bytes 8 ?L @ body) < 2 ^ 63"
    using f by simp
  ultimately have small: "\<not> 2 ^ 63 \<le> length pre + 1 + unat ?L"
    by simp
  have go: "\<not> length f \<le> length pre" "\<not> (False \<and> ?L = 0)"
    using head(1) by simp_all
  show ?thesis
    unfolding next_pos [symmetric]
    by (subst init_blocks.simps) (simp only: Let_def r head(2) block option.case go small if_False if_True simp_thms)
qed

lemma init_end: "length f \<le> pos \<Longrightarrow> init_blocks up f pos seen inc s = Some (seen, s)"
  by (subst init_blocks.simps) simp

section \<open>The geometry\<close>

definition geom_entry :: "bool \<Rightarrow> u32 \<Rightarrow> byte list" where
  "geom_entry is_real len = varint_bytes (if len \<noteq> 0 then if \<not> is_real then ucast len else 0 else 0xFFFFFFFF :: u64)"

text \<open>The geometry file has an entry for each signal; the reals have eight bytes.\<close>

definition geom_ok :: "bool list \<Rightarrow> fstWriterContext \<Rightarrow> bool" where
  "geom_ok reals xc \<longleftrightarrow> length reals = length (valpos_mem xc) \<and>
     geom_handle xc = concat (map2 geom_entry reals (sig_lens xc)) \<and>
     (\<forall>i < length reals. reals ! i \<longrightarrow> sig_lens xc ! i = 8)"

lemma get_geom_entry:
  assumes "len \<noteq> 0xFFFFFFFF"
  shows "fstGetVarint32 (geom_entry is_real len @ rest) =
    Some (if len \<noteq> 0 then if \<not> is_real then len else 0 else 0xFFFFFFFF, length (geom_entry is_real len))"
proof -
  let ?v = "if len \<noteq> 0 then if \<not> is_real then len else 0 else 0xFFFFFFFF :: u32"
  have "geom_entry is_real len = varint_bytes (ucast ?v :: u64)"
    by (simp add: geom_entry_def)
  also have "\<dots> = varint_bytes ?v"
    by (rule varint_bytes_ucast) simp
  finally have "geom_entry is_real len = varint_bytes ?v" .
  then show ?thesis
    by (simp only: get_varint32_bytes)
qed

lemma geom_signals_read:
  assumes "length reals = length lens" "0xFFFFFFFF \<notin> set lens" "\<forall>i < length lens. reals ! i \<longrightarrow> lens ! i = 8"
  shows "geom_signals (length lens) (concat (map2 geom_entry reals lens) @ rest) =
    Some (map2 (\<lambda>r len. (len, if r then 3 else 16)) reals lens)"
  using assms
proof (induction reals lens rule: list_induct2)
  case (Cons r reals len lens)
  have "\<forall>i < length lens. reals ! i \<longrightarrow> lens ! i = 8" "r \<longrightarrow> len = 8"
    using Cons.prems(2) by (metis Suc_less_eq length_Cons nth_Cons_Suc) (use Cons.prems(2) in force)
  moreover have "fstGetVarint32 (geom_entry r len @ concat (map2 geom_entry reals lens) @ rest) =
    Some (if len \<noteq> 0 then if \<not> r then len else 0 else 0xFFFFFFFF, length (geom_entry r len))"
    by (rule get_geom_entry) (use Cons.prems(1) in simp)
  ultimately show ?case
    using Cons.IH Cons.prems(1) by auto
qed simp

lemma read_geom_block:
  assumes f: "f = pre @ FST_BL_GEOM # be_bytes 8 (word_of_nat (8 + length body)) @ body @ rest" "length f < 2 ^ 63"
    and body: "body = be_bytes 8 (word_of_nat (length tmem)) @ be_bytes 8 (ucast handles) @ stored_geom pk tmem"
    and inv: "inverse_packers pk up" and sigs: "geom_signals (unat handles) tmem = Some sigs" and len: "length tmem < 2 ^ 63"
  shows "read_geom up f (length pre + 9) (word_of_nat (8 + length body)) xc =
    Some (xc\<lparr>contains_geom_section := True, fx_maxhandle := handles,
          longest_signal_value_len := longest_len (map fst sigs), fx_process_mask := no_mask handles,
          signal_lens := map fst sigs, signal_typs := map snd sigs\<rparr>)"
proof -
  let ?p = "pre @ FST_BL_GEOM # be_bytes 8 (word_of_nat (8 + length body))" and ?s = "stored_geom pk tmem"
  have f1: "f = ?p @ be_bytes 8 (word_of_nat (length tmem)) @ be_bytes 8 (ucast handles) @ ?s @ rest"
    by (simp add: f(1) body del: be_bytes.simps)
  have pos: "length ?p = length pre + 9"
    by (simp del: be_bytes.simps)
  have l: "length ?s < 2 ^ 63"
    using f by (simp add: body del: be_bytes.simps)
  have clen: "word_of_nat (8 + length body) - 24 = (word_of_nat (length ?s) :: u64)" "unat (word_of_nat (length ?s) :: u64) = length ?s"
    using l by (simp_all add: body unsigned_of_nat take_bit_nat_eq_self del: be_bytes.simps)
  have ulen: "unat (word_of_nat (length tmem) :: u64) = length tmem"
    using len by (simp add: unsigned_of_nat take_bit_nat_eq_self)
  have r1: "read64 f (length pre + 9) = Some (word_of_nat (length tmem))"
    by (rule read64_at [OF f1]) (simp only: pos)
  have r2: "read64 f (length pre + 9 + 8) = Some (ucast handles)"
    by (rule read64_at [where as = "?p @ be_bytes 8 (word_of_nat (length tmem))"]) (simp_all add: f1 del: be_bytes.simps)
  have r3: "slice f (length pre + 9 + 16) (length ?s) = Some ?s"
    by (rule slice_at [where as = "?p @ be_bytes 8 (word_of_nat (length tmem)) @ be_bytes 8 (ucast handles)"])
      (simp_all add: f1 del: be_bytes.simps)
  have same: "word_of_nat (length ?s) = (word_of_nat (length tmem) :: u64) \<longleftrightarrow> length ?s = length tmem"
    using clen(2) ulen by metis
  have "up_uncompress up (length tmem) d = Some tmem" if "pk_compress2 pk 9 (length tmem) tmem = Some d" for d
    using inv that unfolding inverse_packers_def by (metis append_Nil2)
  then have "(if (word_of_nat (length ?s) :: u64) \<noteq> word_of_nat (length tmem) then up_uncompress up (length tmem) ?s else Some ?s) = Some tmem"
    unfolding same by (auto simp: stored_geom_def split: option.splits)
  moreover have "ucast (ucast handles :: u64) = handles"
    by (intro bit_word_eqI) (auto simp: bit_simps)
  ultimately show ?thesis
    unfolding read_geom_def Let_def clen r1 r2 r3 bind.bind_lunit ulen by (simp add: sigs)
qed

section \<open>The blackouts\<close>

definition blackout_pairs :: "(u64 \<times> bool) list \<Rightarrow> (u64 \<times> byte) list" where
  "blackout_pairs bs = map (\<lambda>(tim, active). (tim, if active then 1 else 0)) bs"

lemma read_blackouts_text:
  "read_blackouts (length bs) cur_bl (blackout_bytes cur_bl bs @ rest) = Some (blackout_pairs bs)"
proof (induction bs arbitrary: cur_bl)
  case (Cons b bs)
  then show ?case
    by (cases b) (simp add: blackout_pairs_def varint64_at)
qed (simp add: blackout_pairs_def)

lemma blackout_block_text:
  assumes "length bs < 2 ^ 32" "bs \<noteq> []"
  shows "blackout_block bs = FST_BL_BLACKOUT # be_bytes 8 (word_of_nat (8 + length (varint_bytes (word_of_nat (length bs) :: u64) @ blackout_bytes 0 bs))) @
    varint_bytes (word_of_nat (length bs) :: u64) @ blackout_bytes 0 bs"
proof -
  have u: "unat (word_of_nat (length bs) :: u32) = length bs"
    using assms(1) by (simp add: unat_small_32)
  then have nz: "word_of_nat (length bs) \<noteq> (0 :: u32)"
    using assms(2) by (metis length_0_conv unsigned_0)
  have "ucast (word_of_nat (length bs) :: u32) = (word_of_nat (length bs) :: u64)"
    using u by (metis of_nat_unat)
  then show ?thesis
    using nz by (simp only: blackout_block_def Let_def u if_False) simp
qed

section \<open>The hierarchy\<close>

lemma concat_gz_pieces: "concat (gz_pieces t) = t"
proof (induction t rule: gz_pieces.induct)
  case (1 t)
  then show ?case
    by (subst gz_pieces.simps) simp
qed

text \<open>\<open>gunzip\<close> inverts \<open>gz\<close>.\<close>

definition inverse_gz :: "(byte list list \<Rightarrow> byte list) \<Rightarrow> (byte list \<Rightarrow> byte list) \<Rightarrow> bool" where
  "inverse_gz gz gunzip \<longleftrightarrow> (\<forall>pieces. gunzip (gz pieces) = concat pieces)"

lemma gz_copy_all:
  assumes "length t < 2 ^ 63"
  shows "gz_copy t (word_of_nat (length t)) = (True, t)"
proof -
  have "signed_take_bit 63 (int (length t)) = int (length t)"
    using assms by (intro signed_take_bit_int_eq_self) simp_all
  then have "sint (word_of_nat (length t) :: u64) = int (length t)"
    by (simp add: signed_of_nat)
  then show ?thesis
    by (simp add: gz_copy_def)
qed

text \<open>What the walk over the blocks has found out about the hierarchy.\<close>

definition found_hier :: "byte \<Rightarrow> nat \<Rightarrow> fstReaderContext \<Rightarrow> bool" where
  "found_hier tag pos rx \<longleftrightarrow> fx_fh rx = None \<and> hier_pos rx = pos \<and> (contains_hier_section rx \<longleftrightarrow> tag = FST_BL_HIER) \<and>
     (contains_hier_section_lz4 rx \<longleftrightarrow> tag = FST_BL_HIER_LZ4 \<or> tag = FST_BL_HIER_LZ4DUO) \<and>
     (contains_hier_section_lz4duo rx \<longleftrightarrow> tag = FST_BL_HIER_LZ4DUO)"

lemma recreate_hier:
  assumes f: "fx_f rx = pre @ tag # be_bytes 8 (word_of_nat (16 + length stored)) @ be_bytes 8 (word_of_nat (length h)) @ stored"
      "length (fx_f rx) < 2 ^ 63"
    and pack: "pack_hier pk gz xc h = (stored, tag)" "length h < 2 ^ 31" "length (pk_LZ4_compress pk h) < 2 ^ 63"
    and found: "found_hier tag (length pre + 9) rx" and inv: "inverse_packers pk up" "inverse_gz gz gunzip"
  shows "fstReaderRecreateHierFile up gunzip rx = Some (True, rx\<lparr>fx_fh := Some h\<rparr>)"
proof -
  let ?L = "word_of_nat (16 + length stored) :: u64" and ?H = "word_of_nat (length h) :: u64"
  let ?p = "pre @ tag # be_bytes 8 ?L"
  have pos: "length ?p = length pre + 9"
    by (simp del: be_bytes.simps)
  have r1: "read64 (fx_f rx) (length pre + 9) = Some ?H"
    by (rule read64_at [where as = ?p]) (simp_all add: f(1) del: be_bytes.simps)
  have r2: "read64 (fx_f rx) (length pre + 9 - 8) = Some ?L"
    by (rule read64_at [where as = "pre @ [tag]"]) (simp_all add: f(1) del: be_bytes.simps)
  have at_end: "drop (length pre + 9 + 8) (fx_f rx) = stored"
    by (simp add: f(1) del: be_bytes.simps)
  have "16 + length stored < 2 ^ 64"
    using f by (simp del: be_bytes.simps)
  then have L: "unat ?L = 16 + length stored"
    by (simp only: unsigned_of_nat) (simp add: take_bit_nat_eq_self)
  have r3: "slice (fx_f rx) (length pre + 9 + 8) (unat ?L - 16) = Some stored"
    unfolding L by (rule slice_at [where as = "?p @ be_bytes 8 ?H" and rest = "[]"]) (simp_all add: f(1) del: be_bytes.simps)
  have H: "unat ?H = length h"
    using pack(2) by (simp add: unsigned_of_nat take_bit_nat_eq_self)
  have small: "\<not> (?L < 16 \<or> 0x80000000 \<le> ?H)"
    using L H pack(2) by (simp add: word_less_nat_alt word_le_nat_alt del: unsigned_of_nat of_nat_add of_nat_numeral)
  note fnd = found [unfolded found_hier_def]
  have lz4: "lz4_copy up (pk_LZ4_compress pk t) (length t) = (True, t)" for t
  proof -
    have "up_LZ4_decompress_safe_partial up (pk_LZ4_compress pk t @ []) (length t) = Some t"
      using inv(1) unfolding inverse_packers_def by blast
    then show ?thesis
      by (simp add: lz4_copy_def)
  qed
  have hp: "hier_pos rx = length pre + 9" "fx_fh rx = None"
    using fnd by simp_all
  have lz4_file: "fstReaderRecreateHierFile up gunzip rx =
      map_option (\<lambda>(pass_status, t). (pass_status, rx\<lparr>fx_fh := Some t\<rparr>))
        (if contains_hier_section_lz4duo rx then lz4duo_copy up stored (length h) else Some (lz4_copy up stored (length h)))"
    if "contains_hier_section_lz4 rx" "\<not> contains_hier_section rx"
    unfolding fstReaderRecreateHierFile_def
    by (simp only: that hp r1 r2 r3 bind.bind_lunit small H if_False if_True simp_thms)
  consider "tag = FST_BL_HIER" "stored = gz (gz_pieces h)" | "tag = FST_BL_HIER_LZ4" "stored = pk_LZ4_compress pk h"
    | "tag = FST_BL_HIER_LZ4DUO"
      "stored = varint_bytes (word_of_nat (length (pk_LZ4_compress pk h)) :: u64) @ pk_LZ4_compress pk (pk_LZ4_compress pk h)"
    using pack(1) by (auto simp: pack_hier_def Let_def split: if_splits)
  then show ?thesis
  proof cases
    case 1
    have "gunzip stored = h"
      using inv(2) concat_gz_pieces [of h] by (simp add: inverse_gz_def 1(2))
    moreover have "gz_copy h ?H = (True, h)"
      by (rule gz_copy_all) (use pack(2) in simp)
    ultimately show ?thesis
      using fnd 1(1) r1 at_end by (simp add: fstReaderRecreateHierFile_def)
  next
    case 2
    then show ?thesis
      using fnd lz4 lz4_file by simp
  next
    case 3
    have "unat (word_of_nat (length (pk_LZ4_compress pk h)) :: u64) = length (pk_LZ4_compress pk h)"
      using pack(3) by (simp add: unsigned_of_nat take_bit_nat_eq_self)
    then have "lz4duo_copy up stored (length h) = Some (True, h)"
      using lz4 by (simp add: lz4duo_copy_def 3(2) fstGetVarint64_def varint_scan_varint_bytes varint_value_varint_bytes Let_def)
    then show ?thesis
      using fnd 3(1) lz4_file by simp
  qed
qed

section \<open>The whole walk\<close>

lemma init_geom:
  assumes f: "f = pre @ geom_block pk handles tmem @ rest" "length f < 2 ^ 63" and tmem: "tmem \<noteq> []" "length tmem < 2 ^ 63"
    and inv: "inverse_packers pk up" and sigs: "geom_signals (unat handles) tmem = Some sigs"
  shows "init_blocks up f (length pre) True False (n, xc) = init_blocks up f (length (pre @ geom_block pk handles tmem)) True False
    (n, xc\<lparr>contains_geom_section := True, fx_maxhandle := handles, longest_signal_value_len := longest_len (map fst sigs),
      fx_process_mask := no_mask handles, signal_lens := map fst sigs, signal_typs := map snd sigs\<rparr>)"
proof -
  let ?b = "be_bytes 8 (word_of_nat (length tmem)) @ be_bytes 8 (ucast handles) @ stored_geom pk tmem"
  have g: "geom_block pk handles tmem = FST_BL_GEOM # be_bytes 8 (word_of_nat (8 + length ?b)) @ ?b"
    using tmem(1) by (simp add: geom_block_def add.commute del: be_bytes.simps)
  have f1: "f = pre @ FST_BL_GEOM # be_bytes 8 (word_of_nat (8 + length ?b)) @ ?b @ rest"
    by (simp only: f(1) g append_assoc append_Cons)
  have "read_block up f FST_BL_GEOM (length pre + 9) (word_of_nat (8 + length ?b)) False (n, xc) =
      Some (n, xc\<lparr>contains_geom_section := True, fx_maxhandle := handles, longest_signal_value_len := longest_len (map fst sigs),
      fx_process_mask := no_mask handles, signal_lens := map fst sigs, signal_typs := map snd sigs\<rparr>)"
    unfolding read_block_def Let_def prod.case read_geom_block [OF f1 f(2) refl inv sigs tmem(2)] by (simp add: is_vcdata_def)
  then show ?thesis
    unfolding g by (rule init_step [OF f1 f(2)])
qed

lemma init_blackouts:
  assumes f: "f = pre @ blackout_block bs @ rest" "length f < 2 ^ 63" and bs: "length bs < 2 ^ 32"
    and none: "blackout_times xc = []" "blackout_activity xc = []"
  shows "init_blocks up f (length pre) True False (n, xc) = init_blocks up f (length (pre @ blackout_block bs)) True False
    (n, xc\<lparr>blackout_times := map fst (blackout_pairs bs), blackout_activity := map snd (blackout_pairs bs)\<rparr>)"
proof (cases "bs = []")
  case True
  moreover have "xc\<lparr>blackout_times := [], blackout_activity := []\<rparr> = xc"
    using none by (cases xc) simp
  ultimately show ?thesis
    by (simp add: blackout_block_def blackout_pairs_def)
next
  case False
  let ?num = "word_of_nat (length bs) :: u32"
  let ?b = "varint_bytes (word_of_nat (length bs) :: u64) @ blackout_bytes 0 bs"
  note g = blackout_block_text [OF bs False]
  have u: "unat ?num = length bs"
    using bs by (simp add: unat_small_32)
  have v: "varint_bytes (word_of_nat (length bs) :: u64) = varint_bytes (ucast ?num :: u64)"
    using u by (metis of_nat_unat)
  have f1: "f = pre @ FST_BL_BLACKOUT # be_bytes 8 (word_of_nat (8 + length ?b)) @ ?b @ rest"
    by (simp only: f(1) g append_assoc append_Cons)
  have "drop (length pre + 9) f = varint_bytes (ucast ?num :: u64) @ blackout_bytes 0 bs @ rest"
    unfolding v [symmetric] by (simp add: f1 del: be_bytes.simps)
  then have "read_block up f FST_BL_BLACKOUT (length pre + 9) (word_of_nat (8 + length ?b)) False (n, xc) =
      Some (n, xc\<lparr>blackout_times := map fst (blackout_pairs bs), blackout_activity := map snd (blackout_pairs bs)\<rparr>)"
    by (simp add: read_block_def is_vcdata_def reader32_varint u read_blackouts_text)
  then show ?thesis
    unfolding g by (rule init_step [OF f1 f(2)])
qed

lemma init_hier:
  assumes f: "f = pre @ tag # be_bytes 8 (word_of_nat (8 + length body)) @ body" "length f < 2 ^ 63"
    and tag: "tag = FST_BL_HIER \<or> tag = FST_BL_HIER_LZ4 \<or> tag = FST_BL_HIER_LZ4DUO"
    and none: "fx_fh xc = None" "\<not> contains_hier_section xc" "\<not> contains_hier_section_lz4 xc" "\<not> contains_hier_section_lz4duo xc"
  shows "\<exists>b1 b2 b3. init_blocks up f (length pre) True False (n, xc) = Some (True, n, xc\<lparr>contains_hier_section := b1,
    contains_hier_section_lz4duo := b2, contains_hier_section_lz4 := b3, hier_pos := length pre + 9\<rparr>) \<and>
    found_hier tag (length pre + 9) (xc\<lparr>contains_hier_section := b1, contains_hier_section_lz4duo := b2,
      contains_hier_section_lz4 := b3, hier_pos := length pre + 9\<rparr>)"
proof -
  let ?x = "xc\<lparr>contains_hier_section := tag = FST_BL_HIER, contains_hier_section_lz4duo := tag = FST_BL_HIER_LZ4DUO,
      contains_hier_section_lz4 := tag = FST_BL_HIER_LZ4 \<or> tag = FST_BL_HIER_LZ4DUO, hier_pos := length pre + 9\<rparr>"
  have "read_block up f tag (length pre + 9) (word_of_nat (8 + length body)) False (n, xc) = Some (n, ?x)"
    using tag none by (auto simp: read_block_def is_vcdata_def)
  then have "init_blocks up f (length pre) True False (n, xc) =
      init_blocks up f (length (pre @ tag # be_bytes 8 (word_of_nat (8 + length body)) @ body)) True False (n, ?x)"
    using init_step [of f pre tag body "[]"] f by simp
  also have "\<dots> = Some (True, n, ?x)"
    by (rule init_end) (simp only: f(1) order.refl)
  finally show ?thesis
    using none(1) tag by (intro exI conjI) (assumption, auto simp: found_hier_def)
qed

text \<open>What a reader knows of a file that was closed.\<close>

definition opened ::
    "byte list \<Rightarrow> fstWriterContext \<Rightarrow> u32 \<Rightarrow> (u32 \<times> byte) list \<Rightarrow> (u64 \<times> bool) list \<Rightarrow> fstReaderContext \<Rightarrow> bool" where
  "opened f y handles sigs bs rx \<longleftrightarrow> fx_f rx = f \<and> start_time rx = firsttime y \<and> end_time rx = curtime y \<and>
     scope_count rx = ucast (numscopes y) \<and> var_count rx = ucast (numsigs y) \<and> fx_maxhandle rx = handles \<and>
     fx_filetype rx < 3 \<and> signal_lens rx = map fst sigs \<and> signal_typs rx = map snd sigs \<and> fx_process_mask rx = no_mask handles \<and>
     vc_section_count rx = 1 \<and> double_endian_match rx \<and> \<not> native_doubles_for_cb rx \<and> limit_range rx = None \<and>
     blackout_times rx = map fst (blackout_pairs bs) \<and> blackout_activity rx = map snd (blackout_pairs bs)"

lemma init_closed_file:
  assumes f: "f = closed_header c e y @ section_text body @ geom_block pk handles tmem @ blackout_block bs @
      tag # be_bytes 8 (word_of_nat (8 + length hbody)) @ hbody" "length f < 2 ^ 63"
    and hdr: "header_rest c mem e" "firsttime y \<noteq> 0 \<or> curtime y \<noteq> 0"
    and tmem: "tmem \<noteq> []" "length tmem < 2 ^ 63" "geom_signals (unat handles) tmem = Some sigs" and inv: "inverse_packers pk up"
    and bs: "length bs < 2 ^ 32" and tag: "tag = FST_BL_HIER \<or> tag = FST_BL_HIER_LZ4 \<or> tag = FST_BL_HIER_LZ4DUO"
    and pre: "pre = closed_header c e y @ section_text body @ geom_block pk handles tmem @ blackout_block bs"
  shows "\<exists>rx. init_file up gunzip (zero_reader f) = Some (True, rx) \<and> opened f y handles sigs bs rx \<and>
    found_hier tag (length pre + 9) rx"
proof -
  let ?H = "closed_header c e y" and ?S = "section_text body" and ?G = "geom_block pk handles tmem" and ?B = "blackout_block bs"
  let ?T = "tag # be_bytes 8 (word_of_nat (8 + length hbody)) @ hbody" and ?z = "zero_reader f"
  obtain x1 where 1: "init_blocks up f 0 False False (0, ?z) = init_blocks up f (length ?H) True False (0, x1)"
      "start_time x1 = firsttime y" "end_time x1 = curtime y" "double_endian_match x1" "scope_count x1 = ucast (numscopes y)"
      "var_count x1 = ucast (numsigs y)" "fx_filetype x1 < 3" "header_kept ?z x1"
    using init_header [OF hdr(1) f(1) hdr(2), of up 0 ?z] by blast
  note k = 1(8) [unfolded header_kept_def zero_reader_def, simplified]
  have "read_block up f FST_BL_VCDATA_DYN_ALIAS2 (length ?H + 9) (word_of_nat (8 + length body)) False (0, x1) = Some (1, x1)"
    by (simp add: read_block_def is_vcdata_def)
  then have 2: "init_blocks up f (length ?H) True False (0, x1) = init_blocks up f (length (?H @ ?S)) True False (1, x1)"
    unfolding section_text_def
    by (intro init_step [where rest = "?G @ ?B @ ?T"] f(2)) (simp_all add: f(1) section_text_def)
  let ?x2 = "x1\<lparr>contains_geom_section := True, fx_maxhandle := handles, longest_signal_value_len := longest_len (map fst sigs),
      fx_process_mask := no_mask handles, signal_lens := map fst sigs, signal_typs := map snd sigs\<rparr>"
  have 3: "init_blocks up f (length (?H @ ?S)) True False (1, x1) = init_blocks up f (length ((?H @ ?S) @ ?G)) True False (1, ?x2)"
    by (rule init_geom [OF _ f(2) tmem(1,2) inv tmem(3), where rest = "?B @ ?T"]) (simp add: f(1))
  let ?x3 = "?x2\<lparr>blackout_times := map fst (blackout_pairs bs), blackout_activity := map snd (blackout_pairs bs)\<rparr>"
  have 4: "init_blocks up f (length ((?H @ ?S) @ ?G)) True False (1, ?x2) =
      init_blocks up f (length (((?H @ ?S) @ ?G) @ ?B)) True False (1, ?x3)"
    by (rule init_blackouts [OF _ f(2) bs, where rest = ?T]) (simp_all add: f(1) k)
  have pre': "((?H @ ?S) @ ?G) @ ?B = pre"
    by (simp add: pre)
  obtain b1 b2 b3 where 5: "init_blocks up f (length pre) True False (1, ?x3) = Some (True, 1, ?x3\<lparr>contains_hier_section := b1,
      contains_hier_section_lz4duo := b2, contains_hier_section_lz4 := b3, hier_pos := length pre + 9\<rparr>)"
      "found_hier tag (length pre + 9) (?x3\<lparr>contains_hier_section := b1, contains_hier_section_lz4duo := b2,
        contains_hier_section_lz4 := b3, hier_pos := length pre + 9\<rparr>)"
    using init_hier [of f pre tag hbody ?x3 up 1] f tag k by (auto simp: pre)
  let ?x4 = "?x3\<lparr>contains_hier_section := b1, contains_hier_section_lz4duo := b2, contains_hier_section_lz4 := b3,
      hier_pos := length pre + 9\<rparr>"
  have "init_blocks up f 0 False False (0, ?z) = Some (True, 1, ?x4)"
    unfolding 1(1) 2 3 4 pre' 5(1) by (rule refl)
  then have "init_file up gunzip ?z = Some (True, ?x4\<lparr>vc_section_count := 1\<rparr>)"
    by (simp add: init_file_def zero_reader_def)
  moreover have "opened f y handles sigs bs (?x4\<lparr>vc_section_count := 1\<rparr>)"
    using 1(2-7) k by (simp add: opened_def)
  moreover have "found_hier tag (length pre + 9) (?x4\<lparr>vc_section_count := 1\<rparr>)"
    using 5(2) by (simp add: found_hier_def)
  ultimately show ?thesis
    by blast
qed

end
