(* ===== verification/Fst_Reopened.thy ===== *)
theory Fst_Reopened
  imports Fst_Opened
begin

text \<open>
  The whole life of a file: a writer is given a design, times and values, and is closed; the
  file is opened, and its reader has the signals, the times, the hierarchy and the changes.
\<close>

section \<open>What is assumed of the writer\<close>

definition design_ok :: "bool list \<Rightarrow> fstWriterContext \<Rightarrow> bool" where
  "design_ok reals xc \<longleftrightarrow> layout_ok xc \<and> geom_ok reals xc \<and> unat (xc_maxhandle xc) < 2 ^ 31 \<and> 0xFFFFFFFF \<notin> set (sig_lens xc) \<and>
     hier_file_len xc = length (hier_handle xc) \<and> length (hier_handle xc) < 2 ^ 31 \<and> length (blackouts xc) < 2 ^ 32 \<and>
     compress_hier xc"

definition file_started :: "fstWriterContext \<Rightarrow> bool" where
  "file_started xc \<longleftrightarrow> (\<exists>mem e. file_headed (FST_DOUBLE_ENDTEST @ be_bytes 8 mem) e xc \<and> e ! 248 < 3)"

text \<open>The compressors do not blow up the hierarchy or the file beyond all bounds.\<close>

definition packed_small :: "packers \<Rightarrow> (byte list list \<Rightarrow> byte list) \<Rightarrow> fstWriterContext \<Rightarrow> bool" where
  "packed_small pk gz xc \<longleftrightarrow> length (pk_LZ4_compress pk (hier_handle xc)) < 2 ^ 63 \<and>
     length (fst (pack_hier pk gz xc (hier_handle xc))) < 2 ^ 39 \<and>
     (\<forall>f. length f < 2 ^ 63 \<longrightarrow> length (gz (gz_pieces f)) < 2 ^ 63)"

section \<open>Sizes\<close>

lemma geom_text_length: "length (concat (map2 geom_entry reals lens)) \<le> 16 * length lens"
proof (induction reals lens rule: list_induct2')
  case (4 r reals len lens)
  then show ?case
    using varint_length_16 [of "if len \<noteq> 0 then if \<not> r then ucast len else 0 else 0xFFFFFFFF"] by (simp add: geom_entry_def)
qed simp_all

lemma geom_block_length: "length (geom_block pk handles tmem) \<le> 25 + length tmem"
  by (auto simp: geom_block_def stored_geom_def simp del: be_bytes.simps split: option.split)

lemma blackout_bytes_length: "length (blackout_bytes cur_bl bs) \<le> 17 * length bs"
proof (induction bs arbitrary: cur_bl)
  case (Cons b bs)
  show ?case
    using Cons.IH [of "fst b"] varint_length_16 [of "fst b - cur_bl"] by (cases b) simp
qed simp

lemma blackout_block_length: "length bs < 2 ^ 32 \<Longrightarrow> length (blackout_block bs) \<le> 25 + 17 * length bs"
  using blackout_block_text [of bs] blackout_bytes_length [of 0 bs] varint_length_16 [of "word_of_nat (length bs)"]
  by (cases "bs = []") (simp_all add: blackout_block_def [of "[]"] del: be_bytes.simps)

section \<open>The wrapper\<close>

lemma init_wrapped:
  assumes "inverse_gz gz gunzip" "length f < 2 ^ 63" "length (gz (gz_pieces f)) < 2 ^ 63"
  shows "fstReaderInit up gunzip (zero_reader (zwrap gz f)) = init_file up gunzip (zero_reader f)"
proof -
  let ?z = "gz (gz_pieces f)" and ?w = "zwrap gz f"
  have w: "?w = FST_BL_ZWRAPPER # be_bytes 8 (word_of_nat (16 + length ?z)) @ be_bytes 8 (word_of_nat (length f)) @ ?z"
    by (simp add: zwrap_def Let_def)
  have "unat (word_of_nat (16 + length ?z) :: u64) = 16 + length ?z"
    using assms(3) by (simp only: unsigned_of_nat) (simp add: take_bit_nat_eq_self)
  then have nz: "(word_of_nat (16 + length ?z) :: u64) \<noteq> 0"
    by (metis unsigned_0 add_eq_0_iff_both_eq_0 zero_neq_numeral)
  have r: "read64 ?w 1 = Some (word_of_nat (16 + length ?z))" "read64 ?w 9 = Some (word_of_nat (length f))" "drop 17 ?w = ?z"
    unfolding w by (simp_all add: at_place drop_Cons' del: be_bytes.simps of_nat_add)
  have "gunzip ?z = f"
    using assms(1) concat_gz_pieces by (simp add: inverse_gz_def)
  then have g: "gz_copy (gunzip (drop 17 ?w)) (word_of_nat (length f)) = (True, f)"
    using gz_copy_all [OF assms(2)] r(3) by simp
  have z: "(zero_reader ?w)\<lparr>fx_f := f\<rparr> = zero_reader f" "fx_f (zero_reader ?w) = ?w" "?w \<noteq> []" "hd ?w = FST_BL_ZWRAPPER"
    by (simp_all add: zero_reader_def w)
  show ?thesis
    unfolding fstReaderInit_def Let_def z r(1,2) bind.bind_lunit g using nz z(3,4) by (simp add: z)
qed

lemma init_plain: "f = [] \<or> hd f \<noteq> FST_BL_ZWRAPPER \<Longrightarrow> fstReaderInit up gunzip (zero_reader f) = init_file up gunzip (zero_reader f)"
  by (auto simp: fstReaderInit_def zero_reader_def)

section \<open>The closed file\<close>

lemma geom_ok_signals:
  assumes "geom_ok reals xc" "length (valpos_mem xc) = unat (xc_maxhandle xc)" "0xFFFFFFFF \<notin> set (sig_lens xc)"
  shows "geom_signals (unat (xc_maxhandle xc)) (geom_handle xc) =
    Some (map2 (\<lambda>r len. (len, if r then 3 else 16)) reals (sig_lens xc))"
proof -
  have len: "length reals = length (sig_lens xc)" "length (sig_lens xc) = unat (xc_maxhandle xc)"
    using assms(1,2) by (simp_all add: geom_ok_def sig_lens_def)
  moreover have "\<forall>i < length (sig_lens xc). reals ! i \<longrightarrow> sig_lens xc ! i = 8"
    using assms(1) len(1) unfolding geom_ok_def by simp
  moreover have "geom_handle xc = concat (map2 geom_entry reals (sig_lens xc))"
    using assms(1) by (simp add: geom_ok_def)
  ultimately show ?thesis
    using geom_signals_read [of reals "sig_lens xc" "[]"] assms(3) by simp
qed

lemma geom_ok_nonempty:
  assumes "geom_ok reals xc" "length (valpos_mem xc) = unat (xc_maxhandle xc)" "xc_maxhandle xc \<noteq> 0"
  shows "geom_handle xc \<noteq> []"
proof -
  have "length reals = length (sig_lens xc)" "length (sig_lens xc) = unat (xc_maxhandle xc)" "0 < unat (xc_maxhandle xc)"
    using assms by (auto simp: geom_ok_def sig_lens_def unat_gt_0)
  then obtain r rs l ls where "reals = r # rs" "sig_lens xc = l # ls"
    by (cases reals; cases "sig_lens xc") auto
  then show ?thesis
    using assms(1) by (simp add: geom_ok_def geom_entry_def)
qed

text \<open>The text of the file.\<close>

definition closed_text ::
    "packers \<Rightarrow> (byte list list \<Rightarrow> byte list) \<Rightarrow> fstWriterContext \<Rightarrow> u64 list \<Rightarrow> (nat \<Rightarrow> vc_log) \<Rightarrow> fstWriterContext \<Rightarrow> byte list \<Rightarrow> bool" where
  "closed_text pk gz xc tims lg y f \<longleftrightarrow>
     (\<exists>c mem e body. header_rest c mem e \<and> firsttime y = hd tims \<and> curtime y = last tims \<and>
       numscopes y = numscopes xc \<and> numsigs y = numsigs xc \<and>
       f = closed_header c e y @ section_text body @ geom_block pk (xc_maxhandle xc) (geom_handle xc) @
         blackout_block (blackouts xc) @ hier_block pk gz xc \<and>
       section_parts pk xc tims lg (geom_block pk (xc_maxhandle xc) (geom_handle xc) @ blackout_block (blackouts xc) @
         hier_block pk gz xc) f)"

lemma closed_tail_length:
  assumes "design_ok reals xc" "packed_small pk gz xc"
  shows "length (geom_block pk (xc_maxhandle xc) (geom_handle xc) @ blackout_block (blackouts xc) @ hier_block pk gz xc) \<le> 2 ^ 40"
    "length (geom_handle xc) \<le> 2 ^ 35"
proof -
  note d = assms(1) [unfolded design_ok_def]
  have n: "length (sig_lens xc) < 2 ^ 31"
    using d by (simp add: layout_ok_def sig_lens_def)
  then show g: "length (geom_handle xc) \<le> 2 ^ 35"
    using d geom_text_length [of reals "sig_lens xc"] by (simp add: geom_ok_def)
  have "length (hier_block pk gz xc) \<le> 17 + length (fst (pack_hier pk gz xc (hier_handle xc)))"
    by (auto simp: hier_block_def simp del: be_bytes.simps split: prod.split)
  then have "length (hier_block pk gz xc) < 17 + 2 ^ 39"
    using assms(2) by (simp add: packed_small_def)
  moreover have "length (blackout_block (blackouts xc)) < 25 + 17 * 2 ^ 32"
    using blackout_block_length [of "blackouts xc"] d by simp
  moreover have "length (geom_block pk (xc_maxhandle xc) (geom_handle xc)) \<le> 25 + 2 ^ 35"
    using geom_block_length [of pk "xc_maxhandle xc" "geom_handle xc"] g by simp
  ultimately show "length (geom_block pk (xc_maxhandle xc) (geom_handle xc) @ blackout_block (blackouts xc) @ hier_block pk gz xc) \<le> 2 ^ 40"
    by simp
qed

lemma closed_text_written:
  assumes fresh: "vc_fresh xc" "file_started xc" "design_ok reals xc"
    and calls: "list_all (good_vc (sig_lens xc)) cs" "1 + sum_list (map vc_size cs) < unat (fst_break_size xc)"
      "fst_break_size xc \<le> 2 ^ 28" "log_calls cs ([tim], \<lambda>_. []) = (tims, lg)"
    and some: "j < unat (xc_maxhandle xc)" "lg j \<noteq> []"
    and packers: "inverse_packers pk up" "fastpack xc = fourpack xc" "packed_small pk gz xc"
  shows "\<exists>x1 y f. run_vcs pk (Time_change tim # cs) xc = Some x1 \<and>
    fstWriterClose pk gz x1 = Some (Inr (if repack_on_close xc then zwrap gz f else f)) \<and> closed_text pk gz xc tims lg y f \<and>
    (\<forall>i < unat (xc_maxhandle xc). \<forall>e \<in> set (lg i). value_fits (sig_lens xc ! i) (snd e))"
proof -
  note d = fresh(3) [unfolded design_ok_def]
  obtain mem e where head: "file_headed (FST_DOUBLE_ENDTEST @ be_bytes 8 mem) e xc" and ft: "e ! 248 < 3"
    using fresh(2) unfolding file_started_def by blast
  let ?c = "FST_DOUBLE_ENDTEST @ be_bytes 8 mem"
  obtain x1 hdr frame where x: "run_vcs pk (Time_change tim # cs) xc = Some x1" "headed ?c e hdr" "flush_ready pk xc tims lg hdr frame x1"
    using calls_flush_ready [OF fresh(1) head _ _ calls some packers(1,2)] d by blast
  have hr: "header_rest ?c mem e"
    using x(2) ft by (simp add: headed_def header_rest_def)
  have r: "length frame < 2 ^ 32" "\<forall>i < unat (xc_maxhandle xc). \<forall>e \<in> set (lg i). value_fits (sig_lens xc ! i) (snd e)"
    "same_design xc x1" "firsttime x1 = hd tims" "curtime x1 = last tims" "\<not> already_in_flush x1"
    using x(3) unfolding flush_ready_def by blast+
  note s = r(3) [unfolded same_design_def]
  define body where "body = (\<lambda>area vps. section_body (hd tims) (last tims)
         (word_of_nat (sum_list (map (chain_length (log_chains (sig_lens xc) lg)) [0..<unat (xc_maxhandle xc)])))
         (frame_text (ucast (maxvalpos xc)) (ucast (xc_maxhandle xc)) frame) (xc_maxhandle xc) area
         (chain_index vps 0 0 0) (packed_times pk (time_bytes 0 tims)) (word_of_nat (length (time_bytes 0 tims)))
         (word_of_nat (length tims)))"
  have "\<not> size_limit_locked xc"
    using fresh(1) by (simp add: vc_fresh_def)
  then obtain y vps area where y: "close_section pk x1 = Some (appended (hdr @ section_text (body area vps)) y)" "closing x1 y"
      "length vps = unat (xc_maxhandle xc)"
      "layout (packed pk xc (log_chains (sig_lens xc) lg)) (map vp_chain vps) area" "area \<noteq> []" "hd area = pack_type xc"
      "length area < 2 ^ 31"
    using close_section_log [OF x(3)] unfolding body_def by blast
  have "hier_file_len x1 = length (hier_handle x1)"
    using s d by simp
  then obtain p q where cl: "close_file pk gz x1 = Some (at_pos p q (fstDestroyMmaps y))"
      "p @ q = closed_header ?c e y @ section_text (body area vps) @ geom_block pk (xc_maxhandle x1) (geom_handle x1) @
         blackout_block (blackouts x1) @ hier_block pk gz x1"
    using close_file_text [OF y(1,2) x(2)] by blast
  let ?tail = "geom_block pk (xc_maxhandle xc) (geom_handle xc) @ blackout_block (blackouts xc) @ hier_block pk gz xc"
  let ?f = "closed_header ?c e y @ section_text (body area vps) @ ?tail"
  have "pack_hier pk gz x1 = pack_hier pk gz xc"
    using s by (intro ext) (simp add: pack_hier_def)
  then have "hier_block pk gz x1 = hier_block pk gz xc"
    using s by (simp add: hier_block_def)
  then have "f_data (xc_handle (at_pos p q (fstDestroyMmaps y))) = ?f"
    using cl(2) s by (simp add: at_pos_def)
  moreover have "repack_on_close (at_pos p q (fstDestroyMmaps y)) = repack_on_close xc"
    using y(2) s by (simp add: at_pos_def fstDestroyMmaps_def closing_def)
  ultimately have "fstWriterClose pk gz x1 = Some (Inr (if repack_on_close xc then zwrap gz ?f else ?f))"
    using cl(1) r(6) by (simp add: fstWriterClose_def Let_def)
  moreover have "header_block (closed_header ?c e y)"
    using hr by (simp add: header_block_def closed_header_def header_rest_def endtest del: be_bytes.simps)
  then have "section_parts pk xc tims lg ?tail ?f"
    unfolding section_parts_def body_def using y(3-7) r(1) closed_tail_length(1) [OF fresh(3) packers(3)] by blast
  then have "closed_text pk gz xc tims lg y ?f"
    unfolding closed_text_def using hr y(2) r(4,5) s by (intro exI conjI) (assumption, simp_all add: closing_def)
  ultimately show ?thesis
    using x(1) r(2) by blast
qed

section \<open>The reader\<close>

lemma section_parts_length:
  assumes "section_parts pk xc tims lg tail f" "unat (xc_maxhandle xc) < 2 ^ 31" "length tims \<le> 2 ^ 28"
  shows "length f < 2 ^ 63"
proof -
  obtain hdr end_tim frame vps area where p: "header_block hdr" "length frame < 2 ^ 32" "length area < 2 ^ 31"
      "length vps = unat (xc_maxhandle xc)" "length tail \<le> 2 ^ 40"
      "f = hdr @ section_text (section_body (hd tims) end_tim
         (word_of_nat (sum_list (map (chain_length (log_chains (sig_lens xc) lg)) [0..<unat (xc_maxhandle xc)])))
         (frame_text (ucast (maxvalpos xc)) (ucast (xc_maxhandle xc)) frame) (xc_maxhandle xc) area
         (chain_index vps 0 0 0) (packed_times pk (time_bytes 0 tims)) (word_of_nat (length (time_bytes 0 tims)))
         (word_of_nat (length tims))) @ tail"
    using assms(1) unfolding section_parts_def by blast
  show ?thesis
    unfolding p(6) by (rule section_size [OF p(1-3) _ assms(3) p(5)]) (use assms(2) in \<open>simp add: p(4)\<close>)
qed

lemma closed_text_opened:
  assumes t: "closed_text pk gz xc tims lg y f" and design: "design_ok reals xc" and some: "xc_maxhandle xc \<noteq> 0"
    and tims: "hd tims \<noteq> 0 \<or> last tims \<noteq> 0" "length tims \<le> 2 ^ 28"
    and packers: "inverse_packers pk up" "inverse_gz gz gunzip" "packed_small pk gz xc"
  shows "\<exists>rx. fstReaderOpen up gunzip (Some (if repack_on_close xc then zwrap gz f else f)) None = Some (Some rx) \<and>
    opened f y (xc_maxhandle xc) (map2 (\<lambda>r len. (len, if r then 3 else 16)) reals (sig_lens xc)) (blackouts xc) rx \<and>
    fstReaderRecreateHierFile up gunzip rx = Some (True, rx\<lparr>fx_fh := Some (hier_handle xc)\<rparr>)"
proof -
  note d = design [unfolded design_ok_def]
  let ?sigs = "map2 (\<lambda>r len. (len, if r then 3 else 16)) reals (sig_lens xc) :: (u32 \<times> byte) list"
  let ?G = "geom_block pk (xc_maxhandle xc) (geom_handle xc)" and ?B = "blackout_block (blackouts xc)"
  obtain c mem e body where c: "header_rest c mem e" "firsttime y = hd tims" "curtime y = last tims"
      "f = closed_header c e y @ section_text body @ ?G @ ?B @ hier_block pk gz xc"
      "section_parts pk xc tims lg (?G @ ?B @ hier_block pk gz xc) f"
    using t unfolding closed_text_def by blast
  have len63: "length f < 2 ^ 63"
    using section_parts_length [OF c(5) _ tims(2)] d by blast
  obtain stored tag where p: "pack_hier pk gz xc (hier_handle xc) = (stored, tag)"
    by (cases "pack_hier pk gz xc (hier_handle xc)")
  then have tag: "tag = FST_BL_HIER \<or> tag = FST_BL_HIER_LZ4 \<or> tag = FST_BL_HIER_LZ4DUO"
    by (auto simp: pack_hier_def Let_def split: if_splits)
  let ?hb = "be_bytes 8 (word_of_nat (length (hier_handle xc))) @ stored"
  have hb: "hier_block pk gz xc = tag # be_bytes 8 (word_of_nat (8 + length ?hb)) @ ?hb"
    "hier_block pk gz xc = tag # be_bytes 8 (word_of_nat (16 + length stored)) @ be_bytes 8 (word_of_nat (length (hier_handle xc))) @ stored"
    using d p by (simp_all add: hier_block_def del: be_bytes.simps)
  let ?pre = "closed_header c e y @ section_text body @ ?G @ ?B"
  have layout: "length (valpos_mem xc) = unat (xc_maxhandle xc)"
    using d by (simp add: layout_ok_def)
  have g: "geom_handle xc \<noteq> []" "length (geom_handle xc) < 2 ^ 63" "geom_signals (unat (xc_maxhandle xc)) (geom_handle xc) = Some ?sigs"
    using geom_ok_nonempty [OF _ layout some] geom_ok_signals [OF _ layout] closed_tail_length(2) [OF design packers(3)] d
    by (auto intro: le_less_trans)
  have "\<exists>rx. init_file up gunzip (zero_reader f) = Some (True, rx) \<and> opened f y (xc_maxhandle xc) ?sigs (blackouts xc) rx \<and>
      found_hier tag (length ?pre + 9) rx"
    by (rule init_closed_file [OF c(4) [unfolded hb(1)] len63 c(1) _ g packers(1) _ tag refl]) (use tims(1) c(2,3) d in auto)
  then obtain rx where rx: "init_file up gunzip (zero_reader f) = Some (True, rx)"
      "opened f y (xc_maxhandle xc) ?sigs (blackouts xc) rx" "found_hier tag (length ?pre + 9) rx"
    by blast
  have plain: "hd f \<noteq> FST_BL_ZWRAPPER"
    by (simp add: c(4) closed_header_def)
  have z: "(zero_reader g)\<lparr>fx_fh := None\<rparr> = zero_reader g" for g
    by (simp add: zero_reader_def)
  have "length (gz (gz_pieces f)) < 2 ^ 63"
    using packers(3) len63 unfolding packed_small_def by blast
  then have init: "fstReaderInit up gunzip ((zero_reader (if repack_on_close xc then zwrap gz f else f))\<lparr>fx_fh := None\<rparr>) = Some (True, rx)"
    using init_wrapped [OF packers(2) len63] init_plain plain rx(1) by (simp add: z)
  have "vc_section_count rx \<noteq> 0 \<and> fx_maxhandle rx \<noteq> 0 \<and> (contains_hier_section rx \<or> contains_hier_section_lz4 rx)"
    using rx(2,3) some tag by (auto simp: opened_def found_hier_def)
  then have "fstReaderOpen up gunzip (Some (if repack_on_close xc then zwrap gz f else f)) None = Some (Some (rx\<lparr>fx_do_rewind := True\<rparr>))"
    unfolding fstReaderOpen_def option.case init by simp
  moreover have "opened f y (xc_maxhandle xc) ?sigs (blackouts xc) (rx\<lparr>fx_do_rewind := True\<rparr>)"
    using rx(2) by (simp add: opened_def)
  moreover have "found_hier tag (length ?pre + 9) (rx\<lparr>fx_do_rewind := True\<rparr>)"
    using rx(3) by (simp add: found_hier_def)
  then have "fstReaderRecreateHierFile up gunzip (rx\<lparr>fx_do_rewind := True\<rparr>) =
      Some (True, (rx\<lparr>fx_do_rewind := True\<rparr>)\<lparr>fx_fh := Some (hier_handle xc)\<rparr>)"
    using recreate_hier [of "rx\<lparr>fx_do_rewind := True\<rparr>" ?pre tag stored "hier_handle xc" pk gz xc up gunzip] rx(2) c(4) hb(2) p d packers len63
    by (simp add: opened_def packed_small_def del: be_bytes.simps)
  ultimately show ?thesis
    by blast
qed

lemma opened_reader_of:
  assumes o: "opened f y (xc_maxhandle xc) (map2 (\<lambda>r len. (len, if r then 3 else 16)) reals (sig_lens xc)) bs rx"
    and design: "design_ok reals xc" and m: "length m = (unat (xc_maxhandle xc) + 7) div 8"
  shows "reader_of xc (blocks_of (rx\<lparr>fx_process_mask := m\<rparr>))"
proof -
  have len: "length reals = length (sig_lens xc)" "length (sig_lens xc) = unat (xc_maxhandle xc)"
    using design by (simp_all add: design_ok_def layout_ok_def geom_ok_def sig_lens_def)
  have real: "\<forall>i < length reals. reals ! i \<longrightarrow> sig_lens xc ! i = 8"
    using design unfolding design_ok_def geom_ok_def by blast
  have sl: "map fst (map2 (\<lambda>r len. (len, if r then 3 else 16)) reals (sig_lens xc) :: (u32 \<times> byte) list) = sig_lens xc"
    using len(1) by (intro nth_equalityI) simp_all
  have st: "map snd (map2 (\<lambda>r len. (len, if r then 3 else 16)) reals (sig_lens xc) :: (u32 \<times> byte) list) =
      map (\<lambda>r. if r then 3 else 16) reals"
    using len(1) by (intro nth_equalityI) simp_all
  have "masked (blocks_of (rx\<lparr>fx_process_mask := m\<rparr>)) i \<noteq> None" if "i < unat (xc_maxhandle xc)" for i
    using that m by (simp add: masked_def blocks_of_def peek_def)
  moreover have "signal_ok (blocks_of (rx\<lparr>fx_process_mask := m\<rparr>)) i" if "i < unat (xc_maxhandle xc)" for i
    using that o len real unfolding opened_def sl st by (simp add: signal_ok_def blocks_of_def)
  ultimately show ?thesis
    using o unfolding opened_def sl by (simp add: reader_of_def blocks_of_def)
qed

lemma closed_file_read:
  assumes "vc_fresh xc" "file_started xc" "design_ok reals xc"
    and "list_all (good_vc (sig_lens xc)) cs" "1 + sum_list (map vc_size cs) < unat (fst_break_size xc)"
      "fst_break_size xc \<le> 2 ^ 28" "log_calls cs ([tim], \<lambda>_. []) = (tims, lg)" "tim \<noteq> 0 \<or> last tims \<noteq> 0"
    and "j < unat (xc_maxhandle xc)" "lg j \<noteq> []"
    and "inverse_packers pk up" "inverse_gz gz gunzip" "packed_small pk gz xc" "fastpack xc = fourpack xc"
      "no_collision pk xc (log_chains (sig_lens xc) lg)"
  shows "\<exists>x1 f rx. run_vcs pk (Time_change tim # cs) xc = Some x1 \<and> fstWriterClose pk gz x1 = Some (Inr f) \<and>
    fstReaderOpen up gunzip (Some f) None = Some (Some rx) \<and>
    fx_maxhandle rx = xc_maxhandle xc \<and> signal_lens rx = sig_lens xc \<and> start_time rx = tim \<and> end_time rx = last tims \<and>
    scope_count rx = ucast (numscopes xc) \<and> vc_section_count rx = 1 \<and> blackout_times rx = map fst (blackouts xc) \<and>
    signal_typs rx = map (\<lambda>r. if r then 3 else 16) reals \<and> fx_process_mask rx = no_mask (xc_maxhandle xc) \<and>
    fx_filetype rx < 3 \<and>
    fstReaderRecreateHierFile up gunzip rx = Some (True, rx\<lparr>fx_fh := Some (hier_handle xc)\<rparr>) \<and>
    (\<forall>m. length m = (unat (xc_maxhandle xc) + 7) div 8 \<longrightarrow>
       (\<exists>groups. fstReaderIterBlocks2 up (blocks_of (rx\<lparr>fx_process_mask := m\<rparr>)) = Some (concat groups) \<and>
          changes_sorted (expected up (blocks_of (rx\<lparr>fx_process_mask := m\<rparr>)) lg) tims 0 groups))"
proof -
  note d = assms(3) [unfolded design_ok_def]
  let ?sigs = "map2 (\<lambda>r len. (len, if r then 3 else 16)) reals (sig_lens xc) :: (u32 \<times> byte) list"
  obtain x1 y f where w: "run_vcs pk (Time_change tim # cs) xc = Some x1"
      "fstWriterClose pk gz x1 = Some (Inr (if repack_on_close xc then zwrap gz f else f))" "closed_text pk gz xc tims lg y f"
      "\<forall>i < unat (xc_maxhandle xc). \<forall>e \<in> set (lg i). value_fits (sig_lens xc ! i) (snd e)"
    using closed_text_written [OF assms(1-7) assms(9,10) assms(11,14,13)] by blast
  have n: "xc_maxhandle xc \<noteq> 0" "length (sig_lens xc) = unat (xc_maxhandle xc)" "length reals = length (sig_lens xc)"
    using assms(1) d by (simp_all add: vc_fresh_def geom_ok_def layout_ok_def sig_lens_def)
  note t = written_times [OF assms(5-7)]
  have "hd tims \<noteq> 0 \<or> last tims \<noteq> 0" "length tims \<le> 2 ^ 28"
    using t assms(8) by simp_all
  from closed_text_opened [OF w(3) assms(3) n(1) this assms(11-13)]
  obtain rx where rx: "fstReaderOpen up gunzip (Some (if repack_on_close xc then zwrap gz f else f)) None = Some (Some rx)"
      "opened f y (xc_maxhandle xc) ?sigs (blackouts xc) rx"
      "fstReaderRecreateHierFile up gunzip rx = Some (True, rx\<lparr>fx_fh := Some (hier_handle xc)\<rparr>)"
    by blast
  have "map fst ?sigs = sig_lens xc" "map snd ?sigs = map (\<lambda>r. if r then 3 else 16) reals"
    "map fst (blackout_pairs (blackouts xc)) = map fst (blackouts xc)"
    using n(3) by (auto intro: nth_equalityI simp: blackout_pairs_def)
  moreover have "firsttime y = tim" "curtime y = last tims" "numscopes y = numscopes xc"
    using w(3) t by (auto simp: closed_text_def)
  ultimately have fields: "fx_maxhandle rx = xc_maxhandle xc" "signal_lens rx = sig_lens xc" "start_time rx = tim"
    "end_time rx = last tims" "scope_count rx = ucast (numscopes xc)" "vc_section_count rx = 1"
    "blackout_times rx = map fst (blackouts xc)" "signal_typs rx = map (\<lambda>r. if r then 3 else 16) reals"
    "fx_process_mask rx = no_mask (xc_maxhandle xc)" "fx_filetype rx < 3"
    using rx(2) unfolding opened_def by simp_all
  have "\<exists>groups. fstReaderIterBlocks2 up (blocks_of (rx\<lparr>fx_process_mask := m\<rparr>)) = Some (concat groups) \<and>
          changes_sorted (expected up (blocks_of (rx\<lparr>fx_process_mask := m\<rparr>)) lg) tims 0 groups"
    if m: "length m = (unat (xc_maxhandle xc) + 7) div 8" for m
  proof (rule section_file_read)
    show "section_parts pk xc tims lg (geom_block pk (xc_maxhandle xc) (geom_handle xc) @ blackout_block (blackouts xc) @
         hier_block pk gz xc) (rd_f (blocks_of (rx\<lparr>fx_process_mask := m\<rparr>)))"
      using w(3) rx(2) by (auto simp: closed_text_def opened_def blocks_of_def)
    show "reader_of xc (blocks_of (rx\<lparr>fx_process_mask := m\<rparr>))"
      by (rule opened_reader_of [OF rx(2) assms(3) m])
    show "\<forall>i \<ge> unat (xc_maxhandle xc). lg i = []"
      using log_calls_outside [OF assms(4,7)] n(2) by simp
  qed (use assms d t written_total [OF assms(5-7)] w(4) n(1) fields(6) in \<open>auto simp: blocks_of_def unat_gt_0\<close>)
  then show ?thesis
    using w(1,2) rx(1,3) fields by blast
qed

end
