(* ===== verification/Fst_Design.thy ===== *)
theory Fst_Design
  imports Fst_Reopened
begin

text \<open>
  From the creation of a file on: the calls that describe a design keep what closing and
  opening rest on.
\<close>

section \<open>The new file\<close>

lemma field_length: "length (field n s) = n"
  by (simp add: field_def)

lemma create_started: "file_started (fstWriterCreate m d k)"
proof -
  let ?z = "fstDetermineBreakSize m (zero_context\<lparr>compress_hier := k AND 1 \<noteq> 0\<rparr>)"
  let ?x = "?z\<lparr>vchg_alloc_siz := ucast (fst_break_size ?z + fst_break_add_size ?z), is_initial_time := True\<rparr>"
  have x: "?x = appended [] ?x"
    by (rule appended_id) (simp add: appended_def fstDetermineBreakSize_def zero_context_def)
  let ?e = "ucast ((- 9 :: u32) AND 255) # field 128 (lit ''fstWriter'') @ field 119 d @ filetype ?x # be_bytes 8 (timezero ?x)"
  let ?h = "(0 # be_bytes 8 329) @ be_bytes 8 0 @ be_bytes 8 0 @ (FST_DOUBLE_ENDTEST @ be_bytes 8 (fst_break_size ?x)) @
      be_bytes 8 0 @ be_bytes 8 0 @ be_bytes 8 0 @ be_bytes 8 0 @ ?e"
  have f: "filetype (appended a y) = filetype y" "timezero (appended a y) = timezero y" "fst_break_size (appended a y) = fst_break_size y"
    for a y
    by (simp_all add: appended_def)
  have "fstWriterCreate m d k = fstWriterEmitHdrBytes d ?x"
    by (simp add: fstWriterCreate_def Let_def)
  also have "\<dots> = appended ?h ?x"
    by (subst x, unfold fstWriterEmitHdrBytes_def Let_def put_appended put64_appended f) simp
  finally have c: "fstWriterCreate m d k = appended ?h ?x" .
  have h: "headed (FST_DOUBLE_ENDTEST @ be_bytes 8 (fst_break_size ?x)) ?e ?h"
    unfolding headed_def
    by (intro conjI exI [of _ "be_bytes 8 0"]) (simp_all add: endtest field_length del: be_bytes.simps)
  have "file_headed (FST_DOUBLE_ENDTEST @ be_bytes 8 (fst_break_size ?x)) ?e (fstWriterCreate m d k)"
    using h unfolding file_headed_def c by (auto simp: appended_def fstDetermineBreakSize_def zero_context_def)
  moreover have "?e ! 248 < 3"
    by (subst header_filetype) (simp_all add: field_length fstDetermineBreakSize_def zero_context_def)
  ultimately show ?thesis
    unfolding file_started_def by blast
qed

section \<open>The calls\<close>

text \<open>What no call of a description changes.\<close>

definition same_start :: "fstWriterContext \<Rightarrow> fstWriterContext \<Rightarrow> bool" where
  "same_start xc xc1 \<longleftrightarrow> xc_handle xc1 = xc_handle xc \<and> already_in_flush xc1 = already_in_flush xc \<and> vc_emitted xc1 = vc_emitted xc \<and>
     compress_hier xc1 = compress_hier xc \<and> blackouts xc1 = blackouts xc \<and> is_initial_time xc1 = is_initial_time xc \<and>
     size_limit_locked xc1 = size_limit_locked xc \<and> flush_context_pending xc1 = flush_context_pending xc \<and>
     tchn_handle xc1 = tchn_handle xc \<and> tchn_cnt xc1 = tchn_cnt xc \<and> tchn_idx xc1 = tchn_idx xc \<and>
     fastpack xc1 = fastpack xc \<and> fourpack xc1 = fourpack xc"

lemma same_start_steps [simp]:
  "same_start xc (hier_put bs y) = same_start xc y" "same_start xc (counted n y) = same_start xc y"
  "same_start xc (hier_varint v y) = same_start xc y" "same_start xc (huge_break y) = same_start xc y"
  "same_start xc (create_signal r len y) = same_start xc y" "same_start xc (fstDestroyMmaps y) = same_start xc y"
  "same_start xc (y\<lparr>numscopes := s\<rparr>) = same_start xc y" "same_start xc (y\<lparr>numsigs := s\<rparr>) = same_start xc y" "same_start xc xc"
  by (simp_all add: same_start_def hier_put_def counted_def hier_varint_def fstWriterVarint_def huge_break_def create_signal_def
      geom_varint_def fstDestroyMmaps_def Let_def)

lemma run_call_start: "same_start xc (snd (run_call c xc))"
  by (cases c)
    (auto simp: run_call_def fstWriterSetScope_def fstWriterSetUpscope_def fstWriterSetAttrBegin_def fstWriterSetAttrEnd_def
      fstWriterCreateVar_def Let_def split: option.split prod.split)

text \<open>The signals a call adds: whether it is real, and its length.\<close>

fun new_signal :: "u32 \<Rightarrow> hier_call \<Rightarrow> (bool \<times> u32) list" where
  "new_signal n (Call_CreateVar vt vd len nam al) = (if al = 0 \<or> al > n then [(is_real_type vt, var_len vt len)] else [])"
| "new_signal n c = []"

lemma hier_geom [simp]:
  "geom_handle (hier_put bs xc) = geom_handle xc" "geom_handle (counted n xc) = geom_handle xc"
  "geom_handle (hier_varint v xc) = geom_handle xc" "geom_handle (huge_break xc) = geom_handle xc"
  "geom_handle (fstDestroyMmaps xc) = geom_handle xc" "valpos_mem (fstDestroyMmaps xc) = valpos_mem xc"
  by (simp_all add: hier_put_def counted_def hier_varint_def fstWriterVarint_def huge_break_def fstDestroyMmaps_def Let_def)

lemma create_signal_geom:
  "geom_handle (create_signal r len xc) = geom_handle xc @ geom_entry r len"
  "valpos_mem (create_signal r len xc) = valpos_mem xc @ [\<lparr>vp_offs = maxvalpos xc, vp_len = len, vp_chain = 0, vp_tidx = 0\<rparr>]"
  by (simp_all add: create_signal_def geom_varint_def geom_entry_def fstWriterVarint_def Let_def)

lemma CreateVar_geom:
  "geom_handle (snd (fstWriterCreateVar vt vd len (Some nam) al xc)) = geom_handle xc @
     (if al = 0 \<or> al > xc_maxhandle xc then geom_entry (is_real_type vt) (var_len vt len) else [])"
  "sig_lens (snd (fstWriterCreateVar vt vd len (Some nam) al xc)) = sig_lens xc @
     (if al = 0 \<or> al > xc_maxhandle xc then [var_len vt len] else [])"
  by (auto simp: fstWriterCreateVar_def create_signal_geom sig_lens_def fstDestroyMmaps_def Let_def)

lemma run_call_geom:
  "geom_handle (snd (run_call c xc)) = geom_handle xc @ concat (map (\<lambda>(r, l). geom_entry r l) (new_signal (xc_maxhandle xc) c))"
  "sig_lens (snd (run_call c xc)) = sig_lens xc @ map snd (new_signal (xc_maxhandle xc) c)"
proof -
  have lens: "sig_lens (hier_put bs y) = sig_lens y" "sig_lens (counted n y) = sig_lens y" "sig_lens (hier_varint v y) = sig_lens y"
    "sig_lens (y\<lparr>numscopes := s\<rparr>) = sig_lens y" for bs n v s y
    by (simp_all add: sig_lens_def)
  show "geom_handle (snd (run_call c xc)) = geom_handle xc @ concat (map (\<lambda>(r, l). geom_entry r l) (new_signal (xc_maxhandle xc) c))"
    by (cases c) (auto simp: run_call_def CreateVar_geom fstWriterSetScope_def fstWriterSetUpscope_def fstWriterSetAttrBegin_def
      fstWriterSetAttrEnd_def Let_def case_prod_beta split: option.split)
  show "sig_lens (snd (run_call c xc)) = sig_lens xc @ map snd (new_signal (xc_maxhandle xc) c)"
    by (cases c) (auto simp: run_call_def CreateVar_geom lens fstWriterSetScope_def fstWriterSetUpscope_def fstWriterSetAttrBegin_def
      fstWriterSetAttrEnd_def Let_def case_prod_beta split: option.split)
qed

fun call_len :: "hier_call \<Rightarrow> nat" where
  "call_len (Call_CreateVar vt vd len nam al) = unat (var_len vt len)"
| "call_len c = 0"

abbreviation total :: "u32 list \<Rightarrow> nat" where "total lens \<equiv> sum_list (map unat lens)"

lemma new_signal_len: "total (map snd (new_signal n c)) \<le> call_len c" "length (new_signal n c) \<le> 1"
  by (cases c; simp)+

lemma layout_total: "layout_ok xc \<Longrightarrow> unat (maxvalpos xc) = total (sig_lens xc) \<and> unat (xc_maxhandle xc) = length (sig_lens xc)"
  by (simp add: layout_ok_def total_len_def sig_lens_def comp_def)

lemma run_call_layout:
  assumes "layout_ok xc" "total (sig_lens xc) + call_len c < 2 ^ 32" "length (sig_lens xc) < 2 ^ 31"
  shows "layout_ok (snd (run_call c xc))"
proof (cases c)
  case (Call_CreateVar vt vd len nam al)
  have "unat (xc_maxhandle xc) < 2 ^ 31"
    using assms layout_total [OF assms(1)] by simp
  then have "xc_maxhandle xc \<noteq> - 1"
    by (auto simp: unsigned_minus_1_eq_mask mask_eq_exp_minus_1)
  then show ?thesis
    using assms create_var_layout layout_total [OF assms(1)] by (simp add: Call_CreateVar run_call_def case_prod_beta Let_def)
qed (use assms in \<open>auto simp: layout_ok_def run_call_def fstWriterSetScope_def fstWriterSetUpscope_def fstWriterSetAttrBegin_def
      fstWriterSetAttrEnd_def Let_def case_prod_beta split: option.split\<close>)

definition designed :: "bool list \<Rightarrow> fstWriterContext \<Rightarrow> bool" where
  "designed reals xc \<longleftrightarrow> file_started xc \<and> layout_ok xc \<and> geom_ok reals xc \<and> hier_file_len xc = length (hier_handle xc)"

lemma var_len_real: "is_real_type vt \<Longrightarrow> var_len vt len = 8"
  by (simp add: var_len_def)

lemma new_signal_real: "(r, l) \<in> set (new_signal n c) \<Longrightarrow> r \<Longrightarrow> l = 8"
  by (cases c) (auto simp: var_len_real split: if_splits)

lemma geom_ok_snoc:
  assumes "geom_ok reals xc" "geom_handle y = geom_handle xc @ concat (map (\<lambda>(r, l). geom_entry r l) ns)"
    and "sig_lens y = sig_lens xc @ map snd ns" "\<forall>(r, l) \<in> set ns. r \<longrightarrow> l = 8"
  shows "geom_ok (reals @ map fst ns) y"
proof -
  have len: "length reals = length (sig_lens xc)"
    using assms(1) by (simp add: geom_ok_def sig_lens_def)
  have "length (valpos_mem y) = length (sig_lens y)"
    by (simp add: sig_lens_def)
  moreover have "map2 geom_entry (map fst ns) (map snd ns) = map (\<lambda>(r, l). geom_entry r l) ns"
    by (induction ns) auto
  moreover have "(reals @ map fst ns) ! i \<longrightarrow> (sig_lens xc @ map snd ns) ! i = 8" if "i < length reals + length ns" for i
  proof (cases "i < length reals")
    case True
    then show ?thesis
      using assms(1) len by (simp add: geom_ok_def nth_append)
  next
    case False
    then have "ns ! (i - length reals) \<in> set ns"
      using that by simp
    then have "fst (ns ! (i - length reals)) \<longrightarrow> snd (ns ! (i - length reals)) = 8"
      using assms(4) by (auto simp: case_prod_beta)
    then show ?thesis
      using False that len by (simp add: nth_append)
  qed
  ultimately show ?thesis
    using assms(1-3) len by (simp add: geom_ok_def)
qed

lemma run_call_designed:
  assumes "designed reals xc" "total (sig_lens xc) + call_len c < 2 ^ 32" "length (sig_lens xc) < 2 ^ 31"
  shows "designed (reals @ map fst (new_signal (xc_maxhandle xc) c)) (snd (run_call c xc))"
proof -
  note d = assms(1) [unfolded designed_def]
  have "file_started (snd (run_call c xc))"
    using d run_call_start [of xc c] by (auto simp: file_started_def file_headed_def same_start_def appended_def)
  moreover have "layout_ok (snd (run_call c xc))"
    using run_call_layout d assms(2,3) by blast
  moreover have "geom_ok (reals @ map fst (new_signal (xc_maxhandle xc) c)) (snd (run_call c xc))"
    by (rule geom_ok_snoc [of reals xc]) (use d run_call_geom new_signal_real in auto)
  moreover have "hier_file_len (snd (run_call c xc)) = length (hier_handle (snd (run_call c xc)))"
    using d by (simp add: run_call_hier)
  ultimately show ?thesis
    by (simp add: designed_def)
qed

lemma run_calls_designed:
  assumes "designed reals xc" "total (sig_lens xc) + sum_list (map call_len ds) < 2 ^ 32" "length (sig_lens xc) + length ds < 2 ^ 31"
  shows "\<exists>reals1. designed reals1 (snd (run_calls ds xc)) \<and> same_start xc (snd (run_calls ds xc)) \<and>
    total (sig_lens (snd (run_calls ds xc))) \<le> total (sig_lens xc) + sum_list (map call_len ds) \<and>
    length (sig_lens (snd (run_calls ds xc))) \<le> length (sig_lens xc) + length ds"
  using assms
proof (induction ds arbitrary: reals xc)
  case (Cons c ds)
  let ?y = "snd (run_call c xc)"
  have y: "designed (reals @ map fst (new_signal (xc_maxhandle xc) c)) ?y"
    using Cons.prems by (intro run_call_designed) auto
  have t: "total (sig_lens ?y) \<le> total (sig_lens xc) + call_len c" "length (sig_lens ?y) \<le> length (sig_lens xc) + 1"
    using new_signal_len [of "xc_maxhandle xc" c] by (simp_all add: run_call_geom)
  obtain reals1 where r: "designed reals1 (snd (run_calls ds ?y))" "same_start ?y (snd (run_calls ds ?y))"
      "total (sig_lens (snd (run_calls ds ?y))) \<le> total (sig_lens ?y) + sum_list (map call_len ds)"
      "length (sig_lens (snd (run_calls ds ?y))) \<le> length (sig_lens ?y) + length ds"
    using Cons.IH [OF y] t Cons.prems(2,3) by fastforce
  have "same_start xc (snd (run_calls ds ?y))"
    using r(2) run_call_start [of xc c] by (simp add: same_start_def)
  moreover have "snd (run_calls (c # ds) xc) = snd (run_calls ds ?y)"
    by (simp add: case_prod_beta Let_def)
  ultimately show ?case
    using r t by (intro exI [of _ reals1]) simp
qed auto

section \<open>From the first call to the reader\<close>

text \<open>A new file with a description, its way of packing, and whether it is wrapped.\<close>

definition described :: "u32 \<Rightarrow> u32 \<Rightarrow> u64 option \<Rightarrow> byte list \<Rightarrow> hier_call list \<Rightarrow> fstWriterContext" where
  "described pt rp memtotal dat ds =
     fstWriterSetRepackOnClose rp (fstWriterSetPackType pt (snd (run_calls ds (fstWriterCreate memtotal dat 1))))"

lemma create_fields:
  "sig_lens (fstWriterCreate m d k) = []" "layout_ok (fstWriterCreate m d k)" "geom_ok [] (fstWriterCreate m d k)"
  "is_initial_time (fstWriterCreate m d k)" "\<not> size_limit_locked (fstWriterCreate m d k)" "\<not> flush_context_pending (fstWriterCreate m d k)"
  "tchn_handle (fstWriterCreate m d k) = []" "tchn_cnt (fstWriterCreate m d k) = 0" "tchn_idx (fstWriterCreate m d k) = 0"
  "blackouts (fstWriterCreate m d k) = []" "compress_hier (fstWriterCreate m d 1)"
proof -
  have g: "geom_handle (fstWriterCreate m d k) = []"
    by (simp add: fstWriterCreate_def fstWriterEmitHdrBytes_def fstDetermineBreakSize_def zero_context_def put64_def put_def Let_def)
  show "sig_lens (fstWriterCreate m d k) = []" "layout_ok (fstWriterCreate m d k)" "geom_ok [] (fstWriterCreate m d k)"
    using g by (simp_all add: sig_lens_def layout_ok_def total_len_def geom_ok_def)
qed (simp_all add: fstWriterCreate_def fstWriterEmitHdrBytes_def fstDetermineBreakSize_def zero_context_def put64_def put_def Let_def)

lemma described_ok:
  assumes "sum_list (map call_len ds) < 2 ^ 32 - 1" "length ds < 2 ^ 31" "pt = 0 \<or> pt = 2"
    and "length (hier_handle (described pt rp m d ds)) < 2 ^ 31" "j < unat (xc_maxhandle (described pt rp m d ds))"
  shows "vc_fresh (described pt rp m d ds) \<and> file_started (described pt rp m d ds) \<and>
    (\<exists>reals. design_ok reals (described pt rp m d ds)) \<and>
    fastpack (described pt rp m d ds) = fourpack (described pt rp m d ds) \<and> blackouts (described pt rp m d ds) = []"
proof -
  let ?c = "fstWriterCreate m d 1" and ?x = "described pt rp m d ds"
  let ?y = "snd (run_calls ds ?c)"
  have "designed [] ?c"
    by (simp add: designed_def create_started create_fields)
  then obtain reals where r: "designed reals ?y" "same_start ?c ?y" "total (sig_lens ?y) < 2 ^ 32 - 1" "length (sig_lens ?y) < 2 ^ 31"
    using run_calls_designed [of "[]" ?c ds] assms(1,2) by (fastforce simp: create_fields)
  note s = r(2) [unfolded same_start_def create_fields]
  have same: "valpos_mem ?x = valpos_mem ?y" "curval_mem ?x = curval_mem ?y" "maxvalpos ?x = maxvalpos ?y" "xc_maxhandle ?x = xc_maxhandle ?y"
    "geom_handle ?x = geom_handle ?y" "hier_handle ?x = hier_handle ?y" "hier_file_len ?x = hier_file_len ?y" "xc_handle ?x = xc_handle ?y"
    "already_in_flush ?x = already_in_flush ?y" "vc_emitted ?x = vc_emitted ?y" "blackouts ?x = blackouts ?y" "compress_hier ?x = compress_hier ?y"
    "is_initial_time ?x = is_initial_time ?y" "size_limit_locked ?x = size_limit_locked ?y" "flush_context_pending ?x = flush_context_pending ?y"
    "tchn_handle ?x = tchn_handle ?y" "tchn_cnt ?x = tchn_cnt ?y" "tchn_idx ?x = tchn_idx ?y" "fastpack ?x = fourpack ?x"
    using assms(3) by (auto simp: described_def fstWriterSetRepackOnClose_def fstWriterSetPackType_def)
  note d = r(1) [unfolded designed_def]
  have lay: "unat (xc_maxhandle ?y) = length (sig_lens ?y)" "length (valpos_mem ?y) = unat (xc_maxhandle ?y)"
    using layout_total [of ?y] d unfolding layout_ok_def by blast+
  have "unat (0xFFFFFFFF :: u32) \<le> total (sig_lens ?y)" if "(0xFFFFFFFF :: u32) \<in> set (sig_lens ?y)"
    by (rule member_le_sum_list) (simp_all only: set_map image_eqI [OF refl that] le0)
  then have no: "0xFFFFFFFF \<notin> set (sig_lens ?y)"
    using r(3) by auto
  have "xc_maxhandle ?y \<noteq> 0"
    using assms(5) unfolding same by auto
  then have "vc_fresh ?x"
    using s lay(2) unfolding vc_fresh_def same by (simp add: create_fields)
  moreover have "file_started ?x"
    using d unfolding file_started_def file_headed_def appended_def same by simp
  moreover have "layout_ok ?x"
    using d unfolding layout_ok_def same by blast
  moreover have "geom_ok reals ?x"
    using d unfolding geom_ok_def sig_lens_def same by blast
  moreover have "0xFFFFFFFF \<notin> set (sig_lens ?x)"
    using no unfolding sig_lens_def same .
  moreover have "hier_file_len ?x = length (hier_handle ?x)"
    using d unfolding same by blast
  moreover have "unat (xc_maxhandle ?x) < 2 ^ 31"
    using lay(1) r(4) unfolding same by simp
  moreover have b: "blackouts ?x = []" "compress_hier ?x"
    using s unfolding same by (simp_all add: create_fields)
  ultimately show ?thesis
    using assms(4) same(19) unfolding design_ok_def by (metis list.size(3) zero_less_numeral zero_less_power)
qed

text \<open>
  C2: The life of a file. A file is created, a design is described with scopes, attributes and
  variables, a first time and any further calls emit values and change the time, as far as
  they fit the memory before a flush is due, and \<open>fstWriterClose\<close> leaves a file (packed by
  zlib or LZ4, and wrapped if that was asked for) that \<open>fstReaderOpen\<close> accepts. Its reader
  has the number of signals and their lengths, and the first and the last time; iterating
  over the hierarchy gives the scopes, attributes and variables of the description, each
  variable with the handle the writer returned; and for every choice of signals the iteration
  over the sections delivers one group of calls of the callbacks for every time, in the order
  of the times, with exactly the changes that were emitted. This is assumed of zlib and LZ4:
  decompression inverts compression; of the chains: no chain that is stored as it is equals a
  compressed one; and of the times: not all of them are 0 (the header of such a file counts
  as incomplete).
\<close>

theorem file_life:
  assumes "xc = described pt rp m d ds" "pt = 0 \<or> pt = 2" "list_all good_call ds" "sum_list (map call_len ds) < 2 ^ 32 - 1"
      "length ds < 2 ^ 31" "length (hier_handle xc) < 2 ^ 31"
    and "list_all (good_vc (sig_lens xc)) cs" "1 + sum_list (map vc_size cs) < unat (fst_break_size xc)"
      "fst_break_size xc \<le> 2 ^ 28" "log_calls cs ([tim], \<lambda>_. []) = (tims, lg)" "tim \<noteq> 0 \<or> last tims \<noteq> 0"
    and "j < unat (xc_maxhandle xc)" "lg j \<noteq> []"
    and "inverse_packers pk up" "inverse_gz gz gunzip" "packed_small pk gz xc" "no_collision pk xc (log_chains (sig_lens xc) lg)"
  shows "\<exists>x1 f rx. run_vcs pk (Time_change tim # cs) xc = Some x1 \<and> fstWriterClose pk gz x1 = Some (Inr f) \<and>
    fstReaderOpen up gunzip (Some f) None = Some (Some rx) \<and>
    fx_maxhandle rx = xc_maxhandle xc \<and> signal_lens rx = sig_lens xc \<and> start_time rx = tim \<and> end_time rx = last tims \<and>
    (\<exists>h. fstReaderRecreateHierFile up gunzip rx = Some (True, rx\<lparr>fx_fh := Some h\<rparr>) \<and>
       map_option fst (iterate (length ds + 1) (snd (fstReaderIterateHierRewind (hier_of h rx)))) =
         Some (fst (run_calls ds (fstWriterCreate m d 1)))) \<and>
    (\<forall>msk. length msk = (unat (xc_maxhandle xc) + 7) div 8 \<longrightarrow>
       (\<exists>groups. fstReaderIterBlocks2 up (blocks_of (rx\<lparr>fx_process_mask := msk\<rparr>)) = Some (concat groups) \<and>
          changes_sorted (expected up (blocks_of (rx\<lparr>fx_process_mask := msk\<rparr>)) lg) tims 0 groups))"
proof -
  have ok: "vc_fresh xc" "file_started xc" "fastpack xc = fourpack xc"
    using described_ok [OF assms(4,5,2) assms(6,12) [unfolded assms(1)]] unfolding assms(1) by blast+
  obtain reals where reals: "design_ok reals xc"
    using described_ok [OF assms(4,5,2) assms(6,12) [unfolded assms(1)]] unfolding assms(1) by blast
  have "hier_handle xc = hier_handle (snd (run_calls ds (fstWriterCreate m d 1)))"
    by (simp add: assms(1) described_def fstWriterSetRepackOnClose_def fstWriterSetPackType_def)
  then have "map_option fst (iterate (length ds + 1) (snd (fstReaderIterateHierRewind (hier_of (hier_handle xc) rx)))) =
      Some (fst (run_calls ds (fstWriterCreate m d 1)))" for rx
    using hier_read_back [of "fstWriterCreate m d 1" ds "hier_of (hier_handle xc) rx"] assms(3) by (simp add: hier_of_def)
  then show ?thesis
    using closed_file_read [OF ok(1,2) reals assms(7-11) assms(12-16) ok(3) assms(17)] by blast
qed

text \<open>The file with a signal of one bit and a text, three changes and two times.\<close>

definition demo_calls :: "hier_call list" where
  "demo_calls = [Call_CreateVar 16 0 1 (lit ''b'') 0, Call_CreateVar 21 0 0 (lit ''s'') 0]"

definition demo_design :: fstWriterContext where
  "demo_design = described 0 0 None [] demo_calls"

lemma demo_design_writer: "demo_design = demo_writer\<lparr>fastpack := False, fourpack := False, repack_on_close := False\<rparr>"
  by (simp add: demo_design_def described_def demo_calls_def run_call_def demo_writer_def fstWriterSetRepackOnClose_def
      fstWriterSetPackType_def case_prod_beta Let_def)

lemma demo_hier_length: "length (hier_handle demo_writer) = 12"
  by code_simp

lemma demo_calls_good: "list_all good_call demo_calls" "map call_len demo_calls = [1, 0]"
  by code_simp+

lemma demo_design_fields:
  "sig_lens demo_design = [1, 0]" "xc_maxhandle demo_design = 2" "fst_break_size demo_design = 134217728"
  "length (hier_handle demo_design) = 12" "\<not> fourpack demo_design" "fastpack demo_design = fourpack demo_design"
  using demo_writer_fields(2,3) demo_writer_file(7) demo_hier_length by (simp_all add: demo_design_writer sig_lens_def)

theorem file_life_witness:
  "\<exists>x1 f rx. run_vcs demo_packers [Time_change 3, Emit 1 [0x31], Emit_varlen 2 [0x61, 0x62], Time_change 5, Emit 1 [0x30]] demo_design
      = Some x1 \<and> fstWriterClose demo_packers concat x1 = Some (Inr f) \<and>
    fstReaderOpen demo_unpackers id (Some f) None = Some (Some rx) \<and> fx_maxhandle rx = 2 \<and> signal_lens rx = [1, 0] \<and>
    start_time rx = 3 \<and> end_time rx = 5"
proof -
  let ?cs = "[Emit 1 [0x31], Emit_varlen 2 [0x61, 0x62], Time_change 5, Emit 1 [0x30]]"
  let ?lg = "(\<lambda>_. [])(0 := [(1, [0x30]), (0, [0x31])], 1 := [(0, [0x61, 0x62])]) :: nat \<Rightarrow> vc_log"
  have calls: "list_all (good_vc (sig_lens demo_design)) ?cs" "1 + sum_list (map vc_size ?cs) < unat (fst_break_size demo_design)"
    "fst_break_size demo_design \<le> 2 ^ 28" "log_calls ?cs ([3], \<lambda>_. []) = ([3, 5], ?lg)" "(3 :: u64) \<noteq> 0 \<or> last [3, 5 :: u64] \<noteq> 0"
    by (simp_all add: demo_design_fields log_calls_def log_change_def fun_eq_iff)
  have no: "no_collision demo_packers demo_design W" for W
    by (auto simp: no_collision_def packed_def pack_chain_def demo_packers_def demo_design_fields split: if_splits)
  have inv: "inverse_packers demo_packers demo_unpackers" "inverse_gz concat id"
    by (simp_all add: inverse_packers_def demo_packers_def demo_unpackers_def inverse_gz_def)
  have size: "length (hier_handle demo_design) < 2 ^ 63" "length (hier_handle demo_design) < 2 ^ 39"
    "length (hier_handle demo_design) < 2 ^ 31" "sum_list (map call_len demo_calls) < 2 ^ 32 - 1" "length demo_calls < 2 ^ 31"
    by (simp_all add: demo_design_fields demo_calls_good) (simp add: demo_calls_def)
  then have small: "packed_small demo_packers concat demo_design"
    by (simp add: packed_small_def demo_packers_def pack_hier_def demo_design_fields concat_gz_pieces)
  have lg: "0 < unat (xc_maxhandle demo_design)" "?lg 0 \<noteq> []"
    by (simp_all add: demo_design_fields)
  show ?thesis
    using file_life [OF demo_design_def _ demo_calls_good(1) size(4,5,3) calls lg inv small no] demo_design_fields(1,2) by auto
qed

end
