(* ===== verification/Replayed_Wave.thy ===== *)
theory Replayed_Wave
  imports Gdbwave Waves Fst_Design
begin

text \<open>
  From the simulation to the debugger: a simulator describes a design and emits value changes
  with the writer of the FST library; the file it closes is given to the program. The traces
  the program extracts are those of the values at the falling clock edges, in the order of time.
\<close>

section \<open>Building the traces\<close>

definition parses :: "(u64 \<times> FstSignal \<times> string) list \<Rightarrow> bool" where
  "parses es \<longleftrightarrow> list_all (\<lambda>(t, sig, v). has_unknown v \<or> (\<exists>n. value_int v = Inr n)) es"

lemma CpuTrace_built:
  assumes "assignHandles hier xc [g0, g1, g2] = Inr (Some True, [c, v, p], xc1)"
    and "mask_wf fm" "list_all (\<lambda>sig. is_handle fm (handle sig)) [c, v, p]" "parses (selected_changes [c, v, p] changes)"
    and "distinct [handle c, handle v, handle p]"
  shows "\<exists>s. CpuTrace_new hier xc fm changes g0 g1 g2 = Inr (s, xc1)"
proof -
  let ?s = "\<lparr>cpu_clk = c, pcValid = v, pc = p, curPcValidVal = 0, curPcVal = 0, pcTrace = [], pcTraceIt = 0\<rparr>"
  have "cpu_rel (handle c) (handle v) (handle p) ?s (\<lambda>_. 0)"
    using assms(5) by (simp add: cpu_rel_def)
  then obtain s where "run_changes pcChangedCB (selected_changes [c, v, p] changes) ?s = Inr s"
    using cpu.run_ends assms(4) unfolding parses_def by blast
  then have "getValueChanges fm changes [c, v, p] pcChangedCB ?s = Inr s"
    by (simp only: getValueChanges_run [OF assms(2,3)])
  then show ?thesis
    by (simp add: CpuTrace_new_def CpuTrace_init_def assms(1))
qed

lemma RegFileTrace_built:
  assumes "assignHandles hier xc [g0, g1, g2, g3] = Inr (Some True, [c, w, a, d], xc1)"
    and "mask_wf fm" "list_all (\<lambda>sig. is_handle fm (handle sig)) [c, w, a, d]" "parses (selected_changes [c, w, a, d] changes)"
    and "distinct [handle c, handle w, handle a, handle d]"
  shows "\<exists>s. RegFileTrace_new hier xc fm changes g0 g1 g2 g3 = Inr (s, xc1)"
proof -
  let ?s = "\<lparr>reg_clk = c, regMemWr = w, regMemAddr = a, regMemWrData = d, curMemWr = False, curMemAddr = 0, curMemWrData = 0,
    regFileTrace = []\<rparr>"
  have "reg_rel (handle c) (handle w) (handle a) (handle d) ?s (\<lambda>_. 0)"
    using assms(5) by (simp add: reg_rel_def)
  then obtain s where "run_changes regFileChangedCB (selected_changes [c, w, a, d] changes) ?s = Inr s"
    using reg.run_ends assms(4) unfolding parses_def by blast
  then have "getValueChanges fm changes [c, w, a, d] regFileChangedCB ?s = Inr s"
    by (simp only: getValueChanges_run [OF assms(2,3)])
  then show ?thesis
    by (simp add: RegFileTrace_new_def RegFileTrace_init_def assms(1))
qed

lemma MemTrace_built:
  assumes "assignHandles hier xc [g0, g1, g2, g3, g4, g5, g6, g7, g8] = Inr (Some True, sigs, xc1)"
    and "mask_wf fm" "list_all (\<lambda>sig. is_handle fm (handle sig)) sigs" "parses (selected_changes sigs changes)"
    and "initFile \<noteq> Some None"
  shows "\<exists>s. MemTrace_new initFile startAddr uninit hier xc fm changes g0 g1 g2 g3 g4 g5 g6 g7 g8 = Inr (s, xc1)"
proof -
  have "\<exists>s. getValueChanges fm changes sigs processSignalChanged s0 = Inr s" for s0
    using processSignalChanged_ends assms(4) unfolding parses_def getValueChanges_run [OF assms(2,3)] by blast
  then obtain g where g: "\<And>s0. getValueChanges fm changes sigs processSignalChanged s0 = Inr (g s0)"
    by metis
  show ?thesis
    using assms(5)
    by (auto simp: MemTrace_new_def MemTrace_init_def MemTrace_load_def mem_signals_def assms(1) g split: option.split)
qed

section \<open>From the log of the writer to a wave\<close>

text \<open>The text the callback gets for a value, and the wave of the signals.\<close>

definition shown :: "u32 \<Rightarrow> byte list \<Rightarrow> string" where
  "shown len v = c_chars (if len = 1 then [rcv_text (hd v)] else v)"

definition wave_of :: "u32 list \<Rightarrow> (nat \<Rightarrow> vc_log) \<Rightarrow> wave" where
  "wave_of lens lg h = map (\<lambda>(t, v). (unat t, shown (lens ! (unat h - 1)) v)) (rev (lg (unat h - 1)))"

definition change_of :: "vc_event \<Rightarrow> change" where
  "change_of e = (case e of Value_change t h v \<Rightarrow> (t, word_of_nat h, c_chars v) | Varlen_change t h v \<Rightarrow> (t, word_of_nat h, []))"

text \<open>A signal with values of a fixed length that is not real.\<close>

definition plain_signal :: "block_reader \<Rightarrow> nat \<Rightarrow> bool" where
  "plain_signal rd x \<longleftrightarrow> rd_signal_lens rd ! x \<noteq> 0 \<and> rd_signal_typs rd ! x \<noteq> FST_VT_VCD_REAL"

lemma plain_delivered:
  "plain_signal rd x \<Longrightarrow> delivered up rd x v tim =
     [Value_change tim (x + 1) (if rd_signal_lens rd ! x = 1 then [rcv_text (hd v)] else v)]"
  by (simp add: delivered_def plain_signal_def)

lemma event_changes_plain:
  "\<forall>e \<in> set es. \<exists>t h v. e = Value_change t h v \<Longrightarrow> event_changes es = Inr (map change_of es)"
proof (induction es)
  case (Cons e es)
  then show ?case
    by (auto simp: change_of_def)
qed simp

definition marks :: "block_reader \<Rightarrow> FstSignal list \<Rightarrow> bool" where
  "marks rd sigs \<longleftrightarrow> (\<forall>sig \<in> set sigs. handle sig \<noteq> 0 \<and> plain_signal rd (unat (handle sig) - 1)) \<and>
     (\<forall>x < length (rd_signal_lens rd). masked rd x = Some True \<longrightarrow> (\<exists>sig \<in> set sigs. unat (handle sig) = x + 1)) \<and>
     (\<forall>sig \<in> set sigs. masked rd (unat (handle sig) - 1) = Some True)"

lemma events_of_signal:
  assumes "plain_signal rd x"
  shows "map (snd \<circ> snd \<circ> change_of) (concat (map (\<lambda>c. snd c tim) (filter (\<lambda>c. fst c = k) (to_deliver up rd x es)))) =
    map snd (filter (\<lambda>c. fst c = k) (map (\<lambda>(t, v). (unat t, shown (rd_signal_lens rd ! x) v)) es))"
  by (induction es) (auto simp: to_deliver_def plain_delivered [OF assms] change_of_def shown_def)

lemma group_of_events:
  assumes ev: "events_at (expected up rd lg) k tim g" and m: "marks rd sigs" and lg: "\<forall>x \<ge> length (rd_signal_lens rd). lg x = []"
  shows "\<forall>e \<in> set g. \<exists>t h v. e = Value_change t h v"
    and "\<forall>(t, h, v) \<in> set (map change_of g). t = tim \<and> h \<in> handle ` set sigs"
    and "h \<in> handle ` set sigs \<Longrightarrow> map (snd \<circ> snd) (filter (\<lambda>(t, h', v). h' = h) (map change_of g)) =
      map snd (filter (\<lambda>c. fst c = k) (wave_of (rd_signal_lens rd) lg h))"
proof -
  have e: "\<exists>h v. h \<in> handle ` set sigs \<and> e = Value_change tim (unat h) v" if "e \<in> set g" for e
  proof -
    define x where "x = event_handle e - 1"
    have "event_handle e = x + 1" "event_time e = tim"
      using ev that by (auto simp: events_at_def x_def)
    then have "e \<in> set (filter (\<lambda>e. event_handle e = x + 1) g)"
      using that by simp
    then have "e \<in> set (concat (map (\<lambda>c. snd c tim) (filter (\<lambda>c. fst c = k) (expected up rd lg x))))"
      using ev by (simp only: events_at_def)
    then obtain c where c: "c \<in> set (expected up rd lg x)" "e \<in> set (snd c tim)"
      by auto
    then have mx: "masked rd x = Some True" "lg x \<noteq> []"
      by (auto simp: expected_def to_deliver_def split: if_splits)
    then have "x < length (rd_signal_lens rd)"
      using lg by (metis not_le)
    with mx(1) obtain sig where sig: "sig \<in> set sigs" "unat (handle sig) = x + 1"
      using m by (auto simp: marks_def)
    then have "plain_signal rd x"
      using m by (auto simp: marks_def)
    then obtain v where "e = Value_change tim (x + 1) v"
      using c mx(1) by (auto simp: expected_def to_deliver_def plain_delivered)
    with sig show ?thesis
      by (intro exI [of _ "handle sig"] exI [of _ v]) simp
  qed
  show "\<forall>e \<in> set g. \<exists>t h v. e = Value_change t h v"
    using e by blast
  show "\<forall>(t, h, v) \<in> set (map change_of g). t = tim \<and> h \<in> handle ` set sigs"
    using e by (fastforce simp: change_of_def)
  show "map (snd \<circ> snd) (filter (\<lambda>(t, h', v). h' = h) (map change_of g)) =
      map snd (filter (\<lambda>c. fst c = k) (wave_of (rd_signal_lens rd) lg h))" if h: "h \<in> handle ` set sigs"
  proof -
    let ?x = "unat h - 1"
    have h0: "h \<noteq> 0" "plain_signal rd ?x" "masked rd ?x = Some True"
      using m h by (auto simp: marks_def)
    then have x: "unat h = ?x + 1"
      by (simp add: unat_gt_0)
    have "filter (\<lambda>(t, h', v). h' = h) (map change_of g) = map change_of (filter (\<lambda>e. event_handle e = ?x + 1) g)"
    proof -
      have "(case change_of e of (t, h', v) \<Rightarrow> h' = h) \<longleftrightarrow> event_handle e = ?x + 1" if "e \<in> set g" for e
        using e [OF that] x by (auto simp: change_of_def)
      then show ?thesis
        by (simp add: filter_map comp_def cong: filter_cong)
    qed
    also have "filter (\<lambda>e. event_handle e = ?x + 1) g =
        concat (map (\<lambda>c. snd c tim) (filter (\<lambda>c. fst c = k) (to_deliver up rd ?x (rev (lg ?x)))))"
      using ev h0(3) by (simp add: events_at_def expected_def)
    finally show ?thesis
      using events_of_signal [OF h0(2), of tim k up "rev (lg ?x)"] by (simp add: wave_of_def comp_def)
  qed
qed

lemma delivered_wave:
  assumes ev: "changes_sorted (expected up rd lg) tims 0 groups" and m: "marks rd sigs" "\<forall>x \<ge> length (rd_signal_lens rd). lg x = []"
  shows "event_changes (concat groups) = Inr (concat (map (map change_of) groups))"
    and "grouped (wave_of (rd_signal_lens rd) lg) (handle ` set sigs) tims (map (map change_of) groups)"
proof -
  have g: "length groups = length tims" "\<And>k. k < length tims \<Longrightarrow> events_at (expected up rd lg) k (tims ! k) (groups ! k)"
    using ev by (auto simp: changes_sorted_def)
  have "\<exists>t h v. e = Value_change t h v" if e: "e \<in> set (concat groups)" for e
  proof -
    obtain es where "es \<in> set groups" "e \<in> set es"
      using e by auto
    then obtain k where "k < length tims" "e \<in> set (groups ! k)"
      using g(1) by (metis in_set_conv_nth)
    then show ?thesis
      using group_of_events(1) [OF g(2) m] by blast
  qed
  then show "event_changes (concat groups) = Inr (concat (map (map change_of) groups))"
    by (subst event_changes_plain) (auto simp: map_concat)
  show "grouped (wave_of (rd_signal_lens rd) lg) (handle ` set sigs) tims (map (map change_of) groups)"
    unfolding grouped_def
  proof (intro conjI allI impI)
    show "length (map (map change_of) groups) = length tims"
      using g(1) by simp
    fix k
    assume k: "k < length tims"
    then have nth: "map (map change_of) groups ! k = map change_of (groups ! k)"
      using g(1) by simp
    show "\<forall>(t, h, v) \<in> set (map (map change_of) groups ! k). t = tims ! k \<and> h \<in> handle ` set sigs"
      unfolding nth by (rule group_of_events(2) [OF g(2) [OF k] m])
    show "\<forall>h \<in> handle ` set sigs. map (snd \<circ> snd) (filter (\<lambda>(t, h', v). h' = h) (map (map change_of) groups ! k)) =
        map snd (filter (\<lambda>c. fst c = k) (wave_of (rd_signal_lens rd) lg h))"
      unfolding nth using group_of_events(3) [OF g(2) [OF k] m] by blast
  qed
qed

section \<open>The changes of a file\<close>

text \<open>What is known of a file that was written and opened.\<close>

definition wave_file :: "unpackers \<Rightarrow> fstReaderContext \<Rightarrow> (nat \<Rightarrow> vc_log) \<Rightarrow> u64 list \<Rightarrow> bool" where
  "wave_file up rx lg tims \<longleftrightarrow> unat (fx_maxhandle rx) = length (signal_lens rx) \<and> length (signal_lens rx) < 2 ^ 31 \<and>
     fx_process_mask rx = no_mask (fx_maxhandle rx) \<and>
     (\<forall>x < length (signal_lens rx). signal_lens rx ! x \<noteq> 8 \<longrightarrow> signal_typs rx ! x \<noteq> FST_VT_VCD_REAL) \<and>
     (\<forall>x \<ge> length (signal_lens rx). lg x = []) \<and> (\<forall>x. sorted (map (unat \<circ> fst) (rev (lg x)))) \<and>
     (\<forall>m. length m = (unat (fx_maxhandle rx) + 7) div 8 \<longrightarrow>
       (\<exists>groups. fstReaderIterBlocks2 up (blocks_of (rx\<lparr>fx_process_mask := m\<rparr>)) = Some (concat groups) \<and>
          changes_sorted (expected up (blocks_of (rx\<lparr>fx_process_mask := m\<rparr>)) lg) tims 0 groups))"

text \<open>
  Signals a trace can be made of: their values have a fixed length, not that of reals, and
  are numbers or unknown, and none changes together with a falling edge of the first one.
\<close>

definition traceable :: "u32 list \<Rightarrow> (nat \<Rightarrow> vc_log) \<Rightarrow> FstSignal list \<Rightarrow> bool" where
  "traceable lens lg sigs \<longleftrightarrow> sigs \<noteq> [] \<and> distinct (map handle sigs) \<and>
     (\<forall>sig \<in> set sigs. handle sig \<noteq> 0 \<and> unat (handle sig) \<le> length lens \<and> lens ! (unat (handle sig) - 1) \<noteq> 0 \<and>
        lens ! (unat (handle sig) - 1) \<noteq> 8) \<and>
     (\<forall>h \<in> handle ` set sigs. \<forall>c \<in> set (wave_of lens lg h). readable (snd c)) \<and>
     stable_at_edges (wave_of lens lg) (handle (hd sigs)) (handle ` set sigs)"

lemma file_mask_wf:
  assumes "wave_file up rx lg tims"
  shows "mask_wf (file_mask rx)" "maxhandle (file_mask rx) = fx_maxhandle rx"
proof -
  have "unat (fx_maxhandle rx + 7) = unat (fx_maxhandle rx) + 7"
    using assms by (subst unat_add_lem [THEN iffD1]) (simp_all add: wave_file_def)
  then show "mask_wf (file_mask rx)"
    using assms by (simp add: mask_wf_def file_mask_def blocks_of_def wave_file_def no_mask_def unat_div)
qed (simp add: file_mask_def blocks_of_def)

lemma select_signals_wf:
  assumes "mask_wf fm"
  shows "mask_wf (select_signals sigs fm)" "is_handle (select_signals sigs fm) = is_handle fm"
proof -
  have "mask_wf (foldl (\<lambda>m sig. fstReaderSetFacProcessMask m (handle sig)) m sigs) \<and>
      is_handle (foldl (\<lambda>m sig. fstReaderSetFacProcessMask m (handle sig)) m sigs) = is_handle m" if "mask_wf m" for m
    using that by (induction sigs arbitrary: m) auto
  from this [of "fstReaderClrFacProcessMaskAll fm"] assms
  show "mask_wf (select_signals sigs fm)" "is_handle (select_signals sigs fm) = is_handle fm"
    by (simp_all add: select_signals_def)
qed

lemma masked_bit:
  assumes "mask_wf m" "is_handle m h" "process_mask (rd_mask rd) = process_mask m"
  shows "masked rd (unat (h - 1)) = Some (fstReaderGetFacProcessMask m h)"
  using handle_index(3) [OF assms(1,2)] get_mask_bit [OF assms(1,2)]
  by (simp add: masked_def assms(3) mask_bit_def byte_test_bit del: push_bit_of_1)

lemma traceable_handles:
  assumes "wave_file up rx lg tims" "traceable (signal_lens rx) lg sigs"
  shows "list_all (\<lambda>sig. is_handle (file_mask rx) (handle sig)) sigs"
  using assms file_mask_wf(2) [OF assms(1)]
  by (auto simp: list_all_iff traceable_def wave_file_def is_handle_def word_le_nat_alt)

lemma selected_marks:
  assumes wf: "wave_file up rx lg tims" and sigs: "traceable (signal_lens rx) lg sigs"
  shows "marks (blocks_of (rx\<lparr>fx_process_mask := process_mask (select_signals sigs (file_mask rx))\<rparr>)) sigs"
    (is "marks ?rd sigs")
proof -
  let ?m = "select_signals sigs (file_mask rx)"
  note fmw = file_mask_wf [OF wf] note hs = traceable_handles [OF wf sigs]
  have rd: "process_mask (rd_mask ?rd) = process_mask ?m" "rd_signal_lens ?rd = signal_lens rx" "rd_signal_typs ?rd = signal_typs rx"
    by (simp_all add: blocks_of_def)
  have pred: "unat (h - 1) = unat h - 1" if "h \<noteq> 0" for h :: u32
    using that by (simp add: unat_minus_one)
  have get: "masked ?rd (unat h - 1) = Some (\<exists>sig \<in> set sigs. handle sig = h)" if "is_handle (file_mask rx) h" for h
  proof -
    have "h \<noteq> 0"
      using that by (simp add: is_handle_def)
    then show ?thesis
      using masked_bit [OF select_signals_wf(1) [OF fmw(1)] _ rd(1), of h] that select_signals_wf(2) [OF fmw(1)]
        select_signals_mask [OF fmw(1) hs] by (simp add: pred)
  qed
  show ?thesis
    unfolding marks_def rd(2)
  proof (intro conjI ballI allI impI)
    fix sig
    assume s: "sig \<in> set sigs"
    then show "handle sig \<noteq> 0"
      using sigs by (auto simp: traceable_def)
    show "plain_signal ?rd (unat (handle sig) - 1)"
      using s sigs wf unat_gt_0 [of "handle sig"] by (fastforce simp: plain_signal_def rd traceable_def wave_file_def)
    show "masked ?rd (unat (handle sig) - 1) = Some True"
      using s get [of "handle sig"] hs by (auto simp: list_all_iff)
  next
    fix x
    assume x: "x < length (signal_lens rx)" "masked ?rd x = Some True"
    define h where "h = (word_of_nat (x + 1) :: u32)"
    have h: "unat h = x + 1"
      unfolding h_def using x(1) wf by (simp only: unsigned_of_nat wave_file_def) (simp add: take_bit_nat_eq_self)
    then have "is_handle (file_mask rx) h"
      using x(1) wf fmw(2) unat_gt_0 [of h] by (auto simp: is_handle_def word_le_nat_alt wave_file_def)
    from get [OF this] x(2) h show "\<exists>sig \<in> set sigs. unat (handle sig) = x + 1"
      by auto
  qed
qed

lemma wave_of_sorted:
  assumes "wave_file up rx lg tims"
  shows "sorted (map fst (wave_of lens lg h))"
proof -
  have "map fst (wave_of lens lg h) = map (unat \<circ> fst) (rev (lg (unat h - 1)))"
    by (auto simp: wave_of_def)
  then show ?thesis
    using assms by (simp add: wave_file_def)
qed

text \<open>What the constructor of a trace gets.\<close>

lemma trace_changes_wave:
  assumes wf: "wave_file up rx lg tims" and sigs: "traceable (signal_lens rx) lg sigs"
    and found: "assignHandles hier xc signals = Inr (Some True, sigs, xc1)"
  shows "\<exists>groups. trace_changes up rx hier xc signals = Some (Inr (concat groups)) \<and>
    grouped (wave_of (signal_lens rx) lg) (handle ` set sigs) tims groups"
proof -
  let ?m = "select_signals sigs (file_mask rx)"
  let ?rd = "blocks_of (rx\<lparr>fx_process_mask := process_mask ?m\<rparr>)"
  have "length (process_mask ?m) = (unat (fx_maxhandle rx) + 7) div 8"
  proof -
    have "maxhandle (foldl (\<lambda>m sig. fstReaderSetFacProcessMask m (handle sig)) m sigs) = maxhandle m" for m
      by (induction sigs arbitrary: m) (simp_all add: fstReaderSetFacProcessMask_def Let_def)
    then have "maxhandle ?m = fx_maxhandle rx"
      using file_mask_wf(2) [OF wf] by (simp add: select_signals_def fstReaderClrFacProcessMaskAll_def)
    then show ?thesis
      using select_signals_wf(1) [OF file_mask_wf(1) [OF wf], of sigs] by (simp add: mask_wf_def)
  qed
  then obtain groups where g: "fstReaderIterBlocks2 up ?rd = Some (concat groups)" "changes_sorted (expected up ?rd lg) tims 0 groups"
    using wf unfolding wave_file_def by blast
  have lens: "rd_signal_lens ?rd = signal_lens rx"
    by (simp add: blocks_of_def)
  have out: "\<forall>x \<ge> length (rd_signal_lens ?rd). lg x = []"
    using wf unfolding lens by (simp add: wave_file_def)
  show ?thesis
    using delivered_wave [OF g(2) selected_marks [OF wf sigs] out] unfolding lens
    by (intro exI [of _ "map (map change_of) groups"]) (simp add: trace_changes_def found signal_changes_def g(1))
qed

lemma grouped_readable:
  assumes "grouped W hs tims groups" "\<forall>h \<in> hs. \<forall>c \<in> set (W h). readable (snd c)" "(t, h, v) \<in> set (concat groups)"
  shows "readable v"
proof -
  obtain g where "g \<in> set groups" "(t, h, v) \<in> set g"
    using assms(3) by auto
  then obtain k where k: "k < length tims" "(t, h, v) \<in> set (groups ! k)"
    using assms(1) by (auto simp: in_set_conv_nth grouped_def)
  then have h: "h \<in> hs"
    using assms(1) by (fastforce simp: grouped_def)
  then have "map (snd \<circ> snd) (filter (\<lambda>(t, h', v). h' = h) (groups ! k)) = map snd (filter (\<lambda>c. fst c = k) (W h))"
    using assms(1) k(1) by (auto simp: grouped_def)
  moreover have "v \<in> set (map (snd \<circ> snd) (filter (\<lambda>(t, h', v). h' = h) (groups ! k)))"
    using k(2) by force
  ultimately have "v \<in> snd ` set (W h)"
    by auto
  with h assms(2) show ?thesis
    by auto
qed

lemma grouped_parses:
  assumes "grouped W hs tims groups" "\<forall>h \<in> hs. \<forall>c \<in> set (W h). readable (snd c)"
  shows "parses (selected_changes sigs (concat groups))"
proof -
  have "\<exists>h. (t, h, v) \<in> set es" if "(t, sig, v) \<in> set (selected_changes sigs es)" for t sig v es
    using that by (auto simp: selected_changes_def List.map_filter_def)
  then show ?thesis
    using grouped_readable [OF assms] unfolding parses_def list_all_iff readable_def by blast
qed

end
