(* ===== verification/Replay.thy ===== *)
theory Replay
  imports Replayed_Wave
begin

text \<open>
  The whole way from a simulation to the debugger: the theorem on the traces of the program that
  is started on a file the FST library wrote, and an example.
\<close>

section \<open>The traces of a file\<close>

definition traces_of :: "wave \<Rightarrow> u64 list \<Rightarrow> FstSignal list \<Rightarrow> FstSignal list \<Rightarrow> FstSignal list \<Rightarrow> dbg_sys \<Rightarrow> bool" where
  "traces_of W tims cs rs bs y \<longleftrightarrow>
     pcTrace (cpuTrace y) = edge_records W (handle (cs ! 0)) (pc_samples (handle (cs ! 1)) (handle (cs ! 2))) tims \<and>
     regFileTrace (sys_regs y) =
       edge_records W (handle (rs ! 0)) (reg_samples (handle (rs ! 1)) (handle (rs ! 2)) (handle (rs ! 3))) tims \<and>
     memTrace (sys_mem y) = concat (map (\<lambda>(t, sz, addr, v). write_accesses t True sz addr v)
       (edge_records W (handle (bs ! 0)) (bus_writes (map handle (tl bs))) tims))"

text \<open>The records depend on the signals they name.\<close>

lemma reads_samples:
  "h \<in> hs \<Longrightarrow> h' \<in> hs \<Longrightarrow> reads_only (pc_samples h h') hs"
  "h \<in> hs \<Longrightarrow> h' \<in> hs \<Longrightarrow> h'' \<in> hs \<Longrightarrow> reads_only (reg_samples h h' h'') hs"
  "length l = 8 \<Longrightarrow> set l \<subseteq> hs \<Longrightarrow> reads_only (bus_writes l) hs"
  by (auto simp: reads_only_def pc_samples_def reg_samples_def bus_writes_def subset_iff all_set_conv_all_nth)

text \<open>A trace of a file, for each of the three groups of signals.\<close>

lemma wave_samples:
  assumes wf: "wave_file up rx lg tims" and sigs: "traceable (signal_lens rx) lg sigs"
    and found: "assignHandles hier xc signals = Inr (Some True, sigs, xc1)"
    and reads: "reads_only rec (handle ` set sigs - {handle (hd sigs)})"
  obtains changes where "trace_changes up rx hier xc signals = Some (Inr changes)" "parses (selected_changes sigs changes)"
    "sample (handle (hd sigs)) rec (\<lambda>_. 0) (selected_changes sigs changes) =
       edge_records (wave_of (signal_lens rx) lg) (handle (hd sigs)) rec tims"
proof -
  obtain groups where g: "trace_changes up rx hier xc signals = Some (Inr (concat groups))"
      "grouped (wave_of (signal_lens rx) lg) (handle ` set sigs) tims groups"
    using trace_changes_wave [OF wf sigs found] by blast
  note t = sigs [unfolded traceable_def]
  have "handle (hd sigs) \<in> handle ` set sigs"
    using t by simp
  with t show thesis
    using that [OF g(1)] grouped_parses [OF g(2)] sample_wave [OF g(2) _ _ reads] wave_of_sorted [OF wf] by blast
qed

lemma lists_of_length:
  "length xs = 3 \<Longrightarrow> \<exists>a b c. xs = [a, b, c]"
  "length xs = 4 \<Longrightarrow> \<exists>a b c d. xs = [a, b, c, d]"
  "length xs = 9 \<Longrightarrow> \<exists>a b c d e f g h i. xs = [a, b, c, d, e, f, g, h, i]"
  by (auto simp: numeral_eq_Suc length_Suc_conv)

lemma signals_length: "length (cpu_signals j c) = 3" "length (reg_signals j c) = 4" "length (bus_signals j c) = 9"
  by (simp_all add: cpu_signals_def reg_signals_def bus_signals_def the_signals_def)

lemma assign_loop_length: "assign_loop hs xc s nf sigs = Inr (nf1, sigs1, xc1) \<Longrightarrow> length sigs1 = length sigs"
proof (induction hs arbitrary: xc s nf sigs)
  case (Cons h hs)
  then show ?case
    by (cases h) (fastforce simp: assign_var_def split: prod.splits option.splits)+
qed simp

lemma assignHandles_length: "assignHandles hier xc sigs = Inr (ok, sigs1, xc1) \<Longrightarrow> length sigs1 = length sigs"
  by (auto simp: assignHandles_def assign_loop_length split: sum.splits prod.splits)

lemma extract_traces_wave:
  assumes wf: "wave_file up rx lg tims" and hier: "hierarchy up gunzip rx = Some hier"
    and found: "assignHandles hier fst_scope_init (cpu_signals j c) = Inr (Some True, cs, x1)"
      "assignHandles hier x1 (reg_signals j c) = Inr (Some True, rs, x2)"
      "assignHandles hier x2 (bus_signals j c) = Inr (Some True, bs, x3)"
    and sigs: "traceable (signal_lens rx) lg cs" "traceable (signal_lens rx) lg rs" "traceable (signal_lens rx) lg bs"
    and image: "image_file files c \<noteq> Some None"
  shows "\<exists>traces. extract_traces up gunzip files j c rx = Inr traces \<and>
    traces_of (wave_of (signal_lens rx) lg) tims cs rs bs (debug_target client traces)"
proof -
  let ?W = "wave_of (signal_lens rx) lg"
  note fm = file_mask_wf(1) [OF wf]
  note len = found [THEN assignHandles_length, unfolded signals_length]
  note hs = sigs [THEN traceable_handles [OF wf]]
  have d: "distinct (map handle cs)" "distinct (map handle rs)" "distinct (map handle bs)"
    using sigs by (simp_all add: traceable_def)
  obtain c0 c1 c2 where cs: "cs = [c0, c1, c2]"
    using lists_of_length(1) [OF len(1)] by blast
  obtain g0 g1 g2 where cpu: "cpu_signals j c = [g0, g1, g2]"
    using lists_of_length(1) [OF signals_length(1)] by blast
  obtain r0 r1 r2 r3 where rs: "rs = [r0, r1, r2, r3]"
    using lists_of_length(2) [OF len(2)] by blast
  obtain s0 s1 s2 s3 where regs: "reg_signals j c = [s0, s1, s2, s3]"
    using lists_of_length(2) [OF signals_length(2)] by blast
  obtain b0 b1 b2 b3 b4 b5 b6 b7 b8 where bs: "bs = [b0, b1, b2, b3, b4, b5, b6, b7, b8]"
    using lists_of_length(3) [OF len(3)] by blast
  obtain t0 t1 t2 t3 t4 t5 t6 t7 t8 where bus: "bus_signals j c = [t0, t1, t2, t3, t4, t5, t6, t7, t8]"
    using lists_of_length(3) [OF signals_length(3)] by blast
  have "reads_only (pc_samples (handle c1) (handle c2)) (handle ` set cs - {handle (hd cs)})"
    using d(1) unfolding cs by (intro reads_samples) auto
  then obtain ch1 where 1: "trace_changes up rx hier fst_scope_init (cpu_signals j c) = Some (Inr ch1)"
      "parses (selected_changes cs ch1)"
      "sample (handle c0) (pc_samples (handle c1) (handle c2)) (\<lambda>_. 0) (selected_changes cs ch1) =
         edge_records ?W (handle c0) (pc_samples (handle c1) (handle c2)) tims"
    using wave_samples [OF wf sigs(1) found(1)] by (metis cs list.sel(1))
  have "reads_only (reg_samples (handle r1) (handle r2) (handle r3)) (handle ` set rs - {handle (hd rs)})"
    using d(2) unfolding rs by (intro reads_samples) auto
  then obtain ch2 where 2: "trace_changes up rx hier x1 (reg_signals j c) = Some (Inr ch2)"
      "parses (selected_changes rs ch2)"
      "sample (handle r0) (reg_samples (handle r1) (handle r2) (handle r3)) (\<lambda>_. 0) (selected_changes rs ch2) =
         edge_records ?W (handle r0) (reg_samples (handle r1) (handle r2) (handle r3)) tims"
    using wave_samples [OF wf sigs(2) found(2)] by (metis rs list.sel(1))
  have "reads_only (bus_writes (map handle (tl bs))) (handle ` set bs - {handle (hd bs)})"
    using d(3) unfolding bs by (intro reads_samples) auto
  then obtain ch3 where 3: "trace_changes up rx hier x2 (bus_signals j c) = Some (Inr ch3)"
      "parses (selected_changes bs ch3)"
      "sample (handle b0) (bus_writes (map handle (tl bs))) (\<lambda>_. 0) (selected_changes bs ch3) =
         edge_records ?W (handle b0) (bus_writes (map handle (tl bs))) tims"
    using wave_samples [OF wf sigs(3) found(3)] by (metis bs list.sel(1))
  obtain cpuT where c: "CpuTrace_new hier fst_scope_init (file_mask rx) ch1 g0 g1 g2 = Inr (cpuT, x1)"
    using CpuTrace_built [OF found(1) [unfolded cs cpu] fm hs(1) [unfolded cs] 1(2) [unfolded cs]] d(1) by (auto simp: cs)
  obtain regT where r: "RegFileTrace_new hier x1 (file_mask rx) ch2 s0 s1 s2 s3 = Inr (regT, x2)"
    using RegFileTrace_built [OF found(2) [unfolded rs regs] fm hs(2) [unfolded rs] 2(2) [unfolded rs]] d(2) by (auto simp: rs)
  obtain memT where m: "MemTrace_new (image_file files c) (image_start j c) (junk_mem j) hier x2 (file_mask rx) ch3
      t0 t1 t2 t3 t4 t5 t6 t7 t8 = Inr (memT, x3)"
    using MemTrace_built [OF found(3) [unfolded bus] fm hs(3) 3(2) image] by blast
  have "pcTrace cpuT = sample (handle c0) (pc_samples (handle c1) (handle c2)) (\<lambda>_. 0) (selected_changes cs ch1)"
    using CpuTrace_sampled [OF c found(1) [unfolded cs cpu] fm hs(1) [unfolded cs]] d(1) by (simp add: cs)
  moreover have "regFileTrace regT =
      sample (handle r0) (reg_samples (handle r1) (handle r2) (handle r3)) (\<lambda>_. 0) (selected_changes rs ch2)"
    using RegFileTrace_sampled [OF r found(2) [unfolded rs regs] fm hs(2) [unfolded rs]] d(2) by (simp add: rs)
  moreover have "memTrace memT = concat (map (\<lambda>(t, sz, addr, v). write_accesses t True sz addr v)
      (sample (handle b0) (bus_writes (map handle (tl bs))) (\<lambda>_. 0) (selected_changes bs ch3)))"
    using MemTrace_sampled(1) [OF m found(3) [unfolded bus] len(3) fm hs(3) d(3)] by (simp add: bs)
  ultimately have "traces_of ?W tims cs rs bs (debug_target client (cpuT, regT, memT))"
    unfolding 1(3) 2(3) 3(3) by (simp add: traces_of_def debug_target_def cs rs bs)
  moreover have "extract_traces up gunzip files j c rx = Inr (cpuT, regT, memT)"
    using 1(1) 2(1) 3(1) c r m
    by (simp add: extract_traces_def run_reader_def run_cxx_def hier cpu regs bus)
  ultimately show ?thesis
    by blast
qed

section \<open>The program on a file that was written\<close>

text \<open>The calls of the iterator beyond the end of the hierarchy change nothing.\<close>

lemma iterate_more:
  "iterate k r = Some (hs, r1) \<Longrightarrow> length hs < k \<Longrightarrow> k \<le> n \<Longrightarrow> iterate n r = Some (hs, r1)"
proof (induction k arbitrary: n r hs)
  case (Suc k)
  then obtain n' where n: "n = Suc n'" "k \<le> n'"
    by (cases n) auto
  obtain x r2 where i: "fstReaderIterateHier r = Some (x, r2)"
    using Suc.prems(1) by (cases "fstReaderIterateHier r") auto
  show ?case
  proof (cases x)
    case None
    then show ?thesis
      using Suc.prems(1) by (simp add: n i)
  next
    case (Some h)
    then obtain hs' where "hs = h # hs'" "iterate k r2 = Some (hs', r1)"
      using Suc.prems(1) i by auto
    then show ?thesis
      using Suc.IH [of r2 hs' n'] Suc.prems(2) n Some i by simp
  qed
qed simp

lemma call_takes_bytes: "length (hier_handle xc) < length (hier_handle (snd (run_call c xc)))"
  by (cases c) (simp_all add: run_call_hier case_prod_beta)

lemma calls_take_bytes: "length (hier_handle xc) + length ds \<le> length (hier_handle (snd (run_calls ds xc)))"
proof (induction ds arbitrary: xc)
  case (Cons c ds)
  have "snd (run_calls (c # ds) xc) = snd (run_calls ds (snd (run_call c xc)))"
    by (simp add: case_prod_beta Let_def)
  then show ?case
    using Cons.IH [of "snd (run_call c xc)"] call_takes_bytes [of xc c] by simp
qed simp

lemma run_calls_length: "length (fst (run_calls ds xc)) = length ds"
  by (induction ds arbitrary: xc) (simp_all add: case_prod_beta Let_def)

text \<open>How the program is started: its arguments and its configuration name the file and the signals.\<close>

definition configured :: "environment \<Rightarrow> string list \<Rightarrow> junk \<Rightarrow> ConfigParams \<Rightarrow> byte list \<Rightarrow> bool" where
  "configured env argv j c f \<longleftrightarrow> env_junk env = j \<and>
     (\<exists>ops. command_line argv = Inr ops \<and>
        parseConfig (map_option chars (env_files env (configParamsFileName ops))) no_params = Inr c \<and> check_params c = Inr () \<and>
        env_files env (fstFileName ops) = Some f \<and> env_files env (fstFileName ops @ ''.hier'') = None \<and>
        image_file (env_files env) c \<noteq> Some None \<and> TcpServer_open (env_sockets env))"

lemma start_up_traces:
  assumes "configured env argv j c f" "fstReaderOpen up gunzip (Some f) None = Some (Some rx)"
    and "infoStr fst_scope_init rx = Inr info" "extract_traces up gunzip (env_files env) j c rx = Inr traces"
  shows "start_up up gunzip env argv = Inr (debug_target (env_client env) traces)"
  using assms by (auto simp: configured_def start_up_def run_cxx_def run_reader_def FstProcess_new_def)

lemma described_hier:
  "hier_handle (described pt rp m d ds) = hier_handle (snd (run_calls ds (fstWriterCreate m d 1)))"
  by (simp add: described_def fstWriterSetRepackOnClose_def fstWriterSetPackType_def)

lemma hierarchy_described:
  assumes "list_all good_call ds" "text = hier_handle (described pt rp m d ds)"
    and "fstReaderRecreateHierFile up gunzip rx = Some (True, rx\<lparr>fx_fh := Some text\<rparr>)"
  shows "hierarchy up gunzip rx = Some (map hier_item (fst (run_calls ds (fstWriterCreate m d 1))))"
proof -
  let ?hs = "fst (run_calls ds (fstWriterCreate m d 1))" and ?rx = "rx\<lparr>fx_fh := Some text\<rparr>"
  have "map_option fst (iterate (length ds + 1) (snd (fstReaderIterateHierRewind (hier_of text ?rx)))) = Some ?hs"
    using hier_read_back [of "fstWriterCreate m d 1" ds "hier_of text ?rx"] assms(1) create_fields
    by (simp add: hier_of_def assms(2) described_hier)
  then obtain r where r: "iterate (length ds + 1) (snd (fstReaderIterateHierRewind (hier_of text ?rx))) = Some (?hs, r)"
    by auto
  have le: "length ds \<le> length text"
    using calls_take_bytes [of "fstWriterCreate m d 1" ds] by (simp add: assms(2) described_hier)
  have "iterate (length text + 1) (snd (fstReaderIterateHierRewind (hier_of text ?rx))) = Some (?hs, r)"
    by (rule iterate_more [OF r]) (simp_all add: run_calls_length le)
  then show ?thesis
    by (simp add: hierarchy_def assms(3))
qed

lemma infoStr_ok:
  assumes "fx_filetype rx < 3" "blackout_times rx = []"
  shows "\<exists>s. infoStr fst_scope_init rx = Inr s"
  using assms
  by (auto simp: infoStr_def fstReaderGetFileType_def fstReaderGetNumberDumpActivityChanges_def fileTypeStrings_def
      word_less_nat_alt Let_def)

lemma file_is_wave:
  assumes "design_ok reals xc" "log_ok (tims, lg)" "\<forall>i \<ge> length (sig_lens xc). lg i = []"
    and "fx_maxhandle rx = xc_maxhandle xc" "signal_lens rx = sig_lens xc"
      "signal_typs rx = map (\<lambda>r. if r then 3 else 16) reals" "fx_process_mask rx = no_mask (xc_maxhandle xc)"
    and "\<forall>m. length m = (unat (xc_maxhandle xc) + 7) div 8 \<longrightarrow>
       (\<exists>groups. fstReaderIterBlocks2 up (blocks_of (rx\<lparr>fx_process_mask := m\<rparr>)) = Some (concat groups) \<and>
          changes_sorted (expected up (blocks_of (rx\<lparr>fx_process_mask := m\<rparr>)) lg) tims 0 groups)"
  shows "wave_file up rx lg tims"
proof -
  have len: "length (sig_lens xc) = unat (xc_maxhandle xc)" "length reals = length (sig_lens xc)" "unat (xc_maxhandle xc) < 2 ^ 31"
    using assms(1) unfolding design_ok_def geom_ok_def layout_ok_def by (simp_all add: sig_lens_def)
  have real: "\<forall>i < length reals. reals ! i \<longrightarrow> sig_lens xc ! i = 8"
    using assms(1) unfolding design_ok_def geom_ok_def by blast
  have "\<forall>x < length (sig_lens xc). sig_lens xc ! x \<noteq> 8 \<longrightarrow> map (\<lambda>r. if r then 3 else 16 :: byte) reals ! x \<noteq> 3"
    using real len(2) by auto
  then show ?thesis
    using assms(2,3,8) len(1,3) unfolding wave_file_def assms(4-7) log_ok_def by simp
qed

text \<open>
  C1: from the simulation to the debugger. A simulator describes a design, emits value changes
  and closes the file with the writer of the FST library; there is at least one change, and the
  changes fit the memory of one section. The program is started on this
  file, with a configuration whose signals are found in the design, have different handles, a fixed
  length other than the eight of a real and values that are numbers or unknown, and do not change
  together with a falling edge of the clock. Then the program reaches the debug session, and its target holds exactly what the
  simulator emitted: the instruction trace has the program counter at every falling clock
  edge with the valid signal set, the register trace the writes to the registers and the memory
  trace the bytes of the bus writes at these edges, in the order of time, with the times of
  the simulation.
\<close>
theorem simulation_replayed:
  assumes "xc = described pt rp m d ds" "pt = 0 \<or> pt = 2" "list_all good_call ds" "sum_list (map call_len ds) < 2 ^ 32 - 1"
      "length ds < 2 ^ 31" "length (hier_handle xc) < 2 ^ 31"
    and "list_all (good_vc (sig_lens xc)) vs" "1 + sum_list (map vc_size vs) < unat (fst_break_size xc)"
      "fst_break_size xc \<le> 2 ^ 28" "log_calls vs ([tim], \<lambda>_. []) = (tims, lg)" "tim \<noteq> 0 \<or> last tims \<noteq> 0"
    and "i < unat (xc_maxhandle xc)" "lg i \<noteq> []"
    and "inverse_packers pk up" "inverse_gz gz gunzip" "packed_small pk gz xc" "no_collision pk xc (log_chains (sig_lens xc) lg)"
    and hier: "hier = map hier_item (fst (run_calls ds (fstWriterCreate m d 1)))"
      "assignHandles hier fst_scope_init (cpu_signals j c) = Inr (Some True, cs, x1)"
      "assignHandles hier x1 (reg_signals j c) = Inr (Some True, rs, x2)"
      "assignHandles hier x2 (bus_signals j c) = Inr (Some True, bs, x3)"
    and sigs: "traceable (sig_lens xc) lg cs" "traceable (sig_lens xc) lg rs" "traceable (sig_lens xc) lg bs"
  shows "\<exists>xc1 f. run_vcs pk (Time_change tim # vs) xc = Some xc1 \<and> fstWriterClose pk gz xc1 = Some (Inr f) \<and>
    (\<forall>env argv. configured env argv j c f \<longrightarrow>
       (\<exists>y. start_up up gunzip env argv = Inr y \<and> tcpServer y = env_client env \<and>
          traces_of (wave_of (sig_lens xc) lg) tims cs rs bs y))"
proof -
  have ok: "vc_fresh xc" "file_started xc" "fastpack xc = fourpack xc" "blackouts xc = []"
    using described_ok [OF assms(4,5,2) assms(6,12) [unfolded assms(1)]] unfolding assms(1) by blast+
  obtain reals where reals: "design_ok reals xc"
    using described_ok [OF assms(4,5,2) assms(6,12) [unfolded assms(1)]] unfolding assms(1) by blast
  obtain xc1 f rx where x: "run_vcs pk (Time_change tim # vs) xc = Some xc1" "fstWriterClose pk gz xc1 = Some (Inr f)"
      "fstReaderOpen up gunzip (Some f) None = Some (Some rx)" "fx_maxhandle rx = xc_maxhandle xc" "signal_lens rx = sig_lens xc"
      "signal_typs rx = map (\<lambda>r. if r then 3 else 16) reals" "fx_process_mask rx = no_mask (xc_maxhandle xc)"
    and info: "blackout_times rx = map fst (blackouts xc)" "fx_filetype rx < 3"
    and h: "fstReaderRecreateHierFile up gunzip rx = Some (True, rx\<lparr>fx_fh := Some (hier_handle xc)\<rparr>)"
    and del: "\<forall>m. length m = (unat (xc_maxhandle xc) + 7) div 8 \<longrightarrow>
       (\<exists>groups. fstReaderIterBlocks2 up (blocks_of (rx\<lparr>fx_process_mask := m\<rparr>)) = Some (concat groups) \<and>
          changes_sorted (expected up (blocks_of (rx\<lparr>fx_process_mask := m\<rparr>)) lg) tims 0 groups)"
    using closed_file_read [OF ok(1,2) reals assms(7-11) assms(12-16) ok(3) assms(17)] by blast
  have wf: "wave_file up rx lg tims"
    using file_is_wave [OF reals _ _ x(4-7) del] written_times [OF assms(8-10)] log_calls_outside [OF assms(7,10)] by simp
  have hr: "hierarchy up gunzip rx = Some hier"
    using hierarchy_described [OF assms(3) _ h] by (simp add: assms(1) hier(1))
  obtain s where s: "infoStr fst_scope_init rx = Inr s"
    using infoStr_ok [of rx] info ok(4) by auto
  have "\<exists>y. start_up up gunzip env argv = Inr y \<and> tcpServer y = env_client env \<and>
      traces_of (wave_of (sig_lens xc) lg) tims cs rs bs y" if e: "configured env argv j c f" for env argv
  proof -
    have "image_file (env_files env) c \<noteq> Some None"
      using e by (auto simp: configured_def)
    from extract_traces_wave [OF wf hr hier(2-4) sigs [folded x(5)] this, of "env_client env"]
    obtain traces where "extract_traces up gunzip (env_files env) j c rx = Inr traces"
      "traces_of (wave_of (sig_lens xc) lg) tims cs rs bs (debug_target (env_client env) traces)"
      unfolding x(5) by blast
    moreover have "tcpServer (debug_target (env_client env) traces) = env_client env"
      by (simp add: debug_target_def case_prod_beta)
    ultimately show ?thesis
      using start_up_traces [OF e x(3) s] by blast
  qed
  with x(1,2) show ?thesis
    by blast
qed

section \<open>An example\<close>

text \<open>
  Ten signals of one bit in a scope. The valid signal and the program counter are set at time
  3, the clock falls at time 5.
\<close>

definition bit_var :: "string \<Rightarrow> hier_call" where
  "bit_var n = Call_CreateVar 16 0 1 (lit n) 0"

definition replay_calls :: "hier_call list" where
  "replay_calls = Call_SetScope 0 (Some (lit ''T'')) None #
     map bit_var [''c'', ''v'', ''r'', ''a'', ''s'', ''w'', ''d'', ''e'', ''f'', ''z''] @ [Call_SetUpscope]"

lemma step_bit:
  "fst (run_call (bit_var n) xc) = Hier_VAR 16 0 (lit n) 1 (xc_maxhandle xc + 1) False"
  "xc_maxhandle (snd (run_call (bit_var n) xc)) = xc_maxhandle xc + 1"
  "sig_lens (snd (run_call (bit_var n) xc)) = sig_lens xc @ [1]"
  "length (hier_handle (snd (run_call (bit_var n) xc))) = length (hier_handle xc) + length n + 5"
proof -
  have "length (varint_bytes 1) + length (varint_bytes 0) = 2"
    by code_simp
  then show "length (hier_handle (snd (run_call (bit_var n) xc))) = length (hier_handle xc) + length n + 5"
    by (simp add: bit_var_def run_call_def CreateVar_hier case_prod_beta var_len_def is_real_type_def lit_def)
qed (simp_all add: bit_var_def run_call_def CreateVar_hier CreateVar_geom case_prod_beta var_len_def is_real_type_def lit_def)

lemma step_scope:
  "fst (run_call (Call_SetScope 0 (Some (lit n)) None) xc) = Hier_SCOPE 0 (lit n) []"
  "xc_maxhandle (snd (run_call (Call_SetScope 0 (Some (lit n)) None) xc)) = xc_maxhandle xc"
  "sig_lens (snd (run_call (Call_SetScope 0 (Some (lit n)) None) xc)) = sig_lens xc"
  "length (hier_handle (snd (run_call (Call_SetScope 0 (Some (lit n)) None) xc))) = length (hier_handle xc) + length n + 4"
  "fst (run_call Call_SetUpscope xc) = Hier_UPSCOPE"
  "xc_maxhandle (snd (run_call Call_SetUpscope xc)) = xc_maxhandle xc"
  "sig_lens (snd (run_call Call_SetUpscope xc)) = sig_lens xc"
  "length (hier_handle (snd (run_call Call_SetUpscope xc))) = length (hier_handle xc) + 1"
  by (simp_all add: run_call_geom run_call_hier lit_def opt_text_def) (simp_all add: run_call_def opt_text_def fstWriterSetUpscope_def)

lemma snd_run_calls: "snd (run_calls (c # cs) xc) = snd (run_calls cs (snd (run_call c xc)))"
  by (simp add: case_prod_beta Let_def)

lemma fst_run_calls: "fst (run_calls (c # cs) xc) = fst (run_call c xc) # fst (run_calls cs (snd (run_call c xc)))"
  by (simp add: case_prod_beta Let_def)

lemma chars_lit [simp]: "chars (lit s) = s"
proof -
  have "unat (of_char c :: byte) = of_char c" for c
    by (simp add: of_char_def unsigned_of_nat)
  then show ?thesis
    by (simp add: chars_def lit_def comp_def)
qed

definition replay_design :: fstWriterContext where
  "replay_design = described 0 0 None [] replay_calls"

lemmas run_calls_eval = replay_calls_def list.map append.simps snd_run_calls fst_run_calls step_bit step_scope

lemma replay_fields:
  "sig_lens replay_design = replicate 10 1" "xc_maxhandle replay_design = 10" "length (hier_handle replay_design) = 66"
  "\<not> fourpack replay_design" "fst_break_size replay_design = 0x8000000" "\<not> fastpack replay_design"
proof -
  let ?y = "snd (run_calls replay_calls (fstWriterCreate None [] 1))"
  have y: "sig_lens replay_design = sig_lens ?y" "xc_maxhandle replay_design = xc_maxhandle ?y"
    "hier_handle replay_design = hier_handle ?y" "\<not> fourpack replay_design" "fst_break_size replay_design = fst_break_size ?y" "\<not> fastpack replay_design"
    by (simp_all add: replay_design_def described_def fstWriterSetRepackOnClose_def fstWriterSetPackType_def sig_lens_def)
  show "sig_lens replay_design = replicate 10 1" "xc_maxhandle replay_design = 10" "length (hier_handle replay_design) = 66"
    unfolding y by (simp_all add: run_calls_eval create_fields numeral_eq_Suc del: run_calls.simps(2))
  show "\<not> fourpack replay_design" "\<not> fastpack replay_design"
    by (rule y)+
  have "fst_break_size ?y = 0x8000000"
    by (simp add: replay_calls_def bit_var_def run_call_def case_prod_beta Let_def) code_simp
  then show "fst_break_size replay_design = 0x8000000"
    by (simp only: y(5))
qed

definition replay_hier :: "fstHier list" where
  "replay_hier = [HT_SCOPE ''T'', HT_VAR ''c'' 1, HT_VAR ''v'' 2, HT_VAR ''r'' 3, HT_VAR ''a'' 4, HT_VAR ''s'' 5, HT_VAR ''w'' 6,
     HT_VAR ''d'' 7, HT_VAR ''e'' 8, HT_VAR ''f'' 9, HT_VAR ''z'' 10, HT_UPSCOPE]"

lemma replay_hier: "map hier_item (fst (run_calls replay_calls (fstWriterCreate None [] 1))) = replay_hier"
  by (simp add: run_calls_eval create_fields hier_item_def replay_hier_def del: run_calls.simps(2))

definition replay_params :: "(string \<times> string) list" where
  "replay_params = [(''cpuClk'', ''T.c''), (''retiredPcValid'', ''T.v''), (''retiredPc'', ''T.r''), (''regFileWriteValid'', ''T.w''),
     (''regFileWriteAddr'', ''T.a''), (''regFileWriteData'', ''T.d''), (''memCmdValid'', ''T.v''), (''memCmdReady'', ''T.r''),
     (''memCmdAddr'', ''T.a''), (''memCmdSize'', ''T.s''), (''memCmdWr'', ''T.w''), (''memCmdWrData'', ''T.d''),
     (''memRspValid'', ''T.e''), (''memRspRdData'', ''T.f'')]"

definition replay_config :: ConfigParams where
  "replay_config = no_params\<lparr>cpuClkSignal := ''T.c'', retiredPcValidSignal := ''T.v'', retiredPcSignal := ''T.r'',
     regFileWriteValidSignal := ''T.w'', regFileWriteAddrSignal := ''T.a'', regFileWriteDataSignal := ''T.d'',
     memCmdValidSignal := ''T.v'', memCmdReadySignal := ''T.r'', memCmdAddrSignal := ''T.a'', memCmdSizeSignal := ''T.s'',
     memCmdWrSignal := ''T.w'', memCmdWrDataSignal := ''T.d'', memRspValidSignal := ''T.e'', memRspRdDataSignal := ''T.f''\<rparr>"

lemma replay_parsed: "parseConfig (Some (concat (map config_line replay_params))) no_params = Inr replay_config"
proof -
  have "list_all good_param replay_params"
    by (simp add: replay_params_def good_param_def trimmed_def isspace_def)
  then have "parseConfig (Some (concat (map config_line replay_params))) no_params = set_params replay_params no_params"
    by (simp add: parseConfig_assignments assignments_text)
  also have "\<dots> = Inr replay_config"
    by (simp add: replay_params_def replay_config_def set_param_def no_params_def)
  finally show ?thesis .
qed

definition replay_junk :: junk where
  "replay_junk = \<lparr>junk_handle = (\<lambda>_. 0), junk_start = 0, junk_mem = example_mem\<rparr>"

definition replay_env :: "byte list \<Rightarrow> environment" where
  "replay_env f = \<lparr>env_files = [''w'' \<mapsto> f, ''p'' \<mapsto> lit (concat (map config_line replay_params))],
     env_sockets = \<lparr>rc_socket = 3, rc_setsockopt = 0, rc_bind = 0, rc_listen = 0, rc_accept = 4\<rparr>,
     env_client = conn_open [] [], env_junk = replay_junk, env_stacks = (\<lambda>_. replicate 512 0)\<rparr>"

lemma replay_configured:
  "configured (replay_env f) [''gdbwave'', ''-w'', ''w'', ''-c'', ''p''] replay_junk replay_config f"
proof -
  have "command_line [''gdbwave'', ''-w'', ''w'', ''-c'', ''p''] =
      Inr \<lparr>fstFileName = ''w'', configParamsFileName = ''p'', portNr = 3333, verbose = False\<rparr>"
    by (simp add: command_line_def arg_option_def default_options_def with_defaults_def)
  then show ?thesis
    using replay_parsed
    by (simp add: configured_def replay_env_def check_params_def replay_config_def no_params_def image_file_def TcpServer_open_def)
qed

definition found_signal :: "string \<Rightarrow> handle \<Rightarrow> FstSignal" where
  "found_signal n h = \<lparr>scopeName = ''T'', name = n, hasHandle = True, handle = h\<rparr>"

definition replay_scope :: fst_scope where
  "replay_scope = \<lparr>curr_flat_hier_nam = Some [], curr_hier = []\<rparr>"

lemma path_T: "FstSignal_of_path h [CHR ''T'', CHR ''.'', c] = \<lparr>scopeName = ''T'', name = [c], hasHandle = False, handle = h\<rparr>"
  if "c \<noteq> CHR ''.''"
  using that by (simp add: FstSignal_of_path_def getScope_def getLocalName_def substr_def find_last_dot_def)

lemma assign_steps:
  "assign_loop (HT_SCOPE n # hs) xc s nf signals = (case fstReaderPushScope xc n of (s, xc) \<Rightarrow> assign_loop hs xc s nf signals)"
  "fstReaderPopScope xc = (Some s1, xc1) \<Longrightarrow> assign_loop (HT_UPSCOPE # hs) xc s nf signals = assign_loop hs xc1 s1 nf signals"
  "assign_loop (HT_VAR n h # hs) xc s nf signals =
     assign_loop hs xc s (Some (list_ex (\<lambda>sig. \<not> hasHandle sig) signals)) (snd (assign_var s n h signals))"
  by (simp_all add: assign_var_def)

lemma replay_scopes:
  "fstReaderPushScope fst_scope_init ''T'' = (''T'', \<lparr>curr_flat_hier_nam = Some ''T'', curr_hier = [Suc 0]\<rparr>)"
  "fstReaderPushScope replay_scope ''T'' = (''T'', \<lparr>curr_flat_hier_nam = Some ''T'', curr_hier = [Suc 0]\<rparr>)"
  "fstReaderPopScope \<lparr>curr_flat_hier_nam = Some ''T'', curr_hier = [Suc 0]\<rparr> = (Some [], replay_scope)"
  by (simp_all add: replay_scope_def fstReaderPushScope_def fstReaderPopScope_def fst_scope_init_def)

definition unfound :: "string \<Rightarrow> FstSignal" where
  "unfound n = \<lparr>scopeName = ''T'', name = n, hasHandle = False, handle = 0\<rparr>"

lemma replay_signals:
  "cpu_signals replay_junk replay_config = map unfound [''c'', ''v'', ''r'']"
  "reg_signals replay_junk replay_config = map unfound [''c'', ''w'', ''a'', ''d'']"
  "bus_signals replay_junk replay_config = map unfound [''c'', ''v'', ''r'', ''a'', ''s'', ''w'', ''d'', ''e'', ''f'']"
  by (simp_all add: cpu_signals_def reg_signals_def bus_signals_def the_signals_def replay_config_def no_params_def replay_junk_def
      path_T unfound_def)

lemma assign_var_step:
  "snd (assign_var s n h []) = []"
  "snd (assign_var ''T'' m h (unfound n # sigs)) =
     (if n = m then found_signal n h else unfound n) # snd (assign_var ''T'' m h sigs)"
  "snd (assign_var ''T'' m h (found_signal n k # sigs)) = found_signal n k # snd (assign_var ''T'' m h sigs)"
  by (simp_all add: assign_var_def unfound_def found_signal_def)

lemma signal_found: "hasHandle (found_signal n h)" "\<not> hasHandle (unfound n)"
  by (simp_all add: unfound_def found_signal_def)

lemma replay_found:
  "assignHandles replay_hier fst_scope_init (cpu_signals replay_junk replay_config) =
     Inr (Some True, [found_signal ''c'' 1, found_signal ''v'' 2, found_signal ''r'' 3], replay_scope)"
  "assignHandles replay_hier replay_scope (reg_signals replay_junk replay_config) =
     Inr (Some True, [found_signal ''c'' 1, found_signal ''w'' 6, found_signal ''a'' 4, found_signal ''d'' 7], replay_scope)"
  "assignHandles replay_hier replay_scope (bus_signals replay_junk replay_config) =
     Inr (Some True, [found_signal ''c'' 1, found_signal ''v'' 2, found_signal ''r'' 3, found_signal ''a'' 4, found_signal ''s'' 5,
       found_signal ''w'' 6, found_signal ''d'' 7, found_signal ''e'' 8, found_signal ''f'' 9], replay_scope)"
  by (simp_all add: replay_signals assignHandles_def replay_hier_def replay_scopes assign_steps assign_var_step signal_found
      list.map del: assign_loop.simps(2))

definition replay_log :: "nat \<Rightarrow> vc_log" where
  "replay_log = (\<lambda>_. [])(0 := [(1, [0x30])], 1 := [(0, [0x31])], 2 := [(0, [0x31])])"

lemma shown_bit: "shown 1 [0x30] = ''0''" "shown 1 [0x31] = ''1''"
  by code_simp+

lemma ten_bits: "replicate 10 1 = [1, 1, 1, 1, 1, 1, 1, 1, 1, 1 :: u32]"
  by (simp add: numeral_eq_Suc)

lemma replay_wave:
  "wave_of (replicate 10 1) replay_log 1 = [(1, ''0'')]" "wave_of (replicate 10 1) replay_log 2 = [(0, ''1'')]"
  "wave_of (replicate 10 1) replay_log 3 = [(0, ''1'')]"
  "wave_of (replicate 10 1) replay_log 4 = []" "wave_of (replicate 10 1) replay_log 5 = []"
  "wave_of (replicate 10 1) replay_log 6 = []" "wave_of (replicate 10 1) replay_log 7 = []"
  "wave_of (replicate 10 1) replay_log 8 = []" "wave_of (replicate 10 1) replay_log 9 = []"
  unfolding ten_bits by (simp_all add: wave_of_def replay_log_def shown_bit)

lemma replay_bits: "known ''0'' = Some 0" "known ''1'' = Some 1" "readable ''0''" "readable ''1''"
  by (simp_all add: known_def readable_def waveform_eval)

lemma replay_falls: "falls (wave_of (replicate 10 1) replay_log) 1 k = (if k = 1 then 1 else 0)"
  by (simp add: falls_def replay_wave replay_bits)

lemma replay_traceable:
  "traceable (replicate 10 1) replay_log [found_signal ''c'' 1, found_signal ''v'' 2, found_signal ''r'' 3]"
  "traceable (replicate 10 1) replay_log
     [found_signal ''c'' 1, found_signal ''w'' 6, found_signal ''a'' 4, found_signal ''d'' 7]"
  "traceable (replicate 10 1) replay_log [found_signal ''c'' 1, found_signal ''v'' 2, found_signal ''r'' 3,
     found_signal ''a'' 4, found_signal ''s'' 5, found_signal ''w'' 6, found_signal ''d'' 7, found_signal ''e'' 8, found_signal ''f'' 9]"
  by (auto simp: traceable_def found_signal_def replay_wave replay_bits stable_at_edges_def replay_falls)

lemma replay_records:
  "edge_records (wave_of (replicate 10 1) replay_log) 1 (pc_samples 2 3) [3, 5] = [\<lparr>pv_time = 5, pv_pc = 1\<rparr>]"
  by (simp add: edge_records_def replay_falls value_at_def replay_wave replay_bits pc_samples_def upt_rec)

lemma replay_good: "list_all good_call replay_calls" "sum_list (map call_len replay_calls) = 10" "length replay_calls = 12"
  subgoal by code_simp
  subgoal by (simp add: replay_calls_def bit_var_def var_len_def is_real_type_def)
  subgoal by (simp add: replay_calls_def)
  done

theorem simulation_replayed_witness:
  "\<exists>xc1 f y. run_vcs demo_packers [Time_change 3, Emit 2 [0x31], Emit 3 [0x31], Time_change 5, Emit 1 [0x30]] replay_design = Some xc1 \<and>
    fstWriterClose demo_packers concat xc1 = Some (Inr f) \<and>
    start_up demo_unpackers id (replay_env f) [''gdbwave'', ''-w'', ''w'', ''-c'', ''p''] = Inr y \<and>
    pcTrace (cpuTrace y) = [\<lparr>pv_time = 5, pv_pc = 1\<rparr>]"
proof -
  let ?cs = "[Emit 2 [0x31], Emit 3 [0x31], Time_change 5, Emit 1 [0x30]]"
  note fields = replay_fields
  have calls: "list_all (good_vc (sig_lens replay_design)) ?cs" "1 + sum_list (map vc_size ?cs) < unat (fst_break_size replay_design)"
    "fst_break_size replay_design \<le> 2 ^ 28" "log_calls ?cs ([3], \<lambda>_. []) = ([3, 5], replay_log)" "(3 :: u64) \<noteq> 0 \<or> last [3, 5 :: u64] \<noteq> 0"
    by (simp_all add: fields log_calls_def log_change_def fun_eq_iff replay_log_def)
  have no: "no_collision demo_packers replay_design W" for W
    by (auto simp: no_collision_def packed_def pack_chain_def demo_packers_def fields split: if_splits)
  have inv: "inverse_packers demo_packers demo_unpackers" "inverse_gz concat id"
    by (simp_all add: inverse_packers_def demo_packers_def demo_unpackers_def inverse_gz_def)
  have ds: "list_all good_call replay_calls" "sum_list (map call_len replay_calls) < 2 ^ 32 - 1" "length replay_calls < 2 ^ 31"
      "length (hier_handle replay_design) < 2 ^ 31"
    by (rule replay_good, simp_all add: fields replay_good)
  have small: "packed_small demo_packers concat replay_design"
    by (simp add: packed_small_def demo_packers_def pack_hier_def fields concat_gz_pieces)
  have lg: "0 < unat (xc_maxhandle replay_design)" "replay_log 0 \<noteq> []"
    by (simp_all add: fields replay_log_def)
  note traced = replay_traceable [folded fields(1)]
  obtain xc1 f where f: "run_vcs demo_packers (Time_change 3 # ?cs) replay_design = Some xc1"
      "fstWriterClose demo_packers concat xc1 = Some (Inr f)"
      "\<forall>env argv. configured env argv replay_junk replay_config f \<longrightarrow>
         (\<exists>y. start_up demo_unpackers id env argv = Inr y \<and> tcpServer y = env_client env \<and>
            traces_of (wave_of (sig_lens replay_design) replay_log) [3, 5]
              [found_signal ''c'' 1, found_signal ''v'' 2, found_signal ''r'' 3]
              [found_signal ''c'' 1, found_signal ''w'' 6, found_signal ''a'' 4, found_signal ''d'' 7]
              [found_signal ''c'' 1, found_signal ''v'' 2, found_signal ''r'' 3, found_signal ''a'' 4, found_signal ''s'' 5,
               found_signal ''w'' 6, found_signal ''d'' 7, found_signal ''e'' 8, found_signal ''f'' 9] y)"
    using simulation_replayed [OF replay_design_def _ ds calls lg inv small no replay_hier [symmetric] replay_found traced] by auto
  obtain y where y: "start_up demo_unpackers id (replay_env f) [''gdbwave'', ''-w'', ''w'', ''-c'', ''p''] = Inr y"
      "pcTrace (cpuTrace y) = edge_records (wave_of (replicate 10 1) replay_log) 1 (pc_samples 2 3) [3, 5]"
    using f(3) replay_configured [of f] by (auto simp: traces_of_def fields found_signal_def)
  then show ?thesis
    using f(1,2) replay_records by auto
qed

end
