(* ===== verification/Fastlz_Correct.thy ===== *)
theory Fastlz_Correct
  imports Fastlz
begin

text \<open>
  FastLZ gives the input back. Between the compressor and the decompressor stands the list
  of what the compressed text means: runs of literals and matches. The decompressor plays
  such a list; the compressor keeps the invariant that the list it has written plays to the
  input up to the run of literals that is open.
\<close>

section \<open>Literals and matches\<close>

datatype tok = Lit "byte list" | Mat nat nat

fun play :: "byte list \<Rightarrow> tok list \<Rightarrow> byte list" where
  "play op [] = op"
| "play op (Lit bs # ts) = play (op @ bs) ts"
| "play op (Mat n d # ts) = play (copy_bytes n (length op - d) op) ts"

fun enc_tok :: "nat \<Rightarrow> tok \<Rightarrow> byte list" where
  "enc_tok level (Lit bs) = byte_of (length bs - 1) # bs"
| "enc_tok level (Mat n d) = encode_match level (n - 2) (d - 1)"

definition enc :: "nat \<Rightarrow> tok list \<Rightarrow> byte list" where
  "enc level ts = concat (map (enc_tok level) ts)"

text \<open>What one token can express at a level, with \<open>sz\<close> bytes of output before it.\<close>

fun tok_ok :: "nat \<Rightarrow> nat \<Rightarrow> tok \<Rightarrow> bool" where
  "tok_ok level sz (Lit bs) = (bs \<noteq> [] \<and> length bs \<le> 32)"
| "tok_ok level sz (Mat n d) =
     (3 \<le> n \<and> 1 \<le> d \<and> d \<le> sz \<and> (if level = 2 then d < MAX_FARDISTANCE else d < 8192 \<and> n \<le> 264))"

fun toks_ok :: "nat \<Rightarrow> byte list \<Rightarrow> tok list \<Rightarrow> bool" where
  "toks_ok level op [] = True"
| "toks_ok level op (t # ts) = (tok_ok level (length op) t \<and> toks_ok level (play op [t]) ts)"

lemma enc_simps [simp]: "enc level [] = []" "enc level (t # ts) = enc_tok level t @ enc level ts"
  "enc level (ts @ us) = enc level ts @ enc level us"
  by (simp_all add: enc_def)

lemma play_append [simp]: "play op (ts @ us) = play (play op ts) us"
  by (induction op ts rule: play.induct) simp_all

lemma toks_ok_append [simp]: "toks_ok level op (ts @ us) \<longleftrightarrow> toks_ok level op ts \<and> toks_ok level (play op ts) us"
proof (induction ts arbitrary: op)
  case (Cons t ts)
  have "play op (t # ts) = play (play op [t]) ts"
    using play_append [of op "[t]" ts] by simp
  with Cons show ?case
    by simp
qed simp

section \<open>Copying\<close>

lemma length_copy_bytes [simp]: "length (copy_bytes n ref op) = length op + n"
  by (induction n ref op rule: copy_bytes.induct) simp_all

lemma copy_bytes_add: "copy_bytes (m + n) ref op = copy_bytes n (ref + m) (copy_bytes m ref op)"
  by (induction m arbitrary: ref op) (simp_all add: add.commute add.left_commute)

lemma copy_bytes_2: "ref + 1 < length op \<Longrightarrow> copy_bytes 2 ref op = op @ [op ! ref, op ! (ref + 1)]"
  by (simp add: numeral_2_eq_2 nth_append)

text \<open>Sixteen bits at a time is byte by byte, when the reference is two bytes behind at least.\<close>

lemma copy_words_bytes: "ref + 1 < length op \<Longrightarrow> copy_words n ref op = copy_bytes (2 * n) ref op"
proof (induction n arbitrary: ref op)
  case (Suc n)
  have "copy_bytes (2 * Suc n) ref op = copy_bytes (2 * n) (ref + 2) (copy_bytes 2 ref op)"
    using copy_bytes_add [of 2 "2 * n" ref op] by simp
  also have "\<dots> = copy_words n (ref + 2) (op @ [op ! ref, op ! (ref + 1)])"
    using Suc by (simp add: copy_bytes_2 del: copy_bytes.simps)
  finally show ?case
    by simp
qed simp

lemma copy_run: "op \<noteq> [] \<Longrightarrow> copy_bytes n (length op - 1) op = op @ replicate n (op ! (length op - 1))"
proof (induction n arbitrary: op)
  case (Suc n)
  have "copy_bytes (Suc n) (length op - 1) op =
      copy_bytes n (length (op @ [op ! (length op - 1)]) - 1) (op @ [op ! (length op - 1)])"
    using Suc.prems by simp
  also have "\<dots> = (op @ [op ! (length op - 1)]) @ replicate n (op ! (length op - 1))"
    by (subst Suc.IH) (simp_all add: nth_append)
  finally show ?case
    by simp
qed simp

text \<open>The copy of the decompressor for the distance \<open>d\<close>.\<close>

lemma copy_match_bytes:
  assumes "1 \<le> d" "d \<le> length op"
  shows "copy_match len (length op - (d - 1)) op = copy_bytes (len + 3) (length op - d) op"
proof (cases "d = 1")
  case True
  moreover have "op \<noteq> []"
    using assms by auto
  ultimately show ?thesis
    using copy_run [of op "len + 3"] by (simp add: copy_match_def)
next
  case False
  define ref where "ref = length op - d"
  have ref: "length op - (d - 1) - 1 = ref" "length op - (d - 1) \<noteq> length op" "ref + 1 < length op"
    using assms False by (auto simp: ref_def)
  define r1 where "r1 = length op - (d - 1)"
  have r1: "r1 - 1 = ref" "r1 \<noteq> length op"
    using ref unfolding r1_def by blast+
  have far: "ref + k + 1 < length (copy_bytes k ref op)" for k
    using ref(3) by simp
  have four: "copy_bytes 1 (ref + 3) (copy_bytes 3 ref op) = copy_bytes 4 ref op"
    using copy_bytes_add [of 3 1 ref op] by (simp del: copy_bytes.simps One_nat_def)
  have "copy_match len r1 op =
      (if odd len then copy_words ((len - 1) div 2) (ref + 4) (copy_bytes 4 ref op)
       else copy_words (len div 2) (ref + 3) (copy_bytes 3 ref op))"
    by (simp add: copy_match_def r1 four Let_def add.commute del: copy_bytes.simps One_nat_def)
  also have "\<dots> = (if odd len then copy_bytes (2 * ((len - 1) div 2)) (ref + 4) (copy_bytes 4 ref op)
       else copy_bytes (2 * (len div 2)) (ref + 3) (copy_bytes 3 ref op))"
    using far [of 4] far [of 3] by (simp add: copy_words_bytes del: copy_bytes.simps length_copy_bytes)
  also have "\<dots> = copy_bytes (len + 3) ref op"
  proof (cases "odd len")
    case True
    then obtain m where "len = 2 * m + 1"
      by (rule oddE)
    then have "len + 3 = 4 + 2 * m" "2 * ((len - 1) div 2) = 2 * m"
      by simp_all
    then show ?thesis
      using copy_bytes_add [of 4 "2 * m" ref op] True by (simp del: copy_bytes.simps)
  next
    case False
    then obtain m where "len = 2 * m"
      by (auto elim: evenE)
    then show ?thesis
      using copy_bytes_add [of 3 "2 * m" ref op] by (simp add: add.commute)
  qed
  finally show ?thesis
    by (simp only: ref_def r1_def)
qed

text \<open>Copying from text that repeats at the distance continues the text.\<close>

lemma copy_bytes_text:
  assumes "1 \<le> d" "d \<le> i" "i + n \<le> length inp" "\<forall>j. i \<le> j \<and> j < i + n \<longrightarrow> inp ! (j - d) = inp ! j"
  shows "copy_bytes n (i - d) (take i inp) = take (i + n) inp"
  using assms
proof (induction n arbitrary: i)
  case (Suc n)
  have "take i inp ! (i - d) = inp ! i"
    using Suc.prems by simp
  then have "take i inp @ [take i inp ! (i - d)] = take (Suc i) inp"
    using Suc.prems by (simp add: take_Suc_conv_app_nth)
  moreover have "copy_bytes n (Suc i - d) (take (Suc i) inp) = take (Suc i + n) inp"
    using Suc.prems by (intro Suc.IH) auto
  moreover have "i - d + 1 = Suc i - d"
    using Suc.prems by simp
  ultimately show ?case
    by simp
qed simp

section \<open>Decoding one token\<close>

lemma unat_byte_of: "n < 256 \<Longrightarrow> unat (byte_of n) = n"
  by (simp add: unsigned_of_nat take_bit_nat_eq_self)

lemma uint_byte_of: "n < 256 \<Longrightarrow> uint (byte_of n) = int n"
  by (simp add: unsigned_of_nat take_bit_nat_eq_self)

lemma byte_of_255: "n < 255 \<Longrightarrow> byte_of n \<noteq> 255"
proof
  assume n: "n < 255" and "byte_of n = 255"
  then have "unat (byte_of n) = 255"
    by simp
  with n show False
    by (simp add: unat_byte_of)
qed

lemma read_len2_bytes: "read_len2 l (len_bytes2 len @ src) = Some (l + len, src)"
proof (induction len arbitrary: l rule: len_bytes2.induct)
  case (1 len)
  show ?case
  proof (cases "len \<ge> 255")
    case True
    with 1 show ?thesis
      by (subst len_bytes2.simps) simp
  next
    case False
    then have "byte_of len \<noteq> 255" "unat (byte_of len) = len"
      using byte_of_255 unat_byte_of by simp_all
    with False show ?thesis
      by (subst len_bytes2.simps) simp
  qed
qed

lemma ctrl_parts:
  assumes "0 < l" "l < 8" "h < 32"
  shows "unat (byte_of (l * 32 + h)) = l * 32 + h" "(l * 32 + h) div 32 = l" "(l * 32 + h) mod 32 = h"
    "l * 32 + h \<ge> 32"
proof -
  have "l * 32 + h < 256"
    using assms by simp
  then show "unat (byte_of (l * 32 + h)) = l * 32 + h"
    by (rule unat_byte_of)
qed (use assms in auto)

text \<open>What a match of the length \<open>len + 2\<close> at the biased distance \<open>dist\<close> is decoded to.\<close>

definition decodes :: "nat \<Rightarrow> nat \<Rightarrow> nat \<Rightarrow> byte list \<Rightarrow> bool" where
  "decodes level len dist bs \<longleftrightarrow>
     (\<exists>c src. bs = c # src \<and> unat c \<ge> 32 \<and>
        (\<forall>rest op. match_args level (unat c) (src @ rest) op = Some (len - 1, int op - int dist, rest)))"

lemma int_parts: "int (dist div 256) * 256 + int (dist mod 256) = int dist"
  by (metis div_mult_mod_eq of_nat_add of_nat_mult of_nat_numeral)

lemma decodes1:
  assumes "1 \<le> len" "len \<le> 262" "dist < 8192"
  shows "decodes 1 len dist (encode1 len dist)"
proof (cases "len < 7")
  case True
  have h: "dist div 256 < 32"
    using assms by simp
  note c = ctrl_parts [OF _ _ h, of len]
  have "match_args 1 (len * 32 + dist div 256) (byte_of (dist mod 256) # rest) op = Some (len - 1, int op - int dist, rest)"
    for rest op
  proof -
    have "unat (byte_of (dist mod 256)) = dist mod 256"
      by (rule unat_byte_of) simp
    then show ?thesis
      using True assms c int_parts [of dist] by (auto simp: match_args_def match_args1_def Let_def)
  qed
  then show ?thesis
    using True assms c by (subst encode1.simps) (simp add: decodes_def)
next
  case False
  have h: "dist div 256 < 32"
    using assms by simp
  note c = ctrl_parts [OF _ _ h, of 7]
  have "uint (byte_of (dist mod 256)) = int (dist mod 256)" "unat (byte_of (len - 7)) = len - 7"
    using assms by (intro unat_byte_of uint_byte_of; simp)+
  then have "match_args 1 (7 * 32 + dist div 256) (byte_of (len - 7) # byte_of (dist mod 256) # rest) op =
      Some (len - 1, int op - int dist, rest)" for rest op
    using False c int_parts [of dist] by (auto simp: match_args_def match_args1_def Let_def)
  then show ?thesis
    using False assms c by (subst encode1.simps) (simp add: decodes_def)
qed

lemma decodes2_near:
  assumes "1 \<le> len" "dist < 8191"
  shows "decodes 2 len dist (encode2 len dist)"
proof -
  have near: "dist < MAX_DISTANCE 2" "dist div 256 = 31 \<Longrightarrow> dist mod 256 < 255"
    using assms div_mult_mod_eq [of dist 256] by (simp_all add: MAX_DISTANCE_def)
  have h: "dist div 256 < 32"
    using assms by simp
  have low: "uint (byte_of (dist mod 256)) = int (dist mod 256)"
    by (rule uint_byte_of) simp
  have not255: "dist div 256 = 31 \<Longrightarrow> byte_of (dist mod 256) \<noteq> 255"
    using near(2) byte_of_255 by blast
  show ?thesis
  proof (cases "len < 7")
    case True
    note c = ctrl_parts [OF _ _ h, of len]
    have "match_args 2 (len * 32 + dist div 256) (byte_of (dist mod 256) # rest) op = Some (len - 1, int op - int dist, rest)"
      for rest op
      using True assms c low not255 int_parts [of dist] by (auto simp: match_args_def match_args2_def Let_def)
    then show ?thesis
      using True assms c near(1) by (simp add: decodes_def encode2_def)
  next
    case False
    note c = ctrl_parts [OF _ _ h, of 7]
    have "match_args 2 (7 * 32 + dist div 256) (len_bytes2 (len - 7) @ byte_of (dist mod 256) # rest) op =
        Some (len - 1, int op - int dist, rest)" for rest op
      using False c low not255 int_parts [of dist] by (auto simp: match_args_def match_args2_def Let_def read_len2_bytes)
    then show ?thesis
      using False assms c near(1) by (simp add: decodes_def encode2_def)
  qed
qed

lemma decodes2_far:
  assumes "1 \<le> len" "8191 \<le> dist" "dist < 8191 + 65536"
  shows "decodes 2 len dist (encode2 len dist)"
proof -
  define far where "far = dist - 8191"
  have far: "far < 65536" "dist = far + 8191" "\<not> dist < MAX_DISTANCE 2" "dist - MAX_DISTANCE 2 = far"
    using assms by (simp_all add: far_def MAX_DISTANCE_def)
  have bytes: "uint (byte_of (far div 256)) = int (far div 256)" "uint (byte_of (far mod 256)) = int (far mod 256)"
    using far(1) by (intro uint_byte_of; simp)+
  have c31: "(31 :: nat) < 32"
    by simp
  show ?thesis
  proof (cases "len < 7")
    case True
    note c = ctrl_parts [OF _ _ c31, of len]
    have "match_args 2 (len * 32 + 31) (255 # byte_of (far div 256) # byte_of (far mod 256) # rest) op =
        Some (len - 1, int op - int dist, rest)" for rest op
      using True assms c bytes int_parts [of far] far(2)
      by (auto simp: match_args_def match_args2_def Let_def MAX_DISTANCE_def)
    then show ?thesis
      using True assms c far by (simp add: decodes_def encode2_def Let_def)
  next
    case False
    note c = ctrl_parts [OF _ _ c31, of 7]
    have "match_args 2 (7 * 32 + 31) (len_bytes2 (len - 7) @ 255 # byte_of (far div 256) # byte_of (far mod 256) # rest) op =
        Some (len - 1, int op - int dist, rest)" for rest op
      using False c bytes int_parts [of far] far(2)
      by (auto simp: match_args_def match_args2_def Let_def MAX_DISTANCE_def read_len2_bytes)
    then show ?thesis
      using False assms c far by (simp add: decodes_def encode2_def Let_def)
  qed
qed

lemma decodes_match:
  assumes "level = 1 \<or> level = 2" "tok_ok level sz (Mat n d)"
  shows "decodes level (n - 2) (d - 1) (enc_tok level (Mat n d))"
proof -
  have n: "1 \<le> n - 2"
    using assms(2) by (simp add: le_diff_conv2)
  show ?thesis
proof (cases "level = 2")
  case True
  show ?thesis
  proof (cases "d - 1 < 8191")
    case near: True
    show ?thesis
      using assms True decodes2_near [OF n near] by (simp add: encode_match_def)
  next
    case False
    have "d - 1 < 8191 + 65536"
      using assms(2) True by (simp add: less_imp_diff_less)
    with False show ?thesis
      using assms True decodes2_far [OF n, of "d - 1"] by (simp add: encode_match_def)
  qed
next
  case False
  then have "n - 2 \<le> 262" "d - 1 < 8192"
    using assms by auto
  with False show ?thesis
    using assms decodes1 [OF n, of "d - 1"] by (simp add: encode_match_def)
qed
qed

text \<open>Decoding a token that is followed by \<open>rest\<close>.\<close>

definition decode_on :: "nat \<Rightarrow> nat \<Rightarrow> nat \<Rightarrow> byte list \<Rightarrow> byte list \<Rightarrow> (nat \<times> byte list) option" where
  "decode_on level over maxout src op =
     (if length src > over then flz_decompress level over maxout (unat (hd src)) (tl src) op
      else Some (length op, op))"

lemma length_play_ge: "length op \<le> length (play op ts)"
proof (induction op ts rule: play.induct)
  case (2 op bs ts)
  then show ?case
    by simp
next
  case (3 op n d ts)
  then show ?case
    by simp
qed simp

lemma decode_tok:
  assumes level: "level = 1 \<or> level = 2" and ok: "tok_ok level (length op) t"
    and room: "length (play op [t]) \<le> maxout" and over: "over \<le> length rest"
  shows "decode_on level over maxout (enc_tok level t @ rest) op = decode_on level over maxout rest (play op [t])"
proof (cases t)
  case (Lit bs)
  then have bs: "0 < length bs" "length bs \<le> 32"
    using ok by auto
  then have ctrl: "unat (byte_of (length bs - 1)) = length bs - 1"
    by (intro unat_byte_of) simp
  have cnt: "length bs - 1 + 1 = length bs" "\<not> 32 \<le> length bs - 1"
    using bs by simp_all
  show ?thesis
    using bs room over
    by (simp add: cnt Lit decode_on_def flz_decompress.simps [of level over maxout "length bs - 1" "bs @ rest" op] ctrl Let_def
        del: One_nat_def)
next
  case (Mat n d)
  have args: "3 \<le> n" "1 \<le> d" "d \<le> length op"
    using ok by (simp_all add: Mat)
  have "decodes level (n - 2) (d - 1) (enc_tok level t)"
    using decodes_match [OF level, of "length op" n d] ok unfolding Mat by blast
  then obtain c src where c: "enc_tok level t = c # src" "32 \<le> unat c"
    and m: "\<And>rest op. match_args level (unat c) (src @ rest) op = Some (n - 2 - 1, int op - int (d - 1), rest)"
    unfolding decodes_def by blast
  have n3: "n - 2 - 1 + 3 = n" and d1: "1 \<le> length op - (d - 1)"
    using args by linarith+
  have ref: "int (length op) - int (d - 1) = int (length op - (d - 1))"
    using args by (simp add: of_nat_diff)
  have copy: "copy_match (n - 2 - 1) (length op - (d - 1)) op = copy_bytes n (length op - d) op"
    using copy_match_bytes [OF args(2,3), of "n - 2 - 1"] by (simp only: n3)
  have fits: "\<not> length op + (n - 2 - 1) + 3 > maxout"
    using room n3 by (simp add: Mat)
  have pos: "\<not> int (length op - (d - 1)) - 1 < 0"
    using d1 by simp
  have "decode_on level over maxout (enc_tok level t @ rest) op = flz_decompress level over maxout (unat c) (src @ rest) op"
    using over by (simp add: decode_on_def c(1))
  also have "\<dots> = decode_on level over maxout rest (copy_bytes n (length op - d) op)"
    by (subst flz_decompress.simps)
      (simp only: c(2) if_True m option.case prod.case ref fits if_False pos nat_int copy Let_def decode_on_def)
  finally show ?thesis
    by (simp add: Mat)
qed

lemma decode_toks:
  assumes "level = 1 \<or> level = 2" "toks_ok level op ts" "length (play op ts) \<le> maxout" "over \<le> length rest"
  shows "decode_on level over maxout (enc level ts @ rest) op = decode_on level over maxout rest (play op ts)"
  using assms(2,3)
proof (induction ts arbitrary: op)
  case (Cons t ts)
  have p: "play op (t # ts) = play (play op [t]) ts"
    using play_append [of op "[t]" ts] by simp
  have room: "length (play op [t]) \<le> maxout"
    using Cons.prems(2) length_play_ge [of "play op [t]" ts] unfolding p by simp
  have "decode_on level over maxout (enc level (t # ts) @ rest) op =
      decode_on level over maxout (enc level ts @ rest) (play op [t])"
    using decode_tok [OF assms(1) _ room, of over "enc level ts @ rest"] Cons.prems(1) assms(4) by simp
  then show ?case
    using Cons.IH [of "play op [t]"] Cons.prems unfolding p by simp
qed simp

section \<open>What the compressor has written\<close>

lemma from_next:
  fixes i e :: nat
  shows "\<forall>j. i + 1 \<le> j \<and> j < e - 1 \<longrightarrow> P j \<Longrightarrow> P i \<Longrightarrow> \<forall>j. i \<le> j \<and> j < e - 1 \<longrightarrow> P j"
  by (metis Suc_eq_plus1 Suc_leI le_neq_implies_less)

lemma run_loop_props:
  assumes "run_loop inp x ip_bound (i - 1) i = e" "inp ! (i - 1) = x" "1 \<le> i"
  shows "(\<forall>j. i \<le> j \<and> j < e - 1 \<longrightarrow> inp ! (j - 1) = inp ! j) \<and> i \<le> e \<and> (e \<le> i \<or> e \<le> ip_bound) \<and>
    (i < ip_bound \<longrightarrow> i < e)"
  using assms
proof (induction "ip_bound - i" arbitrary: i)
  case 0
  then show ?case
    by (subst (asm) run_loop.simps) auto
next
  case (Suc k)
  have i: "i < ip_bound"
    using Suc(2) by simp
  have e: "run_loop inp x ip_bound i (i + 1) = e"
    using Suc.prems i by (subst (asm) run_loop.simps) simp
  show ?case
  proof (cases "i + 1 < ip_bound \<and> inp ! i = x")
    case True
    have k: "k = ip_bound - (i + 1)"
      using Suc(2) by simp
    have "(\<forall>j. i + 1 \<le> j \<and> j < e - 1 \<longrightarrow> inp ! (j - 1) = inp ! j) \<and> i + 1 \<le> e \<and> (e \<le> i + 1 \<or> e \<le> ip_bound) \<and>
        (i + 1 < ip_bound \<longrightarrow> i + 1 < e)"
      by (rule Suc(1) [OF k]) (use e True in simp_all)
    then obtain all: "\<forall>j. i + 1 \<le> j \<and> j < e - 1 \<longrightarrow> inp ! (j - 1) = inp ! j"
      and b: "i + 1 \<le> e" "e \<le> i + 1 \<or> e \<le> ip_bound"
      by blast
    have "\<forall>j. i \<le> j \<and> j < e - 1 \<longrightarrow> inp ! (j - 1) = inp ! j"
      by (rule from_next [OF all]) (use True Suc.prems in simp)
    moreover have "i \<le> e" "e \<le> i \<or> e \<le> ip_bound" "i < e"
      using b i by linarith+
    ultimately show ?thesis
      by blast
  next
    case False
    then have "e = i + 1"
      using e by (subst (asm) run_loop.simps) (auto split: if_splits)
    then show ?thesis
      using i by auto
  qed
qed

lemma cmp_loop_props:
  assumes "cmp_loop inp ip_bound (i - d) i = e" "d \<le> i"
  shows "(\<forall>j. i \<le> j \<and> j < e - 1 \<longrightarrow> inp ! (j - d) = inp ! j) \<and> i \<le> e \<and> (e \<le> i \<or> e \<le> ip_bound)"
  using assms
proof (induction "ip_bound - i" arbitrary: i)
  case 0
  then show ?case
    by (subst (asm) cmp_loop.simps) auto
next
  case (Suc k)
  have i: "i < ip_bound"
    using Suc(2) by simp
  show ?case
  proof (cases "inp ! (i - d) = inp ! i")
    case True
    have k: "k = ip_bound - (i + 1)"
      using Suc(2) by simp
    have e: "cmp_loop inp ip_bound (i + 1 - d) (i + 1) = e"
      using Suc.prems True i by (subst (asm) cmp_loop.simps) (simp add: Suc_diff_le)
    have "(\<forall>j. i + 1 \<le> j \<and> j < e - 1 \<longrightarrow> inp ! (j - d) = inp ! j) \<and> i + 1 \<le> e \<and> (e \<le> i + 1 \<or> e \<le> ip_bound)"
      by (rule Suc(1) [OF k e]) (use Suc.prems in simp)
    then obtain all: "\<forall>j. i + 1 \<le> j \<and> j < e - 1 \<longrightarrow> inp ! (j - d) = inp ! j"
      and b: "i + 1 \<le> e" "e \<le> i + 1 \<or> e \<le> ip_bound"
      by blast
    have "\<forall>j. i \<le> j \<and> j < e - 1 \<longrightarrow> inp ! (j - d) = inp ! j"
      by (rule from_next [OF all True])
    moreover have "i \<le> e" "e \<le> i \<or> e \<le> ip_bound"
      using b i by linarith+
    ultimately show ?thesis
      by blast
  next
    case False
    then have "e = i + 1"
      using Suc.prems i by (subst (asm) cmp_loop.simps) simp
    then show ?thesis
      using i by auto
  qed
qed

lemma cmp_unrolled_props:
  assumes "cmp_unrolled k inp ip_bound (i - d) i = e" "d \<le> i"
  shows "(\<forall>j. i \<le> j \<and> j < e - 1 \<longrightarrow> inp ! (j - d) = inp ! j) \<and> i \<le> e \<and> (e \<le> i + k \<or> e \<le> ip_bound) \<and>
    (0 < k \<longrightarrow> i < e)"
  using assms
proof (induction k arbitrary: i)
  case 0
  then show ?case
    using cmp_loop_props [of inp ip_bound i d e] by simp
next
  case (Suc k)
  show ?case
  proof (cases "inp ! (i - d) = inp ! i")
    case True
    have e: "cmp_unrolled k inp ip_bound (i + 1 - d) (i + 1) = e"
      using Suc.prems True by (simp add: Suc_diff_le)
    have "(\<forall>j. i + 1 \<le> j \<and> j < e - 1 \<longrightarrow> inp ! (j - d) = inp ! j) \<and> i + 1 \<le> e \<and>
        (e \<le> i + 1 + k \<or> e \<le> ip_bound) \<and> (0 < k \<longrightarrow> i + 1 < e)"
      by (rule Suc.IH [OF e]) (use Suc.prems in simp)
    then obtain all: "\<forall>j. i + 1 \<le> j \<and> j < e - 1 \<longrightarrow> inp ! (j - d) = inp ! j"
      and b: "i + 1 \<le> e" "e \<le> i + 1 + k \<or> e \<le> ip_bound"
      by blast
    have "\<forall>j. i \<le> j \<and> j < e - 1 \<longrightarrow> inp ! (j - d) = inp ! j"
      by (rule from_next [OF all True])
    moreover have "i \<le> e" "e \<le> i + Suc k \<or> e \<le> ip_bound" "i < e"
      using b by linarith+
    ultimately show ?thesis
      by blast
  next
    case False
    then have "e = i + 1"
      using Suc.prems by simp
    then show ?thesis
      by auto
  qed
qed

text \<open>What the search found: \<open>len\<close> bytes that agree with those \<open>d\<close> before.\<close>

lemma READU16_eq:
  assumes "FASTLZ_READU16 inp p = FASTLZ_READU16 inp q"
  shows "inp ! p = inp ! q" "inp ! (p + 1) = inp ! (q + 1)"
proof -
  have low: "ucast (FASTLZ_READU16 inp p) = inp ! p" for p
    by (rule bit_word_eqI) (auto simp: FASTLZ_READU16_def bit_simps)
  have high: "ucast (drop_bit 8 (FASTLZ_READU16 inp p)) = inp ! (p + 1)" for p
    by (rule bit_word_eqI) (auto simp: FASTLZ_READU16_def bit_simps dest: bit_imp_le_length)
  show "inp ! p = inp ! q" "inp ! (p + 1) = inp ! (q + 1)"
    using low high assms by metis+
qed

lemma HASH_less: "HASH_FUNCTION inp i < 8192"
proof -
  have "unat (v AND 8191 :: u32) \<le> unat (8191 :: u32)" for v
    by (simp only: word_le_nat_alt [symmetric] word_and_le1)
  then have "unat (v AND 8191 :: u32) < 8192" for v
    by (rule le_less_trans) simp
  then show ?thesis
    by (simp only: HASH_FUNCTION_def Let_def)
qed

lemma find_match_run:
  assumes "inp ! i = inp ! (i - 1)" "FASTLZ_READU16 inp (i - 1) = FASTLZ_READU16 inp (i + 1)" "1 \<le> i"
  shows "\<forall>j. i \<le> j \<and> j < i + 3 \<longrightarrow> inp ! (j - 1) = inp ! j"
proof (intro allI impI)
  fix j
  assume j: "i \<le> j \<and> j < i + 3"
  have eq: "inp ! (i - 1) = inp ! (i + 1)" "inp ! (i - 1 + 1) = inp ! (i + 1 + 1)"
    by (rule READU16_eq [OF assms(2)])+
  consider "j = i" | "j = i + 1" | "j = i + 2"
    using j by linarith
  then show "inp ! (j - 1) = inp ! j"
  proof cases
    case 3
    then show ?thesis
      using eq assms by simp
  qed (use eq assms in simp_all)
qed

lemma find_match_hash:
  assumes f: "find_match level inp i tab = (Some (ref, d, len), tab1)"
    and no_run: "\<not> (level = 2 \<and> inp ! i = inp ! (i - 1) \<and> FASTLZ_READU16 inp (i - 1) = FASTLZ_READU16 inp (i + 1))"
    and r0: "r0 = tab ! HASH_FUNCTION inp i"
  shows "d = i - r0 \<and> d \<noteq> 0 \<and> \<not> d \<ge> (if level = 1 then MAX_DISTANCE level else MAX_FARDISTANCE) \<and>
    inp ! r0 = inp ! i \<and> inp ! (r0 + 1) = inp ! (i + 1) \<and> inp ! (r0 + 2) = inp ! (i + 2) \<and>
    (len = 3 \<and> ref = r0 + 3 \<or>
      len = 5 \<and> ref = r0 + 5 \<and> inp ! (i + 3) = inp ! (r0 + 3) \<and> inp ! (i + 4) = inp ! (r0 + 4))"
  using f unfolding find_match_def if_not_P [OF no_run] Let_def r0 [symmetric]
  by (auto split: if_split_asm)

lemma find_match_props:
  assumes f: "find_match level inp i tab = (Some (ref, d, len), tab1)" and i: "1 \<le> i"
    and tab: "\<forall>x \<in> set tab. x \<le> i" "length tab = 8192" and level: "level = 1 \<or> level = 2"
  shows "1 \<le> d \<and> d \<le> i \<and> ref = i + len - d \<and> (len = 3 \<or> len = 5) \<and>
    (\<forall>j. i \<le> j \<and> j < i + len \<longrightarrow> inp ! (j - d) = inp ! j) \<and>
    (if level = 2 then d < MAX_FARDISTANCE else d < 8192)"
proof (cases "level = 2 \<and> inp ! i = inp ! (i - 1) \<and> FASTLZ_READU16 inp (i - 1) = FASTLZ_READU16 inp (i + 1)")
  case True
  then have "ref = i - 1 + 3" "d = 1" "len = 3"
    using f unfolding find_match_def if_P [OF True] by auto
  then show ?thesis
    using i True find_match_run [of inp i] by simp
next
  case False
  define r0 where "r0 = tab ! HASH_FUNCTION inp i"
  have "r0 \<le> i"
    using tab HASH_less by (simp add: r0_def)
  then obtain k where k: "i = r0 + k"
    using le_Suc_ex by blast
  have h: "d = k" "d \<noteq> 0" "\<not> d \<ge> (if level = 1 then MAX_DISTANCE level else MAX_FARDISTANCE)"
    and m: "inp ! r0 = inp ! i" "inp ! (r0 + 1) = inp ! (i + 1)" "inp ! (r0 + 2) = inp ! (i + 2)"
    and l: "len = 3 \<and> ref = r0 + 3 \<or>
      len = 5 \<and> ref = r0 + 5 \<and> inp ! (i + 3) = inp ! (r0 + 3) \<and> inp ! (i + 4) = inp ! (r0 + 4)"
    using find_match_hash [OF f False r0_def] k by auto
  have "\<forall>j. i \<le> j \<and> j < i + len \<longrightarrow> inp ! (j - d) = inp ! j"
  proof (intro allI impI)
    fix j
    assume j: "i \<le> j \<and> j < i + len"
    then have "j = i \<or> j = i + 1 \<or> j = i + 2 \<or> len = 5 \<and> (j = i + 3 \<or> j = i + 4)"
      using l by linarith
    then show "inp ! (j - d) = inp ! j"
      using m l h(1) k by (elim disjE conjE) simp_all
  qed
  moreover have "ref = i + len - d" "len = 3 \<or> len = 5" "d \<le> i" "1 \<le> d"
    using l h(1,2) k by auto
  moreover have "if level = 2 then d < MAX_FARDISTANCE else d < 8192"
    using h(3) level by (auto simp: MAX_DISTANCE_def)
  ultimately show ?thesis
    by blast
qed

lemma match_toks1:
  assumes "1 \<le> len" "1 \<le> d" "d \<le> length op" "d < 8192"
  shows "\<exists>us. enc 1 us = encode1 len (d - 1) \<and> toks_ok 1 op us \<and> play op us = copy_bytes (len + 2) (length op - d) op"
  using assms
proof (induction len "d - 1" arbitrary: op rule: encode1.induct)
  case (1 len)
  show ?case
  proof (cases "len > MAX_LEN - 2")
    case True
    let ?op1 = "copy_bytes 262 (length op - d) op"
    have "1 \<le> len - (MAX_LEN - 2)"
      using True by linarith
    then obtain us where us: "enc 1 us = encode1 (len - 262) (d - 1)" "toks_ok 1 ?op1 us"
        "play ?op1 us = copy_bytes (len - 262 + 2) (length ?op1 - d) ?op1"
      using 1(1) [OF True, of ?op1] 1(2-5) True by (auto simp del: copy_bytes.simps)
    have "encode1 len (d - 1) = enc_tok 1 (Mat 262 d) @ encode1 (len - 262) (d - 1)"
      using True by (subst encode1.simps) (simp add: encode_match_def encode1.simps [of 260])
    moreover have "copy_bytes (len + 2) (length op - d) op = copy_bytes (len - 262 + 2) (length op - d + 262) ?op1"
      using copy_bytes_add [of 262 "len - 262 + 2" "length op - d" op] True by (simp del: copy_bytes.simps)
    moreover have "length ?op1 - d = length op - d + 262"
      using 1(4) by simp
    ultimately show ?thesis
      using us 1(2-5) by (intro exI [of _ "Mat 262 d # us"]) (simp del: copy_bytes.simps)
  next
    case False
    then show ?thesis
      using 1(2-5) by (intro exI [of _ "[Mat (len + 2) d]"]) (simp add: encode_match_def del: copy_bytes.simps)
  qed
qed

lemma match_toks:
  assumes "level = 1 \<or> level = 2" "1 \<le> len" "1 \<le> d" "d \<le> length op"
    "if level = 2 then d < MAX_FARDISTANCE else d < 8192"
  shows "\<exists>us. enc level us = encode_match level len (d - 1) \<and> toks_ok level op us \<and>
    play op us = copy_bytes (len + 2) (length op - d) op"
proof (cases "level = 2")
  case True
  then show ?thesis
    using assms by (intro exI [of _ "[Mat (len + 2) d]"]) (simp del: copy_bytes.simps)
next
  case False
  then show ?thesis
    using assms match_toks1 [of len d op] by (auto simp: encode_match_def)
qed

section \<open>The invariant of the compressor\<close>

definition pending :: "byte list \<Rightarrow> flz \<Rightarrow> byte list" where
  "pending inp s = drop (ip s - copy s) (take (ip s) inp)"

definition flz_inv :: "nat \<Rightarrow> byte list \<Rightarrow> flz \<Rightarrow> bool" where
  "flz_inv level inp s \<longleftrightarrow>
     2 \<le> ip s \<and> ip s \<le> length inp \<and> copy s < 32 \<and> copy s \<le> ip s \<and>
     length (htab s) = 8192 \<and> (\<forall>x \<in> set (htab s). x \<le> ip s) \<and>
     (\<exists>ts. toks_ok level [] ts \<and> play [] ts = take (ip s - copy s) inp \<and>
        out s = enc level ts @ byte_of 31 # pending inp s)"

lemma length_pending: "copy s \<le> ip s \<Longrightarrow> ip s \<le> length inp \<Longrightarrow> length (pending inp s) = copy s"
  by (simp add: pending_def)

lemma take_pending:
  "copy s \<le> ip s \<Longrightarrow> ip s \<le> length inp \<Longrightarrow> take (ip s - copy s) inp @ pending inp s = take (ip s) inp"
  unfolding pending_def by (metis append_take_drop_id diff_le_self min.absorb1 take_take)

lemma flz_inv_close:
  assumes "flz_inv level inp s"
  shows "\<exists>ts. toks_ok level [] ts \<and> play [] ts = take (ip s) inp \<and> close_copy (copy s) (out s) = enc level ts"
proof -
  obtain ts where ts: "toks_ok level [] ts" "play [] ts = take (ip s - copy s) inp"
      "out s = enc level ts @ byte_of 31 # pending inp s"
    and b: "ip s \<le> length inp" "copy s < 32" "copy s \<le> ip s"
    using assms by (auto simp: flz_inv_def)
  have len: "length (pending inp s) = copy s"
    by (rule length_pending [OF b(3,1)])
  show ?thesis
  proof (cases "copy s = 0")
    case True
    then have "pending inp s = []"
      using len by simp
    with True ts show ?thesis
      by (intro exI [of _ ts]) (simp add: close_copy_def butlast_append)
  next
    case False
    then have "close_copy (copy s) (out s) = enc level (ts @ [Lit (pending inp s)])"
      using ts(3) len by (simp add: close_copy_def list_update_append)
    then show ?thesis
      using False ts b len take_pending [OF b(3,1)] by (intro exI [of _ "ts @ [Lit (pending inp s)]"]) auto
  qed
qed

lemma step_literal_inv:
  assumes inv: "flz_inv level inp s" and i: "ip s < length inp"
  shows "flz_inv level inp (step_literal inp s)"
proof -
  obtain ts where ts: "toks_ok level [] ts" "play [] ts = take (ip s - copy s) inp"
      "out s = enc level ts @ byte_of 31 # pending inp s"
    and b: "2 \<le> ip s" "ip s \<le> length inp" "copy s < 32" "copy s \<le> ip s"
    and tab: "length (htab s) = 8192" "\<forall>x \<in> set (htab s). x \<le> ip s"
    using inv by (auto simp: flz_inv_def)
  have more: "drop (ip s - copy s) (take (Suc (ip s)) inp) = pending inp s @ [inp ! ip s]"
    using i b(4) by (simp add: pending_def take_Suc_conv_app_nth)
  have tab1: "\<forall>x \<in> set (htab s). x \<le> Suc (ip s)"
    using tab(2) by auto
  show ?thesis
  proof (cases "copy s + 1 = 32")
    case True
    have "play [] (ts @ [Lit (pending inp s @ [inp ! ip s])]) = take (Suc (ip s)) inp"
      using ts(2) take_pending [OF b(4,2)] i by (simp add: take_Suc_conv_app_nth)
    moreover have "toks_ok level [] (ts @ [Lit (pending inp s @ [inp ! ip s])])"
      using ts(1) length_pending [OF b(4,2)] True by simp
    moreover have "out (step_literal inp s) = enc level (ts @ [Lit (pending inp s @ [inp ! ip s])]) @ [byte_of 31]"
      using ts(3) True length_pending [OF b(4,2)] by (simp add: step_literal_def Let_def)
    ultimately show ?thesis
      using True b tab tab1 i unfolding flz_inv_def
      by (intro conjI exI [of _ "ts @ [Lit (pending inp s @ [inp ! ip s])]"])
        (simp_all add: step_literal_def pending_def Let_def del: enc_simps)
  next
    case False
    then show ?thesis
      using ts b tab tab1 i more unfolding flz_inv_def
      by (intro conjI exI [of _ ts]) (simp_all add: step_literal_def pending_def Let_def)
  qed
qed

lemma find_match_tab:
  assumes "find_match level inp i tab = (m, tab1)" "\<forall>x \<in> set tab. x \<le> i"
  shows "length tab1 = length tab \<and> (\<forall>x \<in> set tab1. x \<le> i)"
proof -
  have "tab1 = tab \<or> tab1 = tab[HASH_FUNCTION inp i := i]"
    using assms(1) unfolding find_match_def Let_def by (auto split: if_split_asm)
  then show ?thesis
    using assms(2) set_update_subset_insert [of tab "HASH_FUNCTION inp i" i] by auto
qed

lemma set_update_bound:
  "\<forall>x \<in> set tab. x \<le> b \<Longrightarrow> y \<le> b \<Longrightarrow> \<forall>x \<in> set (tab[h := y]). x \<le> (b :: nat)"
  using set_update_subset_insert [of tab h y] by auto

definition match_end :: "byte list \<Rightarrow> nat \<Rightarrow> nat \<times> nat \<times> nat \<Rightarrow> nat" where
  "match_end inp i m =
     (let (ref, d, len) = m in
      if d - 1 = 0 then run_loop inp (inp ! (i + len - 1)) (length inp - 2) ref (i + len)
      else cmp_unrolled 8 inp (length inp - 2) ref (i + len))"

lemma match_end_props:
  assumes f: "find_match level inp i tab = (Some (ref, d, len), tab1)" and i: "1 \<le> i" "i + 12 < length inp"
    and tab: "\<forall>x \<in> set tab. x \<le> i" "length tab = 8192" and level: "level = 1 \<or> level = 2"
    and e: "e = match_end inp i (ref, d, len)"
  shows "i + 4 \<le> e \<and> e \<le> length inp \<and> (\<forall>j. i \<le> j \<and> j < e - 1 \<longrightarrow> inp ! (j - d) = inp ! j)"
proof -
  have d: "1 \<le> d" "d \<le> i" "ref = i + len - d" "len = 3 \<or> len = 5"
    and low: "\<forall>j. i \<le> j \<and> j < i + len \<longrightarrow> inp ! (j - d) = inp ! j"
    using find_match_props [OF f i(1) tab level] by auto
  have ext: "(\<forall>j. i + len \<le> j \<and> j < e - 1 \<longrightarrow> inp ! (j - d) = inp ! j) \<and> i + len < e \<and>
      (e \<le> i + len + 8 \<or> e \<le> length inp - 2)"
  proof (cases "d = 1")
    case True
    have "run_loop inp (inp ! (i + len - 1)) (length inp - 2) (i + len - 1) (i + len) = e"
      using True d(3) by (simp add: e match_end_def)
    from run_loop_props [OF this refl] have "(\<forall>j. i + len \<le> j \<and> j < e - 1 \<longrightarrow> inp ! (j - 1) = inp ! j) \<and>
        i + len \<le> e \<and> (e \<le> i + len \<or> e \<le> length inp - 2) \<and> (i + len < length inp - 2 \<longrightarrow> i + len < e)"
      using i by simp
    moreover have "i + len < length inp - 2"
      using i d(4) by auto
    ultimately show ?thesis
      using True by auto
  next
    case False
    have "cmp_unrolled 8 inp (length inp - 2) (i + len - d) (i + len) = e"
      using False d(1,3) by (simp add: e match_end_def del: cmp_unrolled.simps)
    from cmp_unrolled_props [OF this] show ?thesis
      using d(2) by auto
  qed
  have "\<forall>j. i \<le> j \<and> j < e - 1 \<longrightarrow> inp ! (j - d) = inp ! j"
    using low ext by (metis linorder_not_less)
  moreover have "i + 4 \<le> e" "e \<le> length inp"
    using ext d(4) i by auto
  ultimately show ?thesis
    by blast
qed

lemma step_match_fields:
  "step_match level inp (ref, d, len) s =
     (let e = match_end inp (ip s) (ref, d, len) in
      \<lparr>ip = e - 3 + 2, copy = 0,
       out = close_copy (copy s) (out s) @ encode_match level (e - 3 - ip s) (d - 1) @ [byte_of 31],
       htab = (htab s)[HASH_FUNCTION inp (e - 3) := e - 3, HASH_FUNCTION inp (e - 3 + 1) := e - 3 + 1]\<rparr>)"
  by (simp add: step_match_def match_end_def Let_def del: cmp_unrolled.simps)

lemma step_match_inv:
  assumes inv: "flz_inv level inp s" and i: "ip s + 12 < length inp" and level: "level = 1 \<or> level = 2"
    and f: "find_match level inp (ip s) (htab s) = (Some m, tab1)"
  shows "flz_inv level inp (step_match level inp m (s\<lparr>htab := tab1\<rparr>))"
proof -
  obtain ref d len where m: "m = (ref, d, len)"
    by (cases m)
  have b: "2 \<le> ip s" and tab: "length (htab s) = 8192" "\<forall>x \<in> set (htab s). x \<le> ip s"
    using inv by (auto simp: flz_inv_def)
  define e where "e = match_end inp (ip s) (ref, d, len)"
  have f1: "find_match level inp (ip s) (htab s) = (Some (ref, d, len), tab1)"
    using f by (simp add: m)
  have d: "1 \<le> d" "d \<le> ip s" "if level = 2 then d < MAX_FARDISTANCE else d < 8192"
    using find_match_props [OF f1 _ tab(2,1) level] b by auto
  have e: "ip s + 4 \<le> e" "e \<le> length inp" "\<forall>j. ip s \<le> j \<and> j < e - 1 \<longrightarrow> inp ! (j - d) = inp ! j"
    using match_end_props [OF f1 _ i tab(2,1) level e_def] b by auto
  obtain ts where ts: "toks_ok level [] ts" "play [] ts = take (ip s) inp" "close_copy (copy s) (out s) = enc level ts"
    using flz_inv_close [OF inv] by blast
  have len: "length (take (ip s) inp) = ip s"
    using i by simp
  have pos: "1 \<le> e - 3 - ip s" "d \<le> length (take (ip s) inp)"
    using e(1) d(2) unfolding len by linarith+
  obtain us where us: "enc level us = encode_match level (e - 3 - ip s) (d - 1)"
      "toks_ok level (take (ip s) inp) us"
      "play (take (ip s) inp) us = copy_bytes (e - 3 - ip s + 2) (ip s - d) (take (ip s) inp)"
    using match_toks [OF level pos(1) d(1) pos(2) d(3)] unfolding len by blast
  have n: "e - 3 - ip s + 2 = e - 1 - ip s" "ip s + (e - 1 - ip s) = e - 1" "e - 3 + 2 = e - 1"
    using e(1) by linarith+
  have "copy_bytes (e - 1 - ip s) (ip s - d) (take (ip s) inp) = take (ip s + (e - 1 - ip s)) inp"
    using d e n by (intro copy_bytes_text) auto
  then have plays: "play (take (ip s) inp) us = take (e - 1) inp"
    using us(3) by (simp only: n)
  have tab1: "length tab1 = 8192" "\<forall>x \<in> set tab1. x \<le> e - 1"
    using find_match_tab [OF f tab(2)] tab(1) e(1) by auto
  have tab2: "\<forall>x \<in> set (tab1[HASH_FUNCTION inp (e - 3) := e - 3, HASH_FUNCTION inp (e - 3 + 1) := e - 3 + 1]). x \<le> e - 1"
    using e(1) by (intro set_update_bound tab1(2)) auto
  have n3: "Suc (Suc (e - 3)) = e - Suc 0"
    using e(1) by linarith
  have s1: "step_match level inp m (s\<lparr>htab := tab1\<rparr>) =
      \<lparr>ip = e - 1, copy = 0, out = enc level (ts @ us) @ [byte_of 31],
       htab = tab1[HASH_FUNCTION inp (e - 3) := e - 3, HASH_FUNCTION inp (e - 3 + 1) := e - 3 + 1]\<rparr>"
    by (simp add: m step_match_fields e_def [symmetric] Let_def ts(3) us(1) n3)
  show ?thesis
    unfolding s1 flz_inv_def
    using ts us plays tab1 tab2 e b
    by (intro conjI exI [of _ "ts @ us"]) (simp_all add: pending_def)
qed

lemma flz_step_inv:
  assumes "flz_inv level inp s" "ip s + 12 < length inp" "level = 1 \<or> level = 2"
  shows "flz_inv level inp (flz_step level inp s)"
proof (cases "find_match level inp (ip s) (htab s)")
  case (Pair m tab1)
  show ?thesis
  proof (cases m)
    case None
    have "\<forall>x \<in> set (htab s). x \<le> ip s"
      using assms(1) by (simp add: flz_inv_def)
    then have "flz_inv level inp (s\<lparr>htab := tab1\<rparr>)"
      using assms(1) find_match_tab [OF Pair] by (auto simp: flz_inv_def pending_def)
    then show ?thesis
      using step_literal_inv assms(2) by (simp add: flz_step_def Pair None)
  next
    case (Some q)
    then show ?thesis
      using step_match_inv assms Pair by (simp add: flz_step_def)
  qed
qed

lemma flz_loop_inv:
  "level = 1 \<or> level = 2 \<Longrightarrow> flz_inv level inp s \<Longrightarrow> flz_inv level inp (flz_loop level inp s)"
proof (induction level inp s rule: flz_loop.induct)
  case (1 level inp s)
  then show ?case
    using flz_step_inv [of level inp s] by (cases "ip s + 12 < length inp") (subst flz_loop.simps, simp)+
qed

lemma flz_rest_inv:
  "flz_inv level inp s \<Longrightarrow> flz_inv level inp (flz_rest inp s) \<and> ip (flz_rest inp s) = length inp"
proof (induction inp s rule: flz_rest.induct)
  case (1 inp s)
  show ?case
  proof (cases "ip s < length inp")
    case True
    then show ?thesis
      using 1 step_literal_inv by (subst (1 2) flz_rest.simps) simp
  next
    case False
    then have "ip s = length inp"
      using 1(2) by (simp add: flz_inv_def)
    then show ?thesis
      using 1(2) False by (subst (1 2) flz_rest.simps) simp
  qed
qed

section \<open>The input comes back\<close>

text \<open>The tokens of the compressed text, before the mark of the second level is set.\<close>

lemma compressor_toks:
  assumes level: "level = 1 \<or> level = 2" and len: "4 \<le> length inp"
  shows "\<exists>ts. toks_ok level [] ts \<and> play [] ts = inp \<and> ts \<noteq> [] \<and>
    FASTLZ_COMPRESSOR level inp =
      (if level = 2 then (enc level ts)[0 := enc level ts ! 0 OR 32] else enc level ts)"
proof -
  let ?s0 = "\<lparr>ip = 2, copy = 2, out = [byte_of (MAX_COPY - 1), inp ! 0, inp ! 1], htab = replicate 8192 0\<rparr>"
  have "take 2 inp = [inp ! 0, inp ! 1]"
    using len by (cases inp; cases "tl inp") auto
  then have "flz_inv level inp ?s0"
    using len unfolding flz_inv_def
    by (intro conjI exI [of _ "[]"]) (simp_all add: pending_def)
  then have inv: "flz_inv level inp (flz_rest inp (flz_loop level inp ?s0))"
    and full: "ip (flz_rest inp (flz_loop level inp ?s0)) = length inp"
    using flz_loop_inv [OF level] flz_rest_inv by blast+
  obtain ts where ts: "toks_ok level [] ts" "play [] ts = inp"
      "close_copy (copy (flz_rest inp (flz_loop level inp ?s0))) (out (flz_rest inp (flz_loop level inp ?s0))) = enc level ts"
    using flz_inv_close [OF inv] full by auto
  have "ts \<noteq> []"
    using ts(2) len by auto
  moreover have "FASTLZ_COMPRESSOR level inp =
      (if level = 2 then (enc level ts)[0 := enc level ts ! 0 OR 32] else enc level ts)"
    using len unfolding FASTLZ_COMPRESSOR_def Let_def ts(3) by simp
  ultimately show ?thesis
    using ts by blast
qed

lemma first_literal:
  assumes "toks_ok level [] (t # ts)"
  shows "\<exists>bs. t = Lit bs \<and> bs \<noteq> [] \<and> length bs \<le> 32"
  using assms by (cases t) auto

lemma mark_level2:
  assumes "n < 32"
  shows "unat ((byte_of n OR 32) AND 31) = n" "unat (drop_bit 5 (byte_of n OR 32)) = 1"
    "unat (byte_of n AND 31) = n" "unat (drop_bit 5 (byte_of n)) = 0"
proof -
  have all: "\<forall>n \<in> set [0..<32]. unat ((byte_of n OR 32) AND 31) = n \<and> unat (drop_bit 5 (byte_of n OR 32)) = 1 \<and>
      unat (byte_of n AND 31) = n \<and> unat (drop_bit 5 (byte_of n)) = 0"
    by code_simp
  have "n \<in> set [0..<32]"
    using assms by simp
  with all show "unat ((byte_of n OR 32) AND 31) = n" "unat (drop_bit 5 (byte_of n OR 32)) = 1"
    "unat (byte_of n AND 31) = n" "unat (drop_bit 5 (byte_of n)) = 0"
    by blast+
qed

lemma decompress_toks:
  assumes level: "level = 1 \<or> level = 2" and ok: "toks_ok level [] (Lit bs # ts)"
    and room: "length (play [] (Lit bs # ts)) \<le> maxout"
    and c: "unat (c AND 31) = length bs - 1" and len: "len = length (c # bs @ enc level ts)"
  shows "FASTLZ_DECOMPRESSOR level (c # bs @ enc level ts @ junk) (len + extra) maxout =
    (if length junk < extra then None
     else decode_on level (length junk - extra) maxout junk (play [] (Lit bs # ts)))"
proof (cases "length junk < extra")
  case True
  then show ?thesis
    by (simp add: FASTLZ_DECOMPRESSOR_def len)
next
  case False
  have n: "length bs - 1 < 256"
    using first_literal [OF ok] by auto
  have "FASTLZ_DECOMPRESSOR level (c # bs @ enc level ts @ junk) (len + extra) maxout =
      decode_on level (length junk - extra) maxout (enc level (Lit bs # ts) @ junk) []"
    using False less_imp_diff_less [of "length junk" _ extra]
    by (simp add: FASTLZ_DECOMPRESSOR_def decode_on_def c unat_byte_of [OF n] len less_Suc_eq_le diff_le_self le_trans
        trans_le_add2 del: One_nat_def)
  also have "\<dots> = decode_on level (length junk - extra) maxout junk (play [] (Lit bs # ts))"
    by (rule decode_toks [OF level ok room]) simp
  finally show ?thesis
    using False by simp
qed

text \<open>Bytes behind the compressed text that are taken for a part of it.\<close>

definition beyond :: "nat \<Rightarrow> nat \<Rightarrow> nat \<Rightarrow> byte list \<Rightarrow> byte list \<Rightarrow> (nat \<times> byte list) option" where
  "beyond level extra maxout junk op =
     (if length junk < extra then None else decode_on level (length junk - extra) maxout junk op)"

lemma compressed_level:
  assumes level: "level = 1 \<or> level = 2" and inp: "inp \<noteq> []" and room: "length inp \<le> maxout"
  shows "\<exists>lv. (lv = 1 \<or> lv = 2) \<and>
    fastlz_decompress (FASTLZ_COMPRESSOR level inp @ junk) (length (FASTLZ_COMPRESSOR level inp) + extra) maxout =
      beyond lv extra maxout junk inp"
proof (cases "length inp < 4")
  case True
  then have n: "length inp - 1 < 32"
    by simp
  have comp: "FASTLZ_COMPRESSOR level inp = byte_of (length inp - 1) # inp"
    using True inp by (simp add: FASTLZ_COMPRESSOR_def Let_def)
  have "toks_ok 1 [] [Lit inp]" "play [] [Lit inp] = inp"
    using True inp by simp_all
  then have "FASTLZ_DECOMPRESSOR 1 (byte_of (length inp - 1) # inp @ enc 1 [] @ junk)
      (length (byte_of (length inp - 1) # inp @ enc 1 []) + extra) maxout = beyond 1 extra maxout junk inp"
    using decompress_toks [of 1 inp "[]" maxout "byte_of (length inp - 1)"] room mark_level2(3) [OF n]
    by (simp add: beyond_def)
  then have "fastlz_decompress (FASTLZ_COMPRESSOR level inp @ junk) (length (FASTLZ_COMPRESSOR level inp) + extra) maxout =
      beyond 1 extra maxout junk inp"
    using mark_level2(4) [OF n] unfolding comp
    by (simp add: fastlz_decompress_def Let_def del: of_nat_diff One_nat_def)
  then show ?thesis
    by blast
next
  case False
  then obtain ts where ts: "toks_ok level [] ts" "play [] ts = inp" "ts \<noteq> []"
    and comp: "FASTLZ_COMPRESSOR level inp =
      (if level = 2 then (enc level ts)[0 := enc level ts ! 0 OR 32] else enc level ts)"
    using compressor_toks [OF level, of inp] by auto
  obtain bs us where bs: "ts = Lit bs # us" "bs \<noteq> []" "length bs \<le> 32"
    using ts(1,3) first_literal by (metis neq_Nil_conv)
  then have n: "length bs - 1 < 32"
    by (cases bs) auto
  have room1: "length (play [] (Lit bs # us)) \<le> maxout"
    using ts(2) bs(1) room by simp
  define c where "c = (if level = 2 then byte_of (length bs - 1) OR 32 else byte_of (length bs - 1))"
  have comp1: "FASTLZ_COMPRESSOR level inp = c # bs @ enc level us"
    unfolding comp c_def by (simp add: bs(1))
  have c: "unat (c AND 31) = length bs - 1" "unat (drop_bit 5 c) + 1 = level"
    using level mark_level2 [OF n] by (auto simp: c_def)
  have "FASTLZ_DECOMPRESSOR level (c # bs @ enc level us @ junk) (length (c # bs @ enc level us) + extra) maxout =
      beyond level extra maxout junk inp"
    using decompress_toks [OF level _ room1 c(1) refl, of junk extra] ts bs by (simp add: beyond_def)
  then have "fastlz_decompress (FASTLZ_COMPRESSOR level inp @ junk) (length (FASTLZ_COMPRESSOR level inp) + extra) maxout =
      beyond level extra maxout junk inp"
    using level c(2) unfolding comp1 by (auto simp: fastlz_decompress_def Let_def)
  then show ?thesis
    using level by blast
qed

lemma beyond_nothing [simp]: "beyond level 0 maxout junk op = Some (length op, op)"
  by (simp add: beyond_def decode_on_def)

text \<open>
  When the output is full, whatever follows fails the test of the output's end; it is only
  read. The result is then 0, but the output is there.
\<close>

lemma beyond_full:
  assumes "beyond level extra (length op) junk op = Some (rc, dst)"
  shows "dst = op"
  using assms
  by (auto simp: beyond_def decode_on_def flz_decompress.simps [of level "length junk - extra"] Let_def
      split: if_splits option.splits)

text \<open>
  C34: Whatever the input, FastLZ decompresses what it has compressed, at either level and
  into any buffer that is large enough, to the input; what is in memory behind the
  compressed text does not matter.
\<close>

theorem fastlz_roundtrip:
  assumes "inp \<noteq> []" "length inp \<le> maxout"
    and "cdata = fastlz_compress inp \<or> cdata = fastlz_compress_level 1 inp \<or> cdata = fastlz_compress_level 2 inp"
  shows "fastlz_decompress (cdata @ junk) (length cdata) maxout = Some (length inp, inp)"
proof -
  obtain level where "level = 1 \<or> level = 2" "cdata = FASTLZ_COMPRESSOR level inp"
    using assms(3) by (auto simp: fastlz_compress_def fastlz_compress_level_def split: if_splits)
  then show ?thesis
    using compressed_level [of level inp maxout junk 0] assms(1,2) by auto
qed

theorem fastlz_roundtrip_witness:
  "fastlz_decompress (fastlz_compress_level 2 (replicate 40 0x41) @ [7]) (length (fastlz_compress_level 2 (replicate 40 0x41))) 40 =
     Some (40, replicate 40 0x41)"
  using fastlz_roundtrip [of "replicate 40 0x41" 40 "fastlz_compress_level 2 (replicate 40 0x41)" "[7]"] by simp

end
