(* ===== verification/Fst_Flush_Ends.thy ===== *)
theory Fst_Flush_Ends
  imports Fst_Whole
begin

text \<open>
  A flush comes to its end: the walks along the links of all signals end and stay in memory,
  whatever the compressors make of the chains.
\<close>

text \<open>The writer while a flush has come to signal \<open>i\<close>.\<close>

definition at_signal :: "fstWriterContext \<Rightarrow> nat \<Rightarrow> fstWriterContext \<Rightarrow> bool" where
  "at_signal xc i x \<longleftrightarrow> vchg_mem x = vchg_mem xc \<and> vchg_siz x = vchg_siz xc \<and> length (curval_mem x) = length (curval_mem xc) \<and>
     tchn_handle x = tchn_handle xc \<and> length (valpos_mem x) = length (valpos_mem xc) \<and> drop i (valpos_mem x) = drop i (valpos_mem xc)"

lemma at_signal_nth:
  assumes "at_signal xc i x" "i < length (valpos_mem xc)"
  shows "peek (valpos_mem x) i = Some (valpos_mem xc ! i)"
proof -
  have "i < length (valpos_mem x)" "drop i (valpos_mem x) = drop i (valpos_mem xc)"
    using assms by (simp_all add: at_signal_def)
  then have "valpos_mem x ! i = valpos_mem xc ! i"
    using assms(2) by (metis hd_drop_conv_nth)
  then show ?thesis
    using assms by (simp add: at_signal_def)
qed

lemma at_signal_Suc: "at_signal xc i x \<Longrightarrow> at_signal xc (Suc i) x"
  by (simp add: at_signal_def) (metis drop_drop plus_1_eq_Suc)

lemma at_signal_put: "at_signal xc i (put bs x) \<longleftrightarrow> at_signal xc i x"
  by (simp add: at_signal_def put_def)

lemma store_chain_at_signal:
  assumes "at_signal xc i (fl_xc fl)"
  shows "at_signal xc (Suc i) (fl_xc (store_chain pk hm i vm wr fl))"
proof -
  have "at_signal xc (Suc i) (set_valpos i v (fl_xc fl))" for v
    using assms by (simp add: at_signal_def set_valpos_def) (metis drop_drop plus_1_eq_Suc)
  then show ?thesis
    by (simp add: store_chain_def Let_def put_varint_def at_signal_put split: prod.split)
qed

lemma flush_signal_ends:
  assumes "at_signal xc i (fl_xc fl)" "i < length (valpos_mem xc)" "has_chain xc W i"
  shows "\<exists>fl1. flush_signal pk hm i fl = Some fl1 \<and> at_signal xc (Suc i) (fl_xc fl1)"
proof (cases "vp_chain (valpos_mem xc ! i) = 0")
  case True
  then show ?thesis
    using assms(1) at_signal_nth [OF assms(1,2)] at_signal_Suc by (simp add: flush_signal_def Let_def)
next
  case False
  have mem: "vchg_mem (fl_xc fl) = vchg_mem xc" "vchg_siz (fl_xc fl) = vchg_siz xc"
    "length (curval_mem (fl_xc fl)) = length (curval_mem xc)"
    using assms(1) by (simp_all add: at_signal_def)
  obtain wr cv where w: "signal_chain (valpos_mem xc ! i) (vchg_mem xc) (unat (vchg_siz xc)) = Some wr"
      "checkpoint (valpos_mem xc ! i) (vchg_mem xc) (curval_mem (fl_xc fl)) = Some cv" "length cv = length (curval_mem xc)"
    using assms(3) False mem(3) by (auto simp: has_chain_def Let_def)
  have "at_signal xc i (fl_xc (fl\<lparr>fl_xc := (fl_xc fl)\<lparr>curval_mem := cv\<rparr>\<rparr>))"
    using assms(1) w(3) by (simp add: at_signal_def)
  then show ?thesis
    using store_chain_at_signal False at_signal_nth [OF assms(1,2)] w(1,2) mem by (simp add: flush_signal_def Let_def)
qed

lemma flush_signals_end:
  assumes "at_signal xc i (fl_xc fl)" "n \<le> length (valpos_mem xc)" "\<forall>j < n. has_chain xc W j"
  shows "\<exists>fl1. flush_signals pk hm [i..<n] fl = Some fl1 \<and> tchn_handle (fl_xc fl1) = tchn_handle xc"
  using assms
proof (induction "n - i" arbitrary: i fl)
  case 0
  then show ?case
    by (simp add: at_signal_def)
next
  case (Suc d)
  then have i: "i < n"
    by simp
  then obtain fl1 where 1: "flush_signal pk hm i fl = Some fl1" "at_signal xc (Suc i) (fl_xc fl1)"
    using flush_signal_ends [OF Suc.prems(1), of W pk hm] Suc.prems(2,3) by auto
  then show ?case
    using Suc.hyps(1) [of "Suc i" fl1] Suc.hyps(2) Suc.prems(2,3) i by (auto simp: upt_conv_Cons)
qed

lemma bind_ends: "\<exists>y. m = Some y \<Longrightarrow> \<exists>z. Option.bind m (\<lambda>x. Some (g x)) = Some z"
  by auto

lemma flush_ends:
  assumes n: "unat (xc_maxhandle xc) \<le> length (valpos_mem xc)" and W: "\<forall>j < unat (xc_maxhandle xc). has_chain xc W j"
    and tims: "tchn_handle xc \<noteq> []"
  shows "\<exists>xc1. fstWriterFlushContextPrivate pk xc = Some xc1"
proof -
  let ?x = "put [if fourpack xc then 0x34 else if fastpack xc then 0x46 else 0x5a]
      (put_varint (ucast (xc_maxhandle xc)) (xc\<lparr>already_in_flush := True, section_header_only := False\<rparr>))"
  have "at_signal xc 0 ?x"
    by (simp add: at_signal_def put_varint_def put_def)
  then obtain fl where fl: "flush_signals pk (hashmask_of (xc_maxhandle xc)) [0..<unat (xc_maxhandle xc)]
       \<lparr>fl_xc = ?x, fl_fpos = 1, fl_tab = None, fl_memreq = 0\<rparr> = Some fl" "tchn_handle (fl_xc fl) = tchn_handle xc"
    using flush_signals_end [OF _ n W, of 0 "\<lparr>fl_xc = ?x, fl_fpos = 1, fl_tab = None, fl_memreq = 0\<rparr>"] by auto
  have put: "\<exists>y. put_times pk x = Some y" if "tchn_handle x \<noteq> []" for x
    using that by (simp add: put_times_def Let_def put64_def put_def)
  show ?thesis
    unfolding fstWriterFlushContextPrivate_def Let_def
    using fl tims by (auto simp: put64_def put_def put_varint_def intro!: bind_ends put)
qed

text \<open>
  C5: A flush after any calls that fit the memory returns: the walks along the links of all
  signals, which are loops without a bound in the code, come to their end and stay in memory
  and in their buffer, whatever the compressors return.
\<close>

theorem flush_returns:
  assumes "vc_fresh xc" "file_fresh xc" "layout_ok xc" "list_all (good_vc (sig_lens xc)) cs"
    and "1 + sum_list (map vc_size cs) < unat (fst_break_size xc)" "fst_break_size xc \<le> 0x80000000"
  shows "\<exists>xc1 xc2. run_vcs pk (Time_change tim # cs) xc = Some xc1 \<and> fstWriterFlushContextPrivate pk xc1 = Some xc2"
proof -
  obtain tims lg where log: "log_calls cs ([tim], \<lambda>_. []) = (tims, lg)"
    by (cases "log_calls cs ([tim], \<lambda>_. [])")
  obtain x0 where 0: "run_vc pk (Time_change tim) xc = Some x0" "holds_full x0 ([tim], \<lambda>_. [])" "sig_lens x0 = sig_lens xc"
      "vchg_siz x0 = 1" "fst_break_size x0 = fst_break_size xc" "xc_maxhandle x0 = xc_maxhandle xc"
    using first_time_fields [OF assms(1)] by blast
  have 00: "curval_mem x0 = curval_mem xc" "map vp_offs (valpos_mem x0) = map vp_offs (valpos_mem xc)"
    using first_time_file [OF assms(1), of _ _ pk tim] assms(2) 0(1) unfolding file_fresh_headed by fastforce+
  obtain x1 where 1: "run_vcs pk cs x0 = Some x1" "holds_full x1 (tims, lg)" "same_file x0 x1"
    using run_vcs_log [OF 0(2), of cs pk] assms(4-6) log 0(3-5) by auto
  note D = same_file_D [OF 1(3)]
  have n: "unat (xc_maxhandle x1) = length (valpos_mem x1)" "length (valpos_mem x1) = length (valpos_mem xc)"
    using 1(2) D(2,4) 0(3) by (auto simp: holds_full_def vc_ready_def sig_lens_def dest: arg_cong [of _ _ length])
  have "has_chain x1 (log_chains (sig_lens x1) lg) i" if i: "i < length (valpos_mem x1)" for i
  proof (rule holds_has_chain [OF 1(2) i])
    have "map vp_offs (valpos_mem x1) = map vp_offs (valpos_mem xc)" "map vp_len (valpos_mem x1) = map vp_len (valpos_mem xc)"
      using D(4,5) 00(2) 0(3) by (simp_all add: sig_lens_def)
    then have "vp_offs (valpos_mem x1 ! i) = vp_offs (valpos_mem xc ! i)" "vp_len (valpos_mem x1 ! i) = vp_len (valpos_mem xc ! i)"
      using i n(2) by (metis nth_map)+
    then show "unat (vp_offs (valpos_mem x1 ! i)) + unat (vp_len (valpos_mem x1 ! i)) \<le> length (curval_mem x1)"
      using layout_room [OF assms(3), of i] i n D(10) 00(1) by simp
  qed
  moreover have "tchn_handle x1 \<noteq> []"
    using 1(2) time_bytes_nonempty [of tims 0] by (simp add: holds_full_def)
  ultimately have "\<exists>xc2. fstWriterFlushContextPrivate pk x1 = Some xc2"
    using flush_ends [of x1 "log_chains (sig_lens x1) lg" pk] n by simp
  then show ?thesis
    using 0(1) 1(1) by simp
qed

theorem flush_returns_witness:
  "\<exists>xc1 xc2. run_vcs demo_packers [Time_change 3, Emit 1 [0x31], Emit_varlen 2 [0x61, 0x62], Time_change 5, Emit 1 [0x30]] demo_writer
      = Some xc1 \<and> fstWriterFlushContextPrivate demo_packers xc1 = Some xc2"
  by (rule flush_returns [OF demo_writer_fields(1) demo_writer_fresh demo_writer_layout])
    (simp_all add: demo_writer_fields)

end
