(* ===== verification/Fst_Stale.thy ===== *)
theory Fst_Stale
  imports Fst_Index
begin

text \<open>
  The index of a section read after that of another one: \<open>pidx\<close>, the signal whose chain length
  is to be set next, and the lengths are those of the section before.
\<close>

definition no_tables :: chain_state where
  "no_tables = \<lparr>ct_idx = 0, ct_pidx = 0, ct_pval = 0, ct_prev_alias = 0, ct_table = [], ct_lengths = []\<rparr>"

lemma fresh_new_tables: "0 < n \<Longrightarrow> fresh_tables (n + 1) (new_tables n no_tables)"
  by (simp add: fresh_tables_def new_tables_def no_tables_def)

section \<open>The entries before the first chain\<close>

lemma apply_zeros:
  "ct_idx st + j \<le> length (ct_table st) \<Longrightarrow>
     \<exists>st1. apply_entries (replicate j 0) st = Some st1 \<and> ct_idx st1 = ct_idx st + j \<and> ct_pidx st1 = ct_pidx st \<and>
       ct_lengths st1 = ct_lengths st \<and> length (ct_table st1) = length (ct_table st) \<and>
       (\<forall>m. ct_table st1 ! m = (if ct_idx st \<le> m \<and> m < ct_idx st + j then 0 else ct_table st ! m))"
proof (induction j arbitrary: st)
  case (Suc j)
  let ?st1 = "st\<lparr>ct_table := (ct_table st)[ct_idx st := 0], ct_idx := ct_idx st + 1\<rparr>"
  have "apply_entry 0 st = Some ?st1"
    using Suc.prems by (simp add: apply_entry_def set_chain_def)
  moreover obtain st2 where st2: "apply_entries (replicate j 0) ?st1 = Some st2" "ct_idx st2 = ct_idx st + 1 + j"
    "ct_pidx st2 = ct_pidx st" "ct_lengths st2 = ct_lengths st" "length (ct_table st2) = length (ct_table st)"
    "\<forall>m. ct_table st2 ! m = (if ct_idx st + 1 \<le> m \<and> m < ct_idx st + 1 + j then 0 else ct_table ?st1 ! m)"
    using Suc.IH [of ?st1] Suc.prems by auto
  ultimately show ?case
    using Suc.prems by (intro exI [of _ st2]) (auto simp: nth_list_update)
qed auto

section \<open>The entries from the first chain on\<close>

text \<open>The signal \<open>p\<close>, which has no chain now, keeps the length that the first chain has given it.\<close>

definition stale_at :: "u32 list \<Rightarrow> nat \<Rightarrow> u32 \<Rightarrow> nat \<Rightarrow> chain_state \<Rightarrow> bool" where
  "stale_at cs p l k st \<longleftrightarrow>
     ct_idx st = k \<and> length (ct_table st) = length cs + 1 \<and> length (ct_lengths st) = length cs + 1 \<and>
     ct_pidx st < k \<and> is_chain (cs ! ct_pidx st) \<and> ct_lengths st ! p = l \<and>
     (\<forall>m < k. ct_table st ! m = (if is_chain (cs ! m) then ucast (cs ! m) else 0))"

lemma stale_entry:
  assumes "stale_at cs p l k st" "k < length cs" "cs ! p = 0"
  shows "\<exists>st1. apply_entry (cs ! k) st = Some st1 \<and> stale_at cs p l (k + 1) st1"
proof -
  let ?c = "cs ! k"
  have f: "ct_idx st = k" "length (ct_table st) = length cs + 1" "length (ct_lengths st) = length cs + 1"
    "ct_pidx st < k" "ct_pidx st \<noteq> p"
    using assms by (auto simp: stale_at_def)
  consider "?c = 0" | "is_alias ?c" "?c \<noteq> 0" "\<not> is_chain ?c" "k \<noteq> p" | "is_chain ?c" "?c \<noteq> 0" "\<not> is_alias ?c"
    using assms(3) by (auto simp: is_chain_def)
  then show ?thesis
  proof cases
    case 1
    then have "apply_entry ?c st = Some (st\<lparr>ct_table := (ct_table st)[k := 0], ct_idx := k + 1\<rparr>)"
      using f assms(2) by (simp add: apply_entry_def set_chain_def)
    then show ?thesis
      using 1 assms(1,2) by (auto simp: stale_at_def less_Suc_eq nth_list_update)
  next
    case 2
    then have "apply_entry ?c st = Some (st\<lparr>ct_table := (ct_table st)[k := 0], ct_lengths := (ct_lengths st)[k := ?c],
        ct_idx := k + 1, ct_prev_alias := ?c\<rparr>)"
      using f assms(2) by (simp add: apply_entry_def index_alias_def set_chain_def set_length_def)
    then show ?thesis
      using 2 assms(1,2) by (auto simp: stale_at_def less_Suc_eq nth_list_update)
  next
    case 3
    let ?tab = "(ct_table st)[k := ucast ?c]"
    have "apply_entry ?c st = Some (st\<lparr>ct_pval := ucast ?c, ct_table := ?tab,
        ct_lengths := (ct_lengths st)[ct_pidx st := ucast (ucast ?c - ?tab ! ct_pidx st)], ct_pidx := k, ct_idx := k + 1\<rparr>)"
      using 3 f assms(2) by (simp add: apply_entry_def index_chain_def set_chain_def set_length_def Let_def)
    then show ?thesis
      using 3 assms(1,2) f(5) by (auto simp: stale_at_def less_Suc_eq nth_list_update)
  qed
qed

lemma stale_entries:
  assumes "stale_at cs p l k st" "k \<le> length cs" "cs ! p = 0"
  shows "\<exists>st1. apply_entries (drop k cs) st = Some st1 \<and> stale_at cs p l (length cs) st1"
  using assms(2,1)
proof (induction k arbitrary: st rule: inc_induct)
  case (step k)
  obtain st1 where "apply_entry (cs ! k) st = Some st1" "stale_at cs p l (k + 1) st1"
    using stale_entry [OF step.prems step.hyps(2) assms(3)] by blast
  then show ?case
    using step.IH [of st1] step.hyps(2) by (simp add: Cons_nth_drop_Suc [symmetric])
qed simp

lemma ucast_minus: "(ucast (ucast c - d :: u64) :: u32) = c - ucast d"
proof transfer
  fix c d :: int
  have "take_bit 32 (take_bit 32 c - d) = take_bit 32 (take_bit 32 (take_bit 32 c) - take_bit 32 d)"
    by (simp only: take_bit_diff)
  also have "\<dots> = take_bit 32 (take_bit 32 c - take_bit 32 (take_bit 64 d))"
    by simp
  also have "\<dots> = take_bit 32 (c - take_bit 64 d)"
    by (simp only: take_bit_diff)
  finally show "take_bit LENGTH(32) (take_bit LENGTH(64) (take_bit LENGTH(32) c - d)) = take_bit LENGTH(32) (c - take_bit LENGTH(64) d)"
    by simp
qed

lemma apply_first_chain:
  assumes "ct_idx st = 0" "length (ct_table st) = length cs + 1" "length (ct_lengths st) = length cs + 1"
    and "ct_pidx st = p" "j < p" "p < length cs" "0 < j" "is_chain (cs ! j)" "\<forall>m < j. cs ! m = 0"
  shows "\<exists>st1. apply_entries (take (j + 1) cs) st = Some st1 \<and>
    stale_at cs p (cs ! j - ucast (ct_table st ! p)) (j + 1) st1"
proof -
  have zeros: "take j cs = replicate j 0"
    using assms(5,6,9) by (intro nth_equalityI) simp_all
  obtain st1 where st1: "apply_entries (take j cs) st = Some st1" "ct_idx st1 = j" "ct_pidx st1 = p"
    "ct_lengths st1 = ct_lengths st" "length (ct_table st1) = length cs + 1"
    "\<forall>m. ct_table st1 ! m = (if m < j then 0 else ct_table st ! m)"
    using apply_zeros [of st j] assms(1,2,4-6) unfolding zeros by (simp add: less_imp_le) blast
  let ?c = "cs ! j" and ?tab = "(ct_table st1)[j := ucast (cs ! j)]"
  have c: "?c \<noteq> 0" "\<not> is_alias ?c"
    using assms(8) by (auto simp: is_chain_def)
  let ?st2 = "st1\<lparr>ct_pval := ucast ?c, ct_table := ?tab,
      ct_lengths := (ct_lengths st1)[p := ucast (ucast ?c - ?tab ! p)], ct_pidx := j, ct_idx := j + 1\<rparr>"
  have "apply_entry ?c st1 = Some ?st2"
    using c st1(2-5) assms(3,5-7) by (simp add: apply_entry_def index_chain_def set_chain_def set_length_def Let_def)
  moreover have "(ucast (ucast ?c - ?tab ! p) :: u32) = ?c - ucast (ct_table st ! p)"
    using st1(6) assms(5) by (simp add: ucast_minus)
  then have "stale_at cs p (?c - ucast (ct_table st ! p)) (j + 1) ?st2"
    unfolding stale_at_def using st1(2-6) assms(3,5-9) by (simp add: less_Suc_eq)
  moreover have "take (j + 1) cs = take j cs @ [?c]"
    using assms(5,6) by (simp add: take_Suc_conv_app_nth)
  ultimately show ?thesis
    using st1(1) by (simp add: apply_entries_append)
qed

section \<open>The references\<close>

lemma resolve_keeps:
  "m \<noteq> i \<or> ct_table st ! m \<noteq> 0 \<Longrightarrow>
     ct_table (resolve_alias i st) ! m = ct_table st ! m \<and> ct_lengths (resolve_alias i st) ! m = ct_lengths st ! m"
  by (auto simp: resolve_alias_def Let_def nth_list_update)

lemma fold_resolve_keeps:
  "m \<notin> set is \<or> ct_table st ! m \<noteq> 0 \<Longrightarrow>
     ct_table (fold resolve_alias is st) ! m = ct_table st ! m \<and> ct_lengths (fold resolve_alias is st) ! m = ct_lengths st ! m"
proof (induction "is" arbitrary: st)
  case (Cons i "is")
  then have "m \<noteq> i \<or> ct_table st ! m \<noteq> 0"
    by auto
  from resolve_keeps [OF this] show ?case
    using Cons.IH [of "resolve_alias i st"] Cons.prems by auto
qed simp

lemma resolve_reference:
  assumes "p < n" "n < length (ct_table st)" "length (ct_lengths st) = length (ct_table st)"
    and "ct_lengths st ! p = - word_of_nat (v + 1)" "v < p" "n < 2 ^ 31" "ct_table st ! p = 0" "ct_table st ! v \<noteq> 0"
  shows "ct_table (fold resolve_alias [0..<n] st) ! p = ct_table st ! v \<and>
    ct_table (fold resolve_alias [0..<n] st) ! v = ct_table st ! v \<and>
    ct_lengths (fold resolve_alias [0..<n] st) ! p = ct_lengths (fold resolve_alias [0..<n] st) ! v"
proof -
  have upt: "[0..<n] = [0..<p] @ p # [Suc p..<n]"
    using assms(1) by (metis le_add1 less_imp_add_positive upt_add_eq_append upt_rec zero_le add_0 less_imp_le_nat)
  let ?st1 = "fold resolve_alias [0..<p] st"
  let ?st2 = "resolve_alias p ?st1"
  have v: "ct_table ?st1 ! v = ct_table st ! v" "ct_lengths ?st1 ! v = ct_lengths st ! v"
    using fold_resolve_keeps [of v "[0..<p]" st] assms(8) by simp_all
  have p: "ct_table ?st1 ! p = 0" "ct_lengths ?st1 ! p = - word_of_nat (v + 1)"
    using fold_resolve_keeps [of p "[0..<p]" st] assms(4,7) by simp_all
  have small: "v + 1 < 2 ^ 31"
    using assms(1,5,6) by simp
  have neg: "sint (- word_of_nat (v + 1) :: u32) < 0"
  proof -
    have "sint (word_of_int (- int (v + 1)) :: u32) = - int (v + 1)"
      unfolding signed_of_int of_int_eq_id id_apply using small by (intro signed_take_bit_int_eq_self) simp_all
    moreover have "- word_of_nat (v + 1) = (word_of_int (- int (v + 1)) :: u32)"
      by simp
    ultimately show ?thesis
      by simp
  qed
  have ref: "unat (- (- word_of_nat (v + 1) :: u32) - 1) = v"
    using small by (simp add: unsigned_of_nat take_bit_nat_eq_self)
  have "?st2 = ?st1\<lparr>ct_table := (ct_table ?st1)[p := ct_table ?st1 ! v], ct_lengths := (ct_lengths ?st1)[p := ct_lengths ?st1 ! v]\<rparr>"
    unfolding resolve_alias_def Let_def p using neg ref assms(5) by simp
  then have st2: "ct_table ?st2 ! p = ct_table st ! v" "ct_lengths ?st2 ! p = ct_lengths st ! v"
    "ct_table ?st2 ! v = ct_table st ! v" "ct_lengths ?st2 ! v = ct_lengths st ! v"
    using v assms(1-3,5) by simp_all
  have "fold resolve_alias [0..<n] st = fold resolve_alias [Suc p..<n] ?st2"
    by (simp add: upt)
  then show ?thesis
    using fold_resolve_keeps [of p "[Suc p..<n]" ?st2] fold_resolve_keeps [of v "[Suc p..<n]" ?st2] st2 assms(5) by simp
qed

section \<open>Two sections\<close>

text \<open>The signals of a section, with chains at these positions.\<close>

definition positions :: "u32 list \<Rightarrow> valpos list" where
  "positions cs = map (\<lambda>c. \<lparr>vp_offs = 0, vp_len = 1, vp_chain = c, vp_tidx = 0\<rparr>) cs"

lemma positions_chain [simp]: "map vp_chain (positions cs) = cs" "length (positions cs) = length cs"
  by (simp_all add: positions_def comp_def)

lemma read_stale_index:
  assumes "2 * length cs < 2 ^ 32" "positions_grow cs 0"
    and "length (ct_table st) = length cs + 1" "length (ct_lengths st) = length cs + 1"
    and "ct_pidx st = p" "0 < j" "j < p" "p < length cs" "cs ! p = 0" "is_chain (cs ! j)" "\<forall>m < j. cs ! m = 0"
    and "cs ! j - ucast (ct_table st ! p) = - word_of_nat (v + 1)" "v < p" "is_chain (cs ! v)"
  shows "\<exists>st1. read_chain_table FST_BL_VCDATA_DYN_ALIAS2 (chain_index (positions cs) 0 0 0) end_offs st = Some st1 \<and>
    ct_table st1 ! p = ucast (cs ! v) \<and> ct_table st1 ! v = ucast (cs ! v) \<and> ct_lengths st1 ! p = ct_lengths st1 ! v"
proof -
  let ?st0 = "st\<lparr>ct_idx := 0, ct_pval := 0, ct_prev_alias := 0\<rparr>" and ?n = "length cs"
  have ne: "positions cs \<noteq> []"
    using assms(8) by (auto simp: positions_def)
  obtain st1 where st1: "apply_entries (take (j + 1) cs) ?st0 = Some st1"
    "stale_at cs p (- word_of_nat (v + 1)) (j + 1) st1"
    using apply_first_chain [of ?st0 cs p j] assms by auto
  obtain st2 where st2: "apply_entries (drop (j + 1) cs) st1 = Some st2" "stale_at cs p (- word_of_nat (v + 1)) ?n st2"
    using stale_entries [OF st1(2) _ assms(9)] assms(7,8) by auto
  have "apply_entries cs ?st0 = Some st2"
    using st1(1) st2(1) apply_entries_append [of "take (j + 1) cs" "drop (j + 1) cs" ?st0] by simp
  then have index: "read_index FST_BL_VCDATA_DYN_ALIAS2 (chain_index (positions cs) 0 0 0) ?st0 = Some st2"
    using read_index_entries [OF ne, of ?st0] assms(1,2) by simp
  have f: "ct_idx st2 = ?n" "length (ct_table st2) = ?n + 1" "length (ct_lengths st2) = ?n + 1" "ct_pidx st2 < ?n"
    "ct_pidx st2 \<noteq> p" "ct_lengths st2 ! p = - word_of_nat (v + 1)" "ct_table st2 ! p = 0" "ct_table st2 ! v = ucast (cs ! v)"
    using st2(2) assms(8,9,13,14) by (auto simp: stale_at_def)
  define st3 where "st3 = st2\<lparr>ct_table := (ct_table st2)[?n := end_offs],
      ct_lengths := (ct_lengths st2)[ct_pidx st2 := ucast (end_offs - (ct_table st2)[?n := end_offs] ! ct_pidx st2)]\<rparr>"
  have read: "read_chain_table FST_BL_VCDATA_DYN_ALIAS2 (chain_index (positions cs) 0 0 0) end_offs st =
      Some (fold resolve_alias [0..<?n] st3)"
    using index f by (simp add: read_chain_table_def set_chain_def set_length_def st3_def)
  have "ct_table st3 ! p = 0" "ct_lengths st3 ! p = - word_of_nat (v + 1)" "ct_table st3 ! v = ucast (cs ! v)"
    "length (ct_table st3) = ?n + 1" "length (ct_lengths st3) = ?n + 1"
    using f assms(8,13) by (simp_all add: st3_def)
  then show ?thesis
    using resolve_reference [of p ?n st3 v] assms(1,8,13,14) read by (simp add: is_chain_def ucast_eq_0_32)
qed

text \<open>
  C6: The index of a section is not read as it was written when another section was read before.
  Let the last signal with a chain in the first section be p, let p have none in the second
  one, and let the first chain of the second section be that of a signal j between the first one and p.
  The reader gives the length of that chain to p, where \<open>pidx\<close> still points to, and takes it
  from the position p had in the first section, so that it is negative when the new position is
  lower. It is then taken for a reference to the signal v that the difference encodes; if v is
  before p and has a chain, p gets the position and the length of that chain. Read after no
  other section, the same index has nothing for p.
\<close>

theorem stale_index_aliases:
  assumes "length cs0 = n" "length cs = n" "2 * n < 2 ^ 32"
    and "positions_grow cs0 0" "aliases_ok cs0" "\<not> is_alias end0" "positions_grow cs 0" "aliases_ok cs" "\<not> is_alias end1"
    and "last_chain cs0 p" "cs ! p = 0" "0 < j" "j < p" "is_chain (cs ! j)" "\<forall>m < j. \<not> is_chain (cs ! m)"
    and "unat (cs0 ! p) = unat (cs ! j) + v + 1" "v < p" "is_chain (cs ! v)"
  shows "\<exists>st1 st2 st3.
    read_chain_table FST_BL_VCDATA_DYN_ALIAS2 (chain_index (positions cs0) 0 0 0) (ucast end0) (new_tables n no_tables) = Some st1 \<and>
    read_chain_table FST_BL_VCDATA_DYN_ALIAS2 (chain_index (positions cs) 0 0 0) (ucast end1) (new_tables n st1) = Some st2 \<and>
    read_chain_table FST_BL_VCDATA_DYN_ALIAS2 (chain_index (positions cs) 0 0 0) (ucast end1) (new_tables n no_tables) = Some st3 \<and>
    ct_table st2 ! p = ct_table st2 ! v \<and> ct_table st2 ! v = ucast (cs ! v) \<and> ct_table st2 ! p \<noteq> 0 \<and>
    ct_lengths st2 ! p = ct_lengths st2 ! v \<and> ct_table st3 ! p = 0"
proof -
  have p: "p < n"
    using assms(1,10) by (simp add: last_chain_def)
  then have pos: "0 < n"
    by simp
  have ne: "positions cs0 \<noteq> []" "positions cs \<noteq> []"
    using pos assms(1,2) by (auto simp: positions_def)
  note fresh = fresh_new_tables [OF pos]
  obtain st1 where st1: "read_chain_table FST_BL_VCDATA_DYN_ALIAS2 (chain_index (positions cs0) 0 0 0) (ucast end0) (new_tables n no_tables) = Some st1"
    "entry_read cs0 end0 st1 p" "ct_pidx st1 = p" "length (ct_table st1) = n + 1" "length (ct_lengths st1) = n + 1"
    using read_written_tables [OF ne(1) _ _ assms(4,5) _ assms(6), of "new_tables n no_tables"] assms(1,3,10) fresh p by auto
  obtain st3 where st3: "read_chain_table FST_BL_VCDATA_DYN_ALIAS2 (chain_index (positions cs) 0 0 0) (ucast end1) (new_tables n no_tables) = Some st3"
    "entry_read cs end1 st3 p"
    using read_written_tables [OF ne(2) _ _ assms(7,8) _ assms(9), of "new_tables n no_tables"] assms(2,3) fresh p by auto
  have same: "new_tables n st1 = st1"
    using st1(4) by (simp add: new_tables_def)
  have zeros: "\<forall>m < j. cs ! m = 0"
    using aliases_before [OF assms(8)] assms(2,13,15) p unfolding chains_before_def is_chain_def
    by (metis less_trans)
  have "ct_table st1 ! p = ucast (cs0 ! p)"
    using st1(2) assms(10) by (simp add: entry_read_def last_chain_def)
  moreover have id: "(ucast (ucast x :: u64) :: u32) = x" for x :: u32
    by transfer simp
  ultimately have "(ucast (ct_table st1 ! p) :: u32) = cs0 ! p"
    by (simp add: id)
  moreover have "cs0 ! p = word_of_nat (unat (cs ! j) + v + 1)"
    by (simp only: assms(16) [symmetric]) simp
  ultimately have "cs ! j - ucast (ct_table st1 ! p) = - word_of_nat (v + 1)"
    by simp
  then obtain st2 where st2: "read_chain_table FST_BL_VCDATA_DYN_ALIAS2 (chain_index (positions cs) 0 0 0) (ucast end1) st1 = Some st2"
    "ct_table st2 ! p = ucast (cs ! v)" "ct_table st2 ! v = ucast (cs ! v)" "ct_lengths st2 ! p = ct_lengths st2 ! v"
    using read_stale_index [of cs st1 p j v "ucast end1"] assms(2,3,7,11-14,17,18) st1(3-5) zeros p by auto
  have "ct_table st3 ! p = 0"
    using st3(2) assms(11) by (simp add: entry_read_def)
  moreover have "(ucast (cs ! v) :: u64) \<noteq> 0"
    using assms(18) by (simp add: ucast_eq_0_32 is_chain_def)
  ultimately show ?thesis
    using st1(1) st2 st3(1) by (simp add: same)
qed

text \<open>
  The first and the fifth signal change in the first section, the second signal alone in the
  second one: the fifth signal gets its chain.
\<close>

theorem stale_index_aliases_witness:
  "\<exists>st1 st2.
     read_chain_table FST_BL_VCDATA_DYN_ALIAS2 (chain_index (positions [1, 0, 0, 0, 3]) 0 0 0) 5 (new_tables 5 no_tables) = Some st1 \<and>
     read_chain_table FST_BL_VCDATA_DYN_ALIAS2 (chain_index (positions [0, 1, 0, 0, 0]) 0 0 0) 3 (new_tables 5 st1) = Some st2 \<and>
     ct_table st2 ! 4 = 1 \<and> ct_table st2 ! 1 = 1 \<and> ct_lengths st2 ! 4 = ct_lengths st2 ! 1"
proof -
  have small: "\<not> is_alias 1" "\<not> is_alias 3" "\<not> is_alias 5" "is_chain 1" "is_chain 3"
    by code_simp+
  have cs: "positions_grow [1, 0, 0, 0, 3] 0" "aliases_ok [1, 0, 0, 0, 3]" "positions_grow [0, 1, 0, 0, 0] 0"
    "aliases_ok [0, 1, 0, 0, 0]" "last_chain [1, 0, 0, 0, 3] 4"
    using small by (auto simp: aliases_ok_def last_chain_def less_Suc_eq nth_Cons' split: if_splits)
  show ?thesis
    using stale_index_aliases [OF _ _ _ cs(1,2) small(3) cs(3,4) small(2) cs(5), of 5 1 1] small
    by auto
qed

end
