(* ===== verification/Spec2Isabelle.thy ===== *)
theory Spec2Isabelle
  imports Gdb_Safety Replay Fastlz_Correct Fst_Flush_Ends Fst_Stale
begin

text \<open>
  GDBWave is a GDB server that replays a simulated processor from a waveform file: it reads
  the retired program counters, the register writes and the memory writes from an FST file
  and answers a debugger from them. The development models the program from the socket to
  the bytes of the file, with the FST library that it is built with.

  \<^bold>\<open>Parts and theories.\<close> (Files are those under \<open>src/\<close> of the repository.)

  \<^item> Shared: \<open>Prelude\<close> (bytes, words, \<open>peek\<close> and \<open>store\<close>: reading and writing a buffer
    with the bound written out, \<open>None\<close> outside it) and \<open>C_Text\<close> (C strings and decimal numbers).
  \<^item> The debugger's side (\<open>gdbstub.cc\<close>, \<open>gdbstub_sys.cc\<close>, \<open>TcpServer.cc\<close>): \<open>Rsp_Codec\<close> (numbers,
    checksum, hexadecimal and binary payloads), \<open>Rsp_Conn\<close> and \<open>Rsp_Stream\<close> (receive buffer,
    packets, acknowledgements), \<open>Gdb_Sys\<close> (the replay target: position, registers,
    breakpoints), \<open>Gdb_Stub\<close> (the commands and the loops of \<open>dbg_main\<close> and \<open>dbg_sys_init\<close>),
    \<open>Gdb_Session\<close> (requests and replies), \<open>Gdb_Safety\<close> (whole sessions). The state of the
    server is the record \<open>stub\<close>: connection, packet buffer with the bytes of earlier packets,
    and the target \<open>dbg_sys\<close> with its three traces.
  \<^item> The traces (\<open>CpuTrace.cc\<close>, \<open>RegFileTrace.cc\<close>, \<open>MemTrace.cc\<close>): \<open>Cpu_Trace\<close>,
    \<open>Reg_File_Trace\<close>, \<open>Mem_Trace\<close>, over \<open>Sampling\<close> (signals sampled at clock edges; a locale for
    the three callbacks) and \<open>Fst_Process\<close> (\<open>FstProcess.cc\<close>: signal paths, the search for
    handles, the delivery of value changes).
  \<^item> The FST library (\<open>fst/fstapi.c\<close>), numbers and texts: \<open>Fst_Varint\<close>, \<open>Fst_Escape\<close>; the hash
    table: \<open>Fst_Jenkins\<close>; the reader's scope stack and process mask: \<open>Fst_Context\<close>; FastLZ
    (\<open>fst/fastlz.c\<close>): \<open>Fastlz\<close>, \<open>Fastlz_Correct\<close>.
  \<^item> The FST writer: \<open>Fst_Writer\<close> (context, header, hierarchy, variables), \<open>Fst_Values\<close> (value
    changes in memory, as records linked from the newest to the oldest), \<open>Fst_Flush\<close> (a section
    of the file: chains, index, times).
  \<^item> The FST reader: \<open>Fst_Hier\<close> (the hierarchy), \<open>Fst_Blocks\<close> (the sections: table of times, index,
    chains, traversal).
  \<^item> The whole file: \<open>Fst_Close\<close> (the last flush, the geometry, the blackouts, the packed hierarchy),
    \<open>Fst_Open\<close> (opening a file: header, geometry, sections, the hierarchy unpacked).
  \<^item> The program (\<open>main.cc\<close>): \<open>Start_Up\<close> (command line, configuration file, socket) and \<open>Gdbwave\<close>
    (\<open>FstProcess\<close> on the reader, the three traces, \<open>start_up\<close> up to the call of \<open>dbg_sys_init\<close> and
    \<open>gdbwave_main\<close> with its exit status).
  \<^bold>\<open>How they interact.\<close> \<open>FstProcess\<close> selects signals in the process mask and lets the reader call
  back for every change; the traces sample these changes; \<open>dbg_sys_init\<close> puts the traces into
  the target; \<open>dbg_main\<close> reads packets from the connection, moves the target and replies.
  What one part promises to another is stated as a locale and interpreted on the model:
  \<open>byte_source\<close>, \<open>byte_sink\<close>, \<open>payload_codec\<close>, \<open>replay_target\<close>, \<open>debugger_op\<close>, \<open>sampler\<close>,
  \<open>access_log\<close>, \<open>byte_dictionary\<close>.

  \<^bold>\<open>What is shown.\<close>

  \<^item> Sessions: every session over a trace that is not empty ends, keeps the traces and its place
    in the trace, and fails only by reading outside the packet buffer (\<open>session_safe\<close>); every
    packet gets its reply if the buffer does not end in the middle of an argument (\<open>one_reply\<close>), no
    packet is stored outside the buffer (\<open>recv_packet_in_bounds\<close>) and the replies are those of the protocol, computed
    from the traces (\<open>read_memory_served\<close>, \<open>read_registers_served\<close>, \<open>resume_served\<close>, ...).
  \<^item> Target: continue stops at the first instruction from the current one on that has a
    breakpoint, repeated resuming reaches every one; registers and memory are those of the
    time of the instruction.
  \<^item> Traces: each is the sampling of the waveform that its callback is meant to be.
  \<^item> Value changes, from the calls of the writer to those of the reader's callbacks.
    \<open>Fst_Values_Correct\<close> and \<open>Fst_Log\<close> relate the linked records in memory to a log of the calls
    (\<open>chain_in\<close>, \<open>holds_full\<close>); \<open>Fst_Section\<close>, \<open>Fst_Written\<close> and \<open>Fst_File_Log\<close> say what bytes a
    flush writes (\<open>layout\<close>, \<open>section_text\<close>); \<open>Fst_Flush_Ends\<close> that it returns; \<open>Fst_Index\<close> that the
    index is read as it was written; \<open>Fst_Decode\<close>, \<open>Fst_Load\<close> and \<open>Fst_Traverse\<close> that the texts are
    decoded and delivered in the order of time (\<open>chain_at\<close>, \<open>traverses\<close>); \<open>Fst_Roundtrip\<close>,
    \<open>Fst_File\<close> and \<open>Fst_Whole\<close> put both ends together (\<open>written_is_read\<close>).
  \<^item> Files: \<open>Fst_Closed\<close> gives the bytes of a closed file, \<open>Fst_Opened\<close> and \<open>Fst_Reopened\<close> what
    opening makes of them; \<open>Fst_Design\<close> starts from the calls that describe a design and states
    the life of a file (\<open>file_life\<close>).
  \<^item> The program on a file that was written: \<open>Waves\<close> shows that sampling does not depend on the
    order in which the reader delivers the changes of one time, if no signal changes together
    with a falling edge of the clock; \<open>Replayed_Wave\<close> relates the log of the writer to the
    waveform the callbacks see; \<open>Replay\<close> composes this with the start of the program: its traces
    are the samples of what the simulation emitted (\<open>simulation_replayed\<close>). The example is a run
    of the writer, the configuration and the program on ten signals.
  \<^item> The configuration: every parameter has the value of its last assignment
    (\<open>parseConfig_assigns\<close>), and a file of such lines is read as it was written
    (\<open>assignments_text\<close>).
  \<^item> Round trips of the encodings, and the defects that came to light, each as a theorem about
    the inputs that show it (\<open>full_packet_overreads\<close>, \<open>stale_arguments_used\<close>,
    \<open>corrupted_packet_ends_session\<close>, \<open>restart_shows_future\<close>, \<open>assignHandles_misses_last\<close>,
    \<open>MemTrace_alias_loses_writes\<close>, \<open>stale_index_aliases\<close>, ...).

  \<^bold>\<open>Conventions.\<close> A C function is a HOL function of the same name. \<open>None\<close> is undefined behaviour
  (an access outside a buffer, a value that was never stored) or an error for which the
  program exits, unless the theory says otherwise; error codes are values of sums. Integers
  are words of their width. There is no fuel: loops are structural, or have a measure, or,
  where links in memory could be cyclic, are \<open>partial_function (option)\<close>, for which
  \<open>chains_refine_log\<close> and \<open>flush_returns\<close> show that a value is returned. Bounds in
  hypotheses are those of the code: less than 2 to the 31 bytes for the chains of a section
  (a position with bit 31 is an alias) and for the text of an enumeration table (its size is an \<open>int\<close>), less than 2 to the 28 times in it (a distance is
  stored next to four bits), the break size of 2 to the 27 at which a flush is due.

  \<^bold>\<open>Parameters.\<close> zlib, LZ4, the \<open>%.16g\<close> of \<open>sprintf\<close> and the contents of fresh memory
  (\<open>packers\<close>, \<open>unpackers\<close>), \<open>realpath\<close>, the date, the files, what the calls of the socket return
  (\<open>environment\<close>), the arrival of data at the socket. The round
  trips assume of the compressors that decompression inverts compression
  (\<open>inverse_packers\<close>); \<open>demo_packers\<close> and \<open>demo_unpackers\<close> are instances.

  \<^bold>\<open>Not modelled.\<close> Logging and help texts; the conversion of a file to
  VCD text (the \<open>fv\<close> arguments, which the program does not use); the values at a time
  (\<open>fstReaderGetValueFromHandleAtTime\<close>, not called by the program); code that is not built
  (\<open>FST_WRITER_PARALLEL\<close>, \<open>FST_REMOVE_DUPLICATE_VC\<close>, \<open>#if 0\<close>); the stub under \<open>gdbstub/\<close>, from
  which \<open>gdbstub.cc\<close> was made and which is not built; the firmware under \<open>test_data/\<close>.
  The LZ4 code (\<open>fst/lz4.c\<close>) is a parameter. A file that is already compressed as a whole
  (\<open>FST_BL_ZWRAPPER\<close>) is unpacked by the parameter for zlib. Which texts the log gets, and the port
  the socket is bound to, have no effect on the model.
\<close>

end
